(* ===== verification/Prelude.thy ===== *)
theory Prelude
  imports Main "HOL-Library.Word"
begin

unbundle bit_operations_syntax

text \<open>
  Shared vocabulary of the development: the machine integers of the kernel, the outcome type
  of Rust code (a value, \<^verbatim>\<open>Err(())\<close> or a panic), checked slice and index access,
  and the little-endian byte encodings of the standard library
  (\<^verbatim>\<open>uN::from_le_bytes\<close>, \<^verbatim>\<open>to_le_bytes\<close>, \<^verbatim>\<open>swap_bytes\<close>).
  The kernel is built in release mode by default (\<^verbatim>\<open>MODE ?= release\<close> in the Makefile), so
  \<open>+\<close>, \<open>-\<close> and \<open>*\<close> on machine integers wrap, as they do on words here, while
  \<^verbatim>\<open>assert!\<close>, slice bounds and \<^verbatim>\<open>unwrap\<close> still panic.
\<close>

section \<open>Machine integers\<close>

type_synonym u8 = "8 word"
type_synonym u16 = "16 word"
type_synonym u32 = "32 word"
type_synonym u64 = "64 word"
type_synonym usize = "64 word"

section \<open>Outcomes\<close>

text \<open>
  A Rust computation returns a value, returns \<^verbatim>\<open>Err(())\<close>, or panics. A panic of this
  kernel halts the machine, so no state survives it. \<open>RawAccess\<close> marks an access through a
  raw pointer outside the memory it was set up for: undefined behaviour in the source.
\<close>

datatype panic = AssertFailed | IndexOutOfBounds | UnwrapFailed | ExplicitPanic | TodoPanic | DivByZero
  | RawAccess

datatype fault = ErrUnit | Panic panic

type_synonym 'a res = "fault + 'a"

definition rbind :: "'a res \<Rightarrow> ('a \<Rightarrow> 'b res) \<Rightarrow> 'b res" where
  "rbind m f = (case m of Inl e \<Rightarrow> Inl e | Inr x \<Rightarrow> f x)"

definition rassert :: "bool \<Rightarrow> unit res" where
  "rassert b = (if b then Inr () else Inl (Panic AssertFailed))"

definition unwrap_opt :: "'a option \<Rightarrow> 'a res" where
  "unwrap_opt x = (case x of None \<Rightarrow> Inl (Panic UnwrapFailed) | Some y \<Rightarrow> Inr y)"

text \<open>\<^verbatim>\<open>.expect(..)\<close> and \<^verbatim>\<open>.unwrap()\<close> on a \<^verbatim>\<open>Result<_, ()>\<close>: the error becomes a panic.\<close>

definition expect_res :: "'a res \<Rightarrow> 'a res" where
  "expect_res m = (case m of Inl ErrUnit \<Rightarrow> Inl (Panic UnwrapFailed) | _ \<Rightarrow> m)"

text \<open>The successful outcomes.\<close>

definition is_ok :: "'a res \<Rightarrow> bool" where
  "is_ok m = (case m of Inl _ \<Rightarrow> False | Inr _ \<Rightarrow> True)"

named_theorems res_simps \<open>unfolding of the outcome combinators\<close>

lemma rbind_Inr [simp, code_unfold]: "rbind (Inr x) f = f x"
  by (simp add: rbind_def)

lemma rbind_Inl [simp]: "rbind (Inl e) f = Inl e"
  by (simp add: rbind_def)

lemma rbind_eq_Inr [simp]: "rbind m f = Inr y \<longleftrightarrow> (\<exists>x. m = Inr x \<and> f x = Inr y)"
  by (auto simp: rbind_def split: sum.splits)

lemma rbind_eq_Inl: "rbind m f = Inl e \<longleftrightarrow> m = Inl e \<or> (\<exists>x. m = Inr x \<and> f x = Inl e)"
  by (auto simp: rbind_def split: sum.splits)

lemma rbind_assoc: "rbind (rbind m f) g = rbind m (\<lambda>x. rbind (f x) g)"
  by (auto simp: rbind_def split: sum.splits)

lemma rbind_cong [fundef_cong]:
  "m = m' \<Longrightarrow> (\<And>x. m' = Inr x \<Longrightarrow> f x = g x) \<Longrightarrow> rbind m f = rbind m' g"
  by (auto simp: rbind_def split: sum.splits)

lemma rassert_True [simp]: "rassert True = Inr ()"
  by (simp add: rassert_def)

lemma rassert_False [simp]: "rassert False = Inl (Panic AssertFailed)"
  by (simp add: rassert_def)

lemma rassert_eq_Inr [simp]: "rassert b = Inr u \<longleftrightarrow> b"
  by (simp add: rassert_def)

lemma unwrap_opt_simps [simp]:
  "unwrap_opt (Some x) = Inr x" "unwrap_opt None = Inl (Panic UnwrapFailed)"
  by (simp_all add: unwrap_opt_def)

lemma unwrap_opt_eq_Inr [simp]: "unwrap_opt x = Inr y \<longleftrightarrow> x = Some y"
  by (auto simp: unwrap_opt_def split: option.splits)

lemma expect_res_Inr [simp]: "expect_res (Inr x) = Inr x"
  by (simp add: expect_res_def)

lemma expect_res_eq_Inr [simp]: "expect_res m = Inr x \<longleftrightarrow> m = Inr x"
  by (auto simp: expect_res_def split: sum.splits fault.splits)

lemma expect_res_not_Err: "expect_res m \<noteq> Inl ErrUnit"
  by (auto simp: expect_res_def split: sum.splits fault.splits)

lemma is_ok_simps [simp]: "is_ok (Inr x)" "\<not> is_ok (Inl e)"
  by (simp_all add: is_ok_def)

section \<open>Outcomes of loops that may not return\<close>

text \<open>\<open>None\<close> stands for a loop that does not return.\<close>

definition obind :: "'a res option \<Rightarrow> ('a \<Rightarrow> 'b res option) \<Rightarrow> 'b res option" where
  "obind m f = Option.bind m (\<lambda>r. case r of Inl e \<Rightarrow> Some (Inl e) | Inr x \<Rightarrow> f x)"

lemma obind_simps [simp]:
  "obind (Some (Inr x)) f = f x" "obind (Some (Inl e)) f = Some (Inl e)" "obind None f = None"
  by (simp_all add: obind_def)

lemma obind_eq_ok:
  "obind m f = Some (Inr y) \<longleftrightarrow> (\<exists>x. m = Some (Inr x) \<and> f x = Some (Inr y))"
proof (cases m)
  case (Some r)
  then show ?thesis by (cases r) auto
qed simp

lemma obind_eq_None: "obind m f = None \<longleftrightarrow> m = None \<or> (\<exists>x. m = Some (Inr x) \<and> f x = None)"
proof (cases m)
  case (Some r)
  then show ?thesis by (cases r) auto
qed simp

section \<open>Checked slices and indices\<close>

definition slice_res :: "'a list \<Rightarrow> nat \<Rightarrow> nat \<Rightarrow> 'a list res" where
  "slice_res xs a b =
     (if a \<le> b \<and> b \<le> length xs then Inr (take (b - a) (drop a xs))
      else Inl (Panic IndexOutOfBounds))"

definition index_res :: "'a list \<Rightarrow> nat \<Rightarrow> 'a res" where
  "index_res xs i = (if i < length xs then Inr (xs ! i) else Inl (Panic IndexOutOfBounds))"

definition update_res :: "'a list \<Rightarrow> nat \<Rightarrow> 'a \<Rightarrow> 'a list res" where
  "update_res xs i v =
     (if i < length xs then Inr (xs[i := v]) else Inl (Panic IndexOutOfBounds))"

lemma slice_res_ok [simp]:
  "a \<le> b \<Longrightarrow> b \<le> length xs \<Longrightarrow> slice_res xs a b = Inr (take (b - a) (drop a xs))"
  by (simp add: slice_res_def)

lemma slice_res_eq_Inr:
  "slice_res xs a b = Inr ys \<longleftrightarrow> a \<le> b \<and> b \<le> length xs \<and> ys = take (b - a) (drop a xs)"
  by (auto simp: slice_res_def)

lemma slice_res_append [simp]:
  "slice_res (xs @ ys @ zs) (length xs) (length xs + length ys) = Inr ys"
  by (simp add: slice_res_def)

lemma index_res_ok [simp]: "i < length xs \<Longrightarrow> index_res xs i = Inr (xs ! i)"
  by (simp add: index_res_def)

lemma index_res_eq_Inr [simp]: "index_res xs i = Inr x \<longleftrightarrow> i < length xs \<and> x = xs ! i"
  by (auto simp: index_res_def)

lemma index_res_out: "length xs \<le> i \<Longrightarrow> index_res xs i = Inl (Panic IndexOutOfBounds)"
  by (simp add: index_res_def)

lemma update_res_ok [simp]: "i < length xs \<Longrightarrow> update_res xs i v = Inr (xs[i := v])"
  by (simp add: update_res_def)

lemma update_res_eq_Inr [simp]:
  "update_res xs i v = Inr ys \<longleftrightarrow> i < length xs \<and> ys = xs[i := v]"
  by (auto simp: update_res_def)

text \<open>Division of machine integers panics for a zero divisor, also in release mode.\<close>

definition div_res :: "'a::len word \<Rightarrow> 'a word \<Rightarrow> 'a word res" where
  "div_res x y = (if y = 0 then Inl (Panic DivByZero) else Inr (x div y))"

lemma div_res_ok [simp]: "y \<noteq> 0 \<Longrightarrow> div_res x y = Inr (x div y)" "div_res x 0 = Inl (Panic DivByZero)"
  by (simp_all add: div_res_def)

lemma div_res_eq_Inr [simp]: "div_res x y = Inr z \<longleftrightarrow> y \<noteq> 0 \<and> z = x div y"
  by (auto simp: div_res_def)

section \<open>Little-endian encodings\<close>

fun le_val :: "u8 list \<Rightarrow> nat" where
  "le_val [] = 0"
| "le_val (b # bs) = unat b + 256 * le_val bs"

fun to_le :: "nat \<Rightarrow> nat \<Rightarrow> u8 list" where
  "to_le 0 n = []"
| "to_le (Suc k) n = of_nat n # to_le k (n div 256)"

text \<open>\<^verbatim>\<open>uN::from_le_bytes(bytes[a..b].try_into().unwrap())\<close> with constant \<open>a\<close>, \<open>b\<close>.\<close>

definition le_field :: "u8 list \<Rightarrow> nat \<Rightarrow> nat \<Rightarrow> 'w::len word res" where
  "le_field bs a b = rbind (slice_res bs a b) (\<lambda>x. Inr (of_nat (le_val x)))"

text \<open>\<^verbatim>\<open>u32::from_be\<close> on a little-endian machine.\<close>

definition swap_bytes32 :: "u32 \<Rightarrow> u32" where
  "swap_bytes32 x = of_nat (le_val (rev (to_le 4 (unat x))))"

lemma length_to_le [simp]: "length (to_le k n) = k"
  by (induction k arbitrary: n) auto

lemma unat_u8_bound: "unat (b :: u8) < 256"
  using unsigned_less [of b, where 'a = nat] by simp

lemma le_val_bound: "le_val bs < 256 ^ length bs"
proof (induction bs)
  case Nil
  then show ?case by simp
next
  case (Cons b bs)
  have "unat b < 256" by (rule unat_u8_bound)
  with Cons show ?case by simp
qed

lemma unat_of_nat_u8: "unat (of_nat n :: u8) = n mod 256"
  by (simp add: unat_of_nat)

lemma le_val_to_le: "le_val (to_le k n) = n mod 256 ^ k"
proof (induction k arbitrary: n)
  case 0
  then show ?case by simp
next
  case (Suc k)
  have "n mod (256 * 256 ^ k) = 256 * (n div 256 mod 256 ^ k) + n mod 256"
    by (rule mod_mult2_eq)
  then show ?case
    by (simp add: Suc unat_of_nat_u8)
qed

lemma to_le_le_val: "to_le (length bs) (le_val bs) = bs"
proof (induction bs)
  case Nil
  then show ?case by simp
next
  case (Cons b bs)
  have b: "unat b < 256" by (rule unat_u8_bound)
  then have "(unat b + 256 * le_val bs) div 256 = le_val bs" by simp
  moreover have "(of_nat (unat b + 256 * le_val bs) :: u8) = b"
  proof -
    have "unat (of_nat (unat b + 256 * le_val bs) :: u8) = unat b"
      using b by (simp only: unat_of_nat_u8) simp
    then show ?thesis by (simp add: word_unat_eq_iff)
  qed
  ultimately show ?case using Cons by simp
qed

lemma le_val_inj: "length xs = length ys \<Longrightarrow> le_val xs = le_val ys \<Longrightarrow> xs = ys"
  by (metis to_le_le_val)

lemma le_field_ok:
  "a \<le> b \<Longrightarrow> b \<le> length bs \<Longrightarrow>
     le_field bs a b = Inr (of_nat (le_val (take (b - a) (drop a bs))))"
  by (simp add: le_field_def)

lemma le_field_eq_Inr:
  "le_field bs a b = Inr w \<longleftrightarrow>
     a \<le> b \<and> b \<le> length bs \<and> w = of_nat (le_val (take (b - a) (drop a bs)))"
  by (auto simp: le_field_def slice_res_eq_Inr)

lemma le_field_panics:
  "a \<le> b \<Longrightarrow> length bs < b \<Longrightarrow> le_field bs a b = Inl (Panic IndexOutOfBounds)"
  by (simp add: le_field_def slice_res_def)

text \<open>A field written with \<^verbatim>\<open>to_le_bytes\<close> reads back as itself.\<close>

lemma le_val_to_le_unat:
  fixes w :: "'w::len word"
  assumes "LENGTH('w) = 8 * k"
  shows "le_val (to_le k (unat w)) = unat w"
proof -
  have "unat w < 2 ^ (8 * k)"
    using unsigned_less [of w, where 'a = nat] assms by simp
  also have "(2::nat) ^ (8 * k) = 256 ^ k"
    by (simp add: power_mult)
  finally show ?thesis
    by (simp add: le_val_to_le)
qed

lemma le_field_written:
  fixes w :: "'w::len word"
  assumes "LENGTH('w) = 8 * k" and "bs = pre @ to_le k (unat w) @ post"
  shows "le_field bs (length pre) (length pre + k) = Inr w"
  using assms by (simp add: le_field_def slice_res_def le_val_to_le_unat)

section \<open>Words\<close>

text \<open>\<^verbatim>\<open>usize::is_power_of_two\<close>.\<close>

definition is_power_of_two :: "usize \<Rightarrow> bool" where
  "is_power_of_two x = list_ex (\<lambda>k. x = 2 ^ k) [0..<64]"

lemma is_power_of_two_iff: "is_power_of_two x \<longleftrightarrow> (\<exists>k<64. x = 2 ^ k)"
  by (auto simp: is_power_of_two_def list_ex_iff)

lemma is_power_of_twoE:
  assumes "is_power_of_two x"
  obtains k where "k < 64" and "x = 2 ^ k" and "unat x = 2 ^ k"
proof -
  from assms obtain k where k: "k < 64" "x = 2 ^ k"
    by (auto simp: is_power_of_two_iff)
  have "(2::nat) ^ k < 2 ^ 64"
    by (rule power_strict_increasing) (use k in auto)
  then have "unat (of_nat (2 ^ k) :: usize) = 2 ^ k"
    by (simp only: unat_of_nat) simp
  with k show ?thesis
    by (intro that [of k]) auto
qed

lemma and_not_mask_eq_minus: "x AND NOT (mask k) = x - take_bit k x" for x :: "'a::len word"
proof -
  have "(x AND NOT (mask k)) AND take_bit k x = 0"
    by (rule bit_word_eqI) (auto simp: bit_simps)
  then have "(x AND NOT (mask k)) + take_bit k x = (x AND NOT (mask k)) OR take_bit k x"
    by (rule disjunctive_add_eq_or)
  also have "\<dots> = x"
    by (rule bit_word_eqI) (auto simp: bit_simps)
  finally show ?thesis
    by (simp add: eq_diff_eq)
qed

lemma unat_take_bit: "unat (take_bit k x) = unat x mod 2 ^ k" for x :: "'a::len word"
  by (simp only: unsigned_take_bit_eq) (simp add: take_bit_eq_mod)

lemma unat_and_not_mask:
  fixes x :: "'a::len word"
  shows "unat (x AND NOT (mask k)) = unat x - unat x mod 2 ^ k"
proof -
  have "take_bit k x \<le> x"
    by (simp add: word_le_nat_alt unat_take_bit)
  then show ?thesis
    by (simp add: and_not_mask_eq_minus unat_sub unat_take_bit)
qed

lemma u8_test: "(x AND push_bit n 1 \<noteq> 0) \<longleftrightarrow> bit x n" for x :: u8
  by (simp add: and_exp_eq_0_iff_not_bit push_bit_eq_mult)

lemma unat_add_no_wrap:
  fixes a b :: "'a::len word"
  assumes "unat a + unat b < 2 ^ LENGTH('a)"
  shows "unat (a + b) = unat a + unat b"
  using assms by (simp add: unat_add_lem)

lemma unat_ucast_up:
  fixes x :: "'a::len word"
  assumes "LENGTH('a) \<le> LENGTH('b::len)"
  shows "unat (ucast x :: 'b word) = unat x"
proof -
  have "unat x < 2 ^ LENGTH('a)" by (rule unsigned_less)
  also have "\<dots> \<le> 2 ^ LENGTH('b)" using assms by (intro power_increasing) auto
  finally show ?thesis
    by (simp only: unsigned_ucast_eq take_bit_nat_eq_self)
qed

lemma unat_Suc_less: "a < b \<Longrightarrow> unat (a + 1) = Suc (unat a)" for a b :: "'a::len word"
proof -
  assume "a < b"
  then have "unat a < unat b"
    by (simp add: word_less_nat_alt)
  also have "\<dots> < 2 ^ LENGTH('a)"
    by (rule unsigned_less)
  finally have "Suc (unat a) < 2 ^ LENGTH('a)"
    using \<open>unat a < unat b\<close> by (metis Suc_lessI unsigned_less not_less_eq)
  then show ?thesis
    using unat_add_no_wrap [of a 1] by simp
qed

lemma unat_of_nat64: "n < 2 ^ 64 \<Longrightarrow> unat (of_nat n :: u64) = n"
  by (simp add: unat_of_nat)

end
