(* ===== verification/Mem.thy ===== *)
theory Mem
  imports Prelude
begin

text \<open>
  The memory vocabulary of \<^verbatim>\<open>src/mem/mod.rs\<close>: typed pointers to physical and virtual memory
  and the higher-half direct map between them, byte-level access through a
  \<^verbatim>\<open>VirtualPtr\<close>, alignment, the human-readable byte labels and \<^verbatim>\<open>memset32\<close>.
  A pointer is its 64-bit address; the element type \<^verbatim>\<open>T\<close> appears as its size \<open>sz\<close> in bytes
  where the code's pointer arithmetic depends on it. Memory is a function from addresses to bytes.
\<close>

section \<open>Byte memory\<close>

type_synonym memory = "u64 \<Rightarrow> u8"

definition mem_read :: "memory \<Rightarrow> u64 \<Rightarrow> nat \<Rightarrow> u8 list" where
  "mem_read m a n = map (\<lambda>i. m (a + of_nat i)) [0..<n]"

fun mem_write :: "memory \<Rightarrow> u64 \<Rightarrow> u8 list \<Rightarrow> memory" where
  "mem_write m a [] = m"
| "mem_write m a (b # bs) = mem_write (m(a := b)) (a + 1) bs"

section \<open>Physical and virtual pointers\<close>

datatype physical_ptr = PhysicalPtr u64

datatype virtual_ptr = VirtualPtr u64

text \<open>A raw pointer is its address, so the constructors \<^verbatim>\<open>new\<close> and \<^verbatim>\<open>From\<close> are the constructors of the types, and \<^verbatim>\<open>cast\<close>
  changes only the element type.\<close>

definition physical_new :: "u64 \<Rightarrow> physical_ptr" where
  "physical_new ptr = PhysicalPtr ptr"

definition physical_from :: "usize \<Rightarrow> physical_ptr" where
  "physical_from addr = PhysicalPtr addr"

fun physical_as_raw_ptr :: "physical_ptr \<Rightarrow> u64" where
  "physical_as_raw_ptr (PhysicalPtr ptr) = ptr"

definition physical_cast :: "physical_ptr \<Rightarrow> physical_ptr" where
  "physical_cast p = physical_new (physical_as_raw_ptr p)"

definition virtual_new :: "u64 \<Rightarrow> virtual_ptr" where
  "virtual_new ptr = VirtualPtr ptr"

definition virtual_from :: "usize \<Rightarrow> virtual_ptr" where
  "virtual_from addr = VirtualPtr addr"

fun virtual_as_raw_ptr :: "virtual_ptr \<Rightarrow> u64" where
  "virtual_as_raw_ptr (VirtualPtr ptr) = ptr"

definition virtual_cast :: "virtual_ptr \<Rightarrow> virtual_ptr" where
  "virtual_cast p = virtual_new (virtual_as_raw_ptr p)"

text \<open>\<^verbatim>\<open>as_ref\<close> and \<^verbatim>\<open>as_mut\<close>: the referenced object, by its address, unless the pointer is null.\<close>

definition virtual_as_ref :: "virtual_ptr \<Rightarrow> u64 option" where
  "virtual_as_ref p = (if virtual_as_raw_ptr p = 0 then None else Some (virtual_as_raw_ptr p))"

definition virtual_as_mut :: "virtual_ptr \<Rightarrow> u64 option" where
  "virtual_as_mut p = (if virtual_as_raw_ptr p = 0 then None else Some (virtual_as_raw_ptr p))"

definition physical_null :: physical_ptr where
  "physical_null = PhysicalPtr 0"

fun physical_addr :: "physical_ptr \<Rightarrow> usize" where
  "physical_addr (PhysicalPtr a) = a"

fun physical_is_null :: "physical_ptr \<Rightarrow> bool" where
  "physical_is_null (PhysicalPtr a) = (a = 0)"

fun physical_add :: "usize \<Rightarrow> physical_ptr \<Rightarrow> usize \<Rightarrow> physical_ptr" where
  "physical_add sz (PhysicalPtr a) count = PhysicalPtr (a + count * sz)"

fun physical_sub :: "usize \<Rightarrow> physical_ptr \<Rightarrow> usize \<Rightarrow> physical_ptr" where
  "physical_sub sz (PhysicalPtr a) count = PhysicalPtr (a - count * sz)"

text \<open>\<^verbatim>\<open>offset\<close> takes a signed count: its two's complement word gives the same product.\<close>

fun physical_offset :: "usize \<Rightarrow> physical_ptr \<Rightarrow> usize \<Rightarrow> physical_ptr" where
  "physical_offset sz (PhysicalPtr a) count = PhysicalPtr (a + count * sz)"

definition virtual_null :: virtual_ptr where
  "virtual_null = VirtualPtr 0"

fun virtual_addr :: "virtual_ptr \<Rightarrow> usize" where
  "virtual_addr (VirtualPtr a) = a"

fun virtual_is_null :: "virtual_ptr \<Rightarrow> bool" where
  "virtual_is_null (VirtualPtr a) = (a = 0)"

fun virtual_add :: "usize \<Rightarrow> virtual_ptr \<Rightarrow> usize \<Rightarrow> virtual_ptr" where
  "virtual_add sz (VirtualPtr a) count = VirtualPtr (a + count * sz)"

fun virtual_sub :: "usize \<Rightarrow> virtual_ptr \<Rightarrow> usize \<Rightarrow> virtual_ptr" where
  "virtual_sub sz (VirtualPtr a) count = VirtualPtr (a - count * sz)"

fun virtual_offset :: "usize \<Rightarrow> virtual_ptr \<Rightarrow> usize \<Rightarrow> virtual_ptr" where
  "virtual_offset sz (VirtualPtr a) count = VirtualPtr (a + count * sz)"

definition to_higher_half :: "usize \<Rightarrow> physical_ptr \<Rightarrow> virtual_ptr" where
  "to_higher_half hhdm p = VirtualPtr (physical_addr (physical_add 1 p hhdm))"

definition to_lower_half :: "usize \<Rightarrow> virtual_ptr \<Rightarrow> physical_ptr" where
  "to_lower_half hhdm p = PhysicalPtr (virtual_addr (virtual_sub 1 p hhdm))"

text \<open>Reads and writes of plain data of size \<open>sz\<close> through a virtual pointer.\<close>

definition virtual_read :: "nat \<Rightarrow> memory \<Rightarrow> virtual_ptr \<Rightarrow> u8 list" where
  "virtual_read sz m p = mem_read m (virtual_addr p) sz"

definition virtual_write :: "memory \<Rightarrow> virtual_ptr \<Rightarrow> u8 list \<Rightarrow> memory" where
  "virtual_write m p bs = mem_write m (virtual_addr p) bs"

definition virtual_write_bytes :: "nat \<Rightarrow> memory \<Rightarrow> virtual_ptr \<Rightarrow> u8 \<Rightarrow> usize \<Rightarrow> memory" where
  "virtual_write_bytes sz m p v count =
     mem_write m (virtual_addr p) (replicate (unat count * sz) v)"

definition copy_to_nonoverlapping ::
    "nat \<Rightarrow> memory \<Rightarrow> virtual_ptr \<Rightarrow> virtual_ptr \<Rightarrow> usize \<Rightarrow> memory" where
  "copy_to_nonoverlapping sz m src dest count =
     mem_write m (virtual_addr dest) (mem_read m (virtual_addr src) (unat count * sz))"

definition copy_from_nonoverlapping ::
    "nat \<Rightarrow> memory \<Rightarrow> virtual_ptr \<Rightarrow> virtual_ptr \<Rightarrow> usize \<Rightarrow> memory" where
  "copy_from_nonoverlapping sz m dest src count =
     mem_write m (virtual_addr dest) (mem_read m (virtual_addr src) (unat count * sz))"

section \<open>Alignment\<close>

definition PAGE_SIZE :: usize where
  "PAGE_SIZE = 4096"

definition align_up :: "usize \<Rightarrow> usize \<Rightarrow> usize res" where
  "align_up val align =
     rbind (rassert (is_power_of_two align)) (\<lambda>_.
       Inr ((val + align - 1) AND NOT (align - 1)))"

definition align_down :: "usize \<Rightarrow> usize \<Rightarrow> usize res" where
  "align_down val align =
     rbind (rassert (is_power_of_two align)) (\<lambda>_.
       Inr (val AND NOT (align - 1)))"

section \<open>Byte labels\<close>

datatype byte_label_kind = BYTE | KIB | MIB | GIB

record byte_label =
  byte_label :: byte_label_kind
  count :: usize

definition label_bytes :: "usize \<Rightarrow> byte_label" where
  "label_bytes bytes =
     (if drop_bit 30 bytes > 0 then \<lparr>byte_label = GIB, count = drop_bit 30 bytes\<rparr>
      else if drop_bit 20 bytes > 0 then \<lparr>byte_label = MIB, count = drop_bit 20 bytes\<rparr>
      else if drop_bit 10 bytes > 0 then \<lparr>byte_label = KIB, count = drop_bit 10 bytes\<rparr>
      else \<lparr>byte_label = BYTE, count = bytes\<rparr>)"

text \<open>Decimal formatting of an unsigned integer (\<^verbatim>\<open>{size}\<close>).\<close>

fun show_dec :: "nat \<Rightarrow> string" where
  "show_dec n =
     (if n < 10 then [char_of (48 + n)] else show_dec (n div 10) @ [char_of (48 + n mod 10)])"

declare show_dec.simps [simp del]

definition byte_label_fmt :: "byte_label \<Rightarrow> string" where
  "byte_label_fmt l =
     (let size = count l in
      (case byte_label l of
         BYTE \<Rightarrow> show_dec (unat size) @ '' Byte''
       | KIB \<Rightarrow> show_dec (unat size) @ '' KiB''
       | MIB \<Rightarrow> show_dec (unat size) @ '' MiB''
       | GIB \<Rightarrow> show_dec (unat size) @ '' GiB'')
      @ (if size \<noteq> 1 then ''s'' else []))"

text \<open>Bytes per unit of a label.\<close>

fun label_unit :: "byte_label_kind \<Rightarrow> nat" where
  "label_unit BYTE = 1"
| "label_unit KIB = 2 ^ 10"
| "label_unit MIB = 2 ^ 20"
| "label_unit GIB = 2 ^ 30"

section \<open>Filling memory with a 32-bit value\<close>

text \<open>\<^verbatim>\<open>rep stosd\<close>: one little-endian double word per iteration, the destination moves up by 4.\<close>

fun rep_stosd :: "memory \<Rightarrow> u64 \<Rightarrow> u32 \<Rightarrow> nat \<Rightarrow> memory" where
  "rep_stosd m edi eax 0 = m"
| "rep_stosd m edi eax (Suc ecx) = rep_stosd (mem_write m edi (to_le 4 (unat eax))) (edi + 4) eax ecx"

definition memset32 :: "memory \<Rightarrow> virtual_ptr \<Rightarrow> u32 \<Rightarrow> usize \<Rightarrow> memory" where
  "memset32 m dst val cnt = rep_stosd m (virtual_addr dst) val (unat cnt)"

section \<open>Facts about memory\<close>

lemma length_mem_read [simp]: "length (mem_read m a n) = n"
  by (simp add: mem_read_def)

lemma mem_write_outside:
  assumes "\<And>i. i < length bs \<Longrightarrow> x \<noteq> a + of_nat i"
  shows "mem_write m a bs x = m x"
  using assms
proof (induction bs arbitrary: m a)
  case Nil
  then show ?case by simp
next
  case (Cons b bs)
  have "x \<noteq> a"
    using Cons.prems [of 0] by simp
  moreover have "x \<noteq> (a + 1) + of_nat i" if "i < length bs" for i
    using Cons.prems [of "Suc i"] that by (simp add: ac_simps)
  ultimately show ?case
    by (simp add: Cons.IH)
qed

lemma of_nat_word_inj:
  assumes "i < 2 ^ 64" "j < 2 ^ 64" "(of_nat i :: u64) = of_nat j"
  shows "i = j"
proof -
  have "unat (of_nat i :: u64) = i" "unat (of_nat j :: u64) = j"
    using assms(1,2) by (simp_all add: unat_of_nat)
  with assms(3) show ?thesis by metis
qed

lemma mem_write_inside:
  assumes "i < length bs" "length bs \<le> 2 ^ 64"
  shows "mem_write m a bs (a + of_nat i) = bs ! i"
  using assms
proof (induction bs arbitrary: m a i)
  case Nil
  then show ?case by simp
next
  case (Cons b bs)
  show ?case
  proof (cases i)
    case 0
    have "a \<noteq> (a + 1) + of_nat j" if "j < length bs" for j
    proof
      assume "a = (a + 1) + of_nat j"
      then have "(of_nat (Suc j) :: u64) = of_nat 0"
        by (simp add: algebra_simps)
      then show False
        using of_nat_word_inj [of "Suc j" 0] that Cons.prems(2) by simp
    qed
    then have "mem_write (m(a := b)) (a + 1) bs a = b"
      by (simp add: mem_write_outside)
    with 0 show ?thesis by simp
  next
    case (Suc j)
    have "mem_write (m(a := b)) (a + 1) bs (a + 1 + of_nat j) = bs ! j"
      by (rule Cons.IH) (use Cons.prems Suc in auto)
    with Suc show ?thesis
      by (simp add: add.assoc)
  qed
qed

lemma mem_read_write:
  assumes "length bs \<le> 2 ^ 64"
  shows "mem_read (mem_write m a bs) a (length bs) = bs"
  using assms by (auto simp: mem_read_def mem_write_inside intro: nth_equalityI)

section \<open>Facts about pointers and alignment\<close>

lemma lower_higher_half [simp]: "to_lower_half hhdm (to_higher_half hhdm p) = p"
  by (cases p) (simp add: to_lower_half_def to_higher_half_def)

lemma higher_lower_half [simp]: "to_higher_half hhdm (to_lower_half hhdm p) = p"
  by (cases p) (simp add: to_lower_half_def to_higher_half_def)

lemma pow2_minus_1: "(2::'a::len word) ^ k - 1 = mask k"
  by (simp add: mask_eq_exp_minus_1)

lemma align_up_exec:
  assumes "is_power_of_two align"
  shows "align_up val align = Inr ((val + align - 1) AND NOT (align - 1))"
  using assms by (simp add: align_up_def)

lemma unat_align_mask:
  assumes "is_power_of_two align"
  shows "unat (x AND NOT (align - 1)) = unat x - unat x mod unat align"
  using assms by (elim is_power_of_twoE) (simp add: pow2_minus_1 unat_and_not_mask)

lemma align_up_unat:
  assumes "is_power_of_two align" and "unat val + unat align \<le> 2 ^ 64"
    and "align_up val align = Inr r"
  shows "unat r = (unat val + (unat align - 1)) div unat align * unat align"
proof -
  have pos: "0 < unat align"
    using assms(1) by (auto elim: is_power_of_twoE)
  have "unat (align - 1) = unat align - 1"
    using pos by (simp add: unat_minus_one unat_gt_0)
  then have "unat (val + (align - 1)) = unat val + (unat align - 1)"
    using assms(2) pos by (subst unat_add_no_wrap) auto
  moreover have "r = (val + (align - 1)) AND NOT (align - 1)"
    using assms by (simp add: align_up_exec add_diff_eq)
  ultimately have "unat r = unat val + (unat align - 1) - (unat val + (unat align - 1)) mod unat align"
    using assms(1) by (simp only: unat_align_mask)
  then show ?thesis
    by (simp add: minus_mod_eq_div_mult)
qed

lemma least_multiple:
  fixes n a m :: nat
  assumes "0 < a" "a dvd m" "n \<le> m"
  shows "(n + (a - 1)) div a * a \<le> m"
proof -
  obtain k where k: "m = a * k" using assms(2) by blast
  have "(n + (a - 1)) div a \<le> (a * k + (a - 1)) div a"
    using assms k by (intro div_le_mono) simp
  also have "\<dots> = (a - 1 + a * k) div a"
    by (simp only: add.commute)
  also have "\<dots> = k"
    unfolding div_mult_self2 [OF less_imp_neq [OF assms(1), symmetric]]
    using assms(1) by simp
  finally have "(n + (a - 1)) div a * a \<le> k * a"
    by (rule mult_le_mono1)
  then show ?thesis
    by (simp only: k mult.commute)
qed

lemma unat_drop_bit: "unat (drop_bit k x) = unat x div 2 ^ k" for x :: "'a::len word"
  unfolding unat_drop_bit_eq by (rule drop_bit_eq_div)

lemma align_down_unat:
  assumes "is_power_of_two align" and "align_down val align = Inr r"
  shows "unat r = unat val div unat align * unat align"
  using assms by (auto simp: align_down_def unat_align_mask minus_mod_eq_div_mult)

section \<open>Properties\<close>

text \<open>\<open>align_up\<close> with a power-of-two alignment does not panic and returns the least multiple
  of the alignment that is not below the value, as long as rounding stays inside 64 bits.\<close>

theorem align_up_least:
  assumes "is_power_of_two align" and "unat val + unat align \<le> 2 ^ 64"
  shows "\<exists>r. align_up val align = Inr r \<and> unat align dvd unat r \<and> val \<le> r
           \<and> (\<forall>m. unat align dvd m \<and> unat val \<le> m \<longrightarrow> unat r \<le> m)"
proof -
  have pos: "0 < unat align"
    using assms(1) by (auto elim: is_power_of_twoE)
  obtain r where r: "align_up val align = Inr r"
    using assms(1) by (simp add: align_up_exec)
  then have u: "unat r = (unat val + (unat align - 1)) div unat align * unat align"
    by (rule align_up_unat [OF assms])
  have "unat val \<le> unat r"
  proof -
    have "unat val + (unat align - 1) < unat r + unat align"
      unfolding u using dividend_less_div_times [OF pos, of "unat val + (unat align - 1)"]
      by (simp only: add.commute)
    with pos show ?thesis by linarith
  qed
  moreover have "unat r \<le> m" if "unat align dvd m" "unat val \<le> m" for m
    unfolding u using pos that by (rule least_multiple)
  moreover have "unat align dvd unat r"
    unfolding u by simp
  ultimately show ?thesis
    using r by (auto simp: word_le_nat_alt)
qed

theorem align_up_least_witness:
  "\<exists>r. align_up 4097 4096 = Inr r \<and> unat (4096 :: usize) dvd unat r \<and> 4097 \<le> r
     \<and> (\<forall>m. unat (4096 :: usize) dvd m \<and> unat (4097 :: usize) \<le> m \<longrightarrow> unat r \<le> m)"
  by (rule align_up_least) (auto simp: is_power_of_two_iff intro: exI [of _ 12])

text \<open>The label of a byte count names the largest unit that fits: the count is the exact
  quotient by the unit, it is at least one unit unless the unit is a byte, and below GiB it is
  less than 1024.\<close>

theorem label_bytes_exact:
  "unat (count (label_bytes b)) = unat b div label_unit (byte_label (label_bytes b))
   \<and> (byte_label (label_bytes b) = BYTE \<or> 0 < count (label_bytes b))
   \<and> (byte_label (label_bytes b) = GIB \<or> count (label_bytes b) < 1024)"
  by (auto simp: label_bytes_def unat_drop_bit word_less_nat_alt div_eq_0_iff less_mult_imp_div_less
      split: if_splits)

end
