(* ===== verification/Sync.thy ===== *)
theory Sync
  imports Prelude
begin

text \<open>
  The synchronisation and cell primitives of \<^verbatim>\<open>src/libs\<close>: \<^verbatim>\<open>Cell\<close>, \<^verbatim>\<open>OnceCell\<close>
  (\<^verbatim>\<open>cell/once.rs\<close>) and the spin lock \<^verbatim>\<open>Mutex\<close> (\<^verbatim>\<open>sync/mutex.rs\<close>). The mutex is modelled
  twice: the operations on its two fields as functions, and their interleaving by any number of
  threads as a step relation whose steps are exactly those operations. The locale
  \<open>inv_system\<close> carries the induction over runs for every step relation of the development.
\<close>

section \<open>Invariants of step relations\<close>

locale inv_system =
  fixes init :: "'s \<Rightarrow> bool"
    and step :: "'l \<Rightarrow> 's \<Rightarrow> 's \<Rightarrow> bool"
    and inv :: "'s \<Rightarrow> bool"
  assumes inv_init: "init s \<Longrightarrow> inv s"
    and inv_step: "inv s \<Longrightarrow> step l s t \<Longrightarrow> inv t"
begin

lemma inv_reachable:
  assumes "init s" and "(\<lambda>s t. \<exists>l. step l s t)\<^sup>*\<^sup>* s t"
  shows "inv t"
  using assms(2)
proof (induction rule: rtranclp_induct)
  case base
  show ?case by (rule inv_init [OF assms(1)])
next
  case (step t u)
  then show ?case by (blast intro: inv_step)
qed

end

section \<open>Cell and OnceCell\<close>

type_synonym 'a cell = 'a

definition cell_new :: "'a \<Rightarrow> 'a cell" where
  "cell_new v = v"

definition cell_get :: "'a cell \<Rightarrow> 'a" where
  "cell_get c = c"

definition cell_set :: "'a cell \<Rightarrow> 'a \<Rightarrow> 'a cell" where
  "cell_set c v = v"

datatype 'a once_cell_state = Uninitialized | Initializing | Initialized 'a

definition once_new :: "'a once_cell_state cell" where
  "once_new = cell_new Uninitialized"

definition once_set :: "'a once_cell_state cell \<Rightarrow> 'a \<Rightarrow> 'a once_cell_state cell res" where
  "once_set c new_data =
     (case cell_get c of
        Uninitialized \<Rightarrow> Inr (cell_set (cell_set c Initializing) (Initialized new_data))
      | _ \<Rightarrow> Inl (Panic ExplicitPanic))"

definition once_get_unchecked :: "'a once_cell_state cell \<Rightarrow> 'a res" where
  "once_get_unchecked c =
     (case cell_get c of Initialized data \<Rightarrow> Inr data | _ \<Rightarrow> Inl (Panic ExplicitPanic))"

definition once_get_or_set ::
    "'a once_cell_state cell \<Rightarrow> (unit \<Rightarrow> 'a) \<Rightarrow> ('a once_cell_state cell \<times> 'a) res" where
  "once_get_or_set c func =
     (case cell_get c of
        Uninitialized \<Rightarrow>
          rbind (once_set c (func ())) (\<lambda>c'.
          rbind (once_get_unchecked c') (\<lambda>data. Inr (c', data)))
      | Initializing \<Rightarrow> Inl (Panic ExplicitPanic)
      | Initialized data \<Rightarrow> Inr (c, data))"

definition once_get :: "'a once_cell_state cell \<Rightarrow> 'a res" where
  "once_get c = (case cell_get c of Initialized data \<Rightarrow> Inr data | _ \<Rightarrow> Inl ErrUnit)"

lemmas once_defs = once_new_def once_set_def once_get_unchecked_def once_get_or_set_def
  once_get_def cell_new_def cell_get_def cell_set_def

text \<open>A client of a once cell: a sequence of calls, run until one panics.\<close>

datatype 'a once_call = OnceSet 'a | OnceGetOrSet 'a | OnceGet

fun once_run ::
    "'a once_cell_state cell \<Rightarrow> 'a once_call list \<Rightarrow> ('a once_cell_state cell \<times> 'a res list) res" where
  "once_run c [] = Inr (c, [])"
| "once_run c (OnceSet v # cs) =
     rbind (once_set c v) (\<lambda>c'. once_run c' cs)"
| "once_run c (OnceGetOrSet v # cs) =
     rbind (once_get_or_set c (\<lambda>_. v)) (\<lambda>(c', x).
     rbind (once_run c' cs) (\<lambda>(c'', xs). Inr (c'', Inr x # xs)))"
| "once_run c (OnceGet # cs) =
     rbind (once_run c cs) (\<lambda>(c', xs). Inr (c', once_get c # xs))"

section \<open>Mutex\<close>

record 'd mutex =
  locked :: bool
  data :: 'd

definition mutex_new :: "'d \<Rightarrow> 'd mutex" where
  "mutex_new d = \<lparr>locked = False, data = d\<rparr>"

text \<open>\<^verbatim>\<open>compare_exchange(false, true)\<close>: the new state and whether it succeeded.\<close>

definition mutex_cas :: "'d mutex \<Rightarrow> 'd mutex \<times> bool" where
  "mutex_cas m = (if locked m then (m, False) else (m\<lparr>locked := True\<rparr>, True))"

text \<open>\<^verbatim>\<open>lock\<close> on its own: the spin loop returns when the exchange succeeds.\<close>

partial_function (option) mutex_lock :: "'d mutex \<Rightarrow> 'd mutex option" where
  "mutex_lock m = (case mutex_cas m of (m', ok) \<Rightarrow> if ok then Some m' else mutex_lock m')"

definition guard_deref :: "'d mutex \<Rightarrow> 'd" where
  "guard_deref m = data m"

definition guard_deref_mut :: "'d mutex \<Rightarrow> ('d \<Rightarrow> 'd) \<Rightarrow> 'd mutex" where
  "guard_deref_mut m f = m\<lparr>data := f (data m)\<rparr>"

definition guard_drop :: "'d mutex \<Rightarrow> 'd mutex" where
  "guard_drop m = m\<lparr>locked := False\<rparr>"

definition mutex_fmt :: "('d \<Rightarrow> string) \<Rightarrow> 'd mutex \<Rightarrow> string" where
  "mutex_fmt show_data m =
     ''Mutex: { data: '' @ (if locked m then ''<locked> }'' else show_data (data m) @ '' }'')"

text \<open>
  Threads: outside the lock, spinning in \<^verbatim>\<open>lock\<close>, or holding the guard. A step is labelled by
  the thread that takes it.
\<close>

datatype thread_pc = Outside | Spinning | Holding

record 'd mutex_sys =
  mtx :: "'d mutex"
  pcs :: "nat \<Rightarrow> thread_pc"

inductive mutex_step :: "nat \<Rightarrow> 'd mutex_sys \<Rightarrow> 'd mutex_sys \<Rightarrow> bool" where
  call_lock: "pcs s i = Outside \<Longrightarrow> mutex_step i s (s\<lparr>pcs := (pcs s)(i := Spinning)\<rparr>)"
| cas_ok: "pcs s i = Spinning \<Longrightarrow> mutex_cas (mtx s) = (m, True) \<Longrightarrow>
     mutex_step i s (s\<lparr>mtx := m, pcs := (pcs s)(i := Holding)\<rparr>)"
| cas_fail: "pcs s i = Spinning \<Longrightarrow> mutex_cas (mtx s) = (m, False) \<Longrightarrow>
     mutex_step i s (s\<lparr>mtx := m\<rparr>)"
| access: "pcs s i = Holding \<Longrightarrow> mutex_step i s (s\<lparr>mtx := guard_deref_mut (mtx s) f\<rparr>)"
| unlock: "pcs s i = Holding \<Longrightarrow>
     mutex_step i s (s\<lparr>mtx := guard_drop (mtx s), pcs := (pcs s)(i := Outside)\<rparr>)"

definition mutex_init :: "'d mutex_sys \<Rightarrow> bool" where
  "mutex_init s \<longleftrightarrow> (\<exists>d. mtx s = mutex_new d) \<and> (\<forall>i. pcs s i = Outside)"

definition mutex_inv :: "'d mutex_sys \<Rightarrow> bool" where
  "mutex_inv s \<longleftrightarrow>
     (\<forall>i j. pcs s i = Holding \<longrightarrow> pcs s j = Holding \<longrightarrow> i = j)
     \<and> (locked (mtx s) \<longleftrightarrow> (\<exists>i. pcs s i = Holding))"

abbreviation mutex_reaches :: "'d mutex_sys \<Rightarrow> 'd mutex_sys \<Rightarrow> bool" where
  "mutex_reaches \<equiv> (\<lambda>s t. \<exists>i. mutex_step i s t)\<^sup>*\<^sup>*"

lemmas mutex_op_defs = mutex_new_def mutex_cas_def guard_deref_def guard_deref_mut_def
  guard_drop_def

section \<open>Facts\<close>

lemma once_set_twice: "once_set c v = Inr c' \<Longrightarrow> once_set c' w = Inl (Panic ExplicitPanic)"
  by (auto simp: once_defs split: once_cell_state.splits)

lemma once_stable_run:
  assumes "once_run (Initialized v) cs = Inr (c, xs)"
  shows "c = Initialized v \<and> (\<forall>x \<in> set xs. x = Inr v)"
  using assms
  by (induction "Initialized v" cs arbitrary: c xs rule: once_run.induct)
    (auto simp: once_defs)

lemma mutex_lock_free: "\<not> locked m \<Longrightarrow> mutex_lock m = Some (m\<lparr>locked := True\<rparr>)"
  by (subst mutex_lock.simps) (simp add: mutex_cas_def)

lemma mutex_lock_returned:
  assumes "mutex_lock m = Some m'"
  shows "\<not> locked m"
proof (rule mutex_lock.raw_induct [where P = "\<lambda>m m'. \<not> locked m", OF _ assms])
  fix f and n n' :: "'a mutex"
  assume IH: "\<And>m m'. f m = Some m' \<Longrightarrow> \<not> locked m"
    and eq: "(case mutex_cas n of (k, ok) \<Rightarrow> if ok then Some k else f k) = Some n'"
  show "\<not> locked n"
  proof
    assume "locked n"
    with eq have "f n = Some n'" by (simp add: mutex_cas_def)
    with IH \<open>locked n\<close> show False by blast
  qed
qed

text \<open>Taking the lock a second time on the same thread never returns.\<close>

lemma mutex_relock_hangs: "mutex_lock m = Some m' \<Longrightarrow> mutex_lock m' = None"
  using mutex_lock_returned mutex_lock_free
  by (metis (no_types, lifting) mutex.select_convs(1) mutex.surjective mutex.update_convs(1)
      option.exhaust option.inject)

inductive_cases mutex_stepE: "mutex_step i s t"

lemma mutex_inv_init: "mutex_init s \<Longrightarrow> mutex_inv s"
  by (auto simp: mutex_init_def mutex_inv_def mutex_new_def)

lemma mutex_inv_step: "mutex_inv s \<Longrightarrow> mutex_step i s t \<Longrightarrow> mutex_inv t"
  by (erule mutex_stepE)
    (force simp: mutex_inv_def mutex_op_defs split: if_splits)+

interpretation mutex_runs: inv_system mutex_init mutex_step mutex_inv
  by unfold_locales (auto intro: mutex_inv_init mutex_inv_step)

lemma mutex_reachable_inv:
  assumes "mutex_init s" and "mutex_reaches s t"
  shows "mutex_inv t"
  using assms by (rule mutex_runs.inv_reachable)

lemma mutex_free_taken:
  assumes "mutex_inv t" "pcs t j = Spinning" "\<nexists>i. pcs t i = Holding"
  shows "\<exists>u. mutex_step j t u \<and> pcs u j = Holding \<and> data (mtx u) = data (mtx t)"
proof -
  have "\<not> locked (mtx t)" using assms(1,3) by (simp add: mutex_inv_def)
  then have "mutex_cas (mtx t) = ((mtx t)\<lparr>locked := True\<rparr>, True)" by (simp add: mutex_cas_def)
  from cas_ok [OF assms(2) this] show ?thesis by force
qed

section \<open>Properties\<close>

text \<open>C33: mutual exclusion and exclusive access. In every state reachable from a fresh mutex, at most
  one thread holds the guard, and the lock bit is set exactly when some thread holds it. While a thread
  holds the guard no step of another thread changes the protected data, clears the bit or takes the
  lock; and when no thread holds it, every thread spinning in \<open>lock\<close> can take it by a step of its own.\<close>

theorem mutex_exclusive:
  assumes "mutex_init s" and "mutex_reaches s t"
  shows "(\<forall>i j. pcs t i = Holding \<longrightarrow> pcs t j = Holding \<longrightarrow> i = j)
    \<and> (locked (mtx t) \<longleftrightarrow> (\<exists>i. pcs t i = Holding))
    \<and> (\<forall>i j u. pcs t i = Holding \<and> mutex_step j t u \<and> j \<noteq> i \<longrightarrow>
         data (mtx u) = data (mtx t) \<and> locked (mtx u) \<and> pcs u j \<noteq> Holding)
    \<and> (\<forall>j. pcs t j = Spinning \<and> (\<nexists>i. pcs t i = Holding) \<longrightarrow>
         (\<exists>u. mutex_step j t u \<and> pcs u j = Holding \<and> data (mtx u) = data (mtx t)))"
proof -
  have inv: "mutex_inv t"
    using assms by (rule mutex_reachable_inv)
  have "data (mtx u) = data (mtx t) \<and> locked (mtx u) \<and> pcs u j \<noteq> Holding"
    if "pcs t i = Holding" "mutex_step j t u" "j \<noteq> i" for i j u
  proof -
    have "locked (mtx t)" "\<forall>k. pcs t k = Holding \<longrightarrow> k = i"
      using inv that(1) by (auto simp: mutex_inv_def)
    with that(2,3) show ?thesis by (elim mutex_stepE) (auto simp: mutex_op_defs)
  qed
  moreover have "\<exists>u. mutex_step j t u \<and> pcs u j = Holding \<and> data (mtx u) = data (mtx t)"
    if "pcs t j = Spinning" "\<nexists>i. pcs t i = Holding" for j
    using mutex_free_taken [OF inv that] .
  ultimately show ?thesis
    using inv unfolding mutex_inv_def by blast
qed

definition mutex_demo :: "nat mutex_sys" where
  "mutex_demo = \<lparr>mtx = mutex_new 7, pcs = (\<lambda>_. Outside)\<rparr>"

definition mutex_demo_held :: "nat mutex_sys" where
  "mutex_demo_held = \<lparr>mtx = \<lparr>locked = True, data = 7\<rparr>, pcs = (\<lambda>_. Outside)(0 := Holding)\<rparr>"

lemma mutex_demo_reaches: "mutex_reaches mutex_demo mutex_demo_held"
proof -
  let ?mid = "mutex_demo\<lparr>pcs := (pcs mutex_demo)(0 := Spinning)\<rparr>"
  have "mutex_step 0 mutex_demo ?mid"
    by (rule call_lock) (simp add: mutex_demo_def)
  moreover have "mutex_step 0 ?mid mutex_demo_held"
    using cas_ok [of ?mid 0 "\<lparr>locked = True, data = 7\<rparr>"]
    by (simp add: mutex_demo_def mutex_demo_held_def mutex_op_defs)
  ultimately show ?thesis
    by (blast intro: rtranclp.rtrancl_into_rtrancl rtranclp.rtrancl_refl)
qed

theorem mutex_exclusive_witness:
  "{j. pcs mutex_demo_held j = Holding} = {0}
    \<and> {u. \<exists>j. mutex_step j mutex_demo_held u \<and> j \<noteq> 0} \<subseteq> {u. data (mtx u) = 7 \<and> locked (mtx u)}"
proof -
  have "mutex_init mutex_demo" by (auto simp: mutex_demo_def mutex_init_def)
  note ex = mutex_exclusive [OF this mutex_demo_reaches]
  have "pcs mutex_demo_held j = Holding \<longleftrightarrow> j = 0" "data (mtx mutex_demo_held) = 7" for j
    by (simp_all add: mutex_demo_held_def)
  with ex show ?thesis by auto
qed

text \<open>A once cell is written at most once. Whatever sequence of calls follows a successful
  \<open>set\<close>, if none of them panics then the cell still holds the first value and every read returned
  it; and a second \<open>set\<close> always panics.\<close>

theorem once_written_once:
  assumes "once_set once_new v = Inr c" and "once_run c calls = Inr (c', reads)"
  shows "c' = c \<and> set reads \<subseteq> {Inr v} \<and> (\<forall>w. once_set c' w = Inl (Panic ExplicitPanic))"
proof -
  have "c = Initialized v"
    using assms(1) by (simp add: once_defs)
  with once_stable_run [of v calls c' reads] assms(2) show ?thesis
    by (auto simp: once_defs)
qed

theorem once_written_once_witness:
  "Initialized (5::nat) = Initialized 5 \<and> set [Inr 5, Inr 5 :: nat res] \<subseteq> {Inr 5}
     \<and> (\<forall>w. once_set (Initialized (5::nat)) w = Inl (Panic ExplicitPanic))"
  by (rule once_written_once [of 5 _ "[OnceGet, OnceGetOrSet 9]"]) (simp_all add: once_defs)

end
