(* ===== verification/Allocator.thy ===== *)
theory Allocator
  imports Mem Sync
begin

text \<open>
  The kernel heap, \<^verbatim>\<open>src/mem/allocator.rs\<close>: a free list threaded through the free memory itself.
  The model keeps the pointer structure: \<open>nodes\<close> is the memory read as \<^verbatim>\<open>MemNode\<close>s, the list
  head is the \<^verbatim>\<open>MemNode\<close> inside the static allocator at \<open>head_addr\<close>, and every loop of the
  source follows the \<^verbatim>\<open>next\<close> pointers. A loop over a cyclic list would not return, so the loops are
  \<^theory_text>\<open>partial_function (option)\<close>, with \<open>None\<close> for not returning. Writing a node makes every other node
  that overlaps its 16 bytes unreadable. The list of free regions is the abstraction; the
  refinement lemmas show that each operation returns and acts on that list.
\<close>

section \<open>Nodes and layouts\<close>

record mem_node =
  nxt :: "u64 option"
  node_size :: usize

type_synonym node_heap = "u64 \<rightharpoonup> mem_node"

definition SIZE_OF_MEM_NODE :: usize where "SIZE_OF_MEM_NODE = 16"

definition ALIGN_OF_MEM_NODE :: usize where "ALIGN_OF_MEM_NODE = 8"

definition mem_node_new :: "usize \<Rightarrow> mem_node" where
  "mem_node_new sz = \<lparr>nxt = None, node_size = sz\<rparr>"

text \<open>\<^verbatim>\<open>addr\<close> of a node is where it lies; \<^verbatim>\<open>end_addr\<close> adds its length.\<close>

definition end_addr :: "u64 \<Rightarrow> mem_node \<Rightarrow> usize" where
  "end_addr a n = a + node_size n"

record linked_list_allocator =
  head_addr :: u64
  nodes :: node_heap

definition lla_new :: "u64 \<Rightarrow> linked_list_allocator" where
  "lla_new a = \<lparr>head_addr = a, nodes = [a \<mapsto> mem_node_new 0]\<rparr>"

text \<open>\<^verbatim>\<open>core::alloc::Layout\<close>: \<^verbatim>\<open>from_size_align\<close>, \<^verbatim>\<open>align_to\<close> and \<^verbatim>\<open>pad_to_align\<close>.\<close>

record layout =
  lsize :: usize
  lalign :: usize

definition layout_from_size_align :: "usize \<Rightarrow> usize \<Rightarrow> layout option" where
  "layout_from_size_align sz al =
     (if is_power_of_two al \<and> unat sz + unat al \<le> 2 ^ 63
      then Some \<lparr>lsize = sz, lalign = al\<rparr> else None)"

definition layout_align_to :: "layout \<Rightarrow> usize \<Rightarrow> layout option" where
  "layout_align_to l al = layout_from_size_align (lsize l) (max (lalign l) al)"

definition pad_to_align :: "layout \<Rightarrow> layout" where
  "pad_to_align l = l\<lparr>lsize := (lsize l + lalign l - 1) AND NOT (lalign l - 1)\<rparr>"

definition size_align :: "layout \<Rightarrow> layout res" where
  "size_align l =
     rbind (unwrap_opt (layout_align_to l ALIGN_OF_MEM_NODE)) (\<lambda>l1.
     let l2 = pad_to_align l1;
         sz = max (lsize l2) SIZE_OF_MEM_NODE
     in unwrap_opt (layout_from_size_align sz (lalign l2)))"

section \<open>Operations of the allocator\<close>

text \<open>Two 16-byte nodes at \<open>x\<close> and \<open>p\<close> share a byte.\<close>

definition overlaps :: "u64 \<Rightarrow> u64 \<Rightarrow> bool" where
  "overlaps x p \<longleftrightarrow> x - p < 16 \<or> p - x < 16"

definition write_node :: "node_heap \<Rightarrow> u64 \<Rightarrow> mem_node \<Rightarrow> node_heap" where
  "write_node h p n = (\<lambda>x. if x = p then Some n else if overlaps x p then None else h x)"

definition set_next :: "node_heap \<Rightarrow> u64 \<Rightarrow> u64 option \<Rightarrow> node_heap res" where
  "set_next h t v =
     (case h t of None \<Rightarrow> Inl (Panic RawAccess) | Some n \<Rightarrow> Inr (h(t \<mapsto> n\<lparr>nxt := v\<rparr>)))"

text \<open>The search loop of \<^verbatim>\<open>add_free_region\<close>: the last node whose successor is not above \<open>ptr\<close>.\<close>

partial_function (option) insert_point :: "node_heap \<Rightarrow> u64 \<Rightarrow> u64 \<Rightarrow> u64 res option" where
  "insert_point h target ptr =
     (case h target of
        None \<Rightarrow> Some (Inl (Panic RawAccess))
      | Some n \<Rightarrow>
          (case nxt n of
             None \<Rightarrow> Some (Inr target)
           | Some next_node \<Rightarrow>
               if next_node > ptr then Some (Inr target) else insert_point h next_node ptr))"

definition add_free_region ::
    "linked_list_allocator \<Rightarrow> virtual_ptr \<Rightarrow> usize \<Rightarrow> linked_list_allocator res option" where
  "add_free_region s p sz =
     (let ptr = virtual_addr p in
      obind (Some (rbind (align_up ptr ALIGN_OF_MEM_NODE) (\<lambda>a. rassert (a = ptr)))) (\<lambda>_.
      obind (Some (rassert (sz \<ge> SIZE_OF_MEM_NODE))) (\<lambda>_.
      obind (insert_point (nodes s) (head_addr s) ptr) (\<lambda>target.
      case nodes s target of
        None \<Rightarrow> Some (Inl (Panic RawAccess))
      | Some t \<Rightarrow>
          let node = (mem_node_new sz)\<lparr>nxt := nxt t\<rparr>;
              h = write_node ((nodes s)(target \<mapsto> t\<lparr>nxt := None\<rparr>)) ptr node
          in obind (Some (set_next h target (Some ptr))) (\<lambda>h'.
             Some (Inr (s\<lparr>nodes := h'\<rparr>)))))))"

partial_function (option) coalesce_from :: "node_heap \<Rightarrow> u64 \<Rightarrow> node_heap res option" where
  "coalesce_from h current =
     (case h current of
        None \<Rightarrow> Some (Inl (Panic RawAccess))
      | Some c \<Rightarrow>
          (case nxt c of
             None \<Rightarrow> Some (Inr h)
           | Some next \<Rightarrow>
               (case h next of
                  None \<Rightarrow> Some (Inl (Panic RawAccess))
                | Some n \<Rightarrow>
                    if end_addr current c = next
                    then coalesce_from
                      (h(next \<mapsto> n\<lparr>nxt := None\<rparr>,
                         current \<mapsto> c\<lparr>node_size := node_size c + node_size n, nxt := nxt n\<rparr>))
                      current
                    else coalesce_from h next)))"

definition coalesce_memory :: "linked_list_allocator \<Rightarrow> linked_list_allocator res option" where
  "coalesce_memory s =
     obind (coalesce_from (nodes s) (head_addr s)) (\<lambda>h. Some (Inr (s\<lparr>nodes := h\<rparr>)))"

definition alloc_from_node :: "u64 \<Rightarrow> mem_node \<Rightarrow> layout \<Rightarrow> virtual_ptr res" where
  "alloc_from_node a n l =
     rbind (align_up a (lalign l)) (\<lambda>start.
       let fin = start + lsize l in
       if fin > end_addr a n then Inr virtual_null
       else let extra = end_addr a n - fin in
         if extra > 0 \<and> extra < SIZE_OF_MEM_NODE then Inr virtual_null
         else Inr (VirtualPtr start))"

partial_function (option) find_from ::
    "node_heap \<Rightarrow> u64 \<Rightarrow> layout \<Rightarrow> (node_heap \<times> u64 option) res option" where
  "find_from h current l =
     (case h current of
        None \<Rightarrow> Some (Inl (Panic RawAccess))
      | Some c \<Rightarrow>
          (case nxt c of
             None \<Rightarrow> Some (Inr (h, None))
           | Some node \<Rightarrow>
               (case h node of
                  None \<Rightarrow> Some (Inl (Panic RawAccess))
                | Some n \<Rightarrow>
                    (case alloc_from_node node n l of
                       Inl e \<Rightarrow> Some (Inl e)
                     | Inr p \<Rightarrow>
                         if virtual_is_null p then find_from h node l
                         else Some (Inr (h(node \<mapsto> n\<lparr>nxt := None\<rparr>,
                                           current \<mapsto> c\<lparr>nxt := nxt n\<rparr>), Some node))))))"

definition find_region ::
    "linked_list_allocator \<Rightarrow> layout \<Rightarrow> (linked_list_allocator \<times> u64 option) res option" where
  "find_region s l =
     obind (find_from (nodes s) (head_addr s) l) (\<lambda>(h, r). Some (Inr (s\<lparr>nodes := h\<rparr>, r)))"

definition inner_alloc ::
    "linked_list_allocator \<Rightarrow> layout \<Rightarrow> (linked_list_allocator \<times> virtual_ptr) res option" where
  "inner_alloc s layout0 =
     obind (Some (size_align layout0)) (\<lambda>l.
     obind (find_region s l) (\<lambda>(s1, region).
       case region of
         None \<Rightarrow> Some (Inr (s1, virtual_null))
       | Some r \<Rightarrow>
           (case nodes s1 r of
              None \<Rightarrow> Some (Inl (Panic RawAccess))
            | Some n \<Rightarrow>
                let fin = VirtualPtr (r + lsize l);
                    extra = end_addr r n - virtual_addr fin
                in if extra > 0
                   then obind (add_free_region s1 fin extra) (\<lambda>s2. Some (Inr (s2, VirtualPtr r)))
                   else Some (Inr (s1, VirtualPtr r)))))"

definition inner_dealloc ::
    "linked_list_allocator \<Rightarrow> virtual_ptr \<Rightarrow> layout \<Rightarrow> linked_list_allocator res option" where
  "inner_dealloc s p layout0 =
     obind (Some (size_align layout0)) (\<lambda>l.
     obind (add_free_region s p (lsize l)) coalesce_memory)"

definition lla_init ::
    "linked_list_allocator \<Rightarrow> virtual_ptr \<Rightarrow> usize \<Rightarrow> linked_list_allocator res option" where
  "lla_init s heap_ptr pages = add_free_region s heap_ptr (PAGE_SIZE * pages)"

partial_function (option) count_from :: "node_heap \<Rightarrow> u64 \<Rightarrow> usize \<Rightarrow> usize res option" where
  "count_from h cur region_count =
     (case h cur of
        None \<Rightarrow> Some (Inl (Panic RawAccess))
      | Some c \<Rightarrow>
          (case nxt c of
             None \<Rightarrow> Some (Inr region_count)
           | Some next \<Rightarrow> count_from h next (region_count + 1)))"

definition count_regions :: "linked_list_allocator \<Rightarrow> usize res option" where
  "count_regions s = count_from (nodes s) (head_addr s) 0"

partial_function (option) debug_from ::
    "node_heap \<Rightarrow> u64 \<Rightarrow> (usize \<times> usize) list \<Rightarrow> nat \<Rightarrow> (usize \<times> usize) list res option" where
  "debug_from h cur buf i =
     (case h cur of
        None \<Rightarrow> Some (Inl (Panic RawAccess))
      | Some c \<Rightarrow>
          (case update_res buf i (cur, end_addr cur c) of
             Inl e \<Rightarrow> Some (Inl e)
           | Inr buf' \<Rightarrow>
               (case nxt c of
                  None \<Rightarrow> Some (Inr buf')
                | Some next \<Rightarrow> debug_from h next buf' (Suc i))))"

definition debug_regions ::
    "linked_list_allocator \<Rightarrow> (usize \<times> usize) list \<Rightarrow> (usize \<times> usize) list res option" where
  "debug_regions s buf = debug_from (nodes s) (head_addr s) buf 0"

text \<open>\<^verbatim>\<open>GlobalAlloc for Mutex<LinkedListAllocator>\<close>: lock, run, drop the guard.\<close>

definition global_alloc ::
    "linked_list_allocator mutex \<Rightarrow> layout \<Rightarrow> (linked_list_allocator mutex \<times> u64) res option" where
  "global_alloc m l =
     Option.bind (mutex_lock m) (\<lambda>g.
     obind (inner_alloc (guard_deref g) l) (\<lambda>(s, p).
     Some (Inr (guard_drop (guard_deref_mut g (\<lambda>_. s)), virtual_addr p))))"

definition global_dealloc ::
    "linked_list_allocator mutex \<Rightarrow> u64 \<Rightarrow> layout \<Rightarrow> linked_list_allocator mutex res option" where
  "global_dealloc m ptr l =
     Option.bind (mutex_lock m) (\<lambda>g.
     obind (inner_dealloc (guard_deref g) (VirtualPtr ptr) l) (\<lambda>s.
     Some (Inr (guard_drop (guard_deref_mut g (\<lambda>_. s))))))"

declare insert_point.simps [code] coalesce_from.simps [code] find_from.simps [code]
  count_from.simps [code] debug_from.simps [code]

section \<open>The list of free regions\<close>

type_synonym region = "u64 \<times> usize"

text \<open>The nodes from \<open>p\<close> to \<open>q\<close> along the \<^verbatim>\<open>next\<close> pointers.\<close>

fun path :: "node_heap \<Rightarrow> u64 option \<Rightarrow> region list \<Rightarrow> u64 option \<Rightarrow> bool" where
  "path h p [] q = (p = q)"
| "path h p ((a, s) # rs) q =
     (p = Some a \<and> (\<exists>n. h a = Some n \<and> node_size n = s \<and> path h (nxt n) rs q))"

definition insert_region :: "region \<Rightarrow> region list \<Rightarrow> region list" where
  "insert_region r rs = takeWhile (\<lambda>b. fst b \<le> fst r) rs @ r # dropWhile (\<lambda>b. fst b \<le> fst r) rs"

fun coalesce :: "region list \<Rightarrow> region list" where
  "coalesce ((a, s) # (b, t) # rs) =
     (if a + s = b then coalesce ((a, s + t) # rs) else (a, s) # coalesce ((b, t) # rs))"
| "coalesce rs = rs"

definition fits :: "layout \<Rightarrow> region \<Rightarrow> bool" where
  "fits l r \<longleftrightarrow> (case alloc_from_node (fst r) \<lparr>nxt = None, node_size = snd r\<rparr> l of
     Inl _ \<Rightarrow> False | Inr p \<Rightarrow> \<not> virtual_is_null p)"

definition region_bytes :: "region \<Rightarrow> nat set" where
  "region_bytes r = {unat (fst r)..<unat (fst r) + unat (snd r)}"

definition free_bytes :: "region list \<Rightarrow> nat set" where
  "free_bytes rs = (\<Union>r \<in> set rs. region_bytes r)"

definition region_ok :: "region \<Rightarrow> bool" where
  "region_ok r \<longleftrightarrow> 16 \<le> unat (snd r) \<and> 8 dvd unat (fst r) \<and> 8 dvd unat (snd r)
     \<and> unat (fst r) + unat (snd r) < 2 ^ 64 \<and> 0 < unat (fst r)"

definition before :: "region \<Rightarrow> region \<Rightarrow> bool" where
  "before r q \<longleftrightarrow> unat (fst r) + unat (snd r) \<le> unat (fst q)"

text \<open>The head node's own 16 bytes lie outside a region.\<close>

definition off_head :: "u64 \<Rightarrow> region \<Rightarrow> bool" where
  "off_head ha r \<longleftrightarrow> unat ha + 16 \<le> unat (fst r) \<or> unat (fst r) + unat (snd r) \<le> unat ha"

definition wf_regions :: "u64 \<Rightarrow> region list \<Rightarrow> bool" where
  "wf_regions ha rs \<longleftrightarrow> sorted_wrt before rs \<and> (\<forall>r \<in> set rs. region_ok r \<and> off_head ha r)
     \<and> unat ha + 16 < 2 ^ 64"

definition lla_inv :: "linked_list_allocator \<Rightarrow> region list \<Rightarrow> bool" where
  "lla_inv s rs \<longleftrightarrow>
     path (nodes s) (Some (head_addr s)) ((head_addr s, 0) # rs) None
     \<and> wf_regions (head_addr s) rs"

section \<open>Paths through the free list\<close>

lemma path_append:
  "path h p (xs @ ys) q \<longleftrightarrow> (\<exists>m. path h p xs m \<and> path h m ys q)"
  by (induction xs arbitrary: p) fastforce+

lemma path_cong:
  assumes "\<And>r. r \<in> set rs \<Longrightarrow> h' (fst r) = h (fst r)"
  shows "path h' p rs q = path h p rs q"
  using assms
proof (induction rs arbitrary: p)
  case (Cons r rs)
  obtain a s where r: "r = (a, s)" by (cases r)
  have "h' a = h a" using Cons.prems [of r] r by simp
  moreover have "path h' p' rs q = path h p' rs q" for p'
    using Cons.prems by (intro Cons.IH) simp
  ultimately show ?case using r by simp
qed simp

lemma path_upd_other [simp]:
  "a \<notin> fst ` set rs \<Longrightarrow> path (h(a := v)) p rs q = path h p rs q"
  by (rule path_cong) auto

text \<open>The node after which a region is linked in is the last one that starts at or below it.\<close>

lemma insert_point_spec:
  assumes "path h (Some a) ((a, s) # rs) None"
  shows "insert_point h a p =
     Some (Inr (fst (last ((a, s) # takeWhile (\<lambda>b. fst b \<le> p) rs))))"
  using assms
proof (induction rs arbitrary: a s)
  case Nil
  then show ?case by (subst insert_point.simps) auto
next
  case (Cons r rs)
  obtain b t where r: "r = (b, t)" by (cases r)
  with Cons.prems obtain n where n: "h a = Some n" "nxt n = Some b"
    and rest: "path h (Some b) ((b, t) # rs) None" by auto
  show ?case
  proof (cases "b > p")
    case True
    with n r show ?thesis by (subst insert_point.simps) auto
  next
    case False
    then have "insert_point h a p = insert_point h b p"
      using n by (subst insert_point.simps) simp
    with Cons.IH [OF rest] False r show ?thesis by auto
  qed
qed

text \<open>Linking a new node \<open>(p, sz)\<close> behind the node \<open>t\<close>.\<close>

lemma path_link:
  assumes "path h (Some a) (xs @ (t, st) # ys) None"
    and "distinct (map fst (xs @ (t, st) # ys))"
    and "\<And>r. r \<in> set (xs @ (t, st) # ys) \<Longrightarrow> fst r \<noteq> p \<and> \<not> overlaps (fst r) p"
  obtains n h' where "h t = Some n"
    and "set_next (write_node (h(t \<mapsto> n\<lparr>nxt := None\<rparr>)) p
           ((mem_node_new sz)\<lparr>nxt := nxt n\<rparr>)) t (Some p) = Inr h'"
    and "path h' (Some a) (xs @ (t, st) # (p, sz) # ys) None"
proof -
  from assms(1) obtain m n where xs: "path h (Some a) xs (Some t)" and n: "h t = Some n"
    "node_size n = st" and ys: "path h (nxt n) ys None"
    by (auto simp: path_append)
  let ?h1 = "write_node (h(t \<mapsto> n\<lparr>nxt := None\<rparr>)) p ((mem_node_new sz)\<lparr>nxt := nxt n\<rparr>)"
  have t: "t \<noteq> p" "\<not> overlaps t p"
    using assms(3) [of "(t, st)"] by auto
  then have h1t: "?h1 t = Some (n\<lparr>nxt := None\<rparr>)"
    by (simp add: write_node_def)
  let ?h2 = "?h1(t \<mapsto> n\<lparr>nxt := Some p\<rparr>)"
  have keep: "?h2 (fst r) = h (fst r)" if "r \<in> set xs \<or> r \<in> set ys" for r
  proof -
    have "fst r \<noteq> p \<and> \<not> overlaps (fst r) p"
      using assms(3) [of r] that by auto
    moreover have "fst r \<noteq> t"
      using assms(2) that by (auto simp: image_iff)
    ultimately show ?thesis
      by (simp add: write_node_def)
  qed
  have "path ?h2 (Some a) xs (Some t)"
    using xs path_cong [of xs ?h2 h "Some a" "Some t"] keep by blast
  moreover have "path ?h2 (nxt n) ys None"
    using ys path_cong [of ys ?h2 h "nxt n" None] keep by blast
  moreover have "?h2 p = Some \<lparr>nxt = nxt n, node_size = sz\<rparr>"
    using t by (simp add: write_node_def mem_node_new_def)
  ultimately have "path ?h2 (Some a) (xs @ (t, st) # (p, sz) # ys) None"
    using n by (auto simp: path_append)
  with n h1t show ?thesis
    by (intro that [of n ?h2]) (simp_all add: set_next_def)
qed

section \<open>Well-formed region lists\<close>

lemma unat_word_diff: "unat (x - y) = (if unat y \<le> unat x then unat x - unat y else unat x + 2 ^ 64 - unat y)"
  for x y :: u64
  by (simp add: unat_sub_if')

lemma not_overlaps:
  assumes "unat x + 16 \<le> unat p" "unat p + 16 < 2 ^ 64"
  shows "\<not> overlaps x p" and "\<not> overlaps p x"
proof -
  have "16 \<le> unat (x - p)" "16 \<le> unat (p - x)"
    using assms by (simp_all add: unat_word_diff)
  then show "\<not> overlaps x p" "\<not> overlaps p x"
    by (simp_all add: overlaps_def word_less_nat_alt)
qed

lemma before_trans: "region_ok q \<Longrightarrow> before r q \<Longrightarrow> before q t \<Longrightarrow> before r t"
  by (simp add: before_def)

lemma before_apart:
  assumes "region_ok r" "region_ok q" "before r q"
  shows "fst r \<noteq> fst q" "\<not> overlaps (fst r) (fst q)" "\<not> overlaps (fst q) (fst r)"
proof -
  have *: "unat (fst r) + 16 \<le> unat (fst q)" "unat (fst q) + 16 < 2 ^ 64"
    using assms by (auto simp: region_ok_def before_def)
  then show "fst r \<noteq> fst q" by auto
  show "\<not> overlaps (fst r) (fst q)" "\<not> overlaps (fst q) (fst r)"
    using * by (simp_all add: not_overlaps)
qed

lemma off_head_apart:
  assumes "region_ok r" "off_head ha r" "unat ha + 16 < 2 ^ 64"
  shows "ha \<noteq> fst r" "\<not> overlaps ha (fst r)"
proof -
  have *: "unat ha + 16 \<le> unat (fst r) \<and> unat (fst r) + 16 < 2 ^ 64 \<or>
        unat (fst r) + 16 \<le> unat ha"
    using assms by (auto simp: region_ok_def off_head_def)
  then show "ha \<noteq> fst r" by auto
  show "\<not> overlaps ha (fst r)"
    using * assms(3) by (auto simp: not_overlaps)
qed

lemma wf_distinct:
  assumes "wf_regions ha rs"
  shows "distinct (map fst ((ha, 0) # rs))"
proof -
  have ok: "\<forall>r \<in> set rs. region_ok r \<and> off_head ha r" and s: "sorted_wrt before rs"
    using assms by (auto simp: wf_regions_def)
  have "distinct (map fst rs)"
    using s ok by (induction rs) (auto dest: before_apart(1))
  moreover have "ha \<notin> fst ` set rs"
    using assms off_head_apart(1) by (fastforce simp: wf_regions_def)
  ultimately show ?thesis by simp
qed

lemma takeWhile_before:
  assumes "\<forall>q \<in> set rs. region_ok q \<and> (before q r \<or> before r q)" "region_ok r"
  shows "q \<in> set (takeWhile (\<lambda>b. fst b \<le> fst r) rs) \<Longrightarrow> before q r"
  using assms by (auto dest!: set_takeWhileD simp: before_def region_ok_def word_le_nat_alt)

lemma dropWhile_before:
  assumes "sorted_wrt before rs" "\<forall>q \<in> set rs. region_ok q \<and> (before q r \<or> before r q)"
    "region_ok r" "q \<in> set (dropWhile (\<lambda>b. fst b \<le> fst r) rs)"
  shows "before r q"
  using assms
proof (induction rs)
  case (Cons b rs)
  show ?case
  proof (cases "fst b \<le> fst r")
    case True
    with Cons show ?thesis by simp
  next
    case False
    with Cons.prems(2,3) have b: "before r b"
      by (auto simp: before_def region_ok_def word_le_nat_alt)
    from False Cons.prems(4) consider "q = b" | "q \<in> set rs" by auto
    then show ?thesis
    proof cases
      case 2
      with Cons.prems(1,2) b show ?thesis by (auto intro: before_trans)
    qed (use b in simp)
  qed
qed simp

lemma set_insert_region [simp]: "set (insert_region r rs) = insert r (set rs)"
proof -
  have "set (takeWhile (\<lambda>b. fst b \<le> fst r) rs) \<union> set (dropWhile (\<lambda>b. fst b \<le> fst r) rs) = set rs"
    by (metis set_append takeWhile_dropWhile_id)
  then show ?thesis by (auto simp: insert_region_def)
qed

lemma sorted_insert_region:
  assumes "sorted_wrt before rs" "\<forall>q \<in> set rs. region_ok q \<and> (before q r \<or> before r q)" "region_ok r"
  shows "sorted_wrt before (insert_region r rs)"
proof -
  let ?A = "takeWhile (\<lambda>b. fst b \<le> fst r) rs" and ?B = "dropWhile (\<lambda>b. fst b \<le> fst r) rs"
  have "sorted_wrt before (?A @ ?B)"
    using assms(1) by simp
  then have "sorted_wrt before ?A" "sorted_wrt before ?B" "\<forall>x\<in>set ?A. \<forall>y\<in>set ?B. before x y"
    by (auto simp only: sorted_wrt_append)
  then show ?thesis
    using takeWhile_before [OF assms(2,3)] dropWhile_before [OF assms]
    by (auto simp: insert_region_def sorted_wrt_append)
qed

lemma wf_insert_region:
  assumes "wf_regions ha rs" "region_ok r" "off_head ha r"
    "\<forall>q \<in> set rs. before q r \<or> before r q"
  shows "wf_regions ha (insert_region r rs)"
  using assms by (auto simp: wf_regions_def intro: sorted_insert_region)

lemma free_bytes_insert [simp]: "free_bytes (insert_region r rs) = region_bytes r \<union> free_bytes rs"
  by (simp add: free_bytes_def)

section \<open>Refinement of the operations\<close>

lemma power_of_two_8: "is_power_of_two 8"
  by (auto simp: is_power_of_two_iff intro: exI [of _ 3])

lemma align_up_aligned:
  assumes "is_power_of_two al" "unat al dvd unat v" "unat v + unat al \<le> 2 ^ 64"
  shows "align_up v al = Inr v"
proof -
  obtain r where r: "align_up v al = Inr r"
    using assms(1) by (simp add: align_up_exec)
  obtain k where k: "unat v = unat al * k"
    using assms(2) by blast
  have pos: "0 < unat al"
    using assms(1) by (auto elim: is_power_of_twoE)
  have "unat r = (unat al - 1 + unat al * k) div unat al * unat al"
    unfolding align_up_unat [OF assms(1,3) r] k by (simp only: add.commute)
  also have "\<dots> = unat v"
    unfolding div_mult_self2 [OF less_imp_neq [OF pos, symmetric]] using pos k by simp
  finally show ?thesis
    using r by (simp add: word_unat_eq_iff)
qed

lemma add_free_region_refines:
  assumes inv: "lla_inv s rs" and ok: "region_ok (p, sz)" and off: "off_head (head_addr s) (p, sz)"
    and disj: "\<forall>q \<in> set rs. before q (p, sz) \<or> before (p, sz) q"
  obtains s' where "add_free_region s (VirtualPtr p) sz = Some (Inr s')"
    and "lla_inv s' (insert_region (p, sz) rs)" and "head_addr s' = head_addr s"
proof -
  let ?ha = "head_addr s" and ?A = "takeWhile (\<lambda>b. fst b \<le> p) rs"
    and ?B = "dropWhile (\<lambda>b. fst b \<le> p) rs"
  have wf: "wf_regions ?ha rs" and path: "path (nodes s) (Some ?ha) ((?ha, 0) # rs) None"
    using inv by (auto simp: lla_inv_def)
  obtain xs t st where split: "(?ha, 0) # ?A = xs @ [(t, st)]"
    by (metis list.distinct(1) rev_exhaust surj_pair)
  then have L: "(?ha, 0) # rs = xs @ (t, st) # ?B"
    by (metis append.assoc append_Cons append_Nil takeWhile_dropWhile_id)
  have point: "insert_point (nodes s) ?ha p = Some (Inr t)"
    using insert_point_spec [OF path, of p] split by simp
  have "fst r \<noteq> p \<and> \<not> overlaps (fst r) p" if "r \<in> set (xs @ (t, st) # ?B)" for r
  proof -
    from that L have "r = (?ha, 0) \<or> r \<in> set rs" by (metis set_ConsD)
    then show ?thesis
    proof
      assume "r \<in> set rs"
      with disj wf ok before_apart [of r "(p, sz)"] before_apart [of "(p, sz)" r]
      show ?thesis by (auto simp: wf_regions_def)
    qed (use off_head_apart [OF ok off] wf in \<open>auto simp: wf_regions_def\<close>)
  qed
  then obtain n h' where n: "nodes s t = Some n"
    and h': "set_next (write_node ((nodes s)(t \<mapsto> n\<lparr>nxt := None\<rparr>)) p
           ((mem_node_new sz)\<lparr>nxt := nxt n\<rparr>)) t (Some p) = Inr h'"
    and path': "path h' (Some ?ha) (xs @ (t, st) # (p, sz) # ?B) None"
    using path_link [of "nodes s" ?ha xs t st ?B p sz] path wf_distinct [OF wf] L by metis
  have "align_up p ALIGN_OF_MEM_NODE = Inr p"
    using ok by (intro align_up_aligned) (auto simp: power_of_two_8 ALIGN_OF_MEM_NODE_def region_ok_def)
  moreover have "SIZE_OF_MEM_NODE \<le> sz"
    using ok by (simp add: region_ok_def SIZE_OF_MEM_NODE_def word_le_nat_alt)
  ultimately have "add_free_region s (VirtualPtr p) sz = Some (Inr (s\<lparr>nodes := h'\<rparr>))"
    using point n h' by (simp add: add_free_region_def Let_def)
  moreover have "xs @ (t, st) # (p, sz) # ?B = (?ha, 0) # insert_region (p, sz) rs"
    using split by (simp add: insert_region_def)
  then have "lla_inv (s\<lparr>nodes := h'\<rparr>) (insert_region (p, sz) rs)"
    using path' wf_insert_region [OF wf ok off disj] by (simp add: lla_inv_def)
  ultimately show ?thesis
    by (intro that [of "s\<lparr>nodes := h'\<rparr>"]) auto
qed

lemma coalesce_from_spec:
  assumes "path h (Some a) ((a, s) # rs) None" and "distinct (map fst ((a, s) # rs))"
  shows "\<exists>h'. coalesce_from h a = Some (Inr h') \<and> path h' (Some a) (coalesce ((a, s) # rs)) None
     \<and> (\<forall>x. x \<notin> fst ` set ((a, s) # rs) \<longrightarrow> h' x = h x)"
  using assms
proof (induction rs arbitrary: a s h)
  case Nil
  then show ?case by (subst coalesce_from.simps) auto
next
  case (Cons r rs)
  obtain b t where r: "r = (b, t)" by (cases r)
  with Cons.prems(1) obtain c n where c: "h a = Some c" "node_size c = s" "nxt c = Some b"
    and n: "h b = Some n" "node_size n = t" and rest: "path h (nxt n) rs None" by auto
  have ab: "a \<noteq> b" "a \<notin> fst ` set rs" "b \<notin> fst ` set rs" "distinct (map fst rs)"
    using Cons.prems(2) r by auto
  show ?case
  proof (cases "a + s = b")
    case True
    let ?h1 = "h(b \<mapsto> n\<lparr>nxt := None\<rparr>, a \<mapsto> c\<lparr>node_size := s + t, nxt := nxt n\<rparr>)"
    have "coalesce_from h a = coalesce_from ?h1 a"
      using c n True by (subst coalesce_from.simps) (simp add: end_addr_def)
    moreover have "path ?h1 (Some a) ((a, s + t) # rs) None"
      using rest ab by simp
    moreover have "distinct (map fst ((a, s + t) # rs))"
      using ab by simp
    ultimately obtain h' where "coalesce_from h a = Some (Inr h')"
      and "path h' (Some a) (coalesce ((a, s + t) # rs)) None"
      and "\<forall>x. x \<notin> fst ` set ((a, s + t) # rs) \<longrightarrow> h' x = ?h1 x"
      using Cons.IH by metis
    then show ?thesis
      using True r by auto
  next
    case False
    have "coalesce_from h a = coalesce_from h b"
      using c n False by (subst coalesce_from.simps) (simp add: end_addr_def)
    moreover obtain h' where h': "coalesce_from h b = Some (Inr h')"
      "path h' (Some b) (coalesce ((b, t) # rs)) None"
      "\<forall>x. x \<notin> fst ` set ((b, t) # rs) \<longrightarrow> h' x = h x"
      using Cons.IH [of h b t] Cons.prems r n rest ab by auto
    moreover have "h' a = Some c"
      using h'(3) ab c by simp
    ultimately show ?thesis
      using False r c by auto
  qed
qed

lemma coalesce_starts: "fst ` set (coalesce rs) \<subseteq> fst ` set rs"
  by (induction rs rule: coalesce.induct) auto

lemma coalesce_hd: "\<exists>t' rs'. coalesce ((b, t) # rs) = (b, t') # rs'"
  by (induction "(b, t) # rs" arbitrary: t rs rule: coalesce.induct) auto

lemma coalesce_separated: "successively (\<lambda>r q. fst r + snd r \<noteq> fst q) (coalesce rs)"
proof (induction rs rule: coalesce.induct)
  case (1 a s b t rs)
  obtain t' rs' where "coalesce ((b, t) # rs) = (b, t') # rs'"
    using coalesce_hd by blast
  with 1 show ?case by auto
qed auto

lemma region_ok_merge:
  assumes "region_ok (a, s)" "region_ok (b, t)" "a + s = b"
  shows "region_ok (a, s + t)" and "unat (s + t) = unat s + unat t" and "unat b = unat a + unat s"
proof -
  show b: "unat b = unat a + unat s"
    using assms by (auto simp: region_ok_def intro: unat_add_no_wrap)
  then show st: "unat (s + t) = unat s + unat t"
    using assms by (intro unat_add_no_wrap) (auto simp: region_ok_def)
  show "region_ok (a, s + t)"
    using assms b st by (auto simp: region_ok_def)
qed

lemma coalesce_wf:
  assumes "wf_regions ha rs"
  shows "wf_regions ha (coalesce rs) \<and> free_bytes (coalesce rs) = free_bytes rs"
  using assms
proof (induction rs rule: coalesce.induct)
  case (1 a s b t rs)
  show ?case
  proof (cases "a + s = b")
    case True
    have ok: "region_ok (a, s)" "region_ok (b, t)"
      using 1(3) by (auto simp: wf_regions_def)
    note m = region_ok_merge [OF ok True]
    have "off_head ha (a, s + t)"
      using 1(3) m by (auto simp: wf_regions_def off_head_def)
    then have "wf_regions ha ((a, s + t) # rs)"
      using 1(3) m by (auto simp: wf_regions_def before_def)
    moreover have "free_bytes ((a, s + t) # rs) = free_bytes ((a, s) # (b, t) # rs)"
      using m by (auto simp: free_bytes_def region_bytes_def)
    ultimately show ?thesis
      using 1(1) True by simp
  next
    case False
    have "wf_regions ha ((b, t) # rs)"
      using 1(3) by (auto simp: wf_regions_def)
    with 1(2) False have IH: "wf_regions ha (coalesce ((b, t) # rs))"
      "free_bytes (coalesce ((b, t) # rs)) = free_bytes ((b, t) # rs)" by auto
    have "before (a, s) q" if "q \<in> set (coalesce ((b, t) # rs))" for q
    proof -
      from that coalesce_starts [of "(b, t) # rs"] obtain q' where
        "q' \<in> set ((b, t) # rs)" "fst q' = fst q" by force
      with 1(3) show ?thesis by (auto simp: wf_regions_def before_def)
    qed
    with IH(1) 1(3) have "wf_regions ha ((a, s) # coalesce ((b, t) # rs))"
      by (auto simp: wf_regions_def)
    with IH(2) False show ?thesis
      by (auto simp: free_bytes_def)
  qed
qed auto

lemma coalesce_memory_refines:
  assumes "lla_inv s rs"
  obtains s' where "coalesce_memory s = Some (Inr s')" and "lla_inv s' (coalesce rs)"
    and "head_addr s' = head_addr s"
proof -
  let ?ha = "head_addr s"
  have wf: "wf_regions ?ha rs" and path: "path (nodes s) (Some ?ha) ((?ha, 0) # rs) None"
    using assms by (auto simp: lla_inv_def)
  obtain h' where h': "coalesce_from (nodes s) ?ha = Some (Inr h')"
    "path h' (Some ?ha) (coalesce ((?ha, 0) # rs)) None"
    using coalesce_from_spec [OF path wf_distinct [OF wf]] by blast
  have "coalesce ((?ha, 0) # rs) = (?ha, 0) # coalesce rs"
    using wf_distinct [OF wf] by (cases rs) auto
  with h' coalesce_wf [OF wf] show ?thesis
    by (intro that [of "s\<lparr>nodes := h'\<rparr>"]) (auto simp: coalesce_memory_def lla_inv_def)
qed

lemma alloc_from_node_size:
  "alloc_from_node a n l = alloc_from_node a \<lparr>nxt = None, node_size = node_size n\<rparr> l"
  unfolding alloc_from_node_def end_addr_def mem_node.simps ..

lemma alloc_from_node_fits:
  assumes "is_power_of_two (lalign l)"
  obtains p where "alloc_from_node a n l = Inr p"
    and "virtual_is_null p \<longleftrightarrow> \<not> fits l (a, node_size n)"
proof -
  have "\<exists>p. alloc_from_node a n l = Inr p"
    using assms by (simp add: alloc_from_node_def align_up_exec Let_def)
  then obtain p where "alloc_from_node a n l = Inr p" ..
  then show ?thesis
    using alloc_from_node_size [of a n l] by (intro that [of p]) (simp_all add: fits_def)
qed

lemma find_from_none:
  assumes "path h (Some a) ((a, s) # rs) None" and "\<forall>r \<in> set rs. \<not> fits l r"
    and "is_power_of_two (lalign l)"
  shows "find_from h a l = Some (Inr (h, None))"
  using assms(1,2)
proof (induction rs arbitrary: a s)
  case Nil
  then show ?case by (subst find_from.simps) auto
next
  case (Cons r rs)
  obtain b t where r: "r = (b, t)" by (cases r)
  with Cons.prems(1) obtain c n where c: "h a = Some c" "nxt c = Some b"
    and n: "h b = Some n" "node_size n = t" and rest: "path h (Some b) ((b, t) # rs) None" by auto
  obtain p where "alloc_from_node b n l = Inr p" "virtual_is_null p"
    using alloc_from_node_fits [OF assms(3), of b n] Cons.prems(2) r n by auto
  then have "find_from h a l = find_from h b l"
    using c n by (subst find_from.simps) simp
  with Cons.IH [OF rest] Cons.prems(2) show ?case by simp
qed

lemma find_from_some:
  assumes "path h (Some a) ((a, s) # xs @ r # ys) None"
    and "distinct (map fst ((a, s) # xs @ r # ys))"
    and "\<forall>q \<in> set xs. \<not> fits l q" and "fits l r" and "is_power_of_two (lalign l)"
  shows "\<exists>h'. find_from h a l = Some (Inr (h', Some (fst r)))
     \<and> path h' (Some a) ((a, s) # xs @ ys) None
     \<and> h' (fst r) = Some \<lparr>nxt = None, node_size = snd r\<rparr>
     \<and> (\<forall>x. x \<notin> fst ` set ((a, s) # xs @ r # ys) \<longrightarrow> h' x = h x)"
  using assms(1-3)
proof (induction xs arbitrary: a s)
  case Nil
  obtain b t where r: "r = (b, t)" by (cases r)
  with Nil.prems(1) obtain c n where c: "h a = Some c" "node_size c = s" "nxt c = Some b"
    and n: "h b = Some n" "node_size n = t" and rest: "path h (nxt n) ys None" by auto
  obtain p where p: "alloc_from_node b n l = Inr p" "\<not> virtual_is_null p"
    using alloc_from_node_fits [OF assms(5), of b n] assms(4) r n by metis
  define k where "k = h(b \<mapsto> n\<lparr>nxt := None\<rparr>, a \<mapsto> c\<lparr>nxt := nxt n\<rparr>)"
  have "find_from h a l = Some (Inr (k, Some b))"
    using c n p by (subst find_from.simps) (simp add: k_def)
  moreover have ab: "a \<noteq> b" "a \<notin> fst ` set ys" "b \<notin> fst ` set ys"
    using Nil.prems(2) r by auto
  then have "path k (Some a) ((a, s) # ys) None"
    using rest c by (simp add: k_def)
  moreover have "k b = Some \<lparr>nxt = None, node_size = t\<rparr>"
    using ab n by (simp add: k_def)
  moreover have "\<forall>x. x \<notin> fst ` set ((a, s) # r # ys) \<longrightarrow> k x = h x"
    using r by (auto simp: k_def)
  ultimately show ?case
    using r by (intro exI [of _ k]) simp
next
  case (Cons q xs)
  obtain b t where q: "q = (b, t)" by (cases q)
  with Cons.prems(1) obtain c n where c: "h a = Some c" "node_size c = s" "nxt c = Some b"
    and n: "h b = Some n" "node_size n = t"
    and rest: "path h (Some b) ((b, t) # xs @ r # ys) None" by auto
  obtain p where "alloc_from_node b n l = Inr p" "virtual_is_null p"
    using alloc_from_node_fits [OF assms(5), of b n] Cons.prems(3) q n by auto
  then have eq: "find_from h a l = find_from h b l"
    using c n by (subst find_from.simps) simp
  have "distinct (map fst ((b, t) # xs @ r # ys))" "\<forall>q \<in> set xs. \<not> fits l q"
    using Cons.prems(2,3) q by auto
  from Cons.IH [OF rest this] obtain h' where h': "find_from h b l = Some (Inr (h', Some (fst r)))"
    "path h' (Some b) ((b, t) # xs @ ys) None"
    "h' (fst r) = Some \<lparr>nxt = None, node_size = snd r\<rparr>"
    "\<forall>x. x \<notin> fst ` set ((b, t) # xs @ r # ys) \<longrightarrow> h' x = h x" by blast
  have "h' a = h a"
    using h'(4) Cons.prems(2) q by auto
  with eq h' c q show ?case by auto
qed

section \<open>Layouts as the allocator normalises them\<close>

lemma size_align_word:
  assumes "size_align l = Inr l'" and "lalign l \<le> 8"
  shows "lalign l' = 8" and "16 \<le> unat (lsize l')" and "8 dvd unat (lsize l')"
    and "unat (lsize l) \<le> unat (lsize l')"
proof -
  have m: "max (lalign l) 8 = 8"
    using assms(2) by (simp add: max_def)
  let ?pad = "(lsize l + 8 - 1) AND NOT (8 - 1)"
  from assms(1) have bound: "unat (lsize l) + 8 \<le> 2 ^ 63"
    and l': "l' = \<lparr>lsize = max ?pad 16, lalign = 8\<rparr>"
    by (auto simp: size_align_def layout_align_to_def m ALIGN_OF_MEM_NODE_def SIZE_OF_MEM_NODE_def
        layout_from_size_align_def pad_to_align_def Let_def split: if_splits)
  have up: "align_up (lsize l) 8 = Inr ?pad"
    by (simp add: align_up_exec power_of_two_8)
  have "unat (lsize l) + unat (8 :: usize) \<le> 2 ^ 64"
    using bound by simp
  from align_up_unat [OF power_of_two_8 this up]
  have u: "unat ?pad = (unat (lsize l) + 7) div 8 * 8" by simp
  show "lalign l' = 8" by (simp add: l')
  have mx: "unat (lsize l') = max (unat ?pad) 16"
    by (simp add: l' max_def word_le_nat_alt)
  show "16 \<le> unat (lsize l')" by (simp add: mx)
  show "8 dvd unat (lsize l')" using u by (simp add: mx max_def)
  have "unat (lsize l) \<le> (unat (lsize l) + 7) div 8 * 8" by presburger
  with u show "unat (lsize l) \<le> unat (lsize l')" by (simp add: mx)
qed

lemma fits_word_aligned:
  assumes "lalign l = 8" "region_ok r" "unat (fst r) + unat (lsize l) < 2 ^ 64" "16 \<le> unat (lsize l)"
  shows "fits l r \<longleftrightarrow> unat (lsize l) = unat (snd r) \<or> unat (lsize l) + 16 \<le> unat (snd r)"
proof -
  obtain a s where r: "r = (a, s)" by (cases r)
  have al: "align_up a 8 = Inr a"
    using assms(2) r by (intro align_up_aligned) (auto simp: power_of_two_8 region_ok_def)
  have e: "unat (a + s) = unat a + unat s"
    using assms(2) r by (intro unat_add_no_wrap) (auto simp: region_ok_def)
  have f: "unat (a + lsize l) = unat a + unat (lsize l)"
    using assms(3) r by (intro unat_add_no_wrap) auto
  have a0: "a \<noteq> 0" using assms(2) r by (auto simp: region_ok_def)
  have d: "unat (a + s - (a + lsize l)) = unat s - unat (lsize l)" if "unat (lsize l) \<le> unat s"
    using that e f by (simp only: unat_word_diff) simp
  show ?thesis
    using assms(4) a0 e f d
    by (auto simp: fits_def r alloc_from_node_def assms(1) al end_addr_def SIZE_OF_MEM_NODE_def
        virtual_null_def Let_def word_less_nat_alt)
qed

section \<open>Allocation and release on the region list\<close>

definition block :: "u64 \<Rightarrow> layout \<Rightarrow> nat set" where
  "block p l = {unat p..<unat p + unat (lsize l)}"

lemma wf_remove:
  assumes "wf_regions ha (xs @ r # ys)"
  shows "wf_regions ha (xs @ ys)" and "region_bytes r \<inter> free_bytes (xs @ ys) = {}"
    and "\<forall>q \<in> set (xs @ ys). before q r \<or> before r q" and "region_ok r" and "off_head ha r"
proof -
  show "wf_regions ha (xs @ ys)" "region_ok r" "off_head ha r"
    using assms by (auto simp: wf_regions_def sorted_wrt_append)
  show "\<forall>q \<in> set (xs @ ys). before q r \<or> before r q"
    using assms by (auto simp: wf_regions_def sorted_wrt_append)
  then have "region_bytes r \<inter> region_bytes q = {}" if "q \<in> set (xs @ ys)" for q
    using that by (cases "before q r") (auto simp: region_bytes_def before_def)
  then show "region_bytes r \<inter> free_bytes (xs @ ys) = {}"
    unfolding free_bytes_def by blast
qed

text \<open>What is left of a region after the first \<open>n\<close> bytes are handed out.\<close>

lemma region_tail:
  assumes "region_ok (a, s)" "off_head ha (a, s)" "unat n + 16 \<le> unat s" "8 dvd unat n"
  shows "region_ok (a + n, s - n)" and "off_head ha (a + n, s - n)"
    and "unat (a + n) = unat a + unat n" and "unat (s - n) = unat s - unat n"
    and "before q (a, s) \<Longrightarrow> before q (a + n, s - n)"
    and "before (a, s) q \<Longrightarrow> before (a + n, s - n) q"
proof -
  show an: "unat (a + n) = unat a + unat n"
    using assms by (intro unat_add_no_wrap) (auto simp: region_ok_def)
  show sn: "unat (s - n) = unat s - unat n"
    using assms by (simp add: unat_word_diff)
  show "region_ok (a + n, s - n)" "off_head ha (a + n, s - n)"
    "before q (a, s) \<Longrightarrow> before q (a + n, s - n)" "before (a, s) q \<Longrightarrow> before (a + n, s - n) q"
    using assms an sn by (auto simp: region_ok_def off_head_def before_def)
qed

lemma find_region_refines_some:
  assumes "lla_inv s (xs @ r # ys)" "\<forall>q \<in> set xs. \<not> fits l q" "fits l r"
    "is_power_of_two (lalign l)"
  obtains s1 where "find_region s l = Some (Inr (s1, Some (fst r)))" and "lla_inv s1 (xs @ ys)"
    and "nodes s1 (fst r) = Some \<lparr>nxt = None, node_size = snd r\<rparr>" and "head_addr s1 = head_addr s"
proof -
  let ?ha = "head_addr s"
  have wf: "wf_regions ?ha (xs @ r # ys)"
    and path: "path (nodes s) (Some ?ha) ((?ha, 0) # xs @ r # ys) None"
    using assms(1) by (auto simp: lla_inv_def)
  obtain h' where "find_from (nodes s) ?ha l = Some (Inr (h', Some (fst r)))"
    "path h' (Some ?ha) ((?ha, 0) # xs @ ys) None"
    "h' (fst r) = Some \<lparr>nxt = None, node_size = snd r\<rparr>"
    using find_from_some [OF path wf_distinct [OF wf] assms(2-4)] by blast
  with wf_remove(1) [OF wf] show ?thesis
    by (intro that [of "s\<lparr>nodes := h'\<rparr>"]) (auto simp: find_region_def lla_inv_def)
qed

lemma inner_alloc_none:
  assumes "lla_inv s rs" "size_align l0 = Inr l" "lalign l = 8" "\<forall>r \<in> set rs. \<not> fits l r"
  shows "inner_alloc s l0 = Some (Inr (s, virtual_null))"
proof -
  have "find_from (nodes s) (head_addr s) l = Some (Inr (nodes s, None))"
    using assms by (intro find_from_none) (auto simp: lla_inv_def power_of_two_8)
  with assms(2) show ?thesis
    by (simp add: inner_alloc_def find_region_def)
qed

lemma inner_alloc_first_fit:
  assumes inv: "lla_inv s (xs @ r # ys)" and l: "size_align l0 = Inr l" "lalign l0 \<le> 8"
    and nw: "unat (fst r) + unat (lsize l) < 2 ^ 64"
    and first: "\<forall>q \<in> set xs. \<not> fits l q" and fit: "fits l r"
  obtains s' rs' where "inner_alloc s l0 = Some (Inr (s', VirtualPtr (fst r)))" and "lla_inv s' rs'"
    and "free_bytes rs' = free_bytes (xs @ r # ys) - block (fst r) l"
    and "block (fst r) l \<subseteq> region_bytes r" and "head_addr s' = head_addr s"
proof -
  obtain a sz where r: "r = (a, sz)" by (cases r)
  note w = size_align_word [OF l]
  have wf: "wf_regions (head_addr s) (xs @ r # ys)"
    using inv by (simp add: lla_inv_def)
  note rem = wf_remove [OF wf]
  have n: "unat (lsize l) = unat sz \<or> unat (lsize l) + 16 \<le> unat sz"
    using fits_word_aligned [OF w(1) rem(4) nw w(2)] fit r by simp
  obtain s1 where s1: "find_region s l = Some (Inr (s1, Some a))" "lla_inv s1 (xs @ ys)"
    "nodes s1 a = Some \<lparr>nxt = None, node_size = sz\<rparr>" "head_addr s1 = head_addr s"
    using find_region_refines_some [OF inv first fit] w(1) power_of_two_8 r by auto
  have all: "free_bytes (xs @ r # ys) = region_bytes r \<union> free_bytes (xs @ ys)"
    by (auto simp: free_bytes_def)
  have blk: "block a l \<subseteq> region_bytes r"
    using n by (auto simp: block_def region_bytes_def r)
  show ?thesis
  proof (cases "unat (lsize l) = unat sz")
    case True
    then have "lsize l = sz" by (simp add: word_unat_eq_iff)
    then have "inner_alloc s l0 = Some (Inr (s1, VirtualPtr a))"
      using l s1 by (simp add: inner_alloc_def end_addr_def Let_def)
    moreover have "block a l = region_bytes r"
      using True by (simp add: block_def region_bytes_def r)
    ultimately show ?thesis
      using s1 rem(2) all r by (intro that [of s1 "xs @ ys"]) auto
  next
    case False
    with n have n16: "unat (lsize l) + 16 \<le> unat sz" by simp
    let ?t = "(a + lsize l, sz - lsize l)"
    note t = region_tail [OF rem(4,5) [unfolded r] n16 w(3)]
    obtain s2 where s2: "add_free_region s1 (VirtualPtr (a + lsize l)) (sz - lsize l) = Some (Inr s2)"
      "lla_inv s2 (insert_region ?t (xs @ ys))" "head_addr s2 = head_addr s1"
    proof (rule add_free_region_refines [OF s1(2) t(1)])
      show "off_head (head_addr s1) ?t"
        using t(2) s1(4) by simp
      show "\<forall>q \<in> set (xs @ ys). before q ?t \<or> before ?t q"
        using rem(3) t(5,6) r by blast
    qed
    have extra: "a + sz - (a + lsize l) = sz - lsize l" by simp
    have "0 < sz - lsize l"
      using t(4) n16 by (simp add: word_less_nat_alt)
    then have "inner_alloc s l0 = Some (Inr (s2, VirtualPtr a))"
      using l s1 s2 by (simp add: inner_alloc_def end_addr_def Let_def)
    moreover have "region_bytes ?t = region_bytes r - block a l"
      using t(3,4) n16 by (auto simp: region_bytes_def block_def r)
    then have "free_bytes (insert_region ?t (xs @ ys)) = free_bytes (xs @ r # ys) - block a l"
      using all blk rem(2) by auto
    ultimately show ?thesis
      using s2 s1 blk r by (intro that [of s2 "insert_region ?t (xs @ ys)"]) auto
  qed
qed

lemma inner_dealloc_refines:
  assumes inv: "lla_inv s rs" and l: "size_align l0 = Inr l" "lalign l0 \<le> 8"
    and p: "8 dvd unat p" "0 < unat p" "unat p + unat (lsize l) < 2 ^ 64"
    and off: "off_head (head_addr s) (p, lsize l)" and free: "block p l \<inter> free_bytes rs = {}"
  obtains s' where "inner_dealloc s (VirtualPtr p) l0 = Some (Inr s')"
    and "lla_inv s' (coalesce (insert_region (p, lsize l) rs))"
    and "free_bytes (coalesce (insert_region (p, lsize l) rs)) = free_bytes rs \<union> block p l"
    and "head_addr s' = head_addr s"
proof -
  note w = size_align_word [OF l]
  have wf: "wf_regions (head_addr s) rs"
    using inv by (simp add: lla_inv_def)
  have ok: "region_ok (p, lsize l)"
    using w p by (simp add: region_ok_def)
  have disj: "before q (p, lsize l) \<or> before (p, lsize l) q" if q: "q \<in> set rs" for q
  proof (rule ccontr)
    assume "\<not> ?thesis"
    then have "max (unat p) (unat (fst q)) \<in> block p l \<inter> region_bytes q"
      using w(2) wf q
      by (auto simp: before_def block_def region_bytes_def max_def wf_regions_def region_ok_def)
    with free q show False by (auto simp: free_bytes_def)
  qed
  obtain s1 where s1: "add_free_region s (VirtualPtr p) (lsize l) = Some (Inr s1)"
    "lla_inv s1 (insert_region (p, lsize l) rs)" "head_addr s1 = head_addr s"
    using add_free_region_refines [OF inv ok off] disj by blast
  obtain s2 where s2: "coalesce_memory s1 = Some (Inr s2)"
    "lla_inv s2 (coalesce (insert_region (p, lsize l) rs))" "head_addr s2 = head_addr s1"
    using coalesce_memory_refines [OF s1(2)] by blast
  have "wf_regions (head_addr s1) (insert_region (p, lsize l) rs)"
    using s1(2) by (simp add: lla_inv_def)
  then have "free_bytes (coalesce (insert_region (p, lsize l) rs)) = free_bytes rs \<union> block p l"
    using coalesce_wf by (auto simp: block_def region_bytes_def)
  with s1 s2 l show ?thesis
    by (intro that [of s2]) (simp_all add: inner_dealloc_def)
qed

section \<open>The contract of a heap\<close>

text \<open>
  What clients of a heap rely on: a successful allocation hands out bytes that were free and
  takes exactly those out of the free set. Blocks of any sequence of successful allocations are
  then disjoint from each other and from what is still free.
\<close>

locale heap_contract =
  fixes inv :: "'s \<Rightarrow> 'r \<Rightarrow> bool"
    and free :: "'r \<Rightarrow> nat set"
    and alloc :: "'s \<Rightarrow> 'l \<Rightarrow> 's \<Rightarrow> nat set \<Rightarrow> bool"
    and admissible :: "nat set \<Rightarrow> 'l \<Rightarrow> bool"
  assumes alloc_takes: "inv s r \<Longrightarrow> admissible (free r) l \<Longrightarrow> alloc s l s' b \<Longrightarrow>
      \<exists>r'. inv s' r' \<and> b \<subseteq> free r \<and> free r' = free r - b"
    and admissible_mono: "admissible B l \<Longrightarrow> A \<subseteq> B \<Longrightarrow> admissible A l"
begin

fun alloc_run :: "'s \<Rightarrow> ('l \<times> nat set) list \<Rightarrow> 's \<Rightarrow> bool" where
  "alloc_run s [] t = (s = t)"
| "alloc_run s ((l, b) # bs) t = (\<exists>u. alloc s l u b \<and> alloc_run u bs t)"

lemma run_blocks:
  assumes "inv s r" "alloc_run s bs t" "\<forall>(l, b) \<in> set bs. admissible (free r) l"
  shows "\<exists>r'. inv t r' \<and> free r' = free r - \<Union> (snd ` set bs)
    \<and> \<Union> (snd ` set bs) \<subseteq> free r
    \<and> sorted_wrt (\<lambda>x y. x \<inter> y = {}) (map snd bs)"
  using assms
proof (induction bs arbitrary: s r)
  case (Cons x bs)
  obtain l b where x: "x = (l, b)" by (cases x)
  with Cons.prems obtain u where u: "alloc s l u b" "alloc_run u bs t" by auto
  with Cons.prems x obtain r1 where r1: "inv u r1" "b \<subseteq> free r" "free r1 = free r - b"
    using alloc_takes [of s r l u b] by auto
  have "\<forall>(l, b) \<in> set bs. admissible (free r1) l"
    using Cons.prems(3) x r1(3) by (auto intro: admissible_mono)
  from Cons.IH [OF r1(1) u(2) this] obtain r' where "inv t r'"
    "free r' = free r1 - \<Union> (snd ` set bs)" "\<Union> (snd ` set bs) \<subseteq> free r1"
    "sorted_wrt (\<lambda>x y. x \<inter> y = {}) (map snd bs)" by blast
  with r1 x show ?case by (intro exI [of _ r']) auto
qed auto

end

text \<open>A word-aligned request of the kernel heap, and the bound that keeps its end address from
  wrapping: all free memory lies below \<open>2 ^ 64 - size\<close>.\<close>

definition lla_admissible :: "nat set \<Rightarrow> layout \<Rightarrow> bool" where
  "lla_admissible B l0 \<longleftrightarrow> lalign l0 \<le> 8 \<and>
     (\<exists>l. size_align l0 = Inr l \<and> (\<forall>x \<in> B. x + unat (lsize l) < 2 ^ 64))"

definition lla_alloc_block ::
    "linked_list_allocator \<Rightarrow> layout \<Rightarrow> linked_list_allocator \<Rightarrow> nat set \<Rightarrow> bool" where
  "lla_alloc_block s l0 s' b \<longleftrightarrow>
     (\<exists>p l. inner_alloc s l0 = Some (Inr (s', VirtualPtr p)) \<and> p \<noteq> 0 \<and> size_align l0 = Inr l
        \<and> b = block p l)"

lemma region_start_free: "r \<in> set rs \<Longrightarrow> region_ok r \<Longrightarrow> unat (fst r) \<in> free_bytes rs"
  by (force simp: free_bytes_def region_bytes_def region_ok_def)

lemma inner_alloc_cases:
  assumes inv: "lla_inv s rs" and adm: "lla_admissible (free_bytes rs) l0" and l: "size_align l0 = Inr l"
  shows "if \<exists>r \<in> set rs. unat (snd r) = unat (lsize l) \<or> unat (lsize l) + 16 \<le> unat (snd r)
     then \<exists>s' rs' p. inner_alloc s l0 = Some (Inr (s', VirtualPtr p)) \<and> p \<noteq> 0 \<and> 8 dvd unat p
        \<and> block p l \<subseteq> free_bytes rs \<and> lla_inv s' rs' \<and> free_bytes rs' = free_bytes rs - block p l
     else inner_alloc s l0 = Some (Inr (s, virtual_null))"
proof -
  have al: "lalign l0 \<le> 8"
    using adm by (simp add: lla_admissible_def)
  note w = size_align_word [OF l al]
  have ok: "\<forall>r \<in> set rs. region_ok r"
    using inv by (auto simp: lla_inv_def wf_regions_def)
  then have nw: "unat (fst r) + unat (lsize l) < 2 ^ 64" if "r \<in> set rs" for r
    using that adm l region_start_free by (auto simp: lla_admissible_def)
  have fits: "fits l r \<longleftrightarrow> unat (lsize l) = unat (snd r) \<or> unat (lsize l) + 16 \<le> unat (snd r)"
    if "r \<in> set rs" for r
    using fits_word_aligned [OF w(1) _ nw [OF that] w(2)] ok that by blast
  show ?thesis
  proof (cases "\<exists>r \<in> set rs. fits l r")
    case True
    then obtain xs r ys where rs: "rs = xs @ r # ys" "fits l r" "\<forall>q \<in> set xs. \<not> fits l q"
      using split_list_first_prop [of rs "fits l"] by blast
    have r: "region_ok r" "r \<in> set rs" using ok rs by auto
    obtain s' rs' where "inner_alloc s l0 = Some (Inr (s', VirtualPtr (fst r)))" "lla_inv s' rs'"
      "free_bytes rs' = free_bytes rs - block (fst r) l" "block (fst r) l \<subseteq> region_bytes r"
      using inner_alloc_first_fit [OF inv [unfolded rs(1)] l al _ rs(3,2)] nw [OF r(2)] rs(1) by metis
    moreover have "region_bytes r \<subseteq> free_bytes rs"
      using r(2) by (auto simp: free_bytes_def)
    moreover have "fst r \<noteq> 0" "8 dvd unat (fst r)"
      using r(1) by (auto simp: region_ok_def)
    moreover have c: "\<exists>r \<in> set rs. unat (snd r) = unat (lsize l) \<or> unat (lsize l) + 16 \<le> unat (snd r)"
      using r(2) rs(2) fits [OF r(2)] by (intro bexI [of _ r]) auto
    ultimately show ?thesis
      unfolding if_P [OF c] by blast
  next
    case False
    then have c: "\<not> (\<exists>r \<in> set rs. unat (snd r) = unat (lsize l) \<or> unat (lsize l) + 16 \<le> unat (snd r))"
      using fits by metis
    show ?thesis
      unfolding if_not_P [OF c] using inner_alloc_none [OF inv l w(1)] False by blast
  qed
qed

interpretation lla_heap: heap_contract lla_inv free_bytes lla_alloc_block lla_admissible
proof
  fix s rs l0 s' b
  assume inv: "lla_inv s rs" and adm: "lla_admissible (free_bytes rs) l0"
    and "lla_alloc_block s l0 s' b"
  then obtain p l where p: "inner_alloc s l0 = Some (Inr (s', VirtualPtr p))" "p \<noteq> 0"
    and l: "size_align l0 = Inr l" and b: "b = block p l"
    by (auto simp: lla_alloc_block_def)
  with inner_alloc_cases [OF inv adm l]
  show "\<exists>r'. lla_inv s' r' \<and> b \<subseteq> free_bytes rs \<and> free_bytes r' = free_bytes rs - b"
    by (auto simp: virtual_null_def split: if_splits)
next
  fix B l and A :: "nat set"
  assume "lla_admissible B l" "A \<subseteq> B"
  then show "lla_admissible A l" by (auto simp: lla_admissible_def)
qed

text \<open>A run of allocations of the kernel heap, with the blocks it handed out.\<close>

fun alloc_seq :: "linked_list_allocator \<Rightarrow> layout list \<Rightarrow> (linked_list_allocator \<times> virtual_ptr list) res option" where
  "alloc_seq s [] = Some (Inr (s, []))"
| "alloc_seq s (l # ls) =
     obind (inner_alloc s l) (\<lambda>(s1, p).
     obind (alloc_seq s1 ls) (\<lambda>(s2, ps). Some (Inr (s2, p # ps))))"

definition blocks_of :: "layout list \<Rightarrow> virtual_ptr list \<Rightarrow> nat set list" where
  "blocks_of ls ps = map2 (\<lambda>l p. case size_align l of Inl _ \<Rightarrow> {} | Inr l' \<Rightarrow> block (virtual_addr p) l') ls ps"

lemma alloc_seq_run:
  assumes "alloc_seq s ls = Some (Inr (t, ps))" "virtual_null \<notin> set ps"
    "\<forall>l \<in> set ls. \<exists>l'. size_align l = Inr l'"
  shows "length ps = length ls \<and> lla_heap.alloc_run s (zip ls (blocks_of ls ps)) t"
  using assms
proof (induction ls arbitrary: s ps)
  case (Cons l ls)
  then obtain s1 p ps' where s1: "inner_alloc s l = Some (Inr (s1, p))"
    "alloc_seq s1 ls = Some (Inr (t, ps'))" "ps = p # ps'"
    by (auto simp: obind_eq_ok)
  obtain a where "p = VirtualPtr a" "a \<noteq> 0"
    using Cons.prems(2) s1(3) by (cases p) (auto simp: virtual_null_def)
  moreover obtain l' where l': "size_align l = Inr l'"
    using Cons.prems(3) by auto
  ultimately have "lla_alloc_block s l s1 (block (virtual_addr p) l')"
    using s1(1) by (auto simp: lla_alloc_block_def)
  moreover have "length ps' = length ls \<and> lla_heap.alloc_run s1 (zip ls (blocks_of ls ps')) t"
    using Cons.prems s1 by (intro Cons.IH) auto
  ultimately show ?case
    using s1(3) l' by (auto simp: blocks_of_def)
qed (simp add: blocks_of_def)

section \<open>Properties of the heap\<close>

text \<open>A small heap: the head at 4096 and one free page at 65536.\<close>

definition demo_heap :: linked_list_allocator where
  "demo_heap = \<lparr>head_addr = 4096,
     nodes = [4096 \<mapsto> \<lparr>nxt = Some 65536, node_size = 0\<rparr>,
              65536 \<mapsto> \<lparr>nxt = None, node_size = 4096\<rparr>]\<rparr>"

definition demo_layout :: layout where
  "demo_layout = \<lparr>lsize = 24, lalign = 8\<rparr>"

lemma demo_heap_inv: "lla_inv demo_heap [(65536, 4096)]"
  by (simp add: lla_inv_def demo_heap_def wf_regions_def region_ok_def off_head_def)

lemma power_of_two_8_val: "is_power_of_two 8"
  by (simp add: is_power_of_two_iff) (rule exI [of _ 3], simp)

lemma demo_size_align: "size_align demo_layout = Inr demo_layout"
  using power_of_two_8_val
  by (simp add: size_align_def demo_layout_def layout_align_to_def layout_from_size_align_def
      ALIGN_OF_MEM_NODE_def SIZE_OF_MEM_NODE_def pad_to_align_def)

lemma demo_free_bytes: "free_bytes [(65536, 4096)] = {65536..<69632}"
  by (simp add: free_bytes_def region_bytes_def)

lemma demo_admissible: "lla_admissible (free_bytes [(65536, 4096)]) demo_layout"
  using demo_size_align by (simp add: lla_admissible_def demo_free_bytes) (simp add: demo_layout_def)

text \<open>C8: allocation is correct on every branch. From a well-formed free list, a word-aligned
  request whose end cannot wrap always returns. When some free region has exactly the rounded size or at
  least 16 bytes more, the result is a non-null, 8-aligned block of free bytes, exactly that block
  leaves the free memory and the list stays well-formed; otherwise the result is null
  and the allocator is unchanged.\<close>

theorem inner_alloc_correct:
  assumes "lla_inv s rs" and "lla_admissible (free_bytes rs) l0" and "size_align l0 = Inr l"
  shows "if \<exists>r \<in> set rs. unat (snd r) = unat (lsize l) \<or> unat (lsize l) + 16 \<le> unat (snd r)
     then \<exists>s' rs' p. inner_alloc s l0 = Some (Inr (s', VirtualPtr p)) \<and> p \<noteq> 0 \<and> 8 dvd unat p
        \<and> block p l \<subseteq> free_bytes rs \<and> lla_inv s' rs' \<and> free_bytes rs' = free_bytes rs - block p l
     else inner_alloc s l0 = Some (Inr (s, virtual_null))"
  by (rule inner_alloc_cases [OF assms])

theorem inner_alloc_correct_witness:
  "\<exists>s' rs' p. inner_alloc demo_heap demo_layout = Some (Inr (s', VirtualPtr p)) \<and> p \<noteq> 0
     \<and> block p demo_layout \<subseteq> {65536..<69632} \<and> lla_inv s' rs'
     \<and> free_bytes rs' = {65536..<69632} - block p demo_layout"
proof -
  have "unat (lsize demo_layout) + 16 \<le> unat (snd (65536 :: u64, 4096 :: usize))"
    by (simp add: demo_layout_def)
  then have c: "\<exists>r \<in> set [(65536 :: u64, 4096 :: usize)].
      unat (snd r) = unat (lsize demo_layout) \<or> unat (lsize demo_layout) + 16 \<le> unat (snd r)"
    by simp
  show ?thesis
    using inner_alloc_correct [OF demo_heap_inv demo_admissible demo_size_align]
    unfolding if_P [OF c] demo_free_bytes by blast
qed

text \<open>C9: releasing a block gives its bytes back. A block that is not free already, off the list
  head and aligned, is put into the free list in address order, the free bytes grow by
  exactly the block, and afterwards no two consecutive free regions touch: all
  neighbours have been merged.\<close>

theorem inner_dealloc_correct:
  assumes "lla_inv s rs" and "size_align l0 = Inr l" and "lalign l0 \<le> 8"
    and "8 dvd unat p" and "0 < unat p" and "unat p + unat (lsize l) < 2 ^ 64"
    and "off_head (head_addr s) (p, lsize l)" and "block p l \<inter> free_bytes rs = {}"
  shows "\<exists>s' rs'. inner_dealloc s (VirtualPtr p) l0 = Some (Inr s') \<and> lla_inv s' rs'
     \<and> free_bytes rs' = free_bytes rs \<union> block p l
     \<and> successively (\<lambda>r q. fst r + snd r \<noteq> fst q) rs'"
proof -
  obtain s' where "inner_dealloc s (VirtualPtr p) l0 = Some (Inr s')"
    "lla_inv s' (coalesce (insert_region (p, lsize l) rs))"
    "free_bytes (coalesce (insert_region (p, lsize l) rs)) = free_bytes rs \<union> block p l"
    by (rule inner_dealloc_refines [OF assms])
  moreover have "successively (\<lambda>r q. fst r + snd r \<noteq> fst q) (coalesce (insert_region (p, lsize l) rs))"
    by (rule coalesce_separated)
  ultimately show ?thesis by blast
qed

theorem inner_dealloc_correct_witness:
  "\<exists>s' rs'. inner_dealloc demo_heap (VirtualPtr 65512) demo_layout = Some (Inr s') \<and> lla_inv s' rs'
     \<and> free_bytes rs' = {65536..<69632} \<union> {65512..<65536}
     \<and> successively (\<lambda>r q. fst r + snd r \<noteq> fst q) rs'"
proof -
  have b: "block 65512 demo_layout = {65512..<65536}"
    by (simp add: block_def demo_layout_def)
  have "\<exists>s' rs'. inner_dealloc demo_heap (VirtualPtr 65512) demo_layout = Some (Inr s') \<and> lla_inv s' rs'
     \<and> free_bytes rs' = free_bytes [(65536, 4096)] \<union> block 65512 demo_layout
     \<and> successively (\<lambda>r q. fst r + snd r \<noteq> fst q) rs'"
    using demo_heap_inv demo_size_align
    by (rule inner_dealloc_correct)
      (simp_all only: b demo_free_bytes, auto simp: demo_layout_def demo_heap_def off_head_def)
  then show ?thesis
    by (simp only: b demo_free_bytes)
qed

text \<open>C10: blocks handed out by any sequence of successful word-aligned allocations are pairwise
  disjoint, all lie in the memory that was free at the start, and what is free
  afterwards is what was free before less those blocks.\<close>

theorem alloc_seq_disjoint:
  assumes "lla_inv s rs" and "alloc_seq s ls = Some (Inr (t, ps))" and "virtual_null \<notin> set ps"
    and "\<forall>l \<in> set ls. lla_admissible (free_bytes rs) l"
  shows "\<exists>rs'. lla_inv t rs' \<and> free_bytes rs' = free_bytes rs - \<Union> (set (blocks_of ls ps))
     \<and> \<Union> (set (blocks_of ls ps)) \<subseteq> free_bytes rs
     \<and> sorted_wrt (\<lambda>x y. x \<inter> y = {}) (blocks_of ls ps)"
proof -
  have run: "length ps = length ls" "lla_heap.alloc_run s (zip ls (blocks_of ls ps)) t"
    using alloc_seq_run [OF assms(2,3)] assms(4) by (auto simp: lla_admissible_def)
  then have len: "length (blocks_of ls ps) = length ls"
    by (simp add: blocks_of_def)
  have "\<forall>(l, b) \<in> set (zip ls (blocks_of ls ps)). lla_admissible (free_bytes rs) l"
    using assms(4) by (auto dest: set_zip_leftD)
  from lla_heap.run_blocks [OF assms(1) run(2) this] len show ?thesis
    by (simp flip: set_map)
qed



lemmas heap_eval = inner_alloc_def find_region_def find_from.simps alloc_from_node_def end_addr_def
  add_free_region_def insert_point.simps write_node_def mem_node_new_def set_next_def overlaps_def
  ALIGN_OF_MEM_NODE_def SIZE_OF_MEM_NODE_def

lemma demo_align:
  "align_up 65536 8 = Inr 65536" "align_up 65560 8 = Inr 65560" "align_up 65584 8 = Inr 65584"
  using power_of_two_8_val by (simp_all add: align_up_def)

lemma run_result:
  assumes "map_option (map_sum id snd) m = Some (Inr b)"
  obtains a where "m = Some (Inr (a, b))"
proof -
  from assms obtain r where "m = Some r" "map_sum id snd r = Inr b" by auto
  then show ?thesis by (cases r) (auto intro: that)
qed

lemma demo_run: "map_option (map_sum id snd) (alloc_seq demo_heap [demo_layout, demo_layout]) =
    Some (Inr [VirtualPtr 65536, VirtualPtr 65560])"
  by (simp add: demo_size_align heap_eval demo_align)
    (simp add: demo_heap_def demo_layout_def demo_align heap_eval)

theorem alloc_seq_disjoint_witness:
  "\<exists>t rs'. lla_inv t rs'
     \<and> free_bytes rs' = {65536..<69632} - \<Union> (set (blocks_of [demo_layout, demo_layout] [VirtualPtr 65536, VirtualPtr 65560]))
     \<and> sorted_wrt (\<lambda>x y. x \<inter> y = {}) (blocks_of [demo_layout, demo_layout] [VirtualPtr 65536, VirtualPtr 65560])"
proof -
  obtain t where t: "alloc_seq demo_heap [demo_layout, demo_layout] =
      Some (Inr (t, [VirtualPtr 65536, VirtualPtr 65560]))"
    by (rule run_result [OF demo_run])
  have "virtual_null \<notin> set [VirtualPtr 65536, VirtualPtr 65560]"
    by (simp add: virtual_null_def)
  with alloc_seq_disjoint [OF demo_heap_inv t] demo_admissible show ?thesis
    unfolding demo_free_bytes by (metis empty_iff empty_set set_ConsD)
qed

text \<open>
  \<^verbatim>\<open>alloc_from_node\<close> checks the aligned start of a node, \<^verbatim>\<open>inner_alloc\<close> hands out the node's own
  address. Requests above word alignment therefore leave the contract.
\<close>

definition skewed_heap :: "usize \<Rightarrow> linked_list_allocator" where
  "skewed_heap sz = \<lparr>head_addr = 4096,
     nodes = [4096 \<mapsto> \<lparr>nxt = Some 65544, node_size = 0\<rparr>,
              65544 \<mapsto> \<lparr>nxt = None, node_size = sz\<rparr>]\<rparr>"

lemma power_of_two_16_val: "is_power_of_two 16"
  by (simp add: is_power_of_two_iff) (rule exI [of _ 4], simp)

lemma size_align_16: "size_align \<lparr>lsize = 16, lalign = 16\<rparr> = Inr \<lparr>lsize = 16, lalign = 16\<rparr>"
  using power_of_two_16_val
  by (simp add: size_align_def layout_align_to_def layout_from_size_align_def
      ALIGN_OF_MEM_NODE_def SIZE_OF_MEM_NODE_def pad_to_align_def max_def)

lemma skewed_align:
  "align_up 65544 16 = Inr 65552" "align_up 65560 8 = Inr 65560"
  using power_of_two_16_val power_of_two_8_val by (simp_all add: align_up_def)

text \<open>A request with alignment 16 is not aligned. On a well-formed heap whose only free region starts at
  65544 (8-aligned, not 16-aligned), a request for 16 bytes aligned to 16 gets the address
  65544; when that region is 24 bytes long, the same request panics instead, because
  the 8 bytes left over are taken for a new region.\<close>

theorem inner_alloc_overaligned:
  "lla_inv (skewed_heap 40) [(65544, 40)] \<and> lla_inv (skewed_heap 24) [(65544, 24)]
   \<and> map_option (map_sum id snd) (inner_alloc (skewed_heap 40) \<lparr>lsize = 16, lalign = 16\<rparr>)
       = Some (Inr (VirtualPtr 65544))
   \<and> \<not> 16 dvd unat (65544 :: u64)
   \<and> inner_alloc (skewed_heap 24) \<lparr>lsize = 16, lalign = 16\<rparr> = Some (Inl (Panic AssertFailed))"
proof (intro conjI)
  show "lla_inv (skewed_heap 40) [(65544, 40)]" "lla_inv (skewed_heap 24) [(65544, 24)]"
    by (simp_all add: lla_inv_def skewed_heap_def wf_regions_def region_ok_def off_head_def)
  show "map_option (map_sum id snd) (inner_alloc (skewed_heap 40) \<lparr>lsize = 16, lalign = 16\<rparr>)
       = Some (Inr (VirtualPtr 65544))"
    by (simp add: size_align_16 heap_eval skewed_heap_def skewed_align)
  show "\<not> 16 dvd unat (65544 :: u64)" by simp
  show "inner_alloc (skewed_heap 24) \<lparr>lsize = 16, lalign = 16\<rparr> = Some (Inl (Panic AssertFailed))"
    by (simp add: size_align_16 heap_eval skewed_heap_def skewed_align)
qed

end
