(* ===== verification/Pmm.thy ===== *)
theory Pmm
  imports Mem
begin

text \<open>
  The physical memory manager, \<^verbatim>\<open>src/mem/pmm.rs\<close>: a bitmap with one bit per page frame that
  lives in the memory it describes, a next-fit search over it, and the page counters. The
  manager and the memory it points into form one state, so writes through the bitmap pointer
  and the zeroing of allocated pages act on the same bytes. The boot loader's memory map
  and the offset of the higher-half map come from the limine crate and are arguments; so is its
  \<^verbatim>\<open>EntryType::USABLE\<close>.
\<close>

section \<open>State and bitmap\<close>

record physical_memory_manager =
  bitmap :: u64
  highest_page_idx :: usize
  last_used_page_idx :: usize
  usable_pages :: usize
  used_pages :: usize

record pmm_state = physical_memory_manager +
  ram :: memory

definition pmm_new :: "memory \<Rightarrow> pmm_state" where
  "pmm_new m = \<lparr>bitmap = 0, highest_page_idx = 0, last_used_page_idx = 0, usable_pages = 0,
     used_pages = 0, ram = m\<rparr>"

definition bitmap_test :: "pmm_state \<Rightarrow> usize \<Rightarrow> bool" where
  "bitmap_test s bt =
     (let byte_index = bt div 8; bit_index = bt mod 8
      in ram s (bitmap s + byte_index) AND push_bit (unat bit_index) 1 \<noteq> 0)"

definition bitmap_set :: "pmm_state \<Rightarrow> usize \<Rightarrow> pmm_state" where
  "bitmap_set s bt =
     (let byte_index = bt div 8; bit_index = bt mod 8; a = bitmap s + byte_index
      in s\<lparr>ram := (ram s)(a := ram s a OR push_bit (unat bit_index) 1)\<rparr>)"

definition bitmap_reset :: "pmm_state \<Rightarrow> usize \<Rightarrow> pmm_state" where
  "bitmap_reset s bt =
     (let byte_index = bt div 8; bit_index = bt mod 8; a = bitmap s + byte_index
      in s\<lparr>ram := (ram s)(a := ram s a AND NOT (push_bit (unat bit_index) 1))\<rparr>)"

section \<open>Initialisation\<close>

record 'ty memmap_entry =
  base :: u64
  len :: u64
  entry_type :: 'ty

definition scan_entry ::
    "'ty \<Rightarrow> 'ty memmap_entry \<Rightarrow> pmm_state \<times> usize \<Rightarrow> pmm_state \<times> usize" where
  "scan_entry USABLE entry = (\<lambda>(s, highest_addr).
     if entry_type entry = USABLE
     then (s\<lparr>usable_pages := usable_pages s + len entry div PAGE_SIZE\<rparr>,
           if highest_addr < base entry + len entry then base entry + len entry else highest_addr)
     else (s, highest_addr))"

definition bitmap_bytes :: "usize \<Rightarrow> usize" where
  "bitmap_bytes highest = (highest div 8 + PAGE_SIZE - 1) AND NOT (PAGE_SIZE - 1)"

text \<open>The bitmap takes the front of the first usable entry that is long enough.\<close>

fun place_bitmap ::
    "'ty \<Rightarrow> usize \<Rightarrow> usize \<Rightarrow> 'ty memmap_entry list \<Rightarrow> pmm_state
      \<Rightarrow> 'ty memmap_entry list \<times> pmm_state" where
  "place_bitmap USABLE hhdm bitmap_size [] s = ([], s)"
| "place_bitmap USABLE hhdm bitmap_size (entry # memmap) s =
     (if entry_type entry \<noteq> USABLE then
        (let (memmap', s') = place_bitmap USABLE hhdm bitmap_size memmap s in (entry # memmap', s'))
      else if len entry \<ge> bitmap_size then
        (let ptr = VirtualPtr (base entry + hhdm);
             s1 = s\<lparr>bitmap := virtual_addr ptr\<rparr>;
             s2 = s1\<lparr>ram := virtual_write_bytes 1 (ram s1) ptr 0xFF bitmap_size\<rparr>
         in (entry\<lparr>len := len entry - bitmap_size, base := base entry + bitmap_size\<rparr> # memmap, s2))
      else
        (let (memmap', s') = place_bitmap USABLE hhdm bitmap_size memmap s in (entry # memmap', s')))"

definition entry_pages :: "'ty memmap_entry \<Rightarrow> usize list" where
  "entry_pages entry =
     map (\<lambda>i. (base entry + of_nat i * PAGE_SIZE) div PAGE_SIZE) [0..<unat (len entry div PAGE_SIZE)]"

definition free_entry :: "'ty \<Rightarrow> 'ty memmap_entry \<Rightarrow> pmm_state \<Rightarrow> pmm_state" where
  "free_entry USABLE entry s =
     (if entry_type entry \<noteq> USABLE then s
      else fold (\<lambda>p s. bitmap_reset s p) (entry_pages entry) s)"

definition pmm_init ::
    "'ty \<Rightarrow> usize \<Rightarrow> 'ty memmap_entry list \<Rightarrow> pmm_state \<Rightarrow> 'ty memmap_entry list \<times> pmm_state" where
  "pmm_init USABLE hhdm memmap s =
     (let (s1, highest_addr) = fold (scan_entry USABLE) memmap (s, 0);
          s2 = s1\<lparr>highest_page_idx := highest_addr div PAGE_SIZE\<rparr>;
          bitmap_size = bitmap_bytes (highest_page_idx s2);
          (memmap', s3) = place_bitmap USABLE hhdm bitmap_size memmap s2
      in (memmap', fold (free_entry USABLE) memmap' s3))"

section \<open>Allocation and release of pages\<close>

definition set_pages :: "usize \<Rightarrow> usize \<Rightarrow> pmm_state \<Rightarrow> pmm_state" where
  "set_pages page fin s = fold (\<lambda>i s. bitmap_set s (of_nat i)) [unat page..<unat fin] s"

function (sequential) search_pages ::
    "pmm_state \<Rightarrow> usize \<Rightarrow> usize \<Rightarrow> usize \<Rightarrow> pmm_state \<times> physical_ptr" where
  "search_pages s p pages limit =
     (if last_used_page_idx s < limit then
        (let idx = last_used_page_idx s;
             s1 = s\<lparr>last_used_page_idx := idx + 1\<rparr>
         in if bitmap_test s1 idx then search_pages s1 0 pages limit
            else let p1 = p + 1 in
              if p1 = pages then
                (let page = last_used_page_idx s1 - pages
                 in (set_pages page (last_used_page_idx s1) s1, PhysicalPtr (page * PAGE_SIZE)))
              else search_pages s1 p1 pages limit)
      else (s, physical_null))"
  by pat_completeness auto
termination
proof (relation "measure (\<lambda>(s, p, pages, limit). unat limit - unat (last_used_page_idx s))")
  fix s :: pmm_state and limit :: usize
  assume *: "last_used_page_idx s < limit"
  then have "unat (last_used_page_idx s + 1) = Suc (unat (last_used_page_idx s))"
    by (rule unat_Suc_less)
  then have less: "unat limit - unat (last_used_page_idx s + 1) < unat limit - unat (last_used_page_idx s)"
    using * by (simp add: word_less_nat_alt)
  fix p pages idx s1 p1
  assume "idx = last_used_page_idx s" "s1 = s\<lparr>last_used_page_idx := idx + 1\<rparr>"
  with less show "((s1, 0, pages, limit), s, p, pages, limit)
      \<in> measure (\<lambda>(s, p, pages, limit). unat limit - unat (last_used_page_idx s))"
    and "((s1, p1, pages, limit), s, p, pages, limit)
      \<in> measure (\<lambda>(s, p, pages, limit). unat limit - unat (last_used_page_idx s))"
    by simp_all
qed simp

declare search_pages.simps [simp del]

definition pmm_inner_alloc :: "usize \<Rightarrow> usize \<Rightarrow> pmm_state \<Rightarrow> pmm_state \<times> physical_ptr" where
  "pmm_inner_alloc pages limit s = search_pages s 0 pages limit"

definition pmm_alloc_nozero :: "usize \<Rightarrow> pmm_state \<Rightarrow> pmm_state \<times> physical_ptr" where
  "pmm_alloc_nozero pages s =
     (let (s1, page_addr) = pmm_inner_alloc pages (highest_page_idx s) s in
      if physical_is_null page_addr then
        (let last = last_used_page_idx s1;
             (s2, page_addr) = pmm_inner_alloc pages last (s1\<lparr>last_used_page_idx := 0\<rparr>)
         in if physical_is_null page_addr then (s2, physical_null)
            else (s2\<lparr>used_pages := used_pages s2 + pages\<rparr>, page_addr))
      else (s1\<lparr>used_pages := used_pages s1 + pages\<rparr>, page_addr))"

definition pmm_alloc :: "usize \<Rightarrow> usize \<Rightarrow> pmm_state \<Rightarrow> pmm_state \<times> physical_ptr" where
  "pmm_alloc hhdm pages s =
     (let (s1, ret) = pmm_alloc_nozero pages s in
      if physical_is_null ret then (s1, ret)
      else (s1\<lparr>ram := virtual_write_bytes 1 (ram s1) (to_higher_half hhdm ret) 0 (pages * PAGE_SIZE)\<rparr>, ret))"

definition pmm_dealloc :: "physical_ptr \<Rightarrow> usize \<Rightarrow> pmm_state \<Rightarrow> pmm_state" where
  "pmm_dealloc ptr pages s =
     (let page = physical_addr ptr div PAGE_SIZE;
          s1 = fold (\<lambda>i s. bitmap_reset s (of_nat i)) [unat page..<unat (page + pages)] s
      in s1\<lparr>used_pages := used_pages s1 - pages\<rparr>)"

definition total_memory :: "pmm_state \<Rightarrow> usize" where
  "total_memory s = usable_pages s * 4096"

definition usable_memory :: "pmm_state \<Rightarrow> usize" where
  "usable_memory s = usable_pages s * 4096 - used_pages s * 4096"

definition used_memory :: "pmm_state \<Rightarrow> usize" where
  "used_memory s = used_pages s * 4096"

section \<open>The contract of a bitmap\<close>

locale bit_store =
  fixes test :: "'s \<Rightarrow> 'i \<Rightarrow> bool"
    and set_bit_at :: "'s \<Rightarrow> 'i \<Rightarrow> 's"
    and reset_bit_at :: "'s \<Rightarrow> 'i \<Rightarrow> 's"
  assumes test_set: "test (set_bit_at s i) j \<longleftrightarrow> i = j \<or> test s j"
    and test_reset: "test (reset_bit_at s i) j \<longleftrightarrow> i \<noteq> j \<and> test s j"
begin

lemma fold_set: "test (fold (\<lambda>i s. set_bit_at s (f i)) is s) j \<longleftrightarrow> j \<in> f ` set is \<or> test s j"
  by (induction "is" arbitrary: s) (auto simp: test_set)

lemma fold_reset: "test (fold (\<lambda>i s. reset_bit_at s (f i)) is s) j \<longleftrightarrow> j \<notin> f ` set is \<and> test s j"
  by (induction "is" arbitrary: s) (auto simp: test_reset)

lemma reset_undoes_set:
  assumes "\<forall>i \<in> set is. \<not> test s (f i)"
  shows "test (fold (\<lambda>i s. reset_bit_at s (f i)) is (fold (\<lambda>i s. set_bit_at s (f i)) is s)) j = test s j"
  using assms by (auto simp: fold_reset fold_set)

end

lemma u8_set_bit: "m < 8 \<Longrightarrow> bit (x OR 2 ^ n) m \<longleftrightarrow> n = m \<or> bit x m" for x :: u8
  by (auto simp: bit_or_iff bit_exp_iff)

lemma u8_reset_bit: "m < 8 \<Longrightarrow> bit (x AND NOT (2 ^ n)) m \<longleftrightarrow> n \<noteq> m \<and> bit x m" for x :: u8
  by (auto simp: bit_and_iff bit_not_iff bit_exp_iff)

lemma bitmap_test_bit:
  "bitmap_test s i = bit (ram s (bitmap s + i div 8)) (unat (i mod 8))"
  unfolding bitmap_test_def Let_def by (rule u8_test)

lemma same_bit: "i = j \<longleftrightarrow> i div 8 = j div 8 \<and> unat (i mod 8) = unat (j mod 8)" for i j :: usize
  by (metis word_unat_eq_iff div_mult_mod_eq)

lemma bit_index_less: "unat (i mod 8) < 8" for i :: usize
  by (simp add: unat_mod_distrib)

interpretation pmm_bits: bit_store bitmap_test bitmap_set bitmap_reset
proof
  fix s i j
  show "bitmap_test (bitmap_set s i) j \<longleftrightarrow> i = j \<or> bitmap_test s j"
    unfolding bitmap_test_bit bitmap_set_def Let_def same_bit [of i j]
    by (cases "i div 8 = j div 8") (simp_all only: pmm_state.simps physical_memory_manager.simps
        fun_upd_apply add_left_cancel push_bit_of_1 if_True if_False refl, auto simp: u8_set_bit [OF bit_index_less])
  show "bitmap_test (bitmap_reset s i) j \<longleftrightarrow> i \<noteq> j \<and> bitmap_test s j"
    unfolding bitmap_test_bit bitmap_reset_def Let_def same_bit [of i j]
    by (cases "i div 8 = j div 8") (simp_all only: pmm_state.simps physical_memory_manager.simps
        fun_upd_apply add_left_cancel push_bit_of_1 if_True if_False refl, auto simp: u8_reset_bit [OF bit_index_less])
qed

section \<open>The search for free pages\<close>

text \<open>The \<open>n\<close> pages from page \<open>q\<close> on are all free.\<close>

definition free_run :: "pmm_state \<Rightarrow> nat \<Rightarrow> nat \<Rightarrow> bool" where
  "free_run s q n = list_all (\<lambda>i. \<not> bitmap_test s (of_nat i)) [q..<q + n]"

lemma free_run_iff: "free_run s q n \<longleftrightarrow> (\<forall>i. q \<le> i \<and> i < q + n \<longrightarrow> \<not> bitmap_test s (of_nat i))"
  by (auto simp: free_run_def list_all_iff)

lemma bitmap_test_upd [simp]:
  "bitmap_test (s\<lparr>last_used_page_idx := x\<rparr>) i = bitmap_test s i"
  "bitmap_test (s\<lparr>used_pages := x\<rparr>) i = bitmap_test s i"
  "bitmap_test (s\<lparr>usable_pages := x\<rparr>) i = bitmap_test s i"
  "bitmap_test (s\<lparr>highest_page_idx := x\<rparr>) i = bitmap_test s i"
  by (simp_all add: bitmap_test_bit)

lemma free_run_upd [simp]:
  "free_run (s\<lparr>last_used_page_idx := x\<rparr>) q n = free_run s q n"
  by (simp add: free_run_def)

text \<open>
  The loop with \<open>p\<close> free pages seen just before the cursor: it either takes the first free run from
  there on that ends below the limit, or leaves the cursor at the limit because there is none.
\<close>

definition search_found :: "pmm_state \<Rightarrow> nat \<Rightarrow> usize \<Rightarrow> usize \<Rightarrow> pmm_state \<times> physical_ptr \<Rightarrow> bool" where
  "search_found s from pages limit r \<longleftrightarrow>
     (\<exists>page. from \<le> unat page \<and> unat page + unat pages \<le> unat limit \<and> free_run s (unat page) (unat pages)
        \<and> r = (set_pages page (page + pages) (s\<lparr>last_used_page_idx := page + pages\<rparr>),
               PhysicalPtr (page * PAGE_SIZE)))"

definition search_failed :: "pmm_state \<Rightarrow> nat \<Rightarrow> usize \<Rightarrow> usize \<Rightarrow> pmm_state \<times> physical_ptr \<Rightarrow> bool" where
  "search_failed s from pages limit r \<longleftrightarrow>
     (\<forall>q. from \<le> q \<and> q + unat pages \<le> unat limit \<longrightarrow> \<not> free_run s q (unat pages))
     \<and> r = (s\<lparr>last_used_page_idx := max (last_used_page_idx s) limit\<rparr>, physical_null)"

lemma search_found_earlier:
  assumes "search_found (s\<lparr>last_used_page_idx := x\<rparr>) m pages limit r" "n \<le> m"
  shows "search_found s n pages limit r"
proof -
  from assms(1) obtain page where "m \<le> unat page" "unat page + unat pages \<le> unat limit"
    "free_run s (unat page) (unat pages)"
    "r = (set_pages page (page + pages) (s\<lparr>last_used_page_idx := page + pages\<rparr>), PhysicalPtr (page * PAGE_SIZE))"
    by (auto simp: search_found_def)
  with assms(2) show ?thesis
    unfolding search_found_def by (intro exI [of _ page]) simp
qed

lemma search_pages_spec:
  assumes "unat p \<le> unat (last_used_page_idx s)" "p < pages"
    and "free_run s (unat (last_used_page_idx s) - unat p) (unat p)"
  shows "search_found s (unat (last_used_page_idx s) - unat p) pages limit (search_pages s p pages limit)
    \<or> search_failed s (unat (last_used_page_idx s) - unat p) pages limit (search_pages s p pages limit)"
  using assms
proof (induction s p pages limit rule: search_pages.induct)
  case (1 s p pages limit)
  let ?l = "last_used_page_idx s"
  let ?s1 = "s\<lparr>last_used_page_idx := ?l + 1\<rparr>"
  have pp: "unat p < unat pages"
    using 1(4) by (simp add: word_less_nat_alt)
  show ?case
  proof (cases "?l < limit")
    case False
    then have "search_pages s p pages limit = (s, physical_null)"
      by (subst search_pages.simps) simp
    moreover have "\<not> free_run s q (unat pages)"
      if "unat ?l - unat p \<le> q" "q + unat pages \<le> unat limit" for q
      using False that pp 1(3) by (simp add: word_less_nat_alt)
    moreover have "s = s\<lparr>last_used_page_idx := max ?l limit\<rparr>"
      using False by (simp add: max_def)
    ultimately show ?thesis
      unfolding search_failed_def by metis
  next
    case True
    have l1: "unat (?l + 1) = Suc (unat ?l)"
      by (rule unat_Suc_less [OF True])
    have lim: "unat ?l < unat limit" "?l + 1 \<le> limit"
      using True l1 by (simp_all add: word_less_nat_alt word_le_nat_alt)
    have mx: "max (?l + 1) limit = max ?l limit"
      using lim True by (simp only: max_absorb2 order_less_imp_le)
    show ?thesis
    proof (cases "bitmap_test s ?l")
      case t: True
      then have eq: "search_pages s p pages limit = search_pages ?s1 0 pages limit"
        using True by (subst search_pages.simps) (simp add: Let_def)
      have "search_found ?s1 (Suc (unat ?l)) pages limit (search_pages ?s1 0 pages limit)
        \<or> search_failed ?s1 (Suc (unat ?l)) pages limit (search_pages ?s1 0 pages limit)"
        using 1(1) [OF True refl refl] t l1 pp by (simp add: word_less_nat_alt free_run_def)
      then show ?thesis
      proof
        assume "search_found ?s1 (Suc (unat ?l)) pages limit (search_pages ?s1 0 pages limit)"
        then show ?thesis unfolding eq by (intro disjI1, elim search_found_earlier) simp
      next
        assume f: "search_failed ?s1 (Suc (unat ?l)) pages limit (search_pages ?s1 0 pages limit)"
        have "\<not> free_run s q (unat pages)"
          if q: "unat ?l - unat p \<le> q" "q + unat pages \<le> unat limit" for q
        proof (cases "Suc (unat ?l) \<le> q")
          case True
          with f q show ?thesis by (simp add: search_failed_def)
        next
          case False
          with q pp 1(3) have "q \<le> unat ?l \<and> unat ?l < q + unat pages" by linarith
          with t show ?thesis by (auto simp: free_run_iff intro!: exI [of _ "unat ?l"])
        qed
        with f mx show ?thesis unfolding eq search_failed_def by simp
      qed
    next
      case f: False
      have run: "free_run s (unat ?l - unat p) (Suc (unat p))"
        using 1(3,5) f by (auto simp: free_run_iff less_Suc_eq)
      have p1: "unat (p + 1) = Suc (unat p)"
        by (rule unat_Suc_less [OF 1(4)])
      show ?thesis
      proof (cases "p + 1 = pages")
        case True
        have pg: "unat (?l + 1 - pages) = unat ?l - unat p"
          using True 1(3) l1 p1 by (simp add: unat_sub word_le_nat_alt)
        have "search_pages s p pages limit = (set_pages (?l + 1 - pages) (?l + 1) ?s1,
            PhysicalPtr ((?l + 1 - pages) * PAGE_SIZE))"
          using \<open>?l < limit\<close> f True by (subst search_pages.simps) (simp add: Let_def)
        then show ?thesis
          using pg run True p1 lim 1(3)
          unfolding search_found_def by (intro disjI1 exI [of _ "?l + 1 - pages"]) auto
      next
        case False
        then have eq: "search_pages s p pages limit = search_pages ?s1 (p + 1) pages limit"
          using \<open>?l < limit\<close> f by (subst search_pages.simps) (simp add: Let_def)
        have less: "p + 1 < pages"
          using False pp p1 by (metis Suc_lessI word_less_nat_alt word_unat_eq_iff)
        have diff: "Suc (unat ?l) - Suc (unat p) = unat ?l - unat p" by simp
        have "search_found ?s1 (unat ?l - unat p) pages limit (search_pages ?s1 (p + 1) pages limit)
          \<or> search_failed ?s1 (unat ?l - unat p) pages limit (search_pages ?s1 (p + 1) pages limit)"
          using 1(2) [OF True refl refl _ refl False] f l1 p1 less run 1(3)
          by simp
        then show ?thesis
        proof
          assume "search_failed ?s1 (unat ?l - unat p) pages limit (search_pages ?s1 (p + 1) pages limit)"
          with mx show ?thesis unfolding eq by (simp add: search_failed_def)
        qed (simp add: eq search_found_earlier)
      qed
    qed
  qed
qed

section \<open>Allocation on the bitmap\<close>

lemma of_nat_range: "j \<in> of_nat ` {unat a..<unat b} \<longleftrightarrow> a \<le> j \<and> j < b" for a b j :: usize
proof
  assume "j \<in> of_nat ` {unat a..<unat b}"
  then obtain n where n: "j = of_nat n" "unat a \<le> n" "n < unat b" by auto
  moreover have "n < 2 ^ 64"
    using n(3) unsigned_less [of b, where 'a = nat] by simp
  ultimately show "a \<le> j \<and> j < b"
    by (simp add: word_le_nat_alt word_less_nat_alt unat_of_nat)
next
  assume "a \<le> j \<and> j < b"
  then show "j \<in> of_nat ` {unat a..<unat b}"
    by (intro image_eqI [of _ _ "unat j"]) (simp_all add: word_le_nat_alt word_less_nat_alt)
qed

lemma set_pages_test: "bitmap_test (set_pages a b s) j \<longleftrightarrow> (a \<le> j \<and> j < b) \<or> bitmap_test s j"
  unfolding set_pages_def pmm_bits.fold_set using of_nat_range [of j a b] by simp

lemma fold_bitmap_fields:
  "bitmap (fold (\<lambda>i s. bitmap_set s (f i)) is s) = bitmap s"
  "highest_page_idx (fold (\<lambda>i s. bitmap_set s (f i)) is s) = highest_page_idx s"
  "last_used_page_idx (fold (\<lambda>i s. bitmap_set s (f i)) is s) = last_used_page_idx s"
  "used_pages (fold (\<lambda>i s. bitmap_set s (f i)) is s) = used_pages s"
  "usable_pages (fold (\<lambda>i s. bitmap_set s (f i)) is s) = usable_pages s"
  "bitmap (fold (\<lambda>i s. bitmap_reset s (f i)) is s) = bitmap s"
  "highest_page_idx (fold (\<lambda>i s. bitmap_reset s (f i)) is s) = highest_page_idx s"
  "last_used_page_idx (fold (\<lambda>i s. bitmap_reset s (f i)) is s) = last_used_page_idx s"
  "used_pages (fold (\<lambda>i s. bitmap_reset s (f i)) is s) = used_pages s"
  "usable_pages (fold (\<lambda>i s. bitmap_reset s (f i)) is s) = usable_pages s"
  by (induction "is" arbitrary: s) (simp_all add: bitmap_set_def bitmap_reset_def Let_def)

lemma set_pages_fields [simp]:
  "bitmap (set_pages a b s) = bitmap s" "highest_page_idx (set_pages a b s) = highest_page_idx s"
  "last_used_page_idx (set_pages a b s) = last_used_page_idx s"
  "used_pages (set_pages a b s) = used_pages s" "usable_pages (set_pages a b s) = usable_pages s"
  by (simp_all add: set_pages_def fold_bitmap_fields)

lemma page_addr_val:
  assumes "unat page < 2 ^ 52"
  shows "unat (page * PAGE_SIZE) = unat page * 4096"
  using assms by (simp add: PAGE_SIZE_def unat_word_ariths)

lemma search_found_not_null:
  assumes "search_found s n pages limit (s', p)" "bitmap_test s 0" "pages \<noteq> 0" "unat limit < 2 ^ 52"
  shows "\<not> physical_is_null p"
proof -
  from assms(1) obtain page where page: "unat page + unat pages \<le> unat limit"
    "free_run s (unat page) (unat pages)" "p = PhysicalPtr (page * PAGE_SIZE)"
    by (auto simp: search_found_def)
  have "0 < unat pages"
    using assms(3) by (simp add: unat_gt_0)
  with page(2) have "\<not> bitmap_test s page"
    by (auto simp: free_run_iff dest: spec [of _ "unat page"])
  with assms(2) have "0 < unat page"
    by (cases "page = 0") (auto simp: unat_gt_0)
  moreover have "unat (page * PAGE_SIZE) = unat page * 4096"
    using page(1) assms(4) by (intro page_addr_val) simp
  ultimately show ?thesis
    using page(3) by auto
qed

lemma alloc_nozero_cases:
  assumes "pages \<noteq> 0" "last_used_page_idx s \<le> highest_page_idx s"
    "unat (highest_page_idx s) < 2 ^ 52" "bitmap_test s 0"
  shows "(\<exists>page. unat page + unat pages \<le> unat (highest_page_idx s) \<and> page \<noteq> 0
        \<and> free_run s (unat page) (unat pages)
        \<and> pmm_alloc_nozero pages s =
            ((set_pages page (page + pages) (s\<lparr>last_used_page_idx := page + pages\<rparr>))
                \<lparr>used_pages := used_pages s + pages\<rparr>, PhysicalPtr (page * PAGE_SIZE)))
     \<or> (\<forall>q. q + unat pages \<le> unat (highest_page_idx s) \<longrightarrow> \<not> free_run s q (unat pages))
        \<and> pmm_alloc_nozero pages s = (s\<lparr>last_used_page_idx := highest_page_idx s\<rparr>, physical_null)"
    (is "?found \<or> ?none")
proof -
  let ?h = "highest_page_idx s"
  have found: "?found" if f: "search_found s n pages ?h (s', p)"
    and r: "pmm_alloc_nozero pages s = (s'\<lparr>used_pages := used_pages s' + pages\<rparr>, p)" for n s' p
  proof -
    from f obtain page where page: "unat page + unat pages \<le> unat ?h" "free_run s (unat page) (unat pages)"
      "s' = set_pages page (page + pages) (s\<lparr>last_used_page_idx := page + pages\<rparr>)"
      "p = PhysicalPtr (page * PAGE_SIZE)"
      by (auto simp: search_found_def)
    have "page \<noteq> 0"
      using search_found_not_null [OF f assms(4,1,3)] page(4) by auto
    with page r show ?found by (intro exI [of _ page]) simp
  qed
  obtain s1 p1 where s1: "search_pages s 0 pages ?h = (s1, p1)" by fastforce
  have pg: "0 < pages" using assms(1) by (simp add: word_neq_0_conv)
  have "search_found s (unat (last_used_page_idx s)) pages ?h (s1, p1)
    \<or> search_failed s (unat (last_used_page_idx s)) pages ?h (s1, p1)"
    using search_pages_spec [of 0 s pages ?h] s1 pg by (simp add: free_run_def)
  then show ?thesis
  proof
    assume f: "search_found s (unat (last_used_page_idx s)) pages ?h (s1, p1)"
    then have "pmm_alloc_nozero pages s = (s1\<lparr>used_pages := used_pages s1 + pages\<rparr>, p1)"
      using search_found_not_null [OF f assms(4,1,3)] s1
      by (simp add: pmm_alloc_nozero_def pmm_inner_alloc_def)
    with found [OF f] show ?thesis by blast
  next
    assume "search_failed s (unat (last_used_page_idx s)) pages ?h (s1, p1)"
    then have f: "s1 = s\<lparr>last_used_page_idx := ?h\<rparr>" "p1 = physical_null"
      using assms(2) by (simp_all add: search_failed_def max_absorb2)
    let ?s0 = "s\<lparr>last_used_page_idx := 0\<rparr>"
    obtain s2 p2 where s2: "search_pages ?s0 0 pages ?h = (s2, p2)" by fastforce
    have "search_found ?s0 0 pages ?h (s2, p2) \<or> search_failed ?s0 0 pages ?h (s2, p2)"
      using search_pages_spec [of 0 ?s0 pages ?h] s2 pg by (simp add: free_run_def)
    then show ?thesis
    proof
      assume "search_found ?s0 0 pages ?h (s2, p2)"
      then have g: "search_found s 0 pages ?h (s2, p2)"
        by (rule search_found_earlier) simp
      have "pmm_alloc_nozero pages s = (s2\<lparr>used_pages := used_pages s2 + pages\<rparr>, p2)"
        using search_found_not_null [OF g assms(4,1,3)] s1 s2 f
        by (simp add: pmm_alloc_nozero_def pmm_inner_alloc_def Let_def physical_null_def)
      with found [OF g] show ?thesis by blast
    next
      assume g: "search_failed ?s0 0 pages ?h (s2, p2)"
      then have s2': "s2 = s\<lparr>last_used_page_idx := ?h\<rparr>" "p2 = physical_null"
        by (simp_all add: search_failed_def max_def)
      with s1 s2 f have "pmm_alloc_nozero pages s = (s\<lparr>last_used_page_idx := ?h\<rparr>, physical_null)"
        by (simp add: pmm_alloc_nozero_def pmm_inner_alloc_def Let_def physical_null_def)
      with g show ?thesis by (simp add: search_failed_def)
    qed
  qed
qed

section \<open>The invariant of the manager\<close>

text \<open>
  Page 0 is never free, the cursor stays inside the bitmap, page addresses do not
  wrap, and the bytes of a free page, seen through the higher-half map, are no bytes of the bitmap.
\<close>

definition pmm_inv :: "usize \<Rightarrow> pmm_state \<Rightarrow> bool" where
  "pmm_inv hhdm s \<longleftrightarrow> last_used_page_idx s \<le> highest_page_idx s
     \<and> 0 < highest_page_idx s \<and> unat (highest_page_idx s) < 2 ^ 52 \<and> bitmap_test s 0
     \<and> (\<forall>i j k. i < highest_page_idx s \<and> \<not> bitmap_test s i \<and> j < highest_page_idx s \<and> k < 4096
          \<longrightarrow> bitmap s + j div 8 \<noteq> hhdm + i * PAGE_SIZE + of_nat k)"

lemma pmm_inv_fewer_free:
  assumes "pmm_inv hhdm s" "bitmap s' = bitmap s" "highest_page_idx s' = highest_page_idx s"
    "last_used_page_idx s' \<le> highest_page_idx s"
    "\<And>j. j < highest_page_idx s \<Longrightarrow> bitmap_test s j \<Longrightarrow> bitmap_test s' j"
  shows "pmm_inv hhdm s'"
proof -
  have "bitmap_test s' 0"
    using assms by (simp add: pmm_inv_def)
  with assms show ?thesis unfolding pmm_inv_def by metis
qed

lemma zeroing_misses_bitmap:
  assumes inv: "pmm_inv hhdm s" and run: "free_run s (unat page) (unat pages)"
    and bound: "unat page + unat pages \<le> unat (highest_page_idx s)" and j: "j < highest_page_idx s"
    and n: "n < unat pages * 4096"
  shows "bitmap s + j div 8 \<noteq> hhdm + page * PAGE_SIZE + of_nat n"
proof -
  define i where "i = page + of_nat (n div 4096)"
  have h: "unat (highest_page_idx s) < 2 ^ 52"
    using inv by (simp add: pmm_inv_def)
  have d: "n div 4096 < unat pages"
    using n by (simp add: less_mult_imp_div_less)
  then have u: "unat i = unat page + n div 4096"
    unfolding i_def using bound h
    by (subst unat_add_no_wrap) (simp_all add: unat_of_nat)
  then have "i < highest_page_idx s"
    using d bound by (simp add: word_less_nat_alt)
  moreover have "\<not> bitmap_test s i"
    using run [unfolded free_run_iff, rule_format, of "unat i"] d u by (simp add: i_def)
  moreover have "hhdm + page * PAGE_SIZE + of_nat n = hhdm + i * PAGE_SIZE + of_nat (n mod 4096)"
  proof -
    have "(of_nat n :: u64) = of_nat (n div 4096 * 4096 + n mod 4096)" by simp
    also have "\<dots> = of_nat (n div 4096) * 4096 + of_nat (n mod 4096)"
      by (simp only: of_nat_add of_nat_mult of_nat_numeral)
    finally show ?thesis
      by (simp add: i_def PAGE_SIZE_def distrib_right)
  qed
  ultimately show ?thesis
    using inv j unfolding pmm_inv_def by (metis mod_less_divisor zero_less_numeral)
qed

lemma ram_upd_test:
  assumes "m (bitmap s + j div 8) = ram s (bitmap s + j div 8)"
  shows "bitmap_test (s\<lparr>ram := m\<rparr>) j = bitmap_test s j"
  using assms by (simp add: bitmap_test_bit)

lemma alloc_zeroed:
  assumes inv: "pmm_inv hhdm s" and run: "free_run s (unat page) (unat pages)"
    and bound: "unat page + unat pages \<le> unat (highest_page_idx s)"
    and s1: "bitmap s1 = bitmap s" and s': "s' = s1\<lparr>ram := virtual_write_bytes 1 (ram s1)
      (to_higher_half hhdm (PhysicalPtr (page * PAGE_SIZE))) 0 (pages * PAGE_SIZE)\<rparr>"
  shows "mem_read (ram s') (hhdm + page * PAGE_SIZE) (unat pages * 4096) = replicate (unat pages * 4096) 0"
    and "j < highest_page_idx s \<Longrightarrow> bitmap_test s' j = bitmap_test s1 j"
proof -
  have h: "unat (highest_page_idx s) < 2 ^ 52"
    using inv by (simp add: pmm_inv_def)
  then have len: "unat (pages * PAGE_SIZE) = unat pages * 4096"
    using bound by (intro page_addr_val) simp
  have ram: "ram s' = mem_write (ram s1) (hhdm + page * PAGE_SIZE) (replicate (unat pages * 4096) 0)"
    by (simp add: s' virtual_write_bytes_def len to_higher_half_def add.commute)
  show "mem_read (ram s') (hhdm + page * PAGE_SIZE) (unat pages * 4096) = replicate (unat pages * 4096) 0"
    using mem_read_write [of "replicate (unat pages * 4096) 0"] h bound unfolding ram by simp
  assume j: "j < highest_page_idx s"
  have "ram s' (bitmap s1 + j div 8) = ram s1 (bitmap s1 + j div 8)"
    unfolding ram using zeroing_misses_bitmap [OF inv run bound j] s1
    by (intro mem_write_outside) simp
  then show "bitmap_test s' j = bitmap_test s1 j"
    unfolding s' by (intro ram_upd_test) simp
qed

lemma pmm_alloc_cases:
  assumes inv: "pmm_inv hhdm s" and pages: "pages \<noteq> 0"
  shows "if \<exists>q. q + unat pages \<le> unat (highest_page_idx s) \<and> free_run s q (unat pages)
    then \<exists>page s'. pmm_alloc hhdm pages s = (s', PhysicalPtr (page * PAGE_SIZE)) \<and> page * PAGE_SIZE \<noteq> 0
      \<and> unat page + unat pages \<le> unat (highest_page_idx s) \<and> free_run s (unat page) (unat pages)
      \<and> (\<forall>j. j < highest_page_idx s \<longrightarrow>
            bitmap_test s' j = (page \<le> j \<and> j < page + pages \<or> bitmap_test s j))
      \<and> mem_read (ram s') (hhdm + page * PAGE_SIZE) (unat pages * 4096) = replicate (unat pages * 4096) 0
      \<and> used_pages s' = used_pages s + pages \<and> bitmap s' = bitmap s
      \<and> highest_page_idx s' = highest_page_idx s \<and> pmm_inv hhdm s'
    else \<exists>s'. pmm_alloc hhdm pages s = (s', physical_null) \<and> (\<forall>j. bitmap_test s' j = bitmap_test s j)
      \<and> used_pages s' = used_pages s \<and> pmm_inv hhdm s'"
proof -
  let ?h = "highest_page_idx s"
  have pre: "last_used_page_idx s \<le> ?h" "unat ?h < 2 ^ 52" "bitmap_test s 0"
    using inv by (auto simp: pmm_inv_def)
  from alloc_nozero_cases [OF pages pre] show ?thesis
  proof
    assume "\<exists>page. unat page + unat pages \<le> unat ?h \<and> page \<noteq> 0 \<and> free_run s (unat page) (unat pages)
        \<and> pmm_alloc_nozero pages s =
            ((set_pages page (page + pages) (s\<lparr>last_used_page_idx := page + pages\<rparr>))
                \<lparr>used_pages := used_pages s + pages\<rparr>, PhysicalPtr (page * PAGE_SIZE))"
    then obtain page where page: "unat page + unat pages \<le> unat ?h" "page \<noteq> 0" "free_run s (unat page) (unat pages)"
      and r: "pmm_alloc_nozero pages s =
            ((set_pages page (page + pages) (s\<lparr>last_used_page_idx := page + pages\<rparr>))
                \<lparr>used_pages := used_pages s + pages\<rparr>, PhysicalPtr (page * PAGE_SIZE))" by blast
    define s1 where "s1 = (set_pages page (page + pages) (s\<lparr>last_used_page_idx := page + pages\<rparr>))
                \<lparr>used_pages := used_pages s + pages\<rparr>"
    define s' where "s' = s1\<lparr>ram := virtual_write_bytes 1 (ram s1)
      (to_higher_half hhdm (PhysicalPtr (page * PAGE_SIZE))) 0 (pages * PAGE_SIZE)\<rparr>"
    have s1: "bitmap s1 = bitmap s" "highest_page_idx s1 = ?h" "last_used_page_idx s1 = page + pages"
      "used_pages s1 = used_pages s + pages" by (simp_all add: s1_def)
    note z = alloc_zeroed [OF inv page(3,1) s1(1) s'_def]
    have t: "bitmap_test s' j = (page \<le> j \<and> j < page + pages \<or> bitmap_test s j)" if "j < ?h" for j
      using z(2) [OF that] by (simp add: s1_def set_pages_test)
    have nz: "page * PAGE_SIZE \<noteq> 0"
      using page_addr_val [of page] page(1,2) pre(2)
      by (auto simp: unat_eq_zero)
    have "unat (page + pages) = unat page + unat pages"
      using page(1) pre(2) by (intro unat_add_no_wrap) simp
    then have "last_used_page_idx s' \<le> ?h"
      using page(1) by (simp add: s'_def s1 word_le_nat_alt)
    then have "pmm_inv hhdm s'"
      using t by (intro pmm_inv_fewer_free [OF inv]) (auto simp: s'_def s1)
    moreover have "pmm_alloc hhdm pages s = (s', PhysicalPtr (page * PAGE_SIZE))"
      using nz by (simp add: pmm_alloc_def r s'_def s1_def)
    moreover have "used_pages s' = used_pages s + pages" "bitmap s' = bitmap s" "highest_page_idx s' = ?h"
      by (simp_all add: s'_def s1)
    moreover have c: "\<exists>q. q + unat pages \<le> unat ?h \<and> free_run s q (unat pages)"
      using page by blast
    ultimately show ?thesis
      unfolding if_P [OF c] using page t z(1) nz by blast
  next
    assume none: "(\<forall>q. q + unat pages \<le> unat ?h \<longrightarrow> \<not> free_run s q (unat pages))
        \<and> pmm_alloc_nozero pages s = (s\<lparr>last_used_page_idx := ?h\<rparr>, physical_null)"
    then have c: "\<not> (\<exists>q. q + unat pages \<le> unat ?h \<and> free_run s q (unat pages))" by blast
    have "pmm_inv hhdm (s\<lparr>last_used_page_idx := ?h\<rparr>)"
      by (intro pmm_inv_fewer_free [OF inv]) simp_all
    then show ?thesis
      unfolding if_not_P [OF c] using none by (simp add: pmm_alloc_def physical_null_def)
  qed
qed

lemma set_pages_ram:
  assumes "\<And>j. a \<le> j \<Longrightarrow> j < b \<Longrightarrow> x \<noteq> bitmap s + j div 8"
  shows "ram (set_pages a b s) x = ram s x"
proof -
  have "ram (fold (\<lambda>i s. bitmap_set s (of_nat i)) is s) x = ram s x"
    if "\<And>i. i \<in> set is \<Longrightarrow> x \<noteq> bitmap s + of_nat i div 8" for "is" :: "nat list" and s
    using that
  proof (induction "is" arbitrary: s)
    case (Cons i "is")
    have b: "bitmap (bitmap_set s (of_nat i)) = bitmap s"
      by (simp add: bitmap_set_def Let_def)
    have "ram (fold (\<lambda>i s. bitmap_set s (of_nat i)) is (bitmap_set s (of_nat i))) x
      = ram (bitmap_set s (of_nat i)) x"
      using Cons.prems by (intro Cons.IH) (simp add: b)
    also have "\<dots> = ram s x"
      using Cons.prems [of i] by (simp add: bitmap_set_def Let_def)
    finally show ?case by simp
  qed simp
  moreover have "x \<noteq> bitmap s + of_nat i div 8" if "i \<in> set [unat a..<unat b]" for i
    using that assms of_nat_range [of "of_nat i" a b] by auto
  ultimately show ?thesis unfolding set_pages_def by blast
qed

text \<open>An allocation changes bytes of the bitmap and of the pages it returns, and no others.\<close>

lemma pmm_alloc_frame:
  assumes inv: "pmm_inv hhdm s" and pages: "pages \<noteq> 0" and r: "pmm_alloc hhdm pages s = (s', PhysicalPtr p)"
    and x: "\<And>j. j < highest_page_idx s \<Longrightarrow> x \<noteq> bitmap s + j div 8"
      "\<And>k. k < unat pages * 4096 \<Longrightarrow> x \<noteq> hhdm + p + of_nat k"
  shows "ram s' x = ram s x"
proof -
  let ?h = "highest_page_idx s"
  have pre: "last_used_page_idx s \<le> ?h" "unat ?h < 2 ^ 52" "bitmap_test s 0"
    using inv by (auto simp: pmm_inv_def)
  from alloc_nozero_cases [OF pages pre] show ?thesis
  proof
    assume "\<exists>page. unat page + unat pages \<le> unat ?h \<and> page \<noteq> 0 \<and> free_run s (unat page) (unat pages)
        \<and> pmm_alloc_nozero pages s =
            ((set_pages page (page + pages) (s\<lparr>last_used_page_idx := page + pages\<rparr>))
                \<lparr>used_pages := used_pages s + pages\<rparr>, PhysicalPtr (page * PAGE_SIZE))"
    then obtain page where page: "unat page + unat pages \<le> unat ?h" "page \<noteq> 0"
      and n: "pmm_alloc_nozero pages s =
            ((set_pages page (page + pages) (s\<lparr>last_used_page_idx := page + pages\<rparr>))
                \<lparr>used_pages := used_pages s + pages\<rparr>, PhysicalPtr (page * PAGE_SIZE))" by blast
    have "page * PAGE_SIZE \<noteq> 0"
      using page_addr_val [of page] page pre(2) by (auto simp: unat_eq_zero)
    with r n have p: "p = page * PAGE_SIZE" and s': "ram s' = mem_write
        (ram (set_pages page (page + pages) (s\<lparr>last_used_page_idx := page + pages\<rparr>))) (hhdm + p)
        (replicate (unat (pages * PAGE_SIZE)) 0)"
      by (auto simp: pmm_alloc_def virtual_write_bytes_def to_higher_half_def add.commute)
    have u: "unat (pages * PAGE_SIZE) = unat pages * 4096" "unat (page + pages) = unat page + unat pages"
      using page(1) pre(2) by (auto intro!: page_addr_val unat_add_no_wrap)
    have "ram s' x = ram (set_pages page (page + pages) (s\<lparr>last_used_page_idx := page + pages\<rparr>)) x"
      unfolding s' u using x(2) by (intro mem_write_outside) simp
    also have "\<dots> = ram s x"
      using x(1) page(1) u(2)
      by (subst set_pages_ram) (auto simp: word_less_nat_alt)
    finally show ?thesis .
  next
    assume "(\<forall>q. q + unat pages \<le> unat ?h \<longrightarrow> \<not> free_run s q (unat pages))
        \<and> pmm_alloc_nozero pages s = (s\<lparr>last_used_page_idx := ?h\<rparr>, physical_null)"
    with r show ?thesis by (auto simp: pmm_alloc_def physical_null_def)
  qed
qed

lemma page_addr_div:
  assumes "unat page < 2 ^ 52"
  shows "page * PAGE_SIZE div PAGE_SIZE = page"
proof -
  have "unat (page * PAGE_SIZE div PAGE_SIZE) = unat page"
    using page_addr_val [OF assms] by (simp add: unat_div_distrib PAGE_SIZE_def)
  then show ?thesis by (simp add: word_unat_eq_iff)
qed

lemma pmm_dealloc_test:
  assumes "unat page < 2 ^ 52"
  shows "bitmap_test (pmm_dealloc (PhysicalPtr (page * PAGE_SIZE)) pages s) j
      \<longleftrightarrow> \<not> (page \<le> j \<and> j < page + pages) \<and> bitmap_test s j"
  unfolding pmm_dealloc_def Let_def physical_addr.simps page_addr_div [OF assms]
    bitmap_test_upd pmm_bits.fold_reset
  using of_nat_range [of j page "page + pages"] by simp

lemma pmm_dealloc_fields [simp]:
  "bitmap (pmm_dealloc p pages s) = bitmap s"
  "highest_page_idx (pmm_dealloc p pages s) = highest_page_idx s"
  "last_used_page_idx (pmm_dealloc p pages s) = last_used_page_idx s"
  "used_pages (pmm_dealloc p pages s) = used_pages s - pages"
  by (simp_all add: pmm_dealloc_def Let_def fold_bitmap_fields)

section \<open>Properties of page allocation\<close>

text \<open>A manager of eight pages whose bitmap lies at \<open>2 ^ 32\<close>; page 0 is used.\<close>

definition demo_pmm :: pmm_state where
  "demo_pmm = \<lparr>bitmap = 2 ^ 32, highest_page_idx = 8, last_used_page_idx = 0, usable_pages = 7,
     used_pages = 0, ram = (\<lambda>_. 0)(2 ^ 32 := 1)\<rparr>"

lemma demo_pmm_inv: "pmm_inv 0 demo_pmm"
proof -
  have "(2 ^ 32 :: u64) + j div 8 \<noteq> i * 4096 + of_nat k" if "i < 8" "j < 8" "k < 4096" for i j :: usize and k
  proof -
    have i: "unat i < 8" "unat j < 8"
      using that by (simp_all add: word_less_nat_alt)
    then have "unat (i * 4096) = unat i * 4096"
      by (simp add: unat_word_ariths)
    moreover have "unat (of_nat k :: u64) = k"
      using that by (simp add: unat_of_nat)
    ultimately have "unat (i * 4096 + of_nat k) = unat i * 4096 + k"
      using i that by (subst unat_add_no_wrap) simp_all
    moreover have "(2 ^ 32 :: u64) + j div 8 = 4294967296"
      using i by (simp add: word_unat_eq_iff [of "j div 8" 0] unat_div_distrib)
    moreover have "unat (4294967296 :: u64) \<noteq> unat i * 4096 + k"
      using i that by simp
    ultimately show ?thesis by metis
  qed
  then show ?thesis
    by (simp add: pmm_inv_def demo_pmm_def bitmap_test_def PAGE_SIZE_def)
qed

lemma demo_pmm_run: "1 + unat (2 :: usize) \<le> unat (highest_page_idx demo_pmm)" "free_run demo_pmm 1 (unat (2 :: usize))"
  by (simp_all add: demo_pmm_def free_run_def bitmap_test_def upt_rec)

text \<open>C5: page allocation is correct and complete. Under the invariant, a request for at least one page
  succeeds exactly when some run of that many free pages lies below the highest page. Then the result is
  the address of such a run, its pages were free and are now marked used, no other page
  changes, the pages read as zero through the higher-half map, the counter of used pages
  grows by the request and the invariant holds again. Otherwise the result is null and no page changes.\<close>

theorem pmm_alloc_correct:
  assumes "pmm_inv hhdm s" and "pages \<noteq> 0"
  shows "if \<exists>q. q + unat pages \<le> unat (highest_page_idx s) \<and> free_run s q (unat pages)
    then \<exists>page s'. pmm_alloc hhdm pages s = (s', PhysicalPtr (page * PAGE_SIZE)) \<and> page * PAGE_SIZE \<noteq> 0
      \<and> unat page + unat pages \<le> unat (highest_page_idx s) \<and> free_run s (unat page) (unat pages)
      \<and> (\<forall>j. j < highest_page_idx s \<longrightarrow>
            bitmap_test s' j = (page \<le> j \<and> j < page + pages \<or> bitmap_test s j))
      \<and> mem_read (ram s') (hhdm + page * PAGE_SIZE) (unat pages * 4096) = replicate (unat pages * 4096) 0
      \<and> used_pages s' = used_pages s + pages \<and> bitmap s' = bitmap s
      \<and> highest_page_idx s' = highest_page_idx s \<and> pmm_inv hhdm s'
    else \<exists>s'. pmm_alloc hhdm pages s = (s', physical_null) \<and> (\<forall>j. bitmap_test s' j = bitmap_test s j)
      \<and> used_pages s' = used_pages s \<and> pmm_inv hhdm s'"
  by (rule pmm_alloc_cases [OF assms])

theorem pmm_alloc_correct_witness:
  "\<exists>page s'. pmm_alloc 0 2 demo_pmm = (s', PhysicalPtr (page * PAGE_SIZE)) \<and> page * PAGE_SIZE \<noteq> 0
     \<and> mem_read (ram s') (page * PAGE_SIZE) 8192 = replicate 8192 0
     \<and> used_pages s' = 2 \<and> pmm_inv 0 s'"
proof -
  have c: "\<exists>q. q + unat (2 :: usize) \<le> unat (highest_page_idx demo_pmm) \<and> free_run demo_pmm q (unat (2 :: usize))"
    using demo_pmm_run by blast
  have two: "(2 :: usize) \<noteq> 0" "unat (2 :: usize) * 4096 = 8192" "used_pages demo_pmm + 2 = 2"
    by (simp_all add: demo_pmm_def)
  from pmm_alloc_correct [OF demo_pmm_inv two(1)] show ?thesis
    unfolding if_P [OF c] two add_0 by blast
qed

text \<open>Releasing an allocation undoes it. After a successful allocation and the release of the same pages,
  every page below the highest one is as free as it was before, the counter of
  used pages is back, and the invariant holds.\<close>

theorem pmm_dealloc_alloc:
  assumes "pmm_inv hhdm s" and "pages \<noteq> 0" and "pmm_alloc hhdm pages s = (s1, p)" and "p \<noteq> physical_null"
  shows "(\<forall>j. j < highest_page_idx s \<longrightarrow> bitmap_test (pmm_dealloc p pages s1) j = bitmap_test s j)
    \<and> used_pages (pmm_dealloc p pages s1) = used_pages s
    \<and> pmm_inv hhdm (pmm_dealloc p pages s1)"
proof -
  let ?h = "highest_page_idx s"
  have c: "\<exists>q. q + unat pages \<le> unat ?h \<and> free_run s q (unat pages)"
    using pmm_alloc_cases [OF assms(1,2)] assms(3,4) by (auto split: if_splits)
  from pmm_alloc_cases [OF assms(1,2), unfolded if_P [OF c]] assms(3)
  obtain page where page: "p = PhysicalPtr (page * PAGE_SIZE)" "unat page + unat pages \<le> unat ?h"
      "free_run s (unat page) (unat pages)"
    and t: "\<And>j. j < ?h \<Longrightarrow> bitmap_test s1 j = (page \<le> j \<and> j < page + pages \<or> bitmap_test s j)"
    and s1: "used_pages s1 = used_pages s + pages" "bitmap s1 = bitmap s" "highest_page_idx s1 = ?h"
      "pmm_inv hhdm s1"
    by auto
  have h: "unat ?h < 2 ^ 52"
    using assms(1) by (simp add: pmm_inv_def)
  then have small: "unat page < 2 ^ 52" and fin: "unat (page + pages) = unat page + unat pages"
    using page(2) by (auto intro!: unat_add_no_wrap)
  have "\<not> bitmap_test s j" if "page \<le> j" "j < page + pages" for j
    using page(3) [unfolded free_run_iff, rule_format, of "unat j"] that fin
    by (simp add: word_le_nat_alt word_less_nat_alt)
  then have undo: "bitmap_test (pmm_dealloc p pages s1) j = bitmap_test s j" if "j < ?h" for j
    using t [OF that] unfolding page(1) pmm_dealloc_test [OF small] by blast
  have "pmm_inv hhdm (pmm_dealloc p pages s1)"
    using undo s1 by (intro pmm_inv_fewer_free [OF assms(1)]) (auto simp: pmm_inv_def)
  with undo s1 show ?thesis by simp
qed

theorem pmm_dealloc_alloc_witness:
  "\<exists>s1 p. pmm_alloc 0 2 demo_pmm = (s1, p) \<and> p \<noteq> physical_null
     \<and> bitmap_test (pmm_dealloc p 2 s1) 3 = bitmap_test demo_pmm 3
     \<and> used_pages (pmm_dealloc p 2 s1) = 0 \<and> pmm_inv 0 (pmm_dealloc p 2 s1)"
proof -
  have c: "\<exists>q. q + unat (2 :: usize) \<le> unat (highest_page_idx demo_pmm) \<and> free_run demo_pmm q (unat (2 :: usize))"
    using demo_pmm_run by blast
  have two: "(2 :: usize) \<noteq> 0" by simp
  obtain s1 page where r: "pmm_alloc 0 2 demo_pmm = (s1, PhysicalPtr (page * PAGE_SIZE))" "page * PAGE_SIZE \<noteq> 0"
    using pmm_alloc_cases [OF demo_pmm_inv two, unfolded if_P [OF c]] by blast
  then have n: "PhysicalPtr (page * PAGE_SIZE) \<noteq> physical_null"
    by (simp add: physical_null_def)
  have "3 < highest_page_idx demo_pmm" "used_pages demo_pmm = 0"
    by (simp_all add: demo_pmm_def)
  with pmm_dealloc_alloc [OF demo_pmm_inv two r(1) n] r n show ?thesis
    by (metis)
qed

section \<open>Initialisation establishes the invariant\<close>

definition entries_disjoint :: "'ty memmap_entry \<Rightarrow> 'ty memmap_entry \<Rightarrow> bool" where
  "entries_disjoint e f \<longleftrightarrow> unat (base e) + unat (len e) \<le> unat (base f)
     \<or> unat (base f) + unat (len f) \<le> unat (base e)"

text \<open>A usable entry as the boot loader documents it: page-aligned, above page 0, inside the address space.\<close>

definition entry_ok :: "'ty memmap_entry \<Rightarrow> bool" where
  "entry_ok e \<longleftrightarrow> 4096 dvd unat (base e) \<and> 4096 dvd unat (len e) \<and> 0 < unat (base e)
     \<and> unat (base e) + unat (len e) < 2 ^ 64"

definition wf_memmap :: "'ty \<Rightarrow> 'ty memmap_entry list \<Rightarrow> bool" where
  "wf_memmap U mm \<longleftrightarrow> list_all (\<lambda>e. entry_type e = U \<longrightarrow> entry_ok e) mm
     \<and> sorted_wrt (\<lambda>e f. entry_type e = U \<and> entry_type f = U \<longrightarrow> entries_disjoint e f) mm"

text \<open>Page \<open>i\<close> lies in the \<open>n\<close> bytes from address \<open>a\<close>; page \<open>i\<close> is a page of a usable entry of the map.\<close>

definition page_within :: "nat \<Rightarrow> nat \<Rightarrow> usize \<Rightarrow> bool" where
  "page_within a n i \<longleftrightarrow> a \<le> 4096 * unat i \<and> 4096 * unat i + 4096 \<le> a + n"

definition usable_page :: "'ty \<Rightarrow> 'ty memmap_entry list \<Rightarrow> usize \<Rightarrow> bool" where
  "usable_page U mm i \<longleftrightarrow> (\<exists>e \<in> set mm. entry_type e = U \<and> page_within (unat (base e)) (unat (len e)) i)"

text \<open>The pages the last loop of \<^verbatim>\<open>pmm_init\<close> marks as free.\<close>

definition free_pages_of :: "'ty \<Rightarrow> 'ty memmap_entry list \<Rightarrow> usize set" where
  "free_pages_of U mm = (\<Union>e \<in> {e \<in> set mm. entry_type e = U}. set (entry_pages e))"

lemma scan_fold:
  assumes "fold (scan_entry U) mm (s, h0) = (s', h)"
  shows "\<exists>n. s' = s\<lparr>usable_pages := n\<rparr>" and "h0 \<le> h"
    and "e \<in> set mm \<Longrightarrow> entry_type e = U \<Longrightarrow> base e + len e \<le> h"
proof -
  have "(\<exists>n. s' = s\<lparr>usable_pages := n\<rparr>) \<and> h0 \<le> h
      \<and> (\<forall>e \<in> set mm. entry_type e = U \<longrightarrow> base e + len e \<le> h)"
    using assms
  proof (induction mm arbitrary: s h0)
    case Nil
    then show ?case by (auto intro: exI [of _ "usable_pages s"])
  next
    case (Cons e mm)
    obtain s1 h1 where s1: "scan_entry U e (s, h0) = (s1, h1)" by fastforce
    with Cons have "(\<exists>n. s' = s1\<lparr>usable_pages := n\<rparr>) \<and> h1 \<le> h
      \<and> (\<forall>e \<in> set mm. entry_type e = U \<longrightarrow> base e + len e \<le> h)" by simp
    moreover have "(\<exists>n. s1 = s\<lparr>usable_pages := n\<rparr>) \<and> h0 \<le> h1 \<and> (entry_type e = U \<longrightarrow> base e + len e \<le> h1)"
      using s1 by (auto simp: scan_entry_def split: if_splits intro: exI [of _ "usable_pages s"])
    ultimately show ?case by fastforce
  qed
  then show "\<exists>n. s' = s\<lparr>usable_pages := n\<rparr>" "h0 \<le> h"
    "e \<in> set mm \<Longrightarrow> entry_type e = U \<Longrightarrow> base e + len e \<le> h" by auto
qed

lemma place_bitmap_spec:
  assumes "\<exists>e \<in> set mm. entry_type e = U \<and> n \<le> len e"
  obtains xs e ys where "mm = xs @ e # ys" and "entry_type e = U" and "n \<le> len e"
    and "place_bitmap U hhdm n mm s =
      (xs @ e\<lparr>len := len e - n, base := base e + n\<rparr> # ys,
       s\<lparr>bitmap := base e + hhdm, ram := mem_write (ram s) (base e + hhdm) (replicate (unat n) 0xFF)\<rparr>)"
  using assms
proof (induction mm arbitrary: thesis)
  case (Cons f mm)
  show ?case
  proof (cases "entry_type f = U \<and> n \<le> len f")
    case True
    then show ?thesis
      by (intro Cons.prems(1) [of "[]" f mm]) (simp_all add: Let_def virtual_write_bytes_def)
  next
    case False
    with Cons.prems(2) have "\<exists>e \<in> set mm. entry_type e = U \<and> n \<le> len e" by auto
    with Cons.IH obtain xs e ys where "mm = xs @ e # ys" "entry_type e = U" "n \<le> len e"
      "place_bitmap U hhdm n mm s = (xs @ e\<lparr>len := len e - n, base := base e + n\<rparr> # ys,
       s\<lparr>bitmap := base e + hhdm, ram := mem_write (ram s) (base e + hhdm) (replicate (unat n) 0xFF)\<rparr>)"
      by metis
    with False show ?thesis
      by (intro Cons.prems(1) [of "f # xs" e ys]) (auto simp: Let_def not_le)
  qed
qed simp

lemma free_fold:
  "bitmap_test (fold (free_entry U) mm s) j \<longleftrightarrow> j \<notin> free_pages_of U mm \<and> bitmap_test s j"
  "bitmap (fold (free_entry U) mm s) = bitmap s"
  "highest_page_idx (fold (free_entry U) mm s) = highest_page_idx s"
  "last_used_page_idx (fold (free_entry U) mm s) = last_used_page_idx s"
proof -
  have 1: "bitmap_test (free_entry U e s) j
      \<longleftrightarrow> \<not> (entry_type e = U \<and> j \<in> set (entry_pages e)) \<and> bitmap_test s j"
    "bitmap (free_entry U e s) = bitmap s" "highest_page_idx (free_entry U e s) = highest_page_idx s"
    "last_used_page_idx (free_entry U e s) = last_used_page_idx s" for e s
    using pmm_bits.fold_reset [of "\<lambda>x. x" "entry_pages e" s j] fold_bitmap_fields [of "\<lambda>x. x" "entry_pages e" s]
    by (auto simp: free_entry_def)
  show "bitmap_test (fold (free_entry U) mm s) j \<longleftrightarrow> j \<notin> free_pages_of U mm \<and> bitmap_test s j"
    by (induction mm arbitrary: s) (auto simp: 1 free_pages_of_def)
  show "bitmap (fold (free_entry U) mm s) = bitmap s"
    "highest_page_idx (fold (free_entry U) mm s) = highest_page_idx s"
    "last_used_page_idx (fold (free_entry U) mm s) = last_used_page_idx s"
    by (induction mm arbitrary: s) (simp_all add: 1)
qed

lemma entry_page_bytes:
  assumes "entry_ok e" "i \<in> set (entry_pages e)"
  shows "unat (i * PAGE_SIZE) = unat i * 4096" and "unat (base e) \<le> unat i * 4096"
    and "unat i * 4096 + 4096 \<le> unat (base e) + unat (len e)"
proof -
  from assms(2) obtain n where i: "i = (base e + of_nat n * PAGE_SIZE) div PAGE_SIZE"
    and n: "n < unat (len e) div 4096"
    by (auto simp: entry_pages_def PAGE_SIZE_def unat_div_distrib)
  from n have n4: "n * 4096 + 4096 \<le> unat (len e)"
    using assms(1) by (auto simp: entry_ok_def elim!: dvdE)
  have fit: "unat (base e) + unat (len e) < 2 ^ 64" "4096 dvd unat (base e)"
    using assms(1) by (simp_all add: entry_ok_def)
  have "unat (of_nat n * PAGE_SIZE) = n * 4096"
    using n4 fit by (simp add: PAGE_SIZE_def unat_word_ariths unat_of_nat)
  then have "unat (base e + of_nat n * PAGE_SIZE) = unat (base e) + n * 4096"
    using n4 fit by (subst unat_add_no_wrap) simp_all
  then have u: "unat i * 4096 = unat (base e) + n * 4096"
    using fit(2) by (auto simp: i unat_div_distrib PAGE_SIZE_def elim!: dvdE)
  then show "unat (i * PAGE_SIZE) = unat i * 4096"
    using n4 fit by (simp add: PAGE_SIZE_def unat_word_ariths)
  show "unat (base e) \<le> unat i * 4096" "unat i * 4096 + 4096 \<le> unat (base e) + unat (len e)"
    using u n4 by simp_all
qed

lemma entry_pages_iff:
  assumes "entry_ok e"
  shows "i \<in> set (entry_pages e) \<longleftrightarrow> page_within (unat (base e)) (unat (len e)) i"
proof
  assume "i \<in> set (entry_pages e)"
  then show "page_within (unat (base e)) (unat (len e)) i"
    using entry_page_bytes [OF assms, of i] by (simp add: page_within_def mult.commute)
next
  assume p: "page_within (unat (base e)) (unat (len e)) i"
  from assms obtain b l where e: "unat (base e) = 4096 * b" "unat (len e) = 4096 * l"
    "4096 * b + 4096 * l < 2 ^ 64" by (auto simp: entry_ok_def elim!: dvdE)
  with p have "b \<le> unat i" "unat i < b + l" by (auto simp: page_within_def)
  then obtain k where k: "unat i = b + k" "k < l" by (metis le_Suc_ex add_less_cancel_left)
  have "unat (of_nat k * PAGE_SIZE) = k * 4096"
    using k(2) e by (simp add: PAGE_SIZE_def unat_word_ariths unat_of_nat)
  then have "unat (base e + of_nat k * PAGE_SIZE) = 4096 * unat i"
    using k e by (subst unat_add_no_wrap) simp_all
  then have "i = (base e + of_nat k * PAGE_SIZE) div PAGE_SIZE"
    by (simp add: word_unat_eq_iff unat_div_distrib PAGE_SIZE_def)
  moreover have "k < unat (len e div PAGE_SIZE)"
    using k(2) e by (simp add: unat_div_distrib PAGE_SIZE_def)
  ultimately show "i \<in> set (entry_pages e)" unfolding entry_pages_def by auto
qed

lemma bitmap_bytes_nat:
  assumes "unat h < 2 ^ 52"
  shows "unat (bitmap_bytes h) = (unat h div 8 + 4095) div 4096 * 4096"
proof -
  have "PAGE_SIZE - 1 = mask 12"
    by (simp add: PAGE_SIZE_def mask_eq_exp_minus_1)
  then have "unat (bitmap_bytes h) = unat (h div 8 + PAGE_SIZE - 1) - unat (h div 8 + PAGE_SIZE - 1) mod 2 ^ 12"
    by (simp only: bitmap_bytes_def unat_and_not_mask)
  also have "unat (h div 8 + PAGE_SIZE - 1) = unat h div 8 + 4095"
  proof -
    have "h div 8 + PAGE_SIZE - 1 = h div 8 + (PAGE_SIZE - 1)" by (rule add_diff_eq [symmetric])
    also have "PAGE_SIZE - 1 = 4095" by (simp add: PAGE_SIZE_def)
    finally have "h div 8 + PAGE_SIZE - 1 = h div 8 + 4095" .
    moreover have "unat (h div 8 + 4095) = unat h div 8 + 4095"
      using assms by (subst unat_add_no_wrap) (simp_all add: unat_div_distrib)
    ultimately show ?thesis by (simp only:)
  qed
  finally show ?thesis by (simp add: minus_mod_eq_div_mult)
qed

lemma bitmap_bytes_aligned: "4096 dvd unat (bitmap_bytes h)"
proof -
  have "PAGE_SIZE - 1 = mask 12"
    by (simp add: PAGE_SIZE_def mask_eq_exp_minus_1)
  then have "unat (bitmap_bytes h) = unat (h div 8 + PAGE_SIZE - 1) - unat (h div 8 + PAGE_SIZE - 1) mod 2 ^ 12"
    by (simp only: bitmap_bytes_def unat_and_not_mask)
  then show ?thesis
    using minus_mod_eq_mult_div [of "unat (h div 8 + PAGE_SIZE - 1)" "2 ^ 12"] by simp
qed

lemma carved_entry:
  assumes "entry_ok e" "n \<le> len e" "4096 dvd unat n"
  defines "e' \<equiv> e\<lparr>len := len e - n, base := base e + n\<rparr>"
  shows "entry_ok e'" and "unat (base e') = unat (base e) + unat n"
    and "unat (base e') + unat (len e') = unat (base e) + unat (len e)"
proof -
  have b: "unat (base e + n) = unat (base e) + unat n"
    using assms by (intro unat_add_no_wrap) (simp add: entry_ok_def word_le_nat_alt)
  have l: "unat (len e - n) = unat (len e) - unat n"
    using assms(2) by (simp add: unat_sub)
  show "unat (base e') = unat (base e) + unat n"
    "unat (base e') + unat (len e') = unat (base e) + unat (len e)"
    using b l assms(2) by (simp_all add: e'_def word_le_nat_alt)
  show "entry_ok e'"
    using b l assms by (simp add: entry_ok_def word_le_nat_alt dvd_diff_nat)
qed

lemma place_bitmap_fields:
  assumes "place_bitmap U hhdm n mm s = (mm', s')"
  shows "highest_page_idx s' = highest_page_idx s" "last_used_page_idx s' = last_used_page_idx s"
proof -
  have "highest_page_idx s' = highest_page_idx s \<and> last_used_page_idx s' = last_used_page_idx s"
    using assms
  proof (induction mm arbitrary: mm')
    case (Cons e mm)
    then show ?case
      by (cases "place_bitmap U hhdm n mm s") (auto simp: Let_def split: if_splits)
  qed simp
  then show "highest_page_idx s' = highest_page_idx s" "last_used_page_idx s' = last_used_page_idx s"
    by simp_all
qed

lemma pmm_init_shape:
  assumes init: "pmm_init U hhdm mm s = (mm', s')"
    and room: "\<exists>e \<in> set mm. entry_type e = U \<and> bitmap_bytes (highest_page_idx s') \<le> len e"
  obtains xs e ys s3 where "mm = xs @ e # ys" and "entry_type e = U"
    and "bitmap_bytes (highest_page_idx s') \<le> len e"
    and "mm' = xs @ e\<lparr>len := len e - bitmap_bytes (highest_page_idx s'),
                      base := base e + bitmap_bytes (highest_page_idx s')\<rparr> # ys"
    and "s' = fold (free_entry U) mm' s3" and "bitmap s3 = base e + hhdm"
    and "ram s3 = mem_write (ram s) (base e + hhdm) (replicate (unat (bitmap_bytes (highest_page_idx s'))) 0xFF)"
    and "last_used_page_idx s3 = last_used_page_idx s"
    and "unat (highest_page_idx s') < 2 ^ 52"
proof -
  obtain s1 h where sc: "fold (scan_entry U) mm (s, 0) = (s1, h)" by fastforce
  define s2 where "s2 = s1\<lparr>highest_page_idx := h div PAGE_SIZE\<rparr>"
  obtain n where s1: "s1 = s\<lparr>usable_pages := n\<rparr>"
    using scan_fold(1) [OF sc] by blast
  obtain mm2 s3 where pl: "place_bitmap U hhdm (bitmap_bytes (h div PAGE_SIZE)) mm s2 = (mm2, s3)"
    by fastforce
  have s': "mm' = mm2" "s' = fold (free_entry U) mm2 s3"
    using init sc pl by (auto simp: pmm_init_def s2_def Let_def)
  have h: "highest_page_idx s' = h div PAGE_SIZE"
    using place_bitmap_fields(1) [OF pl] by (simp add: s' free_fold s2_def)
  obtain xs e ys where e: "mm = xs @ e # ys" "entry_type e = U" "bitmap_bytes (h div PAGE_SIZE) \<le> len e"
    "(mm2, s3) = (xs @ e\<lparr>len := len e - bitmap_bytes (h div PAGE_SIZE), base := base e + bitmap_bytes (h div PAGE_SIZE)\<rparr> # ys,
       s2\<lparr>bitmap := base e + hhdm, ram := mem_write (ram s2) (base e + hhdm) (replicate (unat (bitmap_bytes (h div PAGE_SIZE))) 0xFF)\<rparr>)"
    using place_bitmap_spec [OF room [unfolded h], of hhdm s2] pl by metis
  have "unat (h div PAGE_SIZE) < 2 ^ 52"
    using unsigned_less [of h, where 'a = nat] by (simp add: unat_div_distrib PAGE_SIZE_def)
  with e h s' s1 show ?thesis
    by (intro that [of xs e ys s3]) (simp_all add: s2_def)
qed

lemma filled_bitmap_test:
  fixes n :: usize
  assumes "ram s = mem_write m (bitmap s) (replicate (unat n) 0xFF)" "unat i < 8 * unat n"
  shows "bitmap_test s i"
proof -
  have d: "unat (i div 8) < unat n"
    using assms(2) by (simp add: unat_div_distrib)
  have "unat n \<le> 2 ^ 64"
    using unsigned_less [of n, where 'a = nat] by simp
  then have "ram s (bitmap s + i div 8) = 0xFF"
    using mem_write_inside [of "unat (i div 8)" "replicate (unat n) 0xFF" m "bitmap s"] d
    unfolding assms(1) by simp
  moreover have "bit (0xFF :: u8) k" if "k < 8" for k
  proof -
    have eq: "(0xFF :: u8) = mask 8" by (simp add: mask_eq_exp_minus_1)
    show ?thesis unfolding eq using that by (simp only: bit_mask_iff possible_bit_word) simp
  qed
  ultimately show ?thesis
    using bit_index_less [of i] by (simp add: bitmap_test_bit)
qed

lemma wf_memmap_split:
  assumes "wf_memmap U (xs @ e # ys)" "entry_type e = U" "f \<in> set xs \<union> set ys" "entry_type f = U"
  shows "entry_ok e" "entry_ok f" "entries_disjoint e f"
  using assms by (auto simp: wf_memmap_def sorted_wrt_append list_all_iff entries_disjoint_def)

text \<open>The pages left free after the bitmap was carved out of the entry \<open>e\<close>.\<close>

lemma carved_free_page:
  assumes wf: "wf_memmap U (xs @ e # ys)" and e: "entry_type e = U" "n \<le> len e" "4096 dvd unat n"
    and i: "i \<in> free_pages_of U (xs @ e\<lparr>len := len e - n, base := base e + n\<rparr> # ys)"
  shows "unat (i * PAGE_SIZE) = unat i * 4096" and "0 < unat i" and "unat i * 4096 + 4096 < 2 ^ 64"
    and "unat (base e) + unat n \<le> unat i * 4096 \<or> unat i * 4096 + 4096 \<le> unat (base e)"
proof -
  let ?e = "e\<lparr>len := len e - n, base := base e + n\<rparr>"
  have ok: "entry_ok e"
    using wf e by (auto simp: wf_memmap_def list_all_iff)
  note c = carved_entry [OF ok e(2,3)]
  from i obtain f where f: "f \<in> insert ?e (set xs \<union> set ys)" "entry_type f = U" "i \<in> set (entry_pages f)"
    by (auto simp: free_pages_of_def)
  have "entry_ok f \<and> (f = ?e \<or> entries_disjoint e f)"
    using f(1,2) c(1) wf_memmap_split [OF wf e(1)] by blast
  then have okf: "entry_ok f" and where_f: "f = ?e \<or> entries_disjoint e f" by auto
  note b = entry_page_bytes [OF okf f(3)]
  show "unat (i * PAGE_SIZE) = unat i * 4096" by (rule b(1))
  show "0 < unat i" "unat i * 4096 + 4096 < 2 ^ 64"
    using b okf by (auto simp: entry_ok_def)
  show "unat (base e) + unat n \<le> unat i * 4096 \<or> unat i * 4096 + 4096 \<le> unat (base e)"
    using where_f b c(2) e(2) by (auto simp: entries_disjoint_def word_le_nat_alt)
qed

lemma carved_pages_iff:
  assumes wf: "wf_memmap U (xs @ e # ys)" and e: "entry_type e = U" "n \<le> len e" "4096 dvd unat n"
  shows "i \<in> free_pages_of U (xs @ e\<lparr>len := len e - n, base := base e + n\<rparr> # ys)
    \<longleftrightarrow> usable_page U (xs @ e # ys) i \<and> \<not> page_within (unat (base e)) (unat n) i"
proof -
  let ?e = "e\<lparr>len := len e - n, base := base e + n\<rparr>"
  have ok: "entry_ok e"
    using wf e by (auto simp: wf_memmap_def list_all_iff)
  note c = carved_entry [OF ok e(2,3)]
  have n: "unat n \<le> unat (len e)" using e(2) by (simp add: word_le_nat_alt)
  have "4096 dvd unat (base e) + unat n" using ok e(3) by (simp add: entry_ok_def)
  then have "x + 4096 \<le> unat (base e) + unat n \<longleftrightarrow> x < unat (base e) + unat n" if "4096 dvd x" for x
    using that by (auto elim!: dvdE)
  from this [of "4096 * unat i"]
  have "i \<in> set (entry_pages ?e)
      \<longleftrightarrow> page_within (unat (base e)) (unat (len e)) i \<and> \<not> page_within (unat (base e)) (unat n) i"
    using entry_pages_iff [OF c(1), of i] c(2,3) n by (auto simp: page_within_def)
  moreover have "i \<in> set (entry_pages f)
      \<longleftrightarrow> page_within (unat (base f)) (unat (len f)) i \<and> \<not> page_within (unat (base e)) (unat n) i"
    if "f \<in> set xs \<union> set ys" "entry_type f = U" for f
    using wf_memmap_split [OF wf e(1) that] entry_pages_iff [of f i] n
    by (auto simp: entries_disjoint_def page_within_def)
  ultimately show ?thesis
    using e(1) unfolding free_pages_of_def usable_page_def by fastforce
qed

lemma pmm_init_highest:
  assumes "pmm_init U hhdm mm s = (mm', s')" "fold (scan_entry U) mm (s, 0) = (s1, h)"
  shows "highest_page_idx s' = h div PAGE_SIZE"
proof -
  obtain mm2 s3 where pl: "place_bitmap U hhdm (bitmap_bytes (h div PAGE_SIZE)) mm
      (s1\<lparr>highest_page_idx := h div PAGE_SIZE\<rparr>) = (mm2, s3)" by fastforce
  with assms have "s' = fold (free_entry U) mm2 s3"
    by (auto simp: pmm_init_def Let_def)
  with place_bitmap_fields(1) [OF pl] show ?thesis by (simp add: free_fold)
qed

lemma usable_page_below:
  assumes "wf_memmap U mm" "pmm_init U hhdm mm s = (mm', s')" "usable_page U mm i"
  shows "i < highest_page_idx s'"
proof -
  obtain e where e: "e \<in> set mm" "entry_type e = U" "page_within (unat (base e)) (unat (len e)) i"
    using assms(3) by (auto simp: usable_page_def)
  obtain s1 h where sc: "fold (scan_entry U) mm (s, 0) = (s1, h)" by fastforce
  have "unat (base e) + unat (len e) < 2 ^ 64"
    using assms(1) e(1,2) by (auto simp: wf_memmap_def list_all_iff entry_ok_def)
  then have "unat (base e) + unat (len e) \<le> unat h"
    using scan_fold(3) [OF sc e(1,2)] by (simp add: word_le_nat_alt unat_add_no_wrap)
  then have "unat i < unat h div 4096" using e(3) by (simp add: page_within_def less_eq_div_iff_mult_less_eq Suc_le_eq [symmetric])
  then show ?thesis
    by (simp add: pmm_init_highest [OF assms(2) sc] word_less_nat_alt unat_div_distrib PAGE_SIZE_def)
qed

lemma bitmap_byte_off_page:
  fixes b d i n :: u64
  assumes "unat (i * PAGE_SIZE) = unat i * 4096" "unat i * 4096 + 4096 < 2 ^ 64"
    "unat b + unat n < 2 ^ 64" "unat d < unat n" "k < 4096"
    "unat b + unat n \<le> unat i * 4096 \<or> unat i * 4096 + 4096 \<le> unat b"
  shows "b + d \<noteq> i * PAGE_SIZE + of_nat k"
proof
  assume eq: "b + d = i * PAGE_SIZE + of_nat k"
  have k: "unat (of_nat k :: u64) = k"
    using assms(5) by (simp add: unat_of_nat)
  have "unat (b + d) = unat b + unat d"
    using assms by (intro unat_add_no_wrap) simp
  moreover have "unat (i * PAGE_SIZE + of_nat k) = unat i * 4096 + k"
    using assms k by (subst unat_add_no_wrap) simp_all
  ultimately have "unat b + unat d = unat i * 4096 + k"
    using eq by simp
  with assms(4-6) show False by linarith
qed

text \<open>C6: initialisation establishes the allocator's invariant and frees the right pages. For a memory map with
  aligned, disjoint usable entries above page 0, one of them long enough for the bitmap, and under the
  condition that the computed bitmap size has a bit for every page (it can be one bit short, see
  \<open>pmm_init_short_bitmap\<close>), \<^verbatim>\<open>pmm_init\<close> puts a bitmap of one bit per page, rounded up to whole pages,
  at the front of a usable entry; it marks as free exactly the pages that lie in a usable entry of the
  boot loader's map and not under the bitmap; no usable page is out of its range; and the invariant of allocation holds.\<close>

theorem pmm_init_establishes_inv:
  assumes "wf_memmap U mm" and "pmm_init U hhdm mm (pmm_new m) = (mm', s')"
    and "\<exists>e \<in> set mm. entry_type e = U \<and> bitmap_bytes (highest_page_idx s') \<le> len e"
    and "0 < highest_page_idx s'" and "unat (highest_page_idx s') \<le> 8 * unat (bitmap_bytes (highest_page_idx s'))"
  shows "pmm_inv hhdm s'
    \<and> (\<forall>i. usable_page U mm i \<longrightarrow> i < highest_page_idx s')
    \<and> (\<exists>e size. e \<in> set mm \<and> entry_type e = U \<and> bitmap s' = base e + hhdm
         \<and> size = (unat (highest_page_idx s') div 8 + 4095) div 4096 * 4096 \<and> size \<le> unat (len e)
         \<and> (\<forall>i. i < highest_page_idx s' \<longrightarrow>
              (\<not> bitmap_test s' i \<longleftrightarrow> usable_page U mm i \<and> \<not> page_within (unat (base e)) size i)))"
proof -
  let ?n = "bitmap_bytes (highest_page_idx s')"
  have new: "ram (pmm_new m) = m" "last_used_page_idx (pmm_new m) = 0"
    by (simp_all add: pmm_new_def)
  obtain xs e ys s3 where e: "mm = xs @ e # ys" "entry_type e = U" "?n \<le> len e"
    "mm' = xs @ e\<lparr>len := len e - ?n, base := base e + ?n\<rparr> # ys"
    and s3: "s' = fold (free_entry U) mm' s3" "bitmap s3 = base e + hhdm"
      "ram s3 = mem_write m (base e + hhdm) (replicate (unat ?n) 0xFF)" "last_used_page_idx s3 = 0"
    and high: "unat (highest_page_idx s') < 2 ^ 52"
    by (rule pmm_init_shape [OF assms(2,3), unfolded new])
  note page = carved_free_page [OF assms(1) [unfolded e(1)] e(2,3) bitmap_bytes_aligned, folded e(4)]
  have t: "bitmap_test s' i = (i \<notin> free_pages_of U mm')" if "i < highest_page_idx s'" for i
  proof -
    have "unat i < unat (highest_page_idx s')"
      using that by (simp add: word_less_nat_alt)
    also note assms(5)
    finally have "bitmap_test s3 i"
      using s3(2,3) by (intro filled_bitmap_test [of s3 m ?n]) simp_all
    then show ?thesis by (simp add: s3(1) free_fold)
  qed
  have "0 \<notin> free_pages_of U mm'"
    using page(2) [of 0] by auto
  then have "bitmap_test s' 0"
    using t assms(4) by blast
  moreover have okb: "unat (base e) + unat ?n < 2 ^ 64"
    using assms(1) e(1-3) by (auto simp: wf_memmap_def list_all_iff entry_ok_def word_le_nat_alt)
  moreover have "bitmap s' + j div 8 \<noteq> hhdm + i * PAGE_SIZE + of_nat k"
    if "i < highest_page_idx s'" "\<not> bitmap_test s' i" "j < highest_page_idx s'" "k < 4096" for i j k
  proof -
    have i: "i \<in> free_pages_of U mm'"
      using t that by blast
    have j: "unat (j div 8) < unat ?n"
      using that(3) assms(5) by (simp add: unat_div_distrib word_less_nat_alt)
    have "base e + j div 8 \<noteq> i * PAGE_SIZE + of_nat k"
      using page(3,4) [OF i] j that(4) okb
      by (intro bitmap_byte_off_page [OF page(1) [OF i]]) auto
    then show ?thesis
      by (simp add: s3(1,2) free_fold algebra_simps)
  qed
  ultimately have "pmm_inv hhdm s'"
    using t assms(4) s3(4) high by (auto simp: pmm_inv_def s3(1) free_fold)
  moreover have "\<not> bitmap_test s' i \<longleftrightarrow> usable_page U mm i \<and> \<not> page_within (unat (base e)) (unat ?n) i"
    if "i < highest_page_idx s'" for i
    using t [OF that] carved_pages_iff [OF assms(1) [unfolded e(1)] e(2,3) bitmap_bytes_aligned, of i]
    by (simp add: e(1,4))
  moreover have "e \<in> set mm" "bitmap s' = base e + hhdm" "unat ?n \<le> unat (len e)"
    using e(1,3) s3 by (simp_all add: free_fold word_le_nat_alt)
  ultimately show ?thesis
    using e(2) usable_page_below [OF assms(1,2)] bitmap_bytes_nat [OF high] by auto
qed

text \<open>One usable entry of \<open>n\<close> pages behind page 0.\<close>

definition one_entry :: "usize \<Rightarrow> unit memmap_entry list" where
  "one_entry n = [\<lparr>base = 4096, len = n * 4096, entry_type = ()\<rparr>]"

lemma demo_quotients: "(266240 :: usize) div 4096 = 65" "(134221824 :: usize) div 4096 = 32769"
  by (simp_all only: word_unat_eq_iff unat_div_distrib) simp_all

lemma one_entry_scan:
  assumes "0 < 4096 + n * 4096"
  shows "fold (scan_entry ()) (one_entry n) (s, 0) = (s\<lparr>usable_pages := usable_pages s + n * 4096 div PAGE_SIZE\<rparr>, 4096 + n * 4096)"
  using assms by (simp add: one_entry_def scan_entry_def)

theorem pmm_init_establishes_inv_witness:
  "\<exists>mm' s'. pmm_init () 0 (one_entry 64) (pmm_new (\<lambda>_. 0)) = (mm', s')
     \<and> pmm_inv 0 s' \<and> bitmap s' = 4096 \<and> bitmap_test s' 1 \<and> \<not> bitmap_test s' 2 \<and> \<not> bitmap_test s' 64"
proof -
  obtain mm' s' where r: "pmm_init () 0 (one_entry 64) (pmm_new (\<lambda>_. 0)) = (mm', s')" by fastforce
  have h: "highest_page_idx s' = 65"
    by (subst pmm_init_highest [OF r one_entry_scan]) (simp_all add: PAGE_SIZE_def demo_quotients word_less_nat_alt)
  have b: "bitmap_bytes 65 = 4096"
    by (simp add: bitmap_bytes_def PAGE_SIZE_def)
  have "wf_memmap () (one_entry 64)"
    by (simp add: wf_memmap_def one_entry_def entry_ok_def)
  from pmm_init_establishes_inv [OF this r]
  have "pmm_inv 0 s' \<and> bitmap s' = 4096 \<and> (\<forall>i. i < 65 \<longrightarrow>
      (\<not> bitmap_test s' i \<longleftrightarrow> usable_page () (one_entry 64) i \<and> \<not> page_within 4096 4096 i))"
    by (auto simp: h b one_entry_def)
  moreover have "usable_page () (one_entry 64) i \<longleftrightarrow> page_within 4096 262144 i" for i
    by (simp add: usable_page_def one_entry_def)
  ultimately have inv: "pmm_inv 0 s'" "bitmap s' = 4096"
    and free: "i < 65 \<Longrightarrow> \<not> bitmap_test s' i \<longleftrightarrow> page_within 4096 262144 i \<and> \<not> page_within 4096 4096 i" for i
    by blast+
  show ?thesis
    using free [of 1] free [of 2] free [of 64] inv r by (simp add: page_within_def word_less_nat_alt)
qed

text \<open>The bitmap can be one bit short. Its size is computed from the page count divided by 8, rounded
  down, so with 32769 pages below the top of memory it is 4096 bytes long and has no
  bit for the last page. With one usable entry from page 1 up to that page, whatever the
  higher-half offset, the bit of the last page lies in page 2, which is marked free: the invariant fails.\<close>

theorem pmm_init_short_bitmap:
  "bitmap_bytes 32769 = 4096
   \<and> \<not> pmm_inv hhdm (snd (pmm_init () hhdm (one_entry 32768) (pmm_new m)))"
proof -
  have b: "bitmap_bytes 32769 = 4096"
    by (simp add: bitmap_bytes_def PAGE_SIZE_def)
  obtain mm' s' where r: "pmm_init () hhdm (one_entry 32768) (pmm_new m) = (mm', s')" by fastforce
  have h: "highest_page_idx s' = 32769"
    by (subst pmm_init_highest [OF r one_entry_scan]) (simp_all add: PAGE_SIZE_def demo_quotients word_less_nat_alt)
  have room: "\<exists>e \<in> set (one_entry 32768). entry_type e = () \<and> bitmap_bytes (highest_page_idx s') \<le> len e"
    by (simp add: h b one_entry_def)
  obtain xs e ys s3 where e: "one_entry 32768 = xs @ e # ys"
    "mm' = xs @ e\<lparr>len := len e - bitmap_bytes (highest_page_idx s'),
                      base := base e + bitmap_bytes (highest_page_idx s')\<rparr> # ys"
    "s' = fold (free_entry ()) mm' s3" "bitmap s3 = base e + hhdm"
    by (rule pmm_init_shape [OF r room])
  from e(1) have x: "xs = []" "ys = []" "e = \<lparr>base = 4096, len = 134217728, entry_type = ()\<rparr>"
    by (auto simp: one_entry_def Cons_eq_append_conv)
  then have "mm' = [\<lparr>base = 8192, len = 134213632, entry_type = ()\<rparr>]"
    using e(2) by (simp add: h b)
  then have "2 \<in> free_pages_of () mm'"
    by (auto simp: free_pages_of_def entry_pages_def PAGE_SIZE_def intro!: image_eqI [of _ _ 0])
  then have "\<not> bitmap_test s' 2" "bitmap s' = 4096 + hhdm"
    using e(4) x by (simp_all add: e(3) free_fold)
  moreover have "(32768 :: usize) div 8 = 4096"
    by (simp only: word_unat_eq_iff unat_div_distrib) simp
  ultimately have "2 < highest_page_idx s' \<and> \<not> bitmap_test s' 2 \<and> 32768 < highest_page_idx s' \<and> (0 :: nat) < 4096"
    "bitmap s' + 32768 div 8 = hhdm + 2 * PAGE_SIZE + of_nat 0"
    by (simp_all add: h PAGE_SIZE_def)
  then have "\<not> pmm_inv hhdm s'"
    unfolding pmm_inv_def by blast
  with r b show ?thesis by simp
qed

end
