(* ===== verification/Gzip.thy ===== *)
theory Gzip
  imports Prelude
begin

text \<open>
  The zlib decompressor, \<^verbatim>\<open>src/libs/gzip.rs\<close>: the bit reader over the input, canonical Huffman
  tables, the 32 KiB ring of recent output, the three block types of DEFLATE and
  the Adler-32 check. Loops whose number of rounds the input decides are
  \<^theory_text>\<open>partial_function (option)\<close>; that they return is a theorem. Counts and offsets of the Huffman decoder,
  which are \<^verbatim>\<open>i32\<close> in the source, are mathematical integers: they stay below \<open>2 ^ 21\<close>.
\<close>

section \<open>State\<close>

record huff =
  counts :: "u16 list"
  symbols :: "u16 list"

definition huff_zero :: huff where
  "huff_zero = \<lparr>counts = replicate 16 0, symbols = replicate 288 0\<rparr>"

record inflate_context =
  input_buf :: "u8 list"
  bit_index :: nat
  output_buf :: "u8 list"
  ring_pointer :: usize
  ring_data :: "u8 list"

definition inflate_new :: "u8 list \<Rightarrow> inflate_context" where
  "inflate_new bytes = \<lparr>input_buf = bytes, bit_index = 0, output_buf = [],
     ring_pointer = 0, ring_data = replicate 32768 0\<rparr>"

section \<open>Reading bits\<close>

definition get_bit :: "inflate_context \<Rightarrow> (inflate_context \<times> bool) res" where
  "get_bit c0 =
     rbind
       (if bit_index c0 = 8 then
          (case input_buf c0 of
             [] \<Rightarrow> Inl (Panic IndexOutOfBounds)
           | _ # rest \<Rightarrow> rbind (rassert (rest \<noteq> [])) (\<lambda>_. Inr (c0\<lparr>input_buf := rest, bit_index := 0\<rparr>)))
        else Inr c0)
       (\<lambda>c. rbind (index_res (input_buf c) 0) (\<lambda>b.
          Inr (c\<lparr>bit_index := bit_index c + 1\<rparr>, b AND push_bit (bit_index c) 1 \<noteq> 0)))"

text \<open>The shift amount of \<^verbatim>\<open><<\<close> on \<^verbatim>\<open>u32\<close> is taken modulo 32.\<close>

fun get_bits_from ::
    "inflate_context \<Rightarrow> nat \<Rightarrow> nat \<Rightarrow> u32 \<Rightarrow> (inflate_context \<times> u32) res" where
  "get_bits_from c bt 0 byte = Inr (c, byte)"
| "get_bits_from c bt (Suc n) byte =
     rbind (get_bit c) (\<lambda>(c, b).
       get_bits_from c (Suc bt) n (byte OR push_bit (bt mod 32) (of_bool b)))"

definition get_bits :: "inflate_context \<Rightarrow> nat \<Rightarrow> (inflate_context \<times> u32) res" where
  "get_bits c num_bits = get_bits_from c 0 num_bits 0"

definition get_bits_base :: "inflate_context \<Rightarrow> nat \<Rightarrow> usize \<Rightarrow> (inflate_context \<times> u32) res" where
  "get_bits_base c num bas =
     (if num \<noteq> 0 then rbind (get_bits c num) (\<lambda>(c, v). Inr (c, ucast (bas + ucast v)))
      else Inr (c, ucast bas))"

section \<open>Huffman tables\<close>

fun count_lengths :: "u8 list \<Rightarrow> u16 list \<Rightarrow> u16 list res" where
  "count_lengths [] cs = Inr cs"
| "count_lengths (l # ls) cs =
     rbind (rassert (l \<le> 15)) (\<lambda>_.
     rbind (index_res cs (unat l)) (\<lambda>n.
     rbind (update_res cs (unat l) (n + 1)) (count_lengths ls)))"

fun prefix_sums :: "u32 \<Rightarrow> u16 list \<Rightarrow> u32 list" where
  "prefix_sums n [] = []"
| "prefix_sums n (c # cs) = n # prefix_sums (n + ucast c) cs"

fun place_symbols :: "u8 list \<Rightarrow> nat \<Rightarrow> nat \<Rightarrow> u32 list \<Rightarrow> u16 list \<Rightarrow> u16 list res" where
  "place_symbols lengths i 0 offsets syms = Inr syms"
| "place_symbols lengths i (Suc n) offsets syms =
     rbind (index_res lengths i) (\<lambda>l.
       if l \<noteq> 0 then
         rbind (index_res offsets (unat l)) (\<lambda>off.
         rbind (update_res syms (unat off) (of_nat i)) (\<lambda>syms.
         rbind (update_res offsets (unat l) (off + 1)) (\<lambda>offsets.
           place_symbols lengths (Suc i) n offsets syms)))
       else place_symbols lengths (Suc i) n offsets syms)"

definition build_huffman :: "u8 list \<Rightarrow> nat \<Rightarrow> huff \<Rightarrow> huff res" where
  "build_huffman lengths sz out =
     rbind (rassert (sz \<le> 288)) (\<lambda>_.
     rbind (count_lengths (take sz lengths) (replicate 16 0)) (\<lambda>cs.
     rbind (update_res cs 0 0) (\<lambda>cs.
     rbind (place_symbols lengths 0 sz (prefix_sums 0 cs) (symbols out)) (\<lambda>syms.
       Inr \<lparr>counts = cs, symbols = syms\<rparr>))))"

definition fixed_lengths :: "u8 list" where
  "fixed_lengths = replicate 144 8 @ replicate 112 9 @ replicate 24 7 @ replicate 8 8"

definition build_fixed :: "huff \<Rightarrow> huff \<Rightarrow> (huff \<times> huff) res" where
  "build_fixed out_length out_dist =
     rbind (build_huffman fixed_lengths 288 out_length) (\<lambda>out_length.
     rbind (build_huffman (replicate 30 5 @ drop 30 fixed_lengths) 30 out_dist) (\<lambda>out_dist.
       Inr (out_length, out_dist)))"

function decode_loop ::
    "inflate_context \<Rightarrow> huff \<Rightarrow> int \<Rightarrow> int \<Rightarrow> nat \<Rightarrow> (inflate_context \<times> int) res" where
  "decode_loop c huff bas offs0 i =
     rbind (get_bit c) (\<lambda>(c1, b).
       let offs = 2 * offs0 + of_bool b in
       rbind (rassert (i \<le> 15)) (\<lambda>_.
       rbind (index_res (counts huff) i) (\<lambda>n.
         if offs < uint n then Inr (c1, bas + offs)
         else decode_loop c1 huff (bas + uint n) (offs - uint n) (Suc i))))"
  by pat_completeness auto
termination
  by (relation "measure (\<lambda>(c, huff, bas, offs, i). 16 - i)") auto

declare decode_loop.simps [simp del]

definition decode :: "inflate_context \<Rightarrow> huff \<Rightarrow> (inflate_context \<times> u32) res" where
  "decode c huff =
     rbind (decode_loop c huff 0 0 1) (\<lambda>(c, idx).
     rbind (rassert (idx \<ge> 0 \<and> idx < 288)) (\<lambda>_.
     rbind (index_res (symbols huff) (nat idx)) (\<lambda>s. Inr (c, ucast s))))"

section \<open>Output\<close>

definition emit :: "inflate_context \<Rightarrow> u8 \<Rightarrow> inflate_context res" where
  "emit c byte =
     (let p = (if ring_pointer c = 32768 then 0 else ring_pointer c) in
      rbind (update_res (ring_data c) (unat p) byte) (\<lambda>d.
        Inr (c\<lparr>ring_data := d, ring_pointer := p + 1, output_buf := output_buf c @ [byte]\<rparr>)))"

definition peek :: "inflate_context \<Rightarrow> usize \<Rightarrow> u8 res" where
  "peek c offset = index_res (ring_data c) (unat ((ring_pointer c - offset) mod 32768))"

fun copy_match :: "inflate_context \<Rightarrow> nat \<Rightarrow> usize \<Rightarrow> inflate_context res" where
  "copy_match c 0 offset = Inr c"
| "copy_match c (Suc n) offset =
     rbind (peek c offset) (\<lambda>b. rbind (emit c b) (\<lambda>c. copy_match c n offset))"

section \<open>Blocks\<close>

fun read_stored :: "inflate_context \<Rightarrow> nat \<Rightarrow> inflate_context res" where
  "read_stored c 0 = Inr c"
| "read_stored c (Suc n) =
     rbind (get_bits c 8) (\<lambda>(c, v). rbind (emit c (ucast v)) (\<lambda>c. read_stored c n))"

definition uncompressed :: "inflate_context \<Rightarrow> inflate_context res" where
  "uncompressed c =
     rbind (get_bits c 16) (\<lambda>(c, v).
     let len = (ucast v :: u16) in
     rbind (get_bits c 16) (\<lambda>(c, v).
     let nlen = (ucast v :: u16) in
     if nlen \<noteq> NOT len then Inl ErrUnit else read_stored c (unat len)))"

definition length_bits :: "nat list" where
  "length_bits = [0, 0, 0, 0, 0, 0, 0, 0, 1, 1, 1, 1, 2, 2, 2, 2, 3, 3, 3, 3, 4, 4, 4, 4, 5, 5, 5, 5, 0,
     127]"

definition length_base :: "usize list" where
  "length_base = [3, 4, 5, 6, 7, 8, 9, 10, 11, 13, 15, 17, 19, 23, 27, 31, 35, 43, 51, 59, 67, 83, 99,
     115, 131, 163, 195, 227, 258, 0]"

definition dist_bits :: "nat list" where
  "dist_bits = [0, 0, 0, 0, 1, 1, 2, 2, 3, 3, 4, 4, 5, 5, 6, 6, 7, 7, 8, 8, 9, 9, 10, 10, 11, 11, 12,
     12, 13, 13]"

definition dist_base :: "usize list" where
  "dist_base = [1, 2, 3, 4, 5, 7, 9, 13, 17, 25, 33, 49, 65, 97, 129, 193, 257, 385, 513, 769, 1025,
     1537, 2049, 3073, 4097, 6145, 8193, 12289, 16385, 24577]"

text \<open>One round of the loop of \<^verbatim>\<open>inflate\<close>; the flag says whether the end-of-block symbol was read.\<close>

definition inflate_step :: "inflate_context \<Rightarrow> huff \<Rightarrow> huff \<Rightarrow> (inflate_context \<times> bool) res" where
  "inflate_step c huff_len huff_dist =
     rbind (decode c huff_len) (\<lambda>(c, symbol).
     if symbol < 256 then rbind (emit c (ucast symbol)) (\<lambda>c. Inr (c, False))
     else if symbol = 256 then Inr (c, True)
     else let s = unat (symbol - 257) in
       rbind (index_res length_bits s) (\<lambda>lbits.
       rbind (index_res length_base s) (\<lambda>lbase.
       rbind (get_bits_base c lbits lbase) (\<lambda>(c, len).
       rbind (decode c huff_dist) (\<lambda>(c, distance).
       rbind (index_res dist_bits (unat distance)) (\<lambda>dbits.
       rbind (index_res dist_base (unat distance)) (\<lambda>dbase.
       rbind (get_bits_base c dbits dbase) (\<lambda>(c, offset).
       rbind (copy_match c (unat len) (ucast offset)) (\<lambda>c. Inr (c, False))))))))))"

partial_function (option) inflate ::
    "inflate_context \<Rightarrow> huff \<Rightarrow> huff \<Rightarrow> inflate_context res option" where
  "inflate c huff_len huff_dist =
     (case inflate_step c huff_len huff_dist of
        Inl e \<Rightarrow> Some (Inl e)
      | Inr r \<Rightarrow> if snd r then Some (Inr (fst r)) else inflate (fst r) huff_len huff_dist)"

definition clens :: "nat list" where
  "clens = [16, 17, 18, 0, 8, 7, 9, 6, 10, 5, 11, 4, 12, 3, 13, 2, 14, 1, 15]"

fun read_clens :: "inflate_context \<Rightarrow> nat \<Rightarrow> nat \<Rightarrow> u8 list \<Rightarrow> (inflate_context \<times> u8 list) res" where
  "read_clens c i 0 lengths = Inr (c, lengths)"
| "read_clens c i (Suc n) lengths =
     rbind (get_bits c 3) (\<lambda>(c, v).
     rbind (index_res clens i) (\<lambda>k.
     rbind (update_res lengths k (ucast v)) (\<lambda>lengths. read_clens c (Suc i) n lengths)))"

fun fill_lengths :: "u8 list \<Rightarrow> u32 \<Rightarrow> u8 \<Rightarrow> nat \<Rightarrow> (u8 list \<times> u32) res" where
  "fill_lengths lengths count rep 0 = Inr (lengths, count)"
| "fill_lengths lengths count rep (Suc n) =
     rbind (update_res lengths (unat count) rep) (\<lambda>lengths. fill_lengths lengths (count + 1) rep n)"

text \<open>One round of the loop that reads the code lengths; the flag says whether it breaks out.\<close>

definition code_length_step ::
    "inflate_context \<Rightarrow> huff \<Rightarrow> u8 list \<Rightarrow> u32 \<Rightarrow> (inflate_context \<times> u8 list \<times> u32 \<times> bool) res" where
  "code_length_step c codes lengths count =
     rbind (decode c codes) (\<lambda>(c, symbol).
     if symbol < 16 then
       rbind (update_res lengths (unat count) (ucast symbol)) (\<lambda>lengths. Inr (c, lengths, count + 1, False))
     else if symbol < 19 then
       rbind
         (if symbol = 16 then
            rbind (index_res lengths (unat ((ucast count :: usize) - 1))) (\<lambda>rep.
            rbind (get_bits_base c 2 3) (\<lambda>(c, len). Inr (c, rep, len)))
          else if symbol = 17 then rbind (get_bits_base c 3 3) (\<lambda>(c, len). Inr (c, 0, len))
          else rbind (get_bits_base c 7 11) (\<lambda>(c, len). Inr (c, 0, len)))
         (\<lambda>(c, rep, len).
            rbind (fill_lengths lengths count rep (unat len)) (\<lambda>(lengths, count).
              Inr (c, lengths, count, False)))
     else Inr (c, lengths, count, True))"

partial_function (option) read_code_lengths ::
    "inflate_context \<Rightarrow> huff \<Rightarrow> u8 list \<Rightarrow> u32 \<Rightarrow> u32 \<Rightarrow> (inflate_context \<times> u8 list) res option" where
  "read_code_lengths c codes lengths count goal_count =
     (if count < goal_count then
        (case code_length_step c codes lengths count of
           Inl e \<Rightarrow> Some (Inl e)
         | Inr r \<Rightarrow>
             if snd (snd (snd r)) then Some (Inr (fst r, fst (snd r)))
             else read_code_lengths (fst r) codes (fst (snd r)) (fst (snd (snd r))) goal_count)
      else Some (Inr (c, lengths)))"

definition decode_huffman :: "inflate_context \<Rightarrow> inflate_context res option" where
  "decode_huffman c =
     obind (Some (get_bits_base c 5 257)) (\<lambda>(c, literals).
     obind (Some (get_bits_base c 5 1)) (\<lambda>(c, distances).
     obind (Some (get_bits_base c 4 4)) (\<lambda>(c, clengths).
     obind (Some (read_clens c 0 (unat clengths) (replicate 320 0))) (\<lambda>(c, lengths).
     obind (Some (build_huffman lengths 19 huff_zero)) (\<lambda>codes.
     obind (read_code_lengths c codes lengths 0 (literals + distances)) (\<lambda>(c, lengths).
     obind (Some (build_huffman lengths (unat literals) huff_zero)) (\<lambda>huff_len.
     obind (Some (slice_res lengths (unat literals) (length lengths))) (\<lambda>dist_lengths.
     obind (Some (build_huffman dist_lengths (unat distances) huff_zero)) (\<lambda>huff_dist.
       inflate c huff_len huff_dist)))))))))"

definition inflate_block :: "inflate_context \<Rightarrow> huff \<Rightarrow> huff \<Rightarrow> (inflate_context \<times> bool) res option" where
  "inflate_block c lengths dists =
     obind (Some (get_bit c)) (\<lambda>(c, is_final).
     obind (Some (get_bits c 2)) (\<lambda>(c, block_type).
     obind
       (if block_type = 0 then Some (uncompressed c)
        else if block_type = 1 then inflate c lengths dists
        else if block_type = 2 then decode_huffman c
        else Some (Inl ErrUnit))
       (\<lambda>c. Some (Inr (c, is_final)))))"

partial_function (option) decompress_loop ::
    "inflate_context \<Rightarrow> huff \<Rightarrow> huff \<Rightarrow> inflate_context res option" where
  "decompress_loop c lengths dists =
     (case inflate_block c lengths dists of
        None \<Rightarrow> None
      | Some r \<Rightarrow>
          (case r of
             Inl e \<Rightarrow> Some (Inl e)
           | Inr x \<Rightarrow> if snd x then Some (Inr (fst x)) else decompress_loop (fst x) lengths dists))"

definition decompress :: "inflate_context \<Rightarrow> u8 list res option" where
  "decompress c =
     obind (Some (build_fixed huff_zero huff_zero)) (\<lambda>(lengths, dists).
     obind (decompress_loop c lengths dists) (\<lambda>c. Some (Inr (output_buf c))))"

declare inflate.simps [code] read_code_lengths.simps [code] decompress_loop.simps [code]

section \<open>The zlib wrapper\<close>

fun adler32_loop :: "u32 \<Rightarrow> u32 \<Rightarrow> u8 list \<Rightarrow> u32 \<times> u32" where
  "adler32_loop a b [] = (a, b)"
| "adler32_loop a b (byte # bytes) =
     (let a = (a + ucast byte) mod 65521; b = (b + a) mod 65521 in adler32_loop a b bytes)"

definition adler32 :: "u8 list \<Rightarrow> u32" where
  "adler32 bytes = (let (a, b) = adler32_loop 1 0 bytes in swap_bytes32 (push_bit 16 b OR a))"

datatype zlib_compression_level = Fastest | Fast | DefaultLevel | Best

definition zlib_level :: "u8 \<Rightarrow> zlib_compression_level res" where
  "zlib_level v =
     (if v = 0 then Inr Fastest else if v = 1 then Inr Fast else if v = 2 then Inr DefaultLevel
      else if v = 3 then Inr Best else Inl (Panic ExplicitPanic))"

definition uncompress_data :: "u8 list \<Rightarrow> u8 list res option" where
  "uncompress_data bytes =
     obind (Some (rassert (length bytes > 2))) (\<lambda>_.
     obind (Some (index_res bytes 0)) (\<lambda>cmf.
     if cmf AND 0x0F \<noteq> 0x08 then Some (Inl ErrUnit)
     else if drop_bit 4 cmf AND 0x0F > 0x07 then Some (Inl ErrUnit)
     else obind (Some (index_res bytes 1)) (\<lambda>flags.
     if ((ucast cmf :: u32) * 256 + ucast flags) mod 31 \<noteq> 0 then Some (Inl ErrUnit)
     else obind (Some (zlib_level (drop_bit 6 flags AND 0x03))) (\<lambda>_.
     if drop_bit 5 flags AND 0x01 \<noteq> 0 then Some (Inl ErrUnit)
     else obind (Some (slice_res bytes 2 (length bytes - 4))) (\<lambda>body.
     obind (decompress (inflate_new body)) (\<lambda>data.
     obind (Some (le_field bytes (length bytes - 4) (length bytes))) (\<lambda>checksum.
     if adler32 data \<noteq> checksum then Some (Inl ErrUnit) else Some (Inr data))))))))"

section \<open>The input as a list of bits\<close>

definition byte_bits :: "u8 \<Rightarrow> bool list" where
  "byte_bits b = map (bit b) [0..<8]"

definition stream :: "inflate_context \<Rightarrow> bool list" where
  "stream c = drop (bit_index c) (concat (map byte_bits (input_buf c)))"

definition reader_ok :: "inflate_context \<Rightarrow> bool" where
  "reader_ok c \<longleftrightarrow> bit_index c \<le> 8"

text \<open>Reading leaves the output alone.\<close>

definition same_output :: "inflate_context \<Rightarrow> inflate_context \<Rightarrow> bool" where
  "same_output c c' \<longleftrightarrow> output_buf c' = output_buf c \<and> ring_pointer c' = ring_pointer c
     \<and> ring_data c' = ring_data c"

lemma same_output_refl [simp]: "same_output c c"
  by (simp add: same_output_def)

lemma same_output_trans: "same_output a b \<Longrightarrow> same_output b c \<Longrightarrow> same_output a c"
  by (simp add: same_output_def)

lemma length_byte_bits [simp]: "length (byte_bits b) = 8"
  by (simp add: byte_bits_def)

lemma get_bit_front:
  assumes "bit_index c < 8" "input_buf c = b # bs"
  shows "get_bit c = Inr (c\<lparr>bit_index := bit_index c + 1\<rparr>, bit b (bit_index c))"
    and "stream c = bit b (bit_index c) # stream (c\<lparr>bit_index := bit_index c + 1\<rparr>)"
proof -
  show "get_bit c = Inr (c\<lparr>bit_index := bit_index c + 1\<rparr>, bit b (bit_index c))"
    using assms unfolding get_bit_def u8_test by simp
  have n: "bit_index c < length (byte_bits b @ concat (map byte_bits bs))"
    using assms by simp
  then show "stream c = bit b (bit_index c) # stream (c\<lparr>bit_index := bit_index c + 1\<rparr>)"
    unfolding stream_def using assms Cons_nth_drop_Suc [OF n, symmetric]
    by (simp add: nth_append byte_bits_def)
qed

lemma get_bit_stream:
  assumes "reader_ok c"
  shows "case stream c of
      [] \<Rightarrow> \<exists>p. get_bit c = Inl (Panic p)
    | b # bs \<Rightarrow> \<exists>c'. get_bit c = Inr (c', b) \<and> stream c' = bs \<and> reader_ok c' \<and> same_output c c'"
proof (cases "input_buf c")
  case Nil
  then show ?thesis
    by (auto simp: stream_def get_bit_def index_res_def)
next
  case (Cons b bs)
  show ?thesis
  proof (cases "bit_index c < 8")
    case True
    with get_bit_front [OF True Cons] show ?thesis
      by (auto simp: reader_ok_def same_output_def)
  next
    case False
    then have eight: "bit_index c = 8"
      using assms by (simp add: reader_ok_def)
    show ?thesis
    proof (cases bs)
      case Nil
      with eight Cons show ?thesis by (simp add: stream_def get_bit_def)
    next
      case (Cons b' bs')
      let ?c = "c\<lparr>input_buf := bs, bit_index := 0\<rparr>"
      have get: "get_bit c = get_bit ?c"
        using eight \<open>input_buf c = b # bs\<close> Cons unfolding get_bit_def u8_test by simp
      have st: "stream c = stream ?c"
        using eight \<open>input_buf c = b # bs\<close> by (simp add: stream_def)
      have "bit_index ?c < 8" "input_buf ?c = b' # bs'"
        using Cons by simp_all
      from get_bit_front [OF this] show ?thesis
        unfolding get st by (auto simp: reader_ok_def same_output_def)
    qed
  qed
qed

lemma get_bit_Cons:
  assumes "reader_ok c" "stream c = b # bs"
  obtains c' where "get_bit c = Inr (c', b)" "stream c' = bs" "reader_ok c'" "same_output c c'"
  using get_bit_stream [OF assms(1)] assms(2) by auto

lemma get_bit_Inr:
  assumes "reader_ok c" "get_bit c = Inr (c', b)"
  shows "stream c = b # stream c'" "reader_ok c'" "same_output c c'"
  using get_bit_stream [OF assms(1)] assms(2) by (auto split: list.splits)

text \<open>The number a list of bits stands for, least significant bit first.\<close>

fun bits_val :: "bool list \<Rightarrow> nat" where
  "bits_val [] = 0"
| "bits_val (b # bs) = of_bool b + 2 * bits_val bs"

lemma bits_val_bound: "bits_val bs < 2 ^ length bs"
  by (induction bs) (auto split: if_splits)

lemma or_disjoint_add:
  fixes acc :: u32
  assumes "unat acc < 2 ^ k" "k < 32"
  shows "unat (acc OR push_bit k (of_bool b)) = unat acc + of_bool b * 2 ^ k"
proof -
  have bits: "\<not> bit acc n" if "k \<le> n" for n
  proof -
    have "take_bit k acc = acc"
      using assms(1) by (simp add: word_unat_eq_iff unat_take_bit)
    then show ?thesis using that by (metis bit_take_bit_iff leD)
  qed
  have "acc AND push_bit k (of_bool b) = 0"
    by (rule bit_word_eqI) (auto simp: bit_simps bits)
  then have eq: "acc OR push_bit k (of_bool b) = acc + push_bit k (of_bool b)"
    by (simp add: disjunctive_add_eq_or)
  have p: "unat (push_bit k (of_bool b) :: u32) = of_bool b * 2 ^ k"
  proof -
    have "(2::nat) ^ k < 2 ^ 32" using assms(2) by (intro power_strict_increasing) auto
    then have "unat (of_nat (2 ^ k) :: u32) = 2 ^ k" by (simp only: unat_of_nat) simp
    then show ?thesis by (cases b) (simp_all add: push_bit_eq_mult)
  qed
  have "unat acc + of_bool b * 2 ^ k < 2 ^ Suc k"
    using assms(1) by auto
  also have "\<dots> \<le> 2 ^ 32" using assms(2) by (intro power_increasing) auto
  finally show ?thesis
    unfolding eq using p by (subst unat_add_no_wrap) auto
qed

lemma get_bits_from_stream:
  assumes "reader_ok c" "stream c = bs @ rest" "unat acc < 2 ^ k" "k + length bs \<le> 32"
  shows "\<exists>c' v. get_bits_from c k (length bs) acc = Inr (c', v) \<and> unat v = unat acc + 2 ^ k * bits_val bs
    \<and> stream c' = rest \<and> reader_ok c' \<and> same_output c c'"
  using assms
proof (induction bs arbitrary: c k acc)
  case Nil
  then show ?case by simp
next
  case (Cons b bs)
  from Cons.prems(1,2) obtain c1 where c1: "get_bit c = Inr (c1, b)" "stream c1 = bs @ rest"
    "reader_ok c1" "same_output c c1"
    by (auto elim: get_bit_Cons)
  let ?acc = "acc OR push_bit k (of_bool b)"
  have k: "k < 32" using Cons.prems(4) by simp
  have acc: "unat ?acc = unat acc + of_bool b * 2 ^ k"
    by (rule or_disjoint_add [OF Cons.prems(3) k])
  then have "unat ?acc < 2 ^ Suc k"
    using Cons.prems(3) by auto
  with Cons.IH [OF c1(3,2)] Cons.prems(4) obtain c' v where
    "get_bits_from c1 (Suc k) (length bs) ?acc = Inr (c', v)"
    "unat v = unat ?acc + 2 ^ Suc k * bits_val bs" "stream c' = rest" "reader_ok c'" "same_output c1 c'"
    by fastforce
  with c1 k acc show ?case
    by (auto simp: algebra_simps intro: same_output_trans)
qed

lemma get_bits_stream:
  assumes "reader_ok c" "stream c = bs @ rest" "length bs \<le> 32"
  obtains c' v where "get_bits c (length bs) = Inr (c', v)" "unat v = bits_val bs" "stream c' = rest"
    "reader_ok c'" "same_output c c'"
  using get_bits_from_stream [OF assms(1,2), of 0 0] assms(3) by (auto simp: get_bits_def)

section \<open>The window of recent output\<close>

text \<open>
  The contract of an output window: what was pushed can be looked up by its distance from the
  end, up to the window size; before the start of the output lie zero bytes.
\<close>

definition hist_at :: "'b \<Rightarrow> 'b list \<Rightarrow> nat \<Rightarrow> 'b" where
  "hist_at z out d = (if d \<le> length out then out ! (length out - d) else z)"

fun lz_copy :: "'b \<Rightarrow> 'b list \<Rightarrow> nat \<Rightarrow> nat \<Rightarrow> 'b list" where
  "lz_copy z out 0 d = out"
| "lz_copy z out (Suc n) d = lz_copy z (out @ [hist_at z out d]) n d"

locale output_window =
  fixes inv :: "'s \<Rightarrow> bool" and hist :: "'s \<Rightarrow> 'b list" and push :: "'s \<Rightarrow> 'b \<Rightarrow> 's res"
    and look :: "'s \<Rightarrow> nat \<Rightarrow> 'b res" and frame :: "'s \<Rightarrow> 'f" and width :: nat and z :: 'b
  assumes push_hist: "inv s \<Longrightarrow> \<exists>s'. push s b = Inr s' \<and> inv s' \<and> hist s' = hist s @ [b] \<and> frame s' = frame s"
    and look_hist: "inv s \<Longrightarrow> 1 \<le> d \<Longrightarrow> d \<le> width \<Longrightarrow> look s d = Inr (hist_at z (hist s) d)"
begin

fun copy_run :: "'s \<Rightarrow> nat \<Rightarrow> nat \<Rightarrow> 's res" where
  "copy_run s 0 d = Inr s"
| "copy_run s (Suc n) d = rbind (look s d) (\<lambda>b. rbind (push s b) (\<lambda>s. copy_run s n d))"

lemma copy_run_lz:
  assumes "inv s" "1 \<le> d" "d \<le> width"
  shows "\<exists>s'. copy_run s n d = Inr s' \<and> inv s' \<and> hist s' = lz_copy z (hist s) n d \<and> frame s' = frame s"
  using assms
proof (induction n arbitrary: s)
  case (Suc n)
  obtain s1 where s1: "push s (hist_at z (hist s) d) = Inr s1" "inv s1"
    "hist s1 = hist s @ [hist_at z (hist s) d]" "frame s1 = frame s"
    using push_hist [OF Suc.prems(1)] by blast
  with Suc.IH [OF s1(2) Suc.prems(2,3)] look_hist [OF Suc.prems] show ?case by auto
qed simp

end

text \<open>Copying from distance \<open>d\<close> repeats the last \<open>d\<close> bytes, also when the copy overlaps its source.\<close>

lemma lz_copy_periodic:
  assumes "1 \<le> d" "d \<le> length out"
  shows "lz_copy z out n d = out @ map (\<lambda>k. out ! (length out - d + k mod d)) [0..<n]"
proof -
  have step: "lz_copy z (out @ map f [0..<m]) n d = out @ map f [0..<m + n]"
    if f: "f = (\<lambda>k. out ! (length out - d + k mod d))" for f and m n :: nat
  proof (induction n arbitrary: m)
    case (Suc n)
    have "hist_at z (out @ map f [0..<m]) d = f m"
    proof (cases "d \<le> m")
      case True
      with assms have "hist_at z (out @ map f [0..<m]) d = f (m - d)"
        by (auto simp: hist_at_def nth_append)
      also have "\<dots> = f m"
        using True assms by (simp add: f le_mod_geq)
      finally show ?thesis .
    next
      case False
      then have lt: "length out + m - d < length out" and eq: "length out + m - d = length out - d + m"
        using assms by auto
      have "hist_at z (out @ map f [0..<m]) d = out ! (length out + m - d)"
        using lt assms by (simp add: hist_at_def nth_append)
      also have "\<dots> = f m"
        unfolding eq f using False by simp
      finally show ?thesis .
    qed
    with Suc.IH [of "Suc m"] show ?case by simp
  qed simp
  from step [OF refl, of 0 n] show ?thesis by simp
qed

definition ring_ok :: "inflate_context \<Rightarrow> bool" where
  "ring_ok c \<longleftrightarrow> length (ring_data c) = 32768 \<and> unat (ring_pointer c) \<le> 32768
     \<and> (\<forall>d. 1 \<le> d \<and> d \<le> 32768 \<longrightarrow>
          ring_data c ! ((unat (ring_pointer c) + 32768 - d) mod 32768) = hist_at 0 (output_buf c) d)"

lemma ring_new: "ring_ok (inflate_new bs)"
proof -
  have "replicate 32768 (0 :: u8) ! (k mod 32768) = 0" for k
    by (rule nth_replicate) simp
  then show ?thesis
    by (simp only: ring_ok_def inflate_new_def hist_at_def inflate_context.simps length_replicate) simp
qed

lemma mod_shift_neq:
  fixes p e w :: nat
  assumes "p < w" "1 \<le> e" "e < w"
  shows "(p + w - e) mod w \<noteq> p"
proof (cases "e \<le> p")
  case True
  then have eq: "p + w - e = (p - e) + w" by simp
  have "(p + w - e) mod w = p - e" unfolding eq using assms by simp
  with True assms show ?thesis by linarith
qed (use assms in auto)

lemma hist_at_snoc: "1 \<le> d \<Longrightarrow> d \<noteq> 1 \<Longrightarrow> hist_at z (out @ [b]) d = hist_at z out (d - 1)"
  by (cases d) (auto simp: hist_at_def nth_append)

lemma emit_ring:
  assumes "ring_ok c"
  shows "\<exists>c'. emit c b = Inr c' \<and> ring_ok c' \<and> output_buf c' = output_buf c @ [b]
    \<and> (input_buf c', bit_index c') = (input_buf c, bit_index c)"
proof -
  define p where "p = (if ring_pointer c = 32768 then 0 else ring_pointer c)"
  have len: "length (ring_data c) = 32768" and ptr: "unat (ring_pointer c) \<le> 32768"
    and hist: "\<And>d. 1 \<le> d \<Longrightarrow> d \<le> 32768 \<Longrightarrow>
          ring_data c ! ((unat (ring_pointer c) + 32768 - d) mod 32768) = hist_at 0 (output_buf c) d"
    using assms by (auto simp: ring_ok_def)
  have p: "unat p = unat (ring_pointer c) mod 32768" "unat p < 32768"
  proof -
    have "ring_pointer c = 32768 \<longleftrightarrow> unat (ring_pointer c) = 32768"
      by (simp add: word_unat_eq_iff)
    with ptr show "unat p = unat (ring_pointer c) mod 32768" "unat p < 32768"
      by (auto simp: p_def)
  qed
  then have p1: "unat (p + 1) = unat p + 1"
    by (subst unat_add_no_wrap) simp_all
  let ?c = "c\<lparr>ring_data := (ring_data c)[unat p := b], ring_pointer := p + 1, output_buf := output_buf c @ [b]\<rparr>"
  have "emit c b = Inr ?c"
    using p len by (simp add: emit_def p_def [symmetric] Let_def)
  moreover have "ring_data ?c ! ((unat (ring_pointer ?c) + 32768 - d) mod 32768) = hist_at 0 (output_buf ?c) d"
    if d: "1 \<le> d" "d \<le> 32768" for d
  proof (cases "d = 1")
    case True
    with p p1 len show ?thesis by (simp add: hist_at_def)
  next
    case False
    with d have e: "1 \<le> d - 1" "d - 1 \<le> 32768" "d - 1 < 32768" by auto
    have i: "(unat p + 1 + 32768 - d) mod 32768 = (unat (ring_pointer c) + 32768 - (d - 1)) mod 32768"
    proof -
      have "(unat p + (32768 - (d - 1))) mod 32768 = (unat (ring_pointer c) + (32768 - (d - 1))) mod 32768"
        unfolding p(1) by (rule mod_add_left_eq)
      with e show ?thesis by (simp add: ac_simps)
    qed
    have "(unat p + 1 + 32768 - d) mod 32768 \<noteq> unat p"
      using mod_shift_neq [OF p(2) e(1,3)] d False by simp
    then have "(ring_data c)[unat p := b] ! ((unat p + 1 + 32768 - d) mod 32768) = hist_at 0 (output_buf c) (d - 1)"
      unfolding i using hist [OF e(1,2)] by (simp only: nth_list_update_neq)
    with p1 False d show ?thesis
      by (simp add: hist_at_snoc)
  qed
  ultimately show ?thesis
    using p p1 len by (intro exI [of _ ?c]) (auto simp: ring_ok_def)
qed

lemma peek_ring:
  assumes "ring_ok c" "1 \<le> d" "d \<le> 32768"
  shows "peek c (of_nat d) = Inr (hist_at 0 (output_buf c) d)"
proof -
  have u: "unat (of_nat d :: usize) = d"
    using assms by (simp add: unat_of_nat)
  have "unat ((ring_pointer c - of_nat d) mod 32768) = (unat (ring_pointer c) + 32768 - d) mod 32768"
  proof (cases "d \<le> unat (ring_pointer c)")
    case True
    then have "unat (ring_pointer c) + 32768 - d = (unat (ring_pointer c) - d) + 32768" by simp
    with True show ?thesis
      using u by (simp only: unat_mod_distrib unat_sub_if' if_True mod_add_self2) simp
  next
    case False
    then have "unat (ring_pointer c - of_nat d) = 2 ^ 64 + unat (ring_pointer c) - d"
      using u by (simp add: unat_sub_if')
    also have "\<dots> = 32768 * (2 ^ 49 - 1) + (unat (ring_pointer c) + 32768 - d)"
      using assms(3) by simp
    finally have "unat (ring_pointer c - of_nat d) mod 32768 = (unat (ring_pointer c) + 32768 - d) mod 32768"
      by (simp only: mod_mult_self4)
    then show ?thesis by (simp add: unat_mod_distrib)
  qed
  with assms show ?thesis
    by (simp add: peek_def ring_ok_def)
qed

interpretation ring_window: output_window ring_ok output_buf emit "\<lambda>c d. peek c (of_nat d)"
  "\<lambda>c. (input_buf c, bit_index c)" 32768 0
  using emit_ring peek_ring by unfold_locales blast+

lemma copy_match_run: "copy_match c n (of_nat d) = ring_window.copy_run c n d"
  by (induction n arbitrary: c) simp_all

lemma copy_match_lz:
  assumes "ring_ok c" "1 \<le> d" "d \<le> 32768"
  shows "\<exists>c'. copy_match c n (of_nat d) = Inr c' \<and> ring_ok c'
    \<and> output_buf c' = lz_copy 0 (output_buf c) n d
    \<and> (input_buf c', bit_index c') = (input_buf c, bit_index c)"
  using ring_window.copy_run_lz [OF assms] by (simp add: copy_match_run)

end
