(* ===== verification/Huffman.thy ===== *)
theory Huffman
  imports Gzip
begin

text \<open>
  Canonical Huffman codes (RFC 1951, section 3.2.2) and the proof that the tables of \<^verbatim>\<open>build_huffman\<close>
  make \<^verbatim>\<open>decode\<close> read them. A code of length \<open>L\<close> is the first code of that length plus
  the rank of the symbol among the symbols of the same length; it is sent most significant bit first.
\<close>

section \<open>Canonical codes\<close>

definition len_count :: "u8 list \<Rightarrow> nat \<Rightarrow> nat" where
  "len_count ls k = length (filter (\<lambda>l. unat l = k) ls)"

text \<open>Codes of length 0 are not sent.\<close>

definition bl_count :: "u8 list \<Rightarrow> nat \<Rightarrow> nat" where
  "bl_count ls k = (if k = 0 then 0 else len_count ls k)"

fun first_code :: "u8 list \<Rightarrow> nat \<Rightarrow> nat" where
  "first_code ls 0 = 0"
| "first_code ls (Suc k) = 2 * (first_code ls k + bl_count ls k)"

definition code_rank :: "u8 list \<Rightarrow> nat \<Rightarrow> nat" where
  "code_rank ls i = len_count (take i ls) (unat (ls ! i))"

definition canonical_code :: "u8 list \<Rightarrow> nat \<Rightarrow> nat" where
  "canonical_code ls i = first_code ls (unat (ls ! i)) + code_rank ls i"

fun code_bits :: "nat \<Rightarrow> nat \<Rightarrow> bool list" where
  "code_bits 0 v = []"
| "code_bits (Suc m) v = bit v m # code_bits m v"

definition symbol_bits :: "u8 list \<Rightarrow> nat \<Rightarrow> bool list" where
  "symbol_bits ls i = code_bits (unat (ls ! i)) (canonical_code ls i)"

text \<open>Where the symbols of length \<open>L\<close> start in the table, and the place of a symbol.\<close>

definition start :: "u8 list \<Rightarrow> nat \<Rightarrow> nat" where
  "start ls k = (\<Sum>j<k. bl_count ls j)"

definition place :: "u8 list \<Rightarrow> nat \<Rightarrow> nat" where
  "place ls i = start ls (unat (ls ! i)) + code_rank ls i"

definition lengths_ok :: "u8 list \<Rightarrow> bool" where
  "lengths_ok ls \<longleftrightarrow> length ls \<le> 288 \<and> list_all (\<lambda>l. l \<le> 15) ls"

section \<open>Counting\<close>

lemma len_count_simps [simp]:
  "len_count [] k = 0" "len_count (l # ls) k = of_bool (unat l = k) + len_count ls k"
  "len_count (xs @ ys) k = len_count xs k + len_count ys k"
  by (simp_all add: len_count_def)

lemma len_count_le: "len_count ls k \<le> length ls"
  by (simp add: len_count_def)

lemma len_count_take: "i < length ls \<Longrightarrow> len_count (take (Suc i) ls) k = len_count (take i ls) k + of_bool (unat (ls ! i) = k)"
  by (simp add: take_Suc_conv_app_nth)

lemma len_count_mono: "i \<le> j \<Longrightarrow> len_count (take i ls) k \<le> len_count (take j ls) k"
proof -
  assume "i \<le> j"
  then have "take j ls = take i ls @ take (j - i) (drop i ls)"
    by (metis le_add_diff_inverse take_add)
  then show ?thesis by simp
qed

lemma code_rank_less:
  assumes "i < length ls"
  shows "code_rank ls i < len_count ls (unat (ls ! i))"
proof -
  have "code_rank ls i < len_count (take (Suc i) ls) (unat (ls ! i))"
    using assms by (simp add: code_rank_def len_count_take)
  also have "\<dots> \<le> len_count (take (length ls) ls) (unat (ls ! i))"
    using assms by (intro len_count_mono) simp
  finally show ?thesis by simp
qed

lemma sum_len_count: "(\<Sum>k<n. len_count ls k) \<le> length ls"
proof (induction ls)
  case (Cons l ls)
  have "(\<Sum>k<n. len_count (l # ls) k) = (\<Sum>k<n. of_bool (unat l = k)) + (\<Sum>k<n. len_count ls k)"
    by (simp add: sum.distrib)
  also have "(\<Sum>k<n. of_bool (unat l = k) :: nat) \<le> 1"
    by (simp add: of_bool_def)
  finally show ?case using Cons by simp
qed simp

lemma start_le: "start ls k \<le> length ls"
proof -
  have "start ls k \<le> (\<Sum>j<k. len_count ls j)"
    unfolding start_def by (rule sum_mono) (simp add: bl_count_def)
  with sum_len_count [of ls k] show ?thesis by simp
qed

lemma start_mono: "k \<le> m \<Longrightarrow> start ls k \<le> start ls m"
  unfolding start_def by (rule sum_mono2) auto

lemma start_Suc: "start ls (Suc k) = start ls k + bl_count ls k"
  by (simp add: start_def)

lemma place_bounds:
  assumes "i < length ls" "ls ! i \<noteq> 0"
  shows "place ls i < start ls (Suc (unat (ls ! i)))" and "start ls (unat (ls ! i)) \<le> place ls i"
    and "place ls i < length ls"
proof -
  have "unat (ls ! i) \<noteq> 0"
    using assms(2) by (simp add: unat_eq_zero)
  then have "bl_count ls (unat (ls ! i)) = len_count ls (unat (ls ! i))"
    by (simp add: bl_count_def)
  then show *: "place ls i < start ls (Suc (unat (ls ! i)))"
    using code_rank_less [OF assms(1)] by (simp add: place_def start_Suc)
  show "start ls (unat (ls ! i)) \<le> place ls i"
    by (simp add: place_def)
  show "place ls i < length ls"
    using * start_le [of ls "Suc (unat (ls ! i))"] by simp
qed

lemma place_inj:
  assumes "j < i" "i < length ls" "ls ! i \<noteq> 0" "ls ! j \<noteq> 0"
  shows "place ls j \<noteq> place ls i"
proof (cases "unat (ls ! i)" "unat (ls ! j)" rule: linorder_cases)
  case equal
  have "code_rank ls j < len_count (take (Suc j) ls) (unat (ls ! j))"
    using assms by (simp add: code_rank_def len_count_take)
  also have "\<dots> \<le> len_count (take i ls) (unat (ls ! j))"
    using assms by (intro len_count_mono) simp
  finally show ?thesis
    using equal by (simp add: place_def code_rank_def)
next
  case less
  then have "start ls (Suc (unat (ls ! i))) \<le> start ls (unat (ls ! j))"
    by (intro start_mono) simp
  with place_bounds [of i ls] place_bounds [of j ls] assms show ?thesis by auto
next
  case greater
  then have "start ls (Suc (unat (ls ! j))) \<le> start ls (unat (ls ! i))"
    by (intro start_mono) simp
  with place_bounds [of i ls] place_bounds [of j ls] assms show ?thesis by auto
qed

section \<open>The tables of \<open>build_huffman\<close>\<close>

lemma count_lengths_spec:
  assumes "list_all (\<lambda>l. l \<le> 15) ls" "length cs = 16" "\<forall>k<16. unat (cs ! k) + length ls < 2 ^ 16"
  shows "\<exists>cs'. count_lengths ls cs = Inr cs' \<and> length cs' = 16
    \<and> (\<forall>k<16. unat (cs' ! k) = unat (cs ! k) + len_count ls k)"
  using assms
proof (induction ls arbitrary: cs)
  case (Cons l ls)
  then have l: "unat l < 16"
    by (simp add: word_le_nat_alt)
  let ?cs = "cs[unat l := cs ! unat l + 1]"
  have "unat (cs ! unat l + 1) = unat (cs ! unat l) + 1"
    using Cons.prems(3) l by (subst unat_add_no_wrap) auto
  then have step: "unat (?cs ! k) = unat (cs ! k) + of_bool (unat l = k)" if "k < 16" for k
    using that l Cons.prems(2) by (cases "unat l = k") auto
  have "\<forall>k<16. unat (?cs ! k) + length ls < 2 ^ 16"
    using Cons.prems(3) step by (auto simp: of_bool_def)
  with Cons.IH [of ?cs] Cons.prems obtain cs' where
    "count_lengths ls ?cs = Inr cs'" "length cs' = 16"
    "\<forall>k<16. unat (cs' ! k) = unat (?cs ! k) + len_count ls k" by auto
  with step l Cons.prems show ?case by auto
qed simp

lemma prefix_sums_spec:
  assumes "unat n + (\<Sum>j<length cs. unat (cs ! j)) < 2 ^ 32" "k < length cs"
  shows "unat (prefix_sums n cs ! k) = unat n + (\<Sum>j<k. unat (cs ! j))"
  using assms
proof (induction cs arbitrary: n k)
  case (Cons c cs)
  have sum: "(\<Sum>j<Suc m. unat ((c # cs) ! j)) = unat c + (\<Sum>j<m. unat (cs ! j))" for m
    by (simp add: sum.lessThan_Suc_shift del: sum.lessThan_Suc)
  have u: "unat (ucast c :: u32) = unat c"
    by (rule unat_ucast_up) simp
  have nc: "unat (n + ucast c) = unat n + unat c"
    using Cons.prems(1) u sum by (subst unat_add_no_wrap) auto
  show ?case
  proof (cases k)
    case (Suc m)
    have "unat (prefix_sums (n + ucast c) cs ! m) = unat (n + ucast c) + (\<Sum>j<m. unat (cs ! j))"
      using Cons.prems Suc nc sum by (intro Cons.IH) auto
    with Suc nc sum show ?thesis by simp
  qed simp
qed simp

lemma length_prefix_sums [simp]: "length (prefix_sums n cs) = length cs"
  by (induction cs arbitrary: n) simp_all

lemma place_symbols_spec:
  assumes "length ls = i + n" "ls = take (i + n) lengths" "lengths_ok ls"
    and "length offsets = 16" "length syms = 288"
    and "\<forall>k. 1 \<le> k \<and> k < 16 \<longrightarrow> unat (offsets ! k) = start ls k + len_count (take i ls) k"
    and "\<forall>j<i. ls ! j \<noteq> 0 \<longrightarrow> syms ! place ls j = of_nat j"
  shows "\<exists>syms'. place_symbols lengths i n offsets syms = Inr syms' \<and> length syms' = 288
    \<and> (\<forall>j < length ls. ls ! j \<noteq> 0 \<longrightarrow> syms' ! place ls j = of_nat j)"
  using assms
proof (induction n arbitrary: i offsets syms)
  case 0
  then show ?case by simp
next
  case (Suc n)
  have i: "i < length ls" "i < length lengths" "lengths ! i = ls ! i"
  proof -
    show "i < length ls" using Suc.prems(1) by simp
    then show "i < length lengths" using Suc.prems(2) by (metis length_take min_less_iff_conj)
    have "take (i + Suc n) lengths ! i = lengths ! i" by simp
    with Suc.prems(2) show "lengths ! i = ls ! i" by metis
  qed
  have next_count: "len_count (take (Suc i) ls) k = len_count (take i ls) k + of_bool (unat (ls ! i) = k)" for k
    by (rule len_count_take [OF i(1)])
  have shape: "length ls = Suc i + n" "ls = take (Suc i + n) lengths"
    using Suc.prems(1,2) by simp_all
  show ?case
  proof (cases "ls ! i = 0")
    case True
    then have "\<forall>k. 1 \<le> k \<and> k < 16 \<longrightarrow> unat (offsets ! k) = start ls k + len_count (take (Suc i) ls) k"
      using Suc.prems(6) next_count by simp
    moreover have "\<forall>j<Suc i. ls ! j \<noteq> 0 \<longrightarrow> syms ! place ls j = of_nat j"
      using Suc.prems(7) True by (auto simp: less_Suc_eq)
    ultimately show ?thesis
      using Suc.IH [OF shape Suc.prems(3-5)] True i by simp
  next
    case False
    let ?l = "unat (ls ! i)"
    have l: "1 \<le> ?l" "?l < 16"
      using False Suc.prems(3) i(1)
      by (auto simp: lengths_ok_def list_all_length word_le_nat_alt Suc_le_eq unat_gt_0)
    have off: "unat (offsets ! ?l) = place ls i"
      using Suc.prems(6) l by (simp add: place_def code_rank_def)
    have pl: "place ls i < 288"
      using place_bounds(3) [OF i(1) False] Suc.prems(3) by (simp add: lengths_ok_def)
    let ?syms = "syms[place ls i := of_nat i]"
    let ?offs = "offsets[?l := offsets ! ?l + 1]"
    have "unat (offsets ! ?l + 1) = place ls i + 1"
      using off pl by (subst unat_add_no_wrap) auto
    then have "\<forall>k. 1 \<le> k \<and> k < 16 \<longrightarrow> unat (?offs ! k) = start ls k + len_count (take (Suc i) ls) k"
      using Suc.prems(4,6) l next_count by (auto simp: nth_list_update place_def code_rank_def)
    moreover have "\<forall>j<Suc i. ls ! j \<noteq> 0 \<longrightarrow> ?syms ! place ls j = of_nat j"
    proof (intro allI impI)
      fix j assume j: "j < Suc i" "ls ! j \<noteq> 0"
      show "?syms ! place ls j = of_nat j"
      proof (cases "j = i")
        case False
        with j have "place ls j \<noteq> place ls i"
          using place_inj [of j i ls] i(1) \<open>ls ! i \<noteq> 0\<close> by simp
        with Suc.prems(7) j False show ?thesis by simp
      qed (use Suc.prems(5) pl in simp)
    qed
    ultimately have "\<exists>syms'. place_symbols lengths (Suc i) n ?offs ?syms = Inr syms' \<and> length syms' = 288
      \<and> (\<forall>j < length ls. ls ! j \<noteq> 0 \<longrightarrow> syms' ! place ls j = of_nat j)"
      using Suc.prems(4,5) by (intro Suc.IH [OF shape Suc.prems(3)]) simp_all
    with i False l pl off Suc.prems(4,5) show ?thesis by simp
  qed
qed

text \<open>What a table for the code lengths \<open>ls\<close> holds.\<close>

definition table_for :: "u8 list \<Rightarrow> huff \<Rightarrow> bool" where
  "table_for ls h \<longleftrightarrow> length (counts h) = 16 \<and> (\<forall>k<16. unat (counts h ! k) = bl_count ls k)
     \<and> length (symbols h) = 288 \<and> (\<forall>j < length ls. ls ! j \<noteq> 0 \<longrightarrow> symbols h ! place ls j = of_nat j)"

lemma build_huffman_table:
  assumes "sz \<le> length lengths" "lengths_ok (take sz lengths)" "length (symbols out) = 288"
  obtains h where "build_huffman lengths sz out = Inr h" and "table_for (take sz lengths) h"
proof -
  let ?ls = "take sz lengths"
  have sz: "sz \<le> 288" "list_all (\<lambda>l. l \<le> 15) ?ls" "length ?ls = sz"
    using assms by (simp_all add: lengths_ok_def min_absorb2)
  obtain cs where cs: "count_lengths ?ls (replicate 16 0) = Inr cs" "length cs = 16"
    "\<forall>k<16. unat (cs ! k) = len_count ?ls k"
    using count_lengths_spec [OF sz(2), of "replicate 16 0"] sz by auto
  let ?cs = "cs[0 := 0]"
  have c: "length ?cs = 16" "\<forall>k<16. unat (?cs ! k) = bl_count ?ls k"
    using cs by (auto simp: bl_count_def nth_list_update)
  have sums: "(\<Sum>j<k. unat (?cs ! j)) = start ?ls k" if "k \<le> 16" for k
    unfolding start_def using c(2) that by (intro sum.cong) auto
  have offs: "unat (prefix_sums 0 ?cs ! k) = start ?ls k" if "k < 16" for k
    using prefix_sums_spec [of 0 ?cs k] sums [of 16] sums [of k] that c(1) start_le [of ?ls 16] sz by simp
  have "\<exists>syms. place_symbols lengths 0 sz (prefix_sums 0 ?cs) (symbols out) = Inr syms
    \<and> length syms = 288 \<and> (\<forall>j < length ?ls. ?ls ! j \<noteq> 0 \<longrightarrow> syms ! place ?ls j = of_nat j)"
    using sz(3) c(1) assms(2,3) offs by (intro place_symbols_spec) simp_all
  then obtain syms where "place_symbols lengths 0 sz (prefix_sums 0 ?cs) (symbols out) = Inr syms"
    "length syms = 288" "\<forall>j < length ?ls. ?ls ! j \<noteq> 0 \<longrightarrow> syms ! place ?ls j = of_nat j"
    by blast
  with cs c sz(1) show ?thesis
    by (intro that [of "\<lparr>counts = ?cs, symbols = syms\<rparr>"]) (auto simp: build_huffman_def table_for_def)
qed

section \<open>Decoding\<close>

lemma bit_div: "v div 2 ^ m = 2 * (v div 2 ^ Suc m) + of_bool (bit v m)" for v :: nat
proof -
  have "v div 2 ^ Suc m = v div 2 ^ m div 2"
    by (simp only: power_Suc2 div_mult2_eq)
  moreover have "v div 2 ^ m = 2 * (v div 2 ^ m div 2) + v div 2 ^ m mod 2"
    by (rule mult_div_mod_eq [symmetric])
  moreover have "v div 2 ^ m mod 2 = of_bool (bit v m)"
    by (simp add: bit_iff_odd mod_2_eq_odd)
  ultimately show ?thesis by metis
qed

lemma int_bit_div: "int (v div 2 ^ m) = 2 * int (v div 2 ^ Suc m) + of_bool (bit v m)"
  by (subst bit_div) simp

lemma first_code_shift: "first_code ls i + bl_count ls i \<le> first_code ls (i + Suc m) div 2 ^ Suc m"
proof (induction m)
  case (Suc m)
  have "first_code ls (i + Suc m) div 2 ^ Suc m \<le> (first_code ls (i + Suc m) + bl_count ls (i + Suc m)) div 2 ^ Suc m"
    by (rule div_le_mono) simp
  also have "\<dots> = 2 * (first_code ls (i + Suc m) + bl_count ls (i + Suc m)) div (2 * 2 ^ Suc m)"
    by (rule div_mult_mult1 [symmetric]) simp
  also have "\<dots> = first_code ls (i + Suc (Suc m)) div 2 ^ Suc (Suc m)"
    by simp
  finally show ?case using Suc by simp
qed simp

text \<open>
  The loop of \<^verbatim>\<open>decode\<close> with \<open>m + 1\<close> bits of a code \<open>v\<close> of length \<open>i + m\<close> still to read: the bits read so
  far, less the codes of the shorter lengths, are in \<open>offs\<close>.
\<close>

lemma decode_loop_code:
  assumes t: "table_for ls h" and L: "1 \<le> i" "i + m \<le> 15"
    and v: "first_code ls (i + m) \<le> v" "v < first_code ls (i + m) + bl_count ls (i + m)"
    and c: "reader_ok c" "stream c = code_bits (Suc m) v @ rest"
    and inv: "offs = int (v div 2 ^ Suc m) - int (first_code ls (i - 1) + bl_count ls (i - 1))"
      "bas = int (start ls i)"
  shows "\<exists>c'. decode_loop c h bas offs i = Inr (c', int (start ls (i + m) + v - first_code ls (i + m)))
    \<and> stream c' = rest \<and> reader_ok c' \<and> same_output c c'"
  using L v c inv
proof (induction m arbitrary: i c offs bas)
  case (0 i)
  then obtain c1 where c1: "get_bit c = Inr (c1, bit v 0)" "stream c1 = rest" "reader_ok c1" "same_output c c1"
    by (auto elim: get_bit_Cons)
  have n: "index_res (counts h) i = Inr (counts h ! i)" "uint (counts h ! i) = int (bl_count ls i)"
    using t 0 by (auto simp: table_for_def uint_nat)
  have fc: "first_code ls i = 2 * (first_code ls (i - 1) + bl_count ls (i - 1))"
    using 0(1) by (cases i) simp_all
  have "2 * offs + of_bool (bit v 0) = int v - int (first_code ls i)"
    using 0(7) fc int_bit_div [of v 0] 
    by (simp only: of_nat_add of_nat_mult of_nat_numeral power_0 div_by_1) (simp add: algebra_simps)
  with c1 n 0 show ?case
    by (subst decode_loop.simps) (auto simp: Let_def of_nat_diff)
next
  case (Suc m i)
  then obtain c1 where c1: "get_bit c = Inr (c1, bit v (Suc m))" "stream c1 = code_bits (Suc m) v @ rest"
      "reader_ok c1" "same_output c c1"
    by (auto elim: get_bit_Cons)
  have n: "index_res (counts h) i = Inr (counts h ! i)" "uint (counts h ! i) = int (bl_count ls i)"
    using t Suc.prems by (auto simp: table_for_def uint_nat)
  have fc: "first_code ls i = 2 * (first_code ls (i - 1) + bl_count ls (i - 1))"
    using Suc.prems(1) by (cases i) simp_all
  have offs: "2 * offs + of_bool (bit v (Suc m)) = int (v div 2 ^ Suc m) - int (first_code ls i)"
    using Suc.prems(7) fc int_bit_div [of v "Suc m"]
    by (simp only: of_nat_add of_nat_mult of_nat_numeral) (simp add: algebra_simps)
  have "first_code ls i + bl_count ls i \<le> first_code ls (i + Suc m) div 2 ^ Suc m"
    by (rule first_code_shift)
  also have "\<dots> \<le> v div 2 ^ Suc m"
    using Suc.prems(3) by (rule div_le_mono)
  finally have ge: "int (first_code ls i + bl_count ls i) \<le> int (v div 2 ^ Suc m)"
    by (simp only: of_nat_le_iff)
  let ?offs = "int (v div 2 ^ Suc m) - int (first_code ls i + bl_count ls i)"
  have "decode_loop c h bas offs i = decode_loop c1 h (bas + int (bl_count ls i)) ?offs (Suc i)"
    using c1(1) n offs ge Suc.prems(2) by (subst decode_loop.simps) (simp add: Let_def diff_diff_eq)
  moreover have "\<exists>c'. decode_loop c1 h (bas + int (bl_count ls i)) ?offs (Suc i)
      = Inr (c', int (start ls (Suc i + m) + v - first_code ls (Suc i + m)))
    \<and> stream c' = rest \<and> reader_ok c' \<and> same_output c1 c'"
    using Suc.prems c1 by (intro Suc.IH) (simp_all add: start_Suc)
  ultimately show ?case
    using c1(4) by (auto intro: same_output_trans)
qed

lemma decode_symbol:
  assumes t: "table_for ls h" and ok: "lengths_ok ls" and i: "i < length ls" "ls ! i \<noteq> 0"
    and v: "canonical_code ls i < 2 ^ unat (ls ! i)"
    and c: "reader_ok c" "stream c = symbol_bits ls i @ rest"
  obtains c' where "decode c h = Inr (c', of_nat i)" "stream c' = rest" "reader_ok c'" "same_output c c'"
proof -
  let ?v = "canonical_code ls i"
  obtain m where m: "unat (ls ! i) = Suc m"
    using i(2) by (cases "unat (ls ! i)") (auto simp: unat_eq_zero)
  have L: "1 + m \<le> 15"
    using ok i(1) m by (auto simp: lengths_ok_def list_all_length word_le_nat_alt)
  have "bl_count ls (Suc m) = len_count ls (unat (ls ! i))"
    using m by (simp add: bl_count_def)
  then have rank: "first_code ls (1 + m) \<le> ?v" "?v < first_code ls (1 + m) + bl_count ls (1 + m)"
    using code_rank_less [OF i(1)] m by (simp_all add: canonical_code_def)
  have "?v div 2 ^ Suc m = 0"
    using v m by simp
  moreover have "first_code ls 0 + bl_count ls 0 = 0" "start ls 1 = 0"
    by (simp_all add: bl_count_def start_def)
  ultimately obtain c' where c': "decode_loop c h 0 0 1 = Inr (c', int (start ls (1 + m) + ?v - first_code ls (1 + m)))"
    "stream c' = rest" "reader_ok c'" "same_output c c'"
    using decode_loop_code [OF t _ L rank c(1), of rest 0 0] c(2) m
    by (auto simp: symbol_bits_def simp del: first_code.simps code_bits.simps)
  have idx: "start ls (1 + m) + ?v - first_code ls (1 + m) = place ls i"
    using m by (simp add: place_def canonical_code_def)
  have pl: "place ls i < length ls" "length ls \<le> 288"
    using place_bounds(3) [OF i] ok by (simp_all add: lengths_ok_def)
  have "symbols h ! place ls i = of_nat i" "length (symbols h) = 288"
    using t i by (simp_all add: table_for_def)
  moreover have "(ucast (of_nat i :: u16) :: u32) = of_nat i"
  proof -
    have "i < 2 ^ 16" using i(1) pl by simp
    then have "unat (ucast (of_nat i :: u16) :: u32) = i" "unat (of_nat i :: u32) = i"
      by (simp_all add: unat_ucast_up unat_of_nat)
    then show ?thesis by (metis word_unat_eq_iff)
  qed
  ultimately have "decode c h = Inr (c', of_nat i)"
    using c'(1) idx pl by (simp add: decode_def)
  with c' show ?thesis by (intro that)
qed

lemma stream_new: "stream (inflate_new bs) = concat (map byte_bits bs)" "reader_ok (inflate_new bs)"
  by (simp_all add: stream_def inflate_new_def reader_ok_def)

text \<open>The decoder reads canonical Huffman codes. For code lengths of at most 15 (at most 288 of them),
  \<^verbatim>\<open>build_huffman\<close> succeeds, and for every symbol whose canonical code, as RFC 1951 assigns it, fits its length,
  \<^verbatim>\<open>decode\<close> on an input that starts with that code returns the symbol, consumes exactly the code
  and leaves the output alone.\<close>

theorem decode_canonical:
  assumes "sz \<le> length lengths" and "lengths_ok (take sz lengths)" and "length (symbols out) = 288"
    and "i < sz" and "lengths ! i \<noteq> 0"
    and "canonical_code (take sz lengths) i < 2 ^ unat (lengths ! i)"
    and "reader_ok c" and "stream c = symbol_bits (take sz lengths) i @ rest"
  shows "\<exists>h c'. build_huffman lengths sz out = Inr h \<and> decode c h = Inr (c', of_nat i)
    \<and> stream c' = rest \<and> same_output c c'"
proof -
  obtain h where h: "build_huffman lengths sz out = Inr h" "table_for (take sz lengths) h"
    by (rule build_huffman_table [OF assms(1-3)])
  have "i < length (take sz lengths)" "take sz lengths ! i = lengths ! i"
    using assms(1,4) by simp_all
  with decode_symbol [OF h(2) assms(2) _ _ _ assms(7,8)] assms(5,6) h(1) show ?thesis
    by metis
qed

text \<open>The example of RFC 1951: lengths 3, 3, 3, 3, 3, 2, 4, 4 give symbol 0 the code 010.\<close>

theorem decode_canonical_witness:
  "\<exists>h c'. build_huffman [3, 3, 3, 3, 3, 2, 4, 4] 8 huff_zero = Inr h
     \<and> decode (inflate_new [2]) h = Inr (c', of_nat 0)
     \<and> stream c' = [False, False, False, False, False] \<and> same_output (inflate_new [2]) c'"
proof -
  let ?ls = "[3, 3, 3, 3, 3, 2, 4, 4] :: u8 list"
  have code: "lengths_ok (take 8 ?ls)" "canonical_code (take 8 ?ls) 0 < 2 ^ unat (?ls ! 0)"
    "byte_bits 2 = symbol_bits (take 8 ?ls) 0 @ [False, False, False, False, False]"
    by code_simp+
  have "stream (inflate_new [2]) = symbol_bits (take 8 ?ls) 0 @ [False, False, False, False, False]"
    using code(3) by (simp only: stream_new) simp
  then show ?thesis
    using code(1,2) by (intro decode_canonical) (simp_all add: stream_new huff_zero_def)
qed

end
