(* ===== verification/Inflate.thy ===== *)
theory Inflate
  imports Huffman
begin

text \<open>
  The decompressor as a whole: every loop returns because it consumes input, decompression inverts
  a fixed-Huffman encoder, the Adler-32 trailer is checked, and a stored
  block is read from the wrong bit.
\<close>

section \<open>Every loop consumes input\<close>

definition reads :: "inflate_context \<Rightarrow> inflate_context \<Rightarrow> bool" where
  "reads c c' \<longleftrightarrow> (reader_ok c \<longrightarrow> reader_ok c' \<and> length (stream c') \<le> length (stream c))"

definition reads_some :: "inflate_context \<Rightarrow> inflate_context \<Rightarrow> bool" where
  "reads_some c c' \<longleftrightarrow> (reader_ok c \<longrightarrow> reader_ok c' \<and> length (stream c') < length (stream c))"

lemma reads_trans [trans]:
  "reads a b \<Longrightarrow> reads b c \<Longrightarrow> reads a c" "reads_some a b \<Longrightarrow> reads b c \<Longrightarrow> reads_some a c"
  "reads a b \<Longrightarrow> reads_some b c \<Longrightarrow> reads_some a c"
  by (auto simp: reads_def reads_some_def)

lemma reads_refl [simp]: "reads c c"
  by (simp add: reads_def)

lemma reads_some_reads: "reads_some a b \<Longrightarrow> reads a b"
  by (auto simp: reads_def reads_some_def)

lemma get_bit_reads: "get_bit c = Inr (c', b) \<Longrightarrow> reads_some c c'"
  unfolding reads_some_def using get_bit_Inr by fastforce

lemma get_bits_from_reads: "get_bits_from c k n acc = Inr (c', v) \<Longrightarrow> reads c c'"
proof (induction n arbitrary: c k acc)
  case (Suc n)
  then obtain c1 b where "get_bit c = Inr (c1, b)" "reads c1 c'" by auto
  with get_bit_reads reads_some_reads reads_trans show ?case by blast
qed simp

lemma get_bits_reads: "get_bits c n = Inr (c', v) \<Longrightarrow> reads c c'"
  by (simp add: get_bits_def get_bits_from_reads)

lemma get_bits_base_reads: "get_bits_base c n bas = Inr (c', v) \<Longrightarrow> reads c c'"
  by (auto simp: get_bits_base_def get_bits_reads split: if_splits)

lemma decode_loop_reads: "decode_loop c h bas offs i = Inr (c', idx) \<Longrightarrow> reads_some c c'"
proof (induction c h bas offs i rule: decode_loop.induct)
  case (1 c h bas offs i)
  from "1.prems" obtain c1 b where g: "get_bit c = Inr (c1, b)"
    and r: "rassert (i \<le> 15) = Inr ()" "i < length (counts h)"
    and d: "c' = c1 \<or> \<not> 2 * offs + of_bool b < uint (counts h ! i) \<and>
      decode_loop c1 h (bas + uint (counts h ! i)) (2 * offs + of_bool b - uint (counts h ! i)) (Suc i) = Inr (c', idx)"
    by (subst (asm) decode_loop.simps) (auto simp: Let_def split: if_splits)
  have "reads c1 c'"
    using d
  proof
    assume *: "\<not> 2 * offs + of_bool b < uint (counts h ! i) \<and>
      decode_loop c1 h (bas + uint (counts h ! i)) (2 * offs + of_bool b - uint (counts h ! i)) (Suc i) = Inr (c', idx)"
    then have "reads_some c1 c'"
      using r(2) * by (intro "1.IH" [OF g refl refl r(1), of "counts h ! i"]) (simp, blast+)
    then show ?thesis by (rule reads_some_reads)
  qed simp
  with get_bit_reads [OF g] show ?case by (rule reads_trans(2))
qed

lemma decode_reads: "decode c h = Inr (c', s) \<Longrightarrow> reads_some c c'"
  by (auto simp: decode_def dest: decode_loop_reads)

lemma stream_cong: "input_buf c' = input_buf c \<Longrightarrow> bit_index c' = bit_index c \<Longrightarrow> stream c' = stream c \<and> reader_ok c' = reader_ok c"
  by (simp add: stream_def reader_ok_def)

lemma emit_reads: "emit c b = Inr c' \<Longrightarrow> reads c c'"
  using stream_cong [of c' c] by (auto simp: emit_def Let_def reads_def)

lemma copy_match_reads: "copy_match c n d = Inr c' \<Longrightarrow> reads c c'"
proof (induction n arbitrary: c)
  case (Suc n)
  then obtain b c1 where "emit c b = Inr c1" "reads c1 c'" by auto
  with emit_reads reads_trans show ?case by blast
qed simp

lemma read_stored_reads: "read_stored c n = Inr c' \<Longrightarrow> reads c c'"
proof (induction n arbitrary: c)
  case (Suc n)
  then obtain c1 v c2 where "get_bits c 8 = Inr (c1, v)" "emit c1 (ucast v) = Inr c2" "reads c2 c'" by auto
  then show ?case
    by (rule reads_trans(1) [OF get_bits_reads reads_trans(1) [OF emit_reads]])
qed simp

lemma uncompressed_reads:
  assumes "uncompressed c = Inr c'"
  shows "reads c c'"
proof -
  from assms obtain c1 v1 c2 v2 n where "get_bits c 16 = Inr (c1, v1)" "get_bits c1 16 = Inr (c2, v2)"
    "read_stored c2 n = Inr c'"
    by (auto simp: uncompressed_def Let_def split: if_splits)
  then show ?thesis
    by (rule reads_trans(1) [OF get_bits_reads reads_trans(1) [OF get_bits_reads read_stored_reads]])
qed

lemma inflate_step_reads:
  assumes "inflate_step c hl hs = Inr (c', fin)"
  shows "reads_some c c'"
proof -
  from assms obtain c1 s where d: "decode c hl = Inr (c1, s)"
    and "c' = c1 \<or> emit c1 (ucast s) = Inr c'
      \<or> (\<exists>c2 c3 c4 n l m k e f d. get_bits_base c1 n l = Inr (c2, k) \<and> decode c2 hs = Inr (c3, d)
          \<and> get_bits_base c3 m e = Inr (c4, f) \<and> copy_match c4 (unat k) (ucast f) = Inr c')"
    by (auto simp: inflate_step_def Let_def split: if_splits) blast+
  then have "reads c1 c'"
  proof (elim disjE exE conjE)
    fix c2 c3 c4 n l m k e f d
    assume "get_bits_base c1 n l = Inr (c2, k)" "decode c2 hs = Inr (c3, d)"
      "get_bits_base c3 m e = Inr (c4, f)" "copy_match c4 (unat k) (ucast f) = Inr c'"
    then show ?thesis
      by (rule reads_trans(1) [OF get_bits_base_reads reads_trans(1) [OF reads_some_reads [OF decode_reads]
            reads_trans(1) [OF get_bits_base_reads copy_match_reads]]])
  qed (simp_all add: emit_reads)
  with decode_reads [OF d] show ?thesis by (rule reads_trans(2))
qed

text \<open>A loop that returns, and whose result, if it is a context, has not gone back in the input.\<close>

definition returns :: "(inflate_context \<Rightarrow> 'a \<Rightarrow> bool) \<Rightarrow> inflate_context \<Rightarrow> 'a res option \<Rightarrow> bool" where
  "returns R c m \<longleftrightarrow> (\<exists>r. m = Some r \<and> (\<forall>x. r = Inr x \<longrightarrow> R c x))"

lemma returns_Some: "returns R c (Some r) \<longleftrightarrow> (\<forall>x. r = Inr x \<longrightarrow> R c x)"
  by (simp add: returns_def)

lemma returns_pure: "(\<And>x. returns R c (f x)) \<Longrightarrow> returns R c (obind (Some m) f)"
  by (cases m) (simp_all add: returns_Some)

lemma returns_step:
  assumes "reader_ok c" "returns (\<lambda>c x. reads c (fst x)) c m"
    "\<And>c1 v. reader_ok c1 \<Longrightarrow> returns reads c1 (f (c1, v))"
  shows "returns reads c (obind m f)"
proof -
  from assms(2) obtain r where r: "m = Some r" "\<forall>x. r = Inr x \<longrightarrow> reads c (fst x)" by (auto simp: returns_def)
  show ?thesis
  proof (cases r)
    case (Inl e)
    with r show ?thesis by (simp add: returns_Some)
  next
    case (Inr x)
    obtain c1 v where x: "x = (c1, v)" by (cases x)
    with r Inr have c1: "reads c c1" by simp
    with assms(1) have "returns reads c1 (f (c1, v))"
      by (intro assms(3)) (simp add: reads_def)
    with c1 have "returns reads c (f (c1, v))"
      using reads_trans(1) unfolding returns_def by blast
    with r Inr x show ?thesis by simp
  qed
qed

lemma inflate_returns: "reader_ok c \<Longrightarrow> returns reads c (inflate c hl hs)"
proof (induction "length (stream c)" arbitrary: c rule: less_induct)
  case less
  show ?case
  proof (cases "inflate_step c hl hs")
    case (Inl e)
    then show ?thesis by (subst inflate.simps) (simp add: returns_def)
  next
    case (Inr x)
    obtain c1 fin where x: "x = (c1, fin)" by (cases x)
    have r: "reads_some c c1"
      using inflate_step_reads Inr x by simp
    show ?thesis
    proof (cases fin)
      case True
      with Inr x r show ?thesis
        by (subst inflate.simps) (simp add: returns_def reads_some_reads)
    next
      case False
      have "returns reads c1 (inflate c1 hl hs)"
        using less r by (auto simp: reads_some_def)
      then have "returns reads c (inflate c1 hl hs)"
        using r reads_trans(1) reads_some_reads unfolding returns_def by blast
      with False Inr x show ?thesis by (subst inflate.simps) simp
    qed
  qed
qed

lemma code_length_step_reads:
  assumes "code_length_step c h ls n = Inr (c', ls', n', fin)"
  shows "reads_some c c'"
proof -
  from assms obtain c1 s where d: "decode c h = Inr (c1, s)"
    and "c' = c1 \<or> (\<exists>m e k. get_bits_base c1 m e = Inr (c', k))"
    by (auto simp: code_length_step_def split: if_splits) blast+
  then have "reads c1 c'"
    using get_bits_base_reads by auto
  with decode_reads [OF d] show ?thesis by (rule reads_trans(2))
qed

lemma read_code_lengths_returns:
  "reader_ok c \<Longrightarrow> returns (\<lambda>c x. reads c (fst x)) c (read_code_lengths c h ls n goal_count)"
proof (induction "length (stream c)" arbitrary: c ls n rule: less_induct)
  case less
  show ?case
  proof (cases "n < goal_count")
    case False
    then show ?thesis by (subst read_code_lengths.simps) (simp add: returns_def)
  next
    case lt: True
    show ?thesis
    proof (cases "code_length_step c h ls n")
      case (Inl e)
      with lt show ?thesis by (subst read_code_lengths.simps) (simp add: returns_def)
    next
      case (Inr x)
      obtain c1 ls1 n1 fin where x: "x = (c1, ls1, n1, fin)" by (metis surj_pair)
      have r: "reads_some c c1"
        using code_length_step_reads Inr x by simp
      have "returns (\<lambda>c x. reads c (fst x)) c1 (read_code_lengths c1 h ls1 n1 goal_count)"
        using less r by (auto simp: reads_some_def)
      then have "returns (\<lambda>c x. reads c (fst x)) c (read_code_lengths c1 h ls1 n1 goal_count)"
        using r reads_trans(1) reads_some_reads unfolding returns_def by blast
      with lt Inr x r show ?thesis
        by (subst read_code_lengths.simps) (simp add: returns_def reads_some_reads)
    qed
  qed
qed

lemma read_clens_reads: "read_clens c i n ls = Inr (c', ls') \<Longrightarrow> reads c c'"
proof (induction n arbitrary: c i ls)
  case (Suc n)
  then obtain c1 v where "get_bits c 3 = Inr (c1, v)" "reads c1 c'" by auto
  then show ?case by (rule reads_trans(1) [OF get_bits_reads])
qed simp

lemma decode_huffman_returns:
  assumes "reader_ok c"
  shows "returns reads c (decode_huffman c)"
  unfolding decode_huffman_def
proof (rule returns_step [OF assms], goal_cases)
  case (2 c lits)
  show ?case unfolding prod.case
  proof (rule returns_step [OF 2], goal_cases)
    case (2 c dists)
    show ?case unfolding prod.case
    proof (rule returns_step [OF 2], goal_cases)
      case (2 c n)
      show ?case unfolding prod.case
      proof (rule returns_step [OF 2], goal_cases)
        case (2 c ls)
        show ?case unfolding prod.case
        proof (rule returns_pure, rule returns_step [OF 2 read_code_lengths_returns [OF 2]], goal_cases)
          case (1 codes c ls)
          then show ?case by (auto intro!: returns_pure inflate_returns)
        qed
      qed (auto simp: returns_Some dest: read_clens_reads)
    qed (auto simp: returns_Some dest: get_bits_base_reads)
  qed (auto simp: returns_Some dest: get_bits_base_reads)
qed (auto simp: returns_Some dest: get_bits_base_reads)

lemma inflate_block_returns:
  assumes "reader_ok c"
  shows "returns (\<lambda>c x. reads_some c (fst x)) c (inflate_block c hl hs)"
proof (cases "get_bit c")
  case (Inl e)
  then show ?thesis by (simp add: inflate_block_def returns_Some)
next
  case (Inr x)
  obtain c1 fin where g: "get_bit c = Inr (c1, fin)" using Inr by (cases x) simp
  have c1: "reads_some c c1" "reader_ok c1"
    using get_bit_reads [OF g] assms by (simp_all add: reads_some_def)
  show ?thesis
  proof (cases "get_bits c1 2")
    case (Inl e)
    with g show ?thesis by (simp add: inflate_block_def returns_Some)
  next
    case (Inr y)
    obtain c2 ty where y: "get_bits c1 2 = Inr (c2, ty)" using Inr by (cases y) simp
    have r2: "reads c1 c2" and c2: "reader_ok c2"
      using get_bits_reads [OF y] c1(2) by (simp_all add: reads_def)
    let ?m = "if ty = 0 then Some (uncompressed c2) else if ty = 1 then inflate c2 hl hs
        else if ty = 2 then decode_huffman c2 else Some (Inl ErrUnit)"
    have "returns reads c2 ?m"
      using inflate_returns [OF c2] decode_huffman_returns [OF c2]
      by (auto simp: returns_Some dest: uncompressed_reads)
    then obtain r where r: "?m = Some r" "\<forall>c3. r = Inr c3 \<longrightarrow> reads c2 c3" by (auto simp: returns_def)
    have "inflate_block c hl hs = obind ?m (\<lambda>c. Some (Inr (c, fin)))"
      using g y by (simp add: inflate_block_def)
    also have "\<dots> = obind (Some r) (\<lambda>c. Some (Inr (c, fin)))"
      by (simp only: r(1))
    finally show ?thesis
      using r(2) reads_trans(2) [OF c1(1) reads_trans(1) [OF r2]] by (cases r) (auto simp: returns_Some)
  qed
qed

lemma decompress_loop_returns: "reader_ok c \<Longrightarrow> returns (\<lambda>_ _. True) c (decompress_loop c hl hs)"
proof (induction "length (stream c)" arbitrary: c rule: less_induct)
  case less
  obtain r where r: "inflate_block c hl hs = Some r" "\<forall>x. r = Inr x \<longrightarrow> reads_some c (fst x)"
    using inflate_block_returns [OF less.prems] unfolding returns_def by blast
  show ?case
  proof (cases r)
    case (Inl e)
    with r show ?thesis by (subst decompress_loop.simps) (simp add: returns_Some)
  next
    case (Inr x)
    then have "reads_some c (fst x)" using r by simp
    then have "returns (\<lambda>_ _. True) (fst x) (decompress_loop (fst x) hl hs)"
      using less by (auto simp: reads_some_def)
    with r Inr show ?thesis
      by (subst decompress_loop.simps) (simp add: returns_def)
  qed
qed

text \<open>C34: decompression always returns. On every input the decompressor ends with data, an error or a
  panic: no input makes one of its loops run forever.\<close>

theorem uncompress_data_returns: "uncompress_data bytes \<noteq> None"
proof -
  have "decompress_loop (inflate_new body) hl hs \<noteq> None" for body hl hs
    using decompress_loop_returns [OF stream_new(2)] by (auto simp: returns_def)
  then have "decompress (inflate_new body) = None \<longleftrightarrow> False" for body
    by (auto simp: decompress_def obind_eq_None)
  then show ?thesis
    by (auto simp: uncompress_data_def obind_eq_None simp del: not_None_eq split: if_splits)
qed

section \<open>Decoding a stream of tokens\<close>

text \<open>
  What a DEFLATE encoder sends in a compressed block: literal bytes and copies, a copy as the symbols
  and the extra bits of its length and its distance.
\<close>

datatype token = Literal u8 | Copy (len_sym: nat) (len_extra: nat) (dist_sym: nat) (dist_extra: nat)

fun lsb_bits :: "nat \<Rightarrow> nat \<Rightarrow> bool list" where
  "lsb_bits 0 e = []"
| "lsb_bits (Suc n) e = odd e # lsb_bits n (e div 2)"

definition sym_ok :: "u8 list \<Rightarrow> nat \<Rightarrow> bool" where
  "sym_ok ls i \<longleftrightarrow> i < length ls \<and> ls ! i \<noteq> 0 \<and> canonical_code ls i < 2 ^ unat (ls ! i)"

fun token_ok :: "u8 list \<Rightarrow> u8 list \<Rightarrow> token \<Rightarrow> bool" where
  "token_ok ll dl (Literal b) \<longleftrightarrow> sym_ok ll (unat b)"
| "token_ok ll dl (Copy l le d de) \<longleftrightarrow> l < 29 \<and> sym_ok ll (257 + l) \<and> le < 2 ^ (length_bits ! l)
     \<and> d < 30 \<and> sym_ok dl d \<and> de < 2 ^ (dist_bits ! d)"

fun token_bits :: "u8 list \<Rightarrow> u8 list \<Rightarrow> token \<Rightarrow> bool list" where
  "token_bits ll dl (Literal b) = symbol_bits ll (unat b)"
| "token_bits ll dl (Copy l le d de) = symbol_bits ll (257 + l) @ lsb_bits (length_bits ! l) le
     @ symbol_bits dl d @ lsb_bits (dist_bits ! d) de"

fun token_out :: "token \<Rightarrow> u8 list \<Rightarrow> u8 list" where
  "token_out (Literal b) out = out @ [b]"
| "token_out (Copy l le d de) out =
     lz_copy 0 out (unat (length_base ! l) + le) (unat (dist_base ! d) + de)"

lemma length_lsb_bits [simp]: "length (lsb_bits n e) = n"
  by (induction n arbitrary: e) simp_all

lemma bits_val_lsb: "e < 2 ^ n \<Longrightarrow> bits_val (lsb_bits n e) = e"
proof (induction n arbitrary: e)
  case (Suc n)
  then have "bits_val (lsb_bits n (e div 2)) = e div 2"
    by (intro Suc.IH) auto
  then show ?case by simp
qed simp

lemma get_bits_base_stream:
  assumes "reader_ok c" "stream c = lsb_bits n e @ rest" "e < 2 ^ n" "n \<le> 13" "unat bas \<le> 32768"
  obtains c' v where "get_bits_base c n bas = Inr (c', v)" "unat v = unat bas + e" "stream c' = rest"
    "reader_ok c'" "same_output c c'"
proof (cases "n = 0")
  case True
  have "unat (ucast bas :: u32) = unat bas"
    using assms(5) by (simp add: unsigned_ucast_eq take_bit_nat_eq_self)
  with True assms show ?thesis
    by (intro that [of c "ucast bas"]) (simp_all add: get_bits_base_def)
next
  case False
  obtain c' v where g: "get_bits c n = Inr (c', v)" "unat v = e" "stream c' = rest" "reader_ok c'" "same_output c c'"
    using get_bits_stream [OF assms(1,2)] assms(3,4) bits_val_lsb by auto
  have "e < 2 ^ 13"
    using assms(3,4) power_increasing [of n 13 "2 :: nat"] by linarith
  moreover have "unat (ucast v :: usize) = e"
    using g(2) by (simp add: unat_ucast_up)
  ultimately have "unat (bas + ucast v) = unat bas + e"
    using assms(5) by (subst unat_add_no_wrap) simp_all
  then have "unat (ucast (bas + ucast v) :: u32) = unat bas + e"
    using assms(5) \<open>e < 2 ^ 13\<close> by (simp add: unsigned_ucast_eq take_bit_nat_eq_self)
  with g False show ?thesis
    by (intro that [of c' "ucast (bas + ucast v)"]) (simp_all add: get_bits_base_def)
qed

lemma table_lengths [simp]:
  "length length_bits = 30" "length length_base = 30" "length dist_bits = 30" "length dist_base = 30"
  by (simp_all add: length_bits_def length_base_def dist_bits_def dist_base_def)

lemma length_table: "l < 29 \<Longrightarrow> length_bits ! l \<le> 13 \<and> unat (length_base ! l) \<le> 32768"
proof -
  have "list_all (\<lambda>(n, x). n \<le> 13 \<and> unat x \<le> 32768) (take 29 (zip length_bits length_base))"
    by (simp add: length_bits_def length_base_def)
  then show "l < 29 \<Longrightarrow> ?thesis" by (auto simp: list_all_length dest: spec [of _ l])
qed

lemma dist_table:
  "d < 30 \<Longrightarrow> dist_bits ! d \<le> 13 \<and> 1 \<le> unat (dist_base ! d)
     \<and> unat (dist_base ! d) + 2 ^ (dist_bits ! d) \<le> 32769"
proof -
  have "list_all (\<lambda>(n, x). n \<le> 13 \<and> 1 \<le> unat x \<and> unat x + 2 ^ n \<le> 32769) (zip dist_bits dist_base)"
    by (simp add: dist_bits_def dist_base_def)
  then show "d < 30 \<Longrightarrow> ?thesis" by (auto simp: list_all_length dest: spec [of _ d])
qed

lemma ring_same: "same_output c c' \<Longrightarrow> ring_ok c' = ring_ok c"
  by (simp add: same_output_def ring_ok_def)

lemma decode_ok:
  assumes "table_for ls h" "lengths_ok ls" "sym_ok ls i" "reader_ok c" "stream c = symbol_bits ls i @ rest"
  obtains c' where "decode c h = Inr (c', of_nat i)" "stream c' = rest" "reader_ok c'" "same_output c c'"
  using decode_symbol [OF assms(1,2) _ _ _ assms(4,5)] assms(3) by (auto simp: sym_ok_def)

lemma emit_stream:
  assumes "ring_ok c"
  obtains c' where "emit c b = Inr c'" "ring_ok c'" "output_buf c' = output_buf c @ [b]"
    "stream c' = stream c" "reader_ok c' = reader_ok c"
proof -
  obtain c' where "emit c b = Inr c'" "ring_ok c'" "output_buf c' = output_buf c @ [b]"
    and "input_buf c' = input_buf c" "bit_index c' = bit_index c"
    using emit_ring [OF assms, of b] by blast
  with stream_cong [of c' c] show ?thesis by (intro that [of c']) simp_all
qed

lemma inflate_step_literal:
  assumes t: "table_for ll hl" "lengths_ok ll" "sym_ok ll (unat b)"
    and c: "reader_ok c" "ring_ok c" "stream c = symbol_bits ll (unat b) @ rest"
  obtains c' where "inflate_step c hl hs = Inr (c', False)" "stream c' = rest" "reader_ok c'" "ring_ok c'"
    "output_buf c' = output_buf c @ [b]"
proof -
  obtain c1 where c1: "decode c hl = Inr (c1, of_nat (unat b))" "stream c1 = rest" "reader_ok c1" "same_output c c1"
    by (rule decode_ok [OF t c(1,3)])
  have u: "unat (ucast b :: u32) = unat b"
    by (rule unat_ucast_up) simp
  have s: "(ucast b :: u32) < 256" "(ucast (ucast b :: u32) :: u8) = b"
  proof -
    show "(ucast b :: u32) < 256" using unat_u8_bound [of b] u by (simp add: word_less_nat_alt)
    have "unat (ucast (ucast b :: u32) :: u8) = unat b"
      using u unat_u8_bound [of b] by (subst unsigned_ucast_eq) (simp add: take_bit_nat_eq_self)
    then show "(ucast (ucast b :: u32) :: u8) = b" by (simp only: word_unat_eq_iff)
  qed
  have "ring_ok c1"
    using ring_same [OF c1(4)] c(2) by simp
  then obtain c2 where "emit c1 b = Inr c2" "ring_ok c2" "output_buf c2 = output_buf c1 @ [b]"
    "stream c2 = stream c1" "reader_ok c2 = reader_ok c1"
    by (rule emit_stream)
  with c1 s show ?thesis
    by (intro that [of c2]) (simp_all add: inflate_step_def same_output_def)
qed

lemma inflate_step_copy:
  assumes t: "table_for ll hl" "lengths_ok ll" "table_for dl hs" "lengths_ok dl"
    and ok: "token_ok ll dl (Copy l le d de)"
    and c: "reader_ok c" "ring_ok c" "stream c = token_bits ll dl (Copy l le d de) @ rest"
  obtains c' where "inflate_step c hl hs = Inr (c', False)" "stream c' = rest" "reader_ok c'" "ring_ok c'"
    "output_buf c' = token_out (Copy l le d de) (output_buf c)"
proof -
  have l: "l < 29" "sym_ok ll (257 + l)" "le < 2 ^ (length_bits ! l)"
    and d: "d < 30" "sym_ok dl d" "de < 2 ^ (dist_bits ! d)"
    using ok by simp_all
  note lt = length_table [OF l(1)] and dt = dist_table [OF d(1)]
  obtain c1 where c1: "decode c hl = Inr (c1, of_nat (257 + l))" "reader_ok c1" "same_output c c1"
    "stream c1 = lsb_bits (length_bits ! l) le @ symbol_bits dl d @ lsb_bits (dist_bits ! d) de @ rest"
    using decode_ok [OF t(1,2) l(2) c(1)] c(3) by auto
  obtain c2 len where c2: "get_bits_base c1 (length_bits ! l) (length_base ! l) = Inr (c2, len)"
    "unat len = unat (length_base ! l) + le" "reader_ok c2" "same_output c1 c2"
    "stream c2 = symbol_bits dl d @ lsb_bits (dist_bits ! d) de @ rest"
    using get_bits_base_stream [OF c1(2,4) l(3)] lt by blast
  obtain c3 where c3: "decode c2 hs = Inr (c3, of_nat d)" "reader_ok c3" "same_output c2 c3"
    "stream c3 = lsb_bits (dist_bits ! d) de @ rest"
    by (rule decode_ok [OF t(3,4) d(2) c2(3,5)])
  obtain c4 off where c4: "get_bits_base c3 (dist_bits ! d) (dist_base ! d) = Inr (c4, off)"
    "unat off = unat (dist_base ! d) + de" "reader_ok c4" "same_output c3 c4" "stream c4 = rest"
  proof (rule get_bits_base_stream [OF c3(2,4) d(3)])
    have "(1::nat) \<le> 2 ^ (dist_bits ! d)" by simp
    then show "dist_bits ! d \<le> 13" "unat (dist_base ! d) \<le> 32768" using dt by linarith+
  qed
  have same: "same_output c c4"
    using c1(3) c2(4) c3(3) c4(4) same_output_trans by blast
  have off: "(ucast off :: usize) = of_nat (unat (dist_base ! d) + de)"
  proof -
    have "of_nat (unat off) = (ucast off :: usize)" by simp
    with c4(2) show ?thesis by metis
  qed
  have bounds: "1 \<le> unat (dist_base ! d) + de" "unat (dist_base ! d) + de \<le> 32768"
    using dt d(3) by linarith+
  have "ring_ok c4"
    using ring_same [OF same] c(2) by simp
  from copy_match_lz [OF this bounds] obtain c5 where
    c5: "copy_match c4 (unat len) (ucast off) = Inr c5" "ring_ok c5"
    "output_buf c5 = lz_copy 0 (output_buf c4) (unat len) (unat (dist_base ! d) + de)"
    "input_buf c5 = input_buf c4" "bit_index c5 = bit_index c4"
    unfolding off by blast
  have sym: "\<not> (of_nat (257 + l) :: u32) < 256" "(of_nat (257 + l) :: u32) \<noteq> 256"
    "unat ((of_nat (257 + l) :: u32) - 257) = l" and du: "unat (of_nat d :: u32) = d"
  proof -
    have u: "unat (of_nat (257 + l) :: u32) = 257 + l" using l(1) by (simp only: unat_of_nat) simp
    then show "\<not> (of_nat (257 + l) :: u32) < 256" by (simp only: word_less_nat_alt) simp
    show "(of_nat (257 + l) :: u32) \<noteq> 256"
    proof
      assume "(of_nat (257 + l) :: u32) = 256"
      with u have "unat (256 :: u32) = 257 + l" by metis
      then show False by simp
    qed
    have "(of_nat (257 + l) :: u32) - 257 = of_nat l" by simp
    then show "unat ((of_nat (257 + l) :: u32) - 257) = l"
      using l(1) by (simp only: unat_of_nat) simp
    show "unat (of_nat d :: u32) = d"
      using d(1) by (simp only: unat_of_nat) simp
  qed
  have "inflate_step c hl hs = Inr (c5, False)"
    unfolding inflate_step_def Let_def
    by (simp only: c1(1) rbind_Inr prod.case sym if_False index_res_ok table_lengths l(1) d(1) du c2(1) c3(1) c4(1) c5(1)
        less_trans [OF l(1)])
  then show ?thesis
    using c5 c4 c2(2) same stream_cong [OF c5(4,5)] by (intro that [of c5]) (simp_all add: same_output_def)
qed

lemma inflate_step_token:
  assumes t: "table_for ll hl" "lengths_ok ll" "table_for dl hs" "lengths_ok dl"
    and ok: "token_ok ll dl tk"
    and c: "reader_ok c" "ring_ok c" "stream c = token_bits ll dl tk @ rest"
  obtains c' where "inflate_step c hl hs = Inr (c', False)" "stream c' = rest" "reader_ok c'" "ring_ok c'"
    "output_buf c' = token_out tk (output_buf c)"
proof (cases tk)
  case (Literal b)
  with assms show ?thesis
    using inflate_step_literal [OF t(1,2) _ c(1,2), of b rest hs] that by auto
next
  case (Copy l le d de)
  show ?thesis
    using inflate_step_copy [OF t ok [unfolded Copy] c(1,2) c(3) [unfolded Copy]] that Copy by metis
qed

lemma inflate_tokens_run:
  assumes t: "table_for ll hl" "lengths_ok ll" "table_for dl hs" "lengths_ok dl"
    and ok: "list_all (token_ok ll dl) ts" "sym_ok ll 256"
    and c: "reader_ok c" "ring_ok c" "stream c = concat (map (token_bits ll dl) ts) @ symbol_bits ll 256 @ rest"
  shows "\<exists>c'. inflate c hl hs = Some (Inr c') \<and> stream c' = rest \<and> reader_ok c' \<and> ring_ok c'
    \<and> output_buf c' = fold token_out ts (output_buf c)"
  using ok(1) c
proof (induction ts arbitrary: c)
  case Nil
  obtain c1 where c1: "decode c hl = Inr (c1, of_nat 256)" "stream c1 = rest" "reader_ok c1" "same_output c c1"
    using decode_ok [OF t(1,2) ok(2) Nil(2)] Nil(4) by auto
  then have "inflate c hl hs = Some (Inr c1)"
    by (subst inflate.simps) (simp add: inflate_step_def)
  with c1 Nil ring_same [OF c1(4)] show ?case
    by (simp add: same_output_def)
next
  case (Cons tk ts)
  have st: "stream c = token_bits ll dl tk @ concat (map (token_bits ll dl) ts) @ symbol_bits ll 256 @ rest"
    and tk: "token_ok ll dl tk"
    using Cons.prems by simp_all
  obtain c1 where c1: "inflate_step c hl hs = Inr (c1, False)"
    "stream c1 = concat (map (token_bits ll dl) ts) @ symbol_bits ll 256 @ rest"
    "reader_ok c1" "ring_ok c1" "output_buf c1 = token_out tk (output_buf c)"
    by (rule inflate_step_token [OF t tk Cons.prems(2,3) st])
  from c1(1) have "inflate c hl hs = inflate c1 hl hs"
    by (subst inflate.simps) simp
  with Cons.IH [OF _ c1(3,4,2)] Cons.prems(1) c1(5) show ?case by simp
qed

text \<open>C2: the block decoder implements LZ77. For any two tables built from code lengths and any
  sequence of literals and copies whose symbols have codes, followed by the end-of-block symbol, \<^verbatim>\<open>inflate\<close> returns
  successfully, consumes exactly those bits, and appends to the output what the sequence stands
  for, with copies that may overlap their source; the ring agrees with the output again.\<close>

theorem inflate_decodes_tokens:
  assumes "build_huffman ll (length ll) huff_zero = Inr hl" and "lengths_ok ll"
    and "build_huffman dl (length dl) huff_zero = Inr hs" and "lengths_ok dl"
    and "list_all (token_ok ll dl) ts" and "sym_ok ll 256"
    and "reader_ok c" and "ring_ok c"
    and "stream c = concat (map (token_bits ll dl) ts) @ symbol_bits ll 256 @ rest"
  shows "\<exists>c'. inflate c hl hs = Some (Inr c') \<and> stream c' = rest
    \<and> output_buf c' = fold token_out ts (output_buf c) \<and> ring_ok c'"
proof -
  have z: "length (symbols huff_zero) = 288"
    by (simp add: huff_zero_def)
  have "table_for ll hl" "table_for dl hs"
    using build_huffman_table [of "length ll" ll huff_zero] build_huffman_table [of "length dl" dl huff_zero] assms(1-4) z
    by auto
  with inflate_tokens_run [OF _ assms(2) _ assms(4-9)] show ?thesis by blast
qed

section \<open>The fixed tables\<close>

definition fixed_dists :: "u8 list" where
  "fixed_dists = replicate 30 5"

lemma len_count_replicate [simp]: "len_count (replicate n x) k = (if unat x = k then n else 0)"
  by (simp add: len_count_def)

lemma fixed_counts: "len_count fixed_lengths k = (if k = 7 then 24 else if k = 8 then 152 else if k = 9 then 112 else 0)"
  by (simp add: fixed_lengths_def)

lemma fixed_first: "first_code fixed_lengths 7 = 0" "first_code fixed_lengths 8 = 48" "first_code fixed_lengths 9 = 400"
  by (simp_all add: eval_nat_numeral bl_count_def fixed_counts)

lemma length_fixed [simp]: "length fixed_lengths = 288" "length fixed_dists = 30"
  by (simp_all add: fixed_lengths_def fixed_dists_def)

lemma fixed_ok: "lengths_ok fixed_lengths" "lengths_ok fixed_dists"
  by (simp_all add: lengths_ok_def fixed_dists_def list_all_iff) (simp add: fixed_lengths_def)

lemma sym_okI:
  assumes "i < length ls" "ls ! i \<noteq> 0" "first_code ls (unat (ls ! i)) + len_count ls (unat (ls ! i)) \<le> 2 ^ unat (ls ! i)"
  shows "sym_ok ls i"
  using assms code_rank_less [OF assms(1)] by (simp add: sym_ok_def canonical_code_def)

lemma fixed_sym_ok: "i < 288 \<Longrightarrow> sym_ok fixed_lengths i"
proof (rule sym_okI)
  assume "i < 288"
  then have "fixed_lengths ! i \<in> set fixed_lengths" by (intro nth_mem) simp
  then have cases: "fixed_lengths ! i = 7 \<or> fixed_lengths ! i = 8 \<or> fixed_lengths ! i = 9"
    by (auto simp: fixed_lengths_def)
  show "i < length fixed_lengths" using \<open>i < 288\<close> by simp
  show "fixed_lengths ! i \<noteq> 0" using cases by auto
  show "first_code fixed_lengths (unat (fixed_lengths ! i)) + len_count fixed_lengths (unat (fixed_lengths ! i))
      \<le> 2 ^ unat (fixed_lengths ! i)"
    using cases by (elim disjE) (simp_all add: fixed_counts fixed_first)
qed

lemma fixed_dist_counts: "len_count fixed_dists k = (if k = 5 then 30 else 0)" "first_code fixed_dists 5 = 0"
proof -
  show c: "len_count fixed_dists k = (if k = 5 then 30 else 0)" for k
    unfolding fixed_dists_def by (subst len_count_replicate) simp
  show "first_code fixed_dists 5 = 0"
    by (simp add: eval_nat_numeral bl_count_def c)
qed

lemma fixed_dist_ok: "d < 30 \<Longrightarrow> sym_ok fixed_dists d"
proof (rule sym_okI)
  assume "d < 30"
  then show "d < length fixed_dists" by simp
  have d: "fixed_dists ! d = 5"
    unfolding fixed_dists_def using \<open>d < 30\<close> by (rule nth_replicate)
  then show "fixed_dists ! d \<noteq> 0" by simp
  show "first_code fixed_dists (unat (fixed_dists ! d)) + len_count fixed_dists (unat (fixed_dists ! d))
      \<le> 2 ^ unat (fixed_dists ! d)"
    by (simp add: d fixed_dist_counts)
qed

lemma build_fixed_tables:
  obtains hl hs where "build_fixed huff_zero huff_zero = Inr (hl, hs)" "table_for fixed_lengths hl"
    "table_for fixed_dists hs"
proof -
  let ?ds = "replicate 30 5 @ drop 30 fixed_lengths"
  have z: "length (symbols huff_zero) = 288" by (simp add: huff_zero_def)
  have ds: "take 30 ?ds = fixed_dists" "take 288 fixed_lengths = fixed_lengths"
    by (simp_all add: fixed_dists_def)
  obtain hl where hl: "build_huffman fixed_lengths 288 huff_zero = Inr hl" "table_for fixed_lengths hl"
    using build_huffman_table [of 288 fixed_lengths huff_zero] z fixed_ok(1) ds by auto
  obtain hs where hs: "build_huffman ?ds 30 huff_zero = Inr hs" "table_for fixed_dists hs"
  proof (rule build_huffman_table [of 30 ?ds huff_zero])
    show "lengths_ok (take 30 ?ds)" using fixed_ok(2) ds(1) by simp
  qed (simp_all only: ds z, simp_all)
  from hl hs show ?thesis
    by (intro that [of hl hs]) (simp_all add: build_fixed_def)
qed

section \<open>A reference encoder\<close>

text \<open>Bits into bytes, the first bit lowest, the last byte padded with zeros.\<close>

function pack :: "bool list \<Rightarrow> u8 list" where
  "pack bs = (if bs = [] then [] else of_nat (bits_val (take 8 bs)) # pack (drop 8 bs))"
  by pat_completeness auto
termination
  by (relation "measure length") auto

declare pack.simps [simp del]

text \<open>A zlib stream of one final block with the fixed tables.\<close>

definition fixed_block :: "token list \<Rightarrow> bool list" where
  "fixed_block ts = [True, True, False] @ concat (map (token_bits fixed_lengths fixed_dists) ts)
     @ symbol_bits fixed_lengths 256"

definition token_data :: "token list \<Rightarrow> u8 list" where
  "token_data ts = fold token_out ts []"

definition zlib_encode :: "token list \<Rightarrow> u8 list" where
  "zlib_encode ts = [0x78, 0x01] @ pack (fixed_block ts) @ to_le 4 (unat (adler32 (token_data ts)))"

lemma bit_bits_val: "bit (bits_val bs) i \<longleftrightarrow> i < length bs \<and> bs ! i"
proof (induction bs arbitrary: i)
  case (Cons b bs)
  show ?case
  proof (cases i)
    case (Suc j)
    have "bit (of_bool b + 2 * bits_val bs) (Suc j) = bit (bits_val bs) j"
      by (simp add: bit_Suc)
    with Suc Cons show ?thesis by simp
  qed (simp add: bit_0)
qed simp

lemma byte_bits_pack: "length bs \<le> 8 \<Longrightarrow> byte_bits (of_nat (bits_val bs)) = bs @ replicate (8 - length bs) False"
  by (rule nth_equalityI) (auto simp: byte_bits_def bit_of_nat_iff bit_bits_val nth_append)

lemma pack_bits: "\<exists>n. concat (map byte_bits (pack bs)) = bs @ replicate n False"
proof (induction bs rule: pack.induct)
  case (1 bs)
  show ?case
  proof (cases "bs = []")
    case True
    then show ?thesis by (subst pack.simps) simp
  next
    case False
    with 1 obtain n where n: "concat (map byte_bits (pack (drop 8 bs))) = drop 8 bs @ replicate n False" by blast
    have p: "concat (map byte_bits (pack bs))
        = take 8 bs @ replicate (8 - length (take 8 bs)) False @ drop 8 bs @ replicate n False"
      using False n byte_bits_pack [of "take 8 bs"] by (subst pack.simps) simp
    show ?thesis
    proof (cases "8 \<le> length bs")
      case True
      then have "concat (map byte_bits (pack bs)) = (take 8 bs @ drop 8 bs) @ replicate n False"
        using p by simp
      then show ?thesis by (intro exI [of _ n]) simp
    next
      case False
      with p have "concat (map byte_bits (pack bs)) = bs @ replicate (8 - length bs) False @ replicate n False"
        by simp
      then show ?thesis by (metis replicate_add)
    qed
  qed
qed

theorem inflate_decodes_tokens_witness:
  "\<exists>hl hs c'. inflate (inflate_new (pack (drop 3 (fixed_block [Literal 97, Copy 0 0 0 0])))) hl hs = Some (Inr c')
     \<and> output_buf c' = [97, 97, 97, 97] \<and> ring_ok c'"
proof -
  let ?ts = "[Literal 97, Copy 0 0 0 0]"
  have z: "length (symbols huff_zero) = 288" by (simp add: huff_zero_def)
  obtain hl where hl: "build_huffman fixed_lengths (length fixed_lengths) huff_zero = Inr hl"
    using build_huffman_table [of "length fixed_lengths" fixed_lengths huff_zero] z fixed_ok(1) by auto
  obtain hs where hs: "build_huffman fixed_dists (length fixed_dists) huff_zero = Inr hs"
    using build_huffman_table [of "length fixed_dists" fixed_dists huff_zero] z fixed_ok(2) by auto
  let ?c = "inflate_new (pack (drop 3 (fixed_block ?ts)))"
  obtain n where "stream ?c = drop 3 (fixed_block ?ts) @ replicate n False"
    using pack_bits stream_new(1) by metis
  then have st: "stream ?c = concat (map (token_bits fixed_lengths fixed_dists) ?ts)
      @ symbol_bits fixed_lengths 256 @ replicate n False"
    by (simp add: fixed_block_def)
  have ok: "list_all (token_ok fixed_lengths fixed_dists) ?ts" "sym_ok fixed_lengths 256"
    using fixed_sym_ok fixed_dist_ok by simp_all
  have out: "fold token_out ?ts (output_buf ?c) = [97, 97, 97, 97]"
    by (simp add: inflate_new_def length_base_def dist_base_def) (simp add: hist_at_def numeral_3_eq_3)
  from inflate_decodes_tokens [OF hl fixed_ok(1) hs fixed_ok(2) ok stream_new(2) ring_new st]
  show ?thesis unfolding out by blast
qed

section \<open>Round trip\<close>

lemma output_new: "output_buf (inflate_new bs) = []"
  by (simp add: inflate_new_def)

lemma decompress_fixed:
  assumes "list_all (token_ok fixed_lengths fixed_dists) ts"
  shows "decompress (inflate_new (pack (fixed_block ts))) = Some (Inr (token_data ts))"
proof -
  let ?c = "inflate_new (pack (fixed_block ts))"
  let ?rest = "concat (map (token_bits fixed_lengths fixed_dists) ts) @ symbol_bits fixed_lengths 256"
  obtain n where "stream ?c = fixed_block ts @ replicate n False"
    using pack_bits stream_new(1) by metis
  then have st: "stream ?c = True # [True, False] @ ?rest @ replicate n False"
    by (simp add: fixed_block_def)
  obtain hl hs where h: "build_fixed huff_zero huff_zero = Inr (hl, hs)" "table_for fixed_lengths hl"
    "table_for fixed_dists hs" by (rule build_fixed_tables)
  obtain c1 where c1: "get_bit ?c = Inr (c1, True)" "stream c1 = [True, False] @ ?rest @ replicate n False"
    "reader_ok c1" "same_output ?c c1"
    by (rule get_bit_Cons [OF stream_new(2) st])
  obtain c2 ty where c2: "get_bits c1 (length [True, False]) = Inr (c2, ty)" "unat ty = bits_val [True, False]"
    "stream c2 = ?rest @ replicate n False" "reader_ok c2" "same_output c1 c2"
    by (rule get_bits_stream [OF c1(3,2)]) simp_all
  have ty: "ty = 1"
    using c2(2) by (simp add: word_unat_eq_iff)
  have same: "same_output ?c c2"
    by (rule same_output_trans [OF c1(4) c2(5)])
  obtain c3 where "inflate c2 hl hs = Some (Inr c3)" "output_buf c3 = fold token_out ts (output_buf c2)"
    using inflate_tokens_run [OF h(2) fixed_ok(1) h(3) fixed_ok(2) assms fixed_sym_ok c2(4)] ring_same [OF same]
      ring_new c2(3) by auto
  moreover have "get_bits c1 2 = Inr (c2, 1)"
    using c2(1) ty by (simp add: numeral_2_eq_2)
  moreover have "output_buf c2 = []"
    using same by (simp add: same_output_def output_new)
  ultimately have "inflate_block ?c hl hs = Some (Inr (c3, True))" "output_buf c3 = token_data ts"
    using c1(1) by (simp_all add: inflate_block_def token_data_def)
  then show ?thesis
    by (simp add: decompress_def h(1) decompress_loop.simps)
qed

lemma zlib_run:
  assumes "list_all (token_ok fixed_lengths fixed_dists) ts"
  shows "uncompress_data (zlib_encode ts) = Some (Inr (token_data ts))"
proof -
  let ?body = "pack (fixed_block ts)"
  let ?tail = "to_le 4 (unat (adler32 (token_data ts)))"
  let ?bytes = "[0x78, 0x01] @ ?body @ ?tail"
  have len: "length ?bytes = 2 + length ?body + 4" "length ?bytes - 4 = 2 + length ?body" by simp_all
  have body: "slice_res ?bytes 2 (length ?bytes - 4) = Inr ?body"
    by (simp add: slice_res_def)
  have "le_field ?bytes (length ([0x78, 0x01] @ ?body)) (length ([0x78, 0x01] @ ?body) + 4) = Inr (adler32 (token_data ts))"
    by (rule le_field_written [of 4 _ _ _ "[]"]) simp_all
  then have sum: "le_field ?bytes (length ?bytes - 4) (length ?bytes) = Inr (adler32 (token_data ts))"
    by simp
  have head: "index_res ?bytes 0 = Inr 0x78" "index_res ?bytes 1 = Inr 0x01" "rassert (length ?bytes > 2) = Inr ()"
    by simp_all
  have checks: "(0x78 :: u8) AND 0x0F = 0x08" "drop_bit 4 (0x78 :: u8) AND 0x0F = 7"
    "((ucast (0x78 :: u8) :: u32) * 256 + ucast (0x01 :: u8)) mod 31 = 0"
    "drop_bit 5 (0x01 :: u8) AND 0x01 = 0" "zlib_level (drop_bit 6 0x01 AND 0x03) = Inr Fastest"
    by code_simp+
  show ?thesis
    unfolding uncompress_data_def zlib_encode_def head obind_simps checks body decompress_fixed [OF assms] sum
    by simp
qed

text \<open>C1: decompression inverts the encoder. For every sequence of literals and copies (with symbols and
  extra bits in range), the zlib stream that encodes it with the fixed tables is accepted, and the
  result is the data the sequence stands for: header checks, block header, Huffman
  tables, window and checksum all agree.\<close>

theorem uncompress_zlib_encode:
  assumes "list_all (token_ok fixed_lengths fixed_dists) ts"
  shows "uncompress_data (zlib_encode ts) = Some (Inr (token_data ts))"
  by (rule zlib_run [OF assms])

theorem uncompress_zlib_encode_witness:
  "uncompress_data (zlib_encode [Literal 97, Copy 0 0 0 0]) = Some (Inr [97, 97, 97, 97])"
proof -
  have ok: "list_all (token_ok fixed_lengths fixed_dists) [Literal 97, Copy 0 0 0 0]"
    using fixed_sym_ok fixed_dist_ok by simp
  have "token_data [Literal 97, Copy 0 0 0 0] = [97, 97, 97, 97]"
    by (simp add: token_data_def length_base_def dist_base_def) (simp add: hist_at_def numeral_3_eq_3)
  with uncompress_zlib_encode [OF ok] show ?thesis by simp
qed

section \<open>The checksum\<close>

text \<open>Adler-32 as RFC 1950 defines it: \<open>s1\<close> is 1 plus the sum of the bytes, \<open>s2\<close> the sum of all values of \<open>s1\<close>.\<close>

fun s1_total :: "nat \<Rightarrow> u8 list \<Rightarrow> nat" where
  "s1_total a [] = 0"
| "s1_total a (x # xs) = (a + unat x) + s1_total (a + unat x) xs"

definition adler_ref :: "u8 list \<Rightarrow> nat" where
  "adler_ref bs = s1_total 1 bs mod 65521 * 65536 + (1 + sum_list (map unat bs)) mod 65521"

lemma adler_step:
  fixes x y :: u32
  assumes "unat x < 65521" "unat y < 65536"
  shows "unat ((x + y) mod 65521) = (unat x + unat y) mod 65521"
proof -
  have "unat (x + y) = unat x + unat y"
    using assms by (intro unat_add_no_wrap) simp
  then show ?thesis by (simp add: unat_mod_distrib)
qed

lemma adler32_loop_ref:
  assumes "unat a = a0 mod 65521" "unat b = b0 mod 65521" "adler32_loop a b bs = (a', b')"
  shows "unat a' = (a0 + sum_list (map unat bs)) mod 65521" and "unat b' = (b0 + s1_total a0 bs) mod 65521"
proof -
  have "unat a' = (a0 + sum_list (map unat bs)) mod 65521 \<and> unat b' = (b0 + s1_total a0 bs) mod 65521"
    using assms
  proof (induction bs arbitrary: a b a0 b0)
    case (Cons x bs)
    let ?a = "(a + ucast x) mod 65521"
    have ux: "unat (ucast x :: u32) = unat x"
      by (rule unat_ucast_up) simp
    have a: "unat ?a = (a0 + unat x) mod 65521"
      using adler_step [of a "ucast x"] Cons.prems(1) unat_u8_bound [of x] ux by (simp add: mod_add_left_eq)
    have "unat ((b + ?a) mod 65521) = (unat b + unat ?a) mod 65521"
      using Cons.prems(2) a by (intro adler_step) (simp_all add: less_imp_le)
    then have b: "unat ((b + ?a) mod 65521) = (b0 + (a0 + unat x)) mod 65521"
      using Cons.prems(2) a by (simp add: mod_add_eq)
    from Cons.IH [OF a b] Cons.prems(3) show ?case
      by (simp add: Let_def add.assoc)
  qed simp
  then show "unat a' = (a0 + sum_list (map unat bs)) mod 65521" "unat b' = (b0 + s1_total a0 bs) mod 65521"
    by simp_all
qed

lemma join_halves:
  fixes a b :: u32
  assumes "unat a < 2 ^ 16" "unat b < 2 ^ 16"
  shows "unat (push_bit 16 b OR a) = unat b * 65536 + unat a"
proof -
  have "take_bit 16 a = a"
    using assms(1) by (simp add: word_unat_eq_iff unat_take_bit)
  then have high: "\<not> bit a n" if "16 \<le> n" for n
    using that by (metis bit_take_bit_iff leD)
  have "push_bit 16 b AND a = 0"
    by (rule bit_word_eqI) (auto simp: bit_simps high)
  then have "push_bit 16 b OR a = push_bit 16 b + a"
    by (simp add: disjunctive_add_eq_or)
  moreover have "unat (push_bit 16 b) = unat b * 65536"
    using assms(2) by (simp add: push_bit_eq_mult unat_word_ariths)
  moreover from this have "unat (push_bit 16 b + a) = unat (push_bit 16 b) + unat a"
    using assms by (intro unat_add_no_wrap) simp
  ultimately show ?thesis by simp
qed

lemma adler32_ref: "adler32 bs = swap_bytes32 (of_nat (adler_ref bs))" "adler_ref bs < 2 ^ 32"
proof -
  obtain a b where ab: "adler32_loop 1 0 bs = (a, b)" by fastforce
  have r: "unat a = (1 + sum_list (map unat bs)) mod 65521" "unat b = s1_total 1 bs mod 65521"
    using adler32_loop_ref [OF _ _ ab, of 1 0] by simp_all
  then have bound: "unat a < 2 ^ 16" "unat b < 2 ^ 16" by simp_all
  from join_halves [OF this] r have u: "unat (push_bit 16 b OR a) = adler_ref bs"
    by (simp add: adler_ref_def)
  then have "push_bit 16 b OR a = of_nat (adler_ref bs)"
    by (metis of_nat_unat ucast_id)
  then show "adler32 bs = swap_bytes32 (of_nat (adler_ref bs))"
    by (simp add: adler32_def ab)
  show "adler_ref bs < 2 ^ 32"
    using u unsigned_less [of "push_bit 16 b OR a", where 'a = nat] by simp
qed

lemma swap_bytes32_eq:
  assumes "n < 2 ^ 32" "length bs = 4" "swap_bytes32 (of_nat n) = of_nat (le_val bs)"
  shows "le_val (rev bs) = n"
proof -
  let ?x = "rev (to_le 4 n)"
  have "unat (of_nat n :: u32) = n"
    using assms(1) by (simp only: unat_of_nat) simp
  with assms(3) have "(of_nat (le_val ?x) :: u32) = of_nat (le_val bs)"
    by (simp add: swap_bytes32_def)
  then have "unat (of_nat (le_val ?x) :: u32) = unat (of_nat (le_val bs) :: u32)" by simp
  moreover have "le_val ?x < 2 ^ 32" "le_val bs < 2 ^ 32"
    using le_val_bound [of ?x] le_val_bound [of bs] assms(2) by simp_all
  ultimately have "le_val ?x = le_val bs"
    by (simp only: unat_of_nat) simp
  then have "?x = bs"
    using assms(2) by (intro le_val_inj) simp_all
  then have "rev bs = to_le 4 n" by (metis rev_rev_ident)
  then show ?thesis
    using assms(1) by (simp add: le_val_to_le)
qed

text \<open>C35: no data is returned whose checksum is wrong. Whenever decompression succeeds, the last four
  bytes of the input, read in network byte order, are the Adler-32 checksum of the returned data, as RFC 1950
  defines it.\<close>

theorem uncompress_checks_adler:
  assumes "uncompress_data bytes = Some (Inr data)"
  shows "le_val (rev (drop (length bytes - 4) bytes)) = adler_ref data"
proof -
  from assms have len: "4 \<le> length bytes" and eq: "adler32 data = of_nat (le_val (drop (length bytes - 4) bytes))"
    by (auto simp: uncompress_data_def obind_eq_ok le_field_eq_Inr slice_res_eq_Inr split: if_splits)
  from len have "length (drop (length bytes - 4) bytes) = 4" by simp
  with eq adler32_ref [of data] show ?thesis
    by (intro swap_bytes32_eq) simp_all
qed

theorem uncompress_checks_adler_witness:
  "le_val (rev (drop (length (zlib_encode [Literal 97]) - 4) (zlib_encode [Literal 97]))) = 98 * 65536 + 98"
proof -
  have "list_all (token_ok fixed_lengths fixed_dists) [Literal 97]"
    using fixed_sym_ok by simp
  then have "uncompress_data (zlib_encode [Literal 97]) = Some (Inr (token_data [Literal 97]))"
    by (rule zlib_run)
  from uncompress_checks_adler [OF this] show ?thesis
    by (simp add: token_data_def adler_ref_def)
qed

section \<open>Stored blocks\<close>

text \<open>Stored blocks are read from the wrong bit. RFC 1951 puts the length of a stored block at the next byte
  boundary; \<^verbatim>\<open>uncompressed\<close> reads it right after the three header bits. The stream that
  zlib writes at level 0 for the one byte \<open>a\<close> is rejected.\<close>

theorem stored_block_rejected:
  "uncompress_data [0x78, 0x01, 0x01, 0x01, 0x00, 0xFE, 0xFF, 0x61, 0x00, 0x62, 0x00, 0x62] = Some (Inl ErrUnit)"
proof -
  let ?body = "[0x01, 0x01, 0x00, 0xFE, 0xFF, 0x61] :: u8 list"
  let ?c = "inflate_new ?body"
  define l1 where "l1 = replicate 5 False @ [True] @ replicate 10 False"
  define l2 where "l2 = replicate 6 False @ replicate 10 True"
  define rest where "rest = drop 35 (concat (map byte_bits ?body))"
  have "concat (map byte_bits ?body) = True # [False, False] @ (replicate 5 False @ [True] @ replicate 10 False)
      @ (replicate 6 False @ replicate 10 True) @ drop 35 (concat (map byte_bits ?body))"
    by code_simp
  then have st: "stream ?c = True # [False, False] @ l1 @ l2 @ rest"
    unfolding l1_def l2_def rest_def by (simp only: stream_new)
  obtain hl hs where h: "build_fixed huff_zero huff_zero = Inr (hl, hs)"
    by (rule build_fixed_tables)
  obtain c1 where c1: "get_bit ?c = Inr (c1, True)" "stream c1 = [False, False] @ l1 @ l2 @ rest" "reader_ok c1"
    by (rule get_bit_Cons [OF stream_new(2) st])
  obtain c2 ty where c2: "get_bits c1 (length [False, False]) = Inr (c2, ty)" "unat ty = bits_val [False, False]"
    "stream c2 = l1 @ l2 @ rest" "reader_ok c2"
    by (rule get_bits_stream [OF c1(3,2)]) simp_all
  obtain c3 v where c3: "get_bits c2 (length l1) = Inr (c3, v)" "unat v = bits_val l1" "stream c3 = l2 @ rest" "reader_ok c3"
    by (rule get_bits_stream [OF c2(4,3)]) (simp_all add: l1_def)
  obtain c4 w where c4: "get_bits c3 (length l2) = Inr (c4, w)" "unat w = bits_val l2"
    by (rule get_bits_stream [OF c3(4,3)]) (simp_all add: l2_def)
  have vals: "bits_val l1 = 32" "bits_val l2 = 65472"
  proof -
    have "l1 = [False, False, False, False, False, True, False, False, False, False, False, False, False, False, False, False]"
      "l2 = [False, False, False, False, False, False, True, True, True, True, True, True, True, True, True, True]"
      unfolding l1_def l2_def by code_simp+
    then show "bits_val l1 = 32" "bits_val l2 = 65472" by simp_all
  qed
  have "ty = 0" "v = 32" "w = 65472"
    using c2(2) c3(2) c4(2) vals by (simp_all add: word_unat_eq_iff)
  with c2(1) c3(1) c4(1) have "get_bits c1 2 = Inr (c2, 0)" "get_bits c2 16 = Inr (c3, 32)"
    "get_bits c3 16 = Inr (c4, 65472)"
    by (simp_all add: l1_def l2_def numeral_2_eq_2)
  moreover from this have "uncompressed c2 = Inl ErrUnit"
    by (simp add: uncompressed_def)
  ultimately have "get_bits c1 2 = Inr (c2, 0)" "uncompressed c2 = Inl ErrUnit" by simp_all
  with c1(1) have "inflate_block ?c hl hs = Some (Inl ErrUnit)"
    by (simp add: inflate_block_def)
  then have d: "decompress ?c = Some (Inl ErrUnit)"
    by (simp add: decompress_def h decompress_loop.simps)
  have checks: "(0x78 :: u8) AND 0x0F = 0x08" "drop_bit 4 (0x78 :: u8) AND 0x0F = 7"
    "((ucast (0x78 :: u8) :: u32) * 256 + ucast (0x01 :: u8)) mod 31 = 0"
    "drop_bit 5 (0x01 :: u8) AND 0x01 = 0" "zlib_level (drop_bit 6 0x01 AND 0x03) = Inr Fastest"
    by code_simp+
  show ?thesis
    using d checks by (simp add: uncompress_data_def slice_res_def)
qed

end
