(* ===== verification/Utf.thy ===== *)
theory Utf
  imports Prelude
begin

text \<open>
  Text as the standard library sees it: a string is its list of Unicode code points, \<^verbatim>\<open>from_utf8\<close> and
  \<^verbatim>\<open>String::from_utf16\<close> decode byte and \<^verbatim>\<open>u16\<close> slices strictly, \<^verbatim>\<open>trim_end\<close> removes white space.
  Upper-casing depends on the Unicode tables and is an argument of the code that uses it.
\<close>

type_synonym utext = "nat list"

definition cont_byte :: "u8 \<Rightarrow> bool" where
  "cont_byte b \<longleftrightarrow> 0x80 \<le> b \<and> b \<le> 0xBF"

definition cont_bits :: "u8 \<Rightarrow> nat" where
  "cont_bits b = unat b mod 64"

text \<open>Well-formed UTF-8: no overlong forms, no surrogates, nothing above \<open>0x10FFFF\<close>.\<close>

fun utf8_decode :: "u8 list \<Rightarrow> utext option" where
  "utf8_decode [] = Some []"
| "utf8_decode (b0 # bs) =
     (if b0 < 0x80 then map_option (Cons (unat b0)) (utf8_decode bs)
      else if 0xC2 \<le> b0 \<and> b0 \<le> 0xDF then
        (case bs of
           b1 # bs1 \<Rightarrow>
             if cont_byte b1
             then map_option (Cons ((unat b0 - 0xC0) * 64 + cont_bits b1)) (utf8_decode bs1)
             else None
         | _ \<Rightarrow> None)
      else if 0xE0 \<le> b0 \<and> b0 \<le> 0xEF then
        (case bs of
           b1 # b2 # bs2 \<Rightarrow>
             (let v = (unat b0 - 0xE0) * 4096 + cont_bits b1 * 64 + cont_bits b2 in
              if cont_byte b1 \<and> cont_byte b2 \<and> 0x800 \<le> v \<and> \<not> (0xD800 \<le> v \<and> v \<le> 0xDFFF)
              then map_option (Cons v) (utf8_decode bs2)
              else None)
         | _ \<Rightarrow> None)
      else if 0xF0 \<le> b0 \<and> b0 \<le> 0xF4 then
        (case bs of
           b1 # b2 # b3 # bs3 \<Rightarrow>
             (let v = (unat b0 - 0xF0) * 262144 + cont_bits b1 * 4096 + cont_bits b2 * 64 + cont_bits b3 in
              if cont_byte b1 \<and> cont_byte b2 \<and> cont_byte b3 \<and> 0x10000 \<le> v \<and> v \<le> 0x10FFFF
              then map_option (Cons v) (utf8_decode bs3)
              else None)
         | _ \<Rightarrow> None)
      else None)"

fun utf16_decode :: "u16 list \<Rightarrow> utext option" where
  "utf16_decode [] = Some []"
| "utf16_decode (x # xs) =
     (if x < 0xD800 \<or> 0xDFFF < x then map_option (Cons (unat x)) (utf16_decode xs)
      else if x \<le> 0xDBFF then
        (case xs of
           y # ys \<Rightarrow>
             if 0xDC00 \<le> y \<and> y \<le> 0xDFFF
             then map_option (Cons (0x10000 + (unat x - 0xD800) * 1024 + (unat y - 0xDC00))) (utf16_decode ys)
             else None
         | [] \<Rightarrow> None)
      else None)"

definition white_space :: "nat \<Rightarrow> bool" where
  "white_space c \<longleftrightarrow> (9 \<le> c \<and> c \<le> 13) \<or> c \<in> {32, 133, 160, 5760, 8232, 8233, 8239, 8287, 12288}
     \<or> (8192 \<le> c \<and> c \<le> 8202)"

definition trim_end :: "utext \<Rightarrow> utext" where
  "trim_end s = rev (dropWhile white_space (rev s))"

text \<open>\<^verbatim>\<open>from_utf8(..).unwrap()\<close>.\<close>

definition utf8_unwrap :: "u8 list \<Rightarrow> utext res" where
  "utf8_unwrap bs = unwrap_opt (utf8_decode bs)"

text \<open>\<^verbatim>\<open>str::contains\<close>.\<close>

fun contains :: "'a list \<Rightarrow> 'a list \<Rightarrow> bool" where
  "contains [] p = (p = [])"
| "contains (x # xs) p = (take (length p) (x # xs) = p \<or> contains xs p)"

definition ascii :: "string \<Rightarrow> utext" where
  "ascii s = map of_char s"

text \<open>\<^verbatim>\<open>str::split\<close> and \<^verbatim>\<open>str::split_terminator\<close> at one character.\<close>

fun split_on :: "'a \<Rightarrow> 'a list \<Rightarrow> 'a list list" where
  "split_on d [] = [[]]"
| "split_on d (c # cs) =
     (if c = d then [] # split_on d cs
      else case split_on d cs of [] \<Rightarrow> [[c]] | p # ps \<Rightarrow> (c # p) # ps)"

definition split_terminator :: "'a \<Rightarrow> 'a list \<Rightarrow> 'a list list" where
  "split_terminator d s = (let ps = split_on d s in if last ps = [] then butlast ps else ps)"

lemma split_no_sep: "d \<notin> set xs \<Longrightarrow> split_on d xs = [xs]"
  by (induction xs) auto

lemma split_append: "d \<notin> set xs \<Longrightarrow> split_on d (xs @ d # ys) = xs # split_on d ys"
  by (induction xs) auto

lemma utf8_ascii: "list_all (\<lambda>b. b < 0x80) bs \<Longrightarrow> utf8_decode bs = Some (map unat bs)"
  by (induction bs) simp_all

lemma utf16_bmp: "list_all (\<lambda>x. x < 0xD800) xs \<Longrightarrow> utf16_decode xs = Some (map unat xs)"
  by (induction xs) simp_all

end
