(* ===== verification/Uuid.thy ===== *)
theory Uuid
  imports Utf
begin

text \<open>
  GUIDs, \<^verbatim>\<open>src/libs/uuid.rs\<close>: the mixed-endian layout of the disk format, comparison with a textual
  GUID and the \<^verbatim>\<open>Display\<close> form. Text is a list of characters; \<^verbatim>\<open>uN::from_str_radix\<close>, \<^verbatim>\<open>split\<close>,
  \<^verbatim>\<open>trim\<close> and \<^verbatim>\<open>chunks\<close> of the standard library are modelled as documented.
\<close>

section \<open>Standard library\<close>

definition hex_digit :: "char \<Rightarrow> nat option" where
  "hex_digit c =
     (let n = of_char c :: nat in
      if 48 \<le> n \<and> n \<le> 57 then Some (n - 48)
      else if 65 \<le> n \<and> n \<le> 70 then Some (n - 55)
      else if 97 \<le> n \<and> n \<le> 102 then Some (n - 87) else None)"

fun hex_value :: "nat \<Rightarrow> string \<Rightarrow> nat option" where
  "hex_value acc [] = Some acc"
| "hex_value acc (c # cs) =
     (case hex_digit c of None \<Rightarrow> None | Some d \<Rightarrow> hex_value (16 * acc + d) cs)"

text \<open>\<^verbatim>\<open>from_str_radix(s, 16)\<close> of an unsigned type: a leading \<open>+\<close> is allowed, overflow is an error.\<close>

definition from_str_radix16 :: "nat \<Rightarrow> string \<Rightarrow> nat option" where
  "from_str_radix16 width s =
     (let digits = (case s of c # cs \<Rightarrow> if c = CHR ''+'' \<and> cs \<noteq> [] then cs else s | [] \<Rightarrow> s) in
      if digits = [] then None
      else case hex_value 0 digits of
        None \<Rightarrow> None
      | Some v \<Rightarrow> if v < 2 ^ width then Some v else None)"

definition is_whitespace :: "char \<Rightarrow> bool" where
  "is_whitespace c =
     (let n = of_char c :: nat in n = 32 \<or> (9 \<le> n \<and> n \<le> 13) \<or> n = 133 \<or> n = 160)"

definition trim :: "string \<Rightarrow> string" where
  "trim s = rev (dropWhile is_whitespace (rev (dropWhile is_whitespace s)))"

fun chunks2 :: "'a list \<Rightarrow> 'a list list" where
  "chunks2 (x # y # zs) = [x, y] # chunks2 zs"
| "chunks2 [x] = [[x]]"
| "chunks2 [] = []"

definition hex_char :: "nat \<Rightarrow> char" where
  "hex_char n = (if n < 10 then char_of (48 + n) else char_of (55 + n))"

fun show_hex :: "nat \<Rightarrow> string" where
  "show_hex n = (if n < 16 then [hex_char n] else show_hex (n div 16) @ [hex_char (n mod 16)])"

declare show_hex.simps [simp del]

definition show_hex2 :: "u8 \<Rightarrow> string" where
  "show_hex2 b = [hex_char (unat b div 16), hex_char (unat b mod 16)]"

section \<open>GUIDs\<close>

record uuid =
  uuid_a :: u32
  uuid_b :: u16
  uuid_c :: u16
  uuid_d :: "u8 list"

definition uuid_from :: "u8 list \<Rightarrow> uuid res" where
  "uuid_from value =
     rbind (le_field value 0 4) (\<lambda>a.
     rbind (le_field value 4 6) (\<lambda>b.
     rbind (le_field value 6 8) (\<lambda>c.
     rbind (slice_res value 8 16) (\<lambda>d.
       Inr \<lparr>uuid_a = a, uuid_b = b, uuid_c = c, uuid_d = d\<rparr>))))"

definition uuid_eq :: "uuid \<Rightarrow> uuid \<Rightarrow> bool" where
  "uuid_eq u v \<longleftrightarrow> uuid_a u = uuid_a v \<and> uuid_b u = uuid_b v \<and> uuid_c u = uuid_c v \<and> uuid_d u = uuid_d v"

fun parse_bytes :: "string list \<Rightarrow> u8 list option" where
  "parse_bytes [] = Some []"
| "parse_bytes (p # ps) =
     (case from_str_radix16 8 p of
        None \<Rightarrow> None
      | Some v \<Rightarrow> (case parse_bytes ps of None \<Rightarrow> None | Some bs \<Rightarrow> Some (of_nat v # bs)))"

definition uuid_eq_str :: "uuid \<Rightarrow> string \<Rightarrow> bool" where
  "uuid_eq_str u other =
     (case split_on (CHR ''-'') other of
        [p0, p1, p2, p3, p4] \<Rightarrow>
          (case (from_str_radix16 32 p0, from_str_radix16 16 p1, from_str_radix16 16 p2) of
             (Some a, Some b, Some c) \<Rightarrow>
               (case parse_bytes (chunks2 (trim (p3 @ p4))) of
                  None \<Rightarrow> False
                | Some d \<Rightarrow>
                    if length d \<noteq> 8 then False
                    else uuid_eq u \<lparr>uuid_a = of_nat a, uuid_b = of_nat b, uuid_c = of_nat c, uuid_d = d\<rparr>)
           | _ \<Rightarrow> False)
      | _ \<Rightarrow> False)"

definition uuid_fmt :: "uuid \<Rightarrow> string" where
  "uuid_fmt u = show_hex (unat (uuid_a u)) @ ''-'' @ show_hex (unat (uuid_b u)) @ ''-''
     @ show_hex (unat (uuid_c u)) @ ''-'' @ concat (map show_hex2 (uuid_d u))"

text \<open>The textual form with five groups that GUIDs are written in.\<close>

definition uuid_text :: "uuid \<Rightarrow> string" where
  "uuid_text u = show_hex (unat (uuid_a u)) @ ''-'' @ show_hex (unat (uuid_b u)) @ ''-''
     @ show_hex (unat (uuid_c u)) @ ''-'' @ concat (map show_hex2 (take 2 (uuid_d u))) @ ''-''
     @ concat (map show_hex2 (drop 2 (uuid_d u)))"

section \<open>Hexadecimal text\<close>

lemma hex_char_digit: "n < 16 \<Longrightarrow> hex_digit (hex_char n) = Some n"
  by (simp add: hex_digit_def hex_char_def Let_def)

lemma hex_char_not:
  assumes "n < 16"
  shows "hex_char n \<noteq> CHR ''-''" "hex_char n \<noteq> CHR ''+''" "\<not> is_whitespace (hex_char n)"
proof -
  have "of_char (hex_char n) = (if n < 10 then 48 + n else 55 + n)"
    using assms by (simp add: hex_char_def)
  then show "hex_char n \<noteq> CHR ''-''" "hex_char n \<noteq> CHR ''+''" "\<not> is_whitespace (hex_char n)"
    using assms by (auto simp: is_whitespace_def Let_def split: if_splits)
qed

lemma hex_value_append: "hex_value acc (xs @ ys) = Option.bind (hex_value acc xs) (\<lambda>v. hex_value v ys)"
  by (induction xs arbitrary: acc) (auto split: option.splits)

lemma hex_value_show: "hex_value 0 (show_hex n) = Some n"
proof (induction n rule: show_hex.induct)
  case (1 n)
  show ?case
  proof (cases "n < 16")
    case True
    then show ?thesis by (subst show_hex.simps) (simp add: hex_char_digit)
  next
    case False
    with 1 show ?thesis by (subst show_hex.simps) (simp add: hex_value_append hex_char_digit)
  qed
qed

text \<open>Hexadecimal digits only.\<close>

definition hex_only :: "string \<Rightarrow> bool" where
  "hex_only s \<longleftrightarrow> (\<forall>c \<in> set s. \<exists>n<16. c = hex_char n)"

lemma hex_only_append [simp]: "hex_only (xs @ ys) \<longleftrightarrow> hex_only xs \<and> hex_only ys"
  by (auto simp: hex_only_def)

lemma hex_only_Cons [simp]: "n < 16 \<Longrightarrow> hex_only (hex_char n # s) \<longleftrightarrow> hex_only s" "hex_only []"
  unfolding hex_only_def by (simp_all, blast)

lemma show_hex_only: "hex_only (show_hex n)" "show_hex n \<noteq> []"
proof -
  show "hex_only (show_hex n)"
  proof (induction n rule: show_hex.induct)
    case (1 n)
    then show ?case
      by (cases "n < 16"; subst show_hex.simps) simp_all
  qed
  show "show_hex n \<noteq> []" by (subst show_hex.simps) simp
qed

lemma hex2_only: "hex_only (concat (map show_hex2 bs))"
proof (induction bs)
  case (Cons b bs)
  have "unat b div 16 < 16"
    using unat_u8_bound [of b] by (simp add: less_mult_imp_div_less)
  then have "hex_only (show_hex2 b)"
    by (simp add: show_hex2_def)
  with Cons show ?case by simp
qed simp

lemma from_str_radix_hex:
  assumes "hex_only s" "s \<noteq> []" "hex_value 0 s = Some v" "v < 2 ^ w"
  shows "from_str_radix16 w s = Some v"
proof -
  obtain c cs where s: "s = c # cs" using assms(2) by (cases s) auto
  then have "c \<noteq> CHR ''+''"
    using assms(1) hex_char_not(2) by (auto simp: hex_only_def)
  with assms s show ?thesis by (simp add: from_str_radix16_def)
qed

lemma hex_only_no_sep: "hex_only s \<Longrightarrow> CHR ''-'' \<notin> set s"
  unfolding hex_only_def using hex_char_not(1) by metis

lemma trim_hex: "hex_only s \<Longrightarrow> trim s = s"
proof -
  have "dropWhile is_whitespace s = s" if "hex_only s" for s
    using that hex_char_not(3) by (cases s) (auto simp: hex_only_def)
  moreover assume "hex_only s"
  moreover from this have "hex_only (rev s)" by (simp add: hex_only_def)
  ultimately show ?thesis by (simp add: trim_def)
qed

lemma parse_bytes_hex: "parse_bytes (chunks2 (concat (map show_hex2 bs))) = Some bs"
proof (induction bs)
  case (Cons b bs)
  have d: "unat b div 16 < 16"
    using unat_u8_bound [of b] by (simp add: less_mult_imp_div_less)
  then have "hex_only (show_hex2 b)" "hex_value 0 (show_hex2 b) = Some (unat b)"
    by (simp_all add: show_hex2_def hex_char_digit)
  then have "from_str_radix16 8 (show_hex2 b) = Some (unat b)"
    using unat_u8_bound [of b] by (intro from_str_radix_hex) (simp_all add: show_hex2_def)
  with Cons show ?case by (simp add: show_hex2_def)
qed simp

section \<open>Properties\<close>

text \<open>A GUID equals its textual form and nothing else does. For GUIDs with eight trailing bytes the comparison
  with the five-group text of a GUID accepts exactly that GUID.\<close>

theorem uuid_eq_str_text:
  assumes "length (uuid_d u) = 8" and "length (uuid_d v) = 8"
  shows "uuid_eq_str v (uuid_text u) \<longleftrightarrow> v = u"
proof -
  let ?d1 = "concat (map show_hex2 (take 2 (uuid_d u)))" and ?d2 = "concat (map show_hex2 (drop 2 (uuid_d u)))"
  have sep: "CHR ''-'' \<notin> set (show_hex n)" "CHR ''-'' \<notin> set (concat (map show_hex2 bs))" for n bs
    using hex_only_no_sep show_hex_only hex2_only by blast+
  have split: "split_on (CHR ''-'') (uuid_text u) =
      [show_hex (unat (uuid_a u)), show_hex (unat (uuid_b u)), show_hex (unat (uuid_c u)), ?d1, ?d2]"
    using sep by (simp add: uuid_text_def split_append split_no_sep)
  have num: "from_str_radix16 w (show_hex n) = Some n" if "n < 2 ^ w" for n w
    using that show_hex_only by (intro from_str_radix_hex hex_value_show)
  have bounds: "unat (uuid_a u) < 2 ^ 32" "unat (uuid_b u) < 2 ^ 16" "unat (uuid_c u) < 2 ^ 16"
    using unsigned_less [of "uuid_a u", where 'a = nat] unsigned_less [of "uuid_b u", where 'a = nat]
      unsigned_less [of "uuid_c u", where 'a = nat] by simp_all
  have "?d1 @ ?d2 = concat (map show_hex2 (uuid_d u))"
    by (metis append_take_drop_id concat_append map_append)
  then have "parse_bytes (chunks2 (trim (?d1 @ ?d2))) = Some (uuid_d u)"
    using parse_bytes_hex trim_hex [OF hex2_only] by metis
  then have "uuid_eq_str v (uuid_text u) \<longleftrightarrow> uuid_eq v u"
    unfolding uuid_eq_str_def split using num bounds assms(1) by (simp add: uuid_eq_def)
  then show ?thesis by (auto simp: uuid_eq_def)
qed

theorem uuid_eq_str_text_witness:
  "uuid_eq_str \<lparr>uuid_a = 0xC12A7328, uuid_b = 0xF81F, uuid_c = 0x11D2, uuid_d = [0xBA, 0x4B, 0, 0xA0, 0xC9, 0x3E, 0xC9, 0x3B]\<rparr>
     (uuid_text \<lparr>uuid_a = 0xC12A7328, uuid_b = 0xF81F, uuid_c = 0x11D2, uuid_d = [0xBA, 0x4B, 0, 0xA0, 0xC9, 0x3E, 0xC9, 0x3B]\<rparr>)"
  by (subst uuid_eq_str_text) simp_all

text \<open>No GUID equals its own displayed form. \<^verbatim>\<open>Display\<close> writes four groups, the comparison with text asks for
  five, so it is false for every GUID.\<close>

theorem uuid_fmt_never_eq: "\<not> uuid_eq_str v (uuid_fmt u)"
proof -
  have sep: "CHR ''-'' \<notin> set (show_hex n)" "CHR ''-'' \<notin> set (concat (map show_hex2 bs))" for n bs
    using hex_only_no_sep show_hex_only hex2_only by blast+
  then have "split_on (CHR ''-'') (uuid_fmt u) =
      [show_hex (unat (uuid_a u)), show_hex (unat (uuid_b u)), show_hex (unat (uuid_c u)),
       concat (map show_hex2 (uuid_d u))]"
    by (simp add: uuid_fmt_def split_append split_no_sep)
  then show ?thesis by (simp add: uuid_eq_str_def)
qed

end
