(* ===== verification/Storage.thy ===== *)
theory Storage
  imports Uuid
begin

text \<open>
  Partition tables and partitions, \<^verbatim>\<open>src/drivers/storage/mod.rs\<close>, and the scan of a GPT partition table in
  \<^verbatim>\<open>src/drivers/storage/ide.rs\<close>. The block device behind a partition is the hardware driver: its
  \<^verbatim>\<open>read\<close> is an argument. The pointer to it that a \<^verbatim>\<open>Partition\<close> carries is that argument.
\<close>

section \<open>Data\<close>

type_synonym block_read = "u64 \<Rightarrow> usize \<Rightarrow> u8 list res"

record mbr =
  disk_id :: "u8 list"
  mbr_reserved :: "u8 list"
  first_partition :: "u8 list"
  second_partition :: "u8 list"
  third_partition :: "u8 list"
  fourth_partition :: "u8 list"
  mbr_signature :: "u8 list"

record mbr_partition =
  boot_indicator :: u8
  partition_start_chs :: "u8 list"
  partition_type :: u8
  partition_end_chs :: "u8 list"
  partition_start_lba :: u32
  partition_sectors :: u32

record gpt_partition_entry =
  partition_type_guid :: uuid
  unique_partition_guid :: uuid
  start_sector :: u64
  end_sector :: u64
  attributes :: u64
  partition_name :: "u8 list"

datatype partition = MBRPartition mbr_partition | GPTPartition gpt_partition_entry

record gpt_header =
  gpt_signature :: "u8 list"
  revision :: u32
  header_size :: u32
  header_checksum :: u32
  gpt_reserved :: "u8 list"
  header_lba :: u64
  header_lba_alt :: u64
  first_usable_block :: u64
  last_usable_block :: u64
  guid :: uuid
  guid_lba :: u64
  partition_entry_count :: u32
  partition_entry_size :: u32
  partition_table_crc :: u32

section \<open>Parsing\<close>

definition mbr_from :: "u8 list \<Rightarrow> mbr res" where
  "mbr_from value =
     (let offset = (if length value \<ge> 512 then 440 else 0) in
      rbind (slice_res value offset (offset + 4)) (\<lambda>d.
      rbind (slice_res value (offset + 4) (offset + 6)) (\<lambda>r.
      rbind (slice_res value (offset + 6) (offset + 22)) (\<lambda>p1.
      rbind (slice_res value (offset + 22) (offset + 38)) (\<lambda>p2.
      rbind (slice_res value (offset + 38) (offset + 54)) (\<lambda>p3.
      rbind (slice_res value (offset + 54) (offset + 70)) (\<lambda>p4.
      rbind (slice_res value (offset + 70) (offset + 72)) (\<lambda>s.
        Inr \<lparr>disk_id = d, mbr_reserved = r, first_partition = p1, second_partition = p2,
             third_partition = p3, fourth_partition = p4, mbr_signature = s\<rparr>))))))))"

definition mbr_entry :: "u8 list \<Rightarrow> mbr_partition res" where
  "mbr_entry raw =
     rbind (index_res raw 0) (\<lambda>bi.
     rbind (slice_res raw 1 4) (\<lambda>start_chs.
     rbind (index_res raw 4) (\<lambda>ty.
     rbind (slice_res raw 4 7) (\<lambda>end_chs.
     rbind (le_field raw 8 12) (\<lambda>lba.
     rbind (le_field raw 12 16) (\<lambda>n.
       Inr \<lparr>boot_indicator = bi, partition_start_chs = start_chs, partition_type = ty,
            partition_end_chs = end_chs, partition_start_lba = lba, partition_sectors = n\<rparr>))))))"

fun mbr_entries :: "u8 list list \<Rightarrow> mbr_partition list res" where
  "mbr_entries [] = Inr []"
| "mbr_entries (p # ps) =
     (if length (filter (\<lambda>x. x > 0) p) = 0 then Inr []
      else rbind (mbr_entry p) (\<lambda>e. rbind (mbr_entries ps) (\<lambda>es. Inr (e # es))))"

definition mbr_partitions :: "mbr \<Rightarrow> mbr_partition list res" where
  "mbr_partitions m =
     mbr_entries [first_partition m, second_partition m, third_partition m, fourth_partition m]"

definition gpt_header_new :: "u8 list \<Rightarrow> gpt_header res" where
  "gpt_header_new data =
     rbind (rassert (length data \<ge> 0x5C)) (\<lambda>_.
     rbind (slice_res data 0x00 0x08) (\<lambda>sig.
     rbind (le_field data 0x08 0x0C) (\<lambda>rev.
     rbind (le_field data 0x0C 0x10) (\<lambda>hsize.
     rbind (le_field data 0x10 0x14) (\<lambda>sum.
     rbind (slice_res data 0x14 0x18) (\<lambda>res.
     rbind (le_field data 0x18 0x20) (\<lambda>lba.
     rbind (le_field data 0x20 0x28) (\<lambda>alt.
     rbind (le_field data 0x28 0x30) (\<lambda>first.
     rbind (le_field data 0x30 0x38) (\<lambda>last.
     rbind (slice_res data 0x38 0x48) (\<lambda>guid_bytes.
     rbind (uuid_from guid_bytes) (\<lambda>g.
     rbind (le_field data 0x48 0x50) (\<lambda>glba.
     rbind (le_field data 0x50 0x54) (\<lambda>count.
     rbind (le_field data 0x54 0x58) (\<lambda>esize.
     rbind (le_field data 0x58 0x5C) (\<lambda>crc.
       Inr \<lparr>gpt_signature = sig, revision = rev, header_size = hsize, header_checksum = sum,
            gpt_reserved = res, header_lba = lba, header_lba_alt = alt, first_usable_block = first,
            last_usable_block = last, guid = g, guid_lba = glba, partition_entry_count = count,
            partition_entry_size = esize, partition_table_crc = crc\<rparr>))))))))))))))))"

text \<open>The body of the loop over the table; \<open>None\<close> is the \<^verbatim>\<open>continue\<close> for an unused entry.\<close>

definition gpt_entry_at :: "u8 list \<Rightarrow> nat \<Rightarrow> gpt_partition_entry option res" where
  "gpt_entry_at table off =
     rbind (slice_res table off (off + 16)) (\<lambda>ty_bytes.
     rbind (uuid_from ty_bytes) (\<lambda>ty.
     if uuid_eq_str ty ''00000000-0000-0000-0000-000000000000 '' then Inr None
     else
       rbind (slice_res table (off + 16) (off + 32)) (\<lambda>uniq_bytes.
       rbind (uuid_from uniq_bytes) (\<lambda>uniq.
       rbind (le_field table (off + 32) (off + 40)) (\<lambda>s.
       rbind (le_field table (off + 40) (off + 48)) (\<lambda>e.
       rbind (le_field table (off + 48) (off + 56)) (\<lambda>attr.
       rbind (slice_res table (off + 56) (off + 128)) (\<lambda>name.
         Inr (Some \<lparr>partition_type_guid = ty, unique_partition_guid = uniq, start_sector = s,
                    end_sector = e, attributes = attr, partition_name = name\<rparr>)))))))))"

fun gpt_scan_from :: "u8 list \<Rightarrow> u32 \<Rightarrow> u32 \<Rightarrow> nat \<Rightarrow> partition list res" where
  "gpt_scan_from table entry_size i 0 = Inr []"
| "gpt_scan_from table entry_size i (Suc n) =
     rbind (gpt_entry_at table (unat (i * entry_size))) (\<lambda>e.
     rbind (gpt_scan_from table entry_size (i + 1) n) (\<lambda>ps.
       Inr (case e of None \<Rightarrow> ps | Some p \<Rightarrow> GPTPartition p # ps)))"

definition gpt_scan :: "u8 list \<Rightarrow> u32 \<Rightarrow> u32 \<Rightarrow> partition list res" where
  "gpt_scan table entry_count entry_size = gpt_scan_from table entry_size 0 (unat entry_count)"

section \<open>Reading\<close>

fun partition_read :: "block_read \<Rightarrow> partition \<Rightarrow> u64 \<Rightarrow> usize \<Rightarrow> u8 list res" where
  "partition_read dev (GPTPartition p) sector sector_count =
     (if start_sector p + sector + sector_count > end_sector p then Inl ErrUnit
      else dev (start_sector p + sector) sector_count)"
| "partition_read dev (MBRPartition p) sector sector_count =
     (if ucast (partition_start_lba p) + sector + sector_count
         > ucast (partition_start_lba p) + ucast (partition_sectors p)
      then Inl ErrUnit
      else dev (ucast (partition_start_lba p) + sector) sector_count)"

definition partition_write :: "partition \<Rightarrow> u64 \<Rightarrow> u8 list \<Rightarrow> unit res" where
  "partition_write p sector data = Inl (Panic TodoPanic)"

section \<open>Encodings\<close>

definition uuid_bytes :: "uuid \<Rightarrow> u8 list" where
  "uuid_bytes u = to_le 4 (unat (uuid_a u)) @ to_le 2 (unat (uuid_b u)) @ to_le 2 (unat (uuid_c u)) @ uuid_d u"

definition gpt_entry_bytes :: "gpt_partition_entry \<Rightarrow> u8 list" where
  "gpt_entry_bytes e = uuid_bytes (partition_type_guid e) @ uuid_bytes (unique_partition_guid e)
     @ to_le 8 (unat (start_sector e)) @ to_le 8 (unat (end_sector e)) @ to_le 8 (unat (attributes e))
     @ partition_name e"

definition gpt_header_bytes :: "gpt_header \<Rightarrow> u8 list" where
  "gpt_header_bytes h = gpt_signature h @ to_le 4 (unat (revision h)) @ to_le 4 (unat (header_size h))
     @ to_le 4 (unat (header_checksum h)) @ gpt_reserved h @ to_le 8 (unat (header_lba h))
     @ to_le 8 (unat (header_lba_alt h)) @ to_le 8 (unat (first_usable_block h))
     @ to_le 8 (unat (last_usable_block h)) @ uuid_bytes (guid h) @ to_le 8 (unat (guid_lba h))
     @ to_le 4 (unat (partition_entry_count h)) @ to_le 4 (unat (partition_entry_size h))
     @ to_le 4 (unat (partition_table_crc h))"

definition uuid_ok :: "uuid \<Rightarrow> bool" where
  "uuid_ok u \<longleftrightarrow> length (uuid_d u) = 8"

definition gpt_entry_ok :: "gpt_partition_entry \<Rightarrow> bool" where
  "gpt_entry_ok e \<longleftrightarrow> uuid_ok (partition_type_guid e) \<and> uuid_ok (unique_partition_guid e)
     \<and> length (partition_name e) = 72"

definition gpt_header_ok :: "gpt_header \<Rightarrow> bool" where
  "gpt_header_ok h \<longleftrightarrow> length (gpt_signature h) = 8 \<and> length (gpt_reserved h) = 4 \<and> uuid_ok (guid h)"

section \<open>Round trips\<close>

lemma le_unat_fields [simp]:
  "(of_nat (le_val (to_le 2 (unat (w2 :: u16)))) :: u16) = w2"
  "(of_nat (le_val (to_le 4 (unat (w4 :: u32)))) :: u32) = w4"
  "(of_nat (le_val (to_le 8 (unat (w8 :: u64)))) :: u64) = w8"
  by (simp_all add: le_val_to_le_unat)

lemma length_uuid_bytes [simp]: "uuid_ok u \<Longrightarrow> length (uuid_bytes u) = 16"
  by (simp add: uuid_bytes_def uuid_ok_def)

lemma uuid_from_bytes: "uuid_ok u \<Longrightarrow> uuid_from (uuid_bytes u) = Inr u"
  by (simp add: uuid_from_def uuid_bytes_def uuid_ok_def le_field_def)

text \<open>A field of the \<open>i\<close>-th record of a table of equally long records.\<close>

lemma table_slice:
  assumes "i < length es" "\<And>e. e \<in> set es \<Longrightarrow> length (f e) = k" "a \<le> b" "b \<le> k"
  shows "slice_res (concat (map f es)) (i * k + a) (i * k + b) = slice_res (f (es ! i)) a b"
  using assms
proof (induction es arbitrary: i)
  case (Cons e es)
  show ?case
  proof (cases i)
    case 0
    with Cons.prems show ?thesis by (simp add: slice_res_def)
  next
    case (Suc j)
    have "slice_res (concat (map f (e # es))) (i * k + a) (i * k + b) = slice_res (concat (map f es)) (j * k + a) (j * k + b)"
      using Cons.prems Suc by (simp add: slice_res_def)
    also have "\<dots> = slice_res (f (es ! j)) a b"
      using Cons.prems Suc by (intro Cons.IH) auto
    finally show ?thesis using Suc by simp
  qed
qed simp

definition unused_entry :: "gpt_partition_entry \<Rightarrow> bool" where
  "unused_entry e \<longleftrightarrow> partition_type_guid e = \<lparr>uuid_a = 0, uuid_b = 0, uuid_c = 0, uuid_d = replicate 8 0\<rparr>"

lemma zero_guid_text:
  "uuid_eq_str u ''00000000-0000-0000-0000-000000000000 ''
     \<longleftrightarrow> u = \<lparr>uuid_a = 0, uuid_b = 0, uuid_c = 0, uuid_d = replicate 8 0\<rparr>"
proof -
  have split: "split_on (CHR ''-'') ''00000000-0000-0000-0000-000000000000 ''
      = [''00000000'', ''0000'', ''0000'', ''0000'', ''000000000000 '']"
    by simp
  have digits: "from_str_radix16 32 ''00000000'' = Some 0" "from_str_radix16 16 ''0000'' = Some 0"
    by (simp_all add: from_str_radix16_def hex_digit_def)
  have "trim (''0000'' @ ''000000000000 '') = ''0000000000000000''"
    by (simp add: trim_def is_whitespace_def)
  moreover have "from_str_radix16 8 ''00'' = Some 0"
    by (simp add: from_str_radix16_def hex_digit_def)
  ultimately have d: "parse_bytes (chunks2 (trim (''0000'' @ ''000000000000 ''))) = Some [0, 0, 0, 0, 0, 0, 0, 0]"
    by simp
  show ?thesis
    unfolding uuid_eq_str_def split list.case digits prod.case option.case d
    by (auto simp: uuid_eq_def numeral_eq_Suc)
qed

lemma length_gpt_entry_bytes: "gpt_entry_ok e \<Longrightarrow> length (gpt_entry_bytes e) = 128"
  by (simp add: gpt_entry_ok_def gpt_entry_bytes_def)

lemma gpt_entry_fields:
  assumes "gpt_entry_ok e"
  shows "slice_res (gpt_entry_bytes e) 0 16 = Inr (uuid_bytes (partition_type_guid e))"
    "slice_res (gpt_entry_bytes e) 16 32 = Inr (uuid_bytes (unique_partition_guid e))"
    "slice_res (gpt_entry_bytes e) 32 40 = Inr (to_le 8 (unat (start_sector e)))"
    "slice_res (gpt_entry_bytes e) 40 48 = Inr (to_le 8 (unat (end_sector e)))"
    "slice_res (gpt_entry_bytes e) 48 56 = Inr (to_le 8 (unat (attributes e)))"
    "slice_res (gpt_entry_bytes e) 56 128 = Inr (partition_name e)"
  using assms by (simp_all add: gpt_entry_ok_def gpt_entry_bytes_def slice_res_def)

lemma gpt_entry_at_table:
  assumes "i < length es" "list_all gpt_entry_ok es"
  shows "gpt_entry_at (concat (map gpt_entry_bytes es)) (i * 128) =
    Inr (if unused_entry (es ! i) then None else Some (es ! i))"
proof -
  let ?t = "concat (map gpt_entry_bytes es)" and ?e = "es ! i"
  have ok: "gpt_entry_ok ?e"
    using assms by (simp add: list_all_length)
  have slice: "slice_res ?t (i * 128 + a) (i * 128 + b) = slice_res (gpt_entry_bytes ?e) a b" if "a \<le> b" "b \<le> 128" for a b
    using assms that by (intro table_slice) (auto simp: list_all_iff length_gpt_entry_bytes)
  have fields: "slice_res ?t (i * 128) (i * 128 + 16) = Inr (uuid_bytes (partition_type_guid ?e))"
    "slice_res ?t (i * 128 + 16) (i * 128 + 32) = Inr (uuid_bytes (unique_partition_guid ?e))"
    "slice_res ?t (i * 128 + 32) (i * 128 + 40) = Inr (to_le 8 (unat (start_sector ?e)))"
    "slice_res ?t (i * 128 + 40) (i * 128 + 48) = Inr (to_le 8 (unat (end_sector ?e)))"
    "slice_res ?t (i * 128 + 48) (i * 128 + 56) = Inr (to_le 8 (unat (attributes ?e)))"
    "slice_res ?t (i * 128 + 56) (i * 128 + 128) = Inr (partition_name ?e)"
    using slice [of 0 16] slice [of 16 32] slice [of 32 40] slice [of 40 48] slice [of 48 56] slice [of 56 128]
      gpt_entry_fields [OF ok] by (simp_all only:) simp_all
  have ids: "uuid_from (uuid_bytes (partition_type_guid ?e)) = Inr (partition_type_guid ?e)"
    "uuid_from (uuid_bytes (unique_partition_guid ?e)) = Inr (unique_partition_guid ?e)"
    using ok by (simp_all add: gpt_entry_ok_def uuid_from_bytes)
  show ?thesis
    unfolding gpt_entry_at_def le_field_def fields rbind_Inr ids zero_guid_text unused_entry_def
    by simp
qed

lemma gpt_scan_from_table:
  assumes "list_all gpt_entry_ok es" "i + n \<le> length es" "length es * 128 < 2 ^ 32"
  shows "gpt_scan_from (concat (map gpt_entry_bytes es)) 128 (of_nat i) n =
    Inr (map GPTPartition (filter (\<lambda>e. \<not> unused_entry e) (take n (drop i es))))"
  using assms(2)
proof (induction n arbitrary: i)
  case (Suc n)
  have "unat (of_nat i * 128 :: u32) = i * 128"
  proof -
    have "(of_nat i * 128 :: u32) = of_nat (i * 128)" by simp
    moreover have "i * 128 < 2 ^ 32" using Suc.prems assms(3) by simp
    ultimately show ?thesis by (simp only: unat_of_nat) simp
  qed
  moreover have "gpt_entry_at (concat (map gpt_entry_bytes es)) (i * 128) =
    Inr (if unused_entry (es ! i) then None else Some (es ! i))"
    using Suc.prems by (intro gpt_entry_at_table [OF _ assms(1)]) simp
  moreover have "gpt_scan_from (concat (map gpt_entry_bytes es)) 128 (of_nat i + 1) n =
    Inr (map GPTPartition (filter (\<lambda>e. \<not> unused_entry e) (take n (drop (Suc i) es))))"
    using Suc.IH [of "Suc i"] Suc.prems by (simp add: add.commute)
  moreover have "take (Suc n) (drop i es) = es ! i # take n (drop (Suc i) es)"
    using Suc.prems by (simp add: Cons_nth_drop_Suc [symmetric])
  ultimately show ?case by simp
qed simp

text \<open>The scan of a GPT partition table finds its partitions. For a table of up to 33554431 well-formed 128-byte
  entries the scan returns, in order, exactly the entries whose type GUID is not the zero GUID, with every
  field as it was encoded.\<close>

theorem gpt_scan_table:
  assumes "list_all gpt_entry_ok es" and "length es * 128 < 2 ^ 32"
  shows "gpt_scan (concat (map gpt_entry_bytes es)) (of_nat (length es)) 128 =
    Inr (map GPTPartition (filter (\<lambda>e. \<not> unused_entry e) es))"
proof -
  have "unat (of_nat (length es) :: u32) = length es"
    using assms(2) by (simp only: unat_of_nat) simp
  with gpt_scan_from_table [OF assms(1) _ assms(2), of 0 "length es"] show ?thesis
    by (simp add: gpt_scan_def)
qed

definition demo_guid :: uuid where
  "demo_guid = \<lparr>uuid_a = 0xC12A7328, uuid_b = 0xF81F, uuid_c = 0x11D2, uuid_d = [0xBA, 0x4B, 0, 0xA0, 0xC9, 0x3E, 0xC9, 0x3B]\<rparr>"

definition demo_entry :: gpt_partition_entry where
  "demo_entry = \<lparr>partition_type_guid = demo_guid, unique_partition_guid = demo_guid, start_sector = 2048,
     end_sector = 4095, attributes = 0, partition_name = replicate 72 0\<rparr>"

theorem gpt_scan_table_witness:
  "gpt_scan (concat (map gpt_entry_bytes [demo_entry])) 1 128 = Inr [GPTPartition demo_entry]"
proof -
  have "list_all gpt_entry_ok [demo_entry]" "\<not> unused_entry demo_entry"
    by (simp_all add: demo_entry_def demo_guid_def gpt_entry_ok_def uuid_ok_def unused_entry_def)
  with gpt_scan_table [of "[demo_entry]"] show ?thesis by simp
qed

text \<open>Parsing inverts the encoding of a GPT header. A sector that starts with the encoding of a header parses to exactly
  that header, whatever follows it.\<close>

theorem gpt_header_roundtrip:
  assumes "gpt_header_ok h"
  shows "gpt_header_new (gpt_header_bytes h @ rest) = Inr h"
  using assms
  by (simp add: gpt_header_new_def gpt_header_bytes_def gpt_header_ok_def le_field_def slice_res_def uuid_from_bytes)

definition demo_header :: gpt_header where
  "demo_header = \<lparr>gpt_signature = [0x45, 0x46, 0x49, 0x20, 0x50, 0x41, 0x52, 0x54], revision = 0x10000, header_size = 92,
     header_checksum = 7, gpt_reserved = [0, 0, 0, 0], header_lba = 1, header_lba_alt = 9999, first_usable_block = 34,
     last_usable_block = 9966, guid = demo_guid, guid_lba = 2, partition_entry_count = 128, partition_entry_size = 128,
     partition_table_crc = 11\<rparr>"

theorem gpt_header_roundtrip_witness: "gpt_header_new (gpt_header_bytes demo_header @ replicate 420 0) = Inr demo_header"
  by (rule gpt_header_roundtrip) (simp add: gpt_header_ok_def demo_header_def demo_guid_def uuid_ok_def)

section \<open>Bounds of partition reads\<close>

fun partition_start :: "partition \<Rightarrow> u64" where
  "partition_start (GPTPartition p) = start_sector p"
| "partition_start (MBRPartition p) = ucast (partition_start_lba p)"

text \<open>The number of sectors a partition lets its clients read.\<close>

fun readable :: "partition \<Rightarrow> nat" where
  "readable (GPTPartition p) = unat (end_sector p) - unat (start_sector p)"
| "readable (MBRPartition p) = unat (partition_sectors p)"

fun partition_ok :: "partition \<Rightarrow> bool" where
  "partition_ok (GPTPartition p) \<longleftrightarrow> start_sector p \<le> end_sector p"
| "partition_ok (MBRPartition p) \<longleftrightarrow> True"

lemma unat_u32_to_u64 [simp]: "unat (ucast (x :: u32) :: u64) = unat x"
  by (rule unat_ucast_up) simp

lemma unat_sum3:
  fixes a b c :: u64
  assumes "unat a + unat b + unat c < 2 ^ 64"
  shows "unat (a + b + c) = unat a + unat b + unat c"
  using assms by (simp add: unat_add_no_wrap)

lemma partition_read_bounds:
  assumes "partition_ok p" and "unat (partition_start p) + unat s + unat n < 2 ^ 64"
  shows "partition_read dev p s n =
    (if unat s + unat n \<le> readable p then dev (partition_start p + s) n else Inl ErrUnit)"
proof (cases p)
  case (GPTPartition e)
  have "unat (start_sector e + s + n) = unat (start_sector e) + unat s + unat n"
    using assms(2) GPTPartition by (intro unat_sum3) simp
  with assms(1) GPTPartition show ?thesis by (auto simp: word_less_nat_alt word_le_nat_alt)
next
  case (MBRPartition e)
  let ?b = "ucast (partition_start_lba e) :: u64" and ?k = "ucast (partition_sectors e) :: u64"
  have "unat (?b + s + n) = unat ?b + unat s + unat n"
    using assms(2) MBRPartition by (intro unat_sum3) simp
  moreover have "unat (?b + ?k) = unat ?b + unat ?k"
    using unsigned_less [of "partition_start_lba e", where 'a = nat] unsigned_less [of "partition_sectors e", where 'a = nat]
    by (intro unat_add_no_wrap) simp
  ultimately show ?thesis
    using MBRPartition by (auto simp: word_less_nat_alt)
qed

text \<open>C39: a partition confines the reads whose end does not wrap. When start of the partition, relative sector and count add up to less than
  \<open>2\<^sup>6\<^sup>4\<close>, the read goes to the device, shifted by the start of the partition, exactly when it lies inside the readable
  part, and is refused otherwise. A request that wraps is not confined, see \<open>partition_read_wraps\<close>.\<close>

theorem partition_read_confined:
  assumes "partition_ok p" and "unat (partition_start p) + unat s + unat n < 2 ^ 64"
  shows "partition_read dev p s n =
    (if unat s + unat n \<le> readable p then dev (partition_start p + s) n else Inl ErrUnit)"
  by (rule partition_read_bounds [OF assms])

theorem partition_read_confined_witness:
  "partition_read (\<lambda>s n. Inr (replicate (unat n * 512) (ucast s))) (GPTPartition demo_entry) 3 2
     = Inr (replicate (unat (2 :: usize) * 512) (ucast (2051 :: u64)))"
  by (subst partition_read_confined) (simp_all add: demo_entry_def)

text \<open>The last sector of a GPT partition cannot be read. The end sector of a GPT entry belongs to the partition, but
  \<^verbatim>\<open>read\<close> treats it as the first sector behind it: the request for it is refused for every partition.\<close>

theorem gpt_last_sector_refused:
  assumes "start_sector p \<le> end_sector p" and "unat (end_sector p) + 1 < 2 ^ 64"
  shows "partition_read dev (GPTPartition p) (end_sector p - start_sector p) 1 = Inl ErrUnit"
proof -
  have "unat (end_sector p + 1) = unat (end_sector p) + 1"
    using assms(2) by (subst unat_add_no_wrap) simp_all
  then show ?thesis by (simp add: word_less_nat_alt)
qed

theorem gpt_last_sector_refused_witness:
  "partition_read (\<lambda>s n. Inr [ucast s]) (GPTPartition demo_entry) 2047 1 = Inl ErrUnit"
  using gpt_last_sector_refused [of demo_entry "\<lambda>s n. Inr [ucast s]"] by (simp add: demo_entry_def)

text \<open>A wrapping request leaves the partition. The bounds check adds in 64 bits, so a relative sector close to
  \<open>2 ^ 64\<close> passes it and reaches sectors in front of the partition, here sector 0 of the disk.\<close>

theorem partition_read_wraps:
  "partition_read dev (GPTPartition demo_entry) (- 2048) 1 = dev 0 1
   \<and> partition_read dev (MBRPartition \<lparr>boot_indicator = 0, partition_start_chs = [0, 0, 0], partition_type = 0x0C,
        partition_end_chs = [0, 0, 0], partition_start_lba = 2048, partition_sectors = 100\<rparr>) (- 2048) 1 = dev 0 1"
  by (simp add: demo_entry_def)

section \<open>What a block device serves\<close>

text \<open>
  The behaviour clients rely on: sectors are 512 bytes and a read inside the device returns the contents of the
  sectors asked for, one after the other. A partition of such a device is such a device again.
\<close>

definition serves :: "block_read \<Rightarrow> (nat \<Rightarrow> u8 list) \<Rightarrow> nat \<Rightarrow> bool" where
  "serves rd sec cap \<longleftrightarrow> (\<forall>s. length (sec s) = 512)
     \<and> (\<forall>s n. unat s + unat n \<le> cap \<longrightarrow> rd s n = Inr (concat (map sec [unat s..<unat s + unat n])))"

lemma serves_read:
  assumes "serves rd sec cap" "unat s + unat n \<le> cap"
  shows "rd s n = Inr (concat (map sec [unat s..<unat s + unat n]))"
  using assms by (simp add: serves_def)

lemma serves_length: "serves rd sec cap \<Longrightarrow> length (sec s) = 512"
  by (simp add: serves_def)

lemma partition_serves:
  assumes "serves dev sec cap" "partition_ok p" "unat (partition_start p) + readable p \<le> cap"
    "unat (partition_start p) + readable p < 2 ^ 64"
  shows "serves (partition_read dev p) (\<lambda>i. sec (unat (partition_start p) + i)) (readable p)"
  unfolding serves_def
proof (intro conjI allI impI)
  show "length (sec (unat (partition_start p) + s)) = 512" for s
    using assms(1) by (rule serves_length)
  fix s :: u64 and n :: usize
  assume n: "unat s + unat n \<le> readable p"
  let ?b = "unat (partition_start p)"
  have "unat (partition_start p + s) = ?b + unat s"
    using n assms(4) by (intro unat_add_no_wrap) simp
  with n assms have "dev (partition_start p + s) n = Inr (concat (map sec [?b + unat s..<?b + unat s + unat n]))"
    using serves_read [OF assms(1), of "partition_start p + s" n] by simp
  moreover have "map sec [?b + unat s..<?b + unat s + unat n] = map (\<lambda>i. sec (?b + i)) [unat s..<unat s + unat n]"
    by (rule nth_equalityI) (simp_all add: add.assoc)
  ultimately show "partition_read dev p s n = Inr (concat (map (\<lambda>i. sec (?b + i)) [unat s..<unat s + unat n]))"
    using partition_read_bounds [OF assms(2)] n assms(4) by simp
qed

end
