(* ===== verification/Fat.thy ===== *)
theory Fat
  imports Storage Utf
begin

text \<open>
  The FAT file system, \<^verbatim>\<open>src/drivers/fs/fat.rs\<close>: the boot sector and the choice of the FAT type, cluster and sector
  arithmetic, the allocation table in memory and on disk, directory lookup with long file names, and
  reading a file along its cluster chain. The partition is read through the block device \<open>dev\<close>;
  \<open>fat_in_mem\<close> is the kernel feature of that name and \<open>upper\<close> the Unicode upper-casing of the standard
  library. Following a cyclic cluster chain does not return, so the read loop is
  \<^theory_text>\<open>partial_function (option)\<close>.
\<close>

section \<open>On-disk structures\<close>

definition EOC_12 :: u32 where "EOC_12 = 0x0FF8"

definition EOC_16 :: u32 where "EOC_16 = 0xFFF8"

definition EOC_32 :: u32 where "EOC_32 = 0x0FFFFFF8"

record bios_parameter_block =
  oem_identifier :: "u8 list"
  bytes_per_sector :: u16
  sectors_per_cluster :: u8
  reserved_sectors :: u16
  fat_count :: u8
  root_directory_count :: u16
  total_sectors :: u16
  media_descriptor_type :: u8
  bpb_sectors_per_fat :: u16
  sectors_per_track :: u16
  head_count :: u16
  hidden_sectors :: u32
  large_sector_count :: u32
  ebpb_bytes :: "u8 list"

record fat16_ebpb =
  drive_number16 :: u8
  signature16 :: u8
  volume_id16 :: u32
  volume_label16 :: "u8 list"
  system_identifier_string16 :: "u8 list"

record fat32_ebpb =
  sectors_per_fat_ext :: u32
  ebpb_flags :: "u8 list"
  fat_version :: u16
  root_dir_cluster :: u32
  fsinfo_sector :: u16
  backup_bootsector :: u16
  drive_number32 :: u8
  signature32 :: u8
  volume_id32 :: u32
  volume_label32 :: "u8 list"
  system_identifier_string32 :: "u8 list"

datatype fat_type = Fat12 fat16_ebpb | Fat16 fat16_ebpb | Fat32 fat32_ebpb

record fs_info =
  lead_signature :: u32
  mid_signature :: u32
  last_known_free_cluster :: u32
  look_for_free_clusters :: u32
  fs_reserved2 :: "u8 list"
  trail_signature :: u32

text \<open>Casts of raw bytes to a packed structure: reading behind the buffer is outside the model.\<close>

definition cast_at :: "u8 list \<Rightarrow> nat \<Rightarrow> nat \<Rightarrow> u8 list" where
  "cast_at bs a n = take n (drop a bs)"

definition cast_le :: "u8 list \<Rightarrow> nat \<Rightarrow> nat \<Rightarrow> 'w::len word" where
  "cast_le bs a n = of_nat (le_val (cast_at bs a n))"

definition raw_cast :: "nat \<Rightarrow> u8 list \<Rightarrow> 'a \<Rightarrow> 'a res" where
  "raw_cast sz bs x = (if sz \<le> length bs then Inr x else Inl (Panic RawAccess))"

definition bpb_cast :: "u8 list \<Rightarrow> bios_parameter_block res" where
  "bpb_cast bs = raw_cast 90 bs
     \<lparr>oem_identifier = cast_at bs 3 8, bytes_per_sector = cast_le bs 11 2, sectors_per_cluster = cast_le bs 13 1,
      reserved_sectors = cast_le bs 14 2, fat_count = cast_le bs 16 1, root_directory_count = cast_le bs 17 2,
      total_sectors = cast_le bs 19 2, media_descriptor_type = cast_le bs 21 1, bpb_sectors_per_fat = cast_le bs 22 2,
      sectors_per_track = cast_le bs 24 2, head_count = cast_le bs 26 2, hidden_sectors = cast_le bs 28 4,
      large_sector_count = cast_le bs 32 4, ebpb_bytes = cast_at bs 36 54\<rparr>"

definition fat16_cast :: "u8 list \<Rightarrow> fat16_ebpb" where
  "fat16_cast bs = \<lparr>drive_number16 = cast_le bs 0 1, signature16 = cast_le bs 2 1, volume_id16 = cast_le bs 3 4,
     volume_label16 = cast_at bs 7 11, system_identifier_string16 = cast_at bs 18 8\<rparr>"

definition fat32_cast :: "u8 list \<Rightarrow> fat32_ebpb" where
  "fat32_cast bs = \<lparr>sectors_per_fat_ext = cast_le bs 0 4, ebpb_flags = cast_at bs 4 2, fat_version = cast_le bs 6 2,
     root_dir_cluster = cast_le bs 8 4, fsinfo_sector = cast_le bs 12 2, backup_bootsector = cast_le bs 14 2,
     drive_number32 = cast_le bs 28 1, signature32 = cast_le bs 30 1, volume_id32 = cast_le bs 31 4,
     volume_label32 = cast_at bs 35 11, system_identifier_string32 = cast_at bs 46 8\<rparr>"

definition fs_info_from_bytes :: "u8 list \<Rightarrow> fs_info res" where
  "fs_info_from_bytes bytes =
     rbind (rassert (length bytes \<ge> 512)) (\<lambda>_.
     rbind (le_field bytes 0 4) (\<lambda>lead.
     rbind (le_field bytes 484 488) (\<lambda>mid.
     rbind (le_field bytes 488 492) (\<lambda>last.
     rbind (le_field bytes 492 496) (\<lambda>look.
     rbind (slice_res bytes 496 508) (\<lambda>res2.
     rbind (if length bytes = 512 then le_field bytes 508 512 else Inl (Panic UnwrapFailed)) (\<lambda>trail.
       Inr \<lparr>lead_signature = lead, mid_signature = mid, last_known_free_cluster = last,
            look_for_free_clusters = look, fs_reserved2 = res2, trail_signature = trail\<rparr>)))))))"

section \<open>The file system\<close>

record fat_fs =
  fs_partition :: partition
  fs_fs_info :: "fs_info option"
  fat :: "u32 list option"
  bpb :: bios_parameter_block
  fat_start :: u64
  fs_type :: fat_type
  cluster_size :: usize
  sectors_per_fat :: usize

definition root_dir_sectors :: "bios_parameter_block \<Rightarrow> u16 res" where
  "root_dir_sectors b =
     div_res ((root_directory_count b * 32) + (bytes_per_sector b - 1)) (bytes_per_sector b)"

fun system_identifier :: "fat_type \<Rightarrow> u8 list" where
  "system_identifier (Fat12 e) = system_identifier_string16 e"
| "system_identifier (Fat16 e) = system_identifier_string16 e"
| "system_identifier (Fat32 e) = system_identifier_string32 e"

fun type_name :: "fat_type \<Rightarrow> utext" where
  "type_name (Fat12 _) = ascii ''FAT12''"
| "type_name (Fat16 _) = ascii ''FAT16''"
| "type_name (Fat32 _) = ascii ''FAT32''"

definition fat_type_of :: "bios_parameter_block \<Rightarrow> u32 \<Rightarrow> fat_type" where
  "fat_type_of b total_clusters =
     (if total_clusters < 4085 then Fat12 (fat16_cast (ebpb_bytes b))
      else if total_clusters < 65525 then Fat16 (fat16_cast (ebpb_bytes b))
      else Fat32 (fat32_cast (ebpb_bytes b)))"

definition fat_fs_new :: "block_read \<Rightarrow> partition \<Rightarrow> fat_fs res" where
  "fat_fs_new dev p =
     rbind (expect_res (partition_read dev p 0 1)) (\<lambda>bpb_bytes.
     rbind (bpb_cast bpb_bytes) (\<lambda>b.
     let (sectors, fat_size) =
       (if total_sectors b = 0
        then (large_sector_count b, sectors_per_fat_ext (fat32_cast (ebpb_bytes b)))
        else (ucast (total_sectors b), ucast (bpb_sectors_per_fat b)))
     in
     rbind (root_dir_sectors b) (\<lambda>rds.
     let total_data_sectors =
       sectors - (ucast (reserved_sectors b) + (ucast (fat_count b) * fat_size) + ucast rds)
     in
     rbind (div_res total_data_sectors (ucast (sectors_per_cluster b))) (\<lambda>total_clusters.
     let ty = fat_type_of b total_clusters in
     case utf8_decode (system_identifier ty) of
       None \<Rightarrow> Inl ErrUnit
     | Some ident \<Rightarrow>
         if \<not> contains ident (type_name ty) then Inl ErrUnit
         else
           rbind (case ty of
               Fat32 e \<Rightarrow> rbind (expect_res (partition_read dev p (ucast (fsinfo_sector e)) 1)) (\<lambda>bytes.
                 rbind (fs_info_from_bytes bytes) (\<lambda>i. Inr (Some i)))
             | _ \<Rightarrow> Inr None) (\<lambda>info.
           Inr \<lparr>fs_partition = p, fs_fs_info = info, fat = None, bpb = b, fat_start = ucast (reserved_sectors b),
                fs_type = ty, cluster_size = ucast (sectors_per_cluster b) * 512,
                sectors_per_fat = (case ty of Fat32 e \<Rightarrow> ucast (sectors_per_fat_ext e)
                                   | _ \<Rightarrow> ucast (bpb_sectors_per_fat b))\<rparr>)))))"

section \<open>Clusters\<close>

definition first_data_sector :: "fat_fs \<Rightarrow> usize res" where
  "first_data_sector fs =
     rbind (root_dir_sectors (bpb fs)) (\<lambda>rds.
       Inr (ucast (reserved_sectors (bpb fs)) + (ucast (fat_count (bpb fs)) * sectors_per_fat fs) + ucast rds))"

text \<open>The product is taken on \<^verbatim>\<open>isize\<close>; wrapping products of signed and unsigned words agree.\<close>

definition cluster_to_sector :: "fat_fs \<Rightarrow> usize \<Rightarrow> usize res" where
  "cluster_to_sector fs cluster =
     rbind (first_data_sector fs) (\<lambda>first.
       Inr ((cluster - 2) * ucast (sectors_per_cluster (bpb fs)) + first))"

definition sector_to_cluster :: "fat_fs \<Rightarrow> usize \<Rightarrow> usize res" where
  "sector_to_cluster fs sector =
     rbind (first_data_sector fs) (\<lambda>first.
     rbind (div_res (sector - first) (ucast (sectors_per_cluster (bpb fs)))) (\<lambda>q. Inr (q + 2)))"

definition read_cluster :: "block_read \<Rightarrow> fat_fs \<Rightarrow> usize \<Rightarrow> u8 list res" where
  "read_cluster dev fs cluster =
     rbind (cluster_to_sector fs cluster) (\<lambda>s.
       partition_read dev (fs_partition fs) s (ucast (sectors_per_cluster (bpb fs))))"

definition get_next_cluster :: "bool \<Rightarrow> block_read \<Rightarrow> fat_fs \<Rightarrow> usize \<Rightarrow> u32 res" where
  "get_next_cluster fat_in_mem dev fs cluster =
     (if fat_in_mem then
        rbind (unwrap_opt (fat fs)) (\<lambda>table.
        rbind (index_res table (unat cluster)) (\<lambda>v.
          Inr (case fs_type fs of
                 Fat12 _ \<Rightarrow> v AND 0x0FFF
               | Fat16 _ \<Rightarrow> v AND 0xFFFF
               | Fat32 _ \<Rightarrow> v AND 0x0FFFFFFF)))
      else
        (let fat_entry_size = (case fs_type fs of Fat12 _ \<Rightarrow> 2 | Fat16 _ \<Rightarrow> 2 | Fat32 _ \<Rightarrow> 4);
             entry_offset = cluster * fat_entry_size;
             off = unat (entry_offset mod 512)
         in rbind (expect_res (partition_read dev (fs_partition fs) (fat_start fs + entry_offset div 512) 2)) (\<lambda>sector_data.
            case fs_type fs of
              Fat12 _ \<Rightarrow> rbind (le_field sector_data off (off + 2)) (\<lambda>v. Inr (ucast ((v :: u16) AND 0x0FFF)))
            | Fat16 _ \<Rightarrow> rbind (le_field sector_data off (off + 2)) (\<lambda>v. Inr (ucast (v :: u16)))
            | Fat32 _ \<Rightarrow> rbind (le_field sector_data off (off + 4)) (\<lambda>v. Inr (v AND 0x0FFFFFFF)))))"

section \<open>Directories\<close>

record file_entry =
  file_name :: "u8 list"
  extension :: "u8 list"
  fe_attributes :: u8
  creation_tenths :: u8
  creation_time :: u16
  creation_date :: u16
  accessed_date :: u16
  high_first_cluster_number :: u16
  modified_time :: u16
  modified_date :: u16
  low_first_cluster_number :: u16
  file_size :: u32

definition file_entry_cast :: "u8 list \<Rightarrow> file_entry" where
  "file_entry_cast bs = \<lparr>file_name = cast_at bs 0 8, extension = cast_at bs 8 3, fe_attributes = cast_le bs 11 1,
     creation_tenths = cast_le bs 13 1, creation_time = cast_le bs 14 2, creation_date = cast_le bs 16 2,
     accessed_date = cast_le bs 18 2, high_first_cluster_number = cast_le bs 20 2, modified_time = cast_le bs 22 2,
     modified_date = cast_le bs 24 2, low_first_cluster_number = cast_le bs 26 2,
     file_size = cast_le bs 28 4\<rparr>"

definition entry_cluster :: "file_entry \<Rightarrow> u32" where
  "entry_cluster e = ucast (low_first_cluster_number e) OR push_bit 16 (ucast (high_first_cluster_number e))"

definition lfn_characters :: "u8 list \<Rightarrow> u16 list" where
  "lfn_characters bs =
     map (\<lambda>i. cast_le bs (1 + 2 * i) 2) [0..<5] @ map (\<lambda>i. cast_le bs (14 + 2 * i) 2) [0..<6]
     @ map (\<lambda>i. cast_le bs (28 + 2 * i) 2) [0..<2]"

definition lfn_string :: "u8 list list \<Rightarrow> u16 list" where
  "lfn_string parts = concat (map (\<lambda>p. filter (\<lambda>x. x \<noteq> 0xFFFF \<and> x \<noteq> 0) (lfn_characters p)) (rev parts))"

definition short_filename :: "file_entry \<Rightarrow> utext res" where
  "short_filename e =
     rbind (utf8_unwrap (file_name e)) (\<lambda>n.
     rbind (utf8_unwrap (extension e)) (\<lambda>x.
       Inr (if trim_end x = [] then trim_end n else trim_end n @ ascii ''.'' @ trim_end x)))"

function find_entry_from ::
    "(utext \<Rightarrow> utext) \<Rightarrow> u8 list \<Rightarrow> utext \<Rightarrow> nat \<Rightarrow> u8 list list \<Rightarrow> utext option \<Rightarrow> file_entry res" where
  "find_entry_from upper data name i long_filename long_filename_string =
     rbind (slice_res data (i * 32) ((i + 1) * 32)) (\<lambda>bytes.
     if bytes ! 0 = 0x00 then Inl ErrUnit
     else if bytes ! 0 = 0xE5 then find_entry_from upper data name (i + 1) long_filename long_filename_string
     else if bytes ! 11 = 0x0F then
       find_entry_from upper data name (i + 1) (long_filename @ [bytes]) long_filename_string
     else
       rbind (if long_filename \<noteq> []
              then rbind (unwrap_opt (utf16_decode (lfn_string long_filename))) (\<lambda>s. Inr (Some s))
              else Inr long_filename_string) (\<lambda>long_string.
       rbind (short_filename (file_entry_cast bytes)) (\<lambda>short.
         if (case long_string of Some filename \<Rightarrow> filename \<noteq> name | None \<Rightarrow> upper name \<noteq> short)
         then find_entry_from upper data name (i + 1) [] long_string
         else Inr (file_entry_cast bytes))))"
  by pat_completeness auto
termination
  by (relation "measure (\<lambda>(upper, data, name, i, lf, ls). length data - i * 32)") (auto simp: slice_res_eq_Inr)

declare find_entry_from.simps [simp del]

definition find_entry_in_directory ::
    "(utext \<Rightarrow> utext) \<Rightarrow> block_read \<Rightarrow> fat_fs \<Rightarrow> usize \<Rightarrow> utext \<Rightarrow> file_entry res" where
  "find_entry_in_directory upper dev fs cluster name =
     rbind (read_cluster dev fs cluster) (\<lambda>data. find_entry_from upper data name 0 [] None)"

section \<open>Mounting\<close>

definition cluster_bytes :: "fat_fs \<Rightarrow> nat" where
  "cluster_bytes fs = (case fs_type fs of Fat32 _ \<Rightarrow> 4 | _ \<Rightarrow> 2)"

fun sector_entries :: "nat \<Rightarrow> u8 list \<Rightarrow> nat \<Rightarrow> nat \<Rightarrow> u32 list res" where
  "sector_entries k sector j 0 = Inr []"
| "sector_entries k sector j (Suc n) =
     rbind (le_field sector (j * k) (j * k + k)) (\<lambda>v.
     rbind (sector_entries k sector (Suc j) n) (\<lambda>vs. Inr (v # vs)))"

fun load_fat :: "block_read \<Rightarrow> fat_fs \<Rightarrow> nat \<Rightarrow> nat \<Rightarrow> u32 list res" where
  "load_fat dev fs i 0 = Inr []"
| "load_fat dev fs i (Suc n) =
     rbind (expect_res (partition_read dev (fs_partition fs) (fat_start fs + of_nat i) 1)) (\<lambda>sector.
     rbind (sector_entries (cluster_bytes fs) sector 0 (512 div cluster_bytes fs)) (\<lambda>vs.
     rbind (load_fat dev fs (Suc i) n) (\<lambda>ws. Inr (vs @ ws))))"

definition fat_mount :: "bool \<Rightarrow> block_read \<Rightarrow> fat_fs \<Rightarrow> fat_fs res" where
  "fat_mount fat_in_mem dev fs =
     (if fat_in_mem then
        rbind (load_fat dev fs 0 (unat (sectors_per_fat fs))) (\<lambda>table. Inr (fs\<lparr>fat := Some table\<rparr>))
      else Inr (fs\<lparr>fat := None\<rparr>))"

definition fat_unmount :: "fat_fs \<Rightarrow> fat_fs" where
  "fat_unmount fs = fs\<lparr>fat := None\<rparr>"

datatype fat_file = Archive file_entry | Dir usize

definition fat_root :: "fat_fs \<Rightarrow> fat_file res" where
  "fat_root fs =
     rbind (case fs_type fs of
         Fat32 e \<Rightarrow> Inr (ucast (root_dir_cluster e))
       | _ \<Rightarrow> sector_to_cluster fs (ucast (reserved_sectors (bpb fs)) + (ucast (fat_count (bpb fs)) * sectors_per_fat fs)))
       (\<lambda>c. Inr (Dir c))"

section \<open>Files\<close>

fun skip_clusters :: "bool \<Rightarrow> block_read \<Rightarrow> fat_fs \<Rightarrow> u32 \<Rightarrow> nat \<Rightarrow> u32 res" where
  "skip_clusters fat_in_mem dev fs cluster 0 = Inr cluster"
| "skip_clusters fat_in_mem dev fs cluster (Suc n) =
     rbind (get_next_cluster fat_in_mem dev fs (ucast cluster)) (\<lambda>c. skip_clusters fat_in_mem dev fs c n)"

definition end_of_chain :: "fat_fs \<Rightarrow> u32 \<Rightarrow> bool" where
  "end_of_chain fs cluster \<longleftrightarrow>
     (case fs_type fs of
        Fat12 _ \<Rightarrow> cluster \<ge> EOC_12
      | Fat16 _ \<Rightarrow> cluster \<ge> EOC_16
      | Fat32 _ \<Rightarrow> cluster \<ge> EOC_32)"

text \<open>One round of the read loop: the bytes it appends, how many, and the next cluster.\<close>

definition read_round ::
    "bool \<Rightarrow> block_read \<Rightarrow> fat_fs \<Rightarrow> usize \<Rightarrow> usize \<Rightarrow> usize \<Rightarrow> u32 \<Rightarrow> (u8 list \<times> usize \<times> u32) res" where
  "read_round fat_in_mem dev fs count copied_bytes offset cluster =
     rbind (read_cluster dev fs (ucast cluster)) (\<lambda>cluster_data.
     let remaining = count - copied_bytes;
         to_copy = (if remaining > cluster_size fs then cluster_size fs - offset else remaining)
     in rbind (slice_res cluster_data (unat offset) (unat (offset + to_copy))) (\<lambda>bytes.
        rbind (get_next_cluster fat_in_mem dev fs (ucast cluster)) (\<lambda>c. Inr (bytes, to_copy, c))))"

partial_function (option) read_chain ::
    "bool \<Rightarrow> block_read \<Rightarrow> fat_fs \<Rightarrow> usize \<Rightarrow> usize \<Rightarrow> usize \<Rightarrow> u32 \<Rightarrow> u8 list \<Rightarrow> u8 list res option" where
  "read_chain fat_in_mem dev fs count copied_bytes offset cluster file =
     (case read_round fat_in_mem dev fs count copied_bytes offset cluster of
        Inl e \<Rightarrow> Some (Inl e)
      | Inr r \<Rightarrow>
          if end_of_chain fs (snd (snd r)) then Some (Inr (file @ fst r))
          else read_chain fat_in_mem dev fs count (copied_bytes + fst (snd r)) 0 (snd (snd r)) (file @ fst r))"

declare read_chain.simps [code]

fun fat_file_read ::
    "bool \<Rightarrow> block_read \<Rightarrow> fat_fs \<Rightarrow> fat_file \<Rightarrow> usize \<Rightarrow> usize \<Rightarrow> u8 list res option" where
  "fat_file_read fat_in_mem dev fs (Archive archive) count offset =
     obind (Some (div_res offset (cluster_size fs))) (\<lambda>cluster_offset.
     obind (Some (skip_clusters fat_in_mem dev fs (entry_cluster archive) (unat cluster_offset))) (\<lambda>cluster.
       read_chain fat_in_mem dev fs count 0 offset cluster []))"
| "fat_file_read fat_in_mem dev fs (Dir _) count offset = Some (Inl (Panic ExplicitPanic))"

fun fat_lookup ::
    "(utext \<Rightarrow> utext) \<Rightarrow> block_read \<Rightarrow> fat_fs \<Rightarrow> fat_file \<Rightarrow> utext \<Rightarrow> fat_file res" where
  "fat_lookup upper dev fs (Dir directory) nm =
     rbind (find_entry_in_directory upper dev fs directory nm) (\<lambda>e.
       Inr (if fe_attributes e = 0x10 then Dir (ucast (entry_cluster e)) else Archive e))"
| "fat_lookup upper dev fs (Archive _) nm = Inl (Panic ExplicitPanic)"

fun fat_len :: "fat_file \<Rightarrow> usize res" where
  "fat_len (Archive e) = Inr (ucast (file_size e))"
| "fat_len (Dir _) = Inl (Panic ExplicitPanic)"

end
