(* ===== verification/Fat_Correct.thy ===== *)
theory Fat_Correct
  imports Fat
begin

text \<open>
  Correctness of the FAT driver: the table held in memory and the table read from disk give the same chains, the
  root directory of FAT12 and FAT16 volumes is found exactly when its size is a whole number of clusters, a file read
  from its start returns the bytes of its chain, and lookup finds short names but forgets
  to drop a long name.
\<close>

section \<open>The allocation table\<close>

lemma nth_concat_blocks:
  assumes "\<And>q. q < n \<Longrightarrow> length (f q) = m" "q < n" "j < m"
  shows "concat (map f [0..<n]) ! (q * m + j) = f q ! j" and "length (concat (map f [0..<n])) = n * m"
proof -
  show len: "length (concat (map f [0..<n])) = n * m"
    using assms(1)
  proof (induction n)
    case (Suc n)
    then show ?case by simp
  qed simp
  show "concat (map f [0..<n]) ! (q * m + j) = f q ! j"
    using assms
  proof (induction n)
    case (Suc n)
    have ln: "length (concat (map f [0..<n])) = n * m"
      using Suc.prems(1)
    proof (induction n)
      case (Suc n)
      then show ?case by simp
    qed simp
    show ?case
    proof (cases "q = n")
      case True
      with ln show ?thesis by (simp add: nth_append)
    next
      case False
      then have q: "q < n" using Suc.prems(2) by simp
      then have "Suc q * m \<le> n * m" by (intro mult_le_mono1) simp
      then have "q * m + j < n * m" using Suc.prems(3) by simp
      with Suc.IH Suc.prems q ln show ?thesis by (simp add: nth_append)
    qed
  qed simp
qed

lemma upt_first: "[j..<j + Suc n] = j # [Suc j..<Suc j + n]"
  by (simp add: upt_conv_Cons del: upt_Suc)

lemma sector_entries_spec:
  assumes "(j + n) * k \<le> length s"
  shows "sector_entries k s j n = Inr (map (\<lambda>i. of_nat (le_val (take k (drop (i * k) s)))) [j..<j + n])"
  using assms
proof (induction n arbitrary: j)
  case (Suc n)
  have "le_field s (j * k) (j * k + k) = Inr (of_nat (le_val (take k (drop (j * k) s))) :: u32)"
    using Suc.prems by (subst le_field_ok) (simp_all add: algebra_simps)
  moreover have "sector_entries k s (Suc j) n = Inr (map (\<lambda>i. of_nat (le_val (take k (drop (i * k) s)))) [Suc j..<Suc j + n])"
    using Suc.prems by (intro Suc.IH) simp
  ultimately show ?case unfolding upt_first by simp
qed simp

text \<open>The bytes of entry \<open>c\<close> of the table on disk.\<close>

definition fat_entry_bytes :: "(nat \<Rightarrow> u8 list) \<Rightarrow> fat_fs \<Rightarrow> nat \<Rightarrow> u8 list" where
  "fat_entry_bytes sec fs c =
     (let k = cluster_bytes fs in
      take k (drop (c * k mod 512) (sec (unat (fat_start fs) + c * k div 512))))"

lemma cluster_bytes_cases: "cluster_bytes fs = 2 \<or> cluster_bytes fs = 4"
  by (simp add: cluster_bytes_def split: fat_type.splits)

lemma load_fat_spec:
  assumes s: "serves (partition_read dev (fs_partition fs)) sec cap"
    and cap: "unat (fat_start fs) + i + n \<le> cap" "unat (fat_start fs) + i + n < 2 ^ 64"
  shows "load_fat dev fs i n = Inr (concat (map (\<lambda>q. map (\<lambda>j. of_nat (le_val (take (cluster_bytes fs)
      (drop (j * cluster_bytes fs) (sec (unat (fat_start fs) + q)))))) [0..<512 div cluster_bytes fs]) [i..<i + n]))"
  using cap
proof (induction n arbitrary: i)
  case (Suc n)
  have u: "unat (fat_start fs + of_nat i) = unat (fat_start fs) + i"
    using Suc.prems by (subst unat_add_no_wrap) (simp_all add: unat_of_nat)
  have "partition_read dev (fs_partition fs) (fat_start fs + of_nat i) 1 = Inr (sec (unat (fat_start fs) + i))"
    using serves_read [OF s, of "fat_start fs + of_nat i" 1] Suc.prems u by simp
  moreover have "(0 + 512 div cluster_bytes fs) * cluster_bytes fs \<le> length (sec (unat (fat_start fs) + i))"
    using cluster_bytes_cases [of fs] serves_length [OF s] by auto
  note sector_entries_spec [OF this]
  moreover note Suc.IH [of "Suc i"]
  ultimately show ?case using Suc.prems unfolding upt_first by simp
qed simp

lemma loaded_entry:
  assumes s: "serves (partition_read dev (fs_partition fs)) sec cap"
    and cap: "unat (fat_start fs) + unat (sectors_per_fat fs) \<le> cap"
      "unat (fat_start fs) + unat (sectors_per_fat fs) < 2 ^ 64"
    and c: "c * cluster_bytes fs < unat (sectors_per_fat fs) * 512"
  obtains table where "load_fat dev fs 0 (unat (sectors_per_fat fs)) = Inr table" and "c < length table"
    and "table ! c = of_nat (le_val (fat_entry_bytes sec fs c))"
proof -
  let ?k = "cluster_bytes fs" and ?n = "unat (sectors_per_fat fs)"
  let ?m = "512 div ?k"
  let ?q = "c div ?m" and ?j = "c mod ?m"
  let ?f = "\<lambda>q. map (\<lambda>j. of_nat (le_val (take ?k (drop (j * ?k) (sec (unat (fat_start fs) + q))))) :: u32) [0..<?m]"
  have load: "load_fat dev fs 0 ?n = Inr (concat (map ?f [0..<?n]))"
    using load_fat_spec [OF s, of 0 ?n] cap by simp
  have mk: "?m * ?k = 512" "0 < ?k" "0 < ?m"
    using cluster_bytes_cases [of fs] by auto
  then have dm: "c * ?k div 512 = ?q" "c * ?k mod 512 = ?j * ?k"
    using div_mult_mult2 [of ?k c ?m] mod_mult_mult2 [of c ?k ?m] by simp_all
  have q: "?q < ?n"
    using c dm(1) by (metis less_mult_imp_div_less)
  have j: "?j < ?m" "?q * ?m + ?j = c"
    using mk(3) by (rule mod_less_divisor) (rule div_mult_mod_eq)
  note blk = nth_concat_blocks [of ?n ?f ?m, OF _ q j(1)]
  have len: "length (concat (map ?f [0..<?n])) = ?n * ?m"
    by (rule blk(2)) simp
  have "concat (map ?f [0..<?n]) ! (?q * ?m + ?j) = ?f ?q ! ?j"
    by (rule blk(1)) simp
  also have "\<dots> = of_nat (le_val (fat_entry_bytes sec fs c))"
    using j(1) dm by (simp add: fat_entry_bytes_def Let_def)
  finally have "concat (map ?f [0..<?n]) ! c = of_nat (le_val (fat_entry_bytes sec fs c))"
    unfolding j(2) .
  moreover have "c < ?n * ?m"
    using q mk(3) by (simp add: div_less_iff_less_mult)
  ultimately show ?thesis
    using load len by (intro that) auto
qed

lemma entry_offset: "c * cluster_bytes fs mod 512 + cluster_bytes fs \<le> 512"
proof -
  obtain m where m: "512 = m * cluster_bytes fs" "0 < m"
    using cluster_bytes_cases [of fs] that [of 256] that [of 128] by auto
  have "c * cluster_bytes fs mod (m * cluster_bytes fs) = c mod m * cluster_bytes fs"
    by (rule mod_mult_mult2)
  then have "c * cluster_bytes fs mod 512 = c mod m * cluster_bytes fs"
    by (simp only: m(1) [symmetric])
  moreover have "Suc (c mod m) * cluster_bytes fs \<le> m * cluster_bytes fs"
    using m(2) by (intro mult_le_mono1) (simp add: Suc_le_eq)
  ultimately show ?thesis using m(1) by (simp only: mult_Suc)
qed

lemma two_sectors: "[a..<a + unat (2 :: usize)] = [a, Suc a]"
proof -
  have "unat (2 :: usize) = Suc (Suc 0)" by simp
  then show ?thesis by simp
qed

lemma disk_entry:
  assumes s: "serves (partition_read dev (fs_partition fs)) sec cap"
    and cap: "unat (fat_start fs) + unat (sectors_per_fat fs) < cap"
      "unat (fat_start fs) + unat (sectors_per_fat fs) < 2 ^ 63"
    and c: "unat c * cluster_bytes fs < unat (sectors_per_fat fs) * 512" "unat c < 2 ^ 62"
    and e: "e = c * of_nat (cluster_bytes fs)"
  obtains d where "partition_read dev (fs_partition fs) (fat_start fs + e div 512) 2 = Inr d"
    and "length d = 1024"
    and "take (cluster_bytes fs) (drop (unat (e mod 512)) d) = fat_entry_bytes sec fs (unat c)"
    and "unat (e mod 512) + cluster_bytes fs \<le> 512"
proof -
  let ?k = "cluster_bytes fs"
  have ue: "unat e = unat c * ?k"
    using c(2) cluster_bytes_cases [of fs] unfolding e by (elim disjE) (simp_all add: unat_word_ariths)
  let ?q = "unat c * ?k div 512"
  have q: "?q < unat (sectors_per_fat fs)"
    using c(1) by (rule less_mult_imp_div_less)
  have ud: "unat (e div 512) = ?q" "unat (e mod 512) = unat c * ?k mod 512"
    by (simp_all add: unat_div_distrib unat_mod_distrib ue)
  then have us: "unat (fat_start fs + e div 512) = unat (fat_start fs) + ?q"
    using q cap(2) by (subst unat_add_no_wrap) simp_all
  let ?d = "sec (unat (fat_start fs) + ?q) @ sec (Suc (unat (fat_start fs) + ?q))"
  have "unat (fat_start fs + e div 512) + unat (2 :: usize) \<le> cap"
    using us q cap(1) by simp
  from serves_read [OF s this]
  have rd: "partition_read dev (fs_partition fs) (fat_start fs + e div 512) 2 = Inr ?d"
    unfolding us two_sectors by simp
  have off: "unat c * ?k mod 512 + ?k \<le> 512"
    by (rule entry_offset)
  have len: "length (sec x) = 512" for x
    by (rule serves_length [OF s])
  have "take ?k (drop (unat (e mod 512)) ?d) = fat_entry_bytes sec fs (unat c)"
    using off len by (simp add: ud fat_entry_bytes_def Let_def)
  with rd len off ud show ?thesis by (intro that [of ?d]) simp_all
qed

lemma u16_as_u32:
  assumes "x < 2 ^ 16"
  shows "ucast (of_nat x :: u16) = (of_nat x :: u32)"
    and "(of_nat x :: u32) AND 0xFFFF = of_nat x" and "ucast ((of_nat x :: u16) AND 0x0FFF) = (of_nat x :: u32) AND 0x0FFF"
proof -
  show u: "ucast (of_nat x :: u16) = (of_nat x :: u32)"
    using assms by (simp add: word_unat_eq_iff unat_ucast_up unat_of_nat)
  have m: "(0xFFFF :: u32) = mask 16" "(0x0FFF :: u32) = mask 12" "(0x0FFF :: u16) = mask 12"
    by (simp_all add: mask_eq_exp_minus_1)
  have val: "unat (of_nat x :: u32) = x" "unat (of_nat x :: u16) = x"
    using assms by (simp_all add: unat_of_nat)
  have "unat (take_bit 16 (of_nat x :: u32)) = unat (of_nat x :: u32)"
    unfolding unat_take_bit val using assms by simp
  then show "(of_nat x :: u32) AND 0xFFFF = of_nat x"
    unfolding m by (simp only: take_bit_eq_mask [symmetric] word_unat_eq_iff)
  have "unat (ucast (take_bit 12 (of_nat x :: u16)) :: u32) = unat (take_bit 12 (of_nat x :: u32))"
    unfolding unat_take_bit val by (subst unat_ucast_up) (simp_all only: unat_take_bit val, simp_all)
  then show "ucast ((of_nat x :: u16) AND 0x0FFF) = (of_nat x :: u32) AND 0x0FFF"
    unfolding m by (simp only: take_bit_eq_mask [symmetric] word_unat_eq_iff)
qed

lemma entry_val_16: "cluster_bytes fs = 2 \<Longrightarrow> le_val (fat_entry_bytes sec fs c) < 2 ^ 16"
proof -
  assume "cluster_bytes fs = 2"
  then have "length (fat_entry_bytes sec fs c) \<le> 2"
    by (simp add: fat_entry_bytes_def Let_def)
  then have "(256 :: nat) ^ length (fat_entry_bytes sec fs c) \<le> 256 ^ 2"
    by (intro power_increasing) simp_all
  with le_val_bound [of "fat_entry_bytes sec fs c"] show ?thesis by simp
qed

text \<open>C36: keeping the allocation table in memory does not change the chains. On a partition that serves its sectors,
  with at least one sector behind the table, mounting with the table in memory succeeds, and for every entry inside the
  table the next cluster is the one that is read from disk, for all three FAT types.\<close>

theorem fat_in_mem_equiv:
  assumes "serves (partition_read dev (fs_partition fs)) sec cap"
    and "unat (fat_start fs) + unat (sectors_per_fat fs) < cap"
    and "unat (fat_start fs) + unat (sectors_per_fat fs) < 2 ^ 63"
    and "unat c * cluster_bytes fs < unat (sectors_per_fat fs) * 512" and "unat c < 2 ^ 62"
  shows "\<exists>fs1. fat_mount True dev fs = Inr fs1
    \<and> get_next_cluster True dev fs1 c = get_next_cluster False dev fs c \<and> is_ok (get_next_cluster False dev fs c)"
proof -
  obtain table where table: "load_fat dev fs 0 (unat (sectors_per_fat fs)) = Inr table" "unat c < length table"
    "table ! unat c = of_nat (le_val (fat_entry_bytes sec fs (unat c)))"
    using loaded_entry [OF assms(1) less_imp_le [OF assms(2)] _ assms(4)] assms(3) by auto
  define e where "e = c * of_nat (cluster_bytes fs)"
  obtain d where d: "partition_read dev (fs_partition fs) (fat_start fs + e div 512) 2 = Inr d" "length d = 1024"
    "take (cluster_bytes fs) (drop (unat (e mod 512)) d) = fat_entry_bytes sec fs (unat c)"
    "unat (e mod 512) + cluster_bytes fs \<le> 512"
    by (rule disk_entry [OF assms e_def])
  have mnt: "fat_mount True dev fs = Inr (fs\<lparr>fat := Some table\<rparr>)"
    by (simp add: fat_mount_def table(1))
  have field: "le_field d (unat (e mod 512)) (unat (e mod 512) + cluster_bytes fs)
      = Inr (of_nat (le_val (fat_entry_bytes sec fs (unat c))) :: u16)"
    "le_field d (unat (e mod 512)) (unat (e mod 512) + cluster_bytes fs)
      = Inr (of_nat (le_val (fat_entry_bytes sec fs (unat c))) :: u32)"
    using d(2-4) by (subst le_field_ok; simp)+
  show ?thesis
  proof (cases "fs_type fs")
    case (Fat12 x)
    then have k: "cluster_bytes fs = 2" by (simp add: cluster_bytes_def)
    have "get_next_cluster False dev fs c = Inr ((of_nat (le_val (fat_entry_bytes sec fs (unat c))) :: u32) AND 0x0FFF)"
      using d(1) field(1) u16_as_u32(3) [OF entry_val_16 [OF k]] Fat12
      by (simp add: get_next_cluster_def Let_def k e_def)
    with mnt table Fat12 show ?thesis by (simp add: get_next_cluster_def)
  next
    case (Fat16 x)
    then have k: "cluster_bytes fs = 2" by (simp add: cluster_bytes_def)
    have "get_next_cluster False dev fs c = Inr ((of_nat (le_val (fat_entry_bytes sec fs (unat c))) :: u32) AND 0xFFFF)"
      using d(1) field(1) u16_as_u32(1,2) [OF entry_val_16 [OF k]] Fat16
      by (simp add: get_next_cluster_def Let_def k e_def)
    with mnt table Fat16 show ?thesis by (simp add: get_next_cluster_def)
  next
    case (Fat32 x)
    then have k: "cluster_bytes fs = 4" by (simp add: cluster_bytes_def)
    have "get_next_cluster False dev fs c = Inr ((of_nat (le_val (fat_entry_bytes sec fs (unat c))) :: u32) AND 0x0FFFFFFF)"
      using d(1) field(2) Fat32 by (simp add: get_next_cluster_def Let_def k e_def)
    with mnt table Fat32 show ?thesis by (simp add: get_next_cluster_def)
  qed
qed

text \<open>A device that holds the given sectors.\<close>

definition image_dev :: "(nat \<Rightarrow> u8 list) \<Rightarrow> block_read" where
  "image_dev sec = (\<lambda>s n. Inr (concat (map sec [unat s..<unat s + unat n])))"

lemma serves_image: "(\<And>s. length (sec s) = 512) \<Longrightarrow> serves (image_dev sec) sec cap"
  by (simp add: serves_def image_dev_def)

definition demo_bpb :: bios_parameter_block where
  "demo_bpb = \<lparr>oem_identifier = replicate 8 32, bytes_per_sector = 512, sectors_per_cluster = 4, reserved_sectors = 1,
     fat_count = 2, root_directory_count = 512, total_sectors = 20000, media_descriptor_type = 0xF8,
     bpb_sectors_per_fat = 20, sectors_per_track = 63, head_count = 16, hidden_sectors = 0, large_sector_count = 0,
     ebpb_bytes = replicate 54 0\<rparr>"

definition demo_fat :: fat_fs where
  "demo_fat = \<lparr>fs_partition = GPTPartition demo_entry, fs_fs_info = None, fat = None, bpb = demo_bpb, fat_start = 1,
     fs_type = Fat16 (fat16_cast (replicate 54 0)), cluster_size = 2048, sectors_per_fat = 20\<rparr>"

definition demo_sec :: "nat \<Rightarrow> u8 list" where
  "demo_sec s = replicate 512 (of_nat s)"

lemma demo_fat_serves:
  "serves (partition_read (image_dev demo_sec) (fs_partition demo_fat)) (\<lambda>i. demo_sec (2048 + i)) 2047"
proof -
  have "serves (image_dev demo_sec) demo_sec 5000"
    by (rule serves_image) (simp add: demo_sec_def)
  from partition_serves [OF this, of "GPTPartition demo_entry"] show ?thesis
    by (simp add: demo_fat_def demo_entry_def)
qed

theorem fat_in_mem_equiv_witness:
  "\<exists>fs1. fat_mount True (image_dev demo_sec) demo_fat = Inr fs1
     \<and> get_next_cluster True (image_dev demo_sec) fs1 300 = get_next_cluster False (image_dev demo_sec) demo_fat 300"
proof -
  have "unat (300 :: usize) * cluster_bytes demo_fat < unat (sectors_per_fat demo_fat) * 512"
    by (simp add: cluster_bytes_def demo_fat_def)
  from fat_in_mem_equiv [OF demo_fat_serves _ _ this] show ?thesis
    by (auto simp: demo_fat_def)
qed

section \<open>The root directory of FAT12 and FAT16 volumes\<close>

lemma word_pow2_dvd:
  fixes w :: u64
  assumes "k \<le> 64"
  shows "2 ^ k dvd unat (- w) \<longleftrightarrow> 2 ^ k dvd unat w"
proof (cases "w = 0")
  case False
  then have "0 < unat w" by (simp add: unat_gt_0)
  then have "unat (- w) = 2 ^ 64 - unat w"
    using unat_sub_if' [of 0 w] by simp
  moreover have "unat w \<le> 2 ^ 64"
    using unsigned_less [of w, where 'a = nat] by simp
  moreover have "(2 :: nat) ^ k dvd 2 ^ 64"
    using assms by (rule le_imp_power_dvd)
  ultimately show ?thesis
    by (metis dvd_diffD dvd_diffD1 dvd_diff_nat)
qed simp

text \<open>The root directory of a FAT12 or FAT16 volume is found only when it fills whole clusters. The driver turns the
  first sector of the root directory, which lies in front of the data area, into a cluster number with an unsigned division.
  With a power of two of sectors per cluster, translating that cluster back gives the first sector of the root directory
  exactly when the number of its sectors is a multiple of the cluster size; otherwise a sector
  of the allocation table is read as the directory.\<close>

theorem fat16_root_sector:
  assumes "\<And>e. fs_type fs \<noteq> Fat32 e" and "root_dir_sectors (bpb fs) = Inr rds"
    and "unat (sectors_per_cluster (bpb fs)) = 2 ^ k"
  shows "\<exists>c. fat_root fs = Inr (Dir c)
    \<and> (cluster_to_sector fs c = Inr (ucast (reserved_sectors (bpb fs)) + ucast (fat_count (bpb fs)) * sectors_per_fat fs)
        \<longleftrightarrow> unat (sectors_per_cluster (bpb fs)) dvd unat rds)"
proof -
  let ?r = "ucast (reserved_sectors (bpb fs)) + ucast (fat_count (bpb fs)) * sectors_per_fat fs :: usize"
  let ?spc = "ucast (sectors_per_cluster (bpb fs)) :: usize"
  let ?x = "- (ucast rds :: usize)"
  have spc: "unat ?spc = 2 ^ k"
    using assms(3) by (simp add: unat_ucast_up)
  have k: "k \<le> 64"
  proof (rule ccontr)
    assume "\<not> k \<le> 64"
    then have "(2 :: nat) ^ 64 \<le> 2 ^ k" by (intro power_increasing) simp_all
    with spc unsigned_less [of ?spc, where 'a = nat] show False by simp
  qed
  have nz: "?spc \<noteq> 0"
    using spc by (metis power_not_zero unat_0 zero_neq_numeral)
  have first: "first_data_sector fs = Inr (?r + ucast rds)"
    by (simp add: first_data_sector_def assms(2))
  let ?c = "?x div ?spc + 2"
  have root: "fat_root fs = Inr (Dir ?c)"
  proof (cases "fs_type fs")
    case (Fat32 e)
    with assms(1) [of e] show ?thesis by simp
  qed (use first nz in \<open>simp_all add: fat_root_def sector_to_cluster_def\<close>)
  have "?x div ?spc * ?spc = ?x - ?x mod ?spc"
    by (metis add_diff_cancel_right' div_mult_mod_eq)
  then have "cluster_to_sector fs ?c = Inr (?r - ?x mod ?spc)"
    by (simp add: cluster_to_sector_def first algebra_simps)
  then have "cluster_to_sector fs ?c = Inr ?r \<longleftrightarrow> ?x mod ?spc = 0"
    by auto
  also have "\<dots> \<longleftrightarrow> 2 ^ k dvd unat ?x"
    by (simp only: word_unat_eq_iff unat_mod_distrib spc unat_0 mod_eq_0_iff_dvd)
  also have "\<dots> \<longleftrightarrow> 2 ^ k dvd unat rds"
    unfolding word_pow2_dvd [OF k] by (simp add: unat_ucast_up)
  finally show ?thesis
    using root assms(3) by auto
qed

theorem fat16_root_sector_witness:
  "\<exists>c. fat_root demo_fat = Inr (Dir c) \<and> cluster_to_sector demo_fat c = Inr 41"
proof -
  have "(16895 :: u16) div 512 = 32"
    by (simp only: word_unat_eq_iff unat_div_distrib) simp
  then have rds: "root_dir_sectors (bpb demo_fat) = Inr 32"
    by (simp add: root_dir_sectors_def demo_fat_def demo_bpb_def)
  have "unat (sectors_per_cluster (bpb demo_fat)) = 2 ^ 2" "\<And>e. fs_type demo_fat \<noteq> Fat32 e"
    by (simp_all add: demo_fat_def demo_bpb_def)
  from fat16_root_sector [OF this(2) rds this(1)] show ?thesis
    by (simp add: demo_fat_def demo_bpb_def)
qed

section \<open>Reading a file\<close>

text \<open>The clusters of a file: each one's table entry names the next, the last one's is an end-of-chain mark.\<close>

fun cluster_chain :: "bool \<Rightarrow> block_read \<Rightarrow> fat_fs \<Rightarrow> u32 list \<Rightarrow> bool" where
  "cluster_chain fat_in_mem dev fs [] \<longleftrightarrow> False"
| "cluster_chain fat_in_mem dev fs [c] \<longleftrightarrow>
     (case get_next_cluster fat_in_mem dev fs (ucast c) of Inr e \<Rightarrow> end_of_chain fs e | Inl _ \<Rightarrow> False)"
| "cluster_chain fat_in_mem dev fs (c # d # cs) \<longleftrightarrow>
     get_next_cluster fat_in_mem dev fs (ucast c) = Inr d \<and> \<not> end_of_chain fs d \<and> cluster_chain fat_in_mem dev fs (d # cs)"

lemma read_round_start:
  assumes "read_cluster dev fs (ucast c) = Inr dat" "length dat = unat (cluster_size fs)"
    and "get_next_cluster fat_in_mem dev fs (ucast c) = Inr e"
    and "unat copied \<le> unat count"
  shows "\<exists>n. read_round fat_in_mem dev fs count copied 0 c = Inr (take (unat count - unat copied) dat, n, e)
    \<and> unat n = min (unat count - unat copied) (unat (cluster_size fs))"
proof -
  have r: "unat (count - copied) = unat count - unat copied"
    using assms(4) by (simp add: unat_sub word_le_nat_alt)
  show ?thesis
    using assms by (auto simp: read_round_def Let_def r word_less_nat_alt min_def)
qed

lemma read_chain_spec:
  assumes "cluster_chain fat_in_mem dev fs cs"
    and "\<And>c. c \<in> set cs \<Longrightarrow> read_cluster dev fs (ucast c) = Inr (dat c) \<and> length (dat c) = unat (cluster_size fs)"
    and "unat copied \<le> unat count"
  shows "read_chain fat_in_mem dev fs count copied 0 (List.hd cs) file
    = Some (Inr (file @ take (unat count - unat copied) (concat (map dat cs))))"
  using assms
proof (induction fat_in_mem dev fs cs arbitrary: copied "file" rule: cluster_chain.induct)
  case (2 fat_in_mem dev fs c)
  then obtain e where e: "get_next_cluster fat_in_mem dev fs (ucast c) = Inr e" "end_of_chain fs e"
    by (auto split: sum.splits)
  from 2 obtain n where
    "read_round fat_in_mem dev fs count copied 0 c = Inr (take (unat count - unat copied) (dat c), n, e)"
    using read_round_start [OF _ _ e(1), of "dat c" copied count] by auto
  with e(2) show ?case by (simp add: read_chain.simps)
next
  case (3 fat_in_mem dev fs c d cs)
  let ?r = "unat count - unat copied"
  have d: "read_cluster dev fs (ucast c) = Inr (dat c)" "length (dat c) = unat (cluster_size fs)"
    using "3.prems"(2) [of c] by simp_all
  from "3.prems" obtain n where
    n: "read_round fat_in_mem dev fs count copied 0 c = Inr (take ?r (dat c), n, d)" "unat n = min ?r (unat (cluster_size fs))"
    using read_round_start [OF d, of fat_in_mem "d" copied count] by auto
  have un: "unat (copied + n) = unat copied + unat n"
    using n(2) "3.prems"(3) unsigned_less [of count, where 'a = nat] by (subst unat_add_no_wrap) simp_all
  have "unat copied + unat n \<le> unat count"
    using n(2) "3.prems"(3) by simp
  then have "read_chain fat_in_mem dev fs count (copied + n) 0 d (file @ take ?r (dat c))
      = Some (Inr ((file @ take ?r (dat c)) @ take (unat count - (unat copied + unat n)) (concat (map dat (d # cs)))))"
    using "3.IH" [of "copied + n"] "3.prems" un by simp
  moreover have "unat count - (unat copied + unat n) = ?r - length (dat c)"
    using n(2) d(2) by simp
  ultimately show ?case
    using n(1) "3.prems"(1) by (subst read_chain.simps) simp
qed simp

text \<open>C37: reading a file from its start. When the clusters of a file form a chain that ends, and each of them can be read,
  a read at offset 0 returns, and what it returns is the requested number of bytes of the clusters in chain
  order, or all of them when fewer are there; the recorded length of the file plays no part.\<close>

theorem fat_file_read_chain:
  assumes "cluster_chain fat_in_mem dev fs cs" and "List.hd cs = entry_cluster e" and "cluster_size fs \<noteq> 0"
    and "\<And>c. c \<in> set cs \<Longrightarrow> read_cluster dev fs (ucast c) = Inr (dat c) \<and> length (dat c) = unat (cluster_size fs)"
  shows "fat_file_read fat_in_mem dev fs (Archive e) count 0
    = Some (Inr (take (unat count) (concat (map dat cs))))"
  using read_chain_spec [OF assms(1,4), of 0 count "[]"] assms(2,3) by simp

text \<open>A volume with one file of two clusters: entry 2 of the table names cluster 3, entry 3 ends the chain.\<close>

definition two_cluster_sec :: "nat \<Rightarrow> u8 list" where
  "two_cluster_sec s =
     (if s = 2049 then [0xF8, 0xFF, 0xFF, 0xFF, 3, 0, 0xFF, 0xFF] @ replicate 504 0 else replicate 512 (of_nat s))"

definition two_cluster_file :: file_entry where
  "two_cluster_file = \<lparr>file_name = replicate 8 65, extension = replicate 3 32, fe_attributes = 0x20,
     creation_tenths = 0, creation_time = 0, creation_date = 0, accessed_date = 0, high_first_cluster_number = 0,
     modified_time = 0, modified_date = 0, low_first_cluster_number = 2, file_size = 4096\<rparr>"

abbreviation two_cluster_dev :: block_read where
  "two_cluster_dev \<equiv> image_dev two_cluster_sec"

lemma two_cluster_serves:
  "serves (partition_read two_cluster_dev (fs_partition demo_fat)) (\<lambda>i. two_cluster_sec (2048 + i)) 2047"
proof -
  have "serves two_cluster_dev two_cluster_sec 5000"
    by (rule serves_image) (simp add: two_cluster_sec_def)
  from partition_serves [OF this, of "GPTPartition demo_entry"] show ?thesis
    by (simp add: demo_fat_def demo_entry_def)
qed

lemma demo_fat_sel:
  "fs_type demo_fat = Fat16 (fat16_cast (replicate 54 0))" "fat_start demo_fat = 1" "cluster_size demo_fat = 2048"
  by (simp_all add: demo_fat_def)

lemma two_cluster_next:
  "get_next_cluster False two_cluster_dev demo_fat 2 = Inr 3"
  "get_next_cluster False two_cluster_dev demo_fat 3 = Inr 0xFFFF"
proof -
  have "partition_read two_cluster_dev (fs_partition demo_fat) 1 2
      = Inr (two_cluster_sec 2049 @ two_cluster_sec 2050)"
    using serves_read [OF two_cluster_serves, of 1 2] unfolding two_sectors by simp
  then show "get_next_cluster False two_cluster_dev demo_fat 2 = Inr 3"
    "get_next_cluster False two_cluster_dev demo_fat 3 = Inr 0xFFFF"
    by (simp_all add: get_next_cluster_def Let_def demo_fat_sel two_cluster_sec_def le_field_ok)
qed

lemma four_sectors: "[a..<a + unat (4 :: usize)] = [a, Suc a, Suc (Suc a), Suc (Suc (Suc a))]"
proof -
  have "unat (4 :: usize) = Suc (Suc (Suc (Suc 0)))" by simp
  then show ?thesis by (simp only: upt_first) simp
qed

definition demo_cluster :: "nat \<Rightarrow> u8 list" where
  "demo_cluster s = concat (map (\<lambda>i. replicate 512 (of_nat i)) [s, Suc s, Suc (Suc s), Suc (Suc (Suc s))])"

lemma demo_first_data: "first_data_sector demo_fat = Inr 73"
proof -
  have "(16895 :: u16) div 512 = 32"
    by (simp only: word_unat_eq_iff unat_div_distrib) simp
  then show ?thesis
    by (simp add: first_data_sector_def root_dir_sectors_def demo_fat_def demo_bpb_def)
qed

lemma two_cluster_read:
  "read_cluster two_cluster_dev demo_fat 2 = Inr (demo_cluster 2121)"
  "read_cluster two_cluster_dev demo_fat 3 = Inr (demo_cluster 2125)"
proof -
  have s: "sectors_per_cluster (bpb demo_fat) = 4" by (simp add: demo_fat_def demo_bpb_def)
  have "partition_read two_cluster_dev (fs_partition demo_fat) 73 4 = Inr (demo_cluster 2121)"
    using serves_read [OF two_cluster_serves, of 73 4] unfolding four_sectors
    by (simp add: two_cluster_sec_def demo_cluster_def)
  then show "read_cluster two_cluster_dev demo_fat 2 = Inr (demo_cluster 2121)"
    by (simp add: read_cluster_def cluster_to_sector_def demo_first_data s)
  have "partition_read two_cluster_dev (fs_partition demo_fat) 77 4 = Inr (demo_cluster 2125)"
    using serves_read [OF two_cluster_serves, of 77 4] unfolding four_sectors
    by (simp add: two_cluster_sec_def demo_cluster_def)
  then show "read_cluster two_cluster_dev demo_fat 3 = Inr (demo_cluster 2125)"
    by (simp add: read_cluster_def cluster_to_sector_def demo_first_data s)
qed

abbreviation two_cluster_data :: "u32 \<Rightarrow> u8 list" where
  "two_cluster_data \<equiv> \<lambda>c. if c = 2 then demo_cluster 2121 else demo_cluster 2125"

lemma demo_cluster_length: "length (demo_cluster s) = 2048"
  by (simp add: demo_cluster_def)

lemma two_cluster_chain:
  shows "cluster_chain False two_cluster_dev demo_fat [2, 3]" and "List.hd [2, 3] = entry_cluster two_cluster_file"
    and "cluster_size demo_fat \<noteq> 0"
    and "\<And>c. c \<in> set [2, 3] \<Longrightarrow> read_cluster two_cluster_dev demo_fat (ucast c) = Inr (two_cluster_data c)
      \<and> length (two_cluster_data c) = unat (cluster_size demo_fat)"
  by (auto simp: two_cluster_next end_of_chain_def EOC_16_def demo_fat_sel entry_cluster_def two_cluster_file_def
      two_cluster_read demo_cluster_length)

theorem fat_file_read_chain_witness:
  "fat_file_read False two_cluster_dev demo_fat (Archive two_cluster_file) 3000 0
    = Some (Inr (demo_cluster 2121 @ take 952 (demo_cluster 2125)))"
  using fat_file_read_chain [OF two_cluster_chain, of 3000] demo_cluster_length by simp

text \<open>A read that starts more than one cluster into a file never succeeds. The driver follows the chain to the cluster of the
  offset but then slices that cluster at the offset into the whole file, which is outside of it.\<close>

theorem fat_file_read_offset:
  assumes "cluster_size fs < offset" and "unat offset + unat count < 2 ^ 64"
    and "\<And>c d. read_cluster dev fs c = Inr d \<Longrightarrow> length d = unat (cluster_size fs)"
  shows "\<exists>err. fat_file_read fat_in_mem dev fs f count offset = Some (Inl err)"
proof -
  have out: "\<exists>err. read_round fat_in_mem dev fs count 0 offset c = Inl err" for c
  proof (cases "read_cluster dev fs (ucast c)")
    case (Inr d)
    from assms(3) [OF this] assms(1) have "length d < unat offset" by (simp add: word_less_nat_alt)
    then have "slice_res d (unat offset) b = Inl (Panic IndexOutOfBounds)" for b
      by (simp add: slice_res_def)
    with Inr show ?thesis by (simp add: read_round_def Let_def)
  qed (simp add: read_round_def)
  have "\<exists>err. read_chain fat_in_mem dev fs count 0 offset c [] = Some (Inl err)" for c
    using out [of c] by (auto simp: read_chain.simps)
  note chain = this
  show ?thesis
  proof (cases f)
    case (Archive e)
    show ?thesis
    proof (cases "cluster_size fs = 0")
      case False
      have "\<exists>err. fat_file_read fat_in_mem dev fs (Archive e) count offset = Some (Inl err)"
      proof (cases "skip_clusters fat_in_mem dev fs (entry_cluster e) (unat (offset div cluster_size fs))")
        case (Inr c)
        with False chain [of c] show ?thesis by simp
      qed (use False in simp)
      with Archive show ?thesis by simp
    qed (simp add: Archive)
  qed simp
qed

theorem fat_file_read_offset_witness:
  "\<exists>err. fat_file_read False two_cluster_dev demo_fat (Archive two_cluster_file) 10 3000 = Some (Inl err)"
proof -
  have len: "length d = unat (cluster_size demo_fat)" if "read_cluster two_cluster_dev demo_fat c = Inr d" for c d
  proof -
    from that obtain s where "partition_read two_cluster_dev (GPTPartition demo_entry) s 4 = Inr d"
      by (auto simp: read_cluster_def demo_fat_def demo_bpb_def)
    then obtain a where "d = concat (map two_cluster_sec [a..<a + unat (4 :: usize)])"
      by (auto simp: image_dev_def Let_def split: if_splits)
    then show ?thesis unfolding four_sectors by (simp add: two_cluster_sec_def demo_fat_def)
  qed
  have "cluster_size demo_fat < 3000" "unat (3000 :: usize) + unat (10 :: usize) < 2 ^ 64"
    by (simp_all add: demo_fat_def)
  from fat_file_read_offset [OF this len] show ?thesis .
qed

section \<open>Directory lookup\<close>

text \<open>An entry without a long name: deleted, or a short entry whose name is valid UTF-8.\<close>

definition plain_entry :: "u8 list \<Rightarrow> bool" where
  "plain_entry e \<longleftrightarrow> length e = 32 \<and> e ! 0 \<noteq> 0
     \<and> (e ! 0 \<noteq> 0xE5 \<longrightarrow> e ! 11 \<noteq> 0x0F \<and> is_ok (short_filename (file_entry_cast e)))"

definition names_entry :: "utext \<Rightarrow> u8 list \<Rightarrow> bool" where
  "names_entry n e \<longleftrightarrow> e ! 0 \<noteq> 0xE5 \<and> short_filename (file_entry_cast e) = Inr n"

lemma find_plain_entries:
  assumes "list_all plain_entry es" and "length pre = i * 32"
  shows "find_entry_from upper (pre @ concat es @ replicate 32 0 @ rest) name i [] None
    = (case find (names_entry (upper name)) es of Some e \<Rightarrow> Inr (file_entry_cast e) | None \<Rightarrow> Inl ErrUnit)"
  using assms
proof (induction es arbitrary: pre i)
  case Nil
  then have "slice_res (pre @ replicate 32 0 @ rest) (i * 32) ((i + 1) * 32) = Inr (replicate 32 0)"
    by (simp add: slice_res_def)
  then show ?case by (subst find_entry_from.simps) simp
next
  case (Cons e es)
  let ?data = "pre @ concat (e # es) @ replicate 32 0 @ rest"
  have pe: "plain_entry e" "list_all plain_entry es"
    using Cons.prems(1) by simp_all
  then have e: "length e = 32" "e ! 0 \<noteq> 0"
    by (simp_all add: plain_entry_def)
  have sl: "slice_res ?data (i * 32) ((i + 1) * 32) = Inr e"
    using Cons.prems(2) e(1) by (simp add: slice_res_def)
  have IH: "find_entry_from upper ?data name (i + 1) [] None
      = (case find (names_entry (upper name)) es of Some e \<Rightarrow> Inr (file_entry_cast e) | None \<Rightarrow> Inl ErrUnit)"
    using Cons.IH [of "pre @ e" "i + 1"] pe(2) Cons.prems(2) e(1) by simp
  show ?case
  proof (cases "e ! 0 = 0xE5")
    case True
    with sl IH show ?thesis by (subst find_entry_from.simps) (simp add: names_entry_def)
  next
    case False
    with pe(1) obtain n where "short_filename (file_entry_cast e) = Inr n" "e ! 11 \<noteq> 0x0F"
      by (auto simp: plain_entry_def is_ok_def split: sum.splits)
    with sl IH e(2) False show ?thesis
      by (subst find_entry_from.simps) (auto simp: names_entry_def)
  qed
qed

text \<open>C38: lookup of a name in a directory without long names. When the cluster of the directory holds deleted and short entries
  followed by the end mark, the lookup returns the first live entry whose 8.3 name is the upper-cased name, as a file
  or a directory according to its attributes, and an error when there is none.\<close>

theorem fat_lookup_short:
  assumes "read_cluster dev fs d = Inr (concat es @ replicate 32 0 @ rest)" and "list_all plain_entry es"
  shows "fat_lookup upper dev fs (Dir d) name
    = (case find (names_entry (upper name)) es of
         None \<Rightarrow> Inl ErrUnit
       | Some e \<Rightarrow> Inr (if fe_attributes (file_entry_cast e) = 0x10 then Dir (ucast (entry_cluster (file_entry_cast e)))
                       else Archive (file_entry_cast e)))"
  using assms(1) find_plain_entries [OF assms(2), of "[]" 0]
  by (simp add: find_entry_in_directory_def split: option.splits)

definition hello_entry :: "u8 list" where
  "hello_entry = [72, 69, 76, 76, 79, 32, 32, 32, 84, 88, 84, 0x20, 0, 0, 0, 0, 0, 0, 0, 0, 0, 0, 0, 0, 0, 0, 2, 0, 5, 0, 0, 0]"

lemma hello_short: "short_filename (file_entry_cast hello_entry) = Inr (ascii ''HELLO.TXT'')"
  by (simp add: short_filename_def file_entry_cast_def cast_at_def hello_entry_def utf8_unwrap_def utf8_ascii
      trim_end_def white_space_def ascii_def)

lemma hello_bytes: "length hello_entry = 32" "hello_entry ! 0 = 72" "hello_entry ! 11 = 0x20"
    "fe_attributes (file_entry_cast hello_entry) = 0x20"
  by (simp_all add: hello_entry_def file_entry_cast_def cast_le_def cast_at_def)

theorem fat_lookup_short_witness:
  "fat_lookup (\<lambda>x. x) (\<lambda>s n. Inr (hello_entry @ replicate 32 0)) demo_fat (Dir 2) (ascii ''HELLO.TXT'')
    = Inr (Archive (file_entry_cast hello_entry))"
proof -
  let ?dev = "\<lambda>s n. Inr (hello_entry @ replicate 32 0) :: u8 list res"
  have "read_cluster ?dev demo_fat 2 = Inr (hello_entry @ replicate 32 0)"
    by (simp add: read_cluster_def cluster_to_sector_def demo_first_data)
      (simp add: demo_fat_def demo_bpb_def demo_entry_def)
  moreover have "list_all plain_entry [hello_entry]"
    by (simp add: plain_entry_def hello_short hello_bytes)
  moreover have "names_entry (ascii ''HELLO.TXT'') hello_entry"
    by (simp add: names_entry_def hello_short hello_bytes)
  ultimately show ?thesis
    using hello_bytes(4) fat_lookup_short [of ?dev demo_fat 2 "[hello_entry]" "[]" "\<lambda>x. x" "ascii ''HELLO.TXT''"] by simp
qed

text \<open>A long name is never forgotten. Once the lookup has passed an entry with a long name other than the one it looks
  for, every later entry without a long name of its own is compared with that old long name, so no short
  name behind it can be found.\<close>

theorem fat_stale_long_name:
  assumes "\<And>j e. i \<le> j \<Longrightarrow> slice_res data (j * 32) ((j + 1) * 32) = Inr e \<Longrightarrow> e ! 11 \<noteq> 0x0F" and "s \<noteq> name"
  shows "\<nexists>e. find_entry_from upper data name i [] (Some s) = Inr e"
  using assms
proof (induction "length data - i * 32" arbitrary: i rule: less_induct)
  case less
  show ?case
  proof (cases "slice_res data (i * 32) ((i + 1) * 32)")
    case (Inr b)
    then have "length data - (i + 1) * 32 < length data - i * 32"
      by (auto simp: slice_res_eq_Inr)
    from less.hyps [OF this] less.prems
    have "\<nexists>e. find_entry_from upper data name (i + 1) [] (Some s) = Inr e"
      by (meson add_leD1)
    with less.prems(1) [OF _ Inr] less.prems(2) Inr show ?thesis
      by (subst find_entry_from.simps) auto
  qed (simp add: find_entry_from.simps)
qed

text \<open>A directory with the long name \<open>a\<close> for the file \<open>A\<close>, followed by the short name \<open>HELLO.TXT\<close>.\<close>

definition lfn_a :: "u8 list" where
  "lfn_a = [0x41, 97, 0, 0, 0, 0xFF, 0xFF, 0xFF, 0xFF, 0xFF, 0xFF, 0x0F, 0, 0, 0xFF, 0xFF, 0xFF, 0xFF, 0xFF, 0xFF,
     0xFF, 0xFF, 0xFF, 0xFF, 0xFF, 0xFF, 0, 0, 0xFF, 0xFF, 0xFF, 0xFF]"

definition entry_a :: "u8 list" where
  "entry_a = [65, 32, 32, 32, 32, 32, 32, 32, 32, 32, 32, 0x20, 0, 0, 0, 0, 0, 0, 0, 0, 0, 0, 0, 0, 0, 0, 0, 0, 0, 0, 0, 0]"

definition stale_dir :: "u8 list" where
  "stale_dir = lfn_a @ entry_a @ hello_entry @ replicate 32 0"

lemma stale_bytes: "length lfn_a = 32" "lfn_a ! 0 = 0x41" "lfn_a ! 11 = 0x0F"
    "length entry_a = 32" "entry_a ! 0 = 65" "entry_a ! 11 = 0x20"
  by (simp_all add: lfn_a_def entry_a_def)

lemma stale_long: "utf16_decode (lfn_string [lfn_a]) = Some (ascii ''a'')"
  by (simp add: lfn_string_def lfn_characters_def lfn_a_def cast_le_def cast_at_def upt_rec ascii_def)

lemma stale_short: "short_filename (file_entry_cast entry_a) = Inr (ascii ''A'')"
  by (simp add: short_filename_def file_entry_cast_def cast_at_def entry_a_def utf8_unwrap_def utf8_ascii
      trim_end_def white_space_def ascii_def)

lemma stale_dir_step:
  "find_entry_from (\<lambda>x. x) stale_dir (ascii ''HELLO.TXT'') 0 [] None
    = find_entry_from (\<lambda>x. x) stale_dir (ascii ''HELLO.TXT'') 2 [] (Some (ascii ''a''))"
proof -
  let ?find = "find_entry_from (\<lambda>x. x) stale_dir (ascii ''HELLO.TXT'')"
  have sl: "slice_res stale_dir 0 32 = Inr lfn_a" "slice_res stale_dir 32 64 = Inr entry_a"
    by (simp_all add: stale_dir_def slice_res_def stale_bytes)
  have ne: "ascii ''a'' \<noteq> ascii ''HELLO.TXT''" by (simp add: ascii_def)
  have "?find 0 [] None = ?find 1 [lfn_a] None"
    by (subst find_entry_from.simps) (simp add: sl stale_bytes)
  also have "\<dots> = ?find 2 [] (Some (ascii ''a''))"
    using ne by (subst find_entry_from.simps)
      (simp add: sl stale_bytes stale_long stale_short flip: numeral_2_eq_2)
  finally show ?thesis .
qed

theorem fat_stale_long_name_witness:
  "\<nexists>e. find_entry_from (\<lambda>x. x) stale_dir (ascii ''HELLO.TXT'') 0 [] None = Inr e"
proof -
  have "e ! 11 \<noteq> 0x0F" if "2 \<le> j" "slice_res stale_dir (j * 32) ((j + 1) * 32) = Inr e" for j e
  proof -
    have "length stale_dir = 128" by (simp add: stale_dir_def stale_bytes hello_bytes)
    with that have "j = 2 \<or> j = 3" "e = take 32 (drop (j * 32) stale_dir)"
      by (auto simp: slice_res_eq_Inr)
    then show ?thesis by (auto simp: stale_dir_def stale_bytes hello_bytes nth_append)
  qed
  from fat_stale_long_name [of 2 stale_dir "ascii ''a''" "ascii ''HELLO.TXT''" "\<lambda>x. x", OF this] show ?thesis
    unfolding stale_dir_step by (simp add: ascii_def)
qed

end
