(* ===== verification/Vfs.thy ===== *)
theory Vfs
  imports Utf
begin

text \<open>
  The virtual file system, \<^verbatim>\<open>src/drivers/fs/vfs.rs\<close>: the list of mounted file systems behind \<^verbatim>\<open>ROOT_VFS\<close>, the tree of
  nodes that have been looked up (\<^verbatim>\<open>NODE_TREE\<close>), path lookup, mounting and unmounting, open files with their reference counts,
  and the bounds check in front of every read. The trait objects \<^verbatim>\<open>dyn FsOps\<close> and \<^verbatim>\<open>dyn VNodeOperations\<close> are a
  record of functions over the type \<open>'fs\<close> of file systems and the type \<open>'ino\<close> of inodes.

  A pointer to a \<^verbatim>\<open>Vfs\<close> is the address of its box and is followed through the list of mounts, so that following a
  pointer to an unmounted file system is an error of the model. A pointer to a tree node is the path
  of the node: nodes are taken not to move, although the \<^verbatim>\<open>BTreeMap\<close> they are stored in moves its
  elements on insertion.
\<close>

section \<open>Interfaces\<close>

datatype vnode_type = NON | Regular | Directory | Block | Character | Link | Socket | Bad

record ('fs, 'ino) fs_ops =
  op_mount :: "utext \<Rightarrow> 'fs \<Rightarrow> 'fs res"
  op_root :: "'fs \<Rightarrow> ('ino \<times> vnode_type) res"
  op_lookup :: "'fs \<Rightarrow> 'ino \<Rightarrow> utext \<Rightarrow> ('ino \<times> vnode_type) res"
  op_read :: "'fs \<Rightarrow> 'ino \<Rightarrow> usize \<Rightarrow> usize \<Rightarrow> u8 list res option"
  op_len :: "'ino \<Rightarrow> usize res"

type_synonym vfs_ptr = nat

section \<open>State\<close>

record 'fs vfs =
  vfs_addr :: vfs_ptr
  mount_point :: "utext option"
  vfs_fs :: "'fs option"
  vnode_covered :: "vfs_ptr option"
  vfs_flags :: u32
  vfs_block_size :: u32
  vfs_data :: bool

text \<open>\<open>vfs_data\<close> says whether \<^verbatim>\<open>data\<close> points at the mounted file system or is still null.\<close>

record 'ino vnode =
  vn_flags :: u16
  ref_count :: u32
  inode :: 'ino
  vfs_mounted_here :: "vfs_ptr option"
  parent_vfs :: vfs_ptr
  file_typ :: vnode_type

datatype 'ino tree_node = TreeNode (tn_vnode: "'ino vnode") (tn_children: "(utext \<times> 'ino tree_node) list")

record ('fs, 'ino) vfs_state =
  node_tree :: "'ino tree_node option"
  mounts :: "'fs vfs list"

type_synonym node_path = "utext list"

definition vfs_new :: "vfs_ptr \<Rightarrow> 'fs \<Rightarrow> utext \<Rightarrow> 'fs vfs" where
  "vfs_new p fs mp = \<lparr>vfs_addr = p, mount_point = Some mp, vfs_fs = Some fs, vnode_covered = None, vfs_flags = 0,
     vfs_block_size = 0, vfs_data = False\<rparr>"

definition vnode_new :: "'ino \<Rightarrow> vnode_type \<Rightarrow> vfs_ptr \<Rightarrow> 'ino vnode" where
  "vnode_new i ty p = \<lparr>vn_flags = 0, ref_count = 0, inode = i, vfs_mounted_here = None, parent_vfs = p, file_typ = ty\<rparr>"

section \<open>Lookup\<close>

definition deref_vfs :: "'fs vfs list \<Rightarrow> vfs_ptr \<Rightarrow> 'fs vfs res" where
  "deref_vfs ms p = (case find (\<lambda>v. vfs_addr v = p) ms of None \<Rightarrow> Inl (Panic RawAccess) | Some v \<Rightarrow> Inr v)"

definition vfs_mount :: "('fs, 'ino) fs_ops \<Rightarrow> 'fs vfs \<Rightarrow> utext \<Rightarrow> 'fs vfs res" where
  "vfs_mount ops v path =
     (case vfs_fs v of
        None \<Rightarrow> Inl (Panic AssertFailed)
      | Some fs \<Rightarrow> rbind (op_mount ops path fs) (\<lambda>fs'. Inr (v\<lparr>vfs_fs := Some fs', vfs_data := True\<rparr>)))"

definition vfs_root :: "('fs, 'ino) fs_ops \<Rightarrow> 'fs vfs \<Rightarrow> 'ino vnode res" where
  "vfs_root ops v =
     (case vfs_fs v of
        None \<Rightarrow> Inl (Panic AssertFailed)
      | Some fs \<Rightarrow> rbind (op_root ops fs) (\<lambda>(i, ty). Inr (vnode_new i ty (vfs_addr v))))"

text \<open>The file system an inode reaches through \<^verbatim>\<open>parent_vfs.data\<close>.\<close>

definition vnode_fs :: "'fs vfs list \<Rightarrow> 'ino vnode \<Rightarrow> 'fs res" where
  "vnode_fs ms vn = rbind (deref_vfs ms (parent_vfs vn)) (\<lambda>v.
     case vfs_fs v of Some fs \<Rightarrow> if vfs_data v then Inr fs else Inl (Panic RawAccess) | None \<Rightarrow> Inl (Panic RawAccess))"

definition vnode_lookup :: "('fs, 'ino) fs_ops \<Rightarrow> 'fs vfs list \<Rightarrow> 'ino vnode \<Rightarrow> utext \<Rightarrow> 'ino vnode res" where
  "vnode_lookup ops ms vn nm =
     rbind (vnode_fs ms vn) (\<lambda>fs. rbind (op_lookup ops fs (inode vn) nm) (\<lambda>(i, ty). Inr (vnode_new i ty (parent_vfs vn))))"

text \<open>What a node that is not in the tree yet is made from.\<close>

definition lookup_child :: "('fs, 'ino) fs_ops \<Rightarrow> 'fs vfs list \<Rightarrow> 'ino vnode \<Rightarrow> utext \<Rightarrow> 'ino vnode res" where
  "lookup_child ops ms vn nm =
     (case vfs_mounted_here vn of
        Some p \<Rightarrow> rbind (deref_vfs ms p) (\<lambda>v. rbind (vfs_root ops v) (\<lambda>r. vnode_lookup ops ms r nm))
      | None \<Rightarrow> vnode_lookup ops ms vn nm)"

fun node_at :: "'ino tree_node \<Rightarrow> node_path \<Rightarrow> 'ino tree_node option" where
  "node_at t [] = Some t"
| "node_at t (n # ns) = (case map_of (tn_children t) n of None \<Rightarrow> None | Some c \<Rightarrow> node_at c ns)"

fun update_at :: "node_path \<Rightarrow> ('ino tree_node \<Rightarrow> 'ino tree_node) \<Rightarrow> 'ino tree_node \<Rightarrow> 'ino tree_node" where
  "update_at [] f t = f t"
| "update_at (n # ns) f t =
     TreeNode (tn_vnode t) (map (\<lambda>(k, c). (k, if k = n then update_at ns f c else c)) (tn_children t))"

definition tree_lookup ::
    "('fs, 'ino) fs_ops \<Rightarrow> 'fs vfs list \<Rightarrow> 'ino tree_node \<Rightarrow> node_path \<Rightarrow> utext \<Rightarrow> 'ino tree_node \<times> node_path res" where
  "tree_lookup ops ms t p nm =
     (if nm = ascii ''..'' then (t, if p = [] then Inl ErrUnit else Inr (butlast p))
      else if nm = ascii ''.'' then (t, Inr p)
      else case node_at t p of
        None \<Rightarrow> (t, Inl (Panic RawAccess))
      | Some node \<Rightarrow>
          if map_of (tn_children node) nm = None then
            (case lookup_child ops ms (tn_vnode node) nm of
               Inl e \<Rightarrow> (t, Inl e)
             | Inr vn \<Rightarrow>
                 (update_at p (\<lambda>d. TreeNode (tn_vnode d) ((nm, TreeNode vn []) # tn_children d)) t, Inr (p @ [nm])))
          else (t, Inr (p @ [nm])))"

fun open_parts ::
    "('fs, 'ino) fs_ops \<Rightarrow> 'fs vfs list \<Rightarrow> 'ino tree_node \<Rightarrow> node_path \<Rightarrow> utext list \<Rightarrow> 'ino tree_node \<times> node_path res" where
  "open_parts ops ms t p [] = (t, Inr p)"
| "open_parts ops ms t p (part # parts) =
     (if part = [] then open_parts ops ms t p parts
      else case tree_lookup ops ms t p part of
        (t', Inr p') \<Rightarrow> open_parts ops ms t' p' parts
      | (t', Inl e) \<Rightarrow> (t', Inl e))"

definition slash :: nat where "slash = 47"

definition vfs_open ::
    "('fs, 'ino) fs_ops \<Rightarrow> ('fs, 'ino) vfs_state \<Rightarrow> utext \<Rightarrow> ('fs, 'ino) vfs_state \<times> node_path res" where
  "vfs_open ops s path =
     (case node_tree s of
        None \<Rightarrow> (s, Inl ErrUnit)
      | Some t \<Rightarrow>
          if mounts s = [] then (s, Inl ErrUnit)
          else case open_parts ops (mounts s) t [] (split_on slash path) of
            (t', r) \<Rightarrow> (s\<lparr>node_tree := Some t'\<rparr>, r))"

section \<open>Mounting\<close>

definition add_vfs_finish ::
    "('fs, 'ino) fs_ops \<Rightarrow> ('fs, 'ino) vfs_state \<Rightarrow> 'fs vfs \<Rightarrow> utext \<Rightarrow> ('fs, 'ino) vfs_state \<times> unit res" where
  "add_vfs_finish ops s v mp =
     (case vfs_mount ops v mp of
        Inl e \<Rightarrow> (s, Inl e)
      | Inr v' \<Rightarrow> (s\<lparr>mounts := mounts s @ [v']\<rparr>, Inr ()))"

text \<open>\<open>p\<close> is the address of the new box.\<close>

definition add_vfs ::
    "('fs, 'ino) fs_ops \<Rightarrow> vfs_ptr \<Rightarrow> ('fs, 'ino) vfs_state \<Rightarrow> utext \<Rightarrow> 'fs \<Rightarrow> ('fs, 'ino) vfs_state \<times> unit res" where
  "add_vfs ops p s mp fs =
     (let v = vfs_new p fs mp in
      if mp = ascii ''/'' then
        if mounts s \<noteq> [] then (s, Inl ErrUnit)
        else (case vfs_root ops v of
            Inl e \<Rightarrow> (s, Inl e)
          | Inr r \<Rightarrow> add_vfs_finish ops (s\<lparr>node_tree := Some (TreeNode r [])\<rparr>) v mp)
      else if mounts s = [] then (s, Inl ErrUnit)
      else case vfs_open ops s mp of
          (s1, Inl e) \<Rightarrow> (s1, Inl e)
        | (s1, Inr _) \<Rightarrow>
            (case vfs_open ops s1 mp of
               (s2, Inl e) \<Rightarrow> (s2, Inl e)
             | (s2, Inr path) \<Rightarrow>
                 add_vfs_finish ops
                   (s2\<lparr>node_tree := map_option (update_at path
                      (\<lambda>d. TreeNode (tn_vnode d\<lparr>vfs_mounted_here := Some p\<rparr>) (tn_children d))) (node_tree s2)\<rparr>) v mp))"

definition path_parts :: "utext \<Rightarrow> utext list" where
  "path_parts s = filter (\<lambda>x. x \<noteq> []) (split_terminator slash s)"

text \<open>\<^verbatim>\<open>mount_parts.len() - 1\<close> wraps for a mount point without parts.\<close>

fun parts_busy :: "utext list \<Rightarrow> nat \<Rightarrow> utext list \<Rightarrow> bool res" where
  "parts_busy mount_parts i [] = Inr False"
| "parts_busy mount_parts i (part # parts) =
     (if i > unat (of_nat (length mount_parts) - 1 :: usize) then Inr True
      else rbind (index_res mount_parts i) (\<lambda>m.
        if part = m then parts_busy mount_parts (Suc i) parts else Inr False))"

fun busy_from :: "utext \<Rightarrow> 'fs vfs list \<Rightarrow> bool res" where
  "busy_from mp [] = Inr False"
| "busy_from mp (v # vs) =
     rbind (unwrap_opt (mount_point v)) (\<lambda>m.
       if m = mp then busy_from mp vs
       else rbind (parts_busy (path_parts mp) 0 (path_parts m)) (\<lambda>b. if b then Inr True else busy_from mp vs))"

definition mount_point_busy :: "('fs, 'ino) vfs_state \<Rightarrow> utext \<Rightarrow> bool res" where
  "mount_point_busy s mp = busy_from mp (mounts s)"

text \<open>\<^verbatim>\<open>Vfs::del_vfs\<close>: the first file system with that mount point is unlinked and dropped.\<close>

fun remove_vfs :: "utext \<Rightarrow> 'fs vfs list \<Rightarrow> 'fs vfs list" where
  "remove_vfs target [] = []"
| "remove_vfs target (v # vs) = (if mount_point v = Some target then vs else v # remove_vfs target vs)"

definition del_vfs :: "('fs, 'ino) vfs_state \<Rightarrow> utext \<Rightarrow> ('fs, 'ino) vfs_state \<times> unit res" where
  "del_vfs s mp =
     (if mounts s = [] then (s, Inl ErrUnit)
      else if mp = ascii ''/'' then
        if tl (mounts s) \<noteq> [] then (s, Inl ErrUnit) else (s\<lparr>mounts := []\<rparr>, Inr ())
      else case mount_point_busy s mp of
          Inl e \<Rightarrow> (s, Inl e)
        | Inr b \<Rightarrow> if b then (s, Inl ErrUnit) else (s\<lparr>mounts := remove_vfs mp (mounts s)\<rparr>, Inr ()))"

section \<open>Open files\<close>

text \<open>\<^verbatim>\<open>TreeNode::open\<close> and \<^verbatim>\<open>TreeNode::close\<close> on the node's vnode; the second component says whether the file system's own
  \<^verbatim>\<open>open\<close> or \<^verbatim>\<open>close\<close> is called.\<close>

definition node_open :: "'ino vnode \<Rightarrow> 'ino vnode \<times> bool" where
  "node_open vn = (vn\<lparr>ref_count := ref_count vn + 1\<rparr>, ref_count vn = 0)"

definition node_close :: "'ino vnode \<Rightarrow> 'ino vnode \<times> bool" where
  "node_close vn = (let vn' = vn\<lparr>ref_count := ref_count vn - 1\<rparr> in (vn', ref_count vn' = 0))"

definition vnode_read ::
    "('fs, 'ino) fs_ops \<Rightarrow> 'fs vfs list \<Rightarrow> 'ino vnode \<Rightarrow> usize \<Rightarrow> usize \<Rightarrow> u8 list res option" where
  "vnode_read ops ms vn count offset =
     obind (Some (op_len ops (inode vn))) (\<lambda>len.
       if offset \<ge> len \<or> count > len \<or> count + offset > len then Some (Inl ErrUnit)
       else obind (Some (vnode_fs ms vn)) (\<lambda>fs. op_read ops fs (inode vn) count offset))"

definition file_read_all ::
    "('fs, 'ino) fs_ops \<Rightarrow> 'fs vfs list \<Rightarrow> 'ino vnode \<Rightarrow> usize \<Rightarrow> u8 list res option" where
  "file_read_all ops ms vn offset =
     obind (Some (op_len ops (inode vn))) (\<lambda>len. vnode_read ops ms vn (len - offset) offset)"

end
