(* ===== verification/Vfs_Correct.thy ===== *)
theory Vfs_Correct
  imports Vfs "HOL-Library.Sublist"
begin

text \<open>
  Correctness of the virtual file system: path lookup through the cached tree agrees with a walk that asks the file
  systems for every component, opening is counted so that a file system sees one open and one close per period of use,
  reads never leave the file, and a mount point is busy exactly when something is mounted below it.
  Two theorems state what goes wrong: nodes looked up before a mount hide the mounted
  file system, and unmounting leaves a dangling pointer.
\<close>

section \<open>The tree as a map from paths to nodes\<close>

definition vnode_at :: "'ino tree_node \<Rightarrow> node_path \<Rightarrow> 'ino vnode option" where
  "vnode_at t p = map_option tn_vnode (node_at t p)"

lemma vnode_at_simps [simp]:
  "vnode_at t [] = Some (tn_vnode t)"
  "vnode_at t (n # ns) = (case map_of (tn_children t) n of None \<Rightarrow> None | Some c \<Rightarrow> vnode_at c ns)"
  by (simp_all add: vnode_at_def split: option.splits)

lemma node_at_append: "node_at t (p @ q) = (case node_at t p of None \<Rightarrow> None | Some d \<Rightarrow> node_at d q)"
  by (induction p arbitrary: t) (simp_all split: option.splits)

lemma vnode_at_leaf [simp]: "vnode_at (TreeNode vn []) q = (if q = [] then Some vn else None)"
  by (cases q) simp_all

lemma vnode_at_child:
  "node_at t p = Some d \<Longrightarrow> vnode_at t (p @ [n]) = map_option tn_vnode (map_of (tn_children d) n)"
  by (simp add: vnode_at_def node_at_append split: option.splits)

lemma map_of_update:
  "map_of (map (\<lambda>(k, c). (k, if k = n then f c else c)) cs) m = (if m = n then map_option f (map_of cs m) else map_of cs m)"
  by (induction cs) auto

lemma vnode_at_insert:
  assumes "node_at t p = Some d" "map_of (tn_children d) n = None"
  shows "vnode_at (update_at p (\<lambda>d. TreeNode (tn_vnode d) ((n, TreeNode vn []) # tn_children d)) t) q
    = (if q = p @ [n] then Some vn else vnode_at t q)"
  using assms
proof (induction p arbitrary: t q)
  case Nil
  then show ?case by (cases q) (auto split: option.splits list.splits)
next
  case (Cons m p)
  then obtain c where c: "map_of (tn_children t) m = Some c" "node_at c p = Some d"
    by (auto split: option.splits)
  show ?case
  proof (cases q)
    case q: (Cons k q')
    from c Cons.IH [OF c(2) Cons.prems(2), of q'] q show ?thesis
      by (auto simp: map_of_update split: option.splits)
  qed simp
qed

section \<open>Cached and uncached lookup\<close>

text \<open>Two vnodes that stand for the same file.\<close>

definition same_file :: "'ino vnode \<Rightarrow> 'ino vnode \<Rightarrow> bool" where
  "same_file a b \<longleftrightarrow> inode a = inode b \<and> parent_vfs a = parent_vfs b \<and> file_typ a = file_typ b"

lemma same_file_refl [simp]: "same_file a a"
  by (simp add: same_file_def)

definition mounted_at :: "'ino tree_node \<Rightarrow> node_path \<Rightarrow> vfs_ptr option" where
  "mounted_at t p = Option.bind (vnode_at t p) vfs_mounted_here"

text \<open>Every cached child is what the file systems answer for it now.\<close>

definition tree_wf :: "('fs, 'ino) fs_ops \<Rightarrow> 'fs vfs list \<Rightarrow> 'ino tree_node \<Rightarrow> bool" where
  "tree_wf ops ms t \<longleftrightarrow> (\<forall>p n d c. vnode_at t p = Some d \<longrightarrow> vnode_at t (p @ [n]) = Some c \<longrightarrow>
     (\<exists>vn. lookup_child ops ms d n = Inr vn \<and> same_file c vn))"

lemma tree_wfD:
  "tree_wf ops ms t \<Longrightarrow> vnode_at t p = Some d \<Longrightarrow> vnode_at t (p @ [n]) = Some c \<Longrightarrow>
     \<exists>vn. lookup_child ops ms d n = Inr vn \<and> same_file c vn"
  by (simp add: tree_wf_def)

lemma lookup_child_cong:
  "same_file a b \<Longrightarrow> lookup_child ops ms (b\<lparr>vfs_mounted_here := vfs_mounted_here a\<rparr>) n = lookup_child ops ms a n"
  by (simp add: lookup_child_def vnode_lookup_def vnode_fs_def same_file_def split: option.splits)

lemma lookup_child_fresh:
  "lookup_child ops ms d n = Inr vn \<Longrightarrow> vfs_mounted_here vn = None"
  by (auto simp: lookup_child_def vnode_lookup_def vnode_new_def split: option.splits)

text \<open>The reference: a walk that keeps the way back to the root and asks the file systems for every component. \<open>mnt\<close>
  gives what is mounted on a path.\<close>

type_synonym 'ino trail = "(utext \<times> 'ino vnode) list"

definition trail_path :: "'ino trail \<Rightarrow> node_path" where
  "trail_path st = rev (map fst (butlast st))"

fun resolve ::
    "('fs, 'ino) fs_ops \<Rightarrow> 'fs vfs list \<Rightarrow> (node_path \<Rightarrow> vfs_ptr option) \<Rightarrow> 'ino trail \<Rightarrow> utext list \<Rightarrow> 'ino trail res" where
  "resolve ops ms mnt st [] = Inr st"
| "resolve ops ms mnt st (n # ns) =
     (if n = [] \<or> n = ascii ''.'' then resolve ops ms mnt st ns
      else if n = ascii ''..'' then
        (if length st \<le> 1 then Inl ErrUnit else resolve ops ms mnt (tl st) ns)
      else rbind (lookup_child ops ms (snd (List.hd st)\<lparr>vfs_mounted_here := mnt (trail_path st)\<rparr>) n)
        (\<lambda>vn. resolve ops ms mnt ((n, vn) # st) ns))"

fun trail_ok :: "'ino tree_node \<Rightarrow> 'ino trail \<Rightarrow> bool" where
  "trail_ok t [] \<longleftrightarrow> False"
| "trail_ok t (x # st) \<longleftrightarrow>
     (\<exists>vn. vnode_at t (trail_path (x # st)) = Some vn \<and> same_file vn (snd x)) \<and> (st = [] \<or> trail_ok t st)"

lemma trail_path_Cons: "st \<noteq> [] \<Longrightarrow> trail_path (x # st) = trail_path st @ [fst x]"
  by (simp add: trail_path_def)

lemma trail_path_tl: "1 < length st \<Longrightarrow> trail_path (tl st) = butlast (trail_path st) \<and> trail_path st \<noteq> []"
  by (cases st) (auto simp: trail_path_Cons)

lemma trail_path_single: "length st \<le> 1 \<Longrightarrow> trail_path st = []"
  by (cases st) (auto simp: trail_path_def)

lemma trail_ok_top:
  "trail_ok t st \<Longrightarrow> \<exists>vn. vnode_at t (trail_path st) = Some vn \<and> same_file vn (snd (List.hd st))"
  by (cases st) auto

lemma trail_ok_mono:
  assumes "trail_ok t st" "\<And>p v. vnode_at t p = Some v \<Longrightarrow> vnode_at t' p = Some v"
  shows "trail_ok t' st"
  using assms(1)
proof (induction st)
  case (Cons x st)
  then show ?case using assms(2) by (auto simp del: vnode_at_simps)
qed simp

lemma tree_wf_insert:
  assumes "tree_wf ops ms t" "vnode_at t p = Some d" "lookup_child ops ms d n = Inr vn" "vnode_at t (p @ [n]) = None"
    and t': "\<And>q. vnode_at t' q = (if q = p @ [n] then Some vn else vnode_at t q)"
  shows "tree_wf ops ms t'"
proof -
  have below: "vnode_at t ((p @ [n]) @ [m]) = None" for m
    using assms(4) by (auto simp: vnode_at_def node_at_append split: option.splits)
  show ?thesis
    unfolding tree_wf_def
  proof (intro allI impI)
    fix q m e c
    assume e: "vnode_at t' q = Some e" and c: "vnode_at t' (q @ [m]) = Some c"
    consider "q @ [m] = p @ [n]" | "q = p @ [n]" "q @ [m] \<noteq> p @ [n]" | "q \<noteq> p @ [n]" "q @ [m] \<noteq> p @ [n]" by auto
    then show "\<exists>vn. lookup_child ops ms e m = Inr vn \<and> same_file c vn"
    proof cases
      case 1
      with c e assms(2,3) show ?thesis by (auto simp: t')
    next
      case 2
      with c below [of m] show ?thesis by (simp add: t')
    next
      case 3
      then have "vnode_at t q = Some e" "vnode_at t (q @ [m]) = Some c"
        using c e unfolding t' by (simp_all only: if_False)
      then show ?thesis by (rule tree_wfD [OF assms(1)])
    qed
  qed
qed

text \<open>One component: the cached tree answers like the file systems.\<close>

lemma tree_lookup_step:
  assumes wf: "tree_wf ops ms t" and tr: "trail_ok t st" and n: "n \<noteq> ascii ''.''" "n \<noteq> ascii ''..''"
    and top: "r = lookup_child ops ms (snd (List.hd st)\<lparr>vfs_mounted_here := mounted_at t (trail_path st)\<rparr>) n"
  shows "case r of
      Inl e \<Rightarrow> tree_lookup ops ms t (trail_path st) n = (t, Inl e)
    | Inr vn \<Rightarrow> \<exists>t'. tree_lookup ops ms t (trail_path st) n = (t', Inr (trail_path ((n, vn) # st)))
        \<and> tree_wf ops ms t' \<and> trail_ok t' ((n, vn) # st) \<and> mounted_at t' = mounted_at t"
proof -
  let ?p = "trail_path st"
  obtain d where d: "vnode_at t ?p = Some d" "same_file d (snd (List.hd st))"
    using trail_ok_top [OF tr] by auto
  then obtain node where node: "node_at t ?p = Some node" "tn_vnode node = d"
    by (auto simp: vnode_at_def)
  have r: "r = lookup_child ops ms d n"
    using top lookup_child_cong [OF d(2)] d(1) by (simp add: mounted_at_def)
  have ne: "st \<noteq> []" using tr by auto
  show ?thesis
  proof (cases "map_of (tn_children node) n")
    case None
    then have fresh: "vnode_at t (?p @ [n]) = None"
      by (simp add: vnode_at_child [OF node(1)])
    show ?thesis
    proof (cases r)
      case (Inl e)
      with r node None n show ?thesis by (simp add: tree_lookup_def flip: r)
    next
      case (Inr vn)
      define t' where "t' = update_at ?p (\<lambda>d. TreeNode (tn_vnode d) ((n, TreeNode vn []) # tn_children d)) t"
      have at: "vnode_at t' q = (if q = ?p @ [n] then Some vn else vnode_at t q)" for q
        unfolding t'_def by (rule vnode_at_insert [OF node(1) None])
      have "tree_lookup ops ms t ?p n = (t', Inr (?p @ [n]))"
        using Inr r node None n by (simp add: tree_lookup_def t'_def)
      moreover have "tree_wf ops ms t'"
        using tree_wf_insert [OF wf d(1) _ fresh at] Inr r by simp
      moreover have "trail_ok t' st"
        using tr by (rule trail_ok_mono) (use fresh in \<open>auto simp: at simp del: vnode_at_simps\<close>)
      moreover have "mounted_at t' = mounted_at t"
        using lookup_child_fresh [of ops ms d n vn] Inr r fresh by (auto simp: mounted_at_def at fun_eq_iff)
      ultimately show ?thesis
        using Inr ne by (auto simp: at trail_path_Cons)
    qed
  next
    case (Some c)
    then have c: "vnode_at t (?p @ [n]) = Some (tn_vnode c)"
      by (simp add: vnode_at_child [OF node(1)])
    from tree_wfD [OF wf d(1) c] obtain vn where "r = Inr vn" "same_file (tn_vnode c) vn"
      using r by auto
    with Some node n wf tr ne c show ?thesis
      by (auto simp: tree_lookup_def trail_path_Cons)
  qed
qed

lemma open_parts_resolve:
  assumes "tree_wf ops ms t" "trail_ok t st"
  shows "\<exists>t' r. open_parts ops ms t (trail_path st) parts = (t', r) \<and> tree_wf ops ms t' \<and>
    (case resolve ops ms (mounted_at t) st parts of
       Inl e \<Rightarrow> r = Inl e
     | Inr st' \<Rightarrow> r = Inr (trail_path st') \<and> trail_ok t' st')"
  using assms
proof (induction parts arbitrary: t st)
  case (Cons n ns)
  have dot: "n = [] \<or> n = ascii ''.'' \<Longrightarrow> open_parts ops ms t (trail_path st) (n # ns) = open_parts ops ms t (trail_path st) ns"
    by (auto simp: tree_lookup_def ascii_def)
  consider "n = [] \<or> n = ascii ''.''" | "n = ascii ''..''" | "n \<noteq> []" "n \<noteq> ascii ''.''" "n \<noteq> ascii ''..''" by blast
  then show ?case
  proof cases
    case 1
    with Cons.IH [OF Cons.prems] dot show ?thesis by auto
  next
    case 2
    show ?thesis
    proof (cases "length st \<le> 1")
      case True
      with 2 Cons.prems trail_path_single [OF True] show ?thesis
        by (auto simp: tree_lookup_def ascii_def)
    next
      case False
      then have "trail_ok t (tl st)" using Cons.prems(2) by (cases st) auto
      with 2 False Cons.IH [OF Cons.prems(1) this] trail_path_tl [of st] show ?thesis
        by (auto simp: tree_lookup_def ascii_def)
    qed
  next
    case 3
    note step = tree_lookup_step [OF Cons.prems 3(2,3) refl]
    show ?thesis
    proof (cases "lookup_child ops ms (snd (List.hd st)\<lparr>vfs_mounted_here := mounted_at t (trail_path st)\<rparr>) n")
      case (Inl e)
      with step 3 Cons.prems(1) show ?thesis by auto
    next
      case (Inr vn)
      with step obtain t' where t': "tree_lookup ops ms t (trail_path st) n = (t', Inr (trail_path ((n, vn) # st)))"
        "tree_wf ops ms t'" "trail_ok t' ((n, vn) # st)" "mounted_at t' = mounted_at t" by auto
      from Cons.IH [OF t'(2,3)] t'(1,4) 3 Inr show ?thesis by auto
    qed
  qed
qed (auto)

lemma vfs_open_walk:
  assumes "node_tree s = Some t" and "mounts s \<noteq> []" and "tree_wf ops (mounts s) t"
  shows "\<exists>s' t' r. vfs_open ops s path = (s', r) \<and> node_tree s' = Some t' \<and> mounts s' = mounts s
    \<and> tree_wf ops (mounts s) t'
    \<and> (case resolve ops (mounts s) (mounted_at t) [([], tn_vnode t)] (split_on slash path) of
         Inl e \<Rightarrow> r = Inl e
       | Inr st \<Rightarrow> r = Inr (trail_path st)
           \<and> (\<exists>vn. vnode_at t' (trail_path st) = Some vn \<and> same_file vn (snd (List.hd st))))"
proof -
  have tr: "trail_ok t [([], tn_vnode t)]" "trail_path [([], tn_vnode t)] = []"
    by (simp_all add: trail_path_def)
  from open_parts_resolve [OF assms(3) tr(1), of "split_on slash path"] tr(2) obtain t' r where
    o: "open_parts ops (mounts s) t [] (split_on slash path) = (t', r)" "tree_wf ops (mounts s) t'"
    "case resolve ops (mounts s) (mounted_at t) [([], tn_vnode t)] (split_on slash path) of
       Inl e \<Rightarrow> r = Inl e | Inr st' \<Rightarrow> r = Inr (trail_path st') \<and> trail_ok t' st'" by auto
  then show ?thesis
    using assms(1,2) trail_ok_top [of t']
    by (auto simp: vfs_open_def split: sum.splits)
qed

text \<open>C15: opening a path through the cache gives the file that the mounted file systems have there. When every cached node is what its file
  system answers, opening a path returns the node that a walk without any cache reaches, which asks the mounted file systems for
  every component and follows \<open>.\<close> and \<open>..\<close>, or the error of that walk; the tree stays a
  faithful cache and the mounts do not change.\<close>

theorem vfs_open_resolves:
  assumes "node_tree s = Some t" and "mounts s \<noteq> []" and "tree_wf ops (mounts s) t"
  shows "\<exists>s' t' r. vfs_open ops s path = (s', r) \<and> node_tree s' = Some t' \<and> mounts s' = mounts s
    \<and> tree_wf ops (mounts s) t'
    \<and> (case resolve ops (mounts s) (mounted_at t) [([], tn_vnode t)] (split_on slash path) of
         Inl e \<Rightarrow> r = Inl e
       | Inr st \<Rightarrow> r = Inr (trail_path st)
           \<and> (\<exists>vn. vnode_at t' (trail_path st) = Some vn \<and> same_file vn (snd (List.hd st))))"
  using assms by (rule vfs_open_walk)

section \<open>Opening again\<close>

lemma tree_lookup_grows:
  assumes "tree_lookup ops ms t p n = (t1, r)"
  shows "dom (vnode_at t) \<subseteq> dom (vnode_at t1)"
proof (cases "t1 = t")
  case False
  with assms obtain d vn where "node_at t p = Some d" "map_of (tn_children d) n = None"
    "t1 = update_at p (\<lambda>d. TreeNode (tn_vnode d) ((n, TreeNode vn []) # tn_children d)) t"
    by (auto simp: tree_lookup_def split: if_splits option.splits sum.splits)
  then show ?thesis by (auto simp: vnode_at_insert simp del: vnode_at_simps)
qed simp

lemma tree_lookup_again:
  assumes "tree_lookup ops ms t p n = (t1, Inr p1)" "dom (vnode_at t1) \<subseteq> dom (vnode_at t2)"
  shows "tree_lookup ops ms t2 p n = (t2, Inr p1)"
proof (cases "n = ascii ''..'' \<or> n = ascii ''.''")
  case True
  with assms(1) show ?thesis by (auto simp: tree_lookup_def ascii_def split: if_splits)
next
  case False
  with assms(1) have p1: "p1 = p @ [n]" "vnode_at t1 (p @ [n]) \<noteq> None"
    by (auto simp: tree_lookup_def vnode_at_insert vnode_at_child split: if_splits option.splits sum.splits)
  with assms(2) have "vnode_at t2 (p @ [n]) \<noteq> None" by (auto simp del: vnode_at_simps)
  then obtain d where d: "node_at t2 p = Some d"
    by (auto simp: vnode_at_def node_at_append split: option.splits)
  with \<open>vnode_at t2 (p @ [n]) \<noteq> None\<close> have "map_of (tn_children d) n \<noteq> None"
    by (simp add: vnode_at_child)
  with d False p1(1) show ?thesis by (auto simp: tree_lookup_def)
qed

lemma open_parts_grows: "open_parts ops ms t p parts = (t1, r) \<Longrightarrow> dom (vnode_at t) \<subseteq> dom (vnode_at t1)"
proof (induction parts arbitrary: t p)
  case (Cons n ns)
  show ?case
  proof (cases "n = []")
    case False
    obtain t2 x where s: "tree_lookup ops ms t p n = (t2, x)" by (cases "tree_lookup ops ms t p n")
    show ?thesis
    proof (cases x)
      case (Inr p2)
      with Cons.prems False s have "dom (vnode_at t2) \<subseteq> dom (vnode_at t1)" by (intro Cons.IH) simp
      with tree_lookup_grows [OF s] show ?thesis by (rule subset_trans)
    qed (use Cons.prems False s tree_lookup_grows [OF s] in simp)
  qed (use Cons in simp)
qed simp

lemma open_parts_again:
  "open_parts ops ms t p parts = (t1, Inr p1) \<Longrightarrow> dom (vnode_at t1) \<subseteq> dom (vnode_at t2)
    \<Longrightarrow> open_parts ops ms t2 p parts = (t2, Inr p1)"
proof (induction parts arbitrary: t p)
  case (Cons n ns)
  show ?case
  proof (cases "n = []")
    case False
    with Cons.prems(1) obtain t3 p3 where s: "tree_lookup ops ms t p n = (t3, Inr p3)"
      "open_parts ops ms t3 p3 ns = (t1, Inr p1)"
      by (auto split: prod.splits sum.splits)
    with open_parts_grows [OF s(2)] Cons.prems(2) have "tree_lookup ops ms t2 p n = (t2, Inr p3)"
      by (intro tree_lookup_again [OF s(1)]) simp
    with Cons.IH [OF s(2) Cons.prems(2)] False show ?thesis by simp
  qed (use Cons in simp)
qed simp

lemma vfs_open_again:
  assumes "vfs_open ops s path = (s1, Inr p)"
  shows "vfs_open ops s1 path = (s1, Inr p)"
proof -
  from assms obtain t t1 where t: "node_tree s = Some t" "mounts s \<noteq> []"
    "open_parts ops (mounts s) t [] (split_on slash path) = (t1, Inr p)" "s1 = s\<lparr>node_tree := Some t1\<rparr>"
    by (auto simp: vfs_open_def split: option.splits if_splits prod.splits)
  with open_parts_again [OF t(3), of t1] show ?thesis by (simp add: vfs_open_def)
qed

section \<open>Mounting\<close>

definition vfs_inv :: "('fs, 'ino) fs_ops \<Rightarrow> ('fs, 'ino) vfs_state \<Rightarrow> bool" where
  "vfs_inv ops s \<longleftrightarrow> mounts s = [] \<or> (\<exists>t. node_tree s = Some t \<and> tree_wf ops (mounts s) t)"

definition cached_below :: "('fs, 'ino) vfs_state \<Rightarrow> node_path \<Rightarrow> bool" where
  "cached_below s p \<longleftrightarrow> (case node_tree s of None \<Rightarrow> False
     | Some t \<Rightarrow> (case node_at t p of None \<Rightarrow> False | Some d \<Rightarrow> tn_children d \<noteq> []))"

lemma deref_vfs_mono: "deref_vfs ms p = Inr v \<Longrightarrow> deref_vfs (ms @ ns) p = Inr v"
proof -
  have "find P ms = Some v \<Longrightarrow> find P (ms @ ns) = Some v" for P
    by (induction ms) (auto split: if_splits)
  then show "deref_vfs ms p = Inr v \<Longrightarrow> deref_vfs (ms @ ns) p = Inr v"
    by (auto simp: deref_vfs_def split: option.splits)
qed

lemma vnode_lookup_mono: "vnode_lookup ops ms d n = Inr vn \<Longrightarrow> vnode_lookup ops (ms @ ns) d n = Inr vn"
  unfolding vnode_lookup_def vnode_fs_def rbind_eq_Inr by (blast dest: deref_vfs_mono)

lemma lookup_child_mono: "lookup_child ops ms d n = Inr vn \<Longrightarrow> lookup_child ops (ms @ ns) d n = Inr vn"
  by (cases "vfs_mounted_here d") (simp_all add: lookup_child_def, erule vnode_lookup_mono,
      meson deref_vfs_mono vnode_lookup_mono)

lemma tree_wf_mono: "tree_wf ops ms t \<Longrightarrow> tree_wf ops (ms @ ns) t"
  unfolding tree_wf_def by (meson lookup_child_mono)

lemma vnode_at_set:
  assumes "node_at t p = Some d"
  shows "vnode_at (update_at p (\<lambda>d. TreeNode (f (tn_vnode d)) (tn_children d)) t) q
    = (if q = p then Some (f (tn_vnode d)) else vnode_at t q)"
  using assms
proof (induction p arbitrary: t q)
  case Nil
  then show ?case by (cases q) (auto split: option.splits)
next
  case (Cons m p)
  then obtain c where c: "map_of (tn_children t) m = Some c" "node_at c p = Some d"
    by (auto split: option.splits)
  show ?case
  proof (cases q)
    case q: (Cons k q')
    from c Cons.IH [OF c(2), of q'] q show ?thesis
      by (auto simp: map_of_update split: option.splits)
  qed simp
qed

lemma tree_wf_mount:
  assumes "tree_wf ops ms t" "node_at t p = Some d" "tn_children d = []"
  shows "tree_wf ops ms (update_at p (\<lambda>d. TreeNode (tn_vnode d\<lparr>vfs_mounted_here := m\<rparr>) (tn_children d)) t)"
proof -
  let ?v = "tn_vnode d\<lparr>vfs_mounted_here := m\<rparr>"
  have at: "vnode_at (update_at p (\<lambda>d. TreeNode (tn_vnode d\<lparr>vfs_mounted_here := m\<rparr>) (tn_children d)) t) q
      = (if q = p then Some ?v else vnode_at t q)" for q
    using vnode_at_set [OF assms(2), of "\<lambda>v. v\<lparr>vfs_mounted_here := m\<rparr>"] .
  have none: "vnode_at t (p @ [n]) = None" for n
    using assms(3) by (simp add: vnode_at_child [OF assms(2)])
  have d: "vnode_at t p = Some (tn_vnode d)" using assms(2) by (simp add: vnode_at_def)
  show ?thesis
    unfolding tree_wf_def
  proof (intro allI impI)
    fix q n e c
    assume e: "vnode_at (update_at p (\<lambda>d. TreeNode (tn_vnode d\<lparr>vfs_mounted_here := m\<rparr>) (tn_children d)) t) q = Some e"
      and c: "vnode_at (update_at p (\<lambda>d. TreeNode (tn_vnode d\<lparr>vfs_mounted_here := m\<rparr>) (tn_children d)) t) (q @ [n]) = Some c"
    have q: "q \<noteq> p"
    proof
      assume "q = p"
      with c none [of n] show False by (simp add: at del: vnode_at_simps)
    qed
    with e have e': "vnode_at t q = Some e" by (simp add: at del: vnode_at_simps)
    show "\<exists>vn. lookup_child ops ms e n = Inr vn \<and> same_file c vn"
    proof (cases "q @ [n] = p")
      case True
      with c d tree_wfD [OF assms(1) e', of n "tn_vnode d"] show ?thesis
        by (auto simp: at same_file_def simp del: vnode_at_simps)
    next
      case False
      with c have "vnode_at t (q @ [n]) = Some c" by (simp add: at del: vnode_at_simps)
      with tree_wfD [OF assms(1) e'] show ?thesis by blast
    qed
  qed
qed

lemma add_vfs_finish_inv:
  assumes "add_vfs_finish ops s v mp = (s', Inr ())" "node_tree s = Some t" "tree_wf ops (mounts s) t"
  shows "vfs_inv ops s'"
proof -
  from assms(1) obtain v' where "s' = s\<lparr>mounts := mounts s @ [v']\<rparr>"
    by (auto simp: add_vfs_finish_def split: sum.splits)
  with assms(2,3) tree_wf_mono [of ops "mounts s" t "[v']"] show ?thesis by (auto simp: vfs_inv_def)
qed

lemma vfs_open_keeps:
  assumes "node_tree s = Some t" "mounts s \<noteq> []" "tree_wf ops (mounts s) t" "vfs_open ops s path = (s1, Inr p)"
  obtains t1 d where "node_tree s1 = Some t1" "mounts s1 = mounts s" "tree_wf ops (mounts s) t1" "node_at t1 p = Some d"
proof -
  have tr: "trail_ok t [([], tn_vnode t)]" "trail_path [([], tn_vnode t)] = []"
    by (simp_all add: trail_path_def)
  from open_parts_resolve [OF assms(3) tr(1), of "split_on slash path"] tr(2) obtain t1 r where
    o: "open_parts ops (mounts s) t [] (split_on slash path) = (t1, r)" "tree_wf ops (mounts s) t1"
    "case resolve ops (mounts s) (mounted_at t) [([], tn_vnode t)] (split_on slash path) of
       Inl e \<Rightarrow> r = Inl e | Inr st' \<Rightarrow> r = Inr (trail_path st') \<and> trail_ok t1 st'"
    by auto
  with assms(1,2,4) have t1: "s1 = s\<lparr>node_tree := Some t1\<rparr>" "r = Inr p"
    by (simp_all add: vfs_open_def)
  with o(3) obtain vn where "vnode_at t1 p = Some vn"
    using trail_ok_top [of t1] by (auto split: sum.splits)
  then obtain d where "node_at t1 p = Some d" by (auto simp: vnode_at_def)
  with t1 o(2) show ?thesis by (intro that [of t1 d]) simp_all
qed

text \<open>C16: mounting keeps the cache faithful, as long as nothing below the mount point has been looked up before. The first mount on \<open>/\<close>
  establishes it.\<close>

theorem add_vfs_keeps_cache:
  assumes "vfs_inv ops s" and "add_vfs ops q s mp fs = (s', Inr ())"
    and "\<And>s1 p. vfs_open ops s mp = (s1, Inr p) \<Longrightarrow> \<not> cached_below s1 p"
  shows "vfs_inv ops s'"
proof (cases "mp = ascii ''/''")
  case True
  with assms(2) obtain r where "mounts s = []"
    "add_vfs_finish ops (s\<lparr>node_tree := Some (TreeNode r [])\<rparr>) (vfs_new q fs mp) mp = (s', Inr ())"
    by (auto simp: add_vfs_def Let_def split: if_splits sum.splits)
  moreover have "tree_wf ops [] (TreeNode r [])"
    by (auto simp: tree_wf_def)
  ultimately show ?thesis
    using add_vfs_finish_inv [of ops "s\<lparr>node_tree := Some (TreeNode r [])\<rparr>"] by auto
next
  case False
  with assms(1,2) obtain t where t: "node_tree s = Some t" "mounts s \<noteq> []" "tree_wf ops (mounts s) t"
    by (auto simp: vfs_inv_def add_vfs_def Let_def split: if_splits)
  from False assms(2) t(2) obtain s1 p0 where s1: "vfs_open ops s mp = (s1, Inr p0)"
    by (auto simp: add_vfs_def Let_def split: prod.splits sum.splits)
  note s2 = vfs_open_again [OF s1]
  obtain t1 d where t1: "node_tree s1 = Some t1" "mounts s1 = mounts s" "tree_wf ops (mounts s) t1" "node_at t1 p0 = Some d"
    by (rule vfs_open_keeps [OF t s1])
  from assms(3) [OF s1] t1 have leaf: "tn_children d = []" by (simp add: cached_below_def)
  let ?t = "update_at p0 (\<lambda>d. TreeNode (tn_vnode d\<lparr>vfs_mounted_here := Some q\<rparr>) (tn_children d)) t1"
  have "add_vfs_finish ops (s1\<lparr>node_tree := Some ?t\<rparr>) (vfs_new q fs mp) mp = (s', Inr ())"
    using False assms(2) t(2) s1 s2 t1(1) by (simp add: add_vfs_def Let_def)
  then show ?thesis
    using add_vfs_finish_inv [of ops "s1\<lparr>node_tree := Some ?t\<rparr>"] tree_wf_mount [OF t1(3,4) leaf] t1(2) by simp
qed

text \<open>A mount does not reach what was looked up before it. When a name below a directory is already in the tree, mounting
  any file system on that directory leaves the name resolving to the old node, whatever the new file system has
  there.\<close>

theorem mount_hidden_by_cache:
  assumes "node_at t p = Some d" and "map_of (tn_children d) n = Some c" and "n \<noteq> ascii ''.''" and "n \<noteq> ascii ''..''"
  shows "\<exists>t'. tree_lookup ops ms (update_at p (\<lambda>d. TreeNode (tn_vnode d\<lparr>vfs_mounted_here := Some q\<rparr>) (tn_children d)) t) p n
      = (t', Inr (p @ [n])) \<and> vnode_at t' (p @ [n]) = Some (tn_vnode c)"
proof -
  let ?t = "update_at p (\<lambda>d. TreeNode (tn_vnode d\<lparr>vfs_mounted_here := Some q\<rparr>) (tn_children d)) t"
  have at: "vnode_at ?t r = (if r = p then Some (tn_vnode d\<lparr>vfs_mounted_here := Some q\<rparr>) else vnode_at t r)" for r
    using vnode_at_set [OF assms(1), of "\<lambda>v. v\<lparr>vfs_mounted_here := Some q\<rparr>"] .
  have old: "vnode_at ?t (p @ [n]) = Some (tn_vnode c)"
    using assms(2) by (simp add: at vnode_at_child [OF assms(1)])
  from at [of p] obtain d' where d': "node_at ?t p = Some d'" by (auto simp: vnode_at_def)
  with old have "map_of (tn_children d') n \<noteq> None" by (auto simp: vnode_at_child)
  with d' old assms(3,4) show ?thesis by (auto simp: tree_lookup_def)
qed

lemma remove_vfs_addr:
  assumes "find (\<lambda>v. mount_point v = Some mp) ms = Some v" "distinct (map vfs_addr ms)"
  shows "vfs_addr v \<notin> vfs_addr ` set (remove_vfs mp ms)"
  using assms
proof (induction ms)
  case (Cons u ms)
  show ?case
  proof (cases "mount_point u = Some mp")
    case False
    with Cons.prems have f: "find (\<lambda>v. mount_point v = Some mp) ms = Some v" by simp
    then have "v \<in> set ms" by (auto simp: find_Some_iff)
    then have "vfs_addr v \<in> vfs_addr ` set ms" by (rule imageI)
    with Cons.prems(2) have "vfs_addr v \<noteq> vfs_addr u" by auto
    with Cons.IH [OF f] Cons.prems(2) False show ?thesis by simp
  qed (use Cons.prems in auto)
qed simp

text \<open>Unmounting leaves a dangling pointer. After a successful unmount the node of the mount point still points at the file system that was
  dropped, so the first lookup of a name below it that is not cached follows that pointer.\<close>

theorem del_vfs_dangling:
  assumes "del_vfs s mp = (s', Inr ())" and "mp \<noteq> ascii ''/''" and "distinct (map vfs_addr (mounts s))"
    and "find (\<lambda>v. mount_point v = Some mp) (mounts s) = Some v"
    and "node_at t p = Some d" and "vfs_mounted_here (tn_vnode d) = Some (vfs_addr v)"
    and "map_of (tn_children d) n = None" and "n \<noteq> ascii ''.''" and "n \<noteq> ascii ''..''"
  shows "node_tree s' = node_tree s \<and> tree_lookup ops (mounts s') t p n = (t, Inl (Panic RawAccess))"
proof -
  from assms(1,2) have s': "s' = s\<lparr>mounts := remove_vfs mp (mounts s)\<rparr>"
    by (auto simp: del_vfs_def split: if_splits sum.splits)
  have "find (\<lambda>u. vfs_addr u = vfs_addr v) (remove_vfs mp (mounts s)) = None"
    using remove_vfs_addr [OF assms(4,3)] by (metis (mono_tags, lifting) find_None_iff image_eqI)
  then have "deref_vfs (mounts s') (vfs_addr v) = Inl (Panic RawAccess)"
    by (simp add: s' deref_vfs_def)
  with assms(5-9) s' show ?thesis
    by (simp add: tree_lookup_def lookup_child_def)
qed

section \<open>Busy mount points\<close>

lemma parts_busy_spec:
  assumes "i \<le> length mps" "mps \<noteq> []" "length mps < 2 ^ 64"
  shows "parts_busy mps i parts = Inr (strict_prefix (drop i mps) parts)"
  using assms(1)
proof (induction parts arbitrary: i)
  case (Cons a parts)
  have l: "unat (of_nat (length mps) - 1 :: usize) = length mps - 1"
  proof -
    have u: "unat (of_nat (length mps) :: usize) = length mps" using assms(3) by (simp add: unat_of_nat)
    have "(1 :: usize) \<le> of_nat (length mps)"
      using assms(2) by (simp add: word_le_nat_alt u Suc_le_eq)
    then show ?thesis by (simp add: unat_sub u)
  qed
  show ?case
  proof (cases "i < length mps")
    case True
    then have "drop i mps = mps ! i # drop (Suc i) mps" by (rule Cons_nth_drop_Suc [symmetric])
    with True Cons.IH [of "Suc i"] show ?thesis by (auto simp: l index_res_def)
  next
    case False
    with Cons.prems assms(2) show ?thesis by (simp add: l)
  qed
qed simp

text \<open>A mount point is busy exactly when another file system is mounted strictly below it, comparing paths by their
  components and not by their text.\<close>

theorem mount_point_busy_spec:
  assumes "list_all (\<lambda>v. mount_point v \<noteq> None) (mounts s)" and "path_parts mp \<noteq> []" and "length (path_parts mp) < 2 ^ 64"
  shows "mount_point_busy s mp
    = Inr (\<exists>v \<in> set (mounts s). \<exists>m. mount_point v = Some m \<and> m \<noteq> mp \<and> strict_prefix (path_parts mp) (path_parts m))"
proof -
  have "busy_from mp ms = Inr (\<exists>v \<in> set ms. \<exists>m. mount_point v = Some m \<and> m \<noteq> mp \<and> strict_prefix (path_parts mp) (path_parts m))"
    if "list_all (\<lambda>v. mount_point v \<noteq> None) ms" for ms :: "'a vfs list"
    using that
  proof (induction ms)
    case (Cons v ms)
    then obtain m where m: "mount_point v = Some m" by auto
    have "parts_busy (path_parts mp) 0 (path_parts m) = Inr (strict_prefix (path_parts mp) (path_parts m))"
      using parts_busy_spec [OF _ assms(2,3), of 0] by simp
    with Cons m show ?case
      by (cases "m = mp"; cases "strict_prefix (path_parts mp) (path_parts m)") simp_all
  qed simp
  with assms(1) show ?thesis by (simp add: mount_point_busy_def)
qed

section \<open>Open files\<close>

text \<open>The life of one node: files on it are opened and dropped. The list of calls is what its file system sees.\<close>

datatype file_event = Opened | Dropped

fun run_events :: "file_event list \<Rightarrow> 'ino vnode \<Rightarrow> 'ino vnode \<times> file_event list" where
  "run_events [] vn = (vn, [])"
| "run_events (Opened # es) vn =
     (let (vn', called) = node_open vn; (vn'', cs) = run_events es vn' in (vn'', if called then Opened # cs else cs))"
| "run_events (Dropped # es) vn =
     (let (vn', called) = node_close vn; (vn'', cs) = run_events es vn' in (vn'', if called then Dropped # cs else cs))"

text \<open>Only open files are dropped, each once, and fewer than \<open>2 ^ 32\<close> are open at a time.\<close>

fun live_ok :: "nat \<Rightarrow> file_event list \<Rightarrow> bool" where
  "live_ok n [] \<longleftrightarrow> True"
| "live_ok n (Opened # es) \<longleftrightarrow> Suc n < 2 ^ 32 \<and> live_ok (Suc n) es"
| "live_ok n (Dropped # es) \<longleftrightarrow> 0 < n \<and> live_ok (n - 1) es"

fun live_files :: "nat \<Rightarrow> file_event list \<Rightarrow> nat" where
  "live_files n [] = n"
| "live_files n (Opened # es) = live_files (Suc n) es"
| "live_files n (Dropped # es) = live_files (n - 1) es"

fun alternates :: "bool \<Rightarrow> file_event list \<Rightarrow> bool" where
  "alternates opened [] \<longleftrightarrow> True"
| "alternates opened (c # cs) \<longleftrightarrow> c = (if opened then Dropped else Opened) \<and> alternates (\<not> opened) cs"

lemma run_events_spec:
  assumes "live_ok n es" "unat (ref_count vn) = n"
  shows "\<exists>vn' cs. run_events es vn = (vn', cs) \<and> unat (ref_count vn') = live_files n es
    \<and> alternates (n \<noteq> 0) cs \<and> (live_files n es \<noteq> 0 \<longleftrightarrow> (if cs = [] then n \<noteq> 0 else last cs = Opened))"
  using assms
proof (induction es arbitrary: n vn)
  case (Cons e es)
  show ?case
  proof (cases e)
    case Opened
    let ?v = "vn\<lparr>ref_count := ref_count vn + 1\<rparr>"
    have "unat (ref_count ?v) = Suc n"
      using Cons.prems Opened unat_add_no_wrap [of "ref_count vn" 1] by simp
    with Cons.IH [of "Suc n" ?v] Cons.prems Opened obtain vn' cs where
      "run_events es ?v = (vn', cs)" "unat (ref_count vn') = live_files (Suc n) es" "alternates True cs"
      "live_files (Suc n) es \<noteq> 0 \<longleftrightarrow> (if cs = [] then True else last cs = Opened)" by (auto split: if_splits)
    with Cons.prems(2) Opened show ?thesis
      by (auto simp: node_open_def unat_eq_zero)
  next
    case Dropped
    let ?v = "vn\<lparr>ref_count := ref_count vn - 1\<rparr>"
    have "(1 :: u32) \<le> ref_count vn" using Cons.prems Dropped by (simp add: word_le_nat_alt)
    then have v: "unat (ref_count ?v) = n - 1" using Cons.prems(2) by (simp add: unat_sub)
    then have z: "ref_count vn - 1 = 0 \<longleftrightarrow> n - 1 = 0"
      using unat_eq_zero [of "ref_count vn - 1"] by simp
    have n: "0 < n" "live_ok (n - 1) es" using Cons.prems(1) Dropped by simp_all
    from Cons.IH [OF n(2) v] obtain vn' cs where
      r: "run_events es ?v = (vn', cs)" "unat (ref_count vn') = live_files (n - 1) es" "alternates (n - 1 \<noteq> 0) cs"
      "live_files (n - 1) es \<noteq> 0 \<longleftrightarrow> (if cs = [] then n - 1 \<noteq> 0 else last cs = Opened)" by blast
    let ?cs = "if n - 1 = 0 then Dropped # cs else cs"
    have "run_events (e # es) vn = (vn', ?cs)"
      using r(1) z Dropped by (simp add: node_close_def Let_def)
    moreover have "alternates (n \<noteq> 0) ?cs" using r(3) n(1) by (cases "n - 1 = 0") simp_all
    moreover have "live_files n (e # es) = live_files (n - 1) es" using Dropped by simp
    ultimately show ?thesis using r(2,4) n(1) by (cases "n - 1 = 0"; cases "cs = []") simp_all
  qed
qed simp

text \<open>C18: reference counting of open files. For every order of opening and dropping files on a node, the counter is the number of files that are
  open, the file system sees opens and closes strictly alternating and starting with an open, and its last call was an
  open exactly when a file is still open.\<close>

theorem file_refcount:
  assumes "live_ok 0 es" and "ref_count vn = 0"
  shows "\<exists>vn' cs. run_events es vn = (vn', cs) \<and> unat (ref_count vn') = live_files 0 es
    \<and> alternates False cs \<and> (live_files 0 es \<noteq> 0 \<longleftrightarrow> cs \<noteq> [] \<and> last cs = Opened)"
  using run_events_spec [OF assms(1), of vn] assms(2) by (auto split: if_splits)

section \<open>Bounds of reads\<close>

text \<open>What the read path relies on: the lengths file systems report are far below the word size, so that the sum in the
  bounds check does not wrap.\<close>

locale sized_files =
  fixes ops :: "('fs, 'ino) fs_ops"
  assumes len_bound: "op_len ops i = Inr n \<Longrightarrow> unat n < 2 ^ 63"
begin

lemma vnode_read_exact:
  assumes "op_len ops (inode vn) = Inr len" "vnode_fs ms vn = Inr fs"
  shows "vnode_read ops ms vn count offset
    = (if unat offset < unat len \<and> unat offset + unat count \<le> unat len
       then op_read ops fs (inode vn) count offset else Some (Inl ErrUnit))"
proof (cases "unat offset < unat len \<and> unat count \<le> unat len")
  case True
  with len_bound [OF assms(1)] have "unat (count + offset) = unat count + unat offset"
    by (intro unat_add_no_wrap) simp
  with True assms show ?thesis
    by (auto simp: vnode_read_def word_le_nat_alt word_less_nat_alt)
qed (use assms in \<open>auto simp: vnode_read_def word_le_nat_alt word_less_nat_alt\<close>)

lemma file_read_all_exact:
  assumes "op_len ops (inode vn) = Inr len" "vnode_fs ms vn = Inr fs"
  shows "file_read_all ops ms vn offset
    = (if unat offset < unat len then op_read ops fs (inode vn) (len - offset) offset else Some (Inl ErrUnit))"
proof (cases "unat offset < unat len")
  case True
  then have "unat (len - offset) = unat len - unat offset"
    by (simp add: unat_sub word_le_nat_alt)
  with True assms(1) vnode_read_exact [OF assms] show ?thesis
    by (simp add: file_read_all_def)
qed (use assms vnode_read_exact [OF assms] in \<open>simp add: file_read_all_def\<close>)

end

section \<open>A small tree of files\<close>

text \<open>A file system with a directory \<open>a\<close> that holds a file \<open>b\<close> of eight bytes.\<close>

definition toy_ops :: "(unit, nat) fs_ops" where
  "toy_ops = \<lparr>op_mount = (\<lambda>_ fs. Inr fs), op_root = (\<lambda>_. Inr (0, Directory)),
     op_lookup = (\<lambda>_ i n. if i = 0 \<and> n = ascii ''a'' then Inr (1, Directory)
        else if i = 1 \<and> n = ascii ''b'' then Inr (2, Regular) else Inl ErrUnit),
     op_read = (\<lambda>_ i count offset. Some (Inr (replicate (unat count) 7))), op_len = (\<lambda>i. if i = 2 then Inr 8 else Inl (Panic ExplicitPanic))\<rparr>"

definition toy_state :: "(unit, nat) vfs_state" where
  "toy_state = \<lparr>node_tree = Some (TreeNode (vnode_new 0 Directory 1) []),
     mounts = [(vfs_new 1 () (ascii ''/''))\<lparr>vfs_data := True\<rparr>]\<rparr>"

lemma toy_wf: "tree_wf toy_ops (mounts toy_state) (TreeNode (vnode_new 0 Directory 1) [])"
  by (auto simp: tree_wf_def)

theorem vfs_open_resolves_witness:
  "snd (vfs_open toy_ops toy_state (ascii ''/a/./b'')) = Inr [ascii ''a'', ascii ''b'']
   \<and> snd (vfs_open toy_ops toy_state (ascii ''/a/c'')) = Inl ErrUnit"
proof -
  let ?t = "TreeNode (vnode_new 0 Directory 1) [] :: nat tree_node"
  have t: "node_tree toy_state = Some ?t" "mounts toy_state \<noteq> []"
    by (simp_all add: toy_state_def)
  have r: "resolve toy_ops (mounts toy_state) (mounted_at ?t) [([], tn_vnode ?t)] (split_on slash (ascii ''/a/./b''))
      = Inr [(ascii ''b'', vnode_new 2 Regular 1), (ascii ''a'', vnode_new 1 Directory 1), ([], vnode_new 0 Directory 1)]"
    "resolve toy_ops (mounts toy_state) (mounted_at ?t) [([], tn_vnode ?t)] (split_on slash (ascii ''/a/c'')) = Inl ErrUnit"
    by (simp_all add: ascii_def slash_def lookup_child_def mounted_at_def trail_path_def vnode_lookup_def vnode_fs_def
        deref_vfs_def toy_state_def toy_ops_def vfs_new_def vnode_new_def)
  have "snd (vfs_open toy_ops toy_state (ascii ''/a/./b'')) = Inr [ascii ''a'', ascii ''b'']"
    using vfs_open_resolves [OF t toy_wf, of "ascii ''/a/./b''"] r(1) by (auto simp: trail_path_def)
  moreover have "snd (vfs_open toy_ops toy_state (ascii ''/a/c'')) = Inl ErrUnit"
    using vfs_open_resolves [OF t toy_wf, of "ascii ''/a/c''"] r(2) by auto
  ultimately show ?thesis ..
qed

theorem file_refcount_witness:
  "\<exists>vn cs. run_events [Opened, Opened, Dropped, Dropped, Opened] (vnode_new (0 :: nat) Regular 1) = (vn, cs)
     \<and> unat (ref_count vn) = 1 \<and> alternates False cs"
  using file_refcount [of "[Opened, Opened, Dropped, Dropped, Opened]" "vnode_new (0 :: nat) Regular 1"]
  by (auto simp: vnode_new_def)

theorem mount_point_busy_spec_witness:
  "mount_point_busy (toy_state\<lparr>mounts := mounts toy_state @ [vfs_new 2 () (ascii ''/a/b'')]\<rparr>) (ascii ''/a/'') = Inr True"
proof -
  let ?s = "toy_state\<lparr>mounts := mounts toy_state @ [vfs_new 2 () (ascii ''/a/b'')]\<rparr>"
  have p: "path_parts (ascii ''/a/'') = [ascii ''a'']" "path_parts (ascii ''/a/b'') = [ascii ''a'', ascii ''b'']"
    by (simp_all add: path_parts_def split_terminator_def slash_def ascii_def)
  have "list_all (\<lambda>v. mount_point v \<noteq> None) (mounts ?s)"
    by (simp add: toy_state_def vfs_new_def)
  from mount_point_busy_spec [OF this, of "ascii ''/a/''"] p show ?thesis
    by (simp add: vfs_new_def ascii_def)
qed

theorem add_vfs_keeps_cache_witness:
  "vfs_inv toy_ops (fst (add_vfs toy_ops 2 toy_state (ascii ''/a'') ()))"
proof -
  have op: "vfs_open toy_ops toy_state (ascii ''/a'')
      = (toy_state\<lparr>node_tree := Some (TreeNode (vnode_new 0 Directory 1) [(ascii ''a'', TreeNode (vnode_new 1 Directory 1) [])])\<rparr>,
         Inr [ascii ''a''])"
    by (simp add: vfs_open_def toy_state_def toy_ops_def ascii_def slash_def tree_lookup_def lookup_child_def
        vnode_lookup_def vnode_fs_def deref_vfs_def vfs_new_def vnode_new_def)
  obtain s' where s': "add_vfs toy_ops 2 toy_state (ascii ''/a'') () = (s', Inr ())"
    using op vfs_open_again [OF op]
    by (simp add: add_vfs_def add_vfs_finish_def vfs_mount_def toy_state_def vfs_new_def toy_ops_def ascii_def)
  have "vfs_inv toy_ops toy_state" using toy_wf by (auto simp: vfs_inv_def toy_state_def)
  then have "vfs_inv toy_ops s'"
    using s' by (rule add_vfs_keeps_cache) (auto simp: op cached_below_def)
  then show ?thesis by (simp only: s' fst_conv)
qed

theorem mount_hidden_by_cache_witness:
  "\<exists>t'. tree_lookup toy_ops [] (update_at [] (\<lambda>d. TreeNode (tn_vnode d\<lparr>vfs_mounted_here := Some 9\<rparr>) (tn_children d))
       (TreeNode (vnode_new 0 Directory 1) [(ascii ''a'', TreeNode (vnode_new 1 Directory 1) [])])) [] (ascii ''a'')
     = (t', Inr [ascii ''a''])"
proof -
  let ?c = "TreeNode (vnode_new 1 Directory 1) [] :: nat tree_node"
  let ?t = "TreeNode (vnode_new 0 Directory 1) [(ascii ''a'', ?c)]"
  have "node_at ?t [] = Some ?t" "map_of (tn_children ?t) (ascii ''a'') = Some ?c"
    "ascii ''a'' \<noteq> ascii ''.''" "ascii ''a'' \<noteq> ascii ''..''"
    by (simp_all add: ascii_def)
  from mount_hidden_by_cache [OF this, of toy_ops "[]" 9] show ?thesis by auto
qed

theorem del_vfs_dangling_witness:
  "tree_lookup toy_ops
     (mounts (fst (del_vfs (toy_state\<lparr>mounts := mounts toy_state @ [vfs_new 2 () (ascii ''/a'')]\<rparr>) (ascii ''/a''))))
     (TreeNode (vnode_new 1 Directory 1\<lparr>vfs_mounted_here := Some 2\<rparr>) []) [] (ascii ''b'')
   = (TreeNode (vnode_new 1 Directory 1\<lparr>vfs_mounted_here := Some 2\<rparr>) [], Inl (Panic RawAccess))"
proof -
  let ?s = "toy_state\<lparr>mounts := mounts toy_state @ [vfs_new 2 () (ascii ''/a'')]\<rparr>"
  let ?t = "TreeNode (vnode_new 1 Directory 1\<lparr>vfs_mounted_here := Some 2\<rparr>) [] :: nat tree_node"
  have p: "path_parts (ascii ''/a'') = [ascii ''a'']" "path_parts (ascii ''/'') = []"
    by (simp_all add: path_parts_def split_terminator_def slash_def ascii_def)
  have "del_vfs ?s (ascii ''/a'') = (?s\<lparr>mounts := mounts toy_state\<rparr>, Inr ())"
    using p by (simp add: del_vfs_def mount_point_busy_def toy_state_def vfs_new_def ascii_def)
  moreover have "distinct (map vfs_addr (mounts ?s))"
    "find (\<lambda>v. mount_point v = Some (ascii ''/a'')) (mounts ?s) = Some (vfs_new 2 () (ascii ''/a''))"
    by (simp_all add: toy_state_def vfs_new_def ascii_def)
  ultimately show ?thesis
    using del_vfs_dangling [of ?s "ascii ''/a''" _ "vfs_new 2 () (ascii ''/a'')" ?t "[]" ?t "ascii ''b''" toy_ops]
    by (auto simp: ascii_def vfs_new_def)
qed

end
