(* ===== verification/Fat_Vfs.thy ===== *)
theory Fat_Vfs
  imports Fat_Correct Vfs_Correct
begin

text \<open>
  The FAT driver behind the interface of the virtual file system: the implementations of \<^verbatim>\<open>FsOps\<close> for \<^verbatim>\<open>FatFs\<close> and of
  \<^verbatim>\<open>VNodeOperations\<close> for its \<^verbatim>\<open>File\<close>. File lengths are 32-bit numbers, so the bounds check of the
  virtual file system is exact for them, and reading a whole file returns the bytes of its chain.
\<close>

fun fat_vnode_type :: "fat_file \<Rightarrow> vnode_type" where
  "fat_vnode_type (Dir _) = Directory"
| "fat_vnode_type (Archive _) = Regular"

definition fat_ops :: "(utext \<Rightarrow> utext) \<Rightarrow> block_read \<Rightarrow> bool \<Rightarrow> (fat_fs, fat_file) fs_ops" where
  "fat_ops upper dev fat_in_mem =
     \<lparr>op_mount = (\<lambda>path fs. fat_mount fat_in_mem dev fs),
      op_root = (\<lambda>fs. rbind (fat_root fs) (\<lambda>f. Inr (f, Directory))),
      op_lookup = (\<lambda>fs f nm. rbind (fat_lookup upper dev fs f nm) (\<lambda>g. Inr (g, fat_vnode_type g))),
      op_read = (\<lambda>fs f count offset. fat_file_read fat_in_mem dev fs f count offset),
      op_len = fat_len\<rparr>"

lemma size_bound: "unat (ucast (w :: u32) :: usize) < 2 ^ 32"
  using unsigned_less [of w, where 'a = nat] by (subst unat_ucast_up) simp_all

lemma fat_len_bound: "fat_len f = Inr n \<Longrightarrow> unat n < 2 ^ 32"
  by (cases f) (use size_bound in auto)

interpretation fat: sized_files "fat_ops upper dev fat_in_mem"
proof
  fix i n
  assume "op_len (fat_ops upper dev fat_in_mem) i = Inr n"
  then have "unat n < 2 ^ 32" by (intro fat_len_bound) (simp add: fat_ops_def)
  then show "unat n < 2 ^ 63" by simp
qed

lemma fat_read_all:
  assumes "inode vn = Archive e" "vnode_fs ms vn = Inr fs"
    and chain: "cluster_chain fat_in_mem dev fs cs" "List.hd cs = entry_cluster e" "cluster_size fs \<noteq> 0"
      "\<And>c. c \<in> set cs \<Longrightarrow> read_cluster dev fs (ucast c) = Inr (dat c) \<and> length (dat c) = unat (cluster_size fs)"
  shows "file_read_all (fat_ops upper dev fat_in_mem) ms vn 0
    = (if file_size e = 0 then Some (Inl ErrUnit)
       else Some (Inr (take (unat (file_size e)) (concat (map dat cs)))))"
proof -
  have len: "op_len (fat_ops upper dev fat_in_mem) (inode vn) = Inr (ucast (file_size e))"
    by (simp add: fat_ops_def assms(1))
  have u: "unat (ucast (file_size e) :: usize) = unat (file_size e)"
    by (subst unat_ucast_up) simp_all
  have "read_chain fat_in_mem dev fs (ucast (file_size e)) 0 0 (entry_cluster e) []
      = Some (Inr (take (unat (file_size e)) (concat (map dat cs))))"
    using read_chain_spec [OF chain(1,4), of 0 "ucast (file_size e)" "[]"] chain(2) u by simp
  then show ?thesis
    using fat.file_read_all_exact [OF len assms(2), of 0] chain(3) u
    by (auto simp: fat_ops_def assms(1) unat_gt_0 unat_eq_zero)
qed

end
