(* ===== verification/Chunk_Reader.thy ===== *)
theory Chunk_Reader
  imports Gzip
begin

text \<open>
  The superblock and the metadata blocks of squashfs images, \<^verbatim>\<open>src/drivers/fs/initramfs/superblock.rs\<close> and
  \<^verbatim>\<open>chunk_reader.rs\<close>. A chunk is a metadata block with its two-byte header; it is decompressed in place when
  it is first read. The decompressor is an argument; a loop that never ends is the value \<open>None\<close>.
\<close>

section \<open>Superblock\<close>

datatype compression_type = Gzip | Lzma | Lzo | Xz | Lz4 | Zstd

definition compression_type_from :: "u16 \<Rightarrow> compression_type res" where
  "compression_type_from v =
     (if v = 1 then Inr Gzip else if v = 2 then Inr Lzma else if v = 3 then Inr Lzo
      else if v = 4 then Inr Xz else if v = 5 then Inr Lz4 else if v = 6 then Inr Zstd
      else Inl (Panic ExplicitPanic))"

record squashfs_superblock =
  sb_magic :: u32
  inode_count :: u32
  mod_time :: u32
  block_size :: u32
  frag_count :: u32
  compressor :: compression_type
  block_log :: u16
  sb_flags :: u16
  id_count :: u16
  ver_major :: u16
  ver_minor :: u16
  root_inode :: u64
  bytes_used :: u64
  id_table_start :: u64
  xattr_table_start :: u64
  inode_table_start :: u64
  dir_table_start :: u64
  frag_table_start :: u64
  export_table_start :: u64

definition superblock_fields :: "u8 list \<Rightarrow> squashfs_superblock res" where
  "superblock_fields bytes =
     rbind (le_field bytes 0 4) (\<lambda>magic.
     rbind (le_field bytes 4 8) (\<lambda>inodes.
     rbind (le_field bytes 8 12) (\<lambda>mtime.
     rbind (le_field bytes 12 16) (\<lambda>bsize.
     rbind (le_field bytes 16 20) (\<lambda>frags.
     rbind (le_field bytes 20 22) (\<lambda>comp.
     rbind (compression_type_from comp) (\<lambda>ctype.
     rbind (le_field bytes 22 24) (\<lambda>blog.
     rbind (le_field bytes 24 26) (\<lambda>fl.
     rbind (le_field bytes 26 28) (\<lambda>ids.
     rbind (le_field bytes 28 30) (\<lambda>major.
     rbind (le_field bytes 30 32) (\<lambda>minor.
     rbind (le_field bytes 32 40) (\<lambda>root.
     rbind (le_field bytes 40 48) (\<lambda>used.
     rbind (le_field bytes 48 56) (\<lambda>idt.
     rbind (le_field bytes 56 64) (\<lambda>xattrt.
     rbind (le_field bytes 64 72) (\<lambda>inodet.
     rbind (le_field bytes 72 80) (\<lambda>dirt.
     rbind (le_field bytes 80 88) (\<lambda>fragt.
     rbind (le_field bytes 88 96) (\<lambda>exportt.
       Inr \<lparr>sb_magic = magic, inode_count = inodes, mod_time = mtime, block_size = bsize, frag_count = frags,
            compressor = ctype, block_log = blog, sb_flags = fl, id_count = ids, ver_major = major, ver_minor = minor,
            root_inode = root, bytes_used = used, id_table_start = idt, xattr_table_start = xattrt,
            inode_table_start = inodet, dir_table_start = dirt, frag_table_start = fragt,
            export_table_start = exportt\<rparr>))))))))))))))))))))"

definition superblock_new :: "u8 list \<Rightarrow> squashfs_superblock res" where
  "superblock_new bytes =
     rbind (superblock_fields bytes) (\<lambda>sb.
       if sb_magic sb \<noteq> 0x73717368 then Inl ErrUnit
       else if ver_major sb \<noteq> 4 \<or> ver_minor sb \<noteq> 0 then Inl ErrUnit
       else if block_size sb > 1048576 then Inl ErrUnit
       else if block_log sb > 20 then Inl ErrUnit
       else if block_size sb \<noteq> push_bit (unat (block_log sb)) 1 then Inl ErrUnit
       else if block_size sb = 0 then Inl ErrUnit
       else if (block_size sb - 1) AND block_size sb \<noteq> 0 then Inl ErrUnit
       else Inr sb)"

record squashfs_features =
  uncompressed_inodes :: bool
  uncompressed_data_blocks :: bool
  feat_reserved :: bool
  uncompressed_fragments :: bool
  unused_fragments :: bool
  fragments_always_present :: bool
  deduplicated_data :: bool
  nfs_table_present :: bool
  uncompressed_xattrs :: bool
  no_xattrs :: bool
  compressor_options_present :: bool
  uncompressed_id_table :: bool

definition features :: "squashfs_superblock \<Rightarrow> squashfs_features" where
  "features sb =
     (let f = sb_flags sb in
      \<lparr>uncompressed_inodes = (f AND 0x0001 \<noteq> 0), uncompressed_data_blocks = (f AND 0x0002 \<noteq> 0),
       feat_reserved = (f AND 0x0004 \<noteq> 0), uncompressed_fragments = (f AND 0x0008 \<noteq> 0),
       unused_fragments = (f AND 0x0010 \<noteq> 0), fragments_always_present = (f AND 0x0020 \<noteq> 0),
       deduplicated_data = (f AND 0x0040 \<noteq> 0), nfs_table_present = (f AND 0x0080 \<noteq> 0),
       uncompressed_xattrs = (f AND 0x0100 \<noteq> 0), no_xattrs = (f AND 0x0200 \<noteq> 0),
       compressor_options_present = (f AND 0x0400 \<noteq> 0), uncompressed_id_table = (f AND 0x0800 \<noteq> 0)\<rparr>)"

section \<open>Chunks\<close>

type_synonym chunk = "u8 list"

type_synonym decompressor = "u8 list \<Rightarrow> u8 list res option"

definition HEADER_SIZE :: nat where "HEADER_SIZE = 2"

definition chunk_header :: "chunk \<Rightarrow> u16 res" where
  "chunk_header c = le_field c 0 HEADER_SIZE"

definition chunk_len :: "chunk \<Rightarrow> nat res" where
  "chunk_len c = rbind (chunk_header c) (\<lambda>h. Inr (unat (h AND 0x7FFF)))"

definition chunk_is_compressed :: "chunk \<Rightarrow> bool res" where
  "chunk_is_compressed c = rbind (chunk_header c) (\<lambda>h. Inr (h AND 0x8000 = 0))"

definition chunk_decompress :: "decompressor \<Rightarrow> chunk \<Rightarrow> chunk res option" where
  "chunk_decompress dec c =
     obind (Some (chunk_is_compressed c)) (\<lambda>z.
       if z then
         obind (Some (slice_res c HEADER_SIZE (length c))) (\<lambda>body.
         obind (map_option expect_res (dec body)) (\<lambda>d.
           Some (Inr (to_le 2 (unat ((of_nat (length d) :: u16) OR 0x8000)) @ d))))
       else Some (Inr c))"

function chunks_from :: "u8 list \<Rightarrow> nat \<Rightarrow> chunk list res" where
  "chunks_from data offset =
     (if offset = length data then Inr []
      else rbind (le_field data offset (offset + HEADER_SIZE)) (\<lambda>h.
        rbind (slice_res data offset (offset + (unat ((h :: u16) AND 0x7FFF) + HEADER_SIZE))) (\<lambda>c.
        rbind (chunks_from data (offset + (unat (h AND 0x7FFF) + HEADER_SIZE))) (\<lambda>cs. Inr (c # cs)))))"
  by pat_completeness auto
termination
  by (relation "measure (\<lambda>(data, offset). length data - offset)") (auto simp: slice_res_eq_Inr HEADER_SIZE_def)

declare chunks_from.simps [simp del]

definition chunk_reader_new :: "u8 list \<Rightarrow> chunk list res" where
  "chunk_reader_new data = chunks_from data 0"

section \<open>Reading\<close>

text \<open>The first loop of \<^verbatim>\<open>get_slice\<close>: the number of the chunk that starts at byte \<open>chunk\<close> of the table.\<close>

partial_function (option) chunk_index :: "chunk list \<Rightarrow> u64 \<Rightarrow> u64 \<Rightarrow> u64 \<Rightarrow> u64 res option" where
  "chunk_index cs chunk chunk_idx total_length =
     (if total_length = chunk then Some (Inr chunk_idx)
      else case rbind (index_res cs 0) chunk_len of
        Inl e \<Rightarrow> Some (Inl e)
      | Inr l \<Rightarrow> chunk_index cs chunk (chunk_idx + 1) (total_length + of_nat (l + HEADER_SIZE)))"

declare chunk_index.simps [code]

text \<open>The second loop: the chunks from \<open>i\<close> on that are needed; the result is the index behind the last of them.\<close>

function more_chunks :: "decompressor \<Rightarrow> chunk list \<Rightarrow> nat \<Rightarrow> usize \<Rightarrow> usize \<Rightarrow> (chunk list \<times> nat) res option" where
  "more_chunks dec cs i available_bytes bytes_wanted =
     (if \<not> available_bytes < bytes_wanted then Some (Inr (cs, i))
      else if i < length cs then
        (case chunk_decompress dec (cs ! i) of
           None \<Rightarrow> None
         | Some (Inl e) \<Rightarrow> Some (Inl e)
         | Some (Inr c) \<Rightarrow>
             (case chunk_len c of
                Inl e \<Rightarrow> Some (Inl e)
              | Inr l \<Rightarrow> more_chunks dec (cs[i := c]) (Suc i) (available_bytes + of_nat l) bytes_wanted))
      else Some (Inl (Panic IndexOutOfBounds)))"
  by pat_completeness auto
termination
  by (relation "measure (\<lambda>(dec, cs, i, a, s). length cs - i)") auto

declare more_chunks.simps [simp del]

text \<open>The third loop: \<open>n\<close> chunks from \<open>i\<close> on are copied.\<close>

fun gather :: "decompressor \<Rightarrow> chunk list \<Rightarrow> nat \<Rightarrow> nat \<Rightarrow> u16 \<Rightarrow> usize \<Rightarrow> (chunk list \<times> u8 list) res option" where
  "gather dec cs i 0 offset bytes_wanted = Some (Inr (cs, []))"
| "gather dec cs i (Suc n) offset bytes_wanted =
     obind (Some (index_res cs i)) (\<lambda>c0.
     obind (chunk_decompress dec c0) (\<lambda>c.
     obind (Some (chunk_len c)) (\<lambda>l.
     let block_start = ucast offset + of_nat HEADER_SIZE :: usize;
         block_end = of_nat (l + HEADER_SIZE) :: usize;
         block_end = (if block_end - block_start > bytes_wanted then block_start + bytes_wanted else block_end)
     in obind (Some (slice_res c (unat block_start) (unat block_end))) (\<lambda>bytes.
        obind (gather dec (cs[i := c]) (Suc i) n 0 bytes_wanted) (\<lambda>(cs', rest). Some (Inr (cs', bytes @ rest)))))))"

definition get_slice :: "decompressor \<Rightarrow> chunk list \<Rightarrow> u64 \<Rightarrow> u16 \<Rightarrow> usize \<Rightarrow> (chunk list \<times> u8 list) res option" where
  "get_slice dec cs chunk offset bytes_wanted =
     obind (chunk_index cs chunk 0 0) (\<lambda>idx.
     let k = unat idx in
     obind (Some (index_res cs k)) (\<lambda>c0.
     obind (chunk_decompress dec c0) (\<lambda>c.
     obind (Some (slice_res c (unat offset) (length c))) (\<lambda>avail.
     obind (more_chunks dec (cs[k := c]) (Suc k) (of_nat (length avail)) bytes_wanted) (\<lambda>(cs', stop).
       gather dec cs' k (stop - k) offset bytes_wanted)))))"

end
