(* ===== verification/Squashfs.thy ===== *)
theory Squashfs
  imports Chunk_Reader Utf
begin

text \<open>
  The initial RAM disk, \<^verbatim>\<open>src/drivers/fs/initramfs/mod.rs\<close>: a squashfs image in memory, its tables, inodes, directories and
  files. The memory at the start of the image is a list of bytes; a raw read behind it is outside the model. Reading a table
  decompresses its chunks in place, so every operation returns the tables it leaves behind. The inner option of
  a lookup is the \<^verbatim>\<open>Err(())\<close> of the source, a panic ends the run and returns no tables.
\<close>

section \<open>Inodes\<close>

datatype inode_file_type =
    BasicDirectoryType | BasicFileType | BasicSymlink | BasicBlockDevice | BasicCharDevice | BasicPipe | BasicSocked
  | ExtendedDirectoryType | ExtendedFile | ExtendedSymlink | ExtendedBlockDevice | ExtendedPipe | ExtendedSocked

definition inode_file_type_from :: "u16 \<Rightarrow> inode_file_type res" where
  "inode_file_type_from v =
     (if v = 1 then Inr BasicDirectoryType else if v = 2 then Inr BasicFileType else if v = 3 then Inr BasicSymlink
      else if v = 4 then Inr BasicBlockDevice else if v = 5 then Inr BasicCharDevice else if v = 6 then Inr BasicPipe
      else if v = 7 then Inr BasicSocked else if v = 8 then Inr ExtendedDirectoryType else if v = 9 then Inr ExtendedFile
      else if v = 10 then Inr ExtendedSymlink else if v = 11 then Inr ExtendedBlockDevice
      else if v = 12 then Inr ExtendedPipe else if v = 13 then Inr ExtendedSocked
      else Inl (Panic ExplicitPanic))"

record inode_header =
  ih_file_type :: inode_file_type
  ih_mtime :: u32
  ih_inode_num :: u32

definition inode_header_from :: "u8 list \<Rightarrow> inode_header res" where
  "inode_header_from bytes =
     rbind (le_field bytes 0 2) (\<lambda>t.
     rbind (inode_file_type_from t) (\<lambda>ty.
     rbind (le_field bytes 8 12) (\<lambda>mtime.
     rbind (le_field bytes 12 16) (\<lambda>num.
       Inr \<lparr>ih_file_type = ty, ih_mtime = mtime, ih_inode_num = num\<rparr>))))"

record basic_directory_inode =
  bd_header :: inode_header
  bd_block_index :: u32
  bd_link_count :: u32
  bd_file_size :: u16
  bd_block_offset :: u16
  bd_parent_inode :: u32

definition basic_directory_from :: "u8 list \<Rightarrow> basic_directory_inode res" where
  "basic_directory_from bytes =
     rbind (inode_header_from bytes) (\<lambda>h.
     rbind (le_field bytes 16 20) (\<lambda>idx.
     rbind (le_field bytes 20 24) (\<lambda>links.
     rbind (le_field bytes 24 26) (\<lambda>fsize.
     rbind (le_field bytes 26 28) (\<lambda>off.
     rbind (le_field bytes 28 32) (\<lambda>parent.
       Inr \<lparr>bd_header = h, bd_block_index = idx, bd_link_count = links, bd_file_size = fsize, bd_block_offset = off,
            bd_parent_inode = parent\<rparr>))))))"

record extended_directory_inode =
  ed_header :: inode_header
  ed_link_count :: u32
  ed_file_size :: u32
  ed_block_index :: u32
  ed_parent_inode :: u32
  ed_index_count :: u16
  ed_block_offset :: u16
  ed_xattr_index :: u32

definition extended_directory_from :: "u8 list \<Rightarrow> extended_directory_inode res" where
  "extended_directory_from bytes =
     rbind (inode_header_from bytes) (\<lambda>h.
     rbind (le_field bytes 16 20) (\<lambda>links.
     rbind (le_field bytes 20 24) (\<lambda>fsize.
     rbind (le_field bytes 24 28) (\<lambda>idx.
     rbind (le_field bytes 28 32) (\<lambda>parent.
     rbind (le_field bytes 32 34) (\<lambda>icount.
     rbind (le_field bytes 34 36) (\<lambda>off.
     rbind (le_field bytes 36 40) (\<lambda>xattr.
       Inr \<lparr>ed_header = h, ed_link_count = links, ed_file_size = fsize, ed_block_index = idx, ed_parent_inode = parent,
            ed_index_count = icount, ed_block_offset = off, ed_xattr_index = xattr\<rparr>))))))))"

record basic_file_inode =
  bf_header :: inode_header
  bf_block_start :: u32
  bf_frag_idx :: u32
  bf_block_offset :: u32
  bf_file_size :: u32

definition basic_file_from :: "u8 list \<Rightarrow> basic_file_inode res" where
  "basic_file_from bytes =
     rbind (inode_header_from bytes) (\<lambda>h.
     rbind (le_field bytes 16 20) (\<lambda>start.
     rbind (le_field bytes 20 24) (\<lambda>frag.
     rbind (le_field bytes 24 28) (\<lambda>off.
     rbind (le_field bytes 28 32) (\<lambda>fsize.
       Inr \<lparr>bf_header = h, bf_block_start = start, bf_frag_idx = frag, bf_block_offset = off,
            bf_file_size = fsize\<rparr>)))))"

datatype sq_inode =
    BasicFile basic_file_inode
  | BasicDirectory basic_directory_inode
  | ExtendedDirectory extended_directory_inode

text \<open>\<^verbatim>\<open>TryInto\<close> from an inode to the structure of one of its kinds, the three uses of \<^verbatim>\<open>inode_enum_try_into!\<close>.\<close>

fun try_into_basic_file :: "sq_inode \<Rightarrow> basic_file_inode res" where
  "try_into_basic_file (BasicFile i) = Inr i"
| "try_into_basic_file _ = Inl ErrUnit"

fun try_into_basic_directory :: "sq_inode \<Rightarrow> basic_directory_inode res" where
  "try_into_basic_directory (BasicDirectory i) = Inr i"
| "try_into_basic_directory _ = Inl ErrUnit"

fun try_into_extended_directory :: "sq_inode \<Rightarrow> extended_directory_inode res" where
  "try_into_extended_directory (ExtendedDirectory i) = Inr i"
| "try_into_extended_directory _ = Inl ErrUnit"

definition inode_from :: "u8 list \<Rightarrow> sq_inode res" where
  "inode_from value =
     rbind (le_field value 0 2) (\<lambda>t.
     rbind (inode_file_type_from t) (\<lambda>ty.
       case ty of
         BasicDirectoryType \<Rightarrow> rbind (basic_directory_from value) (\<lambda>d. Inr (BasicDirectory d))
       | ExtendedDirectoryType \<Rightarrow> rbind (extended_directory_from value) (\<lambda>d. Inr (ExtendedDirectory d))
       | BasicFileType \<Rightarrow> rbind (basic_file_from value) (\<lambda>f. Inr (BasicFile f))
       | _ \<Rightarrow> Inl (Panic ExplicitPanic)))"

record directory_table_header =
  dth_entry_count :: u32
  dth_start :: u32
  dth_inode_num :: u32

definition directory_table_header_from :: "u8 list \<Rightarrow> directory_table_header res" where
  "directory_table_header_from value =
     rbind (le_field value 0 4) (\<lambda>count.
     rbind (le_field value 4 8) (\<lambda>start.
     rbind (le_field value 8 12) (\<lambda>num.
       Inr \<lparr>dth_entry_count = count + 1, dth_start = start, dth_inode_num = num\<rparr>)))"

record directory_table_entry =
  dte_offset :: u16
  dte_inode_offset :: u16
  dte_inode_type :: inode_file_type
  dte_name_size :: u16
  dte_name :: utext

text \<open>\<^verbatim>\<open>inode_offset\<close> is an \<^verbatim>\<open>i16\<close> of the same bits.\<close>

definition directory_table_entry_from :: "u8 list \<Rightarrow> directory_table_entry res" where
  "directory_table_entry_from bytes =
     rbind (le_field bytes 0 2) (\<lambda>off.
     rbind (le_field bytes 2 4) (\<lambda>ioff.
     rbind (le_field bytes 4 6) (\<lambda>t.
     rbind (inode_file_type_from t) (\<lambda>ty.
     rbind (le_field bytes 6 8) (\<lambda>nsize.
     rbind (slice_res bytes 8 ((unat nsize + 1) + 8)) (\<lambda>raw.
     rbind (utf8_unwrap raw) (\<lambda>name.
       Inr \<lparr>dte_offset = off, dte_inode_offset = ioff, dte_inode_type = ty, dte_name_size = nsize,
            dte_name = name\<rparr>)))))))"

section \<open>The image\<close>

record squashfs =
  superblock :: squashfs_superblock
  image :: "u8 list"
  data_table :: "u8 list"
  inode_table :: "chunk list"
  directory_table :: "chunk list"
  fragment_table :: "u8 list option"
  export_table :: "u8 list option"
  id_table :: "u8 list"
  xattr_table :: "u8 list option"

text \<open>\<^verbatim>\<open>from_raw_parts\<close> and unaligned reads relative to the start of the image.\<close>

definition raw_slice :: "u8 list \<Rightarrow> nat \<Rightarrow> nat \<Rightarrow> u8 list res" where
  "raw_slice mem a n = (if a + n \<le> length mem then Inr (take n (drop a mem)) else Inl (Panic RawAccess))"

datatype table_kind = InodeT | DirT | FragT | ExportT | IDT | XattrT

definition table_list :: "squashfs_superblock \<Rightarrow> (table_kind \<times> u64) list" where
  "table_list sb =
     [(InodeT, inode_table_start sb), (DirT, dir_table_start sb)]
     @ (if frag_table_start sb \<noteq> - 1 then [(FragT, frag_table_start sb)] else [])
     @ (if export_table_start sb \<noteq> - 1 then [(ExportT, export_table_start sb)] else [])
     @ [(IDT, id_table_start sb)]
     @ (if xattr_table_start sb \<noteq> - 1 then [(XattrT, xattr_table_start sb)] else [])"

text \<open>One round of the loop over the tables; \<open>stop\<close> is where the next table starts.\<close>

definition fill_table :: "u8 list \<Rightarrow> table_kind \<Rightarrow> nat \<Rightarrow> nat \<Rightarrow> squashfs \<Rightarrow> squashfs res" where
  "fill_table data table start stop fs =
     rbind (slice_res data start stop) (\<lambda>whole_table.
       case table of
         InodeT \<Rightarrow> rbind (chunk_reader_new whole_table) (\<lambda>cs. Inr (fs\<lparr>inode_table := cs\<rparr>))
       | DirT \<Rightarrow> rbind (chunk_reader_new whole_table) (\<lambda>cs. Inr (fs\<lparr>directory_table := cs\<rparr>))
       | FragT \<Rightarrow> Inr (fs\<lparr>fragment_table := Some whole_table\<rparr>)
       | ExportT \<Rightarrow> Inr (fs\<lparr>export_table := Some whole_table\<rparr>)
       | IDT \<Rightarrow> Inr (fs\<lparr>id_table := whole_table\<rparr>)
       | XattrT \<Rightarrow> Inr (fs\<lparr>xattr_table := Some whole_table\<rparr>))"

fun fill_tables :: "u8 list \<Rightarrow> (table_kind \<times> u64) list \<Rightarrow> squashfs \<Rightarrow> squashfs res" where
  "fill_tables data [] fs = Inr fs"
| "fill_tables data [(t, off)] fs = fill_table data t (unat off) (length data) fs"
| "fill_tables data ((t, off) # (t', off') # ts) fs =
     rbind (fill_table data t (unat off) (unat off') fs) (\<lambda>fs'. fill_tables data ((t', off') # ts) fs')"

definition squashfs_new :: "u8 list \<Rightarrow> squashfs res" where
  "squashfs_new mem =
     rbind (raw_slice mem 40 8) (\<lambda>lb.
     rbind (raw_slice mem 0 (le_val lb)) (\<lambda>squashfs_data.
     rbind (superblock_new squashfs_data) (\<lambda>sb.
     rbind (if compressor sb = Gzip then Inr () else Inl (Panic ExplicitPanic)) (\<lambda>_.
     rbind (slice_res squashfs_data 96 (unat (inode_table_start sb))) (\<lambda>data_tab.
       fill_tables squashfs_data (table_list sb)
         \<lparr>superblock = sb, image = mem, data_table = data_tab, inode_table = [], directory_table = [],
          fragment_table = None, export_table = None, id_table = [], xattr_table = None\<rparr>)))))"

text \<open>\<^verbatim>\<open>init\<close>: the boot loader's module, or a failed assertion.\<close>

definition initramfs_init :: "u8 list option \<Rightarrow> squashfs res" where
  "initramfs_init initramfs =
     (case initramfs of
        None \<Rightarrow> Inl (Panic AssertFailed)
      | Some mem \<Rightarrow>
          (case squashfs_new mem of Inl ErrUnit \<Rightarrow> Inl (Panic AssertFailed) | r \<Rightarrow> r))"

definition get_inode_block_offset :: "u64 \<Rightarrow> u64 \<times> u16" where
  "get_inode_block_offset i = (drop_bit 16 i AND 0x0000FFFFFFFFFFFF, ucast (i AND 0xFFFF))"

text \<open>\<^verbatim>\<open>get_slice(..).try_into().unwrap()\<close> for an array of \<open>n\<close> bytes.\<close>

definition exact_bytes :: "nat \<Rightarrow> u8 list \<Rightarrow> u8 list res" where
  "exact_bytes n bs = (if length bs = n then Inr bs else Inl (Panic UnwrapFailed))"

definition inode_size :: "inode_file_type \<Rightarrow> usize res" where
  "inode_size ty =
     (case ty of
        BasicDirectoryType \<Rightarrow> Inr 32
      | ExtendedDirectoryType \<Rightarrow> Inr 40
      | BasicFileType \<Rightarrow> Inr 32
      | _ \<Rightarrow> Inl (Panic ExplicitPanic))"

definition read_inode :: "squashfs \<Rightarrow> u64 \<Rightarrow> (squashfs \<times> sq_inode) res option" where
  "read_inode fs i =
     (let (inode_block, inode_offset) = get_inode_block_offset i in
      obind (get_slice uncompress_data (inode_table fs) inode_block inode_offset 2) (\<lambda>(cs, t).
      obind (Some (rbind (exact_bytes 2 t) (\<lambda>b. rbind (le_field b 0 2) inode_file_type_from))) (\<lambda>ty.
      obind (Some (inode_size ty)) (\<lambda>sz.
      obind (get_slice uncompress_data cs inode_block inode_offset sz) (\<lambda>(cs', bytes).
      obind (Some (inode_from bytes)) (\<lambda>ino. Some (Inr (fs\<lparr>inode_table := cs'\<rparr>, ino))))))))"

definition read_root_dir :: "squashfs \<Rightarrow> (squashfs \<times> sq_inode) res option" where
  "read_root_dir fs = read_inode fs (root_inode (superblock fs))"

section \<open>Directories\<close>

fun directory_position :: "sq_inode \<Rightarrow> (u64 \<times> usize) option" where
  "directory_position (BasicDirectory d) =
     Some (push_bit 16 (ucast (bd_block_index d)) OR ucast (bd_block_offset d), ucast (bd_file_size d))"
| "directory_position (ExtendedDirectory d) =
     Some (push_bit 16 (ucast (ed_block_index d)) OR ucast (ed_block_offset d), ucast (ed_file_size d))"
| "directory_position (BasicFile _) = None"

definition directory_slice :: "squashfs \<Rightarrow> u64 \<Rightarrow> u16 \<Rightarrow> usize \<Rightarrow> (squashfs \<times> u8 list) res option" where
  "directory_slice fs block off n =
     obind (get_slice uncompress_data (directory_table fs) block off n) (\<lambda>(cs, bytes).
       Some (Inr (fs\<lparr>directory_table := cs\<rparr>, bytes)))"

text \<open>One round of the loop: it goes on with a header, an offset and a count of entries, or ends with the number of
  the inode it found.\<close>

datatype dir_step = Continue directory_table_header usize u32 | Finished "u64 option"

definition directory_round ::
    "squashfs \<Rightarrow> u64 \<Rightarrow> u16 \<Rightarrow> usize \<Rightarrow> utext \<Rightarrow> directory_table_header \<Rightarrow> usize \<Rightarrow> u32 \<Rightarrow> (squashfs \<times> dir_step) res option" where
  "directory_round fs block off dir_size name hdr offset i =
     (if i = dth_entry_count hdr \<and> offset \<noteq> dir_size then
        obind (directory_slice fs block (off + ucast offset) 12) (\<lambda>(fs', bytes).
        obind (Some (directory_table_header_from bytes)) (\<lambda>h. Some (Inr (fs', Continue h (offset + 12) 0))))
      else if offset \<ge> dir_size then Some (Inr (fs, Finished None))
      else
        obind (directory_slice fs block (off + (ucast offset + 6)) 2) (\<lambda>(fs1, nb).
        obind (Some (rbind (exact_bytes 2 nb) (\<lambda>b. le_field b 0 2))) (\<lambda>ns.
        let name_size = ucast (ns :: u16) + 1 :: usize in
        obind (directory_slice fs1 block (off + ucast offset) (8 + name_size)) (\<lambda>(fs2, eb).
        obind (Some (directory_table_entry_from eb)) (\<lambda>entry.
          if dte_name entry = name
          then Some (Inr (fs2, Finished (Some (push_bit 16 (ucast (dth_start hdr)) OR ucast (dte_offset entry)))))
          else Some (Inr (fs2, Continue hdr (offset + (8 + name_size)) (i + 1))))))))"

partial_function (option) directory_loop ::
    "squashfs \<Rightarrow> u64 \<Rightarrow> u16 \<Rightarrow> usize \<Rightarrow> utext \<Rightarrow> directory_table_header \<Rightarrow> usize \<Rightarrow> u32 \<Rightarrow> (squashfs \<times> u64 option) res option" where
  "directory_loop fs block off dir_size name hdr offset i =
     (case directory_round fs block off dir_size name hdr offset i of
        None \<Rightarrow> None
      | Some r \<Rightarrow>
          (case r of
             Inl e \<Rightarrow> Some (Inl e)
           | Inr x \<Rightarrow>
               (case snd x of
                  Finished found \<Rightarrow> Some (Inr (fst x, found))
                | Continue hdr' offset' i' \<Rightarrow> directory_loop (fst x) block off dir_size name hdr' offset' i')))"

declare directory_loop.simps [code]

definition sq_find_entry :: "squashfs \<Rightarrow> sq_inode \<Rightarrow> utext \<Rightarrow> (squashfs \<times> sq_inode option) res option" where
  "sq_find_entry fs dir name =
     (case directory_position dir of
        None \<Rightarrow> Some (Inr (fs, None))
      | Some (pos, dir_size) \<Rightarrow>
          if dir_size = 0 then Some (Inr (fs, None))
          else
            (let (block, off) = get_inode_block_offset pos in
             obind (directory_slice fs block off 12) (\<lambda>(fs1, bytes).
             obind (Some (directory_table_header_from bytes)) (\<lambda>hdr.
             obind (directory_loop fs1 block off dir_size name hdr 12 0) (\<lambda>(fs2, found).
               case found of
                 None \<Rightarrow> Some (Inr (fs2, None))
               | Some n \<Rightarrow> obind (read_inode fs2 n) (\<lambda>(fs3, ino). Some (Inr (fs3, Some ino))))))))"

section \<open>Files\<close>

text \<open>\<^verbatim>\<open>get_decompressed_table\<close>: \<open>None\<close> for a metadata block, whose header says whether it is compressed. Data that does not
  decompress is taken as it is.\<close>

definition get_decompressed_table :: "squashfs \<Rightarrow> u8 list \<Rightarrow> bool option \<Rightarrow> u8 list res option" where
  "get_decompressed_table fs table override =
     obind (Some (le_field table 0 2)) (\<lambda>header.
     let table_is_compressed = (case override of Some b \<Rightarrow> b | None \<Rightarrow> (header :: u16) AND 0x8000 = 0) in
     obind (Some (case override of None \<Rightarrow> slice_res table 2 (length table) | Some _ \<Rightarrow> Inr table)) (\<lambda>bytes.
       if table_is_compressed then
         (case compressor (superblock fs) of
            Gzip \<Rightarrow>
              (case uncompress_data bytes of
                 Some (Inl ErrUnit) \<Rightarrow> Some (Inr bytes)
               | r \<Rightarrow> r)
          | _ \<Rightarrow> Some (Inr []))
       else Some (Inr bytes)))"

text \<open>The block a fragment points at, read through raw pointers.\<close>

definition fragment_data :: "squashfs \<Rightarrow> basic_file_inode \<Rightarrow> u8 list res option" where
  "fragment_data fs f =
     obind (Some (unwrap_opt (fragment_table fs))) (\<lambda>ft.
     obind (get_decompressed_table fs ft (Some (\<not> uncompressed_fragments (features (superblock fs))))) (\<lambda>ftab.
     obind (Some (le_field ftab (unat (bf_frag_idx f)) (unat (bf_frag_idx f + 8)))) (\<lambda>ptr.
     obind (Some (rbind (raw_slice (image fs) (unat (ptr :: u64)) 2) (\<lambda>b. le_field b 0 2))) (\<lambda>h.
     obind (Some (raw_slice (image fs) (unat ptr) (unat (((h :: u16) AND 0x7FFF) + 2)))) (\<lambda>raw.
     obind (get_decompressed_table fs raw None) (\<lambda>fblock.
     obind (Some (le_field fblock 0 8)) (\<lambda>start.
     obind (Some (le_field fblock 8 12)) (\<lambda>fsize.
     obind (Some (raw_slice (image fs) (unat (start :: u64)) (unat ((fsize :: u32) AND 0xFEFFFFFF)))) (\<lambda>draw.
       get_decompressed_table fs draw (Some (fsize AND 0x1000000 = 0)))))))))))"

fun sq_read :: "squashfs \<Rightarrow> sq_inode \<Rightarrow> usize \<Rightarrow> usize \<Rightarrow> u8 list res option" where
  "sq_read fs (BasicFile f) count offset =
     obind (if bf_frag_idx f = - 1
            then get_decompressed_table fs (data_table fs)
                   (Some (\<not> uncompressed_data_blocks (features (superblock fs))))
            else fragment_data fs f) (\<lambda>data.
     let block_offset = ucast (bf_block_offset f) + offset
     in Some (slice_res data (unat block_offset) (unat (block_offset + count))))"
| "sq_read fs _ count offset = Some (Inl (Panic ExplicitPanic))"

fun sq_len :: "sq_inode \<Rightarrow> usize res" where
  "sq_len (BasicFile f) = Inr (ucast (bf_file_size f))"
| "sq_len _ = Inl (Panic ExplicitPanic)"

fun sq_is_dir :: "sq_inode \<Rightarrow> bool" where
  "sq_is_dir (BasicFile _) = False"
| "sq_is_dir _ = True"

definition sq_lookup :: "squashfs \<Rightarrow> sq_inode \<Rightarrow> utext \<Rightarrow> (squashfs \<times> sq_inode option) res option" where
  "sq_lookup fs ino nm =
     (if sq_is_dir ino then sq_find_entry fs ino nm else Some (Inl (Panic ExplicitPanic)))"

end
