(* ===== verification/Squashfs_Correct.thy ===== *)
theory Squashfs_Correct
  imports Squashfs
begin

text \<open>
  Correctness of the squashfs reader: a slice inside one metadata block is the same whether the block has been
  decompressed before or not, the search for a block may never end once the first block has been decompressed, and directory lookup
  finds the entries of a listing but fails on a name that is not there.
\<close>

section \<open>Chunks\<close>

definition plain_chunk :: "u8 list \<Rightarrow> chunk" where
  "plain_chunk d = to_le 2 (unat ((of_nat (length d) :: u16) OR 0x8000)) @ d"

text \<open>The chunk \<open>c\<close>, compressed or not, stands for the bytes \<open>d\<close>.\<close>

definition chunk_holds :: "decompressor \<Rightarrow> chunk \<Rightarrow> u8 list \<Rightarrow> bool" where
  "chunk_holds dec c d \<longleftrightarrow> chunk_decompress dec c = Some (Inr (plain_chunk d)) \<and> length d \<le> 0x7FFF"

lemma header_bits:
  assumes "n < 2 ^ 15"
  shows "((of_nat n :: u16) OR 0x8000) AND 0x7FFF = of_nat n" and "((of_nat n :: u16) OR 0x8000) AND 0x8000 \<noteq> 0"
proof -
  have m: "(0x7FFF :: u16) = mask 15" by (simp add: mask_eq_exp_minus_1)
  have "unat (take_bit 15 (of_nat n :: u16)) = unat (of_nat n :: u16)"
    using assms by (simp add: unat_take_bit unat_of_nat)
  then have "(of_nat n :: u16) AND 0x7FFF = of_nat n"
    unfolding m by (simp only: take_bit_eq_mask [symmetric] word_unat_eq_iff)
  then show "((of_nat n :: u16) OR 0x8000) AND 0x7FFF = of_nat n"
    by (simp add: bit.conj_disj_distrib2)
  have "((of_nat n :: u16) OR 0x8000) AND 0x8000 = 0x8000"
    by (rule bit_eqI) (auto simp: bit_simps)
  then show "((of_nat n :: u16) OR 0x8000) AND 0x8000 \<noteq> 0" by simp
qed

lemma plain_chunk_props:
  assumes "length d \<le> 0x7FFF"
  shows "chunk_len (plain_chunk d) = Inr (length d)" and "chunk_decompress dec (plain_chunk d) = Some (Inr (plain_chunk d))"
    and "length (plain_chunk d) = length d + 2" and "drop (k + 2) (plain_chunk d) = drop k d"
proof -
  show len: "length (plain_chunk d) = length d + 2" by (simp add: plain_chunk_def)
  show "drop (k + 2) (plain_chunk d) = drop k d" by (simp add: plain_chunk_def)
  have h: "chunk_header (plain_chunk d) = Inr ((of_nat (length d) :: u16) OR 0x8000)"
    unfolding chunk_header_def HEADER_SIZE_def
    using le_field_written [of 2 "plain_chunk d" "[]" "(of_nat (length d) :: u16) OR 0x8000" d]
    by (simp only: plain_chunk_def append_Nil list.size add_0) simp
  have n: "length d < 2 ^ 15" using assms by simp
  show "chunk_len (plain_chunk d) = Inr (length d)"
    using n by (simp add: chunk_len_def h header_bits(1) unat_of_nat)
  show "chunk_decompress dec (plain_chunk d) = Some (Inr (plain_chunk d))"
    using header_bits(2) [OF n] by (simp add: chunk_decompress_def chunk_is_compressed_def h)
qed

lemma chunk_holds_plain: "length d \<le> 0x7FFF \<Longrightarrow> chunk_holds dec (plain_chunk d) d"
  by (simp add: chunk_holds_def plain_chunk_props)

section \<open>Finding a chunk\<close>

lemma unat_of_nat16: "m < 2 ^ 16 \<Longrightarrow> unat (of_nat m :: u16) = m"
  by (simp add: unat_of_nat)

lemma chunk_index_multiple:
  assumes "rbind (index_res cs 0) chunk_len = Inr l" "k * (l + 2) < 2 ^ 64" "j \<le> k"
  shows "chunk_index cs (of_nat (k * (l + 2))) (of_nat j) (of_nat (j * (l + 2))) = Some (Inr (of_nat k))"
  using assms(3)
proof (induction "k - j" arbitrary: j)
  case 0
  then show ?case by (simp add: chunk_index.simps)
next
  case (Suc m)
  then have j: "j < k" by simp
  then have "j * (l + 2) < k * (l + 2)" by (rule mult_strict_right_mono) simp
  then have ne: "(of_nat (j * (l + 2)) :: u64) \<noteq> of_nat (k * (l + 2))"
    using assms(2) unat_of_nat64 [of "j * (l + 2)"] unat_of_nat64 [of "k * (l + 2)"] less_trans
    by (metis less_irrefl)
  have "chunk_index cs (of_nat (k * (l + 2))) (of_nat (Suc j)) (of_nat (Suc j * (l + 2))) = Some (Inr (of_nat k))"
    using Suc j by (intro Suc.hyps) simp_all
  moreover have "(of_nat (j * (l + 2)) :: u64) + of_nat (l + HEADER_SIZE) = of_nat (Suc j * (l + 2))"
    by (simp add: HEADER_SIZE_def algebra_simps)
  moreover have "(of_nat j :: u64) + 1 = of_nat (Suc j)" by simp
  ultimately show ?case
    using ne assms(1) by (subst chunk_index.simps) (simp only: if_False sum.case)
qed

lemma chunk_index_first: "chunk_index cs 0 0 0 = Some (Inr 0)"
  by (simp add: chunk_index.simps)

text \<open>The loop compares even totals with an odd position.\<close>

lemma even_add_word:
  fixes x :: u64
  assumes "even (unat x)" "even n"
  shows "even (unat (x + of_nat n))"
proof -
  have "unat (x + of_nat n) = (unat x + n) mod 2 ^ 64"
    by (simp add: unat_word_ariths unat_of_nat mod_simps)
  also have "even \<dots>"
    using assms by (subst dvd_mod_iff) simp_all
  finally show ?thesis .
qed

lemma chunk_index_odd:
  assumes "rbind (index_res cs 0) chunk_len = Inr l" "even l" "odd (unat p)" "even (unat total_length)"
  shows "chunk_index cs p i total_length = None"
proof (rule ccontr)
  assume "chunk_index cs p i total_length \<noteq> None"
  then obtain y where "chunk_index cs p i total_length = Some y" by auto
  then have "\<not> (rbind (index_res cs 0) chunk_len = Inr l \<and> even l \<and> odd (unat p) \<and> even (unat total_length))"
  proof (rule chunk_index.raw_induct [rotated, where P = "\<lambda>cs p i t y. \<not> (rbind (index_res cs 0) chunk_len = Inr l
      \<and> even l \<and> odd (unat p) \<and> even (unat t))"])
    fix f :: "chunk list \<Rightarrow> u64 \<Rightarrow> u64 \<Rightarrow> u64 \<Rightarrow> u64 res option" and cs p i t y
    assume IH: "\<And>cs p i t y. f cs p i t = Some y
        \<Longrightarrow> \<not> (rbind (index_res cs 0) chunk_len = Inr l \<and> even l \<and> odd (unat p) \<and> even (unat t))"
      and y: "(if t = p then Some (Inr i) else case rbind (index_res cs 0) chunk_len of Inl e \<Rightarrow> Some (Inl e)
        | Inr l \<Rightarrow> f cs p (i + 1) (t + of_nat (l + HEADER_SIZE))) = Some y"
    show "\<not> (rbind (index_res cs 0) chunk_len = Inr l \<and> even l \<and> odd (unat p) \<and> even (unat t))"
    proof
      assume a: "rbind (index_res cs 0) chunk_len = Inr l \<and> even l \<and> odd (unat p) \<and> even (unat t)"
      then have "t \<noteq> p" by auto
      with y a have "f cs p (i + 1) (t + of_nat (l + HEADER_SIZE)) = Some y" by (simp only: if_False sum.case)
      from IH [OF this] a even_add_word [of t "l + HEADER_SIZE"] show False
        by (simp add: HEADER_SIZE_def)
    qed
  qed
  with assms show False by blast
qed

text \<open>The search for a metadata block can run forever. Blocks are found by adding up the length of the first block, which is its decompressed
  length once it has been read; with an even length, a block at an odd position of the table is never found.\<close>

theorem get_slice_hangs:
  assumes "rbind (index_res cs 0) chunk_len = Inr l" and "even l" and "odd (unat position)"
  shows "get_slice dec cs position off n = None"
  using chunk_index_odd [OF assms, of 0 0] by (simp add: get_slice_def)

theorem get_slice_hangs_witness:
  "get_slice uncompress_data [plain_chunk (replicate 8192 0), plain_chunk [1]] 4001 0 1 = None"
proof -
  have "rbind (index_res [plain_chunk (replicate 8192 0), plain_chunk [1]] 0) chunk_len = Inr 8192"
    using plain_chunk_props(1) [of "replicate 8192 0"] by simp
  then show ?thesis by (rule get_slice_hangs) simp_all
qed

section \<open>Slices\<close>

lemma more_chunks_enough: "\<not> a < n \<Longrightarrow> more_chunks dec cs i a n = Some (Inr (cs, i))"
  by (simp add: more_chunks.simps)

lemma get_slice_at:
  assumes idx: "chunk_index cs position 0 0 = Some (Inr (of_nat k))" and k: "k < length cs" "k < 2 ^ 64"
    and c: "chunk_holds dec (cs ! k) d" and n: "unat off + unat n \<le> length d"
  shows "get_slice dec cs position off n = Some (Inr (cs[k := plain_chunk d], take (unat n) (drop (unat off) d)))"
proof -
  have d: "length d \<le> 0x7FFF" "chunk_decompress dec (cs ! k) = Some (Inr (plain_chunk d))"
    using c by (simp_all add: chunk_holds_def)
  note pc = plain_chunk_props [OF d(1)]
  have uk: "unat (of_nat k :: u64) = k" using k(2) by (simp add: unat_of_nat)
  let ?cs = "cs[k := plain_chunk d]"
  have avail: "slice_res (plain_chunk d) (unat off) (length (plain_chunk d)) = Inr (drop (unat off) (plain_chunk d))"
    using n pc(3) by simp
  have enough: "\<not> of_nat (length (drop (unat off) (plain_chunk d))) < n"
  proof -
    define m where "m = length (drop (unat off) (plain_chunk d))"
    have "unat n \<le> m" "m < 2 ^ 64" using n d(1) by (simp_all add: m_def pc(3))
    then show ?thesis unfolding m_def [symmetric] by (simp add: word_less_nat_alt unat_of_nat)
  qed
  have u: "unat (ucast off + 2 :: usize) = unat off + 2"
    using n d(1) by (subst unat_add_no_wrap) (simp_all add: unat_ucast_up)
  have "block_end = unat off + 2 + unat n"
    if "block_end = unat (if (of_nat (length d + 2) :: usize) - (ucast off + 2) > n then ucast off + 2 + n else of_nat (length d + 2))"
    for block_end
  proof -
    have ul: "unat (of_nat (length d + 2) :: usize) = length d + 2"
      using d(1) by (intro unat_of_nat64) simp
    then have le: "ucast off + 2 \<le> (of_nat (length d + 2) :: usize)"
      unfolding word_le_nat_alt u ul using n by simp
    have "unat ((of_nat (length d + 2) :: usize) - (ucast off + 2)) = length d - unat off"
      unfolding unat_sub [OF le] u ul by simp
    moreover have "unat (ucast off + 2 + n) = unat off + 2 + unat n"
      using u n d(1) by (subst unat_add_no_wrap) simp_all
    ultimately show ?thesis
      using that n ul by (auto simp only: word_less_nat_alt split: if_splits)
  qed
  note be = this [OF refl]
  have "slice_res (plain_chunk d) (unat off + 2) (unat off + 2 + unat n) = Inr (take (unat n) (drop (unat off) d))"
    using n pc(3,4) by simp
  then have g: "gather dec ?cs k 1 off n = Some (Inr (?cs, take (unat n) (drop (unat off) d)))"
    using k pc(1,2) u be
    by (cases "n < of_nat (length d) - ucast off") (simp_all add: HEADER_SIZE_def Let_def)
  show ?thesis
    using idx uk k d(2) avail more_chunks_enough [OF enough] g by (simp add: get_slice_def)
qed

text \<open>A slice inside one metadata block. When every block up to the wanted one has the size of the first, reading returns the bytes of the block's contents,
  whether the block is compressed, stored, or has been decompressed by an earlier read; afterwards the table holds the same
  contents.\<close>

theorem get_slice_in_chunk:
  assumes "rbind (index_res cs 0) chunk_len = Inr l" and "k * (l + 2) < 2 ^ 64" and "k < length cs"
    and "chunk_holds dec (cs ! k) d" and "unat off + unat n \<le> length d"
  shows "\<exists>cs'. get_slice dec cs (of_nat (k * (l + 2))) off n = Some (Inr (cs', take (unat n) (drop (unat off) d)))
    \<and> length cs' = length cs \<and> (\<forall>i < length cs. \<forall>e. chunk_holds dec (cs ! i) e \<longrightarrow> chunk_holds dec (cs' ! i) e)"
proof -
  have "k \<le> k * (l + 2)" by simp
  with assms(2) have "k < 2 ^ 64" by linarith
  moreover have "chunk_index cs (of_nat (k * (l + 2))) 0 0 = Some (Inr (of_nat k))"
    using chunk_index_multiple [OF assms(1,2), of 0] by simp
  ultimately have "get_slice dec cs (of_nat (k * (l + 2))) off n
      = Some (Inr (cs[k := plain_chunk d], take (unat n) (drop (unat off) d)))"
    using assms by (intro get_slice_at)
  moreover have "chunk_holds dec (cs[k := plain_chunk d] ! i) e" if "i < length cs" "chunk_holds dec (cs ! i) e" for i e
  proof (cases "i = k")
    case True
    with that assms(4) have "plain_chunk e = plain_chunk d" "length d \<le> 0x7FFF" by (auto simp: chunk_holds_def)
    then have "e = d" using plain_chunk_props(4) [of d 0 ] that True by (metis add_0 chunk_holds_def drop0 plain_chunk_props(4))
    with True that \<open>length d \<le> 0x7FFF\<close> show ?thesis by (simp add: chunk_holds_plain)
  qed (use that in simp)
  ultimately show ?thesis by auto
qed

theorem get_slice_in_chunk_witness:
  "\<exists>cs. get_slice uncompress_data [plain_chunk [1, 2, 3], plain_chunk [10, 20, 30]] 5 1 2 = Some (Inr (cs, [20, 30]))"
proof -
  let ?cs = "[plain_chunk [1, 2, 3], plain_chunk [10, 20, 30]]"
  have "rbind (index_res ?cs 0) chunk_len = Inr 3"
    using plain_chunk_props(1) [of "[1, 2, 3]"] by simp
  moreover have "chunk_holds uncompress_data (?cs ! 1) [10, 20, 30]"
    using chunk_holds_plain [of "[10, 20, 30]"] by simp
  ultimately show ?thesis
    using get_slice_in_chunk [of ?cs 3 1 uncompress_data "[10, 20, 30]" 1 2] by auto
qed

section \<open>Directory listings\<close>

datatype listing_entry = Entry (en_offset: u16) (en_inode_offset: u16) (en_type: u16) (en_name: "u8 list")

definition entry_bytes :: "listing_entry \<Rightarrow> u8 list" where
  "entry_bytes e = to_le 2 (unat (en_offset e)) @ to_le 2 (unat (en_inode_offset e)) @ to_le 2 (unat (en_type e))
     @ to_le 2 (length (en_name e) - 1) @ en_name e"

definition entry_ok :: "listing_entry \<Rightarrow> bool" where
  "entry_ok e \<longleftrightarrow> is_ok (inode_file_type_from (en_type e)) \<and> utf8_decode (en_name e) \<noteq> None
     \<and> 1 \<le> length (en_name e) \<and> length (en_name e) \<le> 65536"

definition listing :: "u32 \<Rightarrow> u32 \<Rightarrow> listing_entry list \<Rightarrow> u8 list" where
  "listing start num es = to_le 4 (length es - 1) @ to_le 4 (unat start) @ to_le 4 (unat num) @ concat (map entry_bytes es)"

lemma length_entry_bytes [simp]: "length (entry_bytes e) = 8 + length (en_name e)"
  by (simp add: entry_bytes_def)

lemma le_val_name_size: "entry_ok e \<Longrightarrow> le_val (to_le 2 (length (en_name e) - Suc 0)) = length (en_name e) - Suc 0"
  by (auto simp: le_val_to_le entry_ok_def)

lemma entry_from_bytes:
  assumes "entry_ok e"
  obtains r where "directory_table_entry_from (entry_bytes e) = Inr r" "dte_offset r = en_offset e"
    "utf8_decode (en_name e) = Some (dte_name r)"
proof -
  let ?n = "of_nat (length (en_name e) - 1) :: u16"
  have n: "unat ?n = length (en_name e) - 1"
    using assms by (intro unat_of_nat16) (auto simp: entry_ok_def)
  obtain ty where ty: "inode_file_type_from (en_type e) = Inr ty"
    using assms by (auto simp: entry_ok_def is_ok_def split: sum.splits)
  obtain nm where nm: "utf8_decode (en_name e) = Some nm"
    using assms by (auto simp: entry_ok_def)
  have "le_field (entry_bytes e) 0 2 = Inr (en_offset e)" "le_field (entry_bytes e) 2 4 = Inr (en_inode_offset e)"
    "le_field (entry_bytes e) 4 6 = Inr (en_type e)"
    by (simp_all add: le_field_ok entry_bytes_def le_val_to_le_unat)
  moreover have "le_field (entry_bytes e) 6 8 = Inr ?n"
    using assms by (simp add: le_field_ok entry_bytes_def le_val_name_size)
  moreover have "slice_res (entry_bytes e) 8 ((unat ?n + 1) + 8) = Inr (en_name e)"
    using assms n by (simp add: slice_res_def entry_bytes_def entry_ok_def)
  ultimately show ?thesis
    using ty nm that [of "\<lparr>dte_offset = en_offset e, dte_inode_offset = en_inode_offset e, dte_inode_type = ty,
        dte_name_size = ?n, dte_name = nm\<rparr>"]
    by (simp add: directory_table_entry_from_def utf8_unwrap_def)
qed

lemma entry_size_field:
  assumes "entry_ok e"
  shows "take 2 (drop 6 (entry_bytes e)) = to_le 2 (length (en_name e) - 1)"
    and "ucast (of_nat (length (en_name e) - 1) :: u16) + 1 = (of_nat (length (en_name e)) :: usize)"
proof -
  show "take 2 (drop 6 (entry_bytes e)) = to_le 2 (length (en_name e) - 1)"
    by (simp add: entry_bytes_def)
  have "unat (ucast (of_nat (length (en_name e) - 1) :: u16) :: usize) = length (en_name e) - 1"
    using assms unat_of_nat16 [of "length (en_name e) - 1"]
    by (subst unat_ucast_up) (auto simp: entry_ok_def)
  then have "ucast (of_nat (length (en_name e) - 1) :: u16) = (of_nat (length (en_name e) - 1) :: usize)"
    by (metis of_nat_unat ucast_id)
  then show "ucast (of_nat (length (en_name e) - 1) :: u16) + 1 = (of_nat (length (en_name e)) :: usize)"
    using assms by (simp add: entry_ok_def of_nat_diff)
qed

text \<open>The directory table as a first chunk that holds \<open>d\<close>.\<close>

definition dir_ready :: "squashfs \<Rightarrow> u8 list \<Rightarrow> bool" where
  "dir_ready fs d \<longleftrightarrow> directory_table fs \<noteq> [] \<and> directory_table fs ! 0 = plain_chunk d \<and> length d \<le> 0x7FFF"

lemma directory_slice_first:
  assumes "directory_table fs \<noteq> []" "chunk_holds uncompress_data (directory_table fs ! 0) d" "unat off + unat n \<le> length d"
  shows "directory_slice fs 0 off n
    = Some (Inr (fs\<lparr>directory_table := (directory_table fs)[0 := plain_chunk d]\<rparr>, take (unat n) (drop (unat off) d)))"
  using get_slice_at [of "directory_table fs" 0 0 uncompress_data d off n] assms
  by (simp add: directory_slice_def chunk_index_first)

lemma directory_slice_ready:
  assumes "dir_ready fs d" "unat off + unat n \<le> length d"
  shows "directory_slice fs 0 off n = Some (Inr (fs, take (unat n) (drop (unat off) d)))"
proof -
  have "(directory_table fs)[0 := plain_chunk d] = directory_table fs"
    using assms(1) by (metis dir_ready_def list_update_id)
  with directory_slice_first [of fs d off n] assms show ?thesis
    by (simp add: dir_ready_def chunk_holds_plain)
qed

lemma directory_round_entry:
  assumes rd: "dir_ready fs d" and e: "entry_ok e" and d: "d = pre @ entry_bytes e @ rest"
    and pre: "length pre = unat off + unat offset" and i: "i \<noteq> dth_entry_count hdr" and sz: "offset < dir_size"
  shows "directory_round fs 0 off dir_size name hdr offset i
    = Some (Inr (fs, if utf8_decode (en_name e) = Some name
        then Finished (Some (push_bit 16 (ucast (dth_start hdr)) OR ucast (en_offset e)))
        else Continue hdr (offset + of_nat (length (entry_bytes e))) (i + 1)))"
proof -
  have d15: "length d \<le> 0x7FFF" using rd by (simp add: dir_ready_def)
  have len: "length pre + (8 + length (en_name e)) \<le> length d" using d by simp
  have uo: "unat (off + ucast offset) = length pre" "unat (off + (ucast offset + 6)) = length pre + 6"
  proof -
    have o: "unat (ucast offset :: u16) = unat offset"
      using pre len d15 by (simp add: unsigned_ucast_eq take_bit_eq_mod)
    then show "unat (off + ucast offset) = length pre"
      using pre len d15 by (subst unat_add_no_wrap) simp_all
    have "unat (ucast offset + 6 :: u16) = unat offset + 6"
      using o pre len d15 by (subst unat_add_no_wrap) simp_all
    then show "unat (off + (ucast offset + 6)) = length pre + 6"
      using pre len d15 by (subst unat_add_no_wrap) simp_all
  qed
  note es = entry_size_field [OF e]
  have "take 2 (drop (length pre + 6) d) = take 2 (drop 6 (entry_bytes e))"
    unfolding d by simp
  then have s1: "directory_slice fs 0 (off + (ucast offset + 6)) 2 = Some (Inr (fs, to_le 2 (length (en_name e) - 1)))"
    using directory_slice_ready [OF rd, of "off + (ucast offset + 6)" 2] uo(2) len es(1) by simp
  obtain ns :: u16 where nb: "rbind (exact_bytes 2 (to_le 2 (length (en_name e) - 1))) (\<lambda>b. le_field b 0 2) = Inr ns"
    and ns: "ucast ns + 1 = (of_nat (length (en_name e)) :: usize)"
    using e es(2) that [of "of_nat (length (en_name e) - 1)"]
    by (simp add: exact_bytes_def le_field_ok le_val_name_size)
  have un: "unat (8 + of_nat (length (en_name e)) :: usize) = 8 + length (en_name e)"
    using unat_of_nat64 [of "8 + length (en_name e)"] len d15 by simp
  have s2: "directory_slice fs 0 (off + ucast offset) (8 + of_nat (length (en_name e)))
      = Some (Inr (fs, entry_bytes e))"
    using directory_slice_ready [OF rd, of "off + ucast offset" "8 + of_nat (length (en_name e))"] uo(1) len un
    unfolding d by simp
  obtain r where r: "directory_table_entry_from (entry_bytes e) = Inr r" "dte_offset r = en_offset e"
    "utf8_decode (en_name e) = Some (dte_name r)"
    by (rule entry_from_bytes [OF e])
  have c: "(i = dth_entry_count hdr \<and> offset \<noteq> dir_size) = False" "(dir_size \<le> offset) = False"
    using i sz by simp_all
  show ?thesis
    unfolding directory_round_def c if_False s1 obind_simps prod.case nb Let_def ns s2 r(1)
    using r(2,3) by simp
qed

abbreviation named :: "utext \<Rightarrow> listing_entry \<Rightarrow> bool" where
  "named name \<equiv> \<lambda>e. utf8_decode (en_name e) = Some name"

abbreviation entry_inode :: "u32 \<Rightarrow> listing_entry \<Rightarrow> u64" where
  "entry_inode start e \<equiv> push_bit 16 (ucast start) OR ucast (en_offset e)"

lemma directory_loop_entries:
  assumes rd: "dir_ready fs d" and es: "list_all entry_ok es" and d: "d = pre @ concat (map entry_bytes es) @ rest"
    and pre: "length pre = unat off + unat offset" and i: "unat i + length es = unat (dth_entry_count hdr)"
    and sz: "unat offset + length (concat (map entry_bytes es)) < unat dir_size"
  shows "directory_loop fs 0 off dir_size name hdr offset i
    = (case find (named name) es of
         Some e \<Rightarrow> Some (Inr (fs, Some (entry_inode (dth_start hdr) e)))
       | None \<Rightarrow> directory_loop fs 0 off dir_size name hdr (offset + of_nat (length (concat (map entry_bytes es))))
                  (dth_entry_count hdr))"
  using es d pre i sz
proof (induction es arbitrary: pre offset i)
  case Nil
  then have "i = dth_entry_count hdr" by (simp add: word_unat_eq_iff)
  then show ?case by simp
next
  case (Cons e es)
  have d15: "length d \<le> 0x7FFF" using rd by (simp add: dir_ready_def)
  have e: "entry_ok e" "list_all entry_ok es" using Cons.prems(1) by simp_all
  have ne: "i \<noteq> dth_entry_count hdr" using Cons.prems(4) by auto
  have lt: "offset < dir_size" using Cons.prems(5) by (simp add: word_less_nat_alt)
  have d1: "d = pre @ entry_bytes e @ (concat (map entry_bytes es) @ rest)" using Cons.prems(2) by simp
  note round = directory_round_entry [OF rd e(1) d1 Cons.prems(3) ne lt]
  let ?o = "offset + of_nat (length (entry_bytes e))"
  have small: "length (entry_bytes e) < 2 ^ 64" "unat offset + length (entry_bytes e) < 2 ^ 64"
    using d1 d15 Cons.prems(3) by simp_all
  have uo: "unat ?o = unat offset + length (entry_bytes e)"
    using small unat_of_nat64 [OF small(1)] by (subst unat_add_no_wrap) simp_all
  have ui: "unat (i + 1) = unat i + 1"
    using Cons.prems(4) unsigned_less [of "dth_entry_count hdr", where 'a = nat] by (subst unat_add_no_wrap) simp_all
  show ?case
  proof (cases "named name e")
    case True
    with round show ?thesis by (simp add: directory_loop.simps)
  next
    case False
    have "directory_loop fs 0 off dir_size name hdr ?o (i + 1)
      = (case find (named name) es of
           Some e \<Rightarrow> Some (Inr (fs, Some (entry_inode (dth_start hdr) e)))
         | None \<Rightarrow> directory_loop fs 0 off dir_size name hdr (?o + of_nat (length (concat (map entry_bytes es))))
                    (dth_entry_count hdr))"
      using d1 Cons.prems(3-5) uo ui e(2) by (intro Cons.IH [of "pre @ entry_bytes e"]) simp_all
    moreover have "directory_loop fs 0 off dir_size name hdr offset i = directory_loop fs 0 off dir_size name hdr ?o (i + 1)"
      using False round by (subst directory_loop.simps) simp
    moreover have "?o + of_nat (length (concat (map entry_bytes es)))
        = offset + of_nat (length (concat (map entry_bytes (e # es))))" by simp
    ultimately show ?thesis using False by (simp only: find.simps if_False)
  qed
qed

lemma block_offset_first: "get_inode_block_offset (ucast (off :: u16)) = (0, off)"
proof -
  have "unat (ucast off :: u64) < 2 ^ 16"
    using unsigned_less [of off, where 'a = nat] by (subst unat_ucast_up) simp_all
  then have "drop_bit 16 (ucast off :: u64) = 0"
    by (simp only: word_unat_eq_iff drop_bit_eq_div unat_div_distrib) (simp add: unat_div_distrib)
  moreover have "ucast ((ucast off :: u64) AND 0xFFFF) = off"
  proof (rule bit_eqI)
    fix n
    assume "possible_bit TYPE(u16) n"
    then have "n < 16" by simp
    then show "bit (ucast ((ucast off :: u64) AND 0xFFFF) :: u16) n \<longleftrightarrow> bit off n"
      using bit_mask_iff [of 16 n, where 'a = u64] by (simp add: bit_simps mask_eq_exp_minus_1)
  qed
  ultimately show ?thesis by (simp add: get_inode_block_offset_def)
qed

lemma header_from_listing:
  assumes "1 \<le> length es" "length es < 2 ^ 32"
  shows "directory_table_header_from (take 12 (listing start num es @ rest))
    = Inr \<lparr>dth_entry_count = of_nat (length es), dth_start = start, dth_inode_num = num\<rparr>"
proof -
  let ?b = "take 12 (listing start num es @ rest)"
  have b: "?b = to_le 4 (length es - 1) @ to_le 4 (unat start) @ to_le 4 (unat num)"
    by (simp add: listing_def)
  have "(length es - 1) mod 256 ^ 4 = length es - 1" using assms by simp
  then have "le_field ?b 0 4 = Inr (of_nat (length es - 1) :: u32)"
    unfolding b by (simp add: le_field_ok le_val_to_le)
  moreover have "le_field ?b 4 8 = Inr start" "le_field ?b 8 12 = Inr num"
    unfolding b by (simp_all add: le_field_ok le_val_to_le_unat)
  moreover have "(of_nat (length es - 1) :: u32) + 1 = of_nat (length es)"
    using assms(1) by (metis Suc_diff_1 less_eq_Suc_le of_nat_Suc One_nat_def add.commute)
  ultimately show ?thesis by (simp add: directory_table_header_from_def)
qed

text \<open>A directory whose listing, with one header, lies in the first block of the directory table. The recorded size of a
  directory is three bytes more than its listing.\<close>

definition dir_at :: "squashfs \<Rightarrow> basic_directory_inode \<Rightarrow> u8 list \<Rightarrow> u32 \<Rightarrow> u32 \<Rightarrow> listing_entry list \<Rightarrow> u8 list \<Rightarrow> bool" where
  "dir_at fs b pre start num es rest \<longleftrightarrow>
     directory_table fs \<noteq> []
     \<and> chunk_holds uncompress_data (directory_table fs ! 0) (pre @ listing start num es @ rest)
     \<and> bd_block_index b = 0 \<and> unat (bd_block_offset b) = length pre
     \<and> unat (bd_file_size b) = length (listing start num es) + 3 \<and> es \<noteq> [] \<and> list_all entry_ok es"

lemma sq_find_entry_loop:
  assumes "dir_at fs b pre start num es rest"
  defines "d \<equiv> pre @ listing start num es @ rest"
  defines "fs1 \<equiv> fs\<lparr>directory_table := (directory_table fs)[0 := plain_chunk d]\<rparr>"
  defines "hdr \<equiv> \<lparr>dth_entry_count = of_nat (length es), dth_start = start, dth_inode_num = num\<rparr>"
  shows "sq_find_entry fs (BasicDirectory b) name
    = obind (case find (named name) es of
         Some e \<Rightarrow> Some (Inr (fs1, Some (entry_inode start e)))
       | None \<Rightarrow> directory_loop fs1 0 (bd_block_offset b) (ucast (bd_file_size b)) name hdr
                  (of_nat (length (listing start num es))) (of_nat (length es)))
      (\<lambda>(fs2, found). case found of
         None \<Rightarrow> Some (Inr (fs2, None))
       | Some n \<Rightarrow> obind (read_inode fs2 n) (\<lambda>(fs3, ino). Some (Inr (fs3, Some ino))))"
    and "dir_ready fs1 d"
proof -
  let ?off = "bd_block_offset b" and ?sz = "ucast (bd_file_size b) :: usize"
  note da = assms(1) [unfolded dir_at_def]
  have d15: "length d \<le> 0x7FFF" using da by (simp add: chunk_holds_def d_def)
  show rd: "dir_ready fs1 d" using da d15 by (simp add: dir_ready_def fs1_def)
  have usz: "unat ?sz = length (listing start num es) + 3"
    using da by (subst unat_ucast_up) simp_all
  have le12: "12 \<le> length (listing start num es)" by (simp add: listing_def)
  have nes: "1 \<le> length es" using da by (cases es) simp_all
  have "length es \<le> length (concat (map entry_bytes es))"
    by (induction es) simp_all
  then have es32: "length es < 2 ^ 32" using d15 by (simp add: d_def listing_def)
  have slice: "directory_slice fs 0 ?off 12 = Some (Inr (fs1, take 12 (listing start num es @ rest)))"
    using directory_slice_first [of fs d ?off 12] da le12 by (simp add: d_def fs1_def)
  have hsel: "dth_entry_count hdr = of_nat (length es)" "dth_start hdr = start" by (simp_all add: hdr_def)
  have sz0: "?sz \<noteq> 0" using usz by (metis add_is_0 unat_0 zero_neq_numeral)
  have loop: "directory_loop fs1 0 ?off ?sz name hdr 12 0
    = (case find (named name) es of
         Some e \<Rightarrow> Some (Inr (fs1, Some (entry_inode start e)))
       | None \<Rightarrow> directory_loop fs1 0 ?off ?sz name hdr (12 + of_nat (length (concat (map entry_bytes es)))) (of_nat (length es)))"
    using directory_loop_entries [OF rd, of es "pre @ take 12 (listing start num es)" rest ?off 12 0 hdr ?sz name,
        unfolded hsel] da usz es32 by (simp add: d_def listing_def unat_of_nat)
  have eq: "12 + of_nat (length (concat (map entry_bytes es))) = (of_nat (length (listing start num es)) :: usize)"
    by (simp add: listing_def)
  show "sq_find_entry fs (BasicDirectory b) name
    = obind (case find (named name) es of
         Some e \<Rightarrow> Some (Inr (fs1, Some (entry_inode start e)))
       | None \<Rightarrow> directory_loop fs1 0 (bd_block_offset b) (ucast (bd_file_size b)) name hdr
                  (of_nat (length (listing start num es))) (of_nat (length es)))
      (\<lambda>(fs2, found). case found of
         None \<Rightarrow> Some (Inr (fs2, None))
       | Some n \<Rightarrow> obind (read_inode fs2 n) (\<lambda>(fs3, ino). Some (Inr (fs3, Some ino))))"
    using da slice sz0 header_from_listing [OF nes es32] loop [unfolded eq]
    by (simp add: sq_find_entry_def block_offset_first hdr_def)
qed

text \<open>C31: directory lookup finds the entries of a listing. For a directory whose listing lies in the first metadata block, looking up a name
  that is in the listing reads the inode that the first entry with that name points at, block and offset, whatever else is
  in the table.\<close>

theorem sq_lookup_finds:
  assumes "dir_at fs b pre start num es rest" and "find (named name) es = Some e"
  shows "sq_lookup fs (BasicDirectory b) name
    = obind (read_inode (fs\<lparr>directory_table := (directory_table fs)[0 := plain_chunk (pre @ listing start num es @ rest)]\<rparr>)
               (entry_inode start e))
        (\<lambda>(fs', ino). Some (Inr (fs', Some ino)))"
  using sq_find_entry_loop(1) [OF assms(1), of name] assms(2) by (simp add: sq_lookup_def)

text \<open>C40: looking up a name that is not there panics in the last directory of the table. The recorded size of a directory is three bytes more than
  its listing, so the loop does not stop at the end of the listing but reads another header behind it.\<close>

theorem sq_lookup_missing:
  assumes "dir_at fs b pre start num es []" and "length (directory_table fs) = 1" and "find (named name) es = None"
  shows "sq_lookup fs (BasicDirectory b) name = Some (Inl (Panic IndexOutOfBounds))"
proof -
  let ?d = "pre @ listing start num es @ []"
  let ?fs = "fs\<lparr>directory_table := (directory_table fs)[0 := plain_chunk ?d]\<rparr>"
  let ?off = "bd_block_offset b" and ?sz = "ucast (bd_file_size b) :: usize" and ?n = "length (listing start num es)"
  note da = assms(1) [unfolded dir_at_def]
  have rd: "dir_ready ?fs ?d" by (rule sq_find_entry_loop(2) [OF assms(1)])
  then have d15: "length pre + ?n \<le> 0x7FFF" "length ?d \<le> 0x7FFF" by (simp_all add: dir_ready_def)
  have cs: "directory_table ?fs = [plain_chunk ?d]"
    using assms(2) by (cases "directory_table fs") simp_all
  note pc = plain_chunk_props [OF d15(2)]
  have uo: "unat (?off + ucast (of_nat ?n :: usize)) = length pre + ?n"
  proof -
    have "unat (ucast (of_nat ?n :: usize) :: u16) = ?n"
      using d15 by (simp add: unsigned_ucast_eq take_bit_eq_mod unat_of_nat)
    then show ?thesis using da d15 by (subst unat_add_no_wrap) simp_all
  qed
  have "get_slice uncompress_data [plain_chunk ?d] 0 (?off + ucast (of_nat ?n :: usize)) 12
      = Some (Inl (Panic IndexOutOfBounds))"
    using pc uo by (simp add: get_slice_def chunk_index_first more_chunks.simps)
  then have "directory_slice ?fs 0 (?off + ucast (of_nat ?n :: usize)) 12 = Some (Inl (Panic IndexOutOfBounds))"
    unfolding directory_slice_def cs by simp
  moreover have "(of_nat ?n :: usize) \<noteq> ?sz"
  proof
    assume eq: "(of_nat ?n :: usize) = ?sz"
    have "unat (of_nat ?n :: usize) = ?n" using d15 by (intro unat_of_nat64) simp
    moreover have "unat ?sz = ?n + 3" using da by (subst unat_ucast_up) simp_all
    ultimately show False using eq by simp
  qed
  ultimately have "directory_loop ?fs 0 ?off ?sz name
      \<lparr>dth_entry_count = of_nat (length es), dth_start = start, dth_inode_num = num\<rparr> (of_nat ?n) (of_nat (length es))
    = Some (Inl (Panic IndexOutOfBounds))"
    by (subst directory_loop.simps) (simp add: directory_round_def)
  then show ?thesis
    using sq_find_entry_loop(1) [OF assms(1), of name] assms(3) by (simp add: sq_lookup_def)
qed

section \<open>A small image\<close>

definition demo_sb :: squashfs_superblock where
  "demo_sb = \<lparr>sb_magic = 0x73717368, inode_count = 2, mod_time = 0, block_size = 0x20000, frag_count = 0, compressor = Gzip,
     block_log = 17, sb_flags = 0xC0, id_count = 1, ver_major = 4, ver_minor = 0, root_inode = 0, bytes_used = 0,
     id_table_start = 0, xattr_table_start = - 1, inode_table_start = 0, dir_table_start = 0, frag_table_start = - 1,
     export_table_start = - 1\<rparr>"

definition demo_listing :: "listing_entry list" where
  "demo_listing = [Entry 64 0 1 [98], Entry 0 0 2 [97]]"

definition demo_sq :: squashfs where
  "demo_sq = \<lparr>superblock = demo_sb, image = [], data_table = [], inode_table = [plain_chunk (2 # replicate 31 0)],
     directory_table = [plain_chunk (listing 0 1 demo_listing)], fragment_table = None, export_table = None, id_table = [],
     xattr_table = None\<rparr>"

definition demo_dir :: basic_directory_inode where
  "demo_dir = \<lparr>bd_header = \<lparr>ih_file_type = BasicDirectoryType, ih_mtime = 0, ih_inode_num = 1\<rparr>, bd_block_index = 0,
     bd_link_count = 2, bd_file_size = 33, bd_block_offset = 0, bd_parent_inode = 0\<rparr>"

lemma demo_dir_at: "dir_at demo_sq demo_dir [] 0 1 demo_listing []"
proof -
  have "length (listing 0 1 demo_listing) = 30" by (simp add: listing_def demo_listing_def)
  moreover have "list_all entry_ok demo_listing"
    by (simp add: demo_listing_def entry_ok_def inode_file_type_from_def)
  ultimately show ?thesis
    by (simp add: dir_at_def demo_sq_def demo_dir_def demo_listing_def chunk_holds_plain)
qed

lemma demo_read_inode:
  "\<exists>fs f. read_inode (demo_sq\<lparr>directory_table := cs\<rparr>) 0 = Some (Inr (fs, BasicFile f))"
proof -
  let ?d = "2 # replicate 31 0 :: u8 list"
  have holds: "chunk_holds uncompress_data ([plain_chunk ?d] ! 0) ?d" by (simp add: chunk_holds_plain)
  have s2: "get_slice uncompress_data [plain_chunk ?d] 0 0 2 = Some (Inr ([plain_chunk ?d], [2, 0]))"
    using get_slice_at [OF _ _ _ holds, of 0 0 2] by (simp add: chunk_index_first take_Cons')
  have s32: "get_slice uncompress_data [plain_chunk ?d] 0 0 32 = Some (Inr ([plain_chunk ?d], ?d))"
    using get_slice_at [OF _ _ _ holds, of 0 0 32] by (simp add: chunk_index_first)
  have ty: "le_field [2, 0] 0 2 = Inr (2 :: u16)" "le_field ?d 0 2 = Inr (2 :: u16)"
    by (simp_all add: le_field_ok take_Cons')
  have "\<exists>f. basic_file_from ?d = Inr f"
    by (simp add: basic_file_from_def inode_header_from_def ty inode_file_type_from_def le_field_ok)
  then obtain f where "basic_file_from ?d = Inr f" by blast
  then show ?thesis
    using s2 s32 ty by (simp add: read_inode_def get_inode_block_offset_def demo_sq_def exact_bytes_def inode_file_type_from_def
        inode_size_def inode_from_def)
qed

theorem sq_lookup_finds_witness:
  "\<exists>fs f. sq_lookup demo_sq (BasicDirectory demo_dir) (ascii ''a'') = Some (Inr (fs, Some (BasicFile f)))"
proof -
  have f: "find (named (ascii ''a'')) demo_listing = Some (Entry 0 0 2 [97])"
    by (simp add: demo_listing_def ascii_def)
  obtain fs g where "read_inode (demo_sq\<lparr>directory_table := (directory_table demo_sq)
      [0 := plain_chunk ([] @ listing 0 1 demo_listing @ [])]\<rparr>) 0 = Some (Inr (fs, BasicFile g))"
    using demo_read_inode by blast
  with sq_lookup_finds [OF demo_dir_at f] show ?thesis by simp
qed

theorem sq_lookup_missing_witness:
  "sq_lookup demo_sq (BasicDirectory demo_dir) (ascii ''mnt'') = Some (Inl (Panic IndexOutOfBounds))"
proof -
  have "find (named (ascii ''mnt'')) demo_listing = None"
    by (simp add: demo_listing_def ascii_def)
  then show ?thesis
    by (intro sq_lookup_missing [OF demo_dir_at]) (simp_all add: demo_sq_def)
qed

end
