(* ===== verification/Ports.thy ===== *)
theory Ports
  imports Prelude
begin

text \<open>
  Port input and output, \<^verbatim>\<open>src/arch/x86_64/io.rs\<close>. The devices behind the ports are an argument: a record of
  functions on a device state, one per width and direction. The repeated string instructions move their words one
  after the other between a port and a buffer. Drivers are functions of the device state; a driver loop that polls a
  device may not return, so its outcome is an option.
\<close>

section \<open>The devices\<close>

record 'd ports =
  port_in8 :: "u16 \<Rightarrow> 'd \<Rightarrow> u8 \<times> 'd"
  port_out8 :: "u16 \<Rightarrow> u8 \<Rightarrow> 'd \<Rightarrow> 'd"
  port_in16 :: "u16 \<Rightarrow> 'd \<Rightarrow> u16 \<times> 'd"
  port_out16 :: "u16 \<Rightarrow> u16 \<Rightarrow> 'd \<Rightarrow> 'd"
  port_in32 :: "u16 \<Rightarrow> 'd \<Rightarrow> u32 \<times> 'd"
  port_out32 :: "u16 \<Rightarrow> u32 \<Rightarrow> 'd \<Rightarrow> 'd"

section \<open>Instructions\<close>

definition outb :: "'d ports \<Rightarrow> u16 \<Rightarrow> u8 \<Rightarrow> 'd \<Rightarrow> 'd" where
  "outb hw port value d = port_out8 hw port value d"

definition inb :: "'d ports \<Rightarrow> u16 \<Rightarrow> 'd \<Rightarrow> u8 \<times> 'd" where
  "inb hw port d = port_in8 hw port d"

definition outw :: "'d ports \<Rightarrow> u16 \<Rightarrow> u16 \<Rightarrow> 'd \<Rightarrow> 'd" where
  "outw hw port value d = port_out16 hw port value d"

definition inw :: "'d ports \<Rightarrow> u16 \<Rightarrow> 'd \<Rightarrow> u16 \<times> 'd" where
  "inw hw port d = port_in16 hw port d"

definition outl :: "'d ports \<Rightarrow> u16 \<Rightarrow> u32 \<Rightarrow> 'd \<Rightarrow> 'd" where
  "outl hw port value d = port_out32 hw port value d"

definition inl :: "'d ports \<Rightarrow> u16 \<Rightarrow> 'd \<Rightarrow> u32 \<times> 'd" where
  "inl hw port d = port_in32 hw port d"

definition io_wait :: "'d ports \<Rightarrow> 'd \<Rightarrow> 'd" where
  "io_wait hw d = outb hw 0x80 0 d"

fun in_words :: "'d ports \<Rightarrow> u16 \<Rightarrow> nat \<Rightarrow> 'd \<Rightarrow> u16 list \<times> 'd" where
  "in_words hw port 0 d = ([], d)"
| "in_words hw port (Suc n) d =
     (let (w, d1) = inw hw port d; (ws, d2) = in_words hw port n d1 in (w # ws, d2))"

definition out_words :: "'d ports \<Rightarrow> u16 \<Rightarrow> u16 list \<Rightarrow> 'd \<Rightarrow> 'd" where
  "out_words hw port ws d = fold (outw hw port) ws d"

definition words_bytes :: "u16 list \<Rightarrow> u8 list" where
  "words_bytes ws = concat (map (\<lambda>w. to_le 2 (unat w)) ws)"

fun bytes_words :: "u8 list \<Rightarrow> u16 list" where
  "bytes_words (a # b # bs) = of_nat (le_val [a, b]) # bytes_words bs"
| "bytes_words _ = []"

text \<open>
  \<^verbatim>\<open>rep insw\<close>, \<^verbatim>\<open>rep outsw\<close> and \<^verbatim>\<open>rep outsb\<close> on a buffer: \<open>off\<close> counts the words in front of the pointer that is
  passed. Behind the end of the buffer the instructions touch foreign memory.
\<close>

definition insw :: "'d ports \<Rightarrow> u16 \<Rightarrow> u8 list \<Rightarrow> nat \<Rightarrow> nat \<Rightarrow> 'd \<Rightarrow> u8 list res \<times> 'd" where
  "insw hw port buffer off count d =
     (let (ws, d1) = in_words hw port count d in
      (if 2 * (off + count) \<le> length buffer
       then Inr (take (2 * off) buffer @ words_bytes ws @ drop (2 * (off + count)) buffer)
       else Inl (Panic RawAccess), d1))"

definition outsw :: "'d ports \<Rightarrow> u16 \<Rightarrow> u8 list \<Rightarrow> nat \<Rightarrow> nat \<Rightarrow> 'd \<Rightarrow> unit res \<times> 'd" where
  "outsw hw port buffer off count d =
     (if 2 * (off + count) \<le> length buffer
      then (Inr (), out_words hw port (bytes_words (take (2 * count) (drop (2 * off) buffer))) d)
      else (Inl (Panic RawAccess), d))"

definition outsb :: "'d ports \<Rightarrow> u16 \<Rightarrow> u8 list \<Rightarrow> 'd \<Rightarrow> 'd" where
  "outsb hw port bytes d = fold (outb hw port) bytes d"

text \<open>Several writes in a row.\<close>

definition outb_all :: "'d ports \<Rightarrow> (u16 \<times> u8) list \<Rightarrow> 'd \<Rightarrow> 'd" where
  "outb_all hw pvs d = fold (\<lambda>(p, v). outb hw p v) pvs d"

lemma outb_all_simps [simp]:
  "outb_all hw [] d = d" "outb_all hw ((p, v) # pvs) d = outb_all hw pvs (outb hw p v d)"
  by (simp_all add: outb_all_def)

lemma out_words_simps [simp]:
  "out_words hw port [] d = d" "out_words hw port (w # ws) d = out_words hw port ws (outw hw port w d)"
  by (simp_all add: out_words_def)

section \<open>Outcomes of drivers\<close>

type_synonym ('d, 'a) io = "('a res \<times> 'd) option"

definition io_bind :: "('d, 'a) io \<Rightarrow> ('a \<Rightarrow> 'd \<Rightarrow> ('d, 'b) io) \<Rightarrow> ('d, 'b) io" where
  "io_bind m f = Option.bind m (\<lambda>r. case fst r of Inl e \<Rightarrow> Some (Inl e, snd r) | Inr x \<Rightarrow> f x (snd r))"

lemma io_bind_simps [simp]:
  "io_bind None f = None" "io_bind (Some (Inl e, d)) f = Some (Inl e, d)"
  "io_bind (Some (Inr x, d)) f = f x d"
  by (simp_all add: io_bind_def)

lemma io_bind_eq_ok:
  "io_bind m f = Some (Inr y, d') \<longleftrightarrow> (\<exists>x d. m = Some (Inr x, d) \<and> f x d = Some (Inr y, d'))"
proof (cases m)
  case (Some r)
  then show ?thesis by (cases "fst r"; cases r) auto
qed simp

text \<open>\<^verbatim>\<open>.expect(..)\<close> on the result of a driver.\<close>

definition io_expect :: "('d, 'a) io \<Rightarrow> ('d, 'a) io" where
  "io_expect m = map_option (\<lambda>(r, d). (expect_res r, d)) m"

lemma io_expect_simps [simp]: "io_expect (Some (r, d)) = Some (expect_res r, d)" "io_expect None = None"
  by (simp_all add: io_expect_def)

section \<open>Words and bytes\<close>

lemma length_words_bytes [simp]: "length (words_bytes ws) = 2 * length ws"
  by (induction ws) (simp_all add: words_bytes_def)

lemma words_bytes_simps [simp]:
  "words_bytes [] = []" "words_bytes (w # ws) = to_le 2 (unat w) @ words_bytes ws"
  "words_bytes (xs @ ys) = words_bytes xs @ words_bytes ys"
  by (simp_all add: words_bytes_def)

lemma to_le_2: "to_le 2 n = [of_nat n, of_nat (n div 256)]"
  by (simp add: numeral_2_eq_2)

lemma to_le_4: "to_le 4 n = [of_nat n, of_nat (n div 2 ^ 8), of_nat (n div 2 ^ 16), of_nat (n div 2 ^ 24)]"
proof -
  have "(4::nat) = Suc (Suc (Suc (Suc 0)))" by simp
  then show ?thesis by (simp only: to_le.simps) (simp add: div_mult2_eq [symmetric])
qed

lemma bytes_words_bytes [simp]: "bytes_words (words_bytes ws) = ws"
proof (induction ws)
  case (Cons w ws)
  have "le_val (to_le 2 (unat w)) = unat w" by (rule le_val_to_le_unat) simp
  with Cons show ?case by (simp add: to_le_2)
qed simp

lemma words_bytes_words:
  assumes "even (length bs)"
  shows "words_bytes (bytes_words bs) = bs"
  using assms
proof (induction bs rule: bytes_words.induct)
  case (1 a b bs)
  have "le_val [a, b] < 2 ^ 16" using le_val_bound [of "[a, b]"] by simp
  then have u: "unat (of_nat (le_val [a, b]) :: u16) = le_val [a, b]"
    by (simp only: unat_of_nat) simp
  have t: "to_le 2 (le_val [a, b]) = [a, b]"
    using to_le_le_val [of "[a, b]"] by (simp only: list.size numeral_2_eq_2 add_0_right add_Suc_right One_nat_def)
  show ?case using 1 by (simp only: bytes_words.simps words_bytes_simps u t) simp
qed simp_all

lemma length_bytes_words [simp]: "length (bytes_words bs) = length bs div 2"
  by (induction bs rule: bytes_words.induct) simp_all

end
