(* ===== verification/Console.thy ===== *)
theory Console
  imports Ports Sync Utf
begin

text \<open>
  Output of the kernel and its options: the serial port (\<^verbatim>\<open>src/drivers/serial.rs\<close>), the macros \<^verbatim>\<open>print\<close>, \<^verbatim>\<open>println\<close> and
  \<^verbatim>\<open>log\<close>, the command line and the processor name (\<^verbatim>\<open>src/main.rs\<close>). A message is the list of bytes that \<^verbatim>\<open>format!\<close>
  produced. The answers of \<^verbatim>\<open>cpuid\<close> and of the boot loader are arguments.
\<close>

section \<open>The serial port\<close>

definition PORT :: u16 where "PORT = 0x3F8"

text \<open>The result, the flag \<^verbatim>\<open>POISONED\<close> and the devices.\<close>

definition init_serial :: "'d ports \<Rightarrow> bool \<times> 'd \<Rightarrow> u8 \<times> bool \<times> 'd" where
  "init_serial hw s =
     (let (poisoned, d) = s;
          (scratch, d1) = inb hw (PORT + 7) (outb hw (PORT + 7) 0x42 d)
      in if scratch \<noteq> 0x42 then (1, poisoned, d1)
         else
           let d2 = outb_all hw
                 [(PORT + 1, 0x00), (PORT + 3, 0x80), (PORT, 0x03), (PORT + 1, 0x00), (PORT + 3, 0x03),
                  (PORT + 2, 0xC7), (PORT + 4, 0x0B), (PORT + 4, 0x1E), (PORT, 0xAE)] d1;
               (echo, d3) = inb hw PORT d2
           in if echo \<noteq> 0xAE then (1, True, d3)
              else (0, poisoned, outb hw (PORT + 4) 0x0F d3))"

text \<open>The mask is applied to the port number, not to the value read.\<close>

definition is_transmit_empty :: "'d ports \<Rightarrow> 'd \<Rightarrow> bool \<times> 'd" where
  "is_transmit_empty hw d = (let r = inb hw ((PORT + 5) AND 0x20) d in (fst r = 0, snd r))"

partial_function (option) wait_transmit :: "'d ports \<Rightarrow> 'd \<Rightarrow> 'd option" where
  "wait_transmit hw d =
     (let r = is_transmit_empty hw d in if fst r then wait_transmit hw (snd r) else Some (snd r))"

definition write_string :: "'d ports \<Rightarrow> u8 list \<Rightarrow> 'd \<Rightarrow> 'd option" where
  "write_string hw s d = map_option (outsb hw PORT s) (wait_transmit hw d)"

partial_function (option) write_serial :: "'d ports \<Rightarrow> u8 \<Rightarrow> 'd \<Rightarrow> 'd option" where
  "write_serial hw c d =
     Option.bind (wait_transmit hw d) (\<lambda>d1.
     Option.bind (if c = 0x0A then write_serial hw 0x0D d1 else Some d1) (\<lambda>d2.
       Some (outb hw PORT c d2)))"

definition serial_recieved :: "'d ports \<Rightarrow> 'd \<Rightarrow> bool \<times> 'd" where
  "serial_recieved hw d = (let r = inb hw (PORT + 5) d in (fst r AND 0x01 = 0, snd r))"

partial_function (option) wait_recieved :: "'d ports \<Rightarrow> 'd \<Rightarrow> 'd option" where
  "wait_recieved hw d =
     (let r = serial_recieved hw d in if fst r then wait_recieved hw (snd r) else Some (snd r))"

definition read_serial :: "'d ports \<Rightarrow> 'd \<Rightarrow> (u8 \<times> 'd) option" where
  "read_serial hw d = map_option (inb hw PORT) (wait_recieved hw d)"

section \<open>Messages\<close>

text \<open>\<^verbatim>\<open>str::replace('\n', "\n\r")\<close>.\<close>

definition newline_return :: "u8 list \<Rightarrow> u8 list" where
  "newline_return s = concat (map (\<lambda>b. if b = 0x0A then [0x0A, 0x0D] else [b]) s)"

definition print :: "'d ports \<Rightarrow> u8 list \<Rightarrow> 'd \<Rightarrow> 'd option" where
  "print hw s d = write_string hw (newline_return s) d"

definition println :: "'d ports \<Rightarrow> u8 list \<Rightarrow> 'd \<Rightarrow> 'd option" where
  "println hw s d = print hw (s @ [0x0A]) d"

datatype log_level = Trace | Debug | Info | Warn | Error | Fatal

fun level_code :: "log_level \<Rightarrow> u8" where
  "level_code Trace = 0"
| "level_code Debug = 1"
| "level_code Info = 2"
| "level_code Warn = 3"
| "level_code Error = 4"
| "level_code Fatal = 5"

definition LOG_LEVEL :: u8 where "LOG_LEVEL = 2"

definition bytes_of :: "string \<Rightarrow> u8 list" where
  "bytes_of s = map of_char s"

fun color_code :: "log_level \<Rightarrow> u8 list" where
  "color_code Trace = 0x1B # bytes_of ''[90m''"
| "color_code Debug = 0x1B # bytes_of ''[94m''"
| "color_code Info = 0x1B # bytes_of ''[92m''"
| "color_code Warn = 0x1B # bytes_of ''[93m''"
| "color_code Error = 0x1B # bytes_of ''[91m''"
| "color_code Fatal = 0x1B # bytes_of ''[95m''"

record kernel_features =
  kf_log_level :: u8
  kf_fat_in_mem :: bool

definition kernel_log_level :: "kernel_features once_cell_state cell \<Rightarrow> u8" where
  "kernel_log_level features = (case once_get features of Inr f \<Rightarrow> kf_log_level f | Inl _ \<Rightarrow> LOG_LEVEL)"

definition log_text :: "log_level \<Rightarrow> u8 list \<Rightarrow> u8 list" where
  "log_text level msg =
     0x1B # bytes_of ''[97m[ '' @ color_code level @ bytes_of ''* '' @ [0x1B] @ bytes_of ''[97m]'' @ [0x1B]
       @ bytes_of ''[0;m '' @ msg"

definition log :: "'d ports \<Rightarrow> kernel_features once_cell_state cell \<Rightarrow> log_level \<Rightarrow> u8 list \<Rightarrow> 'd \<Rightarrow> 'd option" where
  "log hw features level msg d =
     (if level_code level \<ge> kernel_log_level features then println hw (log_text level msg) d else Some d)"

text \<open>The levels are ordered by their discriminants, so the comparison of \<^verbatim>\<open>log!\<close> is monotone: what is printed at one level of the
  kernel is printed at every more talkative one, and a more severe message is printed whenever a milder one is.\<close>

instantiation log_level :: linorder
begin

definition less_eq_log_level :: "log_level \<Rightarrow> log_level \<Rightarrow> bool" where
  "less_eq_log_level a b \<longleftrightarrow> level_code a \<le> level_code b"

definition less_log_level :: "log_level \<Rightarrow> log_level \<Rightarrow> bool" where
  "less_log_level a b \<longleftrightarrow> level_code a < level_code b"

instance
proof
  fix a b :: log_level
  assume "a \<le> b" "b \<le> a"
  then have "level_code a = level_code b" by (simp add: less_eq_log_level_def)
  then show "a = b" by (cases a; cases b) simp_all
qed (auto simp: less_eq_log_level_def less_log_level_def)

end

lemma log_silent_below:
  "level' \<le> level \<Longrightarrow> level_code level < kernel_log_level features \<Longrightarrow> log hw features level' msg = Some"
  by (rule ext) (auto simp: log_def less_eq_log_level_def)

section \<open>The command line\<close>

text \<open>\<^verbatim>\<open>str::parse::<u8>\<close>: an optional plus sign and decimal digits, at most 255.\<close>

definition digit_val :: "nat \<Rightarrow> nat option" where
  "digit_val c = (if 48 \<le> c \<and> c \<le> 57 then Some (c - 48) else None)"

fun dec_val :: "nat \<Rightarrow> utext \<Rightarrow> nat option" where
  "dec_val acc [] = Some acc"
| "dec_val acc (c # cs) = Option.bind (digit_val c) (\<lambda>v. dec_val (10 * acc + v) cs)"

definition unsigned_digits :: "utext \<Rightarrow> utext" where
  "unsigned_digits s = (case s of c # c' # cs \<Rightarrow> if c = 43 then c' # cs else s | _ \<Rightarrow> s)"

definition parse_u8 :: "utext \<Rightarrow> u8 option" where
  "parse_u8 s =
     (if s = [] then None
      else Option.bind (dec_val 0 (unsigned_digits s)) (\<lambda>n. if n \<le> 255 then Some (of_nat n) else None))"

text \<open>\<^verbatim>\<open>str::split_whitespace\<close>.\<close>

fun split_whitespace :: "utext \<Rightarrow> utext \<Rightarrow> utext list" where
  "split_whitespace w [] = (if w = [] then [] else [w])"
| "split_whitespace w (c # cs) =
     (if white_space c then (if w = [] then split_whitespace [] cs else w # split_whitespace [] cs)
      else split_whitespace (w @ [c]) cs)"

definition update_option :: "kernel_features \<Rightarrow> utext \<Rightarrow> utext \<Rightarrow> kernel_features" where
  "update_option f option value =
     (if option = ascii ''log_level''
      then f\<lparr>kf_log_level := (case parse_u8 value of Some n \<Rightarrow> n | None \<Rightarrow> LOG_LEVEL)\<rparr>
      else if option = ascii ''fat_in_mem'' then f\<lparr>kf_fat_in_mem := (value = ascii ''true'')\<rparr>
      else f)"

definition default_features :: kernel_features where
  "default_features = \<lparr>kf_log_level = LOG_LEVEL, kf_fat_in_mem = True\<rparr>"

definition parse_argument :: "utext \<Rightarrow> kernel_features \<Rightarrow> kernel_features" where
  "parse_argument item f =
     (let parts = split_on 61 item in
      if length parts = 2 then update_option f (parts ! 0) (parts ! 1) else f)"

definition parse_kernel_cmdline ::
    "u8 list option \<Rightarrow> kernel_features once_cell_state cell \<Rightarrow> kernel_features once_cell_state cell res" where
  "parse_kernel_cmdline kernel_file features =
     (case kernel_file of
        None \<Rightarrow> once_set features default_features
      | Some cmdline \<Rightarrow>
          rbind (utf8_unwrap cmdline) (\<lambda>s.
            once_set features (fold parse_argument (split_whitespace [] s) default_features)))"

section \<open>The processor\<close>

record cpuid_result =
  eax :: u32
  ebx :: u32
  ecx :: u32
  edx :: u32

definition brand_bytes :: "cpuid_result \<Rightarrow> u8 list" where
  "brand_bytes r = to_le 4 (unat (eax r)) @ to_le 4 (unat (ebx r)) @ to_le 4 (unat (ecx r)) @ to_le 4 (unat (edx r))"

text \<open>Every byte becomes the character with that number.\<close>

definition get_processor_brand :: "(u32 \<Rightarrow> cpuid_result) \<Rightarrow> utext option" where
  "get_processor_brand cpuid =
     (if eax (cpuid 0x80000000) \<ge> 0x80000004 then None
      else Some (map unat (takeWhile (\<lambda>b. b \<noteq> 0)
        (concat (map (\<lambda>i. brand_bytes (cpuid (0x80000002 + of_nat i))) [0..<3])))))"

section \<open>What reaches the line\<close>

text \<open>
  The code waits for port \<open>0x20\<close>, the command port of the interrupt controller, to read as something else than 0. Nothing is
  assumed of the devices: \<open>line_ready\<close> says that one of the reads gives such a value, and \<open>after_polls\<close> is the state of the
  devices right after the first that does.
\<close>

definition polled :: "'d ports \<Rightarrow> nat \<Rightarrow> 'd \<Rightarrow> 'd" where
  "polled hw n d = ((\<lambda>d. snd (port_in8 hw 0x20 d)) ^^ n) d"

definition line_ready :: "'d ports \<Rightarrow> 'd \<Rightarrow> bool" where
  "line_ready hw d \<longleftrightarrow> (\<exists>n. fst (port_in8 hw 0x20 (polled hw n d)) \<noteq> 0)"

definition after_polls :: "'d ports \<Rightarrow> 'd \<Rightarrow> 'd" where
  "after_polls hw d = polled hw (Suc (LEAST n. fst (port_in8 hw 0x20 (polled hw n d)) \<noteq> 0)) d"

lemma polled_simps [simp]:
  "polled hw 0 d = d" "polled hw (Suc n) d = polled hw n (snd (port_in8 hw 0x20 d))"
  by (simp_all add: polled_def funpow_Suc_right del: funpow.simps(2))

lemma transmit_port: "is_transmit_empty hw d = (fst (port_in8 hw 0x20 d) = 0, snd (port_in8 hw 0x20 d))"
  by (simp add: is_transmit_empty_def PORT_def inb_def Let_def)

text \<open>The first read gives 0, or it ends the wait.\<close>

lemma line_ready_step:
  assumes "fst (port_in8 hw 0x20 d) = 0"
  shows "line_ready hw d \<longleftrightarrow> line_ready hw (snd (port_in8 hw 0x20 d))"
    and "line_ready hw d \<Longrightarrow> after_polls hw d = after_polls hw (snd (port_in8 hw 0x20 d))"
proof -
  let ?P = "\<lambda>n. fst (port_in8 hw 0x20 (polled hw n d)) \<noteq> 0"
  show "line_ready hw d \<longleftrightarrow> line_ready hw (snd (port_in8 hw 0x20 d))"
    unfolding line_ready_def using assms by (metis not0_implies_Suc polled_simps)
  assume "line_ready hw d"
  then obtain n where "?P n" by (auto simp: line_ready_def)
  from Least_Suc [of ?P, OF this] assms show "after_polls hw d = after_polls hw (snd (port_in8 hw 0x20 d))"
    by (simp add: after_polls_def)
qed

lemma line_ready_now:
  assumes "fst (port_in8 hw 0x20 d) \<noteq> 0"
  shows "line_ready hw d" "after_polls hw d = snd (port_in8 hw 0x20 d)"
proof -
  show "line_ready hw d" unfolding line_ready_def using assms by (metis polled_simps(1))
  have "(LEAST n. fst (port_in8 hw 0x20 (polled hw n d)) \<noteq> 0) = 0"
    using assms by (intro Least_eq_0) simp
  then show "after_polls hw d = snd (port_in8 hw 0x20 d)" by (simp add: after_polls_def)
qed

lemma wait_transmit_ready:
  assumes "fst (port_in8 hw 0x20 (polled hw n d)) \<noteq> 0"
  shows "wait_transmit hw d = Some (after_polls hw d)"
  using assms
proof (induction n arbitrary: d)
  case 0
  then show ?case
    by (subst wait_transmit.simps) (simp add: transmit_port Let_def line_ready_now)
next
  case (Suc n)
  show ?case
  proof (cases "fst (port_in8 hw 0x20 d) = 0")
    case True
    have "line_ready hw d" unfolding line_ready_def using Suc.prems by blast
    with Suc True line_ready_step(2) [OF True] show ?thesis
      by (subst wait_transmit.simps) (simp add: transmit_port Let_def)
  qed (subst wait_transmit.simps, simp add: transmit_port Let_def line_ready_now)
qed

lemma wait_transmit_stuck:
  assumes "wait_transmit hw d = Some d'"
  shows "line_ready hw d"
  using assms
proof (rule wait_transmit.raw_induct [rotated, where P = "\<lambda>hw d d'. line_ready hw d"])
  fix f :: "'a ports \<Rightarrow> 'a \<Rightarrow> 'a option" and h e y
  assume IH: "\<And>h e y. f h e = Some y \<Longrightarrow> line_ready h e"
    and eq: "(let r = is_transmit_empty h e in if fst r then f h (snd r) else Some (snd r)) = Some y"
  show "line_ready h e"
  proof (cases "fst (port_in8 h 0x20 e) = 0")
    case True
    with eq IH [of h "snd (port_in8 h 0x20 e)" y] show ?thesis
      by (simp add: transmit_port Let_def line_ready_step(1) [OF True])
  qed (rule line_ready_now)
qed

text \<open>The wait ends after the first nonzero read, and never when there is none.\<close>

lemma wait_transmit_iff:
  "wait_transmit hw d = (if line_ready hw d then Some (after_polls hw d) else None)"
  using wait_transmit_ready [of hw _ d] wait_transmit_stuck [of hw d]
  by (cases "wait_transmit hw d") (auto simp: line_ready_def)

lemma write_string_iff:
  "write_string hw s d = (if line_ready hw d then Some (fold (port_out8 hw 0x3F8) s (after_polls hw d)) else None)"
proof -
  have "outsb hw PORT s e = fold (port_out8 hw 0x3F8) s e" for e
    by (induction s arbitrary: e) (simp_all add: outsb_def outb_def PORT_def)
  then show ?thesis by (simp add: write_string_def wait_transmit_iff)
qed

text \<open>A single character: a carriage return goes before a newline, and each of the two waits for the port.\<close>

lemma write_serial_iff:
  "write_serial hw c d =
     (if c \<noteq> 0x0A then (if line_ready hw d then Some (port_out8 hw 0x3F8 c (after_polls hw d)) else None)
      else if line_ready hw d \<and> line_ready hw (after_polls hw d)
        then Some (port_out8 hw 0x3F8 0x0A (port_out8 hw 0x3F8 0x0D (after_polls hw (after_polls hw d))))
        else None)"
proof -
  have other: "write_serial hw c d = (if line_ready hw d then Some (port_out8 hw 0x3F8 c (after_polls hw d)) else None)"
    if "c \<noteq> 0x0A" for c d
    using that by (subst write_serial.simps) (simp add: wait_transmit_iff outb_def PORT_def)
  show ?thesis
  proof (cases "c = 0x0A")
    case True
    then show ?thesis
      by (subst write_serial.simps) (simp add: wait_transmit_iff other outb_def PORT_def)
  qed (simp add: other)
qed

text \<open>Log messages on the serial port. A message at or above the level of the kernel writes the coloured prefix, the
  message and a line end to the data port, in order and with a carriage return behind every newline, once port \<open>0x20\<close> has read as
  nonzero, and does not return when it never does; the other messages touch no device. Before the options are set, the
  level of the build counts.\<close>

theorem log_sends:
  "log hw features level msg d =
     (if level_code level < kernel_log_level features then Some d
      else if line_ready hw d then
        Some (fold (port_out8 hw 0x3F8) (concat (map (\<lambda>b. if b = 0x0A then [0x0A, 0x0D] else [b]) (log_text level msg @ [0x0A])))
          (after_polls hw d))
      else None)"
  by (auto simp: log_def println_def print_def newline_return_def not_less write_string_iff)

definition quiet_line :: "u8 list ports" where
  "quiet_line = \<lparr>port_in8 = (\<lambda>p d. (1, d)), port_out8 = (\<lambda>p b d. if p = 0x3F8 then d @ [b] else d), port_in16 = (\<lambda>p d. (0, d)),
     port_out16 = (\<lambda>p x d. d), port_in32 = (\<lambda>p d. (0, d)), port_out32 = (\<lambda>p x d. d)\<rparr>"

lemma quiet_line_sends:
  "line_ready quiet_line d" "after_polls quiet_line d = d" "fold (port_out8 quiet_line 0x3F8) s d = d @ s"
proof -
  have "fst (port_in8 quiet_line 0x20 d) \<noteq> 0" by (simp add: quiet_line_def)
  from line_ready_now [OF this] show "line_ready quiet_line d" "after_polls quiet_line d = d"
    by (simp_all add: quiet_line_def)
  show "fold (port_out8 quiet_line 0x3F8) s d = d @ s"
    by (induction s arbitrary: d) (simp_all add: quiet_line_def)
qed

theorem log_sends_witness:
  "log quiet_line once_new Warn (bytes_of ''low memory'') [] = Some (0x1B # bytes_of ''[97m[ '' @ [0x1B] @ bytes_of ''[93m* '' @ [0x1B]
     @ bytes_of ''[97m]'' @ [0x1B] @ bytes_of ''[0;m low memory'' @ [0x0A, 0x0D])"
proof -
  have "concat (map (\<lambda>b. if b = 0x0A then [0x0A, 0x0D] else [b]) (log_text Warn (bytes_of ''low memory'') @ [0x0A]))
    = 0x1B # bytes_of ''[97m[ '' @ [0x1B] @ bytes_of ''[93m* '' @ [0x1B]
      @ bytes_of ''[97m]'' @ [0x1B] @ bytes_of ''[0;m low memory'' @ [0x0A, 0x0D]" by code_simp
  moreover have "\<not> level_code Warn < kernel_log_level once_new"
    by (simp add: kernel_log_level_def once_defs LOG_LEVEL_def)
  ultimately show ?thesis
    by (simp only: log_sends quiet_line_sends if_True if_False append_Nil)
qed

text \<open>Output can wait for ever. The code polls port \<open>0x20\<close> instead of the line status register: on a machine where that port keeps reading
  as 0, no output function returns, whatever the state of the transmitter.\<close>

theorem output_hangs:
  assumes "\<And>d. fst (port_in8 hw 0x20 d) = 0"
  shows "write_string hw s d = None \<and> write_serial hw c d = None"
proof -
  have "\<not> line_ready hw d" using assms by (simp add: line_ready_def)
  then show ?thesis by (simp add: write_string_iff write_serial_iff)
qed

definition dead_line :: "unit ports" where
  "dead_line = \<lparr>port_in8 = (\<lambda>p d. (0, d)), port_out8 = (\<lambda>p b d. d), port_in16 = (\<lambda>p d. (0, d)),
     port_out16 = (\<lambda>p x d. d), port_in32 = (\<lambda>p d. (0, d)), port_out32 = (\<lambda>p x d. d)\<rparr>"

theorem output_hangs_witness: "write_string dead_line [0x41] () = None \<and> write_serial dead_line 0x41 () = None"
  by (rule output_hangs) (simp add: dead_line_def)

section \<open>What the command line sets\<close>

text \<open>A command line made of assignments.\<close>

definition word_ok :: "utext \<Rightarrow> bool" where
  "word_ok w \<longleftrightarrow> list_all (\<lambda>c. \<not> white_space c \<and> c \<noteq> 61 \<and> c < 128) w"

definition cmdline_text :: "(utext \<times> utext) list \<Rightarrow> utext" where
  "cmdline_text kvs = concat (map (\<lambda>(k, v). k @ [61] @ v @ [32]) kvs)"

definition last_value :: "utext \<Rightarrow> (utext \<times> utext) list \<Rightarrow> utext option" where
  "last_value name kvs = map_of (rev kvs) name"

lemma split_whitespace_word:
  "list_all (\<lambda>c. \<not> white_space c) w \<Longrightarrow> split_whitespace acc (w @ cs) = split_whitespace (acc @ w) cs"
  by (induction w arbitrary: acc) simp_all

lemma eq_no_space: "\<not> white_space 61" and space_is_space: "white_space 32"
  by (simp_all add: white_space_def)

lemma cmdline_words:
  assumes "list_all (\<lambda>(k, v). word_ok k \<and> word_ok v) kvs"
  shows "split_whitespace [] (cmdline_text kvs) = map (\<lambda>(k, v). k @ [61] @ v) kvs"
  using assms
proof (induction kvs)
  case (Cons kv kvs)
  obtain k v where kv: "kv = (k, v)" by (cases kv)
  have "list_all (\<lambda>c. \<not> white_space c) (k @ [61] @ v)"
    using Cons.prems eq_no_space by (auto simp: kv word_ok_def list_all_iff)
  from split_whitespace_word [OF this, of "[]" "32 # cmdline_text kvs"]
  have "split_whitespace [] (cmdline_text (kv # kvs)) = (k @ [61] @ v) # split_whitespace [] (cmdline_text kvs)"
    by (simp add: kv cmdline_text_def space_is_space)
  with Cons show ?case by (simp add: kv)
qed (simp add: cmdline_text_def)

lemma parse_argument_assign:
  assumes "word_ok k" "word_ok v"
  shows "parse_argument (k @ [61] @ v) f = update_option f k v"
proof -
  have "61 \<notin> set k" "61 \<notin> set v" using assms by (auto simp: word_ok_def list_all_iff)
  then show ?thesis by (simp add: parse_argument_def split_append split_no_sep)
qed

lemma fold_options:
  assumes "list_all (\<lambda>(k, v). word_ok k \<and> word_ok v) kvs"
  shows "fold parse_argument (map (\<lambda>(k, v). k @ [61] @ v) kvs) f
    = \<lparr>kf_log_level = (case last_value (ascii ''log_level'') kvs of None \<Rightarrow> kf_log_level f
         | Some v \<Rightarrow> (case parse_u8 v of Some n \<Rightarrow> n | None \<Rightarrow> LOG_LEVEL)),
       kf_fat_in_mem = (case last_value (ascii ''fat_in_mem'') kvs of None \<Rightarrow> kf_fat_in_mem f
         | Some v \<Rightarrow> v = ascii ''true'')\<rparr>"
  using assms
proof (induction kvs arbitrary: f)
  case (Cons kv kvs)
  obtain k v where kv: "kv = (k, v)" by (cases kv)
  have ne: "ascii ''log_level'' \<noteq> ascii ''fat_in_mem''" by (simp add: ascii_def)
  have "fold parse_argument (map (\<lambda>(k, v). k @ [61] @ v) (kv # kvs)) f
      = fold parse_argument (map (\<lambda>(k, v). k @ [61] @ v) kvs) (update_option f k v)"
    using Cons.prems parse_argument_assign [of k v f] by (simp add: kv)
  moreover have "last_value nm (kv # kvs) = (case last_value nm kvs of None \<Rightarrow> if nm = k then Some v else None | Some x \<Rightarrow> Some x)" for nm
    by (simp add: last_value_def kv map_add_def split: option.splits)
  ultimately show ?case
    using Cons.IH [of "update_option f k v"] Cons.prems ne
    by (auto simp: kv update_option_def split: option.splits)
qed (simp add: last_value_def)

text \<open>Options on the command line. For a command line of assignments separated by spaces, the options are set once and for all to the value of the
  last assignment to each: the log level to a number from 0 to 255, or to the level of the build when the value is
  not such a number, and the placement of the file allocation table to whether the value is \<^verbatim>\<open>true\<close>; other names are ignored.\<close>

theorem cmdline_last_wins:
  assumes "list_all (\<lambda>(k, v). word_ok k \<and> word_ok v) kvs"
  shows "parse_kernel_cmdline (Some (map of_nat (cmdline_text kvs))) once_new
    = once_set once_new \<lparr>kf_log_level = (case last_value (ascii ''log_level'') kvs of None \<Rightarrow> LOG_LEVEL
         | Some v \<Rightarrow> (case parse_u8 v of Some n \<Rightarrow> n | None \<Rightarrow> LOG_LEVEL)),
       kf_fat_in_mem = (case last_value (ascii ''fat_in_mem'') kvs of None \<Rightarrow> True
         | Some v \<Rightarrow> v = ascii ''true'')\<rparr>"
proof -
  have small: "list_all (\<lambda>c. c < 128) (cmdline_text kvs)"
    using assms by (auto simp: cmdline_text_def list_all_iff word_ok_def)
  then have "list_all (\<lambda>b. b < 0x80) (map of_nat (cmdline_text kvs) :: u8 list)"
    by (auto simp: list_all_iff word_less_nat_alt unat_of_nat_u8)
  moreover have "map unat (map of_nat (cmdline_text kvs) :: u8 list) = cmdline_text kvs"
    using small unfolding map_map by (intro map_idI) (auto simp: list_all_iff unat_of_nat_u8)
  ultimately have "utf8_unwrap (map of_nat (cmdline_text kvs)) = Inr (cmdline_text kvs)"
    using utf8_ascii by (simp only: utf8_unwrap_def unwrap_opt_simps)
  then show ?thesis
    by (simp only: parse_kernel_cmdline_def option.case rbind_Inr cmdline_words [OF assms] fold_options [OF assms]
        default_features_def kernel_features.simps)
qed

theorem cmdline_last_wins_witness:
  "parse_kernel_cmdline (Some (bytes_of ''log_level=300 fat_in_mem=yes quiet=1 log_level=+4 '')) once_new
    = once_set once_new \<lparr>kf_log_level = 4, kf_fat_in_mem = False\<rparr>"
proof -
  let ?kvs = "[(ascii ''log_level'', ascii ''300''), (ascii ''fat_in_mem'', ascii ''yes''), (ascii ''quiet'', ascii ''1''),
    (ascii ''log_level'', ascii ''+4'')]"
  have 1: "list_all (\<lambda>(k, v). word_ok k \<and> word_ok v) ?kvs"
    by (simp add: word_ok_def ascii_def white_space_def)
  have 2: "map of_nat (cmdline_text ?kvs) = bytes_of ''log_level=300 fat_in_mem=yes quiet=1 log_level=+4 ''" by code_simp
  have 3: "last_value (ascii ''log_level'') ?kvs = Some (ascii ''+4'')" "last_value (ascii ''fat_in_mem'') ?kvs = Some (ascii ''yes'')"
    by (simp_all add: last_value_def ascii_def)
  have 4: "parse_u8 (ascii ''+4'') = Some 4" "ascii ''yes'' \<noteq> ascii ''true''" by code_simp+
  from cmdline_last_wins [OF 1] show ?thesis unfolding 2 3 using 4 by simp
qed

end
