(* ===== verification/Acpi.thy ===== *)
theory Acpi
  imports Mem Sync
begin

text \<open>
  The ACPI tables, \<^verbatim>\<open>src/drivers/acpi.rs\<close>: the root pointer, the root table with 32-bit or 64-bit pointers, the list of
  signatures and the search for a table. The tables are overlaid on memory, which is an argument together with the
  offset of the higher half; the content type of a table is its size and a function that reads it. A borrowed slice is
  its address and length.
\<close>

section \<open>Overlays\<close>

definition read_word :: "memory \<Rightarrow> usize \<Rightarrow> nat \<Rightarrow> 'w::len word" where
  "read_word m a n = of_nat (le_val (mem_read m a n))"

record sdt_header =
  sdt_signature :: "u8 list"
  sdt_length :: u32
  sdt_revision :: u8
  sdt_checksum :: u8
  sdt_oemid :: "u8 list"
  sdt_oem_table_id :: "u8 list"
  sdt_oem_revision :: u32
  sdt_creator_id :: u32
  sdt_creator_revision :: u32

definition sdt_header_at :: "memory \<Rightarrow> usize \<Rightarrow> sdt_header" where
  "sdt_header_at m a =
     \<lparr>sdt_signature = mem_read m a 4, sdt_length = read_word m (a + 4) 4, sdt_revision = m (a + 8), sdt_checksum = m (a + 9),
      sdt_oemid = mem_read m (a + 10) 6, sdt_oem_table_id = mem_read m (a + 16) 8, sdt_oem_revision = read_word m (a + 24) 4,
      sdt_creator_id = read_word m (a + 28) 4, sdt_creator_revision = read_word m (a + 32) 4\<rparr>"

record 't sdt =
  sdt_head :: sdt_header
  sdt_inner :: 't
  sdt_extra :: "(usize \<times> nat) option"

definition sdt_new :: "nat \<Rightarrow> (memory \<Rightarrow> usize \<Rightarrow> 't) \<Rightarrow> memory \<Rightarrow> usize \<Rightarrow> physical_ptr \<Rightarrow> 't sdt res" where
  "sdt_new size_t cast m hhdm p =
     (let ptr = to_higher_half hhdm p;
          length = unat (read_word m (virtual_addr (virtual_add 1 ptr 4)) 4 :: u32);
          a = virtual_addr ptr
      in if length < 36 then Inl (Panic IndexOutOfBounds)
         else Inr \<lparr>sdt_head = sdt_header_at m a, sdt_inner = cast m (a + 36),
                sdt_extra = (if length > 36 + size_t then Some (a + 36 + of_nat size_t, length - (36 + size_t)) else None)\<rparr>)"

section \<open>The root table\<close>

record rsdp =
  rsdp_signature :: "u8 list"
  rsdp_checksum :: u8
  rsdp_oem_id :: "u8 list"
  rsdp_revision :: u8
  rsdt_addr :: u32

definition rsdp_at :: "memory \<Rightarrow> usize \<Rightarrow> rsdp" where
  "rsdp_at m a = \<lparr>rsdp_signature = mem_read m a 8, rsdp_checksum = m (a + 8), rsdp_oem_id = mem_read m (a + 9) 6,
     rsdp_revision = m (a + 15), rsdt_addr = read_word m (a + 16) 4\<rparr>"

record xsdp =
  xsdp_rsdp :: rsdp
  xsdp_length :: u32
  xsdt_addr :: u64
  ext_checksum :: u8

definition xsdp_at :: "memory \<Rightarrow> usize \<Rightarrow> xsdp" where
  "xsdp_at m a = \<lparr>xsdp_rsdp = rsdp_at m a, xsdp_length = read_word m (a + 20) 4, xsdt_addr = read_word m (a + 24) 8,
     ext_checksum = m (a + 32)\<rparr>"

record rsdt =
  rsdt_pointers :: u32

record xsdt =
  xsdt_pointers :: u64

definition rsdt_at :: "memory \<Rightarrow> usize \<Rightarrow> rsdt" where
  "rsdt_at m a = \<lparr>rsdt_pointers = read_word m a 4\<rparr>"

definition xsdt_at :: "memory \<Rightarrow> usize \<Rightarrow> xsdt" where
  "xsdt_at m a = \<lparr>xsdt_pointers = read_word m a 8\<rparr>"

datatype root_sdt = Root_RSDT "rsdt sdt" | Root_XSDT "xsdt sdt"

fun root_header :: "root_sdt \<Rightarrow> sdt_header" where
  "root_header (Root_RSDT rsdt) = sdt_head rsdt"
| "root_header (Root_XSDT xsdt) = sdt_head xsdt"

definition root_len :: "root_sdt \<Rightarrow> usize" where
  "root_len root =
     (let ptr_size = (case root of Root_RSDT _ \<Rightarrow> 4 | Root_XSDT _ \<Rightarrow> 8)
      in (ucast (sdt_length (root_header root)) - 36) div ptr_size)"

text \<open>The loop of \<^verbatim>\<open>get\<close>: the lengths of the tables from the root pointer on are added up.\<close>

fun get_offset :: "memory \<Rightarrow> usize \<Rightarrow> nat \<Rightarrow> usize \<Rightarrow> usize res" where
  "get_offset m root_ptr 0 offset = Inr offset"
| "get_offset m root_ptr (Suc n) offset =
     (let header = virtual_add 1 (VirtualPtr root_ptr) offset in
      if virtual_is_null header then Inl (Panic UnwrapFailed)
      else get_offset m root_ptr n (offset + ucast (sdt_length (sdt_header_at m (virtual_addr header)))))"

definition root_get :: "memory \<Rightarrow> usize \<Rightarrow> root_sdt \<Rightarrow> nat \<Rightarrow> virtual_ptr res" where
  "root_get m hhdm root idx =
     (let ptrs = (case root of
            Root_RSDT rsdt \<Rightarrow> ucast (rsdt_pointers (sdt_inner rsdt)) + hhdm
          | Root_XSDT xsdt \<Rightarrow> xsdt_pointers (sdt_inner xsdt) + hhdm)
      in rbind (rassert (\<not> virtual_is_null (VirtualPtr ptrs))) (\<lambda>_.
         rbind (get_offset m ptrs idx 0) (\<lambda>offset. Inr (virtual_add 1 (VirtualPtr ptrs) offset))))"

section \<open>The list of tables\<close>

record acpi =
  acpi_root_sdt :: root_sdt
  acpi_tables :: "u8 list list"

fun table_signatures :: "memory \<Rightarrow> usize \<Rightarrow> root_sdt \<Rightarrow> nat list \<Rightarrow> u8 list list res" where
  "table_signatures m hhdm root [] = Inr []"
| "table_signatures m hhdm root (i # is) =
     rbind (root_get m hhdm root i) (\<lambda>p.
     rbind (table_signatures m hhdm root is) (\<lambda>ss. Inr (mem_read m (virtual_addr p) 4 # ss)))"

definition resolve_acpi ::
    "memory \<Rightarrow> usize \<Rightarrow> usize option \<Rightarrow> acpi once_cell_state cell \<Rightarrow> acpi once_cell_state cell res" where
  "resolve_acpi m hhdm rsdp_ptr cell =
     (case rsdp_ptr of
        None \<Rightarrow> Inl (Panic AssertFailed)
      | Some p \<Rightarrow>
          let rsdp = rsdp_at m p in
          rbind (if rsdp_revision rsdp = 0
                 then rbind (sdt_new 4 rsdt_at m hhdm (PhysicalPtr (ucast (rsdt_addr rsdp)))) (\<lambda>t. Inr (Root_RSDT t))
                 else rbind (sdt_new 8 xsdt_at m hhdm (PhysicalPtr (xsdt_addr (xsdp_at m p)))) (\<lambda>t. Inr (Root_XSDT t)))
            (\<lambda>root_sdt.
          rbind (table_signatures m hhdm root_sdt [0..<unat (root_len root_sdt)]) (\<lambda>tables.
            once_set cell \<lparr>acpi_root_sdt = root_sdt, acpi_tables = tables\<rparr>)))"

fun find_index :: "u8 list \<Rightarrow> nat \<Rightarrow> u8 list list \<Rightarrow> nat option" where
  "find_index name i [] = None"
| "find_index name i (table # tables) = (if table = name then Some i else find_index name (Suc i) tables)"

definition find_table ::
    "nat \<Rightarrow> (memory \<Rightarrow> usize \<Rightarrow> 't) \<Rightarrow> memory \<Rightarrow> usize \<Rightarrow> acpi once_cell_state cell \<Rightarrow> u8 list \<Rightarrow> 't sdt option res" where
  "find_table size_t cast m hhdm cell table_name =
     rbind (rassert (length table_name = 4)) (\<lambda>_.
     rbind (once_get_unchecked cell) (\<lambda>acpi.
       case find_index table_name 0 (acpi_tables acpi) of
         None \<Rightarrow> Inr None
       | Some i \<Rightarrow>
           rbind (root_get m hhdm (acpi_root_sdt acpi) i) (\<lambda>ptr.
           rbind (sdt_new size_t cast m hhdm (to_lower_half hhdm ptr)) (\<lambda>table. Inr (Some table)))))"

section \<open>The fixed description table\<close>

record generic_address_structure =
  address_space :: u8
  bit_width :: u8
  bit_offset :: u8
  access_size :: u8
  gas_address :: u8

definition gas_at :: "memory \<Rightarrow> usize \<Rightarrow> generic_address_structure" where
  "gas_at m a = \<lparr>address_space = m a, bit_width = m (a + 1), bit_offset = m (a + 2), access_size = m (a + 3), gas_address = m (a + 4)\<rparr>"

record fadt =
  firmware_ctrl :: u32
  dsdt :: u32
  preferred_power_management_profile :: u8
  sci_interrupt :: u16
  smi_cmd_port :: u32
  acpi_enable :: u8
  acpi_disable :: u8
  s4biox_req :: u8
  pstate_control :: u8
  pm1a_event_block :: u32
  pm1b_event_block :: u32
  pm1a_control_block :: u32
  pm1b_control_block :: u32
  pm2_control_block :: u32
  pm_timer_block :: u32
  gpe0_block :: u32
  gpe1_block :: u32
  fadt_lengths :: "u8 list"
  c_state_control :: u8
  worst_c2_latency :: u16
  worst_c3_length :: u16
  flush_size :: u16
  flush_stride :: u16
  fadt_duty_and_alarms :: "u8 list"
  boot_architecture_flags :: u16
  fadt_flags :: u32
  reset_reg :: generic_address_structure
  reset_value :: u8
  x_firmware_control :: u64
  x_dstd :: u64
  x_blocks :: "generic_address_structure list"

text \<open>
  The packed layout. Neighbouring byte fields that nothing reads are lists: the seven from \<^verbatim>\<open>pm1_event_length\<close> to \<^verbatim>\<open>gpe1_base\<close>,
  the five from \<^verbatim>\<open>duty_offset\<close> to \<^verbatim>\<open>century\<close>, and the eight extended blocks.
\<close>

definition fadt_at :: "memory \<Rightarrow> usize \<Rightarrow> fadt" where
  "fadt_at m a =
     \<lparr>firmware_ctrl = read_word m a 4, dsdt = read_word m (a + 4) 4, preferred_power_management_profile = m (a + 9),
      sci_interrupt = read_word m (a + 10) 2, smi_cmd_port = read_word m (a + 12) 4, acpi_enable = m (a + 16),
      acpi_disable = m (a + 17), s4biox_req = m (a + 18), pstate_control = m (a + 19),
      pm1a_event_block = read_word m (a + 20) 4, pm1b_event_block = read_word m (a + 24) 4,
      pm1a_control_block = read_word m (a + 28) 4, pm1b_control_block = read_word m (a + 32) 4,
      pm2_control_block = read_word m (a + 36) 4, pm_timer_block = read_word m (a + 40) 4, gpe0_block = read_word m (a + 44) 4,
      gpe1_block = read_word m (a + 48) 4, fadt_lengths = mem_read m (a + 52) 7, c_state_control = m (a + 59),
      worst_c2_latency = read_word m (a + 60) 2, worst_c3_length = read_word m (a + 62) 2, flush_size = read_word m (a + 64) 2,
      flush_stride = read_word m (a + 66) 2, fadt_duty_and_alarms = mem_read m (a + 68) 5,
      boot_architecture_flags = read_word m (a + 73) 2, fadt_flags = read_word m (a + 76) 4, reset_reg = gas_at m (a + 80),
      reset_value = m (a + 85), x_firmware_control = read_word m (a + 89) 8, x_dstd = read_word m (a + 97) 8,
      x_blocks = map (\<lambda>i. gas_at m (a + 105 + 5 * of_nat i)) [0..<8]\<rparr>"

text \<open>The names \<^verbatim>\<open>"FACP"\<close> and \<^verbatim>\<open>"APIC"\<close>.\<close>

definition sig_facp :: "u8 list" where "sig_facp = [0x46, 0x41, 0x43, 0x50]"

definition sig_apic :: "u8 list" where "sig_apic = [0x41, 0x50, 0x49, 0x43]"

section \<open>Tables one behind the other\<close>

text \<open>What the walk needs: from address \<open>a\<close> on the tables \<open>ts\<close> lie in memory without gaps, each with its length in its header.\<close>

definition sdt_ok :: "memory \<Rightarrow> usize \<Rightarrow> u8 list \<Rightarrow> bool" where
  "sdt_ok m a t \<longleftrightarrow> a \<noteq> 0 \<and> 36 \<le> length t \<and> length t < 2 ^ 32 \<and> le_val (take 4 (drop 4 t)) = length t \<and> mem_read m a (length t) = t"

fun tables_at :: "memory \<Rightarrow> usize \<Rightarrow> u8 list list \<Rightarrow> bool" where
  "tables_at m a [] \<longleftrightarrow> True"
| "tables_at m a (t # ts) \<longleftrightarrow> sdt_ok m a t \<and> tables_at m (a + of_nat (length t)) ts"

lemma mem_read_part:
  assumes "i + k \<le> n"
  shows "mem_read m (a + of_nat i) k = take k (drop i (mem_read m a n))"
  using assms by (intro nth_equalityI) (simp_all add: mem_read_def add.assoc)

lemma read_word_part:
  assumes "i + k \<le> n"
  shows "read_word m (a + of_nat i) k = of_nat (le_val (take k (drop i (mem_read m a n))))"
  using mem_read_part [OF assms] by (simp add: read_word_def)

text \<open>The address of the \<open>i\<close>-th table.\<close>

definition table_address :: "usize \<Rightarrow> u8 list list \<Rightarrow> nat \<Rightarrow> usize" where
  "table_address a ts i = a + of_nat (sum_list (map length (take i ts)))"

lemma tables_at_nth:
  assumes "tables_at m a ts" "i < length ts"
  shows "sdt_ok m (table_address a ts i) (ts ! i)"
  using assms
proof (induction ts arbitrary: a i)
  case (Cons t ts)
  show ?case
  proof (cases i)
    case (Suc k)
    with Cons.IH [of "a + of_nat (length t)" k] Cons.prems show ?thesis by (simp add: table_address_def add.assoc)
  qed (use Cons.prems in \<open>simp add: table_address_def\<close>)
qed simp

lemma sdt_ok_header:
  assumes "sdt_ok m a t"
  shows "sdt_signature (sdt_header_at m a) = take 4 t" "unat (sdt_length (sdt_header_at m a)) = length t"
    "(read_word m (a + 4) 4 :: u32) = of_nat (length t)" "mem_read m a 4 = take 4 t"
proof -
  have t: "mem_read m a (length t) = t" "36 \<le> length t" "le_val (take 4 (drop 4 t)) = length t" "length t < 2 ^ 32"
    using assms by (simp_all add: sdt_ok_def)
  show s: "mem_read m a 4 = take 4 t" using mem_read_part [of 0 4 "length t" m a] t by simp
  show l: "(read_word m (a + 4) 4 :: u32) = of_nat (length t)"
    using read_word_part [of 4 4 "length t" m a, where 'a = 32] t by simp
  show "sdt_signature (sdt_header_at m a) = take 4 t" using s by (simp add: sdt_header_at_def)
  show "unat (sdt_length (sdt_header_at m a)) = length t"
    using l t(4) by (simp add: sdt_header_at_def unat_of_nat)
qed

lemma get_offset_tables:
  assumes "tables_at m a ts" "k + i \<le> length ts"
  shows "get_offset m a k (of_nat (sum_list (map length (take i ts)))) = Inr (of_nat (sum_list (map length (take (i + k) ts))))"
  using assms(2)
proof (induction k arbitrary: i)
  case (Suc k)
  then have ok: "sdt_ok m (table_address a ts i) (ts ! i)" using tables_at_nth [OF assms(1), of i] by simp
  have n: "table_address a ts i \<noteq> 0" using ok by (simp add: sdt_ok_def)
  have l: "(ucast (sdt_length (sdt_header_at m (table_address a ts i))) :: usize) = of_nat (length (ts ! i))"
    using sdt_ok_header(2) [OF ok] by (metis of_nat_unat unat_ucast_up)
  have "of_nat (sum_list (map length (take i ts))) + of_nat (length (ts ! i)) = (of_nat (sum_list (map length (take (Suc i) ts))) :: usize)"
    using Suc.prems by (simp add: take_Suc_conv_app_nth)
  with Suc.IH [of "Suc i"] Suc.prems n l show ?case by (simp add: Let_def table_address_def)
qed simp

text \<open>The pointer the walk starts from.\<close>

fun root_pointer :: "root_sdt \<Rightarrow> usize" where
  "root_pointer (Root_RSDT rsdt) = ucast (rsdt_pointers (sdt_inner rsdt))"
| "root_pointer (Root_XSDT xsdt) = xsdt_pointers (sdt_inner xsdt)"

lemma root_get_tables:
  assumes "tables_at m (root_pointer root + hhdm) ts" "i < length ts"
  shows "root_get m hhdm root i = Inr (VirtualPtr (table_address (root_pointer root + hhdm) ts i))"
proof -
  have "root_pointer root + hhdm \<noteq> 0"
    using tables_at_nth [OF assms(1), of 0] assms(2) by (simp add: sdt_ok_def table_address_def split: if_splits) (cases ts; simp)
  with get_offset_tables [OF assms(1), of i 0] assms(2) show ?thesis
    by (cases root) (simp_all add: root_get_def Let_def table_address_def)
qed

lemma table_signatures_tables:
  assumes "tables_at m (root_pointer root + hhdm) ts" "\<forall>i \<in> set is. i < length ts"
  shows "table_signatures m hhdm root is = Inr (map (\<lambda>i. take 4 (ts ! i)) is)"
  using assms(2)
  by (induction "is") (simp_all add: root_get_tables [OF assms(1)] sdt_ok_header(4) [OF tables_at_nth [OF assms(1)]])

text \<open>The root table \<open>t\<close> with pointers of \<open>n\<close> bytes, as the root pointer at \<open>p\<close> names it.\<close>

definition root_table :: "memory \<Rightarrow> usize \<Rightarrow> usize \<Rightarrow> u8 list \<Rightarrow> nat \<Rightarrow> bool" where
  "root_table m hhdm p t n \<longleftrightarrow>
     (if m (p + 15) = 0 then n = 4 \<and> sdt_ok m (ucast (read_word m (p + 16) 4 :: u32) + hhdm) t
      else n = 8 \<and> sdt_ok m (read_word m (p + 24) 8 + hhdm) t)"

definition first_pointer :: "u8 list \<Rightarrow> nat \<Rightarrow> usize" where
  "first_pointer t n = of_nat (le_val (take n (drop 36 t)))"

lemma sdt_new_table:
  assumes "sdt_ok m (a + hhdm) t"
  shows "sdt_new k cast m hhdm (PhysicalPtr a)
    = Inr \<lparr>sdt_head = sdt_header_at m (a + hhdm), sdt_inner = cast m (a + hhdm + 36),
        sdt_extra = (if length t > 36 + k then Some (a + hhdm + 36 + of_nat k, length t - (36 + k)) else None)\<rparr>"
proof -
  have "unat (read_word m (a + hhdm + 4) 4 :: u32) = length t" "36 \<le> length t"
    using sdt_ok_header(2) [OF assms] assms by (simp_all add: sdt_header_at_def sdt_ok_def)
  then show ?thesis by (simp add: sdt_new_def to_higher_half_def Let_def)
qed

lemma le_val_cast_up:
  assumes "length bs = 4"
  shows "(ucast (of_nat (le_val bs) :: u32) :: u64) = of_nat (le_val bs)"
proof -
  have "le_val bs < 2 ^ 32" using le_val_bound [of bs] assms by simp
  then have "unat (of_nat (le_val bs) :: u32) = le_val bs" by (simp add: unat_of_nat)
  then show ?thesis by (metis of_nat_unat unat_ucast_up)
qed

lemma unat_length_minus:
  assumes "36 \<le> unat (l :: u32)"
  shows "unat (ucast l - 36 :: usize) = unat l - 36"
  using assms by (simp add: unat_sub word_le_nat_alt unat_ucast_up)

lemma resolved_root:
  assumes "root_table m hhdm p t n" "length t = 36 + n * length ts" "tables_at m (first_pointer t n + hhdm) ts"
  shows "\<exists>root. resolve_acpi m hhdm (Some p) once_new = Inr (Initialized \<lparr>acpi_root_sdt = root, acpi_tables = map (take 4) ts\<rparr>)
    \<and> tables_at m (root_pointer root + hhdm) ts \<and> (ts \<noteq> [] \<longrightarrow> root_pointer root = first_pointer t n)"
proof -
  let ?a = "if m (p + 15) = 0 then ucast (read_word m (p + 16) 4 :: u32) else read_word m (p + 24) 8 :: usize"
  let ?head = "sdt_header_at m (?a + hhdm)"
  have ok: "sdt_ok m (?a + hhdm) t" and n: "n = (if m (p + 15) = 0 then 4 else 8)"
    using assms(1) by (auto simp: root_table_def split: if_splits)
  have l: "unat (ucast (sdt_length ?head) - 36 :: usize) = n * length ts"
    using unat_length_minus [of "sdt_length ?head"] sdt_ok_header(2) [OF ok] assms(2) by linarith
  obtain root where root: "(if rsdp_revision (rsdp_at m p) = 0
      then rbind (sdt_new 4 rsdt_at m hhdm (PhysicalPtr (ucast (rsdt_addr (rsdp_at m p))))) (\<lambda>t. Inr (Root_RSDT t))
      else rbind (sdt_new 8 xsdt_at m hhdm (PhysicalPtr (xsdt_addr (xsdp_at m p)))) (\<lambda>t. Inr (Root_XSDT t))) = Inr root"
    and head: "root_header root = ?head" and kind: "n = (case root of Root_RSDT _ \<Rightarrow> 4 | Root_XSDT _ \<Rightarrow> 8)"
    and ptr: "root_pointer root = (if m (p + 15) = 0 then ucast (read_word m (?a + hhdm + 36) 4 :: u32) else read_word m (?a + hhdm + 36) 8)"
    using sdt_new_table [OF ok, of 4 rsdt_at] sdt_new_table [OF ok, of 8 xsdt_at] n
    by (cases "m (p + 15) = 0") (auto simp: rsdp_at_def xsdp_at_def rsdt_at_def xsdt_at_def)
  have len: "unat (root_len root) = length ts"
    using l kind head by (cases root) (simp_all add: root_len_def Let_def unat_div)
  have first: "root_pointer root = first_pointer t n" if "ts \<noteq> []"
  proof -
    from that have "36 + n \<le> length t" using assms(2) by (cases ts) simp_all
    moreover have "mem_read m (?a + hhdm) (length t) = t" using ok by (simp add: sdt_ok_def)
    ultimately have "mem_read m (?a + hhdm + 36) n = take n (drop 36 t)"
      using mem_read_part [of 36 n "length t" m "?a + hhdm"] by simp
    then show ?thesis
      using ptr n le_val_cast_up [of "mem_read m (?a + hhdm + 36) 4"]
      by (auto simp: first_pointer_def read_word_def split: if_splits)
  qed
  then have tables: "tables_at m (root_pointer root + hhdm) ts" using assms(3) by (cases "ts = []") simp_all
  have "map (\<lambda>i. take 4 (ts ! i)) [0..<length ts] = map (take 4) ts" by (rule nth_equalityI) simp_all
  with table_signatures_tables [OF tables, of "[0..<length ts]"]
  have "resolve_acpi m hhdm (Some p) once_new = Inr (Initialized \<lparr>acpi_root_sdt = root, acpi_tables = map (take 4) ts\<rparr>)"
    unfolding resolve_acpi_def option.case Let_def root rbind_Inr len by (simp add: once_defs)
  with tables first show ?thesis by blast
qed

lemma find_index_None: "find_index name j xs = None \<longleftrightarrow> name \<notin> set xs"
  by (induction xs arbitrary: j) auto

lemma find_index_Some:
  assumes "find_index name j xs = Some i"
  shows "j \<le> i \<and> i - j < length xs \<and> xs ! (i - j) = name \<and> (\<forall>k < i - j. xs ! k \<noteq> name)"
  using assms
proof (induction xs arbitrary: j)
  case (Cons x xs)
  show ?case
  proof (cases "x = name")
    case False
    with Cons.IH [of "Suc j"] Cons.prems have IH: "Suc j \<le> i" "i - Suc j < length xs" "xs ! (i - Suc j) = name"
      "\<forall>k < i - Suc j. xs ! k \<noteq> name" by simp_all
    then have e: "i - j = Suc (i - Suc j)" by linarith
    show ?thesis unfolding e using IH False by (auto simp: less_Suc_eq_0_disj)
  qed (use Cons.prems in simp)
qed simp

lemma tables_found:
  assumes "root_table m hhdm p t n" "length t = 36 + n * length ts" "tables_at m (first_pointer t n + hhdm) ts" "length name = 4"
  shows "\<exists>c. resolve_acpi m hhdm (Some p) once_new = Inr c
    \<and> (\<exists>acpi. once_get_unchecked c = Inr acpi \<and> acpi_tables acpi = map (take 4) ts)
    \<and> (if name \<notin> take 4 ` set ts then find_table k cast m hhdm c name = Inr None
       else \<exists>s i b. find_table k cast m hhdm c name = Inr (Some s) \<and> i < length ts \<and> take 4 (ts ! i) = name \<and> (\<forall>j < i. take 4 (ts ! j) \<noteq> name)
         \<and> b = table_address (first_pointer t n + hhdm) ts i
         \<and> sdt_signature (sdt_head s) = name \<and> unat (sdt_length (sdt_head s)) = length (ts ! i) \<and> sdt_inner s = cast m (b + 36)
         \<and> sdt_extra s = (if length (ts ! i) > 36 + k then Some (b + 36 + of_nat k, length (ts ! i) - (36 + k)) else None))"
proof -
  obtain root where c: "resolve_acpi m hhdm (Some p) once_new = Inr (Initialized \<lparr>acpi_root_sdt = root, acpi_tables = map (take 4) ts\<rparr>)"
    (is "_ = Inr ?c") and tables: "tables_at m (root_pointer root + hhdm) ts" and first: "ts \<noteq> [] \<longrightarrow> root_pointer root = first_pointer t n"
    using resolved_root [OF assms(1-3)] by blast
  show ?thesis
  proof (cases "name \<in> take 4 ` set ts")
    case False
    with find_index_None [of name 0 "map (take 4) ts"] c assms(4) show ?thesis by (simp add: find_table_def once_defs)
  next
    case True
    then obtain i where i: "find_index name 0 (map (take 4) ts) = Some i"
      using find_index_None [of name 0 "map (take 4) ts"] by fastforce
    with find_index_Some [OF i] have n: "i < length ts" "take 4 (ts ! i) = name" "\<forall>j < i. take 4 (ts ! j) \<noteq> name" by auto
    let ?b = "table_address (root_pointer root + hhdm) ts i"
    have ok: "sdt_ok m ?b (ts ! i)" using tables_at_nth [OF tables n(1)] .
    have "find_table k cast m hhdm ?c name = Inr (Some \<lparr>sdt_head = sdt_header_at m ?b, sdt_inner = cast m (?b + 36),
        sdt_extra = (if length (ts ! i) > 36 + k then Some (?b + 36 + of_nat k, length (ts ! i) - (36 + k)) else None)\<rparr>)"
      using i n root_get_tables [OF tables n(1)] sdt_new_table [of m "?b - hhdm" hhdm "ts ! i" k cast] ok assms(4)
      by (simp add: find_table_def once_defs to_lower_half_def)
    moreover have "root_pointer root = first_pointer t n" using first n(1) by auto
    ultimately show ?thesis
      using True c n sdt_ok_header(1,2) [OF ok] by (intro exI [of _ ?c] conjI) (auto simp: once_defs intro!: exI [of _ i])
  qed
qed

text \<open>C26: ACPI tables are found by their signature. When the tables lie one behind the other from the first pointer of the root table
  on, as many as the root table has pointers, then the list of signatures is theirs in that order, and the search for a
  signature returns the header, the content and the rest of the first table with that signature, or nothing when there is none.\<close>

theorem acpi_tables_found:
  assumes "root_table m hhdm p t n" "length t = 36 + n * length ts" "tables_at m (first_pointer t n + hhdm) ts" "length name = 4"
  shows "\<exists>c. resolve_acpi m hhdm (Some p) once_new = Inr c
    \<and> (\<exists>acpi. once_get_unchecked c = Inr acpi \<and> acpi_tables acpi = map (take 4) ts)
    \<and> (if name \<notin> take 4 ` set ts then find_table k cast m hhdm c name = Inr None
       else \<exists>s i b. find_table k cast m hhdm c name = Inr (Some s) \<and> i < length ts \<and> take 4 (ts ! i) = name \<and> (\<forall>j < i. take 4 (ts ! j) \<noteq> name)
         \<and> b = table_address (first_pointer t n + hhdm) ts i
         \<and> sdt_signature (sdt_head s) = name \<and> unat (sdt_length (sdt_head s)) = length (ts ! i) \<and> sdt_inner s = cast m (b + 36)
         \<and> sdt_extra s = (if length (ts ! i) > 36 + k then Some (b + 36 + of_nat k, length (ts ! i) - (36 + k)) else None))"
  using assms by (rule tables_found)

text \<open>A firmware with two tables, laid out behind the root pointer.\<close>

definition sdt_bytes :: "u8 list \<Rightarrow> u8 list \<Rightarrow> u8 list" where
  "sdt_bytes signature body = signature @ to_le 4 (36 + length body) @ replicate 28 0 @ body"

definition image_memory :: "usize \<Rightarrow> u8 list \<Rightarrow> memory" where
  "image_memory base img x = (let i = unat (x - base) in if i < length img then img ! i else 0)"

lemma image_memory_read:
  assumes "i + k \<le> length img" "length img < 2 ^ 64"
  shows "mem_read (image_memory base img) (base + of_nat i) k = take k (drop i img)"
proof (rule nth_equalityI)
  fix j assume "j < length (mem_read (image_memory base img) (base + of_nat i) k)"
  then have j: "j < k" by simp
  have "unat (of_nat (i + j) :: usize) = i + j" using j assms by (intro unat_of_nat64) simp
  then show "mem_read (image_memory base img) (base + of_nat i) k ! j = take k (drop i img) ! j"
    using j assms by (simp add: mem_read_def image_memory_def)
qed (use assms in simp)

lemma image_sdt_ok:
  assumes "take (36 + length body) (drop i img) = sdt_bytes signature body" "i + 36 + length body \<le> length img"
    "length img < 2 ^ 32" "length signature = 4" "base + of_nat i \<noteq> 0"
  shows "sdt_ok (image_memory base img) (base + of_nat i) (sdt_bytes signature body)"
  using image_memory_read [of i "36 + length body" img base] assms by (simp add: sdt_ok_def sdt_bytes_def le_val_to_le)

definition facp_body :: "u8 list" where
  "facp_body = replicate 12 0 @ to_le 4 0xB2 @ [2, 3, 0, 0] @ replicate 8 0 @ to_le 4 0x604 @ replicate 8 0"

definition madt_body :: "u8 list" where
  "madt_body = to_le 4 0xFEE00000 @ to_le 4 1
     @ [0, 8, 0, 0, 1, 0, 0, 0] @ [0, 8, 1, 1, 0, 0, 0, 0] @ [1, 12, 4, 0] @ to_le 4 0xFEC00000 @ [0, 0, 0, 0]
     @ [2, 10, 0, 0, 2, 0, 0, 0, 0, 0]"

definition root_bytes :: "u8 list" where
  "root_bytes = sdt_bytes [0x58, 0x53, 0x44, 0x54] (to_le 8 0x10055 @ to_le 8 0x100A1)"

definition firmware_tables :: "u8 list list" where
  "firmware_tables = [sdt_bytes sig_facp facp_body, sdt_bytes sig_apic madt_body]"

definition firmware_image :: "u8 list" where
  "firmware_image = replicate 15 0 @ [2] @ replicate 8 0 @ to_le 8 0x10021 @ [0] @ root_bytes @ concat firmware_tables"

definition firmware :: memory where
  "firmware = image_memory 0xFFFF800000010000 firmware_image"

lemma length_sdt_bytes [simp]: "length (sdt_bytes signature body) = length signature + 32 + length body"
  by (simp add: sdt_bytes_def)

lemma firmware_lengths:
  "length sig_facp = 4" "length sig_apic = 4" "length facp_body = 40" "length madt_body = 46" "length root_bytes = 52"
  "length firmware_image = 243"
proof -
  show l: "length sig_facp = 4" "length sig_apic = 4" "length facp_body = 40" "length madt_body = 46"
    by (simp_all add: sig_facp_def sig_apic_def facp_body_def madt_body_def)
  show r: "length root_bytes = 52" by (simp add: root_bytes_def)
  show "length firmware_image = 243" by (simp add: firmware_image_def firmware_tables_def l r)
qed

lemma firmware_parts:
  "drop 33 firmware_image = root_bytes @ concat firmware_tables" "drop 85 firmware_image = concat firmware_tables"
  "drop 161 firmware_image = sdt_bytes sig_apic madt_body" "firmware_image ! 15 = 2"
  "take 8 (drop 24 firmware_image) = to_le 8 0x10021"
  by (simp_all add: firmware_image_def firmware_tables_def firmware_lengths nth_append)

lemma firmware_root: "root_table firmware 0xFFFF800000000000 0xFFFF800000010000 root_bytes 8"
proof -
  have "firmware 0xFFFF80000001000F = 2"
    by (simp add: firmware_def image_memory_def firmware_lengths firmware_parts)
  moreover have "read_word firmware 0xFFFF800000010018 8 = (0x10021 :: u64)"
    using image_memory_read [of 24 8 firmware_image "0xFFFF800000010000"]
    by (simp add: read_word_def firmware_def firmware_lengths firmware_parts le_val_to_le)
  moreover have "sdt_ok firmware 0xFFFF800000010021 root_bytes"
    using image_sdt_ok [of "to_le 8 0x10055 @ to_le 8 0x100A1" 33 firmware_image "[0x58, 0x53, 0x44, 0x54]" "0xFFFF800000010000"]
      firmware_lengths(5)
    by (simp add: firmware_def firmware_lengths firmware_parts flip: root_bytes_def)
  ultimately show ?thesis by (simp add: root_table_def)
qed

lemma firmware_contiguous: "tables_at firmware 0xFFFF800000010055 firmware_tables"
proof -
  have "sdt_ok firmware 0xFFFF800000010055 (sdt_bytes sig_facp facp_body)"
    using image_sdt_ok [of facp_body 85 firmware_image sig_facp "0xFFFF800000010000"]
    by (simp add: firmware_def firmware_lengths firmware_parts firmware_tables_def)
  moreover have "sdt_ok firmware 0xFFFF8000000100A1 (sdt_bytes sig_apic madt_body)"
    using image_sdt_ok [of madt_body 161 firmware_image sig_apic "0xFFFF800000010000"]
    by (simp add: firmware_def firmware_lengths firmware_parts)
  ultimately show ?thesis
    by (simp add: firmware_tables_def firmware_lengths)
qed

lemma first_pointer_firmware: "first_pointer root_bytes 8 = 0x10055"
  by (simp add: first_pointer_def root_bytes_def sdt_bytes_def le_val_to_le)

theorem acpi_tables_found_witness:
  "\<exists>c s. resolve_acpi firmware 0xFFFF800000000000 (Some 0xFFFF800000010000) once_new = Inr c
    \<and> (\<exists>acpi. once_get_unchecked c = Inr acpi \<and> acpi_tables acpi = [sig_facp, sig_apic])
    \<and> find_table 145 fadt_at firmware 0xFFFF800000000000 c sig_facp = Inr (Some s) \<and> sdt_extra s = None
    \<and> sdt_signature (sdt_head s) = sig_facp"
proof -
  have "u \<in> set firmware_tables \<Longrightarrow> length u < 181" for u
    by (auto simp: firmware_tables_def firmware_lengths)
  then have short: "i < length firmware_tables \<Longrightarrow> length (firmware_tables ! i) < 181" for i by simp
  have "length root_bytes = 36 + 8 * length firmware_tables" by (simp add: firmware_lengths firmware_tables_def)
  moreover have "sig_facp \<in> take 4 ` set firmware_tables" by (simp add: firmware_tables_def sdt_bytes_def sig_facp_def)
  moreover have "map (take 4) firmware_tables = [sig_facp, sig_apic]"
    by (simp add: firmware_tables_def sdt_bytes_def sig_facp_def sig_apic_def)
  moreover have "length sig_facp = 4" "tables_at firmware (first_pointer root_bytes 8 + 0xFFFF800000000000) firmware_tables"
    using firmware_contiguous by (simp_all add: first_pointer_firmware sig_facp_def)
  ultimately obtain c s i where
    "resolve_acpi firmware 0xFFFF800000000000 (Some 0xFFFF800000010000) once_new = Inr c"
    "\<exists>acpi. once_get_unchecked c = Inr acpi \<and> acpi_tables acpi = [sig_facp, sig_apic]"
    "find_table 145 fadt_at firmware 0xFFFF800000000000 c sig_facp = Inr (Some s)" "sdt_signature (sdt_head s) = sig_facp"
    and extra: "i < length firmware_tables" "\<exists>x. sdt_extra s = (if length (firmware_tables ! i) > 36 + 145 then x else None)"
    using acpi_tables_found [OF firmware_root, of firmware_tables sig_facp 145 fadt_at] by auto
  moreover have "sdt_extra s = None" using extra short [OF extra(1)] by auto
  ultimately show ?thesis by blast
qed

text \<open>Only the first pointer counts: the second table is taken to lie right behind the first, whatever the second pointer says.\<close>

theorem second_pointer_ignored:
  assumes "xsdt_pointers (sdt_inner x) + hhdm = a" "a \<noteq> 0"
  shows "root_get m hhdm (Root_XSDT x) 1 = Inr (VirtualPtr (a + ucast (sdt_length (sdt_header_at m a))))"
  using assms by (simp add: root_get_def Let_def)

end
