(* ===== verification/Interrupts.thy ===== *)
theory Interrupts
  imports Mem
begin

text \<open>
  The segment and interrupt tables of the processor, \<^verbatim>\<open>src/arch/x86_64/gdt.rs\<close> and
  \<^verbatim>\<open>src/arch/x86_64/interrupts/mod.rs\<close>, with the gates of the exceptions from
  \<^verbatim>\<open>src/arch/x86_64/interrupts/exceptions.rs\<close>. The addresses of the handlers are arguments; loading the tables into the
  processor is left out.
\<close>

section \<open>Segments\<close>

record gdt_descriptor =
  gd_limit :: u16
  gd_base_low :: u16
  gd_base_mid :: u8
  gd_access :: u8
  gd_granularity :: u8
  gd_base_high :: u8

record tss_descriptor =
  tss_length :: u16
  tss_base_low :: u16
  tss_base_mid :: u8
  tss_flags1 :: u8
  tss_flags2 :: u8
  tss_base_high :: u8
  tss_base_upper :: u32
  tss_reserved :: u32

record gdt =
  descriptors :: "gdt_descriptor list"
  gdt_tss :: tss_descriptor

record gdt_ptr =
  gdtr_limit :: u16
  gdtr_base :: u64

definition descriptor_default :: gdt_descriptor where
  "descriptor_default = \<lparr>gd_limit = 0, gd_base_low = 0, gd_base_mid = 0, gd_access = 0, gd_granularity = 0, gd_base_high = 0\<rparr>"

definition gdt_default :: gdt where
  "gdt_default = \<lparr>descriptors = replicate 11 descriptor_default,
     gdt_tss = \<lparr>tss_length = 0, tss_base_low = 0, tss_base_mid = 0, tss_flags1 = 0, tss_flags2 = 0, tss_base_high = 0,
       tss_base_upper = 0, tss_reserved = 0\<rparr>\<rparr>"

text \<open>The assignments to the fields of one descriptor.\<close>

definition set_descriptor :: "nat \<Rightarrow> u16 \<Rightarrow> u8 \<Rightarrow> u8 \<Rightarrow> gdt \<Rightarrow> gdt" where
  "set_descriptor i limit access granularity g =
     g\<lparr>descriptors := (descriptors g)[i := \<lparr>gd_limit = limit, gd_base_low = 0, gd_base_mid = 0, gd_access = access,
         gd_granularity = granularity, gd_base_high = 0\<rparr>]\<rparr>"

text \<open>\<open>address\<close> is where the table lies.\<close>

definition gdt_init :: "u64 \<Rightarrow> gdt \<times> gdt_ptr" where
  "gdt_init address =
     (let g = gdt_default;
          g = set_descriptor 0 0 0 0 g;
          g = set_descriptor 1 0xFFFF 0x9A 0 g;
          g = set_descriptor 2 0xFFFF 0x92 0 g;
          g = set_descriptor 3 0xFFFF 0x9A 0xCF g;
          g = set_descriptor 4 0xFFFF 0x92 0xCF g;
          g = set_descriptor 5 0 0x9A 0x20 g;
          g = set_descriptor 6 0 0x92 0 g;
          g = set_descriptor 9 0 0xFA 0x20 g;
          g = set_descriptor 10 0 0xF2 0 g;
          g = g\<lparr>gdt_tss := \<lparr>tss_length = 104, tss_base_low = 0, tss_base_mid = 0, tss_flags1 = 0x89, tss_flags2 = 0,
                 tss_base_high = 0, tss_base_upper = 0, tss_reserved = 0\<rparr>\<rparr>
      in (g, \<lparr>gdtr_limit = 8 * 11 + 16 - 1, gdtr_base = address\<rparr>))"

section \<open>Interrupt gates\<close>

record idt_entry =
  base_lo :: u16
  sel :: u16
  ist :: u8
  idt_flags :: u8
  base_mid :: u16
  base_hi :: u32
  always0 :: u32

definition idt_entry_new :: idt_entry where
  "idt_entry_new = \<lparr>base_lo = 0, sel = 0, ist = 0, idt_flags = 0, base_mid = 0, base_hi = 0, always0 = 0\<rparr>"

datatype interrupt_index = IrqTimer | IrqKeyboard

fun index_as_u8 :: "interrupt_index \<Rightarrow> u8" where
  "index_as_u8 IrqTimer = 32"
| "index_as_u8 IrqKeyboard = 33"

definition gate_entry :: "usize \<Rightarrow> idt_entry" where
  "gate_entry function_ptr =
     \<lparr>base_lo = ucast (function_ptr AND 0xFFFF), sel = 0x28, ist = 0, idt_flags = 0xEE,
      base_mid = ucast (drop_bit 16 function_ptr AND 0xFFFF), base_hi = ucast (drop_bit 32 function_ptr AND 0xFFFFFFFF), always0 = 0\<rparr>"

definition idt_set_gate :: "u8 \<Rightarrow> usize \<Rightarrow> idt_entry list \<Rightarrow> idt_entry list" where
  "idt_set_gate num function_ptr idt = idt[unat num := gate_entry function_ptr]"

definition idt_init :: "usize \<Rightarrow> usize \<Rightarrow> idt_entry list \<Rightarrow> idt_entry list" where
  "idt_init null_interrupt_handler syscall idt =
     (let cleared = map (\<lambda>_. idt_entry_new) idt;
          filled = fold (\<lambda>num. idt_set_gate (of_nat num) null_interrupt_handler) [0..<256] cleared
      in idt_set_gate 0x80 syscall filled)"

record exception_handlers =
  h_div_error :: usize
  h_invalid_opcode :: usize
  h_double_fault :: usize
  h_general_protection_fault :: usize
  h_page_fault :: usize
  h_generic :: usize

definition exceptions_init :: "exception_handlers \<Rightarrow> idt_entry list \<Rightarrow> idt_entry list" where
  "exceptions_init h idt =
     (let idt = fold (\<lambda>i. idt_set_gate (of_nat i) (h_generic h)) [0..<32] idt;
          idt = idt_set_gate 0x00 (h_div_error h) idt;
          idt = idt_set_gate 0x06 (h_invalid_opcode h) idt;
          idt = idt_set_gate 0x08 (h_double_fault h) idt;
          idt = idt_set_gate 0x0D (h_general_protection_fault h) idt
      in idt_set_gate 0x0E (h_page_fault h) idt)"

section \<open>What the processor does with the tables\<close>

definition gate_address :: "idt_entry \<Rightarrow> usize" where
  "gate_address e = ucast (base_lo e) OR push_bit 16 (ucast (base_mid e)) OR push_bit 32 (ucast (base_hi e))"

text \<open>A present 64-bit interrupt gate.\<close>

definition interrupt_gate :: "idt_entry \<Rightarrow> bool" where
  "interrupt_gate e \<longleftrightarrow> bit (idt_flags e) 7 \<and> idt_flags e AND 0x1F = 0x0E \<and> ist e = 0 \<and> always0 e = 0"

definition selected_descriptor :: "gdt \<Rightarrow> u16 \<Rightarrow> gdt_descriptor option" where
  "selected_descriptor g s = (let i = unat (drop_bit 3 s) in if i < length (descriptors g) then Some (descriptors g ! i) else None)"

text \<open>Present, code, readable, of privilege level \<open>dpl\<close>, and 64-bit without the 32-bit default.\<close>

definition long_code :: "u8 \<Rightarrow> gdt_descriptor \<Rightarrow> bool" where
  "long_code dpl d \<longleftrightarrow> gd_access d = 0x9A OR push_bit 5 dpl \<and> bit (gd_granularity d) 5 \<and> \<not> bit (gd_granularity d) 6"

definition data_segment :: "u8 \<Rightarrow> gdt_descriptor \<Rightarrow> bool" where
  "data_segment dpl d \<longleftrightarrow> gd_access d = 0x92 OR push_bit 5 dpl"

text \<open>The handler the vector \<open>n\<close> leads to.\<close>

definition vector_target :: "usize \<Rightarrow> usize \<Rightarrow> exception_handlers \<Rightarrow> nat \<Rightarrow> usize" where
  "vector_target null_handler syscall h n =
     (if n = 0x80 then syscall else if n = 0x00 then h_div_error h else if n = 0x06 then h_invalid_opcode h
      else if n = 0x08 then h_double_fault h else if n = 0x0D then h_general_protection_fault h
      else if n = 0x0E then h_page_fault h else if n < 32 then h_generic h else null_handler)"

lemma gate_address_entry: "gate_address (gate_entry f) = f"
proof -
  have m: "(0xFFFF :: u64) = mask 16" "(0xFFFFFFFF :: u64) = mask 32" by (simp_all add: mask_eq_exp_minus_1)
  have lo: "bit (ucast (ucast (f AND 0xFFFF) :: u16) :: u64) n \<longleftrightarrow> n < 16 \<and> bit f n" for n
    unfolding m bit_ucast_iff bit_and_iff bit_mask_iff by auto
  have mid: "bit (push_bit 16 (ucast (ucast (drop_bit 16 f AND 0xFFFF) :: u16)) :: u64) n \<longleftrightarrow> 16 \<le> n \<and> n < 32 \<and> bit f n" for n
    unfolding m bit_push_bit_iff bit_ucast_iff bit_and_iff bit_mask_iff bit_drop_bit_eq comp_def by auto
  have hi: "bit (push_bit 32 (ucast (ucast (drop_bit 32 f AND 0xFFFFFFFF) :: u32)) :: u64) n \<longleftrightarrow> 32 \<le> n \<and> n < 64 \<and> bit f n" for n
    using bit_imp_le_length [of f n]
    unfolding m bit_push_bit_iff bit_ucast_iff bit_and_iff bit_mask_iff bit_drop_bit_eq comp_def by auto
  show ?thesis
    unfolding gate_address_def gate_entry_def idt_entry.simps
    by (rule bit_word_eqI) (simp only: bit_or_iff lo mid hi, auto)
qed

lemma fold_gates:
  assumes "n \<le> 256" "length idt = 256" "i < 256"
  shows "fold (\<lambda>k. idt_set_gate (of_nat k) f) [0..<n] idt ! i = (if i < n then gate_entry f else idt ! i)"
    "length (fold (\<lambda>k. idt_set_gate (of_nat k) f) [0..<n] idt) = 256"
  using assms(1)
proof (induction n)
  case (Suc n)
  {
    case 1
    with Suc.IH assms(3) show ?case by (auto simp: idt_set_gate_def unat_of_nat_u8 nth_list_update)
  next
    case 2
    with Suc.IH show ?case by (simp add: idt_set_gate_def)
  }
qed (use assms in simp_all)

lemma set_gate_nth:
  assumes "length idt = 256" "i < 256"
  shows "idt_set_gate num f idt ! i = (if i = unat num then gate_entry f else idt ! i)"
  using assms by (simp add: idt_set_gate_def nth_list_update)

lemma length_set_gate [simp]: "length (idt_set_gate num f idt) = length idt"
  by (simp add: idt_set_gate_def)

lemma idt_init_nth:
  assumes "length idt = 256" "n < 256"
  shows "idt_init null_handler syscall idt ! n = gate_entry (if n = 0x80 then syscall else null_handler)"
    "length (idt_init null_handler syscall idt) = 256"
  using fold_gates [of 256 "map (\<lambda>_. idt_entry_new) idt" n null_handler] assms
  by (simp_all add: idt_init_def Let_def set_gate_nth)

lemma boot_gate_nth:
  assumes "length idt = 256" "n < 256"
  shows "exceptions_init h (idt_init null_handler syscall idt) ! n = gate_entry (vector_target null_handler syscall h n)"
  using fold_gates [of 32 "idt_init null_handler syscall idt" n "h_generic h"] idt_init_nth [OF assms] assms(2)
  by (simp add: exceptions_init_def Let_def set_gate_nth vector_target_def)

text \<open>C22: the tables the processor starts with. After the segment and interrupt tables are built, every one of the 256 vectors is a present interrupt gate that
  leads to the handler meant for it - the system call entry, the handlers of the exceptions, the generic handler or the
  handler of unexpected interrupts - through a selector that names a 64-bit kernel code segment of the table, whose
  data selector names a writable kernel data segment.\<close>

theorem boot_vectors:
  assumes "length idt = 256" "n < 256"
  shows "interrupt_gate (exceptions_init h (idt_init null_handler syscall idt) ! n)
    \<and> gate_address (exceptions_init h (idt_init null_handler syscall idt) ! n) = vector_target null_handler syscall h n
    \<and> (\<exists>code rw. selected_descriptor (fst (gdt_init a)) (sel (exceptions_init h (idt_init null_handler syscall idt) ! n)) = Some code
      \<and> long_code 0 code \<and> selected_descriptor (fst (gdt_init a)) 0x30 = Some rw \<and> data_segment 0 rw)"
proof -
  have "interrupt_gate (gate_entry f)" "sel (gate_entry f) = 0x28" for f
    by (simp_all add: interrupt_gate_def gate_entry_def bit_simps)
  moreover have "\<exists>code. selected_descriptor (fst (gdt_init a)) 0x28 = Some code \<and> long_code 0 code"
    "\<exists>rw. selected_descriptor (fst (gdt_init a)) 0x30 = Some rw \<and> data_segment 0 rw"
    by (simp_all add: selected_descriptor_def gdt_init_def gdt_default_def set_descriptor_def Let_def long_code_def data_segment_def
        bit_simps)
  ultimately show ?thesis
    using boot_gate_nth [OF assms, of h null_handler syscall] gate_address_entry by auto
qed

definition demo_handlers :: exception_handlers where
  "demo_handlers = \<lparr>h_div_error = 0xFFFFFFFF80001000, h_invalid_opcode = 0xFFFFFFFF80002000, h_double_fault = 0xFFFFFFFF80003000,
     h_general_protection_fault = 0xFFFFFFFF80004000, h_page_fault = 0xFFFFFFFF80005000, h_generic = 0xFFFFFFFF80006000\<rparr>"

theorem boot_vectors_witness:
  "gate_address (exceptions_init demo_handlers (idt_init 0xFFFFFFFF80007000 0xFFFFFFFF80008000 (replicate 256 idt_entry_new)) ! 14)
    = 0xFFFFFFFF80005000"
  using boot_vectors [of "replicate 256 idt_entry_new" 14 demo_handlers "0xFFFFFFFF80007000" "0xFFFFFFFF80008000"]
  by (simp add: vector_target_def demo_handlers_def)

end
