(* ===== verification/Apic.thy ===== *)
theory Apic
  imports Acpi Interrupts Console
begin

text \<open>
  The interrupt controllers, \<^verbatim>\<open>src/arch/x86_64/interrupts/apic.rs\<close>, and the start of ACPI that sets them up
  (\<^verbatim>\<open>init_acpi\<close> of \<^verbatim>\<open>src/drivers/acpi.rs\<close>). The registers of the controllers, which the code reaches through volatile
  accesses to memory, and the model-specific registers are a device argument; \<^verbatim>\<open>cpuid\<close> and the answer of the boot loader
  about the processors are arguments, too. The log output is left out.
\<close>

section \<open>The machine\<close>

record 'd apic_hw =
  mmio_read :: "usize \<Rightarrow> 'd \<Rightarrow> u32 \<times> 'd"
  mmio_write :: "usize \<Rightarrow> u32 \<Rightarrow> 'd \<Rightarrow> 'd"
  rdmsr :: "u32 \<Rightarrow> 'd \<Rightarrow> (u32 \<times> u32) \<times> 'd"
  wrmsr :: "u32 \<Rightarrow> u32 \<Rightarrow> u32 \<Rightarrow> 'd \<Rightarrow> 'd"

text \<open>The flag that the processor has model-specific registers; nothing in the kernel asks for it.\<close>

definition cpu_has_msr :: "(u32 \<Rightarrow> u32 \<Rightarrow> cpuid_result) \<Rightarrow> bool" where
  "cpu_has_msr cpuid \<longleftrightarrow> edx (cpuid 1 0) AND push_bit 5 1 \<noteq> 0"

definition cpu_get_msr :: "'d apic_hw \<Rightarrow> u32 \<Rightarrow> 'd \<Rightarrow> (u32 \<times> u32) \<times> 'd" where
  "cpu_get_msr mm msr d = rdmsr mm msr d"

definition cpu_set_msr :: "'d apic_hw \<Rightarrow> u32 \<Rightarrow> u32 \<Rightarrow> u32 \<Rightarrow> 'd \<Rightarrow> 'd" where
  "cpu_set_msr mm msr lo hi d = wrmsr mm msr lo hi d"

text \<open>What the boot loader reports about the processors: the entry address is where a waiting processor starts.\<close>

record smp_cpu =
  cpu_id :: u32
  goto_address :: "usize option"

record smp_response =
  bsp_lapic_id :: u32
  smp_cpus :: "smp_cpu list"

section \<open>Tables\<close>

record madt =
  local_apic_address :: u32
  madt_flags :: u32

definition madt_at :: "memory \<Rightarrow> usize \<Rightarrow> madt" where
  "madt_at m a = \<lparr>local_apic_address = read_word m a 4, madt_flags = read_word m (a + 4) 4\<rparr>"

definition IA32_APIC_BASE_MSR :: u32 where "IA32_APIC_BASE_MSR = 0x1B"

definition IA32_APIC_BASE_MSR_ENABLE :: usize where "IA32_APIC_BASE_MSR_ENABLE = 0x800"

definition has_apic :: "(u32 \<Rightarrow> u32 \<Rightarrow> cpuid_result) \<Rightarrow> bool" where
  "has_apic cpuid \<longleftrightarrow> edx (cpuid 1 0) AND push_bit 9 1 \<noteq> 0"

definition set_apic_base :: "'d apic_hw \<Rightarrow> usize \<Rightarrow> 'd \<Rightarrow> 'd" where
  "set_apic_base mm apic d =
     (let eax = (apic AND 0xFFFFF0000) OR IA32_APIC_BASE_MSR_ENABLE in cpu_set_msr mm IA32_APIC_BASE_MSR (ucast eax) 0 d)"

definition get_apic_base :: "'d apic_hw \<Rightarrow> 'd \<Rightarrow> u32 \<times> 'd" where
  "get_apic_base mm d = (let ((eax, edx), d1) = cpu_get_msr mm IA32_APIC_BASE_MSR d in (eax AND 0xFFFFF000, d1))"

record lapic =
  acpi_processor_id :: u8
  apic_id :: u8
  lapic_flags :: u32

definition lapic_at :: "memory \<Rightarrow> usize \<Rightarrow> lapic" where
  "lapic_at m a = \<lparr>acpi_processor_id = m a, apic_id = m (a + 1), lapic_flags = read_word m (a + 2) 4\<rparr>"

record ioapic =
  ioapic_id :: u8
  ioapic_reserved :: u8
  ioapic_ptr :: usize
  global_interrupt_base :: u32

record ioapic_source_override =
  bus_source :: u8
  irq_source :: u8
  global_system_interrupt :: u32
  override_flags :: u16

record apic =
  io_apic :: ioapic
  local_apic :: usize
  apic_cpus :: "lapic list"

section \<open>The list of controllers\<close>

text \<open>The variables of the loop in \<^verbatim>\<open>APIC::new\<close>.\<close>

record madt_state =
  ms_cpus :: "lapic list"
  ms_lapic_ptr :: usize
  ms_io_apic :: "ioapic option"
  ms_override :: "ioapic_source_override option"

definition madt_entry :: "memory \<Rightarrow> usize \<Rightarrow> usize \<Rightarrow> madt_state \<Rightarrow> madt_state" where
  "madt_entry m hhdm_offset p st =
     (if m p = 0 then (if m (p + 4) AND 1 \<noteq> 0 then st\<lparr>ms_cpus := ms_cpus st @ [lapic_at m (p + 2)]\<rparr> else st)
      else if m p = 1 then
        st\<lparr>ms_io_apic := Some \<lparr>ioapic_id = m (p + 2), ioapic_reserved = m (p + 3),
             ioapic_ptr = ucast (read_word m (p + 4) 4 :: u32) + hhdm_offset, global_interrupt_base = read_word m (p + 8) 4\<rparr>\<rparr>
      else if m p = 2 then
        st\<lparr>ms_override := Some \<lparr>bus_source = m (p + 2), irq_source = m (p + 3), global_system_interrupt = read_word m (p + 4) 4,
             override_flags = read_word m (p + 8) 2\<rparr>\<rparr>
      else if m p = 5 then st\<lparr>ms_lapic_ptr := read_word m (p + 4) 8 + hhdm_offset\<rparr>
      else st)"

partial_function (option) madt_loop :: "memory \<Rightarrow> usize \<Rightarrow> usize \<Rightarrow> usize \<Rightarrow> madt_state \<Rightarrow> madt_state option" where
  "madt_loop m hhdm_offset p ptr_end st =
     (if p < ptr_end then madt_loop m hhdm_offset (p + ucast (m (p + 1))) ptr_end (madt_entry m hhdm_offset p st) else Some st)"

section \<open>Registers of the controllers\<close>

definition read_ioapic :: "'d apic_hw \<Rightarrow> apic \<Rightarrow> u32 \<Rightarrow> 'd \<Rightarrow> u32 \<times> 'd" where
  "read_ioapic mm a reg d =
     (let p = ioapic_ptr (io_apic a) in
      mmio_read mm (virtual_addr (virtual_add 4 (VirtualPtr p) 4)) (mmio_write mm p (reg AND 0xFF) d))"

definition write_ioapic :: "'d apic_hw \<Rightarrow> apic \<Rightarrow> u32 \<Rightarrow> u32 \<Rightarrow> 'd \<Rightarrow> 'd" where
  "write_ioapic mm a reg value d =
     (let p = ioapic_ptr (io_apic a) in
      mmio_write mm (virtual_addr (virtual_add 4 (VirtualPtr p) 4)) value (mmio_write mm p (reg AND 0xFF) d))"

definition read_lapic :: "'d apic_hw \<Rightarrow> apic \<Rightarrow> u32 \<Rightarrow> 'd \<Rightarrow> u32 \<times> 'd" where
  "read_lapic mm a reg d = mmio_read mm (local_apic a + ucast reg) d"

definition write_lapic :: "'d apic_hw \<Rightarrow> apic \<Rightarrow> u32 \<Rightarrow> u32 \<Rightarrow> 'd \<Rightarrow> 'd" where
  "write_lapic mm a reg value d = mmio_write mm (local_apic a + ucast reg) value d"

definition lapic_send_ipi :: "'d apic_hw \<Rightarrow> apic \<Rightarrow> u32 \<Rightarrow> u32 \<Rightarrow> 'd \<Rightarrow> 'd" where
  "lapic_send_ipi mm a dest_id vec d = write_lapic mm a 0x300 vec (write_lapic mm a 0x310 (push_bit 24 dest_id) d)"

definition set_interrupt :: "'d apic_hw \<Rightarrow> apic \<Rightarrow> u8 \<Rightarrow> u8 \<Rightarrow> 'd \<Rightarrow> 'd" where
  "set_interrupt mm a int_num redirtion_num d =
     (let retbl_offset = 0x10 + (ucast int_num * 2);
          r = read_ioapic mm a retbl_offset d;
          interrupts_vt = ((fst r AND 0x7FFF) AND 0xFF00) OR (0x20 + ucast redirtion_num)
      in write_ioapic mm a retbl_offset interrupts_vt (snd r))"

definition end_of_interrupt :: "'d apic_hw \<Rightarrow> apic \<Rightarrow> 'd \<Rightarrow> 'd" where
  "end_of_interrupt mm a d = write_lapic mm a 0xB0 0x00 d"

text \<open>Through the global \<^verbatim>\<open>APIC\<close>, which panics as long as it is not set.\<close>

definition signal_end_of_interrupt :: "'d apic_hw \<Rightarrow> apic once_cell_state cell \<Rightarrow> 'd \<Rightarrow> 'd res" where
  "signal_end_of_interrupt mm apic_cell d = rbind (once_get_unchecked apic_cell) (\<lambda>a. Inr (end_of_interrupt mm a d))"

definition disable_pic :: "'d ports \<Rightarrow> 'd \<Rightarrow> 'd" where
  "disable_pic hw d =
     outb_all hw
       [(0x20, 0x11), (0xA0, 0x11), (0x21, 0x20), (0xA1, 0x28), (0x21, 0x04), (0xA1, 0x02), (0x21, 0x01), (0xA1, 0x01),
        (0x21, 0xFF), (0xA1, 0xFF)] d"

section \<open>Start\<close>

definition start_cpus :: "usize \<Rightarrow> smp_response \<Rightarrow> smp_response" where
  "start_cpus test s =
     s\<lparr>smp_cpus := map (\<lambda>cpu. if cpu_id cpu = bsp_lapic_id s then cpu else cpu\<lparr>goto_address := Some test\<rparr>) (smp_cpus s)\<rparr>"

definition apic_start :: "'d apic_hw \<Rightarrow> apic \<Rightarrow> smp_response option \<Rightarrow> usize \<Rightarrow> 'd \<Rightarrow> ('d, apic \<times> smp_response) io" where
  "apic_start mm a smp test d =
     (let r = read_lapic mm a 0xF0 d;
          d1 = write_lapic mm a 0xF0 (fst r OR 0x100) (snd r);
          d2 = snd (read_ioapic mm a 0x01 d1)
      in case smp of
           None \<Rightarrow> Some (Inl (Panic AssertFailed), d2)
         | Some s \<Rightarrow> Some (Inr (a, start_cpus test s), set_interrupt mm a 0x01 0x01 d2))"

definition apic_new ::
    "'d ports \<Rightarrow> 'd apic_hw \<Rightarrow> (u32 \<Rightarrow> u32 \<Rightarrow> cpuid_result) \<Rightarrow> memory \<Rightarrow> usize \<Rightarrow> acpi once_cell_state cell \<Rightarrow>
     smp_response option \<Rightarrow> usize \<Rightarrow> 'd \<Rightarrow> ('d, apic \<times> smp_response) io" where
  "apic_new hw mm cpuid m hhdm_offset acpi smp test d =
     (let d1 = disable_pic hw d in
      if \<not> has_apic cpuid then Some (Inl ErrUnit, d1)
      else
        let (apic_base, d2) = get_apic_base mm d1;
            d3 = set_apic_base mm (ucast apic_base) d2
        in case find_table 8 madt_at m hhdm_offset acpi sig_apic of
             Inl e \<Rightarrow> Some (Inl e, d3)
           | Inr None \<Rightarrow> Some (Inl ErrUnit, d3)
           | Inr (Some madt) \<Rightarrow>
               case sdt_extra madt of
                 None \<Rightarrow> Some (Inl (Panic UnwrapFailed), d3)
               | Some (p, _) \<Rightarrow>
                   let ptr_end = p + (ucast (sdt_length (sdt_head madt)) - 44);
                       lapic_ptr = ucast (local_apic_address (sdt_inner madt)) + hhdm_offset
                   in Option.bind
                        (madt_loop m hhdm_offset p ptr_end \<lparr>ms_cpus = [], ms_lapic_ptr = lapic_ptr, ms_io_apic = None, ms_override = None\<rparr>)
                        (\<lambda>st. case (ms_io_apic st, ms_override st) of
                             (Some io, Some _) \<Rightarrow>
                               apic_start mm \<lparr>io_apic = io, local_apic = ms_lapic_ptr st, apic_cpus = ms_cpus st\<rparr> smp test d3
                           | _ \<Rightarrow> Some (Inl ErrUnit, d3)))"

partial_function (option) wait_acpi :: "'d ports \<Rightarrow> u16 \<Rightarrow> 'd \<Rightarrow> 'd option" where
  "wait_acpi hw port d = (let r = inw hw port d in if fst r AND 1 = 0 then wait_acpi hw port (snd r) else Some (snd r))"

text \<open>The cells of the tables and of the controllers, and the processors with their entry addresses.\<close>

definition init_acpi ::
    "'d ports \<Rightarrow> 'd apic_hw \<Rightarrow> (u32 \<Rightarrow> u32 \<Rightarrow> cpuid_result) \<Rightarrow> memory \<Rightarrow> usize \<Rightarrow> usize option \<Rightarrow> smp_response option \<Rightarrow> usize \<Rightarrow>
     acpi once_cell_state cell \<Rightarrow> apic once_cell_state cell \<Rightarrow> 'd \<Rightarrow>
     ('d, acpi once_cell_state cell \<times> apic once_cell_state cell \<times> smp_response) io" where
  "init_acpi hw mm cpuid m hhdm_offset rsdp_ptr smp test acpi_cell apic_cell d =
     (case resolve_acpi m hhdm_offset rsdp_ptr acpi_cell of
        Inl e \<Rightarrow> Some (Inl e, d)
      | Inr acpi \<Rightarrow>
          case find_table 145 fadt_at m hhdm_offset acpi sig_facp of
            Inl e \<Rightarrow> Some (Inl e, d)
          | Inr None \<Rightarrow> Some (Inl (Panic UnwrapFailed), d)
          | Inr (Some fadt) \<Rightarrow>
              let d1 = outb hw (ucast (smi_cmd_port (sdt_inner fadt))) (acpi_enable (sdt_inner fadt)) d in
              Option.bind (wait_acpi hw (ucast (pm1a_control_block (sdt_inner fadt))) d1) (\<lambda>d2.
                io_bind (io_expect (apic_new hw mm cpuid m hhdm_offset acpi smp test d2)) (\<lambda>(a, s) d3.
                  case once_set apic_cell a of
                    Inl e \<Rightarrow> Some (Inl e, d3)
                  | Inr c \<Rightarrow> Some (Inr (acpi, c, s), d3))))"

section \<open>Entries of the table\<close>

text \<open>The records of the table as the firmware writes them.\<close>

datatype madt_record = Local_Apic u8 u8 u32 | Io_Apic u8 u8 u32 u32 | Source_Override u8 u8 u32 u16 | Lapic_Address u64
  | Other_Record u8 "u8 list"

fun madt_encode :: "madt_record \<Rightarrow> u8 list" where
  "madt_encode (Local_Apic p i f) = [0, 8, p, i] @ to_le 4 (unat f)"
| "madt_encode (Io_Apic i r a g) = [1, 12, i, r] @ to_le 4 (unat a) @ to_le 4 (unat g)"
| "madt_encode (Source_Override b i g f) = [2, 10, b, i] @ to_le 4 (unat g) @ to_le 2 (unat f)"
| "madt_encode (Lapic_Address a) = [5, 12, 0, 0] @ to_le 8 (unat a)"
| "madt_encode (Other_Record t bs) = t # of_nat (2 + length bs) # bs"

fun madt_record_ok :: "madt_record \<Rightarrow> bool" where
  "madt_record_ok (Other_Record t bs) \<longleftrightarrow> t \<notin> {0, 1, 2, 5} \<and> length bs + 2 < 256"
| "madt_record_ok _ \<longleftrightarrow> True"

text \<open>What a record means: enabled processors are listed in order, of the other kinds the last one counts.\<close>

fun madt_effect :: "usize \<Rightarrow> madt_record \<Rightarrow> madt_state \<Rightarrow> madt_state" where
  "madt_effect hhdm (Local_Apic p i f) st =
     (if bit f 0 then st\<lparr>ms_cpus := ms_cpus st @ [\<lparr>acpi_processor_id = p, apic_id = i, lapic_flags = f\<rparr>]\<rparr> else st)"
| "madt_effect hhdm (Io_Apic i r a g) st =
     st\<lparr>ms_io_apic := Some \<lparr>ioapic_id = i, ioapic_reserved = r, ioapic_ptr = ucast a + hhdm, global_interrupt_base = g\<rparr>\<rparr>"
| "madt_effect hhdm (Source_Override b i g f) st =
     st\<lparr>ms_override := Some \<lparr>bus_source = b, irq_source = i, global_system_interrupt = g, override_flags = f\<rparr>\<rparr>"
| "madt_effect hhdm (Lapic_Address a) st = st\<lparr>ms_lapic_ptr := a + hhdm\<rparr>"
| "madt_effect hhdm (Other_Record t bs) st = st"

lemma mem_byte:
  assumes "mem_read m a n = bs" "i < n"
  shows "m (a + of_nat i) = bs ! i"
  using assms by (auto simp: mem_read_def)

lemma read_word_bytes:
  fixes w :: "'w::len word"
  assumes "mem_read m a n = pre @ to_le k (unat w) @ post" "length pre = i" "i + k \<le> n" "LENGTH('w) = 8 * k"
  shows "read_word m (a + of_nat i) k = w"
  using read_word_part [OF assms(3), of m a, where 'a = 'w] assms(1,2) le_val_to_le_unat [OF assms(4), of w] by simp

lemma low_byte_odd: "(of_nat (unat f) :: u8) AND 1 \<noteq> 0 \<longleftrightarrow> bit f 0" for f :: u32
proof -
  have "bit (of_nat (unat f) :: u8) 0 \<longleftrightarrow> bit f 0" unfolding of_nat_unat bit_ucast_iff by simp
  then show ?thesis by (simp add: and_one_eq bit_0 odd_iff_mod_2_eq_one)
qed

lemma to_le_first: "0 < k \<Longrightarrow> to_le k n ! 0 = of_nat n"
  by (cases k) simp_all

lemma madt_entry_effect:
  assumes "madt_record_ok r" "mem_read m a (length (madt_encode r)) = madt_encode r"
  shows "madt_entry m hhdm a st = madt_effect hhdm r st"
proof -
  note byte = mem_byte [OF assms(2)]
  show ?thesis
  proof (cases r)
    case (Local_Apic p i f)
    have "read_word m (a + of_nat 4) 4 = f"
      using assms(2) Local_Apic by (intro read_word_bytes [where pre = "[0, 8, p, i]" and post = "[]" and n = 8]) simp_all
    then show ?thesis
      using byte [of 0] byte [of 2] byte [of 3] byte [of 4] Local_Apic low_byte_odd [of f]
      by (simp add: madt_entry_def lapic_at_def to_le_first add.assoc)
  next
    case (Io_Apic i r' b g)
    have "read_word m (a + of_nat 4) 4 = b"
      using assms(2) Io_Apic by (intro read_word_bytes [where pre = "[1, 12, i, r']" and post = "to_le 4 (unat g)" and n = 12]) simp_all
    moreover have "read_word m (a + of_nat 8) 4 = g"
      using assms(2) Io_Apic by (intro read_word_bytes [where pre = "[1, 12, i, r'] @ to_le 4 (unat b)" and post = "[]" and n = 12]) simp_all
    ultimately show ?thesis
      using byte [of 0] byte [of 2] byte [of 3] Io_Apic by (simp add: madt_entry_def)
  next
    case (Source_Override b i g f)
    have "read_word m (a + of_nat 4) 4 = g"
      using assms(2) Source_Override by (intro read_word_bytes [where pre = "[2, 10, b, i]" and post = "to_le 2 (unat f)" and n = 10]) simp_all
    moreover have "read_word m (a + of_nat 8) 2 = f"
      using assms(2) Source_Override by (intro read_word_bytes [where pre = "[2, 10, b, i] @ to_le 4 (unat g)" and post = "[]" and n = 10]) simp_all
    ultimately show ?thesis
      using byte [of 0] byte [of 2] byte [of 3] Source_Override by (simp add: madt_entry_def)
  next
    case (Lapic_Address b)
    have "read_word m (a + of_nat 4) 8 = b"
      using assms(2) Lapic_Address by (intro read_word_bytes [where pre = "[5, 12, 0, 0]" and post = "[]" and n = 12]) simp_all
    then show ?thesis
      using byte [of 0] Lapic_Address by (simp add: madt_entry_def)
  next
    case (Other_Record t bs)
    then show ?thesis using byte [of 0] assms(1) by (simp add: madt_entry_def)
  qed
qed

lemma madt_record_length:
  assumes "madt_record_ok r"
  shows "2 \<le> length (madt_encode r)" "unat (madt_encode r ! 1) = length (madt_encode r)"
proof -
  have "2 \<le> length (madt_encode r) \<and> unat (madt_encode r ! 1) = length (madt_encode r)"
  proof (cases r)
    case (Other_Record t bs)
    then have "madt_encode r ! 1 = of_nat (2 + length bs)" "length (madt_encode r) = 2 + length bs" by simp_all
    moreover have "2 + length bs < 256" using assms Other_Record by simp
    ultimately show ?thesis by (simp only: unat_of_nat_u8) simp
  qed simp_all
  then show "2 \<le> length (madt_encode r)" "unat (madt_encode r ! 1) = length (madt_encode r)" by simp_all
qed

lemma mem_read_append:
  "mem_read m a (length xs + length ys) = xs @ ys \<longleftrightarrow> mem_read m a (length xs) = xs \<and> mem_read m (a + of_nat (length xs)) (length ys) = ys"
proof -
  have "mem_read m a (length xs + length ys) = mem_read m a (length xs) @ mem_read m (a + of_nat (length xs)) (length ys)"
    by (intro nth_equalityI) (auto simp: mem_read_def nth_append)
  then show ?thesis by simp
qed

lemma madt_loop_records:
  assumes "\<forall>r \<in> set rs. madt_record_ok r" "mem_read m a (length (concat (map madt_encode rs))) = concat (map madt_encode rs)"
    "unat a + length (concat (map madt_encode rs)) < 2 ^ 64"
  shows "madt_loop m hhdm a (a + of_nat (length (concat (map madt_encode rs)))) st = Some (fold (madt_effect hhdm) rs st)"
  using assms
proof (induction rs arbitrary: a st)
  case Nil
  then show ?case by (subst madt_loop.simps) simp
next
  case (Cons r rs)
  let ?n = "length (madt_encode r)" and ?k = "length (concat (map madt_encode rs))"
  have ok: "madt_record_ok r" using Cons.prems by simp
  have r: "mem_read m a ?n = madt_encode r" "mem_read m (a + of_nat ?n) ?k = concat (map madt_encode rs)"
    using Cons.prems(2) mem_read_append [of m a "madt_encode r" "concat (map madt_encode rs)"] by simp_all
  have n: "2 \<le> ?n" "unat (m (a + 1)) = ?n"
    using madt_record_length [OF ok] mem_byte [OF r(1), of 1] by simp_all
  then have step: "a + ucast (m (a + 1)) = a + of_nat ?n" by (metis of_nat_unat unat_ucast_up)
  have small: "unat a + (?n + ?k) < 2 ^ 64" using Cons.prems(3) by simp
  then have u: "unat (a + of_nat (?n + ?k)) = unat a + (?n + ?k)" "unat (a + of_nat ?n) = unat a + ?n"
    by (simp_all add: unat_word_ariths unat_of_nat)
  have "a < a + of_nat (?n + ?k)" unfolding word_less_nat_alt u(1) using n(1) by linarith
  moreover have "madt_loop m hhdm (a + of_nat ?n) (a + of_nat ?n + of_nat ?k) (madt_effect hhdm r st)
      = Some (fold (madt_effect hhdm) rs (madt_effect hhdm r st))"
    using Cons.IH [of "a + of_nat ?n"] Cons.prems r u small by simp
  ultimately show ?case
    using step madt_entry_effect [OF ok r(1)] by (subst madt_loop.simps) (simp add: add.assoc)
qed

text \<open>A record of length 0 keeps the loop at its place for ever.\<close>

theorem empty_record_hangs:
  assumes "p < ptr_end" "m (p + 1) = 0"
  shows "madt_loop m hhdm p ptr_end st = None"
proof -
  have "madt_loop m hhdm p ptr_end st = Some r \<Longrightarrow> False" for r
  proof (erule madt_loop.raw_induct [rotated, where P = "\<lambda>m' h q e s y. \<not> (m' = m \<and> q = p \<and> e = ptr_end)", THEN notE])
    fix f m' h q e s y
    assume IH: "\<And>m' h q e s y. f m' h q e s = Some y \<Longrightarrow> \<not> (m' = m \<and> q = p \<and> e = ptr_end)"
      and run: "(if q < e then f m' h (q + ucast (m' (q + 1))) e (madt_entry m' h q s) else Some s) = Some y"
    show "\<not> (m' = m \<and> q = p \<and> e = ptr_end)"
    proof
      assume "m' = m \<and> q = p \<and> e = ptr_end"
      with run assms IH [of m h p ptr_end "madt_entry m h p s" y] show False by simp
    qed
  qed simp_all
  then show ?thesis by (cases "madt_loop m hhdm p ptr_end st") auto
qed

section \<open>Interrupts reach the processor\<close>

text \<open>
  An I/O controller at \<open>a\<close> with an index and a data register: \<open>pick\<close> is the selected register and \<open>regs\<close> their contents. Of
  the low words of the redirection entries the two status bits cannot be written.
\<close>

definition io_apic_window :: "'d apic_hw \<Rightarrow> usize \<Rightarrow> ('d \<Rightarrow> u32) \<Rightarrow> ('d \<Rightarrow> u32 \<Rightarrow> u32) \<Rightarrow> bool" where
  "io_apic_window mm a pick regs \<longleftrightarrow>
     (\<forall>d v. pick (mmio_write mm a v d) = v \<and> regs (mmio_write mm a v d) = regs d)
   \<and> (\<forall>d v. pick (mmio_write mm (a + 16) v d) = pick d
        \<and> (\<forall>r. r \<noteq> pick d \<longrightarrow> regs (mmio_write mm (a + 16) v d) r = regs d r)
        \<and> (pick d \<ge> 0x10 \<and> even (pick d) \<longrightarrow> regs (mmio_write mm (a + 16) v d) (pick d) AND 0x1AFFF = v AND 0x1AFFF))
   \<and> (\<forall>d. fst (mmio_read mm (a + 16) d) = regs d (pick d) \<and> pick (snd (mmio_read mm (a + 16) d)) = pick d
        \<and> regs (snd (mmio_read mm (a + 16) d)) = regs d)"

text \<open>The spurious interrupt register \<open>svr\<close> of a local controller at \<open>l\<close>, which the I/O controller at \<open>a\<close> does not touch.\<close>

definition local_apic_register :: "'d apic_hw \<Rightarrow> usize \<Rightarrow> usize \<Rightarrow> ('d \<Rightarrow> u32) \<Rightarrow> bool" where
  "local_apic_register mm l a svr \<longleftrightarrow>
     (\<forall>d v. svr (mmio_write mm (l + 0xF0) v d) = v)
   \<and> (\<forall>d v. svr (mmio_write mm a v d) = svr d \<and> svr (mmio_write mm (a + 16) v d) = svr d)
   \<and> (\<forall>d. svr (snd (mmio_read mm (a + 16) d)) = svr d)"

lemma redirection_value: "(((x AND 0x7FFF) AND 0xFF00) OR (0x20 + 1)) AND 0x100FF = (0x21 :: u32)"
proof -
  have "((x AND 0x7FFF) AND 0xFF00) AND 0x100FF = x AND (0x7FFF AND (0xFF00 AND 0x100FF))" by (simp only: and.assoc)
  also have "\<dots> = 0" by simp
  finally show ?thesis by (simp only: bit.conj_disj_distrib2) simp
qed

lemma keyboard_entry:
  assumes "io_apic_window mm (ioapic_ptr (io_apic a)) pick regs"
  shows "regs (set_interrupt mm a 1 1 d) 0x12 AND 0x100FF = 0x21"
    and "r \<noteq> 0x12 \<Longrightarrow> regs (set_interrupt mm a 1 1 d) r = regs d r"
proof -
  let ?p = "ioapic_ptr (io_apic a)"
  define d1 where "d1 = snd (mmio_read mm (?p + 16) (mmio_write mm ?p 0x12 d))"
  define v where "v = ((fst (mmio_read mm (?p + 16) (mmio_write mm ?p 0x12 d)) AND 0x7FFF) AND 0xFF00) OR (0x20 + 1)"
  have run: "set_interrupt mm a 1 1 d = mmio_write mm (?p + 16) v (mmio_write mm ?p 0x12 d1)"
    by (simp add: set_interrupt_def read_ioapic_def write_ioapic_def Let_def d1_def v_def)
  have p: "pick (mmio_write mm ?p 0x12 d1) = 0x12" and r: "regs (mmio_write mm ?p 0x12 d1) = regs d"
    using assms by (simp_all add: io_apic_window_def d1_def)
  have "pick e \<ge> 0x10 \<and> even (pick e) \<Longrightarrow> regs (mmio_write mm (?p + 16) v e) (pick e) AND 0x1AFFF = v AND 0x1AFFF" for e
    using assms by (simp add: io_apic_window_def)
  from this [of "mmio_write mm ?p 0x12 d1"] have "regs (set_interrupt mm a 1 1 d) 0x12 AND 0x1AFFF = v AND 0x1AFFF"
    unfolding p run by simp
  then have "(regs (set_interrupt mm a 1 1 d) 0x12 AND 0x1AFFF) AND 0x100FF = (v AND 0x1AFFF) AND 0x100FF" by simp
  moreover have "(0x1AFFF :: u32) AND 0x100FF = 0x100FF" by simp
  ultimately have "regs (set_interrupt mm a 1 1 d) 0x12 AND 0x100FF = v AND 0x100FF" by (simp only: and.assoc)
  then show "regs (set_interrupt mm a 1 1 d) 0x12 AND 0x100FF = 0x21" by (simp only: v_def redirection_value)
  show "r \<noteq> 0x12 \<Longrightarrow> regs (set_interrupt mm a 1 1 d) r = regs d r"
    using assms p r run by (simp add: io_apic_window_def)
qed

lemma enabled_svr:
  assumes "local_apic_register mm (local_apic a) (ioapic_ptr (io_apic a)) svr"
    "apic_start mm a (Some smp) test d = Some (Inr x, d')"
  shows "bit (svr d') 8"
proof -
  have keep: "svr (snd (read_ioapic mm a r e)) = svr e" "svr (write_ioapic mm a r w e) = svr e" for r w e
    using assms(1) by (simp_all add: local_apic_register_def read_ioapic_def write_ioapic_def Let_def)
  have "svr d' = fst (read_lapic mm a 0xF0 d) OR 0x100"
    using assms by (auto simp: apic_start_def Let_def set_interrupt_def keep write_lapic_def local_apic_register_def)
  then show ?thesis by (simp add: bit_or_iff bit_simps)
qed

text \<open>The state of the loop before the first record.\<close>

definition madt_start :: "usize \<Rightarrow> madt \<Rightarrow> madt_state" where
  "madt_start hhdm t = \<lparr>ms_cpus = [], ms_lapic_ptr = ucast (local_apic_address t) + hhdm, ms_io_apic = None, ms_override = None\<rparr>"

lemma apic_new_scan:
  assumes "has_apic cpuid" "find_table 8 madt_at m hhdm acpi sig_apic = Inr (Some t)"
    and "\<forall>r \<in> set rs. madt_record_ok r" "mem_read m b (length (concat (map madt_encode rs))) = concat (map madt_encode rs)"
    and "sdt_extra t = Some (b, length (concat (map madt_encode rs)))"
    and "unat (sdt_length (sdt_head t)) = 44 + length (concat (map madt_encode rs))"
    and "unat b + length (concat (map madt_encode rs)) < 2 ^ 64"
    and "st = fold (madt_effect hhdm) rs (madt_start hhdm (sdt_inner t))"
  shows "\<exists>e. apic_new hw mm cpuid m hhdm acpi smp test d = (case (ms_io_apic st, ms_override st) of
      (Some io, Some _) \<Rightarrow> apic_start mm \<lparr>io_apic = io, local_apic = ms_lapic_ptr st, apic_cpus = ms_cpus st\<rparr> smp test e
    | _ \<Rightarrow> Some (Inl ErrUnit, e))"
proof -
  let ?n = "length (concat (map madt_encode rs))"
  have "(ucast (sdt_length (sdt_head t)) :: usize) = of_nat (44 + ?n)" using assms(6) by (metis of_nat_unat unat_ucast_up)
  then have "ucast (sdt_length (sdt_head t)) - 44 = (of_nat ?n :: usize)" by simp
  with madt_loop_records [OF assms(3,4,7), of hhdm "madt_start hhdm (sdt_inner t)"]
  have run: "madt_loop m hhdm b (b + (ucast (sdt_length (sdt_head t)) - 44)) (madt_start hhdm (sdt_inner t)) = Some st"
    using assms(8) by simp
  show ?thesis
    using assms(1,2,5) run
    by (intro exI [of _ "set_apic_base mm (ucast (fst (get_apic_base mm (disable_pic hw d)))) (snd (get_apic_base mm (disable_pic hw d)))"])
      (simp add: apic_new_def Let_def split_beta madt_start_def)
qed

text \<open>The enabled processors among the records.\<close>

fun enabled_cpus :: "madt_record list \<Rightarrow> lapic list" where
  "enabled_cpus [] = []"
| "enabled_cpus (Local_Apic p i f # rs) =
     (if bit f 0 then \<lparr>acpi_processor_id = p, apic_id = i, lapic_flags = f\<rparr> # enabled_cpus rs else enabled_cpus rs)"
| "enabled_cpus (_ # rs) = enabled_cpus rs"

lemma fold_cpus: "ms_cpus (fold (madt_effect hhdm) rs st) = ms_cpus st @ enabled_cpus rs"
  by (induction rs arbitrary: st rule: enabled_cpus.induct) simp_all

text \<open>C21: the interrupt controllers are started. For a table of well-formed records, the start returns. Without an I/O controller or a source override among
  the records it reports an error. Otherwise it succeeds with the enabled processors in table order, the last I/O
  controller and the local controller the table names; the keyboard line then raises the vector of the keyboard
  gate and is not masked, the local controller is switched on, and all processors but the first one get an entry address.\<close>

theorem apic_new_starts:
  assumes "has_apic cpuid" "find_table 8 madt_at m hhdm acpi sig_apic = Inr (Some t)"
    and "\<forall>r \<in> set rs. madt_record_ok r" "mem_read m b (length (concat (map madt_encode rs))) = concat (map madt_encode rs)"
    and "sdt_extra t = Some (b, length (concat (map madt_encode rs)))"
    and "unat (sdt_length (sdt_head t)) = 44 + length (concat (map madt_encode rs))"
    and "unat b + length (concat (map madt_encode rs)) < 2 ^ 64"
    and "st = fold (madt_effect hhdm) rs (madt_start hhdm (sdt_inner t))"
    and "\<And>io. ms_io_apic st = Some io \<Longrightarrow>
      io_apic_window mm (ioapic_ptr io) pick regs \<and> local_apic_register mm (ms_lapic_ptr st) (ioapic_ptr io) svr"
  shows "\<exists>r d'. apic_new hw mm cpuid m hhdm acpi (Some smp) test d = Some (r, d')
    \<and> (case (ms_io_apic st, ms_override st) of
         (Some io, Some _) \<Rightarrow>
           r = Inr (\<lparr>io_apic = io, local_apic = ms_lapic_ptr st, apic_cpus = enabled_cpus rs\<rparr>, start_cpus test smp)
           \<and> regs d' 0x12 AND 0x100FF = ucast (index_as_u8 IrqKeyboard) \<and> bit (svr d') 8
       | _ \<Rightarrow> r = Inl ErrUnit)"
proof -
  obtain e where run: "apic_new hw mm cpuid m hhdm acpi (Some smp) test d = (case (ms_io_apic st, ms_override st) of
      (Some io, Some _) \<Rightarrow> apic_start mm \<lparr>io_apic = io, local_apic = ms_lapic_ptr st, apic_cpus = ms_cpus st\<rparr> (Some smp) test e
    | _ \<Rightarrow> Some (Inl ErrUnit, e))"
    using apic_new_scan [OF assms(1-8), of hw mm "Some smp" test d] by (rule exE)
  have cpus: "ms_cpus st = enabled_cpus rs" using assms(8) by (simp add: fold_cpus madt_start_def)
  show ?thesis
  proof (cases "ms_io_apic st")
    case (Some io)
    let ?a = "\<lparr>io_apic = io, local_apic = ms_lapic_ptr st, apic_cpus = enabled_cpus rs\<rparr>"
    obtain d1 where s: "apic_start mm ?a (Some smp) test e = Some (Inr (?a, start_cpus test smp), set_interrupt mm ?a 1 1 d1)"
      by (simp add: apic_start_def Let_def)
    have w: "io_apic_window mm (ioapic_ptr (io_apic ?a)) pick regs" "local_apic_register mm (local_apic ?a) (ioapic_ptr (io_apic ?a)) svr"
      using assms(9) [OF Some] by simp_all
    from keyboard_entry(1) [OF w(1), of d1] enabled_svr [OF w(2) s] run Some s cpus show ?thesis
      by (cases "ms_override st") auto
  qed (use run in simp)
qed

section \<open>A machine\<close>

text \<open>The selected register, the registers of the I/O controller and the spurious interrupt register.\<close>

type_synonym apic_sim = "u32 \<times> (u32 \<Rightarrow> u32) \<times> u32"

definition sim_apic :: "usize \<Rightarrow> usize \<Rightarrow> apic_sim apic_hw" where
  "sim_apic a l =
     \<lparr>mmio_read = (\<lambda>x (p, r, v). if x = a + 16 then (r p, (p, r, v)) else if x = l + 0xF0 then (v, (p, r, v)) else (0, (p, r, v))),
      mmio_write = (\<lambda>x w (p, r, v). if x = a then (w, r, v) else if x = a + 16 then (p, r(p := w), v)
        else if x = l + 0xF0 then (p, r, w) else (p, r, v)),
      rdmsr = (\<lambda>n d. ((0xFEE00900, 0), d)), wrmsr = (\<lambda>n x y d. d)\<rparr>"

definition quiet_ports :: "'d ports" where
  "quiet_ports = \<lparr>port_in8 = (\<lambda>p d. (0, d)), port_out8 = (\<lambda>p b d. d), port_in16 = (\<lambda>p d. (1, d)),
     port_out16 = (\<lambda>p x d. d), port_in32 = (\<lambda>p d. (0, d)), port_out32 = (\<lambda>p x d. d)\<rparr>"

lemma sim_apic_ok:
  assumes "a \<noteq> l + 0xF0" "a + 16 \<noteq> l + 0xF0"
  shows "io_apic_window (sim_apic a l) a fst (fst \<circ> snd) \<and> local_apic_register (sim_apic a l) l a (snd \<circ> snd)"
  using assms by (auto simp: io_apic_window_def local_apic_register_def sim_apic_def)

definition firmware_records :: "madt_record list" where
  "firmware_records = [Local_Apic 0 0 1, Local_Apic 1 1 0, Io_Apic 4 0 0xFEC00000 0, Source_Override 0 0 2 0]"

definition demo_cpuid :: "u32 \<Rightarrow> u32 \<Rightarrow> cpuid_result" where
  "demo_cpuid f g = \<lparr>eax = 0, ebx = 0, ecx = 0, edx = 0x200\<rparr>"

definition demo_smp :: smp_response where
  "demo_smp = \<lparr>bsp_lapic_id = 0, smp_cpus = [\<lparr>cpu_id = 0, goto_address = None\<rparr>, \<lparr>cpu_id = 1, goto_address = None\<rparr>]\<rparr>"

lemma firmware_encoded: "concat (map madt_encode firmware_records) = drop 8 madt_body"
  by (simp add: firmware_records_def madt_body_def to_le_2 to_le_4)

lemma firmware_madt:
  "\<exists>c s. find_table 8 madt_at firmware 0xFFFF800000000000 c sig_apic = Inr (Some s) \<and> unat (sdt_length (sdt_head s)) = 82
    \<and> sdt_extra s = Some (0xFFFF8000000100CD, 38) \<and> sdt_inner s = madt_at firmware 0xFFFF8000000100C5"
proof -
  have in_tables: "sig_apic \<in> take 4 ` set firmware_tables" by (simp add: firmware_tables_def sdt_bytes_def sig_apic_def)
  have "length root_bytes = 36 + 8 * length firmware_tables" by (simp add: firmware_lengths firmware_tables_def)
  from tables_found [OF firmware_root this _ firmware_lengths(2), of 8 madt_at] firmware_contiguous in_tables
  obtain c s i where f: "find_table 8 madt_at firmware 0xFFFF800000000000 c sig_apic = Inr (Some s)"
    "i < length firmware_tables" "take 4 (firmware_tables ! i) = sig_apic"
    "unat (sdt_length (sdt_head s)) = length (firmware_tables ! i)"
    "sdt_inner s = madt_at firmware (table_address 0xFFFF800000010055 firmware_tables i + 36)"
    "sdt_extra s = (if length (firmware_tables ! i) > 36 + 8 then Some (table_address 0xFFFF800000010055 firmware_tables i + 36 + of_nat 8,
       length (firmware_tables ! i) - (36 + 8)) else None)"
    by (auto simp: first_pointer_firmware)
  have "i = 0 \<or> i = 1" using f(2) by (auto simp: firmware_tables_def)
  moreover have "i \<noteq> 0"
  proof
    assume "i = 0"
    with f(3) show False by (simp add: firmware_tables_def sdt_bytes_def sig_facp_def sig_apic_def)
  qed
  ultimately have "i = 1" by blast
  with f show ?thesis by (auto simp: firmware_tables_def table_address_def firmware_lengths)
qed

lemma firmware_madt_bytes:
  assumes "i + k \<le> 46"
  shows "mem_read firmware (0xFFFF8000000100C5 + of_nat i) k = take k (drop i madt_body)"
proof -
  have "drop (197 + i) firmware_image = drop (36 + i) (drop 161 firmware_image)" by (simp add: add.commute)
  also have "\<dots> = drop i madt_body" by (simp add: firmware_parts sdt_bytes_def firmware_lengths)
  finally have "take k (drop (197 + i) firmware_image) = take k (drop i madt_body)" by simp
  with image_memory_read [of "197 + i" k firmware_image "0xFFFF800000010000"] assms show ?thesis
    by (simp add: firmware_def firmware_lengths flip: add.assoc)
qed

theorem apic_new_starts_witness:
  "\<exists>c a s d'. apic_new quiet_ports (sim_apic 0xFFFF8000FEC00000 0xFFFF8000FEE00000) demo_cpuid firmware 0xFFFF800000000000 c
      (Some demo_smp) 0xFFFFFFFF80009000 (0, \<lambda>_. 0x10000, 0) = Some (Inr (a, s), d')
    \<and> apic_cpus a = [\<lparr>acpi_processor_id = 0, apic_id = 0, lapic_flags = 1\<rparr>] \<and> fst (snd d') 0x12 AND 0x100FF = 0x21"
proof -
  let ?h = "0xFFFF800000000000 :: usize"
  obtain c s where f: "find_table 8 madt_at firmware ?h c sig_apic = Inr (Some s)" "unat (sdt_length (sdt_head s)) = 82"
    "sdt_extra s = Some (0xFFFF8000000100CD, 38)" "sdt_inner s = madt_at firmware 0xFFFF8000000100C5"
    using firmware_madt by blast
  have l: "length (concat (map madt_encode firmware_records)) = 38" by (simp add: firmware_encoded firmware_lengths)
  have base: "local_apic_address (sdt_inner s) = 0xFEE00000"
    using firmware_madt_bytes [of 0 4] f(4) by (simp add: madt_at_def read_word_def madt_body_def le_val_to_le)
  have rd: "mem_read firmware 0xFFFF8000000100CD 38 = concat (map madt_encode firmware_records)"
    using firmware_madt_bytes [of 8 38] by (simp add: firmware_encoded firmware_lengths)
  define st where "st = fold (madt_effect ?h) firmware_records (madt_start ?h (sdt_inner s))"
  have st: "ms_io_apic st = Some \<lparr>ioapic_id = 4, ioapic_reserved = 0, ioapic_ptr = 0xFFFF8000FEC00000, global_interrupt_base = 0\<rparr>"
    "ms_override st \<noteq> None" "ms_lapic_ptr st = 0xFFFF8000FEE00000"
    by (simp_all add: st_def firmware_records_def madt_start_def base)
  have cpu: "has_apic demo_cpuid" by (simp add: has_apic_def demo_cpuid_def)
  have "enabled_cpus firmware_records = [\<lparr>acpi_processor_id = 0, apic_id = 0, lapic_flags = 1\<rparr>]" by (simp add: firmware_records_def)
  with apic_new_starts [OF cpu f(1), of firmware_records "0xFFFF8000000100CD" st "sim_apic 0xFFFF8000FEC00000 0xFFFF8000FEE00000"
      fst "fst \<circ> snd" "snd \<circ> snd" quiet_ports demo_smp "0xFFFFFFFF80009000" "(0, \<lambda>_. 0x10000, 0)"]
    f st l rd sim_apic_ok [of "0xFFFF8000FEC00000" "0xFFFF8000FEE00000"] st_def
  show ?thesis by (fastforce simp: firmware_records_def)
qed

end
