(* ===== verification/Keyboard.thy ===== *)
theory Keyboard
  imports Console Apic
begin

text \<open>
  The PS/2 keyboard, \<^verbatim>\<open>src/drivers/keyboard.rs\<close>: decoding of scan codes with the flag \<^verbatim>\<open>EXTENDED_KEY\<close>, and the interrupt
  handler, which signals the end of the interrupt, reads the scan code and writes the character of a pressed key to the
  serial port. The match of \<^verbatim>\<open>parse_key\<close> is a table of rows: scan code, name and character, and the name the key has
  when the flag is set. The layout that the rows are compared with is written down separately, as the rows of keys of a US keyboard.
\<close>

record key =
  pressed :: bool
  key_name :: string
  character :: "u8 option"

type_synonym key_row = "u8 \<times> string \<times> u8 option \<times> string option"

section \<open>Scan codes\<close>

definition key_rows_top :: "key_row list" where
  "key_rows_top = [
     (0x01, ''Esc'', Some 0x1B, None), (0x02, ''1'', Some 0x31, None), (0x03, ''2'', Some 0x32, None),
     (0x04, ''3'', Some 0x33, None), (0x05, ''4'', Some 0x34, None), (0x06, ''5'', Some 0x35, None),
     (0x07, ''6'', Some 0x36, None), (0x08, ''7'', Some 0x37, None), (0x09, ''8'', Some 0x38, None),
     (0x0A, ''9'', Some 0x39, None), (0x0B, ''0'', Some 0x30, None), (0x0C, ''-'', Some 0x2D, None),
     (0x0D, ''='', Some 0x3D, None), (0x0E, ''Backspace'', Some 0x08, None), (0x0F, ''Tab'', Some 0x09, None),
     (0x10, ''q'', Some 0x71, None), (0x11, ''w'', Some 0x77, None), (0x12, ''e'', Some 0x65, None),
     (0x13, ''r'', Some 0x72, None), (0x14, ''t'', Some 0x74, None), (0x15, ''y'', Some 0x79, None),
     (0x16, ''u'', Some 0x75, None), (0x17, ''i'', Some 0x69, None), (0x18, ''o'', Some 0x6F, None),
     (0x19, ''p'', Some 0x70, None), (0x1A, ''['', Some 0x5B, None), (0x1B, '']'', Some 0x5D, None)]"

definition key_rows_main :: "key_row list" where
  "key_rows_main = [
     (0x1C, ''Enter'', Some 0x0A, None), (0x1D, ''LCtrl'', None, Some ''RCtrl''), (0x1E, ''a'', Some 0x61, None),
     (0x1F, ''s'', Some 0x73, None), (0x20, ''d'', Some 0x64, None), (0x21, ''f'', Some 0x66, None),
     (0x22, ''g'', Some 0x67, None), (0x23, ''h'', Some 0x68, None), (0x24, ''j'', Some 0x6A, None),
     (0x25, ''k'', Some 0x6B, None), (0x26, ''l'', Some 0x6C, None), (0x27, '';'', Some 0x3B, None),
     (0x28, [CHR 0x27], Some 0x27, None), (0x29, [CHR 0x60], Some 0x60, None), (0x2A, ''LShift'', None, None),
     (0x2B, [CHR 0x5C], Some 0x5C, None), (0x2C, ''z'', Some 0x7A, None), (0x2D, ''x'', Some 0x78, None),
     (0x2E, ''c'', Some 0x63, None), (0x2F, ''v'', Some 0x76, None), (0x30, ''b'', Some 0x62, None),
     (0x31, ''n'', Some 0x6E, None), (0x32, ''m'', Some 0x6D, None), (0x33, '','', Some 0x2C, None),
     (0x34, ''.'', Some 0x2E, None), (0x35, ''/'', Some 0x2F, None)]"

definition key_rows_function :: "key_row list" where
  "key_rows_function = [
     (0x36, ''RShift'', None, None), (0x37, ''*'', Some 0x2A, None), (0x38, ''Alt'', None, None),
     (0x39, '' '', Some 0x20, None), (0x3A, ''CapsLock'', None, None), (0x3B, ''F1'', None, None),
     (0x3C, ''F2'', None, None), (0x3D, ''F3'', None, None), (0x3E, ''F4'', None, None), (0x3F, ''F5'', None, None),
     (0x40, ''F6'', None, None), (0x41, ''F7'', None, None), (0x42, ''F8'', None, None), (0x43, ''F9'', None, None),
     (0x44, ''F10'', None, None), (0x45, ''NumLock'', None, None), (0x46, ''ScrLock'', None, None)]"

definition key_rows_keypad :: "key_row list" where
  "key_rows_keypad = [
     (0x47, ''Keypad 7'', Some 0x37, Some ''Home''), (0x48, ''Keypad 8'', Some 0x38, Some ''CurUp''),
     (0x49, ''Keypad 9'', Some 0x39, Some ''PgUp''), (0x4A, ''-'', Some 0x2D, None),
     (0x4B, ''Keypad 4'', Some 0x34, Some ''CurLeft''), (0x4C, ''Keypad 5'', Some 0x35, None),
     (0x4D, ''Keypad 6'', Some 0x36, Some ''CurRight''), (0x4E, ''+'', Some 0x2B, None)]"

definition key_rows_keypad_low :: "key_row list" where
  "key_rows_keypad_low = [
     (0x4F, ''Keypad 1'', Some 0x31, Some ''End''), (0x50, ''Keypad 2'', Some 0x32, Some ''CurDown''),
     (0x51, ''Keypad 3'', Some 0x33, Some ''PgDn''), (0x52, ''Keypad 0'', Some 0x30, Some ''Insert''),
     (0x53, ''Keypad .'', Some 0x2E, Some ''Del''), (0x57, ''F11'', None, None), (0x58, ''F12'', None, None)]"


definition key_rows :: "key_row list" where
  "key_rows = key_rows_top @ key_rows_main @ key_rows_function @ key_rows_keypad @ key_rows_keypad_low"

text \<open>The result is the new value of the flag and the key.\<close>

definition parse_key :: "bool \<Rightarrow> u8 \<Rightarrow> bool \<times> key option" where
  "parse_key extended_key scancode =
     (if scancode = 0xE0 then (\<not> extended_key, None)
      else
        (let down = (scancode AND 0x80 = 0);
             code = scancode AND 0x7F
         in (extended_key,
             case map_of key_rows code of
               None \<Rightarrow> None
             | Some (name, ch, ext) \<Rightarrow>
                 (case ext of
                    Some ext_name \<Rightarrow>
                      if extended_key then Some \<lparr>pressed = down, key_name = ext_name, character = None\<rparr>
                      else Some \<lparr>pressed = down, key_name = name, character = ch\<rparr>
                  | None \<Rightarrow> Some \<lparr>pressed = down, key_name = name, character = ch\<rparr>))))"

text \<open>One interrupt: the new flag and the devices.\<close>

definition KBD_DATA_PORT :: u16 where "KBD_DATA_PORT = 0x60"

definition keyboard_interrupt_handler ::
    "'d ports \<Rightarrow> 'd apic_hw \<Rightarrow> apic once_cell_state cell \<Rightarrow> bool \<Rightarrow> 'd \<Rightarrow> ('d, bool) io" where
  "keyboard_interrupt_handler hw mm apic extended_key d =
     (case signal_end_of_interrupt mm apic d of
        Inl e \<Rightarrow> Some (Inl e, d)
      | Inr d1 \<Rightarrow>
          (let (scancode, d2) = inb hw KBD_DATA_PORT d1;
               (ext, key) = parse_key extended_key scancode
           in case key of
                None \<Rightarrow> Some (Inr ext, d2)
              | Some k \<Rightarrow>
                  (if \<not> pressed k then Some (Inr ext, d2)
                   else case character k of
                       None \<Rightarrow> Some (Inr ext, d2)
                     | Some c \<Rightarrow> map_option (\<lambda>d3. (Inr ext, d3)) (write_serial hw c d2))))"

text \<open>\<open>n\<close> interrupts, one after the other.\<close>

fun keyboard_interrupts ::
    "'d ports \<Rightarrow> 'd apic_hw \<Rightarrow> apic once_cell_state cell \<Rightarrow> nat \<Rightarrow> bool \<Rightarrow> 'd \<Rightarrow> ('d, bool) io" where
  "keyboard_interrupts hw mm apic 0 ext d = Some (Inr ext, d)"
| "keyboard_interrupts hw mm apic (Suc n) ext d =
     Option.bind (keyboard_interrupt_handler hw mm apic ext d) (\<lambda>(r, d').
       case r of Inl e \<Rightarrow> Some (Inl e, d') | Inr ext' \<Rightarrow> keyboard_interrupts hw mm apic n ext' d')"

text \<open>The decoding alone: the new flag and the character that is handed to \<^verbatim>\<open>write_serial\<close>, if any.\<close>

definition handed :: "bool \<Rightarrow> u8 \<Rightarrow> bool \<times> u8 list" where
  "handed extended_key scancode =
     (case parse_key extended_key scancode of
        (ext, None) \<Rightarrow> (ext, [])
      | (ext, Some k) \<Rightarrow>
          (ext, if \<not> pressed k then [] else (case character k of None \<Rightarrow> [] | Some c \<Rightarrow> [c])))"

lemma handler_handed:
  assumes "port_in8 hw 0x60 (end_of_interrupt mm a d) = (scancode, d')" "handed ext scancode = (ext', out)"
  shows "keyboard_interrupt_handler hw mm (Initialized a) ext d
    = (case out of [] \<Rightarrow> Some (Inr ext', d') | c # _ \<Rightarrow> map_option (Pair (Inr ext')) (write_serial hw c d'))"
  using assms
  by (auto simp: keyboard_interrupt_handler_def handed_def signal_end_of_interrupt_def once_defs inb_def KBD_DATA_PORT_def
      split: prod.splits option.splits if_splits)

fun handle_all :: "bool \<Rightarrow> u8 list \<Rightarrow> bool \<times> u8 list" where
  "handle_all ext [] = (ext, [])"
| "handle_all ext (s # ss) =
     (let (ext', out) = handed ext s; (ext'', outs) = handle_all ext' ss in (ext'', out @ outs))"

section \<open>Typing\<close>

text \<open>The plain keys of a US keyboard, whose meaning does not depend on the flag: the scan code of the first key of each row, and
  the characters of the row from left to right.\<close>

definition us_layout :: "(nat \<times> string) list" where
  "us_layout =
     [(0x01, [CHR 0x1B]),
      (0x02, ''1234567890-=''), (0x0E, [CHR 0x08]),
      (0x0F, [CHR 0x09]), (0x10, ''qwertyuiop[]''), (0x1C, [CHR 0x0A]),
      (0x1E, ''asdfghjkl;'' @ [CHR 0x27]), (0x29, [CHR 0x60]),
      (0x2B, [CHR 0x5C]), (0x2C, ''zxcvbnm,./''),
      (0x39, '' ''),
      (0x37, ''*''), (0x4A, ''-''), (0x4E, ''+''), (0x4C, ''5'')]"

definition plain_keys :: "(u8 \<times> u8) list" where
  "plain_keys = concat (map (\<lambda>(first, chars). map (\<lambda>i. (of_nat (first + i), of_char (chars ! i))) [0..<length chars]) us_layout)"

definition plain_key :: "u8 \<Rightarrow> u8 \<Rightarrow> bool" where
  "plain_key code c \<longleftrightarrow> (code, c) \<in> set plain_keys"

lemma plain_key_row:
  assumes "plain_key code c"
  shows "\<exists>name. map_of key_rows code = Some (name, Some c, None)"
proof -
  have "list_all (\<lambda>(code, c). map_option snd (map_of key_rows code) = Some (Some c, None)) plain_keys" by code_simp
  with assms show ?thesis by (fastforce simp: plain_key_def list_all_iff)
qed

lemma key_code_bound: "map_of key_rows code = Some r \<Longrightarrow> code < 0x80"
proof -
  assume "map_of key_rows code = Some r"
  then have "code \<in> fst ` set key_rows" by (force dest: map_of_SomeD)
  moreover have "list_all (\<lambda>row. fst row < 0x80) key_rows"
    by (simp add: key_rows_def key_rows_top_def key_rows_main_def key_rows_function_def key_rows_keypad_def
        key_rows_keypad_low_def)
  ultimately show "code < 0x80" by (auto simp: list_all_iff)
qed

lemma low_code:
  assumes "code < (0x80 :: u8)"
  shows "code AND 0x80 = 0" "code AND 0x7F = code" "code \<noteq> 0xE0" "(code OR 0x80) AND 0x80 \<noteq> 0"
    "(code OR 0x80) AND 0x7F = code" "code \<noteq> 0x60 \<Longrightarrow> code OR 0x80 \<noteq> 0xE0"
proof -
  have m: "(0x7F :: u8) = mask 7" by (simp add: mask_eq_exp_minus_1)
  have "unat code < 128" using assms by (simp add: word_less_nat_alt)
  then have "unat (take_bit 7 code) = unat code" by (simp add: unat_take_bit)
  then show low: "code AND 0x7F = code"
    unfolding m by (simp only: take_bit_eq_mask [symmetric] word_unat_eq_iff)
  have "code AND 0x80 = (code AND 0x7F) AND 0x80" by (simp only: low)
  also have "\<dots> = 0" by (simp add: and.assoc)
  finally show hi: "code AND 0x80 = 0" .
  show "code \<noteq> 0xE0" using assms by auto
  show "(code OR 0x80) AND 0x80 \<noteq> 0"
  proof -
    have "(code OR 0x80) AND 0x80 = 0x80" by (rule bit_eqI) (auto simp: bit_simps)
    then show ?thesis by simp
  qed
  show or: "(code OR 0x80) AND 0x7F = code"
    using low by (simp add: bit.conj_disj_distrib2)
  show "code OR 0x80 \<noteq> 0xE0" if "code \<noteq> 0x60"
  proof
    assume "code OR 0x80 = 0xE0"
    with or have "code = 0xE0 AND 0x7F" by simp
    with that show False by simp
  qed
qed

lemma no_key_60: "map_of key_rows 0x60 = None"
  by (simp add: key_rows_def key_rows_top_def key_rows_main_def key_rows_function_def key_rows_keypad_def
      key_rows_keypad_low_def)

lemma plain_key_strokes:
  assumes "plain_key code c"
  shows "handed ext code = (ext, [c])" and "handed ext (code OR 0x80) = (ext, [])"
proof -
  from assms obtain name where row: "map_of key_rows code = Some (name, Some c, None)"
    using plain_key_row by blast
  note low = low_code [OF key_code_bound [OF row]]
  have ne: "code \<noteq> 0x60" using row no_key_60 by auto
  show "handed ext code = (ext, [c])"
    using low(1-3) row by (simp add: handed_def parse_key_def)
  show "handed ext (code OR 0x80) = (ext, [])"
    using low(4,5) low(6) [OF ne] row by (simp add: handed_def parse_key_def)
qed

text \<open>
  The machine at which somebody types: any machine, with scan codes waiting at the keyboard's data port, and with a record of
  the bytes written to the data port of the serial line and of the writes to the registers of the interrupt controllers.
  Every access also reaches the machine itself, which may answer and change in any way.
\<close>

record 'd desk =
  inner :: 'd
  pending :: "u8 list"
  sent :: "u8 list"
  acks :: "(usize \<times> u32) list"

definition through :: "('d \<Rightarrow> 'a \<times> 'd) \<Rightarrow> 'd desk \<Rightarrow> 'a \<times> 'd desk" where
  "through f k = (let (x, d) = f (inner k) in (x, k\<lparr>inner := d\<rparr>))"

definition desk_ports :: "'d ports \<Rightarrow> 'd desk ports" where
  "desk_ports hw =
     \<lparr>port_in8 = (\<lambda>p k. if p = 0x60 then (hd (pending k @ [0]), k\<lparr>pending := tl (pending k)\<rparr>) else through (port_in8 hw p) k),
      port_out8 = (\<lambda>p b k. k\<lparr>inner := port_out8 hw p b (inner k), sent := (if p = 0x3F8 then sent k @ [b] else sent k)\<rparr>),
      port_in16 = (\<lambda>p. through (port_in16 hw p)), port_out16 = (\<lambda>p x k. k\<lparr>inner := port_out16 hw p x (inner k)\<rparr>),
      port_in32 = (\<lambda>p. through (port_in32 hw p)), port_out32 = (\<lambda>p x k. k\<lparr>inner := port_out32 hw p x (inner k)\<rparr>)\<rparr>"

definition desk_apic :: "'d apic_hw \<Rightarrow> 'd desk apic_hw" where
  "desk_apic mm =
     \<lparr>mmio_read = (\<lambda>a. through (mmio_read mm a)),
      mmio_write = (\<lambda>a v k. k\<lparr>inner := mmio_write mm a v (inner k), acks := acks k @ [(a, v)]\<rparr>),
      rdmsr = (\<lambda>r. through (rdmsr mm r)), wrmsr = (\<lambda>r lo hi k. k\<lparr>inner := wrmsr mm r lo hi (inner k)\<rparr>)\<rparr>"

lemma desk_polls:
  "line_ready (desk_ports hw) k \<longleftrightarrow> line_ready hw (inner k)"
  "after_polls (desk_ports hw) k = k\<lparr>inner := after_polls hw (inner k)\<rparr>"
proof -
  have "polled (desk_ports hw) n k = k\<lparr>inner := polled hw n (inner k)\<rparr>" for n
    by (induction n arbitrary: k) (simp_all add: desk_ports_def through_def split: prod.splits)
  moreover from this have "fst (port_in8 (desk_ports hw) 0x20 (polled (desk_ports hw) n k))
      = fst (port_in8 hw 0x20 (polled hw n (inner k)))" for n
    by (simp add: desk_ports_def through_def split: prod.splits)
  ultimately show "line_ready (desk_ports hw) k \<longleftrightarrow> line_ready hw (inner k)"
    "after_polls (desk_ports hw) k = k\<lparr>inner := after_polls hw (inner k)\<rparr>"
    by (simp_all only: line_ready_def after_polls_def)
qed

text \<open>A character on the desk's serial line.\<close>

lemma desk_write_serial:
  "write_serial (desk_ports hw) c k = None \<and> (\<exists>d. \<not> line_ready hw d)
   \<or> (\<exists>d. write_serial (desk_ports hw) c k = Some \<lparr>inner = d, pending = pending k, sent = sent k @ (if c = 0x0A then [0x0D, 0x0A] else [c]), acks = acks k\<rparr>)"
proof (cases "\<forall>d. line_ready hw d")
  case True
  then show ?thesis by (cases k) (simp add: write_serial_iff desk_polls, auto simp: desk_ports_def)
next
  case False
  then show ?thesis by (cases k) (simp add: write_serial_iff desk_polls, auto simp: desk_ports_def)
qed

lemma desk_interrupt:
  fixes hw :: "'d ports" and mm :: "'d apic_hw" and a :: apic
  assumes "pending k = s # ss" "handed ext s = (ext', out)"
  defines "handler \<equiv> keyboard_interrupt_handler (desk_ports hw) (desk_apic mm) (Initialized a) ext k"
  shows "handler = None \<and> (\<exists>d. \<not> line_ready hw d)
   \<or> (\<exists>d. handler = Some (Inr ext', \<lparr>inner = d, pending = ss,
        sent = sent k @ concat (map (\<lambda>c. if c = 0x0A then [0x0D, 0x0A] else [c]) (take 1 out)), acks = acks k @ [(local_apic a + 0xB0, 0)]\<rparr>))"
proof -
  let ?k = "\<lparr>inner = mmio_write mm (local_apic a + 0xB0) 0 (inner k), pending = ss, sent = sent k, acks = acks k @ [(local_apic a + 0xB0, 0)]\<rparr>"
  have "port_in8 (desk_ports hw) 0x60 (end_of_interrupt (desk_apic mm) a k) = (s, ?k)"
    using assms(1) by (cases k) (simp add: desk_ports_def desk_apic_def end_of_interrupt_def write_lapic_def)
  note h = handler_handed [OF this assms(2), folded handler_def]
  show ?thesis
  proof (cases out)
    case Nil
    with h show ?thesis by auto
  next
    case (Cons c out')
    with h desk_write_serial [of hw c ?k] show ?thesis by auto
  qed
qed

lemma desk_key:
  fixes hw :: "'d ports" and mm :: "'d apic_hw" and a :: apic and n :: nat and ext :: bool
  assumes "plain_key code c" "pending k = code # (code OR 0x80) # ss"
  defines "run \<equiv> keyboard_interrupts (desk_ports hw) (desk_apic mm) (Initialized a) (Suc (Suc n)) ext k"
  shows "run = None \<and> (\<exists>d. \<not> line_ready hw d)
   \<or> (\<exists>d. run = keyboard_interrupts (desk_ports hw) (desk_apic mm) (Initialized a) n ext
        \<lparr>inner = d, pending = ss, sent = sent k @ (if c = 0x0A then [0x0D, 0x0A] else [c]),
          acks = acks k @ replicate 2 (local_apic a + 0xB0, 0)\<rparr>)"
proof -
  note strokes = plain_key_strokes [OF assms(1), of ext]
  show ?thesis
  proof (cases "\<forall>d. line_ready hw d")
    case True
    then obtain d where d: "keyboard_interrupt_handler (desk_ports hw) (desk_apic mm) (Initialized a) ext k
        = Some (Inr ext, \<lparr>inner = d, pending = (code OR 0x80) # ss,
        sent = sent k @ (if c = 0x0A then [0x0D, 0x0A] else [c]), acks = acks k @ [(local_apic a + 0xB0, 0)]\<rparr>)" (is "_ = Some (_, ?k)")
      using desk_interrupt [OF assms(2) strokes(1), of hw mm a] by auto
    have "pending ?k = (code OR 0x80) # ss" by simp
    from desk_interrupt [OF this strokes(2), of hw mm a] True d show ?thesis
      by (auto simp: run_def numeral_2_eq_2)
  next
    case False
    from desk_interrupt [OF assms(2) strokes(1), of hw mm a] show ?thesis
    proof (elim disjE exE)
      fix d assume d: "keyboard_interrupt_handler (desk_ports hw) (desk_apic mm) (Initialized a) ext k
        = Some (Inr ext, \<lparr>inner = d, pending = (code OR 0x80) # ss,
        sent = sent k @ concat (map (\<lambda>c. if c = 0x0A then [0x0D, 0x0A] else [c]) (take 1 [c])), acks = acks k @ [(local_apic a + 0xB0, 0)]\<rparr>)" (is "_ = Some (_, ?k)")
      have "pending ?k = (code OR 0x80) # ss" by simp
      from desk_interrupt [OF this strokes(2), of hw mm a] d False show ?thesis
        by (auto simp: run_def numeral_2_eq_2)
    qed (auto simp: run_def)
  qed
qed

text \<open>C32: typing writes what was typed. Restricted to the plain keys of the US layout, whose meaning does not depend on the extended
  flag: on any machine whose interrupt controller is set up, pressing and releasing such keys one after the other, one interrupt for
  each scan code, writes exactly their characters, in order, to the data port of the serial line, with a carriage return
  before the newline of Enter; it signals the end of every interrupt to the local controller and leaves the flag as it was. The
  handler does not return only when it waits for port \<open>0x20\<close>, which then never reads as nonzero.\<close>

theorem typing_writes_text:
  assumes "list_all2 plain_key codes cs" "pending k = concat (map (\<lambda>code. [code, code OR 0x80]) codes) @ rest"
  shows "case keyboard_interrupts (desk_ports hw) (desk_apic mm) (Initialized a) (2 * length codes) ext k of
      None \<Rightarrow> \<exists>d. \<not> line_ready hw d
    | Some r \<Rightarrow> \<exists>d. r = (Inr ext, \<lparr>inner = d, pending = rest,
        sent = sent k @ concat (map (\<lambda>c. if c = 0x0A then [0x0D, 0x0A] else [c]) cs), acks = acks k @ replicate (2 * length codes) (local_apic a + 0xB0, 0)\<rparr>)"
  using assms
proof (induction codes cs arbitrary: k rule: list_all2_induct)
  case Nil
  then show ?case by (cases k) (auto intro!: exI [of _ "inner k"])
next
  case (Cons code codes c cs)
  let ?run = "keyboard_interrupts (desk_ports hw) (desk_apic mm) (Initialized a)"
  have "pending k = code # (code OR 0x80) # concat (map (\<lambda>code. [code, code OR 0x80]) codes) @ rest"
    using Cons.prems by simp
  from desk_key [OF Cons.hyps(1) this, of hw mm a "2 * length codes" ext] show ?case
  proof (elim disjE exE)
    fix d assume step: "?run (Suc (Suc (2 * length codes))) ext k = ?run (2 * length codes) ext
        (\<lparr>inner = d, pending = concat (map (\<lambda>code. [code, code OR 0x80]) codes) @ rest,
        sent = sent k @ (if c = 0x0A then [0x0D, 0x0A] else [c]), acks = acks k @ replicate 2 (local_apic a + 0xB0, 0)\<rparr>)"
      (is "_ = keyboard_interrupts _ _ _ _ _ ?k")
    have "pending ?k = concat (map (\<lambda>code. [code, code OR 0x80]) codes) @ rest" by simp
    from Cons.IH [OF this] step show ?case
      by (cases "?run (2 * length codes) ext ?k")
        (simp_all add: numeral_2_eq_2 del: keyboard_interrupts.simps)
  qed (simp del: keyboard_interrupts.simps)
qed

definition hello_codes :: "u8 list" where
  "hello_codes = [0x23, 0x12, 0x26, 0x26, 0x18, 0x1C]"

definition still_apic :: "'d apic_hw" where
  "still_apic = \<lparr>mmio_read = (\<lambda>_ d. (0, d)), mmio_write = (\<lambda>_ _ d. d), rdmsr = (\<lambda>_ d. ((0, 0), d)), wrmsr = (\<lambda>_ _ _ d. d)\<rparr>"

definition demo_apic :: apic where
  "demo_apic = \<lparr>io_apic = \<lparr>ioapic_id = 0, ioapic_reserved = 0, ioapic_ptr = 0xFFFF8000FEC00000, global_interrupt_base = 0\<rparr>,
     local_apic = 0xFFFF8000FEE00000, apic_cpus = []\<rparr>"

definition demo_desk :: "u8 list desk" where
  "demo_desk = \<lparr>inner = [], pending = concat (map (\<lambda>code. [code, code OR 0x80]) hello_codes), sent = [], acks = []\<rparr>"

theorem typing_writes_text_witness:
  "\<exists>k. keyboard_interrupts (desk_ports quiet_line) (desk_apic still_apic) (Initialized demo_apic) 12 False demo_desk = Some (Inr False, k)
     \<and> sent k = [104, 101, 108, 108, 111, 13, 10] \<and> length (acks k) = 12"
proof -
  have "list_all2 plain_key hello_codes [104, 101, 108, 108, 111, 10]"
    by code_simp
  from typing_writes_text [OF this, where k = demo_desk and rest = "[]" and hw = quiet_line and mm = still_apic
      and a = demo_apic and ext = False]
  show ?thesis
    by (auto simp: demo_desk_def hello_codes_def quiet_line_sends split: option.splits)
qed

text \<open>An arrow key that repeats types digits. Every prefix byte \<open>0xE0\<close> flips the flag and nothing clears it, so of the
  repeated codes of a held extended key every second one is taken for the keypad key, whose character is written.\<close>

theorem extended_key_repeats:
  assumes "map_of key_rows code = Some (name, Some c, Some ext_name)"
  shows "handle_all False (concat (replicate n [0xE0, code])) = (odd n, replicate (n div 2) c)"
proof -
  note low = low_code [OF key_code_bound [OF assms]]
  have step: "handed ext 0xE0 = (\<not> ext, [])"
    "handed ext code = (ext, if ext then [] else [c])" for ext
    using low(1-3) assms by (simp_all add: handed_def parse_key_def)
  have pair: "handle_all False (concat (replicate (2 * k) [0xE0, code]) @ ss) =
      (let (e, out) = handle_all False ss in (e, replicate k c @ out))" for k ss
    by (induction k) (simp_all add: step Let_def split: prod.splits)
  show ?thesis
  proof (cases "even n")
    case True
    then obtain k where "n = 2 * k" by (elim evenE)
    with pair [of k "[]"] show ?thesis by simp
  next
    case False
    then obtain k where n: "n = 2 * k + 1" by (elim oddE)
    have "concat (replicate n [0xE0, code]) = concat (replicate (2 * k) [0xE0, code]) @ [0xE0, code]"
      unfolding n by (induction k) simp_all
    with pair [of k "[0xE0, code]"] n show ?thesis by (simp add: step)
  qed
qed

theorem extended_key_repeats_witness:
  "handle_all False [0xE0, 0x48, 0xE0, 0x48, 0xE0, 0x48, 0xE0, 0x48] = (False, [56, 56])"
proof -
  have "map_of key_rows 0x48 = Some (''Keypad 8'', Some 56, Some ''CurUp'')"
    by (simp add: key_rows_def key_rows_top_def key_rows_main_def key_rows_function_def key_rows_keypad_def)
  from extended_key_repeats [OF this, of 4]
  have "handle_all False (concat (replicate 4 [0xE0, 0x48])) = (False, replicate 2 56)" by simp
  moreover have "concat (replicate 4 [0xE0, 0x48]) = [0xE0, 0x48, 0xE0, 0x48, 0xE0, 0x48, 0xE0, 0x48 :: u8]"
    "replicate 2 56 = [56, 56 :: u8]"
    by (simp_all add: eval_nat_numeral)
  ultimately show ?thesis by simp
qed

end
