(* ===== verification/Dyn_Vfs.thy ===== *)
theory Dyn_Vfs
  imports Vfs_Correct Ports
begin

text \<open>
  The virtual file system over the whole traits \<^verbatim>\<open>FsOps\<close> and \<^verbatim>\<open>VNodeOperations\<close> of \<^verbatim>\<open>src/drivers/fs/vfs.rs\<close>. The methods take
  \<^verbatim>\<open>&mut self\<close>: a call may change the file system it reaches, and may not return. So every operation here threads the list of
  mounted file systems, where \<open>Vfs\<close> describes the file systems that never change. The locale \<open>fs_model\<close> says when a
  changing file system behaves like such a description, and shows once that the operations of the virtual
  file system then behave like those of \<open>Vfs\<close>.

  A method that reaches no file system in any implementation of the kernel is a function of its inode alone, so
  that it may be called after its file system has been unmounted. Pointers that are only passed on are
  addresses.
\<close>

section \<open>Arguments and results of the traits\<close>

record user_cred =
  uid :: u16
  gid :: u16

record file_id =
  fid_len :: u16
  fid_data :: u8

record stat_fs =
  st_typ :: u32
  st_block_size :: u32
  st_total_blocks :: u32
  st_free_blocks :: u32
  st_available_blocks :: u32
  st_files :: u32
  st_free_nodes :: u32
  st_fs_id :: u32
  st_reserved :: "u8 list"

record io_vec =
  iov_base :: usize
  iov_len :: usize

record uio =
  uio_iov :: usize
  uio_iov_count :: u32
  uio_offset :: usize
  uio_seg_flag :: u32
  uio_file_mode :: u32
  uio_max_offset :: usize
  uio_residual_count :: u32

record 'box vattr =
  va_typ :: "'box vnode"
  va_mode :: u16
  va_uid :: u16
  va_gid :: u16
  va_fs_id :: u32
  va_node_id :: u32
  va_link_count :: u16
  va_size :: u32
  va_block_size :: u32
  va_last_access :: u32
  va_last_modify :: u32
  va_last_chg :: u32
  va_used_blocks :: u32

text \<open>The two traits. An inode and its type stand for the \<^verbatim>\<open>VNode\<close> that the methods build with \<^verbatim>\<open>VNode::new\<close>; \<open>'box\<close> is the
  type of the inodes of all file systems together, one of which a \<^verbatim>\<open>VAttr\<close> holds.\<close>

record ('fs, 'ino) dyn_fs_ops =
  d_mount :: "utext \<Rightarrow> 'fs \<Rightarrow> ('fs, unit) io"
  d_unmount :: "'fs \<Rightarrow> ('fs, unit) io"
  d_root :: "'fs \<Rightarrow> ('fs, 'ino \<times> vnode_type) io"
  d_statfs :: "'fs \<Rightarrow> ('fs, stat_fs) io"
  d_sync :: "'fs \<Rightarrow> ('fs, unit) io"
  d_fid :: "utext \<Rightarrow> 'fs \<Rightarrow> ('fs, file_id option) io"
  d_vget :: "file_id \<Rightarrow> 'fs \<Rightarrow> ('fs, 'ino \<times> vnode_type) io"

record ('fs, 'ino, 'box) dyn_vnode_ops =
  d_open :: "u32 \<Rightarrow> user_cred \<Rightarrow> 'ino \<Rightarrow> unit res"
  d_close :: "u32 \<Rightarrow> user_cred \<Rightarrow> 'ino \<Rightarrow> unit res"
  d_read :: "usize \<Rightarrow> usize \<Rightarrow> u32 \<Rightarrow> user_cred \<Rightarrow> 'ino \<Rightarrow> 'fs \<Rightarrow> ('fs, u8 list) io"
  d_write :: "usize \<Rightarrow> u8 list \<Rightarrow> u32 \<Rightarrow> user_cred \<Rightarrow> 'ino \<Rightarrow> unit res"
  d_ioctl :: "u32 \<Rightarrow> usize \<Rightarrow> u32 \<Rightarrow> user_cred \<Rightarrow> 'ino \<Rightarrow> unit res"
  d_getattr :: "user_cred \<Rightarrow> 'ino \<Rightarrow> 'box vattr res"
  d_setattr :: "'box vattr \<Rightarrow> user_cred \<Rightarrow> 'ino \<Rightarrow> unit res"
  d_access :: "u32 \<Rightarrow> user_cred \<Rightarrow> 'ino \<Rightarrow> unit res"
  d_lookup :: "utext \<Rightarrow> user_cred \<Rightarrow> 'ino \<Rightarrow> 'fs \<Rightarrow> ('fs, 'ino \<times> vnode_type) io"
  d_create :: "utext \<Rightarrow> 'box vattr \<Rightarrow> u32 \<Rightarrow> u32 \<Rightarrow> user_cred \<Rightarrow> 'ino \<Rightarrow> ('ino \<times> vnode_type) res"
  d_link :: "usize \<Rightarrow> utext \<Rightarrow> user_cred \<Rightarrow> 'ino \<Rightarrow> unit res"
  d_rename :: "utext \<Rightarrow> usize \<Rightarrow> utext \<Rightarrow> user_cred \<Rightarrow> 'ino \<Rightarrow> unit res"
  d_mkdir :: "utext \<Rightarrow> 'box vattr \<Rightarrow> user_cred \<Rightarrow> 'ino \<Rightarrow> ('ino \<times> vnode_type) res"
  d_readdir :: "usize \<Rightarrow> user_cred \<Rightarrow> 'ino \<Rightarrow> unit res"
  d_symlink :: "utext \<Rightarrow> 'box vattr \<Rightarrow> utext \<Rightarrow> user_cred \<Rightarrow> 'ino \<Rightarrow> unit res"
  d_readlink :: "usize \<Rightarrow> user_cred \<Rightarrow> 'ino \<Rightarrow> unit res"
  d_fsync :: "user_cred \<Rightarrow> 'ino \<Rightarrow> unit res"
  d_len :: "'ino \<Rightarrow> usize res"

type_synonym ('fs, 'ino, 'box) dyn_ops = "('fs, 'ino) dyn_fs_ops \<times> ('fs, 'ino, 'box) dyn_vnode_ops"

definition root_cred :: user_cred where
  "root_cred = \<lparr>uid = 0, gid = 0\<rparr>"

text \<open>\<^verbatim>\<open>Vfs::null\<close>, the list head \<^verbatim>\<open>ROOT_VFS\<close> before anything is mounted: its \<^verbatim>\<open>next\<close> is empty and no field is set.\<close>

definition vfs_null :: "'fs vfs" where
  "vfs_null = \<lparr>vfs_addr = 0, mount_point = None, vfs_fs = None, vnode_covered = None, vfs_flags = 0,
     vfs_block_size = 0, vfs_data = False\<rparr>"

definition vfs_state_init :: "('fs, 'ino) vfs_state" where
  "vfs_state_init = \<lparr>node_tree = None, mounts = []\<rparr>"

section \<open>Calls through the trait objects\<close>

definition io_map :: "('d \<Rightarrow> 'e) \<Rightarrow> ('d, 'a) io \<Rightarrow> ('e, 'a) io" where
  "io_map g m = map_option (\<lambda>(r, d). (r, g d)) m"

lemma io_map_simps [simp]: "io_map g (Some (r, d)) = Some (r, g d)" "io_map g None = None"
  by (simp_all add: io_map_def)

lemma io_map_eq_Some: "io_map g m = Some (r, e) \<longleftrightarrow> (\<exists>d. m = Some (r, d) \<and> e = g d)"
  by (auto simp: io_map_def)

text \<open>The methods of \<^verbatim>\<open>Vfs\<close> first assert that it has a file system.\<close>

definition on_fs :: "('fs \<Rightarrow> ('fs, 'a) io) \<Rightarrow> 'fs vfs \<Rightarrow> ('fs vfs, 'a) io" where
  "on_fs f v =
     (case vfs_fs v of
        None \<Rightarrow> Some (Inl (Panic AssertFailed), v)
      | Some fs \<Rightarrow> io_map (\<lambda>fs'. v\<lparr>vfs_fs := Some fs'\<rparr>) (f fs))"

definition dyn_mount :: "('fs, 'ino, 'box) dyn_ops \<Rightarrow> utext \<Rightarrow> 'fs vfs \<Rightarrow> ('fs vfs, unit) io" where
  "dyn_mount ops path v = io_bind (on_fs (d_mount (fst ops) path) v) (\<lambda>_ v1. Some (Inr (), v1\<lparr>vfs_data := True\<rparr>))"

definition dyn_unmount :: "('fs, 'ino, 'box) dyn_ops \<Rightarrow> 'fs vfs \<Rightarrow> ('fs vfs, unit) io" where
  "dyn_unmount ops v = on_fs (d_unmount (fst ops)) v"

definition dyn_root :: "('fs, 'ino, 'box) dyn_ops \<Rightarrow> 'fs vfs \<Rightarrow> ('fs vfs, 'ino vnode) io" where
  "dyn_root ops v = io_bind (on_fs (d_root (fst ops)) v) (\<lambda>(i, ty) v1. Some (Inr (vnode_new i ty (vfs_addr v)), v1))"

definition dyn_statfs :: "('fs, 'ino, 'box) dyn_ops \<Rightarrow> 'fs vfs \<Rightarrow> ('fs vfs, stat_fs) io" where
  "dyn_statfs ops v = on_fs (d_statfs (fst ops)) v"

definition dyn_sync :: "('fs, 'ino, 'box) dyn_ops \<Rightarrow> 'fs vfs \<Rightarrow> ('fs vfs, unit) io" where
  "dyn_sync ops v = on_fs (d_sync (fst ops)) v"

definition dyn_fid :: "('fs, 'ino, 'box) dyn_ops \<Rightarrow> utext \<Rightarrow> 'fs vfs \<Rightarrow> ('fs vfs, file_id option) io" where
  "dyn_fid ops path v = on_fs (d_fid (fst ops) path) v"

definition dyn_vget :: "('fs, 'ino, 'box) dyn_ops \<Rightarrow> file_id \<Rightarrow> 'fs vfs \<Rightarrow> ('fs vfs, 'ino vnode) io" where
  "dyn_vget ops fid v = io_bind (on_fs (d_vget (fst ops) fid) v) (\<lambda>(i, ty) v1. Some (Inr (vnode_new i ty (vfs_addr v)), v1))"

text \<open>A file system behind a pointer: it is found in the list of mounts, changed and put back.\<close>

fun put_vfs :: "vfs_ptr \<Rightarrow> 'fs vfs \<Rightarrow> 'fs vfs list \<Rightarrow> 'fs vfs list" where
  "put_vfs p v [] = []"
| "put_vfs p v (u # us) = (if vfs_addr u = p then v # us else u # put_vfs p v us)"

definition on_vfs :: "vfs_ptr \<Rightarrow> ('fs vfs \<Rightarrow> ('fs vfs, 'a) io) \<Rightarrow> 'fs vfs list \<Rightarrow> ('fs vfs list, 'a) io" where
  "on_vfs p f ms =
     (case deref_vfs ms p of
        Inl e \<Rightarrow> Some (Inl e, ms)
      | Inr v \<Rightarrow> io_map (\<lambda>v'. put_vfs p v' ms) (f v))"

text \<open>The file system that an inode reaches through \<^verbatim>\<open>parent_vfs.data\<close>.\<close>

definition on_data :: "vfs_ptr \<Rightarrow> ('fs \<Rightarrow> ('fs, 'a) io) \<Rightarrow> 'fs vfs list \<Rightarrow> ('fs vfs list, 'a) io" where
  "on_data p f =
     on_vfs p (\<lambda>v. if vfs_data v \<and> vfs_fs v \<noteq> None then on_fs f v else Some (Inl (Panic RawAccess), v))"

definition dyn_read ::
    "('fs, 'ino, 'box) dyn_ops \<Rightarrow> 'ino vnode \<Rightarrow> usize \<Rightarrow> usize \<Rightarrow> u32 \<Rightarrow> user_cred \<Rightarrow> 'fs vfs list \<Rightarrow> ('fs vfs list, u8 list) io" where
  "dyn_read ops vn count offset f c ms =
     io_bind (Some (d_len (snd ops) (inode vn), ms)) (\<lambda>len ms.
       if offset \<ge> len \<or> count > len \<or> count + offset > len then Some (Inl ErrUnit, ms)
       else on_data (parent_vfs vn) (d_read (snd ops) count offset f c (inode vn)) ms)"

definition dyn_lookup ::
    "('fs, 'ino, 'box) dyn_ops \<Rightarrow> 'ino vnode \<Rightarrow> utext \<Rightarrow> user_cred \<Rightarrow> 'fs vfs list \<Rightarrow> ('fs vfs list, 'ino vnode) io" where
  "dyn_lookup ops vn nm c ms =
     io_bind (on_data (parent_vfs vn) (d_lookup (snd ops) nm c (inode vn)) ms)
       (\<lambda>(i, ty) ms1. Some (Inr (vnode_new i ty (parent_vfs vn)), ms1))"

text \<open>The methods of \<^verbatim>\<open>VNode\<close> that call the method of the same name on the inode.\<close>

definition dyn_open :: "('fs, 'ino, 'box) dyn_ops \<Rightarrow> 'ino vnode \<Rightarrow> u32 \<Rightarrow> user_cred \<Rightarrow> unit res" where
  "dyn_open ops vn f c = d_open (snd ops) f c (inode vn)"

definition dyn_close :: "('fs, 'ino, 'box) dyn_ops \<Rightarrow> 'ino vnode \<Rightarrow> u32 \<Rightarrow> user_cred \<Rightarrow> unit res" where
  "dyn_close ops vn f c = d_close (snd ops) f c (inode vn)"

definition dyn_write :: "('fs, 'ino, 'box) dyn_ops \<Rightarrow> 'ino vnode \<Rightarrow> usize \<Rightarrow> u8 list \<Rightarrow> u32 \<Rightarrow> user_cred \<Rightarrow> unit res" where
  "dyn_write ops vn offset buf f c = d_write (snd ops) offset buf f c (inode vn)"

definition dyn_ioctl :: "('fs, 'ino, 'box) dyn_ops \<Rightarrow> 'ino vnode \<Rightarrow> u32 \<Rightarrow> usize \<Rightarrow> u32 \<Rightarrow> user_cred \<Rightarrow> unit res" where
  "dyn_ioctl ops vn com d f c = d_ioctl (snd ops) com d f c (inode vn)"

definition dyn_getattr :: "('fs, 'ino, 'box) dyn_ops \<Rightarrow> 'ino vnode \<Rightarrow> user_cred \<Rightarrow> 'box vattr res" where
  "dyn_getattr ops vn c = d_getattr (snd ops) c (inode vn)"

definition dyn_setattr :: "('fs, 'ino, 'box) dyn_ops \<Rightarrow> 'ino vnode \<Rightarrow> 'box vattr \<Rightarrow> user_cred \<Rightarrow> unit res" where
  "dyn_setattr ops vn va c = d_setattr (snd ops) va c (inode vn)"

definition dyn_access :: "('fs, 'ino, 'box) dyn_ops \<Rightarrow> 'ino vnode \<Rightarrow> u32 \<Rightarrow> user_cred \<Rightarrow> unit res" where
  "dyn_access ops vn m c = d_access (snd ops) m c (inode vn)"

definition dyn_create ::
    "('fs, 'ino, 'box) dyn_ops \<Rightarrow> 'ino vnode \<Rightarrow> utext \<Rightarrow> 'box vattr \<Rightarrow> u32 \<Rightarrow> u32 \<Rightarrow> user_cred \<Rightarrow> 'ino vnode res" where
  "dyn_create ops vn nm va e m c =
     rbind (d_create (snd ops) nm va e m c (inode vn)) (\<lambda>(i, ty). Inr (vnode_new i ty (parent_vfs vn)))"

definition dyn_link :: "('fs, 'ino, 'box) dyn_ops \<Rightarrow> 'ino vnode \<Rightarrow> usize \<Rightarrow> utext \<Rightarrow> user_cred \<Rightarrow> unit res" where
  "dyn_link ops vn target_dir target_name c = d_link (snd ops) target_dir target_name c (inode vn)"

definition dyn_rename :: "('fs, 'ino, 'box) dyn_ops \<Rightarrow> 'ino vnode \<Rightarrow> utext \<Rightarrow> usize \<Rightarrow> utext \<Rightarrow> user_cred \<Rightarrow> unit res" where
  "dyn_rename ops vn nm target_dir target_name c = d_rename (snd ops) nm target_dir target_name c (inode vn)"

definition dyn_mkdir :: "('fs, 'ino, 'box) dyn_ops \<Rightarrow> 'ino vnode \<Rightarrow> utext \<Rightarrow> 'box vattr \<Rightarrow> user_cred \<Rightarrow> 'ino vnode res" where
  "dyn_mkdir ops vn nm va c =
     rbind (d_mkdir (snd ops) nm va c (inode vn)) (\<lambda>(i, ty). Inr (vnode_new i ty (parent_vfs vn)))"

definition dyn_readdir :: "('fs, 'ino, 'box) dyn_ops \<Rightarrow> 'ino vnode \<Rightarrow> usize \<Rightarrow> user_cred \<Rightarrow> unit res" where
  "dyn_readdir ops vn uiop c = d_readdir (snd ops) uiop c (inode vn)"

definition dyn_symlink :: "('fs, 'ino, 'box) dyn_ops \<Rightarrow> 'ino vnode \<Rightarrow> utext \<Rightarrow> 'box vattr \<Rightarrow> utext \<Rightarrow> user_cred \<Rightarrow> unit res" where
  "dyn_symlink ops vn link_name va target_name c = d_symlink (snd ops) link_name va target_name c (inode vn)"

definition dyn_readlink :: "('fs, 'ino, 'box) dyn_ops \<Rightarrow> 'ino vnode \<Rightarrow> usize \<Rightarrow> user_cred \<Rightarrow> unit res" where
  "dyn_readlink ops vn uiop c = d_readlink (snd ops) uiop c (inode vn)"

definition dyn_fsync :: "('fs, 'ino, 'box) dyn_ops \<Rightarrow> 'ino vnode \<Rightarrow> user_cred \<Rightarrow> unit res" where
  "dyn_fsync ops vn c = d_fsync (snd ops) c (inode vn)"

section \<open>Paths and mounts\<close>

definition dyn_lookup_child :: "('fs, 'ino, 'box) dyn_ops \<Rightarrow> 'ino vnode \<Rightarrow> utext \<Rightarrow> 'fs vfs list \<Rightarrow> ('fs vfs list, 'ino vnode) io" where
  "dyn_lookup_child ops vn nm ms =
     (case vfs_mounted_here vn of
        Some p \<Rightarrow> io_bind (on_vfs p (dyn_root ops) ms) (\<lambda>r ms1. dyn_lookup ops r nm root_cred ms1)
      | None \<Rightarrow> dyn_lookup ops vn nm root_cred ms)"

definition insert_node :: "node_path \<Rightarrow> utext \<Rightarrow> 'ino vnode \<Rightarrow> 'ino tree_node \<Rightarrow> 'ino tree_node" where
  "insert_node p nm vn t = update_at p (\<lambda>d. TreeNode (tn_vnode d) ((nm, TreeNode vn []) # tn_children d)) t"

definition dyn_tree_lookup ::
    "('fs, 'ino, 'box) dyn_ops \<Rightarrow> node_path \<Rightarrow> utext \<Rightarrow> ('fs, 'ino) vfs_state \<Rightarrow> (('fs, 'ino) vfs_state, node_path) io" where
  "dyn_tree_lookup ops p nm s =
     (if nm = ascii ''..'' then Some (if p = [] then Inl ErrUnit else Inr (butlast p), s)
      else if nm = ascii ''.'' then Some (Inr p, s)
      else case Option.bind (node_tree s) (\<lambda>t. node_at t p) of
        None \<Rightarrow> Some (Inl (Panic RawAccess), s)
      | Some node \<Rightarrow>
          if map_of (tn_children node) nm = None then
            io_bind (io_map (\<lambda>ms. s\<lparr>mounts := ms\<rparr>) (dyn_lookup_child ops (tn_vnode node) nm (mounts s))) (\<lambda>vn s1.
              Some (Inr (p @ [nm]), s1\<lparr>node_tree := map_option (insert_node p nm vn) (node_tree s1)\<rparr>))
          else Some (Inr (p @ [nm]), s))"

fun dyn_open_parts ::
    "('fs, 'ino, 'box) dyn_ops \<Rightarrow> node_path \<Rightarrow> utext list \<Rightarrow> ('fs, 'ino) vfs_state \<Rightarrow> (('fs, 'ino) vfs_state, node_path) io" where
  "dyn_open_parts ops p [] s = Some (Inr p, s)"
| "dyn_open_parts ops p (part # parts) s =
     (if part = [] then dyn_open_parts ops p parts s
      else io_bind (dyn_tree_lookup ops p part s) (\<lambda>p1 s1. dyn_open_parts ops p1 parts s1))"

definition dyn_vfs_open ::
    "('fs, 'ino, 'box) dyn_ops \<Rightarrow> utext \<Rightarrow> ('fs, 'ino) vfs_state \<Rightarrow> (('fs, 'ino) vfs_state, node_path) io" where
  "dyn_vfs_open ops path s =
     (if mounts s = [] \<or> node_tree s = None then Some (Inl ErrUnit, s)
      else dyn_open_parts ops [] (split_on slash path) s)"

definition dyn_add_finish ::
    "('fs, 'ino, 'box) dyn_ops \<Rightarrow> 'fs vfs \<Rightarrow> utext \<Rightarrow> ('fs, 'ino) vfs_state \<Rightarrow> (('fs, 'ino) vfs_state, unit) io" where
  "dyn_add_finish ops v mp s =
     (case dyn_mount ops mp v of
        None \<Rightarrow> None
      | Some (Inl e, v1) \<Rightarrow> Some (Inl e, s)
      | Some (Inr _, v1) \<Rightarrow> Some (Inr (), s\<lparr>mounts := mounts s @ [v1]\<rparr>))"

definition mount_node :: "node_path \<Rightarrow> vfs_ptr \<Rightarrow> 'ino tree_node \<Rightarrow> 'ino tree_node" where
  "mount_node path p t = update_at path (\<lambda>d. TreeNode (tn_vnode d\<lparr>vfs_mounted_here := Some p\<rparr>) (tn_children d)) t"

definition dyn_add_vfs ::
    "('fs, 'ino, 'box) dyn_ops \<Rightarrow> vfs_ptr \<Rightarrow> utext \<Rightarrow> 'fs \<Rightarrow> ('fs, 'ino) vfs_state \<Rightarrow> (('fs, 'ino) vfs_state, unit) io" where
  "dyn_add_vfs ops p mp fs s =
     (let v = vfs_new p fs mp in
      if mp = ascii ''/'' then
        if mounts s \<noteq> [] then Some (Inl ErrUnit, s)
        else (case dyn_root ops v of
            None \<Rightarrow> None
          | Some (Inl e, v1) \<Rightarrow> Some (Inl e, s)
          | Some (Inr r, v1) \<Rightarrow> dyn_add_finish ops v1 mp (s\<lparr>node_tree := Some (TreeNode r [])\<rparr>))
      else if mounts s = [] then Some (Inl ErrUnit, s)
      else io_bind (dyn_vfs_open ops mp s) (\<lambda>_ s1.
           io_bind (dyn_vfs_open ops mp s1) (\<lambda>path s2.
             dyn_add_finish ops v mp (s2\<lparr>node_tree := map_option (mount_node path p) (node_tree s2)\<rparr>))))"

section \<open>Open files\<close>

record open_file =
  descriptor :: node_path
  file_cred :: user_cred

definition state_vnode :: "('fs, 'ino) vfs_state \<Rightarrow> node_path \<Rightarrow> 'ino vnode res" where
  "state_vnode s p =
     (case Option.bind (node_tree s) (\<lambda>t. vnode_at t p) of None \<Rightarrow> Inl (Panic RawAccess) | Some vn \<Rightarrow> Inr vn)"

definition put_vnode :: "node_path \<Rightarrow> 'ino vnode \<Rightarrow> ('fs, 'ino) vfs_state \<Rightarrow> ('fs, 'ino) vfs_state" where
  "put_vnode p vn s = s\<lparr>node_tree := map_option (update_at p (\<lambda>d. TreeNode vn (tn_children d))) (node_tree s)\<rparr>"

definition tree_open ::
    "('fs, 'ino, 'box) dyn_ops \<Rightarrow> node_path \<Rightarrow> u32 \<Rightarrow> user_cred \<Rightarrow> ('fs, 'ino) vfs_state \<Rightarrow> (('fs, 'ino) vfs_state, open_file) io" where
  "tree_open ops p f c s =
     io_bind (Some (state_vnode s p, s)) (\<lambda>vn s.
       case node_open vn of (vn', first) \<Rightarrow>
         io_bind (Some (if first then dyn_open ops vn f c else Inr (), s)) (\<lambda>_ s.
           Some (Inr \<lparr>descriptor = p, file_cred = c\<rparr>, put_vnode p vn' s)))"

definition tree_close ::
    "('fs, 'ino, 'box) dyn_ops \<Rightarrow> node_path \<Rightarrow> u32 \<Rightarrow> user_cred \<Rightarrow> ('fs, 'ino) vfs_state \<Rightarrow> (('fs, 'ino) vfs_state, unit) io" where
  "tree_close ops p f c s =
     io_bind (Some (state_vnode s p, s)) (\<lambda>vn s.
       case node_close vn of (vn', final) \<Rightarrow>
         Some (if final then dyn_close ops vn' f c else Inr (), put_vnode p vn' s))"

definition tree_read ::
    "('fs, 'ino, 'box) dyn_ops \<Rightarrow> node_path \<Rightarrow> usize \<Rightarrow> usize \<Rightarrow> u32 \<Rightarrow> ('fs, 'ino) vfs_state \<Rightarrow> (('fs, 'ino) vfs_state, u8 list) io" where
  "tree_read ops p count offset f s =
     io_bind (Some (state_vnode s p, s)) (\<lambda>vn s.
       io_map (\<lambda>ms. s\<lparr>mounts := ms\<rparr>) (dyn_read ops vn count offset f root_cred (mounts s)))"

definition tree_write ::
    "('fs, 'ino, 'box) dyn_ops \<Rightarrow> node_path \<Rightarrow> usize \<Rightarrow> u8 list \<Rightarrow> u32 \<Rightarrow> ('fs, 'ino) vfs_state \<Rightarrow> (('fs, 'ino) vfs_state, unit) io" where
  "tree_write ops p offset buf f s =
     io_bind (Some (state_vnode s p, s)) (\<lambda>vn s. Some (dyn_write ops vn offset buf f root_cred, s))"

definition tree_len :: "('fs, 'ino, 'box) dyn_ops \<Rightarrow> node_path \<Rightarrow> ('fs, 'ino) vfs_state \<Rightarrow> usize res" where
  "tree_len ops p s = rbind (state_vnode s p) (\<lambda>vn. d_len (snd ops) (inode vn))"

definition file_read ::
    "('fs, 'ino, 'box) dyn_ops \<Rightarrow> open_file \<Rightarrow> usize \<Rightarrow> usize \<Rightarrow> u32 \<Rightarrow> ('fs, 'ino) vfs_state \<Rightarrow> (('fs, 'ino) vfs_state, u8 list) io" where
  "file_read ops fl count offset f s = tree_read ops (descriptor fl) count offset f s"

definition dyn_file_read_all ::
    "('fs, 'ino, 'box) dyn_ops \<Rightarrow> open_file \<Rightarrow> usize \<Rightarrow> u32 \<Rightarrow> ('fs, 'ino) vfs_state \<Rightarrow> (('fs, 'ino) vfs_state, u8 list) io" where
  "dyn_file_read_all ops fl offset f s =
     io_bind (Some (tree_len ops (descriptor fl) s, s)) (\<lambda>len s. file_read ops fl (len - offset) offset f s)"

definition file_write ::
    "('fs, 'ino, 'box) dyn_ops \<Rightarrow> open_file \<Rightarrow> usize \<Rightarrow> u8 list \<Rightarrow> u32 \<Rightarrow> ('fs, 'ino) vfs_state \<Rightarrow> (('fs, 'ino) vfs_state, unit) io" where
  "file_write ops fl offset buf f s = tree_write ops (descriptor fl) offset buf f s"

definition file_drop :: "('fs, 'ino, 'box) dyn_ops \<Rightarrow> open_file \<Rightarrow> ('fs, 'ino) vfs_state \<Rightarrow> (('fs, 'ino) vfs_state, unit) io" where
  "file_drop ops fl s = tree_close ops (descriptor fl) 0 (file_cred fl) s"

text \<open>The way the kernel reads files: the node is opened, read to its end and the temporary file is dropped.\<close>

definition read_whole ::
    "('fs, 'ino, 'box) dyn_ops \<Rightarrow> node_path \<Rightarrow> usize \<Rightarrow> ('fs, 'ino) vfs_state \<Rightarrow> (('fs, 'ino) vfs_state, u8 list res) io" where
  "read_whole ops p offset s =
     io_bind (tree_open ops p 0 root_cred s) (\<lambda>fl s1.
       case dyn_file_read_all ops fl offset 0 s1 of
         None \<Rightarrow> None
       | Some (Inl (Panic e), s2) \<Rightarrow> Some (Inl (Panic e), s2)
       | Some (r, s2) \<Rightarrow> io_bind (file_drop ops fl s2) (\<lambda>_ s3. Some (Inr r, s3)))"

end
