(* ===== verification/Dyn_Vfs_Correct.thy ===== *)
theory Dyn_Vfs_Correct
  imports Dyn_Vfs
begin

text \<open>
  Changing file systems as unchanging ones. A file system whose methods rearrange their state, such as a cache, stands for a value that
  they never change; the locale \<open>fs_model\<close> relates the two, and its lemmas carry the
  operations of the virtual file system over. Two such file systems side by side are
  one again, which is how trait objects of several types live in one list of mounts.
\<close>

section \<open>Runs and outcomes\<close>

text \<open>An outcome after which the kernel goes on: a value or \<^verbatim>\<open>Err(())\<close>, not a panic.\<close>

fun survives :: "'a res option \<Rightarrow> bool" where
  "survives (Some (Inl (Panic _))) \<longleftrightarrow> False"
| "survives (Some _) \<longleftrightarrow> True"
| "survives None \<longleftrightarrow> False"

text \<open>The run \<open>m\<close> ends like \<open>r\<close>, in a state with \<open>R\<close>; when \<open>r\<close> is a panic or does not end, then \<open>m\<close> panics or does not end.\<close>

definition runs_as :: "('d \<Rightarrow> bool) \<Rightarrow> ('d, 'a) io \<Rightarrow> 'a res option \<Rightarrow> bool" where
  "runs_as R m r \<longleftrightarrow>
     (if survives r then \<exists>d. m = Some (the r, d) \<and> R d else \<not> survives (map_option fst m))"

lemma runs_as_simps [simp]:
  "runs_as R m (Some (Inr x)) \<longleftrightarrow> (\<exists>d. m = Some (Inr x, d) \<and> R d)"
  "runs_as R m (Some (Inl ErrUnit)) \<longleftrightarrow> (\<exists>d. m = Some (Inl ErrUnit, d) \<and> R d)"
  "runs_as R m (Some (Inl (Panic p))) \<longleftrightarrow> \<not> survives (map_option fst m)"
  "runs_as R m None \<longleftrightarrow> \<not> survives (map_option fst m)"
  by (simp_all add: runs_as_def)

lemma runs_as_cases:
  assumes "runs_as R m r"
  obtains (ok) x d where "r = Some (Inr x)" "m = Some (Inr x, d)" "R d"
    | (err) d where "r = Some (Inl ErrUnit)" "m = Some (Inl ErrUnit, d)" "R d"
    | (stuck) "\<not> survives r" "\<not> survives (map_option fst m)"
proof (cases r)
  case (Some y)
  then show ?thesis
  proof (cases y)
    case (Inl e)
    with Some assms that show ?thesis by (cases e) auto
  qed (use Some assms that in auto)
qed (use assms that in auto)

lemma not_survives_cases: "\<not> survives m \<longleftrightarrow> m = None \<or> (\<exists>p. m = Some (Inl (Panic p)))"
  by (cases m rule: survives.cases) auto

lemma runs_as_stuck: "\<not> survives r \<Longrightarrow> runs_as R m r \<longleftrightarrow> \<not> survives (map_option fst m)"
  by (simp add: runs_as_def)

lemma not_survives_bind:
  "\<not> survives (map_option fst m) \<Longrightarrow> \<not> survives (map_option fst (io_bind m f))"
  by (cases m) (auto simp: not_survives_cases)

lemma runs_as_bind:
  assumes "runs_as R m r" and "\<And>x d. r = Some (Inr x) \<Longrightarrow> R d \<Longrightarrow> runs_as R' (f x d) (g x)"
    and "\<And>d. R d \<Longrightarrow> r = Some (Inl ErrUnit) \<Longrightarrow> R' d"
  shows "runs_as R' (io_bind m f) (obind r g)"
  using assms(1)
proof (cases rule: runs_as_cases)
  case stuck
  then have "\<not> survives (obind r g)" by (auto simp: not_survives_cases)
  with stuck show ?thesis by (simp add: runs_as_stuck not_survives_bind)
qed (use assms(2,3) in auto)

lemma runs_as_mono: "runs_as R m r \<Longrightarrow> (\<And>d. R d \<Longrightarrow> R' d) \<Longrightarrow> runs_as R' m r"
  by (auto simp: runs_as_def split: if_splits)

lemma not_survives_map [simp]: "survives (map_option fst (io_map g m)) = survives (map_option fst m)"
  by (cases m) auto

lemma runs_as_map: "runs_as (\<lambda>d. R (g d)) m r \<Longrightarrow> runs_as R (io_map g m) r"
  by (cases m) (auto simp: runs_as_def split: if_splits)

lemma runs_as_lift: "runs_as R m r \<Longrightarrow> (\<And>d. R d \<Longrightarrow> R' (g d)) \<Longrightarrow> runs_as R' (io_map g m) r"
  by (rule runs_as_map) (rule runs_as_mono)

lemma obind_Some_rbind: "obind (Some m) (\<lambda>x. Some (f x)) = Some (rbind m f)"
  by (cases m) simp_all

section \<open>Trees with distinct names\<close>

text \<open>What every tree of the virtual file system is: the children of a node have different names, and none is called
  \<open>.\<close> or \<open>..\<close>, which path lookup interprets itself.\<close>

definition tree_typed :: "'ino tree_node \<Rightarrow> bool" where
  "tree_typed t \<longleftrightarrow> (\<forall>p d. node_at t p = Some d \<longrightarrow>
     distinct (map fst (tn_children d)) \<and> fst ` set (tn_children d) \<inter> {ascii ''.'', ascii ''..''} = {})"

lemma node_at_leaf: "node_at (TreeNode vn []) p = (if p = [] then Some (TreeNode vn []) else None)"
  by (cases p) simp_all

lemma tree_typed_leaf [simp]: "tree_typed (TreeNode vn [])"
  by (simp add: tree_typed_def node_at_leaf)

lemma tree_typed_children:
  assumes "tree_typed t"
  shows "distinct (map fst (tn_children t))"
    and "map_of (tn_children t) n = Some c \<Longrightarrow> tree_typed c"
proof -
  have at: "node_at t q = Some d \<Longrightarrow> distinct (map fst (tn_children d))
      \<and> fst ` set (tn_children d) \<inter> {ascii ''.'', ascii ''..''} = {}" for q d
    using assms unfolding tree_typed_def by blast
  show "distinct (map fst (tn_children t))" using at [of "[]" t] by simp
  assume c: "map_of (tn_children t) n = Some c"
  show "tree_typed c"
    unfolding tree_typed_def
  proof (intro allI impI)
    fix q d
    assume "node_at c q = Some d"
    with c at [of "n # q" d] show "distinct (map fst (tn_children d))
      \<and> fst ` set (tn_children d) \<inter> {ascii ''.'', ascii ''..''} = {}" by simp
  qed
qed

lemma update_at_same:
  "tree_typed t \<Longrightarrow> node_at t p = Some d \<Longrightarrow> f d = d \<Longrightarrow> update_at p f t = t"
proof (induction p arbitrary: t)
  case (Cons n p)
  have "(k, if k = n then update_at p f c else c) = (k, c)" if "(k, c) \<in> set (tn_children t)" for k c
  proof (cases "k = n")
    case True
    with that tree_typed_children(1) [OF Cons.prems(1)] have c: "map_of (tn_children t) n = Some c" by simp
    with Cons.prems have "update_at p f c = c" by (intro Cons.IH tree_typed_children(2) [OF Cons.prems(1) c]) simp_all
    then show ?thesis by simp
  qed simp
  then have "map (\<lambda>(k, c). (k, if k = n then update_at p f c else c)) (tn_children t) = tn_children t"
    by (intro map_idI) auto
  then show ?case by simp
qed simp

lemma update_at_twice: "update_at p f (update_at p g t) = update_at p (f \<circ> g) t"
  by (induction p arbitrary: t) (auto simp: o_def)

lemma node_at_update:
  "node_at (update_at p f t) p = map_option f (node_at t p)"
  by (induction p arbitrary: t) (simp_all add: map_of_update split: option.splits)

section \<open>File systems that behave like a fixed one\<close>

definition vfs_rep :: "('fs \<Rightarrow> 'c \<Rightarrow> bool) \<Rightarrow> 'fs vfs \<Rightarrow> 'c vfs \<Rightarrow> bool" where
  "vfs_rep R v w \<longleftrightarrow> vfs_addr v = vfs_addr w \<and> mount_point v = mount_point w \<and> vnode_covered v = vnode_covered w
     \<and> vfs_flags v = vfs_flags w \<and> vfs_block_size v = vfs_block_size w \<and> vfs_data v = vfs_data w
     \<and> rel_option R (vfs_fs v) (vfs_fs w)"

definition state_rep :: "('fs \<Rightarrow> 'c \<Rightarrow> bool) \<Rightarrow> ('fs, 'ino) vfs_state \<Rightarrow> ('c, 'ino) vfs_state \<Rightarrow> bool" where
  "state_rep R S s \<longleftrightarrow> node_tree S = node_tree s \<and> list_all2 (vfs_rep R) (mounts S) (mounts s)"

text \<open>A pointer leads to related file systems, and putting one back keeps the lists related.\<close>

lemma deref_rep:
  assumes "list_all2 (vfs_rep R) ms ns" "deref_vfs ns p = Inr w"
  obtains v where "deref_vfs ms p = Inr v" "vfs_rep R v w" "vfs_addr w = p"
    and "\<And>v'. vfs_rep R v' w \<Longrightarrow> list_all2 (vfs_rep R) (put_vfs p v' ms) ns"
proof -
  have "\<exists>v. deref_vfs ms p = Inr v \<and> vfs_rep R v w \<and> vfs_addr w = p
      \<and> (\<forall>v'. vfs_rep R v' w \<longrightarrow> list_all2 (vfs_rep R) (put_vfs p v' ms) ns)"
    using assms
  proof (induction rule: list_all2_induct)
    case (Cons v ms w' ns)
    have a: "vfs_addr v = vfs_addr w'" using Cons.hyps(1) by (simp add: vfs_rep_def)
    show ?case
    proof (cases "vfs_addr w' = p")
      case True
      with Cons a show ?thesis by (auto simp: deref_vfs_def)
    next
      case False
      with Cons.prems have "deref_vfs ns p = Inr w" by (simp add: deref_vfs_def)
      from Cons.IH [OF this] False a Cons.hyps show ?thesis by (auto simp: deref_vfs_def)
    qed
  qed (simp add: deref_vfs_def)
  with that show ?thesis by blast
qed

lemma deref_rep_error:
  assumes "list_all2 (vfs_rep R) ms ns" "deref_vfs ns p = Inl e"
  shows "deref_vfs ms p = Inl e"
  using assms
  by (induction rule: list_all2_induct) (auto simp: deref_vfs_def vfs_rep_def split: if_splits)

lemma deref_error: "deref_vfs ns p = Inl e \<Longrightarrow> e = Panic RawAccess"
  by (auto simp: deref_vfs_def split: option.splits)

lemma on_vfs_runs:
  assumes "list_all2 (vfs_rep R) ms ns"
    and "\<And>v w. vfs_rep R v w \<Longrightarrow> deref_vfs ns p = Inr w \<Longrightarrow> vfs_addr w = p \<Longrightarrow> runs_as (\<lambda>v'. vfs_rep R v' w) (f v) (g w)"
  shows "runs_as (\<lambda>ms'. list_all2 (vfs_rep R) ms' ns) (on_vfs p f ms) (obind (Some (deref_vfs ns p)) g)"
proof (cases "deref_vfs ns p")
  case (Inl e)
  with deref_error [OF Inl] deref_rep_error [OF assms(1) Inl] show ?thesis by (simp add: on_vfs_def)
next
  case (Inr w)
  obtain v where v: "deref_vfs ms p = Inr v" "vfs_rep R v w" "vfs_addr w = p"
    and put: "\<And>v'. vfs_rep R v' w \<Longrightarrow> list_all2 (vfs_rep R) (put_vfs p v' ms) ns"
    by (rule deref_rep [OF assms(1) Inr]) blast
  have "runs_as (\<lambda>v'. list_all2 (vfs_rep R) (put_vfs p v' ms) ns) (f v) (g w)"
    by (rule runs_as_mono [OF assms(2) [OF v(2) Inr v(3)] put])
  with v(1) Inr show ?thesis by (simp add: on_vfs_def runs_as_map)
qed

lemma on_fs_runs:
  assumes "vfs_rep R v w"
    and "\<And>fs c. vfs_fs v = Some fs \<Longrightarrow> vfs_fs w = Some c \<Longrightarrow> R fs c \<Longrightarrow> runs_as (\<lambda>fs'. R fs' c) (f fs) (g c)"
  shows "runs_as (\<lambda>v'. vfs_rep R v' w) (on_fs f v)
    (case vfs_fs w of None \<Rightarrow> Some (Inl (Panic AssertFailed)) | Some c \<Rightarrow> g c)"
proof (cases "vfs_fs w")
  case None
  with assms(1) show ?thesis by (simp add: on_fs_def vfs_rep_def)
next
  case (Some c)
  with assms(1) obtain fs where fs: "vfs_fs v = Some fs" "R fs c"
    by (auto simp: vfs_rep_def option_rel_Some2)
  have "runs_as (\<lambda>fs'. vfs_rep R (v\<lparr>vfs_fs := Some fs'\<rparr>) w) (f fs) (g c)"
    using assms(1) Some by (intro runs_as_mono [OF assms(2) [OF fs(1) Some fs(2)]]) (simp add: vfs_rep_def)
  with fs(1) Some show ?thesis by (simp add: on_fs_def runs_as_map)
qed

lemma on_data_runs:
  assumes "list_all2 (vfs_rep R) ms ns"
    and "\<And>fs c. R fs c \<Longrightarrow> runs_as (\<lambda>fs'. R fs' c) (f fs) (g c)"
  shows "runs_as (\<lambda>ms'. list_all2 (vfs_rep R) ms' ns) (on_data (parent_vfs vn) f ms)
    (obind (Some (vnode_fs ns vn)) g)"
proof -
  have "runs_as (\<lambda>v'. vfs_rep R v' w) (if vfs_data v \<and> vfs_fs v \<noteq> None then on_fs f v else Some (Inl (Panic RawAccess), v))
      (obind (Some (case vfs_fs w of Some fs \<Rightarrow> if vfs_data w then Inr fs else Inl (Panic RawAccess)
        | None \<Rightarrow> Inl (Panic RawAccess))) g)"
    if r: "vfs_rep R v w" for v w
  proof (cases "vfs_data w \<and> vfs_fs w \<noteq> None")
    case True
    then obtain c where c: "vfs_fs w = Some c" by auto
    have "vfs_data v" "vfs_fs v \<noteq> None" using r True by (auto simp: vfs_rep_def option_rel_Some2)
    with True c on_fs_runs [OF r, of f g] assms(2) show ?thesis by simp
  next
    case False
    with r show ?thesis by (auto simp: vfs_rep_def split: option.splits)
  qed
  then have "runs_as (\<lambda>ms'. list_all2 (vfs_rep R) ms' ns) (on_data (parent_vfs vn) f ms)
      (obind (Some (deref_vfs ns (parent_vfs vn)))
        (\<lambda>w. obind (Some (case vfs_fs w of Some fs \<Rightarrow> if vfs_data w then Inr fs else Inl (Panic RawAccess)
          | None \<Rightarrow> Inl (Panic RawAccess))) g))"
    unfolding on_data_def by (intro on_vfs_runs [OF assms(1)]) blast
  then show ?thesis
    by (cases "deref_vfs ns (parent_vfs vn)") (simp_all add: vnode_fs_def)
qed

text \<open>What the virtual file system relies on: every method behaves like the description \<open>spec\<close> on the value that the file
  system stands for, and leaves it standing for the same value; mounting gives a file system that stands for the mounted one.\<close>

locale fs_model =
  fixes ops :: "('fs, 'ino, 'box) dyn_ops" and spec :: "('c, 'ino) fs_ops" and rep :: "'fs \<Rightarrow> 'c \<Rightarrow> bool"
  assumes mount_runs: "rep fs c \<Longrightarrow> runs_as (\<lambda>fs'. \<forall>c'. op_mount spec path c = Inr c' \<longrightarrow> rep fs' c') (d_mount (fst ops) path fs)
      (Some (rbind (op_mount spec path c) (\<lambda>_. Inr ())))"
    and root_runs: "rep fs c \<Longrightarrow> runs_as (\<lambda>fs'. rep fs' c) (d_root (fst ops) fs) (Some (op_root spec c))"
    and lookup_runs: "rep fs c \<Longrightarrow> runs_as (\<lambda>fs'. rep fs' c) (d_lookup (snd ops) nm cred i fs) (Some (op_lookup spec c i nm))"
    and read_runs: "rep fs c \<Longrightarrow> runs_as (\<lambda>fs'. rep fs' c) (d_read (snd ops) count offset f cred i fs) (op_read spec c i count offset)"
    and len_runs: "d_len (snd ops) i = op_len spec i"
    and open_runs: "d_open (snd ops) f cred i = Inr ()"
    and close_runs: "d_close (snd ops) f cred i = Inr ()"
begin

lemma vfs_root_runs:
  assumes "vfs_rep rep v w"
  shows "runs_as (\<lambda>v'. vfs_rep rep v' w) (dyn_root ops v) (Some (vfs_root spec w))"
proof -
  have a: "vfs_addr v = vfs_addr w" using assms by (simp add: vfs_rep_def)
  have "Some (vfs_root spec w) = obind (case vfs_fs w of None \<Rightarrow> Some (Inl (Panic AssertFailed)) | Some c \<Rightarrow> Some (op_root spec c))
      (\<lambda>x. Some (case x of (i, ty) \<Rightarrow> Inr (vnode_new i ty (vfs_addr w))))"
    by (auto simp: vfs_root_def obind_Some_rbind split: option.splits)
  moreover have "runs_as (\<lambda>v'. vfs_rep rep v' w) (dyn_root ops v) \<dots>"
    unfolding dyn_root_def a
    by (rule runs_as_bind [OF on_fs_runs [OF assms]]) (auto intro: root_runs)
  ultimately show ?thesis by simp
qed

lemma vnode_lookup_runs:
  assumes "list_all2 (vfs_rep rep) ms ns"
  shows "runs_as (\<lambda>ms'. list_all2 (vfs_rep rep) ms' ns) (dyn_lookup ops vn nm cred ms) (Some (vnode_lookup spec ns vn nm))"
proof -
  have "Some (vnode_lookup spec ns vn nm) = obind (obind (Some (vnode_fs ns vn)) (\<lambda>c. Some (op_lookup spec c (inode vn) nm)))
      (\<lambda>x. Some (case x of (i, ty) \<Rightarrow> Inr (vnode_new i ty (parent_vfs vn))))"
    by (simp add: vnode_lookup_def obind_Some_rbind rbind_assoc)
  moreover have "runs_as (\<lambda>ms'. list_all2 (vfs_rep rep) ms' ns) (dyn_lookup ops vn nm cred ms) \<dots>"
    unfolding dyn_lookup_def
    by (rule runs_as_bind [OF on_data_runs [OF assms]]) (auto intro: lookup_runs)
  ultimately show ?thesis by simp
qed

lemma lookup_child_runs:
  assumes "list_all2 (vfs_rep rep) ms ns"
  shows "runs_as (\<lambda>ms'. list_all2 (vfs_rep rep) ms' ns) (dyn_lookup_child ops vn nm ms) (Some (lookup_child spec ns vn nm))"
proof (cases "vfs_mounted_here vn")
  case None
  with vnode_lookup_runs [OF assms] show ?thesis by (simp add: dyn_lookup_child_def lookup_child_def)
next
  case (Some p)
  have "Some (lookup_child spec ns vn nm) = obind (obind (Some (deref_vfs ns p)) (\<lambda>w. Some (vfs_root spec w)))
      (\<lambda>r. Some (vnode_lookup spec ns r nm))"
    using Some by (simp add: lookup_child_def obind_Some_rbind rbind_assoc)
  moreover have "runs_as (\<lambda>ms'. list_all2 (vfs_rep rep) ms' ns) (dyn_lookup_child ops vn nm ms) \<dots>"
    unfolding dyn_lookup_child_def Some option.case
    by (rule runs_as_bind [OF on_vfs_runs [OF assms]]) (auto intro: vfs_root_runs vnode_lookup_runs)
  ultimately show ?thesis by simp
qed

lemma tree_lookup_runs:
  assumes "state_rep rep S s" "node_tree s = Some t" "tree_lookup spec (mounts s) t p nm = (t', r)"
  shows "runs_as (\<lambda>S'. state_rep rep S' (s\<lparr>node_tree := Some t'\<rparr>)) (dyn_tree_lookup ops p nm S) (Some r)"
proof -
  have S: "node_tree S = Some t" "list_all2 (vfs_rep rep) (mounts S) (mounts s)"
    using assms by (simp_all add: state_rep_def)
  have same: "t' = t \<Longrightarrow> state_rep rep S (s\<lparr>node_tree := Some t'\<rparr>)" using S by (simp add: state_rep_def)
  show ?thesis
  proof (cases "nm = ascii ''..'' \<or> nm = ascii ''.'' \<or> (\<forall>node. node_at t p = Some node \<longrightarrow> map_of (tn_children node) nm \<noteq> None)")
    case True
    with assms(3) same S(1) show ?thesis
      by (auto simp: tree_lookup_def dyn_tree_lookup_def split: option.splits if_splits)
  next
    case False
    then obtain node where n: "nm \<noteq> ascii ''..''" "nm \<noteq> ascii ''.''" "node_at t p = Some node"
      "map_of (tn_children node) nm = None" by auto
    note lc = lookup_child_runs [OF S(2), of "tn_vnode node" nm]
    have dyn: "dyn_tree_lookup ops p nm S =
        io_bind (io_map (\<lambda>ms. S\<lparr>mounts := ms\<rparr>) (dyn_lookup_child ops (tn_vnode node) nm (mounts S))) (\<lambda>vn s1.
              Some (Inr (p @ [nm]), s1\<lparr>node_tree := map_option (insert_node p nm vn) (node_tree s1)\<rparr>))"
      using n S(1) by (simp add: dyn_tree_lookup_def)
    from lc show ?thesis
    proof (cases rule: runs_as_cases)
      case (ok vn ms')
      with assms(3) n have "t' = insert_node p nm vn t" "r = Inr (p @ [nm])" by (simp_all add: tree_lookup_def insert_node_def)
      with dyn ok(2,3) S(1) show ?thesis by (simp add: state_rep_def)
    next
      case (err ms')
      with assms(3) n have "t' = t" "r = Inl ErrUnit" by (simp_all add: tree_lookup_def)
      with dyn err(2,3) S(1) show ?thesis by (simp add: state_rep_def)
    next
      case stuck
      then obtain q where "lookup_child spec (mounts s) (tn_vnode node) nm = Inl (Panic q)"
        by (auto simp: not_survives_cases)
      with assms(3) n have "r = Inl (Panic q)" by (simp add: tree_lookup_def)
      with stuck dyn show ?thesis by (simp add: not_survives_bind)
    qed
  qed
qed

lemma open_parts_runs:
  assumes "state_rep rep S s" "node_tree s = Some t" "open_parts spec (mounts s) t p parts = (t', r)"
  shows "runs_as (\<lambda>S'. state_rep rep S' (s\<lparr>node_tree := Some t'\<rparr>)) (dyn_open_parts ops p parts S) (Some r)"
  using assms
proof (induction parts arbitrary: S s t p)
  case Nil
  then show ?case by (auto simp: state_rep_def)
next
  case (Cons n ns)
  show ?case
  proof (cases "n = []")
    case False
    obtain t1 x where x: "tree_lookup spec (mounts s) t p n = (t1, x)" by (cases "tree_lookup spec (mounts s) t p n")
    have unfold: "(t', r) = (case x of Inr p1 \<Rightarrow> open_parts spec (mounts s) t1 p1 ns | Inl e \<Rightarrow> (t1, Inl e))"
      using Cons.prems(3) False x by (simp split: sum.splits)
    have step: "dyn_open_parts ops p (n # ns) S
        = io_bind (dyn_tree_lookup ops p n S) (\<lambda>p1 s1. dyn_open_parts ops p1 ns s1)"
      using False by simp
    from tree_lookup_runs [OF Cons.prems(1,2) x] show ?thesis
    proof (cases rule: runs_as_cases)
      case (ok p1 S1)
      then have "open_parts spec (mounts (s\<lparr>node_tree := Some t1\<rparr>)) t1 p1 ns = (t', r)" using unfold by simp
      from Cons.IH [OF ok(3) _ this] ok(2) step show ?thesis by simp
    next
      case (err S1)
      with unfold step show ?thesis by simp
    next
      case stuck
      then obtain q where "x = Inl (Panic q)" by (auto simp: not_survives_cases)
      with unfold stuck(2) step show ?thesis by (simp add: not_survives_bind)
    qed
  qed (use Cons in simp)
qed

text \<open>Opening a path.\<close>

lemma vfs_open_runs:
  assumes "state_rep rep S s" "vfs_open spec s path = (s', r)"
  shows "runs_as (\<lambda>S'. state_rep rep S' s') (dyn_vfs_open ops path S) (Some r)"
proof (cases "mounts s = [] \<or> node_tree s = None")
  case True
  with assms show ?thesis by (auto simp: vfs_open_def dyn_vfs_open_def state_rep_def split: option.splits if_splits)
next
  case False
  then obtain t where t: "node_tree s = Some t" "mounts s \<noteq> []" by auto
  obtain t' where o: "open_parts spec (mounts s) t [] (split_on slash path) = (t', r)" "s' = s\<lparr>node_tree := Some t'\<rparr>"
    using assms(2) t by (auto simp: vfs_open_def split: prod.splits)
  have "mounts S \<noteq> []" "node_tree S = Some t" using assms(1) t by (auto simp: state_rep_def)
  with open_parts_runs [OF assms(1) t(1) o(1)] o(2) show ?thesis by (simp add: dyn_vfs_open_def)
qed

text \<open>Mounting.\<close>

lemma vfs_mount_runs:
  assumes "vfs_rep rep v w"
  shows "runs_as (\<lambda>v'. \<forall>w'. vfs_mount spec w mp = Inr w' \<longrightarrow> vfs_rep rep v' w') (dyn_mount ops mp v)
    (Some (rbind (vfs_mount spec w mp) (\<lambda>_. Inr ())))"
proof (cases "vfs_fs w")
  case None
  with assms show ?thesis by (simp add: dyn_mount_def on_fs_def vfs_mount_def vfs_rep_def)
next
  case (Some c)
  with assms obtain fs where fs: "vfs_fs v = Some fs" "rep fs c"
    by (auto simp: vfs_rep_def option_rel_Some2)
  from mount_runs [OF fs(2), of mp] show ?thesis
  proof (cases rule: runs_as_cases)
    case (ok u fs')
    then obtain c' where "op_mount spec mp c = Inr c'" by auto
    with ok fs(1) Some assms show ?thesis by (simp add: dyn_mount_def on_fs_def vfs_mount_def vfs_rep_def)
  next
    case (err fs')
    then have "op_mount spec mp c = Inl ErrUnit" by (simp add: rbind_eq_Inl)
    with err fs(1) Some show ?thesis by (simp add: dyn_mount_def on_fs_def vfs_mount_def)
  next
    case stuck
    then obtain q where "op_mount spec mp c = Inl (Panic q)" by (auto simp: not_survives_cases rbind_eq_Inl)
    with stuck(2) fs(1) Some show ?thesis by (simp add: dyn_mount_def on_fs_def vfs_mount_def not_survives_bind)
  qed
qed

lemma add_finish_runs:
  assumes "state_rep rep S s" "vfs_rep rep v w" "add_vfs_finish spec s w mp = (s', r)"
  shows "runs_as (\<lambda>S'. state_rep rep S' s') (dyn_add_finish ops v mp S) (Some r)"
  using vfs_mount_runs [OF assms(2), of mp]
proof (cases rule: runs_as_cases)
  case (ok u v')
  then obtain w' where "vfs_mount spec w mp = Inr w'" by auto
  with ok assms(1,3) show ?thesis
    by (auto simp: add_vfs_finish_def dyn_add_finish_def state_rep_def intro: list_all2_appendI)
next
  case (err v')
  then have "vfs_mount spec w mp = Inl ErrUnit" by (simp add: rbind_eq_Inl)
  with err assms(1,3) show ?thesis by (auto simp: add_vfs_finish_def dyn_add_finish_def)
next
  case stuck
  then obtain q where "vfs_mount spec w mp = Inl (Panic q)" by (auto simp: not_survives_cases rbind_eq_Inl)
  with stuck(2) assms(3) show ?thesis by (auto simp: add_vfs_finish_def dyn_add_finish_def not_survives_cases)
qed

lemma vfs_new_rep: "rep fs c \<Longrightarrow> vfs_rep rep (vfs_new p fs mp) (vfs_new p c mp)"
  by (simp add: vfs_rep_def vfs_new_def)

lemma add_root_runs:
  assumes "state_rep rep S s" "rep fs c" "mounts s = []" "add_vfs spec p s (ascii ''/'') c = (s', r)"
  shows "runs_as (\<lambda>S'. state_rep rep S' s') (dyn_add_vfs ops p (ascii ''/'') fs S) (Some r)"
proof -
  have S: "mounts S = []" using assms(1,3) by (simp add: state_rep_def)
  from vfs_root_runs [OF vfs_new_rep [OF assms(2), of p "ascii ''/''"]] show ?thesis
  proof (cases rule: runs_as_cases)
    case (ok vn v1)
    then have "state_rep rep (S\<lparr>node_tree := Some (TreeNode vn [])\<rparr>) (s\<lparr>node_tree := Some (TreeNode vn [])\<rparr>)"
      using assms(1) by (simp add: state_rep_def)
    from add_finish_runs [OF this ok(3)] ok S assms(3,4) show ?thesis by (simp add: add_vfs_def dyn_add_vfs_def)
  next
    case (err v1)
    with S assms show ?thesis by (auto simp: add_vfs_def dyn_add_vfs_def)
  next
    case stuck
    then obtain q where "vfs_root spec (vfs_new p c (ascii ''/'')) = Inl (Panic q)" by (auto simp: not_survives_cases)
    with stuck(2) assms(3,4) S show ?thesis by (auto simp: add_vfs_def dyn_add_vfs_def not_survives_cases)
  qed
qed

lemma add_below_runs:
  assumes "state_rep rep S s" "rep fs c" "mounts s \<noteq> []" "mp \<noteq> ascii ''/''" "add_vfs spec p s mp c = (s', r)"
  shows "runs_as (\<lambda>S'. state_rep rep S' s') (dyn_add_vfs ops p mp fs S) (Some r)"
proof -
  have S: "mounts S \<noteq> []" using assms(1,3) by (auto simp: state_rep_def)
  obtain s1 x where o1: "vfs_open spec s mp = (s1, x)" by (cases "vfs_open spec s mp")
  have dyn: "dyn_add_vfs ops p mp fs S = io_bind (dyn_vfs_open ops mp S) (\<lambda>_ s1.
           io_bind (dyn_vfs_open ops mp s1) (\<lambda>path s2.
             dyn_add_finish ops (vfs_new p fs mp) mp (s2\<lparr>node_tree := map_option (mount_node path p) (node_tree s2)\<rparr>)))"
    using S assms(4) by (simp add: dyn_add_vfs_def)
  from vfs_open_runs [OF assms(1) o1] show ?thesis
  proof (cases rule: runs_as_cases)
    case (ok path S1)
    then have o2: "vfs_open spec s1 mp = (s1, Inr path)" using vfs_open_again o1 by simp
    from vfs_open_runs [OF ok(3) o2] obtain S2 where S2: "dyn_vfs_open ops mp S1 = Some (Inr path, S2)" "state_rep rep S2 s1" by auto
    have "add_vfs_finish spec (s1\<lparr>node_tree := map_option (mount_node path p) (node_tree s1)\<rparr>) (vfs_new p c mp) mp = (s', r)"
      using assms(3,4,5) o1 o2 ok(1) by (simp add: add_vfs_def mount_node_def [abs_def])
    from add_finish_runs [OF _ vfs_new_rep [OF assms(2)] this] S2 dyn ok(2) show ?thesis
      by (simp add: state_rep_def)
  next
    case (err S1)
    with assms(3,4,5) o1 dyn show ?thesis by (auto simp: add_vfs_def)
  next
    case stuck
    then obtain q where "x = Inl (Panic q)" by (auto simp: not_survives_cases)
    with assms(3,4,5) o1 dyn stuck(2) show ?thesis by (auto simp: add_vfs_def not_survives_bind)
  qed
qed

lemma add_vfs_runs:
  assumes "state_rep rep S s" "rep fs c" "add_vfs spec p s mp c = (s', r)"
  shows "runs_as (\<lambda>S'. state_rep rep S' s') (dyn_add_vfs ops p mp fs S) (Some r)"
proof (cases "(mp = ascii ''/'') = (mounts s = [])")
  case True
  with add_root_runs [OF assms(1,2)] add_below_runs [OF assms(1,2)] assms(3) show ?thesis
    by (cases "mounts s = []") auto
next
  case False
  with assms show ?thesis by (auto simp: add_vfs_def dyn_add_vfs_def state_rep_def split: if_splits)
qed

text \<open>Unmounting drops the same mount on both sides.\<close>

lemma busy_rep: "list_all2 (vfs_rep rep) ms ns \<Longrightarrow> busy_from mp ms = busy_from mp ns"
proof (induction rule: list_all2_induct)
  case (Cons v ms w ns)
  then have "mount_point v = mount_point w" by (simp add: vfs_rep_def)
  then show ?case unfolding busy_from.simps Cons.IH by simp
qed simp

lemma remove_rep: "list_all2 (vfs_rep rep) ms ns \<Longrightarrow> list_all2 (vfs_rep rep) (remove_vfs mp ms) (remove_vfs mp ns)"
proof (induction rule: list_all2_induct)
  case (Cons v ms w ns)
  then have "mount_point v = mount_point w" by (simp add: vfs_rep_def)
  with Cons show ?case by simp
qed simp

lemma del_vfs_runs:
  assumes "state_rep rep S s" "del_vfs s mp = (s', r)"
  shows "\<exists>S'. del_vfs S mp = (S', r) \<and> state_rep rep S' s'"
proof -
  have m: "list_all2 (vfs_rep rep) (mounts S) (mounts s)" using assms(1) by (simp add: state_rep_def)
  then have e: "mounts S = [] \<longleftrightarrow> mounts s = []" "tl (mounts S) = [] \<longleftrightarrow> tl (mounts s) = []"
    by (auto simp: list_all2_conv_all_nth simp flip: length_0_conv)
  show ?thesis
    using assms e busy_rep [OF m, of mp] remove_rep [OF m, of mp]
    by (auto simp: del_vfs_def mount_point_busy_def state_rep_def split: if_splits sum.splits)
qed

text \<open>Reading a whole file.\<close>

lemma vnode_read_runs:
  assumes "list_all2 (vfs_rep rep) ms ns"
  shows "runs_as (\<lambda>ms'. list_all2 (vfs_rep rep) ms' ns) (dyn_read ops vn count offset f cred ms) (vnode_read spec ns vn count offset)"
proof -
  have "runs_as (\<lambda>ms'. ms' = ms) (Some (op_len spec (inode vn), ms)) (Some (op_len spec (inode vn)))"
    by (cases "op_len spec (inode vn)"; cases "projl (op_len spec (inode vn))") auto
  then show ?thesis
    unfolding dyn_read_def vnode_read_def len_runs
    by (rule runs_as_bind) (auto simp del: obind_simps intro: on_data_runs [OF assms] read_runs assms)
qed

lemma file_read_all_runs:
  assumes "state_rep rep S s" "node_tree s = Some t" "vnode_at t (descriptor fl) = Some vn"
    and "inode vn' = inode vn" "parent_vfs vn' = parent_vfs vn"
  shows "runs_as (\<lambda>S'. state_rep rep S' s) (dyn_file_read_all ops fl offset f S)
    (file_read_all spec (mounts s) vn' offset)"
proof -
  have m: "list_all2 (vfs_rep rep) (mounts S) (mounts s)" using assms(1) by (simp add: state_rep_def)
  have v: "state_vnode S (descriptor fl) = Inr vn" using assms(1-3) by (simp add: state_vnode_def state_rep_def)
  have rd: "vnode_read spec (mounts s) vn' = vnode_read spec (mounts s) vn"
    unfolding vnode_read_def vnode_fs_def assms(4,5) ..
  have "runs_as (\<lambda>S'. state_rep rep S' s) (io_map (\<lambda>ms. S\<lparr>mounts := ms\<rparr>)
      (dyn_read ops vn (n - offset) offset f root_cred (mounts S))) (vnode_read spec (mounts s) vn (n - offset) offset)" for n
    by (rule runs_as_lift [OF vnode_read_runs [OF m]]) (use assms(1) in \<open>simp add: state_rep_def\<close>)
  with v rd assms(1,4) show ?thesis
    by (cases "op_len spec (inode vn)"; cases "projl (op_len spec (inode vn))")
      (simp_all add: dyn_file_read_all_def file_read_def tree_read_def tree_len_def len_runs file_read_all_def)
qed

text \<open>Opening, reading to the end and dropping the file leaves the reference count as it was.\<close>

lemma read_whole_runs:
  assumes rep: "state_rep rep S s" and t: "node_tree s = Some t" "tree_typed t" "vnode_at t p = Some vn"
  shows "runs_as (\<lambda>S'. state_rep rep S' s) (read_whole ops p offset S)
    (case file_read_all spec (mounts s) vn offset of
       None \<Rightarrow> None | Some (Inl (Panic e)) \<Rightarrow> Some (Inl (Panic e)) | Some r \<Rightarrow> Some (Inr r))"
proof -
  obtain d where d: "node_at t p = Some d" "tn_vnode d = vn" using t(3) by (auto simp: vnode_at_def)
  let ?vn = "vn\<lparr>ref_count := ref_count vn + 1\<rparr>" and ?fl = "\<lparr>descriptor = p, file_cred = root_cred\<rparr>"
  let ?t = "update_at p (\<lambda>d. TreeNode ?vn (tn_children d)) t"
  have S: "node_tree S = Some t" using rep t(1) by (simp add: state_rep_def)
  have op: "tree_open ops p 0 root_cred S = Some (Inr ?fl, S\<lparr>node_tree := Some ?t\<rparr>)"
    using S t(3) by (simp add: tree_open_def state_vnode_def node_open_def dyn_open_def open_runs put_vnode_def)
  have rep1: "state_rep rep (S\<lparr>node_tree := Some ?t\<rparr>) (s\<lparr>node_tree := Some ?t\<rparr>)" using rep by (simp add: state_rep_def)
  have vt: "vnode_at ?t p = Some ?vn" using d by (simp add: vnode_at_def node_at_update)
  have "update_at p (\<lambda>d. TreeNode vn (tn_children d)) ?t = t"
    unfolding update_at_twice by (rule update_at_same [OF t(2) d(1)]) (use d(2) in auto)
  then have drop: "\<exists>S3. file_drop ops ?fl S2 = Some (Inr (), S3) \<and> state_rep rep S3 s"
    if "state_rep rep S2 (s\<lparr>node_tree := Some ?t\<rparr>)" for S2
    using that vt t(1) by (simp add: file_drop_def tree_close_def state_vnode_def state_rep_def node_close_def dyn_close_def
        close_runs put_vnode_def)
  have "runs_as (\<lambda>S'. state_rep rep S' (s\<lparr>node_tree := Some ?t\<rparr>)) (dyn_file_read_all ops ?fl offset 0 (S\<lparr>node_tree := Some ?t\<rparr>))
      (file_read_all spec (mounts s) vn offset)"
    using file_read_all_runs [OF rep1, of ?t ?fl ?vn vn offset 0] vt by simp
  then show ?thesis
  proof (cases rule: runs_as_cases)
    case (ok bytes S2)
    with op drop [OF ok(3)] show ?thesis by (auto simp: read_whole_def)
  next
    case (err S2)
    with op drop [OF err(3)] show ?thesis by (auto simp: read_whole_def)
  next
    case stuck
    with op show ?thesis by (auto simp: read_whole_def not_survives_cases)
  qed
qed

end

end
