(* ===== verification/Trait_Objects.thy ===== *)
theory Trait_Objects
  imports Dyn_Vfs_Correct
begin

text \<open>
  Trait objects of two types in one list of mounts. A call through \<^verbatim>\<open>Box<dyn FsOps>\<close> or \<^verbatim>\<open>Box<dyn VNodeOperations>\<close> runs the method
  of the type behind it, which is a case distinction over a sum of types. An inode casts \<^verbatim>\<open>parent_vfs.data\<close> to its own type
  of file system: a file system of the other type there is an access through a wrong pointer. When both types
  behave like a fixed description, so does their sum.
\<close>

definition sum_root :: "('i \<Rightarrow> 'k) \<Rightarrow> ('i \<times> vnode_type) res \<Rightarrow> ('k \<times> vnode_type) res" where
  "sum_root g r = rbind r (\<lambda>(i, ty). Inr (g i, ty))"

definition io_sum :: "('fs \<Rightarrow> 'd) \<Rightarrow> ('i \<Rightarrow> 'k) \<Rightarrow> ('fs, 'i \<times> vnode_type) io \<Rightarrow> ('d, 'k \<times> vnode_type) io" where
  "io_sum h g m = map_option (\<lambda>(r, fs). (sum_root g r, h fs)) m"

definition sum_fs_ops :: "('a, 'i) dyn_fs_ops \<Rightarrow> ('b, 'j) dyn_fs_ops \<Rightarrow> ('a + 'b, 'i + 'j) dyn_fs_ops" where
  "sum_fs_ops A B =
     \<lparr>d_mount = (\<lambda>path fs. case fs of Inl a \<Rightarrow> io_map Inl (d_mount A path a) | Inr b \<Rightarrow> io_map Inr (d_mount B path b)),
      d_unmount = (\<lambda>fs. case fs of Inl a \<Rightarrow> io_map Inl (d_unmount A a) | Inr b \<Rightarrow> io_map Inr (d_unmount B b)),
      d_root = (\<lambda>fs. case fs of Inl a \<Rightarrow> io_sum Inl Inl (d_root A a) | Inr b \<Rightarrow> io_sum Inr Inr (d_root B b)),
      d_statfs = (\<lambda>fs. case fs of Inl a \<Rightarrow> io_map Inl (d_statfs A a) | Inr b \<Rightarrow> io_map Inr (d_statfs B b)),
      d_sync = (\<lambda>fs. case fs of Inl a \<Rightarrow> io_map Inl (d_sync A a) | Inr b \<Rightarrow> io_map Inr (d_sync B b)),
      d_fid = (\<lambda>path fs. case fs of Inl a \<Rightarrow> io_map Inl (d_fid A path a) | Inr b \<Rightarrow> io_map Inr (d_fid B path b)),
      d_vget = (\<lambda>fid fs. case fs of Inl a \<Rightarrow> io_sum Inl Inl (d_vget A fid a) | Inr b \<Rightarrow> io_sum Inr Inr (d_vget B fid b))\<rparr>"

definition sum_vnode_ops :: "('a, 'i, 'box) dyn_vnode_ops \<Rightarrow> ('b, 'j, 'box) dyn_vnode_ops \<Rightarrow> ('a + 'b, 'i + 'j, 'box) dyn_vnode_ops" where
  "sum_vnode_ops A B =
     \<lparr>d_open = (\<lambda>f c. case_sum (d_open A f c) (d_open B f c)),
      d_close = (\<lambda>f c. case_sum (d_close A f c) (d_close B f c)),
      d_read = (\<lambda>count offset f c i fs. case (i, fs) of
          (Inl k, Inl a) \<Rightarrow> io_map Inl (d_read A count offset f c k a)
        | (Inr k, Inr b) \<Rightarrow> io_map Inr (d_read B count offset f c k b)
        | _ \<Rightarrow> Some (Inl (Panic RawAccess), fs)),
      d_write = (\<lambda>offset buf f c. case_sum (d_write A offset buf f c) (d_write B offset buf f c)),
      d_ioctl = (\<lambda>com d f c. case_sum (d_ioctl A com d f c) (d_ioctl B com d f c)),
      d_getattr = (\<lambda>c. case_sum (d_getattr A c) (d_getattr B c)),
      d_setattr = (\<lambda>va c. case_sum (d_setattr A va c) (d_setattr B va c)),
      d_access = (\<lambda>m c. case_sum (d_access A m c) (d_access B m c)),
      d_lookup = (\<lambda>nm c i fs. case (i, fs) of
          (Inl k, Inl a) \<Rightarrow> io_sum Inl Inl (d_lookup A nm c k a)
        | (Inr k, Inr b) \<Rightarrow> io_sum Inr Inr (d_lookup B nm c k b)
        | _ \<Rightarrow> Some (Inl (Panic RawAccess), fs)),
      d_create = (\<lambda>nm va e m c. case_sum (\<lambda>k. sum_root Inl (d_create A nm va e m c k)) (\<lambda>k. sum_root Inr (d_create B nm va e m c k))),
      d_link = (\<lambda>dir nm c. case_sum (d_link A dir nm c) (d_link B dir nm c)),
      d_rename = (\<lambda>nm dir tgt c. case_sum (d_rename A nm dir tgt c) (d_rename B nm dir tgt c)),
      d_mkdir = (\<lambda>nm va c. case_sum (\<lambda>k. sum_root Inl (d_mkdir A nm va c k)) (\<lambda>k. sum_root Inr (d_mkdir B nm va c k))),
      d_readdir = (\<lambda>uiop c. case_sum (d_readdir A uiop c) (d_readdir B uiop c)),
      d_symlink = (\<lambda>nm va tgt c. case_sum (d_symlink A nm va tgt c) (d_symlink B nm va tgt c)),
      d_readlink = (\<lambda>uiop c. case_sum (d_readlink A uiop c) (d_readlink B uiop c)),
      d_fsync = (\<lambda>c. case_sum (d_fsync A c) (d_fsync B c)),
      d_len = case_sum (d_len A) (d_len B)\<rparr>"

definition sum_ops :: "('a, 'i, 'box) dyn_ops \<Rightarrow> ('b, 'j, 'box) dyn_ops \<Rightarrow> ('a + 'b, 'i + 'j, 'box) dyn_ops" where
  "sum_ops A B = (sum_fs_ops (fst A) (fst B), sum_vnode_ops (snd A) (snd B))"

definition sum_spec :: "('a, 'i) fs_ops \<Rightarrow> ('b, 'j) fs_ops \<Rightarrow> ('a + 'b, 'i + 'j) fs_ops" where
  "sum_spec A B =
     \<lparr>op_mount = (\<lambda>path fs. case fs of Inl a \<Rightarrow> rbind (op_mount A path a) (\<lambda>a'. Inr (Inl a'))
        | Inr b \<Rightarrow> rbind (op_mount B path b) (\<lambda>b'. Inr (Inr b'))),
      op_root = case_sum (\<lambda>a. sum_root Inl (op_root A a)) (\<lambda>b. sum_root Inr (op_root B b)),
      op_lookup = (\<lambda>fs i nm. case (i, fs) of
          (Inl k, Inl a) \<Rightarrow> sum_root Inl (op_lookup A a k nm)
        | (Inr k, Inr b) \<Rightarrow> sum_root Inr (op_lookup B b k nm)
        | _ \<Rightarrow> Inl (Panic RawAccess)),
      op_read = (\<lambda>fs i count offset. case (i, fs) of
          (Inl k, Inl a) \<Rightarrow> op_read A a k count offset
        | (Inr k, Inr b) \<Rightarrow> op_read B b k count offset
        | _ \<Rightarrow> Some (Inl (Panic RawAccess))),
      op_len = case_sum (op_len A) (op_len B)\<rparr>"

lemma io_sum_runs:
  assumes "runs_as R m (Some r)" "\<And>fs. R fs \<Longrightarrow> R' (h fs)"
  shows "runs_as R' (io_sum h g m) (Some (sum_root g r))"
  using assms(1)
proof (cases rule: runs_as_cases)
  case stuck
  then have "\<not> survives (Some (sum_root g r))" "\<not> survives (map_option fst (io_sum h g m))"
    by (auto simp: not_survives_cases sum_root_def io_sum_def)
  then show ?thesis by (simp add: runs_as_stuck)
qed (use assms(2) in \<open>auto simp: io_sum_def sum_root_def\<close>)

locale two_models =
  A: fs_model opsA specA repA + B: fs_model opsB specB repB
  for opsA :: "('a, 'i, 'box) dyn_ops" and specA :: "('c, 'i) fs_ops" and repA :: "'a \<Rightarrow> 'c \<Rightarrow> bool"
    and opsB :: "('b, 'j, 'box) dyn_ops" and specB :: "('d, 'j) fs_ops" and repB :: "'b \<Rightarrow> 'd \<Rightarrow> bool"
begin

lemma sum_mount_runs:
  assumes "rel_sum repA repB fs c"
  shows "runs_as (\<lambda>fs'. \<forall>c'. op_mount (sum_spec specA specB) path c = Inr c' \<longrightarrow> rel_sum repA repB fs' c')
    (d_mount (fst (sum_ops opsA opsB)) path fs) (Some (rbind (op_mount (sum_spec specA specB) path c) (\<lambda>_. Inr ())))"
  using assms
proof (cases rule: rel_sum.cases)
  case (1 a x)
  then show ?thesis
    by (auto simp: sum_ops_def sum_fs_ops_def sum_spec_def rbind_assoc intro!: runs_as_lift [OF A.mount_runs])
next
  case (2 b y)
  then show ?thesis
    by (auto simp: sum_ops_def sum_fs_ops_def sum_spec_def rbind_assoc intro!: runs_as_lift [OF B.mount_runs])
qed

lemma sum_read_runs:
  assumes "rel_sum repA repB fs c"
  shows "runs_as (\<lambda>fs'. rel_sum repA repB fs' c) (d_read (snd (sum_ops opsA opsB)) count offset f cred i fs)
    (op_read (sum_spec specA specB) c i count offset)"
  using assms
proof (cases rule: rel_sum.cases)
  case (1 a x)
  then show ?thesis
    by (cases i) (auto simp: sum_ops_def sum_vnode_ops_def sum_spec_def intro: runs_as_lift [OF A.read_runs])
next
  case (2 b y)
  then show ?thesis
    by (cases i) (auto simp: sum_ops_def sum_vnode_ops_def sum_spec_def intro: runs_as_lift [OF B.read_runs])
qed

lemma sum_lookup_runs:
  assumes "rel_sum repA repB fs c"
  shows "runs_as (\<lambda>fs'. rel_sum repA repB fs' c) (d_lookup (snd (sum_ops opsA opsB)) nm cred i fs)
    (Some (op_lookup (sum_spec specA specB) c i nm))"
  using assms
proof (cases rule: rel_sum.cases)
  case (1 a x)
  then show ?thesis
    by (cases i) (auto simp: sum_ops_def sum_vnode_ops_def sum_spec_def intro: io_sum_runs [OF A.lookup_runs])
next
  case (2 b y)
  then show ?thesis
    by (cases i) (auto simp: sum_ops_def sum_vnode_ops_def sum_spec_def intro: io_sum_runs [OF B.lookup_runs])
qed

lemma sum_root_runs:
  assumes "rel_sum repA repB fs c"
  shows "runs_as (\<lambda>fs'. rel_sum repA repB fs' c) (d_root (fst (sum_ops opsA opsB)) fs) (Some (op_root (sum_spec specA specB) c))"
  using assms
  by (cases rule: rel_sum.cases)
    (auto simp: sum_ops_def sum_fs_ops_def sum_spec_def intro: io_sum_runs [OF A.root_runs] io_sum_runs [OF B.root_runs])

end

sublocale two_models \<subseteq> sum: fs_model "sum_ops opsA opsB" "sum_spec specA specB" "rel_sum repA repB"
proof
  show "d_len (snd (sum_ops opsA opsB)) i = op_len (sum_spec specA specB) i" for i
    by (cases i) (simp_all add: sum_ops_def sum_vnode_ops_def sum_spec_def A.len_runs B.len_runs)
  show "d_open (snd (sum_ops opsA opsB)) f cred i = Inr ()" for f cred i
    by (cases i) (simp_all add: sum_ops_def sum_vnode_ops_def A.open_runs B.open_runs)
  show "d_close (snd (sum_ops opsA opsB)) f cred i = Inr ()" for f cred i
    by (cases i) (simp_all add: sum_ops_def sum_vnode_ops_def A.close_runs B.close_runs)
qed (fact sum_mount_runs sum_root_runs sum_lookup_runs sum_read_runs)+

end
