(* ===== verification/Fat_Object.thy ===== *)
theory Fat_Object
  imports Fat_Vfs Trait_Objects
begin

text \<open>
  The FAT driver behind the traits of the virtual file system, with every method: \<^verbatim>\<open>impl FsOps for FatFs\<close> and
  \<^verbatim>\<open>impl VNodeOperations for File\<close> of \<^verbatim>\<open>src/drivers/fs/fat.rs\<close>. The file system holds the block device of its partition.
  Its methods do not change it except for mounting and unmounting, so it is an
  instance of \<open>fs_model\<close> with the operations of \<open>fat_ops\<close>.
\<close>

type_synonym fat_disk = "block_read \<times> fat_fs"

definition fat_fs_methods :: "bool \<Rightarrow> (fat_disk, fat_file) dyn_fs_ops" where
  "fat_fs_methods fat_in_mem =
     \<lparr>d_mount = (\<lambda>path (dev, fs). case fat_mount fat_in_mem dev fs of
          Inl e \<Rightarrow> Some (Inl e, (dev, fs))
        | Inr fs' \<Rightarrow> Some (Inr (), (dev, fs'))),
      d_unmount = (\<lambda>(dev, fs). Some (Inr (), (dev, fat_unmount fs))),
      d_root = (\<lambda>(dev, fs). Some (rbind (fat_root fs) (\<lambda>f. Inr (f, Directory)), (dev, fs))),
      d_statfs = (\<lambda>fs. Some (Inl (Panic TodoPanic), fs)),
      d_sync = (\<lambda>fs. Some (Inl (Panic TodoPanic), fs)),
      d_fid = (\<lambda>path fs. Some (Inl (Panic TodoPanic), fs)),
      d_vget = (\<lambda>fid fs. Some (Inl (Panic TodoPanic), fs))\<rparr>"

definition fat_vnode_methods :: "(utext \<Rightarrow> utext) \<Rightarrow> bool \<Rightarrow> (fat_disk, fat_file, 'box) dyn_vnode_ops" where
  "fat_vnode_methods upper fat_in_mem =
     \<lparr>d_open = (\<lambda>f c fl. Inr ()),
      d_close = (\<lambda>f c fl. Inr ()),
      d_read = (\<lambda>count offset f c fl (dev, fs).
        map_option (\<lambda>r. (r, (dev, fs))) (fat_file_read fat_in_mem dev fs fl count offset)),
      d_write = (\<lambda>offset buf f c fl. Inl (Panic TodoPanic)),
      d_ioctl = (\<lambda>com d f c fl. Inl (Panic TodoPanic)),
      d_getattr = (\<lambda>c fl. Inl (Panic TodoPanic)),
      d_setattr = (\<lambda>va c fl. Inl (Panic TodoPanic)),
      d_access = (\<lambda>m c fl. Inl (Panic TodoPanic)),
      d_lookup = (\<lambda>nm c fl (dev, fs).
        Some (rbind (fat_lookup upper dev fs fl nm) (\<lambda>g. Inr (g, fat_vnode_type g)), (dev, fs))),
      d_create = (\<lambda>nm va e m c fl. Inl (Panic TodoPanic)),
      d_link = (\<lambda>target_dir target_name c fl. Inl (Panic TodoPanic)),
      d_rename = (\<lambda>nm target_dir target_name c fl. Inl (Panic TodoPanic)),
      d_mkdir = (\<lambda>nm va c fl. Inl (Panic TodoPanic)),
      d_readdir = (\<lambda>uiop c fl. Inl (Panic TodoPanic)),
      d_symlink = (\<lambda>link_name va target_name c fl. Inl (Panic TodoPanic)),
      d_readlink = (\<lambda>uiop c fl. Inl (Panic TodoPanic)),
      d_fsync = (\<lambda>c fl. Inl (Panic TodoPanic)),
      d_len = fat_len\<rparr>"

definition fat_methods :: "(utext \<Rightarrow> utext) \<Rightarrow> bool \<Rightarrow> (fat_disk, fat_file, 'box) dyn_ops" where
  "fat_methods upper fat_in_mem = (fat_fs_methods fat_in_mem, fat_vnode_methods upper fat_in_mem)"

text \<open>The operations of \<open>fat_ops\<close> for file systems that carry their device.\<close>

definition fat_disk_ops :: "(utext \<Rightarrow> utext) \<Rightarrow> bool \<Rightarrow> (fat_disk, fat_file) fs_ops" where
  "fat_disk_ops upper fat_in_mem =
     \<lparr>op_mount = (\<lambda>path (dev, fs). rbind (op_mount (fat_ops upper dev fat_in_mem) path fs) (\<lambda>fs'. Inr (dev, fs'))),
      op_root = (\<lambda>(dev, fs). op_root (fat_ops upper dev fat_in_mem) fs),
      op_lookup = (\<lambda>(dev, fs). op_lookup (fat_ops upper dev fat_in_mem) fs),
      op_read = (\<lambda>(dev, fs). op_read (fat_ops upper dev fat_in_mem) fs),
      op_len = fat_len\<rparr>"

lemma runs_as_return: "runs_as (\<lambda>d'. d' = d) (map_option (\<lambda>r. (r, d)) m) m"
  by (cases m rule: survives.cases) auto

lemma runs_as_Some: "runs_as (\<lambda>d'. d' = d) (Some (r, d)) (Some r)"
  using runs_as_return [of d "Some r"] by simp

interpretation fat_object: fs_model "fat_methods upper fat_in_mem" "fat_disk_ops upper fat_in_mem" "(=)"
proof
  fix fs c :: fat_disk and path nm cred i count offset f
  assume eq: "fs = c"
  obtain dev g where c: "c = (dev, g)" by (cases c)
  show "runs_as (\<lambda>fs'. \<forall>c'. op_mount (fat_disk_ops upper fat_in_mem) path c = Inr c' \<longrightarrow> fs' = c')
      (d_mount (fst (fat_methods upper fat_in_mem)) path fs) (Some (rbind (op_mount (fat_disk_ops upper fat_in_mem) path c) (\<lambda>_. Inr ())))"
  proof (cases "fat_mount fat_in_mem dev g")
    case (Inl e)
    with eq c show ?thesis by (cases e) (simp_all add: fat_methods_def fat_fs_methods_def fat_disk_ops_def fat_ops_def)
  qed (use eq c in \<open>simp add: fat_methods_def fat_fs_methods_def fat_disk_ops_def fat_ops_def\<close>)
  show "runs_as (\<lambda>fs'. fs' = c) (d_root (fst (fat_methods upper fat_in_mem)) fs) (Some (op_root (fat_disk_ops upper fat_in_mem) c))"
    using eq c runs_as_Some [of c] by (simp add: fat_methods_def fat_fs_methods_def fat_disk_ops_def fat_ops_def)
  show "runs_as (\<lambda>fs'. fs' = c) (d_lookup (snd (fat_methods upper fat_in_mem)) nm cred i fs)
      (Some (op_lookup (fat_disk_ops upper fat_in_mem) c i nm))"
    using eq c runs_as_Some [of c] by (simp add: fat_methods_def fat_vnode_methods_def fat_disk_ops_def fat_ops_def)
  show "runs_as (\<lambda>fs'. fs' = c) (d_read (snd (fat_methods upper fat_in_mem)) count offset f cred i fs)
      (op_read (fat_disk_ops upper fat_in_mem) c i count offset)"
    using eq c runs_as_return [of c] by (simp add: fat_methods_def fat_vnode_methods_def fat_disk_ops_def fat_ops_def)
qed (simp_all add: fat_methods_def fat_vnode_methods_def fat_disk_ops_def)

end
