(* ===== verification/Ata.thy ===== *)
theory Ata
  imports Fat_Object
begin

text \<open>
  The IDE driver, \<^verbatim>\<open>src/drivers/storage/ide.rs\<close>: the programming of a drive through the ports of its bus, the
  identification of drives, reads and writes of sectors, and the start-up code that reads the partition tables and
  mounts the EFI system partitions. The drive itself is behind the argument \<open>hw\<close>; the polling loops are
  \<^theory_text>\<open>partial_function (option)\<close>, where \<open>None\<close> is a drive that is polled for ever.
\<close>

definition ATA_SECTOR_SIZE :: usize where "ATA_SECTOR_SIZE = 512"

section \<open>Registers, commands and status\<close>

datatype ata_drive_status = StError | StIndex | StCorrupt | StDataReqReady | StDriveSeekDone | StWriteFault
  | StReady | StBusy | StNotPresent

fun status_code :: "ata_drive_status \<Rightarrow> u8" where
  "status_code StError = 0x01"
| "status_code StIndex = 0x02"
| "status_code StCorrupt = 0x04"
| "status_code StDataReqReady = 0x08"
| "status_code StDriveSeekDone = 0x10"
| "status_code StWriteFault = 0x20"
| "status_code StReady = 0x40"
| "status_code StBusy = 0x80"
| "status_code StNotPresent = 0xFF"

text \<open>\<^verbatim>\<open>u8 == ATADriveStatus\<close> tests the bit.\<close>

definition status_eq :: "u8 \<Rightarrow> ata_drive_status \<Rightarrow> bool" where
  "status_eq v st \<longleftrightarrow> v AND status_code st \<noteq> 0"

definition ata_status_from :: "u8 \<Rightarrow> ata_drive_status" where
  "ata_status_from v =
     (if v = 0x01 then StError else if v = 0x02 then StIndex else if v = 0x04 then StCorrupt
      else if v = 0x08 then StDataReqReady else if v = 0x10 then StDriveSeekDone else if v = 0x20 then StWriteFault
      else if v = 0x40 then StReady else if v = 0x80 then StBusy else StNotPresent)"

datatype ata_drive_command = ReadPIO | ReadPIOExt | ReadDMA | ReadDMAExt | WritePIO | WritePIOExt | WriteDMA
  | WriteDMAExt | CacheFlush | CacheFlushExt | Packet | IdentifyPacket | Identify

fun command_code :: "ata_drive_command \<Rightarrow> u8" where
  "command_code ReadPIO = 0x20"
| "command_code ReadPIOExt = 0x24"
| "command_code ReadDMA = 0xC8"
| "command_code ReadDMAExt = 0x25"
| "command_code WritePIO = 0x30"
| "command_code WritePIOExt = 0x34"
| "command_code WriteDMA = 0xCA"
| "command_code WriteDMAExt = 0x35"
| "command_code CacheFlush = 0xE7"
| "command_code CacheFlushExt = 0xEA"
| "command_code Packet = 0xA0"
| "command_code IdentifyPacket = 0xA1"
| "command_code Identify = 0xEC"

datatype ide_drive_type = Pata | PataPi | Sata | SataPi

definition from_lba :: "u8 \<Rightarrow> u8 \<Rightarrow> ide_drive_type option" where
  "from_lba lba_mid lba_high =
     (if lba_mid = 0x00 \<and> lba_high = 0x00 then Some Pata
      else if lba_mid = 0x14 \<and> lba_high = 0xEB then Some PataPi
      else if lba_mid = 0x3C \<and> lba_high = 0xC3 then Some Sata
      else if lba_mid = 0x69 \<and> lba_high = 0x96 then Some SataPi
      else None)"

datatype ata_drive_type = Parent | Child

fun drive_bits :: "ata_drive_type \<Rightarrow> u8" where
  "drive_bits Parent = 0"
| "drive_bits Child = 0x10"

datatype ata_data_register = RegData | RegErrorAndFeatures | RegSectorCount0 | RegLBA0 | RegLBA1 | RegLBA2
  | RegDeviceSelect | RegCommandAndStatus | RegSectorCount1 | RegLBA3 | RegLBA4 | RegLBA5

fun data_register :: "ata_data_register \<Rightarrow> u16" where
  "data_register RegData = 0x00"
| "data_register RegErrorAndFeatures = 0x01"
| "data_register RegSectorCount0 = 0x02"
| "data_register RegLBA0 = 0x03"
| "data_register RegLBA1 = 0x04"
| "data_register RegLBA2 = 0x05"
| "data_register RegDeviceSelect = 0x06"
| "data_register RegCommandAndStatus = 0x07"
| "data_register RegSectorCount1 = 0x08"
| "data_register RegLBA3 = 0x09"
| "data_register RegLBA4 = 0x0A"
| "data_register RegLBA5 = 0x0B"

datatype ata_control_register = RegControlAndAltStatus | RegDeviceAddress

fun control_register :: "ata_control_register \<Rightarrow> u16" where
  "control_register RegControlAndAltStatus = 0x02"
| "control_register RegDeviceAddress = 0x03"

datatype ata_direction = DirRead | DirWrite

section \<open>The bus\<close>

record ata_bus =
  io_bar :: u16
  control_bar :: u16

definition ata_bus_new :: "u16 \<Rightarrow> u16 \<Rightarrow> ata_bus" where
  "ata_bus_new io ctl = \<lparr>io_bar = io AND 0xFFFC, control_bar = ctl AND 0xFFFC\<rparr>"

definition reg :: "ata_bus \<Rightarrow> ata_data_register \<Rightarrow> u16" where
  "reg b r = io_bar b + data_register r"

definition ata_select :: "'d ports \<Rightarrow> ata_bus \<Rightarrow> u8 \<Rightarrow> 'd \<Rightarrow> 'd" where
  "ata_select hw b drive d = outb hw (reg b RegDeviceSelect) drive d"

definition send_command :: "'d ports \<Rightarrow> ata_bus \<Rightarrow> ata_drive_command \<Rightarrow> 'd \<Rightarrow> 'd" where
  "send_command hw b c d = outb hw (reg b RegCommandAndStatus) (command_code c) d"

text \<open>Four reads of the alternate status register pass the time.\<close>

definition ata_status :: "'d ports \<Rightarrow> ata_bus \<Rightarrow> 'd \<Rightarrow> u8 \<times> 'd" where
  "ata_status hw b d =
     (let alt = control_bar b + control_register RegControlAndAltStatus;
          d4 = ((\<lambda>d. snd (inb hw alt d)) ^^ 4) d
      in inb hw (reg b RegCommandAndStatus) d4)"

partial_function (option) wait_for_drive_ready :: "'d ports \<Rightarrow> ata_bus \<Rightarrow> 'd \<Rightarrow> ('d, unit) io" where
  "wait_for_drive_ready hw b d =
     (let r = ata_status hw b d; st = fst r; d1 = snd r in
      if status_eq st StError \<or> status_eq st StWriteFault then Some (Inl ErrUnit, d1)
      else if status_eq st StBusy then wait_for_drive_ready hw b d1
      else if status_eq st StDataReqReady then Some (Inr (), d1)
      else wait_for_drive_ready hw b d1)"

partial_function (option) await_busy :: "'d ports \<Rightarrow> ata_bus \<Rightarrow> 'd \<Rightarrow> 'd option" where
  "await_busy hw b d =
     (let r = ata_status hw b d in if status_eq (fst r) StBusy then await_busy hw b (snd r) else Some (snd r))"

text \<open>The loop of \<^verbatim>\<open>identify\<close> while the drive is busy: a signature in the address registers ends it with an error.\<close>

partial_function (option) identify_busy :: "'d ports \<Rightarrow> ata_bus \<Rightarrow> 'd \<Rightarrow> ('d, unit) io" where
  "identify_busy hw b d =
     (let r = ata_status hw b d in
      if status_eq (fst r) StBusy then
        (let mid = inb hw (reg b RegLBA1) (snd r); high = inb hw (reg b RegLBA2) (snd mid) in
         if fst mid \<noteq> 0 \<or> fst high \<noteq> 0 then Some (Inl ErrUnit, snd high) else identify_busy hw b (snd high))
      else Some (Inr (), snd r))"

definition identify_start :: "'d ports \<Rightarrow> ata_bus \<Rightarrow> ata_drive_type \<Rightarrow> 'd \<Rightarrow> 'd" where
  "identify_start hw b drive d =
     (let d1 = ata_select hw b (0xA0 OR drive_bits drive) d;
          d2 = outb_all hw
                 [(reg b RegSectorCount0, 0), (reg b RegLBA0, 0), (reg b RegLBA1, 0), (reg b RegLBA2, 0)] d1
      in outb hw (control_bar b + 0x0C - 0x0A) 2 d2)"

definition identify :: "'d ports \<Rightarrow> ata_bus \<Rightarrow> ata_drive_type \<Rightarrow> 'd \<Rightarrow> ('d, u8 list) io" where
  "identify hw b drive d =
     (let (st, d4) = ata_status hw b (send_command hw b Identify (identify_start hw b drive d)) in
      if st = 0x00 then Some (Inl ErrUnit, d4)
      else io_bind (identify_busy hw b d4) (\<lambda>_ d5.
        let (lba_mid, d6) = inb hw (reg b RegLBA1) d5;
            (lba_high, d7) = inb hw (reg b RegLBA2) d6
        in if from_lba lba_mid lba_high = Some Pata
           then io_bind (wait_for_drive_ready hw b d7) (\<lambda>_ d8.
                  let (ws, d9) = in_words hw (reg b RegData) 256 d8 in Some (Inr (words_bytes ws), d9))
           else Some (Inl ErrUnit, d7)))"

section \<open>Sector transfers\<close>

definition address_registers :: "ata_bus \<Rightarrow> u64 \<Rightarrow> usize \<Rightarrow> (u16 \<times> u8) list" where
  "address_registers b sector sector_count =
     [(reg b RegSectorCount0, ucast sector_count), (reg b RegLBA0, ucast sector),
      (reg b RegLBA1, ucast (drop_bit 8 sector)), (reg b RegLBA2, ucast (drop_bit 16 sector))]"

definition high_registers :: "ata_bus \<Rightarrow> u64 \<Rightarrow> usize \<Rightarrow> (u16 \<times> u8) list" where
  "high_registers b sector sector_count =
     [(reg b RegSectorCount0, ucast (drop_bit 8 sector_count)), (reg b RegLBA0, ucast (drop_bit 24 sector)),
      (reg b RegLBA1, ucast (drop_bit 32 sector)), (reg b RegLBA2, ucast (drop_bit 40 sector))]"

text \<open>Programming of the registers and the command, with 48-bit addresses from sector \<open>2\<^sup>2\<^sup>8 - 1\<close> on.\<close>

definition issue_access ::
    "'d ports \<Rightarrow> ata_bus \<Rightarrow> ata_drive_type \<Rightarrow> u64 \<Rightarrow> usize \<Rightarrow> ata_direction \<Rightarrow> 'd \<Rightarrow> 'd" where
  "issue_access hw b drive sector sector_count direction d =
     (if sector \<ge> 2 ^ 28 - 1 then
        let d1 = ata_select hw b (0x40 OR drive_bits drive) d;
            d2 = outb_all hw (high_registers b sector sector_count) d1;
            d3 = outb_all hw (address_registers b sector sector_count) d2
        in send_command hw b (case direction of DirRead \<Rightarrow> ReadPIOExt | DirWrite \<Rightarrow> WritePIOExt) d3
      else
        let d1 = ata_select hw b (0xE0 OR drive_bits drive OR (ucast (drop_bit 24 sector) AND 0x0F)) d;
            d2 = outb_all hw (address_registers b sector sector_count) d1
        in send_command hw b (case direction of DirRead \<Rightarrow> ReadPIO | DirWrite \<Rightarrow> WritePIO) d2)"

text \<open>The loop over the sectors; \<open>off\<close> is \<^verbatim>\<open>buffer_offset\<close>, in words.\<close>

fun transfer ::
    "'d ports \<Rightarrow> ata_bus \<Rightarrow> ata_direction \<Rightarrow> nat \<Rightarrow> nat \<Rightarrow> u8 list \<Rightarrow> 'd \<Rightarrow> ('d, u8 list) io" where
  "transfer hw b direction off 0 buffer d = Some (Inr buffer, d)"
| "transfer hw b direction off (Suc n) buffer d =
     io_bind (wait_for_drive_ready hw b d) (\<lambda>_ d1.
       case direction of
         DirRead \<Rightarrow> io_bind (Some (insw hw (reg b RegData) buffer off 256 d1)) (\<lambda>buffer' d2.
           transfer hw b direction (off + 256) n buffer' d2)
       | DirWrite \<Rightarrow> io_bind (Some (outsw hw (reg b RegData) buffer off 256 d1)) (\<lambda>_ d2.
           transfer hw b direction (off + 256) n buffer d2))"

definition ide_access ::
    "'d ports \<Rightarrow> ata_bus \<Rightarrow> ata_drive_type \<Rightarrow> u64 \<Rightarrow> usize \<Rightarrow> ata_direction \<Rightarrow> u8 list \<Rightarrow> 'd \<Rightarrow> ('d, u8 list) io" where
  "ide_access hw b drive sector sector_count direction buffer d =
     (case await_busy hw b d of
        None \<Rightarrow> None
      | Some d1 \<Rightarrow>
          let d2 = issue_access hw b drive sector sector_count direction d1;
              array_size = sector_count * ATA_SECTOR_SIZE
          in if length buffer \<ge> unat array_size
             then transfer hw b direction 0 (unat sector_count) buffer d2
             else Some (Inl (Panic AssertFailed), d2))"

definition bus_read :: "'d ports \<Rightarrow> ata_bus \<Rightarrow> ata_drive_type \<Rightarrow> u64 \<Rightarrow> usize \<Rightarrow> 'd \<Rightarrow> ('d, u8 list) io" where
  "bus_read hw b drive sector sector_count d =
     ide_access hw b drive sector sector_count DirRead
       (replicate (unat (ATA_SECTOR_SIZE * sector_count)) 0) d"

definition bus_write ::
    "'d ports \<Rightarrow> ata_bus \<Rightarrow> ata_drive_type \<Rightarrow> u64 \<Rightarrow> usize \<Rightarrow> u8 list \<Rightarrow> 'd \<Rightarrow> ('d, unit) io" where
  "bus_write hw b drive sector sector_count buffer d =
     (if length buffer < unat (ATA_SECTOR_SIZE * sector_count) then Some (Inl ErrUnit, d)
      else io_bind (ide_access hw b drive sector sector_count DirWrite buffer d) (\<lambda>_ d1. Some (Inr (), d1)))"

text \<open>The two writes go to the sector count register of the drive: its offset in the data registers is the offset
  of the control register in the control registers.\<close>

definition software_reset :: "'d ports \<Rightarrow> ata_bus \<Rightarrow> 'd \<Rightarrow> 'd" where
  "software_reset hw b d =
     (let port = io_bar b + control_register RegControlAndAltStatus;
          d1 = outb hw port 0x04 d;
          d2 = ((\<lambda>d. snd (ata_status hw b d)) ^^ 10) d1
      in outb hw port 0x00 d2)"

section \<open>Drives\<close>

record ata_drive =
  drive_bus :: ata_bus
  identify_data :: "u8 list"
  drive_type :: ata_drive_type

definition ata_drive_new :: "'d ports \<Rightarrow> ata_bus \<Rightarrow> ata_drive_type \<Rightarrow> 'd \<Rightarrow> ('d, ata_drive) io" where
  "ata_drive_new hw b drive d =
     io_bind (identify hw b drive d) (\<lambda>dat d1.
       Some (rbind (slice_res dat 98 100) (\<lambda>cap.
             rbind (rassert (length cap = 2)) (\<lambda>_.
             let capabilities = (ucast (cap ! 0) OR push_bit 8 (ucast (cap ! 1))) :: u16 in
             if capabilities AND 0x200 = 0 then Inl ErrUnit
             else Inr \<lparr>drive_bus = b, identify_data = dat, drive_type = drive\<rparr>)), d1))"

definition drive_sector_count :: "ata_drive \<Rightarrow> u64" where
  "drive_sector_count drv = ucast (of_nat (le_val (take 4 (drop 120 (identify_data drv)))) :: u32)"

definition drive_read :: "'d ports \<Rightarrow> ata_drive \<Rightarrow> u64 \<Rightarrow> usize \<Rightarrow> 'd \<Rightarrow> ('d, u8 list) io" where
  "drive_read hw drv sector sector_count d =
     (if sector + sector_count > drive_sector_count drv then Some (Inl ErrUnit, d)
      else bus_read hw (drive_bus drv) (drive_type drv) sector sector_count (software_reset hw (drive_bus drv) d))"

definition drive_write :: "'d ports \<Rightarrow> ata_drive \<Rightarrow> u64 \<Rightarrow> u8 list \<Rightarrow> 'd \<Rightarrow> ('d, unit) io" where
  "drive_write hw drv sector buffer d =
     (let sector_count = of_nat (length buffer) div 512 in
      bus_write hw (drive_bus drv) (drive_type drv) sector sector_count buffer (software_reset hw (drive_bus drv) d))"

section \<open>Start-up\<close>

definition detect_drive :: "'d ports \<Rightarrow> ata_bus \<Rightarrow> ata_drive_type \<Rightarrow> ata_drive list \<times> 'd \<Rightarrow> (ata_drive list \<times> 'd) res option" where
  "detect_drive hw b ty s =
     (case ata_drive_new hw b ty (snd s) of
        None \<Rightarrow> None
      | Some (Inr drv, d) \<Rightarrow> Some (Inr (fst s @ [drv], d))
      | Some (Inl ErrUnit, d) \<Rightarrow> Some (Inr (fst s, d))
      | Some (Inl (Panic p), d) \<Rightarrow> Some (Inl (Panic p)))"

definition detect_drives :: "'d ports \<Rightarrow> u32 \<Rightarrow> u32 \<Rightarrow> 'd \<Rightarrow> (ata_drive list \<times> 'd) res option" where
  "detect_drives hw bar0 bar1 d =
     (let b = ata_bus_new (ucast bar0) (ucast bar1) in
      obind (detect_drive hw b Parent ([], d)) (detect_drive hw b Child))"

text \<open>The partition table of one drive, up to the list of partitions.\<close>

definition read_partitions :: "'d ports \<Rightarrow> ata_drive \<Rightarrow> 'd \<Rightarrow> ('d, partition list) io" where
  "read_partitions hw drv d =
     io_bind (io_expect (drive_read hw drv 0 1 d)) (\<lambda>s0 d1.
     io_bind (Some (mbr_from s0, d1)) (\<lambda>m d1.
     io_bind (Some (rassert (of_nat (le_val (mbr_signature m)) = (0xAA55 :: u16)), d1)) (\<lambda>_ d1.
     io_bind (Some (rbind (mbr_partitions m) (\<lambda>ps. index_res ps 0), d1)) (\<lambda>p0 d1.
     io_bind (Some (rassert (partition_type p0 = 0xEE), d1)) (\<lambda>_ d1.
     io_bind (io_expect (drive_read hw drv 1 1 d1)) (\<lambda>s1 d2.
     io_bind (Some (rbind (slice_res s1 0 512) gpt_header_new, d2)) (\<lambda>gpt d2.
     io_bind (io_expect (drive_read hw drv 2
         (ucast (partition_entry_count gpt * partition_entry_size gpt) div ATA_SECTOR_SIZE) d2)) (\<lambda>table d3.
       Some (gpt_scan table (partition_entry_count gpt) (partition_entry_size gpt), d3)))))))))"

text \<open>
  Mounting: every partition with the type of an EFI system partition that holds a FAT file system is mounted at
  \<^verbatim>\<open>/mnt\<close>; errors are ignored. \<open>box\<close> turns the file system into the trait object the virtual file system keeps,
  and \<open>p\<close> is the address the next box gets. \<open>dev\<close> is the drive as a block device.
\<close>

fun mount_partitions ::
    "('fs, 'ino, 'box) dyn_ops \<Rightarrow> (fat_disk \<Rightarrow> 'fs) \<Rightarrow> block_read \<Rightarrow> vfs_ptr \<Rightarrow> partition list \<Rightarrow> ('fs, 'ino) vfs_state
       \<Rightarrow> (('fs, 'ino) vfs_state, unit) io" where
  "mount_partitions ops box dev p [] s = Some (Inr (), s)"
| "mount_partitions ops box dev p (MBRPartition m # ps) s = Some (Inl (Panic TodoPanic), s)"
| "mount_partitions ops box dev p (GPTPartition g # ps) s =
     (if \<not> uuid_eq_str (partition_type_guid g) ''C12A7328-F81F-11D2-BA4B-00A0C93EC93B'' then mount_partitions ops box dev p ps s
     else case fat_fs_new dev (GPTPartition g) of
         Inl ErrUnit \<Rightarrow> mount_partitions ops box dev p ps s
       | Inl (Panic q) \<Rightarrow> Some (Inl (Panic q), s)
       | Inr fs \<Rightarrow>
           (case dyn_add_vfs ops p (ascii ''/mnt'') (box (dev, fs)) s of
              None \<Rightarrow> None
            | Some (Inl (Panic q), s1) \<Rightarrow> Some (Inl (Panic q), s1)
            | Some (_, s1) \<Rightarrow> mount_partitions ops box dev (Suc p) ps s1))"

text \<open>The loop over the detected drives; a partition takes at most one box.\<close>

fun init_drives ::
    "'d ports \<Rightarrow> ('fs, 'ino, 'box) dyn_ops \<Rightarrow> (fat_disk \<Rightarrow> 'fs) \<Rightarrow> (ata_drive \<Rightarrow> block_read) \<Rightarrow> vfs_ptr \<Rightarrow> ata_drive list
       \<Rightarrow> 'd \<Rightarrow> ('fs, 'ino) vfs_state \<Rightarrow> ('d, ('fs, 'ino) vfs_state) io" where
  "init_drives hw ops box dev p [] d s = Some (Inr s, d)"
| "init_drives hw ops box dev p (drv # drvs) d s =
     io_bind (read_partitions hw drv d) (\<lambda>ps d1.
       case mount_partitions ops box (dev drv) p ps s of
         None \<Rightarrow> None
       | Some (Inl e, s1) \<Rightarrow> Some (Inl e, d1)
       | Some (Inr _, s1) \<Rightarrow> init_drives hw ops box dev (p + length ps) drvs d1 s1)"

definition ide_initialize ::
    "'d ports \<Rightarrow> ('fs, 'ino, 'box) dyn_ops \<Rightarrow> (fat_disk \<Rightarrow> 'fs) \<Rightarrow> (ata_drive \<Rightarrow> block_read) \<Rightarrow> vfs_ptr \<Rightarrow> u32 \<Rightarrow> u32
       \<Rightarrow> 'd \<Rightarrow> ('fs, 'ino) vfs_state \<Rightarrow> ('d, ata_drive list \<times> ('fs, 'ino) vfs_state) io" where
  "ide_initialize hw ops box dev p bar0 bar1 d s =
     (case detect_drives hw bar0 bar1 d of
        None \<Rightarrow> None
      | Some (Inl e) \<Rightarrow> Some (Inl e, d)
      | Some (Inr (drvs, d1)) \<Rightarrow>
          io_bind (init_drives hw ops box dev p drvs d1 s) (\<lambda>s1 d2. Some (Inr (drvs, s1), d2)))"

definition ide_init ::
    "'d ports \<Rightarrow> ('fs, 'ino, 'box) dyn_ops \<Rightarrow> (fat_disk \<Rightarrow> 'fs) \<Rightarrow> (ata_drive \<Rightarrow> block_read) \<Rightarrow> vfs_ptr
       \<Rightarrow> 'd \<Rightarrow> ('fs, 'ino) vfs_state \<Rightarrow> ('d, ata_drive list \<times> ('fs, 'ino) vfs_state) io" where
  "ide_init hw ops box dev p d s = ide_initialize hw ops box dev p 0x1F0 0x3F6 d s"

end
