(* ===== verification/Ata_Correct.thy ===== *)
theory Ata_Correct
  imports Ata
begin

text \<open>
  What the IDE driver achieves with drives that follow the ATA protocol for programmed transfers. The protocol is an
  abstract machine: the registers with their previous contents (48-bit addresses are written in two halves), the
  phase of the command and the contents of the disks. \<open>ata_device\<close> says that the ports of a bus lead to such
  drives: \<open>view\<close> reads the machine off the state of the devices and \<open>busy\<close> bounds the time a drive stays busy. The laws
  are those of the standard: while a drive is busy only the busy bit of its status means anything, registers are
  written only to a drive at rest, and nothing is said of what the address registers read as. The driver looks at the
  other bits all the same; what can come of that is a second outcome of the theorems, \<open>error_while_busy\<close>.
\<close>

section \<open>The protocol\<close>

datatype ata_phase = Idle | Failed | DataIn "u16 list" | DataOut nat nat "u16 list"

record ata_view =
  cur :: "u16 \<Rightarrow> u8"
  hob :: "u16 \<Rightarrow> u8"
  dev_reg :: u8
  phase :: ata_phase
  disk :: "ata_drive_type \<Rightarrow> nat \<Rightarrow> u16 list"

record 'd ata_spec =
  present :: "ata_drive_type \<Rightarrow> bool"
  capacity :: "ata_drive_type \<Rightarrow> nat"
  ident :: "ata_drive_type \<Rightarrow> u16 list"
  view :: "'d \<Rightarrow> ata_view"
  busy :: "'d \<Rightarrow> nat"

definition selected :: "ata_view \<Rightarrow> ata_drive_type" where
  "selected v = (if bit (dev_reg v) 4 then Child else Parent)"

definition lba28 :: "ata_view \<Rightarrow> nat" where
  "lba28 v = le_val [cur v 3, cur v 4, cur v 5, dev_reg v AND 0x0F]"

definition lba48 :: "ata_view \<Rightarrow> nat" where
  "lba48 v = le_val [cur v 3, cur v 4, cur v 5, hob v 3, hob v 4, hob v 5]"

definition count28 :: "ata_view \<Rightarrow> nat" where
  "count28 v = (if cur v 2 = 0 then 256 else unat (cur v 2))"

definition count48 :: "ata_view \<Rightarrow> nat" where
  "count48 v = (let n = le_val [cur v 2, hob v 2] in if n = 0 then 65536 else n)"

text \<open>The effect of a command on sectors \<open>lba\<close> to \<open>lba + n - 1\<close> of the \<open>lim\<close> sectors it can reach; nothing is said
  about ranges that only start among them.\<close>

definition start_transfer :: "bool \<Rightarrow> nat \<Rightarrow> nat \<Rightarrow> nat \<Rightarrow> ata_view \<Rightarrow> ata_view option" where
  "start_transfer out lim lba n v =
     (if lba + n \<le> lim then
        Some (v\<lparr>phase := if out then DataOut lba n []
                         else DataIn (concat (map (disk v (selected v)) [lba..<lba + n]))\<rparr>)
      else if lim \<le> lba then Some (v\<lparr>phase := Failed\<rparr>)
      else None)"

definition run_command :: "'d ata_spec \<Rightarrow> u8 \<Rightarrow> ata_view \<Rightarrow> ata_view option" where
  "run_command sp c v =
     (if c = 0xEC then Some (v\<lparr>phase := DataIn (ident sp (selected v))\<rparr>)
      else if c = 0x20 then start_transfer False (min (capacity sp (selected v)) (2 ^ 28)) (lba28 v) (count28 v) v
      else if c = 0x24 then start_transfer False (min (capacity sp (selected v)) (2 ^ 48)) (lba48 v) (count48 v) v
      else if c = 0x30 then start_transfer True (min (capacity sp (selected v)) (2 ^ 28)) (lba28 v) (count28 v) v
      else if c = 0x34 then start_transfer True (min (capacity sp (selected v)) (2 ^ 48)) (lba48 v) (count48 v) v
      else None)"

definition after_read :: "u16 list \<Rightarrow> ata_phase" where
  "after_read ws = (if ws = [] then Idle else DataIn ws)"

definition after_write :: "ata_view \<Rightarrow> nat \<Rightarrow> nat \<Rightarrow> u16 list \<Rightarrow> ata_view" where
  "after_write v lba n ws =
     (if length ws < 256 then v\<lparr>phase := DataOut lba n ws\<rparr>
      else v\<lparr>phase := (if n \<le> 1 then Idle else DataOut (Suc lba) (n - 1) []),
             disk := (disk v)(selected v := (disk v (selected v))(lba := ws))\<rparr>)"

definition transferring :: "ata_phase \<Rightarrow> bool" where
  "transferring p = (case p of DataIn _ \<Rightarrow> True | DataOut _ _ _ \<Rightarrow> True | _ \<Rightarrow> False)"

definition resting :: "ata_phase \<Rightarrow> bool" where
  "resting p \<longleftrightarrow> p = Idle \<or> p = Failed"

text \<open>The status byte of a drive that is not busy.\<close>

definition status_of :: "ata_phase \<Rightarrow> u8 \<Rightarrow> bool" where
  "status_of p s \<longleftrightarrow> s \<noteq> 0 \<and> \<not> bit s 7 \<and> \<not> bit s 5 \<and> bit s 0 = (p = Failed) \<and> bit s 3 = transferring p"

section \<open>A bus with drives\<close>

definition status_law :: "'d ports \<Rightarrow> ata_bus \<Rightarrow> 'd ata_spec \<Rightarrow> bool" where
  "status_law hw b sp \<longleftrightarrow>
     (\<forall>d. view sp (snd (port_in8 hw (control_bar b + 2) d)) = view sp d
        \<and> busy sp (snd (port_in8 hw (control_bar b + 2) d)) \<le> busy sp d)
   \<and> (\<forall>d. view sp (snd (port_in8 hw (io_bar b + 7) d)) = view sp d)
   \<and> (\<forall>d. \<not> present sp (selected (view sp d)) \<longrightarrow> fst (port_in8 hw (io_bar b + 7) d) = 0
        \<and> busy sp (snd (port_in8 hw (io_bar b + 7) d)) = busy sp d)
   \<and> (\<forall>d. present sp (selected (view sp d)) \<and> busy sp d = 0 \<longrightarrow>
        status_of (phase (view sp d)) (fst (port_in8 hw (io_bar b + 7) d))
        \<and> busy sp (snd (port_in8 hw (io_bar b + 7) d)) = 0)
   \<and> (\<forall>d. present sp (selected (view sp d)) \<and> 0 < busy sp d \<longrightarrow>
        bit (fst (port_in8 hw (io_bar b + 7) d)) 7
        \<and> busy sp (snd (port_in8 hw (io_bar b + 7) d)) < busy sp d)"

definition register_law :: "'d ports \<Rightarrow> ata_bus \<Rightarrow> 'd ata_spec \<Rightarrow> bool" where
  "register_law hw b sp \<longleftrightarrow>
     (\<forall>d r x. r \<in> {2, 3, 4, 5} \<and> busy sp d = 0 \<and> resting (phase (view sp d)) \<longrightarrow>
        view sp (port_out8 hw (io_bar b + r) x d)
          = (view sp d)\<lparr>hob := (hob (view sp d))(r := cur (view sp d) r), cur := (cur (view sp d))(r := x)\<rparr>
        \<and> busy sp (port_out8 hw (io_bar b + r) x d) = 0)
   \<and> (\<forall>d x. busy sp d = 0 \<and> resting (phase (view sp d)) \<longrightarrow>
        view sp (port_out8 hw (io_bar b + 6) x d) = (view sp d)\<lparr>dev_reg := x\<rparr>
        \<and> busy sp (port_out8 hw (io_bar b + 6) x d) = 0)
   \<and> (\<forall>d. view sp (port_out8 hw (control_bar b + 2) 2 d) = view sp d
        \<and> busy sp (port_out8 hw (control_bar b + 2) 2 d) = busy sp d)
   \<and> (\<forall>d r. r \<in> {4, 5} \<longrightarrow> view sp (snd (port_in8 hw (io_bar b + r) d)) = view sp d
        \<and> busy sp (snd (port_in8 hw (io_bar b + r) d)) \<le> busy sp d)"

definition command_law :: "'d ports \<Rightarrow> ata_bus \<Rightarrow> 'd ata_spec \<Rightarrow> bool" where
  "command_law hw b sp \<longleftrightarrow>
     (\<forall>d c v. present sp (selected (view sp d)) \<and> busy sp d = 0 \<and> resting (phase (view sp d))
        \<and> run_command sp c (view sp d) = Some v \<longrightarrow> view sp (port_out8 hw (io_bar b + 7) c d) = v)
   \<and> (\<forall>d c. \<not> present sp (selected (view sp d)) \<longrightarrow> view sp (port_out8 hw (io_bar b + 7) c d) = view sp d
        \<and> busy sp (port_out8 hw (io_bar b + 7) c d) = busy sp d)"

definition data_law :: "'d ports \<Rightarrow> ata_bus \<Rightarrow> 'd ata_spec \<Rightarrow> bool" where
  "data_law hw b sp \<longleftrightarrow>
     (\<forall>d w ws. busy sp d = 0 \<and> phase (view sp d) = DataIn (w # ws) \<longrightarrow>
        fst (port_in16 hw (io_bar b) d) = w
        \<and> view sp (snd (port_in16 hw (io_bar b) d)) = (view sp d)\<lparr>phase := after_read ws\<rparr>
        \<and> (length ws mod 256 \<noteq> 0 \<or> ws = [] \<longrightarrow> busy sp (snd (port_in16 hw (io_bar b) d)) = 0))
   \<and> (\<forall>d w lba n ws. busy sp d = 0 \<and> phase (view sp d) = DataOut lba n ws \<longrightarrow>
        view sp (port_out16 hw (io_bar b) w d) = after_write (view sp d) lba n (ws @ [w])
        \<and> (length (ws @ [w]) < 256 \<longrightarrow> busy sp (port_out16 hw (io_bar b) w d) = 0))"

text \<open>A bus with a parent drive, and perhaps a child: the parent answers for a missing child, with a status of 0.\<close>

definition ata_device :: "'d ports \<Rightarrow> ata_bus \<Rightarrow> 'd ata_spec \<Rightarrow> bool" where
  "ata_device hw b sp \<longleftrightarrow> present sp Parent \<and> status_law hw b sp \<and> register_law hw b sp \<and> command_law hw b sp
     \<and> data_law hw b sp"

text \<open>The driver looks at the error bits before the busy bit. The standard leaves them open while a drive is busy: there are
  drives on which one of them can be seen set.\<close>

definition error_while_busy :: "'d ports \<Rightarrow> ata_bus \<Rightarrow> 'd ata_spec \<Rightarrow> bool" where
  "error_while_busy hw b sp \<longleftrightarrow>
     (\<exists>d. present sp (selected (view sp d)) \<and> 0 < busy sp d
        \<and> (bit (fst (port_in8 hw (io_bar b + 7) d)) 0 \<or> bit (fst (port_in8 hw (io_bar b + 7) d)) 5))"

section \<open>Polling\<close>

lemma status_eq_bits:
  "status_eq s StError = bit s 0" "status_eq s StWriteFault = bit s 5" "status_eq s StBusy = bit s 7"
  "status_eq s StDataReqReady = bit s 3"
  unfolding status_eq_def using u8_test [of s 0] u8_test [of s 5] u8_test [of s 7] u8_test [of s 3]
  by (simp_all add: push_bit_eq_mult)

lemma alt_status_waits:
  assumes "ata_device hw b sp"
  shows "view sp (((\<lambda>d. snd (inb hw (control_bar b + 2) d)) ^^ n) d) = view sp d
    \<and> busy sp (((\<lambda>d. snd (inb hw (control_bar b + 2) d)) ^^ n) d) \<le> busy sp d"
  using assms
  by (induction n) (auto simp: ata_device_def status_law_def inb_def intro: le_trans)

lemma ata_status_view: "ata_device hw b sp \<Longrightarrow> view sp (snd (ata_status hw b d)) = view sp d"
  using alt_status_waits [of hw b sp 4 d]
  by (simp add: ata_status_def Let_def reg_def ata_device_def status_law_def inb_def)

lemma status_busy:
  assumes "ata_device hw b sp" "present sp (selected (view sp d))" "0 < busy sp d"
  shows "bit (fst (port_in8 hw (io_bar b + 7) d)) 7" "busy sp (snd (port_in8 hw (io_bar b + 7) d)) < busy sp d"
    "bit (fst (port_in8 hw (io_bar b + 7) d)) 0 \<or> bit (fst (port_in8 hw (io_bar b + 7) d)) 5 \<Longrightarrow> error_while_busy hw b sp"
  using assms by (auto simp: ata_device_def status_law_def error_while_busy_def)

lemma status_ready:
  assumes "ata_device hw b sp" "present sp (selected (view sp d))" "busy sp d = 0"
  shows "status_of (phase (view sp d)) (fst (port_in8 hw (io_bar b + 7) d))"
    "busy sp (snd (port_in8 hw (io_bar b + 7) d)) = 0"
  using assms by (simp_all add: ata_device_def status_law_def)

lemma ata_status_cases:
  assumes dev: "ata_device hw b sp" and "present sp (selected (view sp d))"
  obtains "bit (fst (ata_status hw b d)) 7" "busy sp (snd (ata_status hw b d)) < busy sp d" "0 < busy sp d"
      "bit (fst (ata_status hw b d)) 0 \<or> bit (fst (ata_status hw b d)) 5 \<longrightarrow> error_while_busy hw b sp"
    | "status_of (phase (view sp d)) (fst (ata_status hw b d))" "busy sp (snd (ata_status hw b d)) = 0"
proof -
  define d4 where "d4 = ((\<lambda>d. snd (inb hw (control_bar b + 2) d)) ^^ 4) d"
  have d4: "view sp d4 = view sp d" "busy sp d4 \<le> busy sp d"
    using alt_status_waits [OF dev, of 4 d] by (simp_all add: d4_def)
  have st: "ata_status hw b d = port_in8 hw (io_bar b + 7) d4"
    by (simp add: ata_status_def reg_def inb_def d4_def Let_def)
  show ?thesis
  proof (cases "busy sp d4 = 0")
    case True
    then show ?thesis
      using that(2) status_ready [OF dev, of d4] assms(2) d4 by (simp add: st)
  next
    case False
    then show ?thesis
      using that(1) status_busy [OF dev, of d4] assms(2) d4 by (simp add: st)
  qed
qed

lemma await_busy_returns:
  assumes "ata_device hw b sp" "present sp (selected (view sp d))"
  obtains d' where "await_busy hw b d = Some d'" "view sp d' = view sp d" "busy sp d' = 0"
proof -
  have "\<exists>d'. await_busy hw b d = Some d' \<and> view sp d' = view sp d \<and> busy sp d' = 0"
    using assms(2)
  proof (induction "busy sp d" arbitrary: d rule: less_induct)
    case less
    note vw = ata_status_view [OF assms(1), of d]
    from assms(1) less.prems show ?case
    proof (cases rule: ata_status_cases)
      case 1
      then show ?thesis
        using less.hyps [OF 1(2)] less.prems vw
        by (subst await_busy.simps) (simp add: Let_def status_eq_bits)
    next
      case 2
      then show ?thesis
        using vw by (subst await_busy.simps) (simp add: Let_def status_eq_bits status_of_def)
    qed
  qed
  then show ?thesis using that by blast
qed

text \<open>Waiting for data ends as soon as the drive has prepared the next sector, or reports an error, or shows one while it is busy.\<close>

lemma wait_ready_returns:
  assumes "ata_device hw b sp" "present sp (selected (view sp d))"
    and "transferring (phase (view sp d)) \<or> phase (view sp d) = Failed"
  obtains (ready) d' where "wait_for_drive_ready hw b d
      = Some (if phase (view sp d) = Failed then Inl ErrUnit else Inr (), d')"
      "view sp d' = view sp d" "busy sp d' = 0"
  | (early) d' where "wait_for_drive_ready hw b d = Some (Inl ErrUnit, d')" "view sp d' = view sp d"
      "0 < busy sp d" "error_while_busy hw b sp"
proof -
  let ?result = "\<lambda>d r d'. r = (if phase (view sp d) = Failed then Inl ErrUnit else Inr ()) \<and> busy sp d' = 0
    \<or> r = Inl ErrUnit \<and> 0 < busy sp d \<and> error_while_busy hw b sp"
  have "\<exists>r d'. wait_for_drive_ready hw b d = Some (r, d') \<and> view sp d' = view sp d \<and> ?result d r d'"
    using assms(2,3)
  proof (induction "busy sp d" arbitrary: d rule: less_induct)
    case less
    note vw = ata_status_view [OF assms(1), of d]
    from assms(1) less.prems(1) show ?case
    proof (cases rule: ata_status_cases)
      case 1
      show ?thesis
      proof (cases "bit (fst (ata_status hw b d)) 0 \<or> bit (fst (ata_status hw b d)) 5")
        case True
        with 1 vw show ?thesis
          by (subst wait_for_drive_ready.simps) (simp add: Let_def status_eq_bits)
      next
        case False
        obtain r d' where "wait_for_drive_ready hw b (snd (ata_status hw b d)) = Some (r, d')" "view sp d' = view sp d"
            "?result (snd (ata_status hw b d)) r d'"
          using less.hyps [OF 1(2)] less.prems vw by auto
        with False 1 vw show ?thesis
          by (subst wait_for_drive_ready.simps) (auto simp: Let_def status_eq_bits)
      qed
    next
      case 2
      then show ?thesis
        using vw less.prems by (subst wait_for_drive_ready.simps) (auto simp: Let_def status_eq_bits status_of_def)
    qed
  qed
  then show ?thesis using that by blast
qed

section \<open>Transfers\<close>

lemma reg_simps [simp]:
  "reg b RegData = io_bar b" "reg b RegSectorCount0 = io_bar b + 2" "reg b RegLBA0 = io_bar b + 3"
  "reg b RegLBA1 = io_bar b + 4" "reg b RegLBA2 = io_bar b + 5" "reg b RegDeviceSelect = io_bar b + 6"
  "reg b RegCommandAndStatus = io_bar b + 7"
  by (simp_all add: reg_def)





lemma data_out_word:
  assumes "ata_device hw b sp" "busy sp d = 0" "phase (view sp d) = DataOut lba n ws"
  shows "view sp (outw hw (io_bar b) w d) = after_write (view sp d) lba n (ws @ [w])"
    "length (ws @ [w]) < 256 \<Longrightarrow> busy sp (outw hw (io_bar b) w d) = 0"
  using assms by (simp_all add: ata_device_def data_law_def outw_def)

lemma out_words_view:
  assumes "ata_device hw b sp" "busy sp d = 0" "phase (view sp d) = DataOut lba n pre"
    and "length pre + length ws = 256" "ws \<noteq> []"
  shows "view sp (out_words hw (io_bar b) ws d) = after_write (view sp d) lba n (pre @ ws)"
  using assms(2-5)
proof (induction ws arbitrary: d pre)
  case (Cons w ws)
  note w = data_out_word [OF assms(1) Cons.prems(1,2), of w]
  show ?case
  proof (cases "ws = []")
    case False
    then have lt: "length (pre @ [w]) < 256" using Cons.prems(3) by (cases ws) simp_all
    with w have v: "view sp (outw hw (io_bar b) w d) = (view sp d)\<lparr>phase := DataOut lba n (pre @ [w])\<rparr>"
      by (simp add: after_write_def)
    then have "view sp (out_words hw (io_bar b) ws (outw hw (io_bar b) w d))
        = after_write (view sp (outw hw (io_bar b) w d)) lba n ((pre @ [w]) @ ws)"
      using Cons.IH [of "outw hw (io_bar b) w d" "pre @ [w]"] w(2) [OF lt] Cons.prems(3) False by simp
    then show ?thesis using v Cons.prems(3) by (simp add: after_write_def selected_def)
  qed (use w in simp)
qed simp

text \<open>The disk after \<open>n\<close> sectors were written from \<open>lba\<close> on.\<close>

definition disk_write :: "(nat \<Rightarrow> u16 list) \<Rightarrow> nat \<Rightarrow> nat \<Rightarrow> (nat \<Rightarrow> u16 list) \<Rightarrow> nat \<Rightarrow> u16 list" where
  "disk_write dk lba n f i = (if lba \<le> i \<and> i < lba + n then f (i - lba) else dk i)"

definition buffer_sector :: "u8 list \<Rightarrow> nat \<Rightarrow> nat \<Rightarrow> u16 list" where
  "buffer_sector buffer off i = bytes_words (take 512 (drop (2 * (off + 256 * i)) buffer))"

lemma disk_write_Suc:
  "disk_write (dk(lba := buffer_sector buffer off 0)) (Suc lba) n (buffer_sector buffer (off + 256))
    = disk_write dk lba (Suc n) (buffer_sector buffer off)"
proof (rule ext)
  fix i
  have "buffer_sector buffer (off + 256) (i - Suc lba) = buffer_sector buffer off (i - lba)" if "lba < i"
  proof -
    from that have "i - lba = Suc (i - Suc lba)" by simp
    then show ?thesis by (simp add: buffer_sector_def algebra_simps)
  qed
  then show "disk_write (dk(lba := buffer_sector buffer off 0)) (Suc lba) n (buffer_sector buffer (off + 256)) i
      = disk_write dk lba (Suc n) (buffer_sector buffer off) i"
    by (auto simp: disk_write_def not_less_eq_eq)
qed

lemma transfer_write:
  assumes "ata_device hw b sp" "present sp (selected (view sp d))"
    and "phase (view sp d) = (if n = 0 then Idle else DataOut lba n [])" and "2 * (off + 256 * n) \<le> length buffer"
  shows "(\<exists>d'. transfer hw b DirWrite off n buffer d = Some (Inr buffer, d')
    \<and> view sp d' = (view sp d)\<lparr>phase := Idle, disk := (disk (view sp d))(selected (view sp d) :=
         disk_write (disk (view sp d) (selected (view sp d))) lba n (buffer_sector buffer off))\<rparr>)
    \<or> (\<exists>d'. transfer hw b DirWrite off n buffer d = Some (Inl ErrUnit, d') \<and> error_while_busy hw b sp)"
  using assms(2-4)
proof (induction n arbitrary: d lba off)
  case 0
  have "disk_write f lba 0 g = f" for f g by (rule ext) (auto simp: disk_write_def)
  with 0 show ?case by (intro disjI1 exI [of _ d]) simp
next
  case (Suc n)
  let ?sel = "selected (view sp d)"
  define ws where "ws = buffer_sector buffer off 0"
  have ws: "length ws = 256" using Suc.prems(3) by (simp add: ws_def buffer_sector_def)
  have ph: "phase (view sp d) = DataOut lba (Suc n) []" using Suc.prems(2) by simp
  then have tr: "transferring (phase (view sp d)) \<or> phase (view sp d) = Failed" by (simp add: transferring_def)
  from assms(1) Suc.prems(1) tr show ?case
  proof (cases rule: wait_ready_returns)
    case (early d1)
    then show ?thesis by simp
  next
    case (ready d1)
    then have d1: "wait_for_drive_ready hw b d = Some (Inr (), d1)" "view sp d1 = view sp d" "busy sp d1 = 0"
      by (simp_all add: ph)
    define d2 where "d2 = out_words hw (io_bar b) ws d1"
    have r: "outsw hw (io_bar b) buffer off 256 d1 = (Inr (), d2)"
      using Suc.prems(3) by (simp add: outsw_def d2_def ws_def buffer_sector_def)
    have "view sp d2 = after_write (view sp d) lba (Suc n) ws"
      using out_words_view [OF assms(1) d1(3), of lba "Suc n" "[]" ws] ph ws d1(2) by (cases "ws = []") (auto simp: d2_def)
    then have v2: "view sp d2 = (view sp d)\<lparr>phase := (if n = 0 then Idle else DataOut (Suc lba) n []),
        disk := (disk (view sp d))(?sel := (disk (view sp d) ?sel)(lba := ws))\<rparr>"
      using ws by (auto simp: after_write_def)
    have sel2: "selected (view sp d2) = ?sel" by (simp add: v2 selected_def)
    have step: "transfer hw b DirWrite off (Suc n) buffer d = transfer hw b DirWrite (off + 256) n buffer d2"
      using d1(1) r by simp
    have "phase (view sp d2) = (if n = 0 then Idle else DataOut (Suc lba) n [])" "2 * (off + 256 + 256 * n) \<le> length buffer"
      using Suc.prems(3) by (simp_all add: v2)
    note IH = Suc.IH [of d2 "Suc lba" "off + 256", unfolded sel2, OF Suc.prems(1) this]
    have "disk_write ((disk (view sp d) ?sel)(lba := ws)) (Suc lba) n (buffer_sector buffer (off + 256))
        = disk_write (disk (view sp d) ?sel) lba (Suc n) (buffer_sector buffer off)"
      unfolding ws_def by (rule disk_write_Suc)
    then have eq: "(view sp d2)\<lparr>phase := Idle, disk := (disk (view sp d2))(?sel :=
           disk_write (disk (view sp d2) ?sel) (Suc lba) n (buffer_sector buffer (off + 256)))\<rparr>
      = (view sp d)\<lparr>phase := Idle, disk := (disk (view sp d))(?sel :=
           disk_write (disk (view sp d) ?sel) lba (Suc n) (buffer_sector buffer off))\<rparr>"
      unfolding v2 by simp
    show ?thesis using IH unfolding step eq by assumption
  qed
qed

section \<open>Registers and commands\<close>

lemma out_register:
  assumes "ata_device hw b sp" "busy sp d = 0" "resting (phase (view sp d))" "r \<in> {2, 3, 4, 5}"
  shows "view sp (outb hw (io_bar b + r) x d)
      = (view sp d)\<lparr>hob := (hob (view sp d))(r := cur (view sp d) r), cur := (cur (view sp d))(r := x)\<rparr>"
    "busy sp (outb hw (io_bar b + r) x d) = 0"
  using assms by (simp_all add: ata_device_def register_law_def outb_def)

text \<open>The four address registers written in a row.\<close>

definition write_regs :: "ata_view \<Rightarrow> u8 \<Rightarrow> u8 \<Rightarrow> u8 \<Rightarrow> u8 \<Rightarrow> ata_view" where
  "write_regs v n x y z =
     v\<lparr>hob := (hob v)(2 := cur v 2, 3 := cur v 3, 4 := cur v 4, 5 := cur v 5),
       cur := (cur v)(2 := n, 3 := x, 4 := y, 5 := z)\<rparr>"

lemma write_regs_simps [simp]:
  "cur (write_regs v n x y z) 2 = n" "cur (write_regs v n x y z) 3 = x" "cur (write_regs v n x y z) 4 = y"
  "cur (write_regs v n x y z) 5 = z" "r \<in> {2, 3, 4, 5} \<Longrightarrow> hob (write_regs v n x y z) r = cur v r"
  "dev_reg (write_regs v n x y z) = dev_reg v" "phase (write_regs v n x y z) = phase v"
  "disk (write_regs v n x y z) = disk v" "selected (write_regs v n x y z) = selected v"
  by (auto simp: write_regs_def selected_def)

lemma out_registers:
  assumes "ata_device hw b sp" "busy sp d = 0" "resting (phase (view sp d))"
  shows "view sp (outb_all hw [(io_bar b + 2, n), (io_bar b + 3, x), (io_bar b + 4, y), (io_bar b + 5, z)] d)
      = write_regs (view sp d) n x y z" (is ?V)
    and "busy sp (outb_all hw [(io_bar b + 2, n), (io_bar b + 3, x), (io_bar b + 4, y), (io_bar b + 5, z)] d) = 0" (is ?B)
proof -
  note r = out_register [OF assms(1)]
  define d1 where "d1 = outb hw (io_bar b + 2) n d"
  define d2 where "d2 = outb hw (io_bar b + 3) x d1"
  define d3 where "d3 = outb hw (io_bar b + 4) y d2"
  have 1: "view sp d1 = (view sp d)\<lparr>hob := (hob (view sp d))(2 := cur (view sp d) 2), cur := (cur (view sp d))(2 := n)\<rparr>"
      "busy sp d1 = 0"
    using r [OF assms(2,3), of 2 n] by (simp_all add: d1_def)
  then have 2: "view sp d2 = (view sp d1)\<lparr>hob := (hob (view sp d1))(3 := cur (view sp d1) 3), cur := (cur (view sp d1))(3 := x)\<rparr>"
      "busy sp d2 = 0"
    using r [of d1 3 x] assms(3) by (simp_all add: d2_def)
  then have 3: "view sp d3 = (view sp d2)\<lparr>hob := (hob (view sp d2))(4 := cur (view sp d2) 4), cur := (cur (view sp d2))(4 := y)\<rparr>"
      "busy sp d3 = 0"
    using r [of d2 4 y] assms(3) 1 by (simp_all add: d3_def)
  then have 4: "view sp (outb hw (io_bar b + 5) z d3)
        = (view sp d3)\<lparr>hob := (hob (view sp d3))(5 := cur (view sp d3) 5), cur := (cur (view sp d3))(5 := z)\<rparr>"
      "busy sp (outb hw (io_bar b + 5) z d3) = 0"
    using r [of d3 5 z] assms(3) 1 2 by simp_all
  show ?V using 1 2 3 4 by (simp add: write_regs_def d1_def d2_def d3_def)
  show ?B using 4 by (simp add: d1_def d2_def d3_def)
qed

text \<open>The bytes of the sector number and of the count that go into the registers.\<close>

lemma byte_of: "ucast (drop_bit k s) = (of_nat (unat s div 2 ^ k) :: u8)" for s :: u64
proof -
  have "unat s < 2 ^ 64" using unsigned_less [of s, where 'a = nat] by simp
  then have "unat (ucast (drop_bit k s) :: u8) = unat s div 2 ^ k mod 256"
    by (simp only: unsigned_ucast_eq unsigned_drop_bit_eq) (simp add: take_bit_eq_mod drop_bit_eq_div)
  then show ?thesis by (simp add: word_unat_eq_iff unat_of_nat_u8)
qed

lemma byte_of_0: "ucast s = (of_nat (unat s) :: u8)" for s :: u64
  using byte_of [of 0 s] by simp

lemma to_le_6: "to_le 6 n = to_le 4 n @ [of_nat (n div 2 ^ 32), of_nat (n div 2 ^ 40)]"
proof -
  have "(6::nat) = Suc (Suc (Suc (Suc (Suc (Suc 0)))))" by simp
  then show ?thesis by (simp only: to_le.simps to_le_4) (simp add: div_mult2_eq [symmetric])
qed

lemma sector_bytes:
  fixes s :: u64
  shows "[ucast s, ucast (drop_bit 8 s), ucast (drop_bit 16 s), ucast (drop_bit 24 s)] = to_le 4 (unat s)"
    and "[ucast s, ucast (drop_bit 8 s), ucast (drop_bit 16 s), ucast (drop_bit 24 s), ucast (drop_bit 32 s),
          ucast (drop_bit 40 s)] = to_le 6 (unat s)"
    and "[ucast s, ucast (drop_bit 8 s)] = to_le 2 (unat s)"
  unfolding byte_of to_le_2 to_le_4 to_le_6 unfolding byte_of_0 by simp_all


lemma device_register:
  "(0xE0 OR drive_bits ty OR (x AND 0x0F)) AND 0x0F = x AND 0x0F"
  "bit (0xE0 OR drive_bits ty OR (x AND 0x0F)) 4 = (ty = Child)"
  "bit (0x40 OR drive_bits ty) 4 = (ty = Child)" "bit (0xA0 OR drive_bits ty) 4 = (ty = Child)"
  by (cases ty; simp add: bit.conj_disj_distrib2 bit_simps; fail)+

lemma selected_register:
  "bit x 4 = (ty = Child) \<Longrightarrow> selected (v\<lparr>dev_reg := x\<rparr>) = ty"
  by (cases ty) (simp_all add: selected_def)

lemma out_select:
  assumes "ata_device hw b sp" "busy sp d = 0" "resting (phase (view sp d))"
  shows "view sp (ata_select hw b x d) = (view sp d)\<lparr>dev_reg := x\<rparr>" "busy sp (ata_select hw b x d) = 0"
  using assms by (simp_all add: ata_device_def register_law_def outb_def ata_select_def)

lemma send_command_view:
  assumes "ata_device hw b sp" "busy sp d = 0" "resting (phase (view sp d))" "present sp (selected (view sp d))"
    and "run_command sp (command_code c) (view sp d) = Some v"
  shows "view sp (send_command hw b c d) = v"
  using assms by (simp add: ata_device_def command_law_def outb_def send_command_def)

text \<open>
  The number of sectors a drive moves when it is asked for \<open>n\<close> sectors from \<open>s\<close> on: the count registers hold the
  low bits of the number only, and 0 stands for the highest count.
\<close>

definition wrap_count :: "nat \<Rightarrow> nat \<Rightarrow> nat" where
  "wrap_count k n = (if n mod k = 0 then k else n mod k)"

definition moved :: "nat \<Rightarrow> nat \<Rightarrow> nat" where
  "moved s n = wrap_count (if s < 2 ^ 28 - 1 then 256 else 65536) n"

definition reachable_range :: "'d ata_spec \<Rightarrow> ata_drive_type \<Rightarrow> nat \<Rightarrow> nat \<Rightarrow> bool" where
  "reachable_range sp ty s n \<longleftrightarrow> s + n \<le> capacity sp ty \<and> s + n \<le> (if s < 2 ^ 28 - 1 then 2 ^ 28 else 2 ^ 48)"

lemma moved_exact: "1 \<le> n \<Longrightarrow> n \<le> 256 \<Longrightarrow> moved s n = n"
  by (cases "n = 256") (auto simp: moved_def wrap_count_def)

lemma moved_pos: "0 < moved s n"
  by (simp add: moved_def wrap_count_def)

definition started :: "ata_view \<Rightarrow> ata_drive_type \<Rightarrow> ata_direction \<Rightarrow> nat \<Rightarrow> nat \<Rightarrow> ata_phase" where
  "started v ty direction s n = (case direction of
     DirRead \<Rightarrow> DataIn (concat (map (disk v ty) [s..<s + n])) | DirWrite \<Rightarrow> DataOut s n [])"

lemma low_nibble: "x AND 0x0F = take_bit 4 x" for x :: u8
  by (simp add: take_bit_eq_mask mask_eq_exp_minus_1)

lemma lba28_written:
  assumes "cur v 3 = ucast s" "cur v 4 = ucast (drop_bit 8 s)" "cur v 5 = ucast (drop_bit 16 s)"
    and "dev_reg v AND 0x0F = ucast (drop_bit 24 s) AND 0x0F" and "unat (s :: u64) < 2 ^ 28"
  shows "lba28 v = unat s"
proof -
  have "unat s div 2 ^ 24 < 16" using assms(5) by (simp add: less_mult_imp_div_less)
  then have "(ucast (drop_bit 24 s) :: u8) AND 0x0F = ucast (drop_bit 24 s)"
    by (simp only: byte_of low_nibble word_unat_eq_iff unat_take_bit unat_of_nat_u8) simp
  then show ?thesis
    using sector_bytes(1) [of s] assms by (simp add: lba28_def le_val_to_le)
qed

lemma lba48_written:
  assumes "cur v 3 = ucast s" "cur v 4 = ucast (drop_bit 8 s)" "cur v 5 = ucast (drop_bit 16 s)"
    and "hob v 3 = ucast (drop_bit 24 s)" "hob v 4 = ucast (drop_bit 32 s)" "hob v 5 = ucast (drop_bit 40 s)"
    and "unat (s :: u64) < 2 ^ 48"
  shows "lba48 v = unat s"
  using sector_bytes(2) [of s] assms by (simp add: lba48_def le_val_to_le)

lemma count28_written:
  assumes "cur v 2 = ucast (n :: u64)"
  shows "count28 v = wrap_count 256 (unat n)"
proof -
  have "unat (cur v 2) = unat n mod 256" by (simp only: assms(1) byte_of_0 unat_of_nat_u8)
  then show ?thesis by (auto simp: count28_def wrap_count_def unat_eq_0 [symmetric])
qed

lemma count48_written:
  assumes "cur v 2 = ucast (n :: u64)" "hob v 2 = ucast (drop_bit 8 n)"
  shows "count48 v = wrap_count 65536 (unat n)"
proof -
  have "le_val [cur v 2, hob v 2] = unat n mod 256 ^ 2"
    unfolding assms(1,2) sector_bytes(3) by (rule le_val_to_le)
  then show ?thesis by (simp add: count48_def wrap_count_def Let_def del: le_val.simps)
qed

lemma run_access:
  assumes "selected w = ty" "disk w = disk v" "s + n \<le> capacity sp ty"
  shows "lba28 w = s \<Longrightarrow> count28 w = n \<Longrightarrow> s + n \<le> 2 ^ 28 \<Longrightarrow>
      run_command sp (command_code (case direction of DirRead \<Rightarrow> ReadPIO | DirWrite \<Rightarrow> WritePIO)) w
        = Some (w\<lparr>phase := started v ty direction s n\<rparr>)"
    and "lba48 w = s \<Longrightarrow> count48 w = n \<Longrightarrow> s + n \<le> 2 ^ 48 \<Longrightarrow>
      run_command sp (command_code (case direction of DirRead \<Rightarrow> ReadPIOExt | DirWrite \<Rightarrow> WritePIOExt)) w
        = Some (w\<lparr>phase := started v ty direction s n\<rparr>)"
  using assms by (cases direction; simp add: run_command_def start_transfer_def started_def)+

lemma issue_access_view:
  assumes dev: "ata_device hw b sp" and "busy sp d = 0" "resting (phase (view sp d))" "present sp ty"
    and rng: "reachable_range sp ty (unat sector) (moved (unat sector) (unat n))"
  shows "\<exists>w. view sp (issue_access hw b ty sector n direction d)
      = w\<lparr>phase := started (view sp d) ty direction (unat sector) (moved (unat sector) (unat n))\<rparr> \<and> selected w = ty \<and> disk w = disk (view sp d)"
proof (cases "sector \<ge> 2 ^ 28 - 1")
  case True
  then have big: "\<not> unat sector < 2 ^ 28 - 1" by (simp add: word_le_nat_alt)
  define d1 where "d1 = ata_select hw b (0x40 OR drive_bits ty) d"
  have 1: "view sp d1 = (view sp d)\<lparr>dev_reg := 0x40 OR drive_bits ty\<rparr>" "busy sp d1 = 0"
    using out_select [OF dev assms(2,3)] by (simp_all add: d1_def)
  define d2 where "d2 = outb_all hw (high_registers b sector n) d1"
  have 2: "busy sp d2 = 0" "view sp d2 = write_regs (view sp d1) (ucast (drop_bit 8 n)) (ucast (drop_bit 24 sector))
      (ucast (drop_bit 32 sector)) (ucast (drop_bit 40 sector))"
    using out_registers [OF dev 1(2)] assms(3) by (simp_all add: d2_def high_registers_def 1(1) del: outb_all_simps)
  define d3 where "d3 = outb_all hw (address_registers b sector n) d2"
  have 3: "busy sp d3 = 0" "view sp d3 = write_regs (view sp d2) (ucast n) (ucast sector)
      (ucast (drop_bit 8 sector)) (ucast (drop_bit 16 sector))"
    using out_registers [OF dev 2(1)] assms(3) by (simp_all add: d3_def address_registers_def 1(1) 2(2) del: outb_all_simps)
  have w: "selected (view sp d3) = ty" "disk (view sp d3) = disk (view sp d)" "phase (view sp d3) = phase (view sp d)"
    by (simp_all add: 3(2) 2(2) 1(1) selected_register device_register(3))
  have "lba48 (view sp d3) = unat sector" "count48 (view sp d3) = moved (unat sector) (unat n)"
    using rng big moved_pos [of "unat sector" "unat n"] count48_written [of "view sp d3" n]
    by (auto intro!: lba48_written simp: 3(2) 2(2) reachable_range_def moved_def)
  with w rng big have "run_command sp (command_code (case direction of DirRead \<Rightarrow> ReadPIOExt | DirWrite \<Rightarrow> WritePIOExt)) (view sp d3)
      = Some ((view sp d3)\<lparr>phase := started (view sp d) ty direction (unat sector) (moved (unat sector) (unat n))\<rparr>)"
    by (intro run_access(2)) (simp_all add: reachable_range_def)
  with send_command_view [OF dev 3(1)] w assms(3,4) True show ?thesis
    by (auto simp: issue_access_def Let_def d1_def d2_def d3_def)
next
  case False
  then have small: "unat sector < 2 ^ 28 - 1" by (simp add: word_le_nat_alt)
  let ?x = "0xE0 OR drive_bits ty OR (ucast (drop_bit 24 sector) AND 0x0F)"
  define d1 where "d1 = ata_select hw b ?x d"
  have 1: "view sp d1 = (view sp d)\<lparr>dev_reg := ?x\<rparr>" "busy sp d1 = 0"
    using out_select [OF dev assms(2,3)] by (simp_all add: d1_def)
  define d2 where "d2 = outb_all hw (address_registers b sector n) d1"
  have 2: "busy sp d2 = 0" "view sp d2 = write_regs (view sp d1) (ucast n) (ucast sector)
      (ucast (drop_bit 8 sector)) (ucast (drop_bit 16 sector))"
    using out_registers [OF dev 1(2)] assms(3) by (simp_all add: d2_def address_registers_def 1(1) del: outb_all_simps)
  have w: "selected (view sp d2) = ty" "disk (view sp d2) = disk (view sp d)" "phase (view sp d2) = phase (view sp d)"
    by (simp_all add: 2(2) 1(1) selected_register device_register(2))
  have "lba28 (view sp d2) = unat sector" "count28 (view sp d2) = moved (unat sector) (unat n)"
    using rng small count28_written [of "view sp d2" n]
    by (auto intro!: lba28_written simp: 2(2) 1(1) moved_def device_register(1))
  with w rng small have "run_command sp (command_code (case direction of DirRead \<Rightarrow> ReadPIO | DirWrite \<Rightarrow> WritePIO)) (view sp d2)
      = Some ((view sp d2)\<lparr>phase := started (view sp d) ty direction (unat sector) (moved (unat sector) (unat n))\<rparr>)"
    by (intro run_access(1)) (simp_all add: reachable_range_def)
  with send_command_view [OF dev 2(1)] w assms(3,4) False show ?thesis
    by (auto simp: issue_access_def Let_def d1_def d2_def)
qed

section \<open>Whole accesses\<close>

definition settled :: "'d ata_spec \<Rightarrow> 'd \<Rightarrow> bool" where
  "settled sp d \<longleftrightarrow> busy sp d = 0 \<and> resting (phase (view sp d))"

lemma ata_status_idle:
  assumes "ata_device hw b sp" "busy sp d = 0"
  shows "busy sp (snd (ata_status hw b d)) = 0"
proof -
  define d4 where "d4 = ((\<lambda>d. snd (inb hw (control_bar b + 2) d)) ^^ 4) d"
  have "busy sp d4 = 0" using alt_status_waits [OF assms(1), of 4 d] assms(2) by (simp add: d4_def)
  moreover have "ata_status hw b d = port_in8 hw (io_bar b + 7) d4"
    by (simp add: ata_status_def reg_def inb_def d4_def Let_def)
  ultimately show ?thesis
    using assms(1) by (cases "present sp (selected (view sp d4))") (simp_all add: ata_device_def status_law_def)
qed

lemma status_loop:
  assumes "ata_device hw b sp"
  shows "view sp (((\<lambda>d. snd (ata_status hw b d)) ^^ n) d) = view sp d"
    "busy sp d = 0 \<Longrightarrow> busy sp (((\<lambda>d. snd (ata_status hw b d)) ^^ n) d) = 0"
  by (induction n) (simp_all add: ata_status_view [OF assms] ata_status_idle [OF assms])

text \<open>The reset does not reach the control register: the drive only sees its sector count written.\<close>

lemma software_reset_harmless:
  assumes "ata_device hw b sp" "settled sp d"
  shows "settled sp (software_reset hw b d)" "disk (view sp (software_reset hw b d)) = disk (view sp d)"
    "selected (view sp (software_reset hw b d)) = selected (view sp d)"
    "phase (view sp (software_reset hw b d)) = phase (view sp d)"
proof -
  define d1 where "d1 = outb hw (io_bar b + 2) 4 d"
  define d2 where "d2 = ((\<lambda>d. snd (ata_status hw b d)) ^^ 10) d1"
  have 1: "busy sp d1 = 0" "phase (view sp d1) = phase (view sp d)" "disk (view sp d1) = disk (view sp d)"
      "dev_reg (view sp d1) = dev_reg (view sp d)"
    using out_register [OF assms(1), of d 2 4] assms(2) by (simp_all add: d1_def settled_def)
  have 2: "busy sp d2 = 0" "view sp d2 = view sp d1"
    using status_loop [OF assms(1), where n = 10 and d = d1] 1(1) by (simp_all add: d2_def)
  have "software_reset hw b d = outb hw (io_bar b + 2) 0 d2"
    by (simp add: software_reset_def d1_def d2_def Let_def)
  then show "settled sp (software_reset hw b d)" "disk (view sp (software_reset hw b d)) = disk (view sp d)"
    "selected (view sp (software_reset hw b d)) = selected (view sp d)"
    "phase (view sp (software_reset hw b d)) = phase (view sp d)"
    using out_register [OF assms(1), of d2 2 0] 1 2 assms(2) by (simp_all add: settled_def selected_def)
qed

text \<open>The disks of a bus hold sectors of 512 bytes.\<close>

definition sector_disk :: "'d ata_spec \<Rightarrow> ata_drive_type \<Rightarrow> 'd \<Rightarrow> nat \<Rightarrow> u8 list" where
  "sector_disk sp ty d i = words_bytes (disk (view sp d) ty i)"

definition whole_sectors :: "'d ata_spec \<Rightarrow> 'd \<Rightarrow> bool" where
  "whole_sectors sp d \<longleftrightarrow> (\<forall>ty i. length (disk (view sp d) ty i) = 256)"


lemma unat_sector_bytes:
  assumes "unat n \<le> 2 ^ 32"
  shows "unat (ATA_SECTOR_SIZE * n) = 512 * unat n" "unat (n * ATA_SECTOR_SIZE) = 512 * unat n"
  using assms by (simp_all add: ATA_SECTOR_SIZE_def unat_word_ariths)

text \<open>What remains to be done after the registers were programmed.\<close>

lemma ide_access_start:
  assumes dev: "ata_device hw b sp" and "settled sp d" "present sp ty" "present sp (selected (view sp d))"
    and rng: "reachable_range sp ty (unat sector) (moved (unat sector) (unat n))"
    and "512 * unat n \<le> length buffer" "unat n \<le> 2 ^ 32"
  obtains d2 where "ide_access hw b ty sector n direction buffer d = transfer hw b direction 0 (unat n) buffer d2"
    "phase (view sp d2) = started (view sp d) ty direction (unat sector) (moved (unat sector) (unat n))"
    "selected (view sp d2) = ty" "disk (view sp d2) = disk (view sp d)"
proof -
  from dev assms(4) obtain d1 where d1: "await_busy hw b d = Some d1" "view sp d1 = view sp d" "busy sp d1 = 0"
    by (rule await_busy_returns)
  define d2 where "d2 = issue_access hw b ty sector n direction d1"
  from issue_access_view [OF dev d1(3) _ assms(3) rng, of direction] assms(2) d1(2) obtain w where
      w: "view sp d2 = w\<lparr>phase := started (view sp d) ty direction (unat sector) (moved (unat sector) (unat n))\<rparr>"
      "selected w = ty" "disk w = disk (view sp d)"
    by (auto simp: settled_def d2_def)
  show ?thesis
  proof (rule that)
    show "ide_access hw b ty sector n direction buffer d = transfer hw b direction 0 (unat n) buffer d2"
      using d1(1) assms(6,7) by (simp add: ide_access_def d2_def unat_sector_bytes)
  qed (use w in \<open>simp_all add: selected_def\<close>)
qed





section \<open>The block device\<close>

text \<open>What a drive of \<open>cap\<close> sectors promises as a block device.\<close>

definition disk_reads :: "(nat \<Rightarrow> u8 list) \<Rightarrow> nat \<Rightarrow> block_read" where
  "disk_reads sec cap s n =
     (if unat (s + n) > cap then Inl ErrUnit else Inr (concat (map sec [unat s..<unat s + unat n])))"

lemma disk_reads_serves:
  assumes "\<And>i. length (sec i) = 512" "cap < 2 ^ 64"
  shows "serves (disk_reads sec cap) sec cap"
  using assms unat_add_no_wrap [where 'a = 64] by (auto simp: serves_def disk_reads_def)

lemma sector_disk_length: "whole_sectors sp d \<Longrightarrow> length (sector_disk sp ty d i) = 512"
  by (simp add: sector_disk_def whole_sectors_def)

text \<open>A drive on a bus: the drive and the one that was used last are present, and the identification data do not
  promise more sectors than there are.\<close>

definition drive_on :: "'d ports \<Rightarrow> 'd ata_spec \<Rightarrow> ata_drive \<Rightarrow> 'd \<Rightarrow> bool" where
  "drive_on hw sp drv d \<longleftrightarrow> ata_device hw (drive_bus drv) sp \<and> present sp (drive_type drv)
     \<and> present sp (selected (view sp d)) \<and> settled sp d \<and> whole_sectors sp d
     \<and> unat (drive_sector_count drv) \<le> capacity sp (drive_type drv)"




text \<open>Writing sectors to a drive. On a drive that follows the ATA protocol, writing a buffer of 1 to 256 whole sectors that fit on
  the disk stores the sectors of the buffer one after the other and changes no other sector of either drive of the bus;
  or an error is reported, on a drive that shows an error bit while it is busy.\<close>

theorem drive_write_stores:
  assumes "drive_on hw sp drv d" and "length buffer = 512 * k" "1 \<le> k" "k \<le> 256"
    and "unat sector + k \<le> capacity sp (drive_type drv)"
    and "unat sector + k \<le> 2 ^ 28 \<or> 2 ^ 28 - 1 \<le> unat sector \<and> unat sector + k \<le> 2 ^ 48"
  shows "(\<exists>d'. drive_write hw drv sector buffer d = Some (Inr (), d') \<and> phase (view sp d') = Idle
    \<and> (\<forall>ty i. sector_disk sp ty d' i = (if ty = drive_type drv \<and> unat sector \<le> i \<and> i < unat sector + k
         then take 512 (drop (512 * (i - unat sector)) buffer) else sector_disk sp ty d i)))
    \<or> (\<exists>d'. drive_write hw drv sector buffer d = Some (Inl ErrUnit, d') \<and> error_while_busy hw (drive_bus drv) sp)"
proof -
  let ?b = "drive_bus drv" and ?ty = "drive_type drv" and ?n = "of_nat (length buffer) div 512 :: usize"
  let ?d0 = "software_reset hw ?b d"
  note on = assms(1)[unfolded drive_on_def]
  have "unat (of_nat (length buffer) :: usize) = length buffer" using assms(2,4) by (intro unat_of_nat64) simp
  then have n: "unat ?n = k" using assms(2) by (simp add: unat_div)
  have rng: "reachable_range sp ?ty (unat sector) k" "moved (unat sector) k = k"
    using assms(3-6) by (auto simp: reachable_range_def intro!: moved_exact)
  have reset: "settled sp ?d0" "disk (view sp ?d0) = disk (view sp d)" "selected (view sp ?d0) = selected (view sp d)"
    using software_reset_harmless [of hw ?b sp d] on by simp_all
  from ide_access_start [of hw ?b sp ?d0 ?ty sector ?n buffer DirWrite] on reset rng n assms(2,4) obtain d2 where
      d2: "ide_access hw ?b ?ty sector ?n DirWrite buffer ?d0 = transfer hw ?b DirWrite 0 k buffer d2"
      "phase (view sp d2) = started (view sp ?d0) ?ty DirWrite (unat sector) k"
      "selected (view sp d2) = ?ty" "disk (view sp d2) = disk (view sp d)"
    by auto
  then consider (stored) d' where "transfer hw ?b DirWrite 0 k buffer d2 = Some (Inr buffer, d')"
      "view sp d' = (view sp d2)\<lparr>phase := Idle, disk := (disk (view sp d))(?ty :=
         disk_write (disk (view sp d) ?ty) (unat sector) k (buffer_sector buffer 0))\<rparr>"
    | (early) d' where "transfer hw ?b DirWrite 0 k buffer d2 = Some (Inl ErrUnit, d')" "error_while_busy hw ?b sp"
    using transfer_write [of hw ?b sp d2 k "unat sector" 0 buffer] on assms(2,3) by (auto simp: started_def)
  then show ?thesis
  proof cases
    case (stored d')
    have "drive_write hw drv sector buffer d = Some (Inr (), d')"
      using d2(1) stored(1) n assms(2,4) by (simp add: drive_write_def bus_write_def unat_sector_bytes)
    moreover have "sector_disk sp ty d' i = (if ty = ?ty \<and> unat sector \<le> i \<and> i < unat sector + k
           then take 512 (drop (512 * (i - unat sector)) buffer) else sector_disk sp ty d i)" for ty i
      using assms(2) by (auto simp: sector_disk_def stored(2) disk_write_def buffer_sector_def words_bytes_words)
    ultimately show ?thesis using stored(2) by auto
  next
    case (early d')
    then have "drive_write hw drv sector buffer d = Some (Inl ErrUnit, d')"
      using d2(1) n assms(2,4) by (simp add: drive_write_def bus_write_def unat_sector_bytes)
    with early(2) show ?thesis by blast
  qed
qed


section \<open>A simulated drive\<close>

text \<open>One drive of a thousand sectors on the primary bus: its abstract machine with a counter of the status reads it stays
  busy for, which starts after every command and between sectors.\<close>

definition sim_spec :: "(ata_view \<times> nat) ata_spec" where
  "sim_spec = \<lparr>present = (\<lambda>ty. ty = Parent), capacity = (\<lambda>_. 1000), ident = (\<lambda>_. replicate 49 0 @ [0x200] @ replicate 206 0),
     view = fst, busy = snd\<rparr>"

definition sim_status :: "ata_view \<Rightarrow> u8" where
  "sim_status v = (if selected v = Child then 0 else if phase v = Failed then 0x41
     else if transferring (phase v) then 0x48 else 0x40)"

definition sim_in8 :: "u16 \<Rightarrow> ata_view \<times> nat \<Rightarrow> u8 \<times> ata_view \<times> nat" where
  "sim_in8 p = (\<lambda>(v, n).
     if p = 0x1F7 then (if selected v = Parent \<and> 0 < n then (0x80, v, n - 1) else (sim_status v, v, n))
     else if p \<in> {0x1F4, 0x1F5} \<and> n = 0 \<and> resting (phase v) then (cur v (p - 0x1F0), v, n)
     else (0, v, n))"

definition sim_out8 :: "u16 \<Rightarrow> u8 \<Rightarrow> ata_view \<times> nat \<Rightarrow> ata_view \<times> nat" where
  "sim_out8 p x = (\<lambda>(v, n).
     if p = 0x1F6 then (v\<lparr>dev_reg := x\<rparr>, n)
     else if p \<in> {0x1F2, 0x1F3, 0x1F4, 0x1F5} then
       (v\<lparr>hob := (hob v)(p - 0x1F0 := cur v (p - 0x1F0)), cur := (cur v)(p - 0x1F0 := x)\<rparr>, n)
     else if p = 0x1F7 \<and> selected v = Parent then (case run_command sim_spec x v of Some w \<Rightarrow> (w, 3) | None \<Rightarrow> (v, 3))
     else (v, n))"

definition sim_ports :: "(ata_view \<times> nat) ports" where
  "sim_ports =
     \<lparr>port_in8 = sim_in8,
      port_out8 = sim_out8,
      port_in16 = (\<lambda>p (v, n). case phase v of
          DataIn (w # ws) \<Rightarrow> (w, v\<lparr>phase := after_read ws\<rparr>, if ws \<noteq> [] \<and> length ws mod 256 = 0 then 2 else 0)
        | _ \<Rightarrow> (0, v, n)),
      port_out16 = (\<lambda>p w (v, n). case phase v of
          DataOut lba k ws \<Rightarrow> (after_write v lba k (ws @ [w]), if length (ws @ [w]) < 256 then 0 else 2)
        | _ \<Rightarrow> (v, n)),
      port_in32 = (\<lambda>p s. (0, s)), port_out32 = (\<lambda>p x s. s)\<rparr>"

definition sim_bus :: ata_bus where
  "sim_bus = \<lparr>io_bar = 0x1F0, control_bar = 0x3F4\<rparr>"

definition sim_drive :: ata_drive where
  "sim_drive = \<lparr>drive_bus = sim_bus, identify_data = replicate 120 0 @ to_le 4 1000 @ replicate 388 0, drive_type = Parent\<rparr>"

definition sim_start :: "ata_view \<times> nat" where
  "sim_start = (\<lparr>cur = (\<lambda>_. 0), hob = (\<lambda>_. 0), dev_reg = 0, phase = Idle,
     disk = (\<lambda>_ i. replicate 256 (of_nat i))\<rparr>, 0)"

lemma not_Child [simp]: "ty \<noteq> Child \<longleftrightarrow> ty = Parent"
  by (cases ty) simp_all

lemma sim_status_of: "selected v = Parent \<Longrightarrow> status_of (phase v) (sim_status v)"
  by (auto simp: status_of_def sim_status_def transferring_def bit_simps split: ata_phase.splits)

lemma sim_device: "ata_device sim_ports sim_bus sim_spec"
  unfolding ata_device_def
proof (intro conjI)
  show "present sim_spec Parent" by (simp add: sim_spec_def)
  show "status_law sim_ports sim_bus sim_spec"
    using sim_status_of by (auto simp: status_law_def sim_ports_def sim_in8_def sim_bus_def sim_spec_def sim_status_def bit_simps)
  show "register_law sim_ports sim_bus sim_spec"
    by (auto simp: register_law_def sim_ports_def sim_in8_def sim_bus_def sim_spec_def sim_out8_def)
  show "command_law sim_ports sim_bus sim_spec"
    by (auto simp: command_law_def sim_ports_def sim_bus_def sim_spec_def sim_out8_def)
  show "data_law sim_ports sim_bus sim_spec"
    by (auto simp: data_law_def sim_ports_def sim_spec_def)
qed

lemma sim_no_error: "\<not> error_while_busy sim_ports sim_bus sim_spec"
  by (auto simp: error_while_busy_def sim_ports_def sim_in8_def sim_bus_def sim_spec_def bit_simps)

lemma sim_drive_on: "drive_on sim_ports sim_spec sim_drive sim_start"
  using sim_device
  by (simp add: drive_on_def sim_drive_def sim_spec_def sim_start_def selected_def settled_def resting_def
      whole_sectors_def drive_sector_count_def le_val_to_le)



theorem drive_write_stores_witness:
  "\<exists>d'. drive_write sim_ports sim_drive 7 (replicate 512 0xAB) sim_start = Some (Inr (), d')
    \<and> sector_disk sim_spec Parent d' 7 = replicate 512 0xAB
    \<and> sector_disk sim_spec Parent d' 8 = sector_disk sim_spec Parent sim_start 8"
proof -
  have ty: "drive_type sim_drive = Parent" by (simp add: sim_drive_def)
  have "length (replicate 512 (0xAB :: u8)) = 512 * 1" "unat (7 :: u64) + 1 \<le> capacity sim_spec (drive_type sim_drive)"
    by (simp_all add: sim_spec_def)
  moreover have "drive_bus sim_drive = sim_bus" by (simp add: sim_drive_def)
  ultimately show ?thesis
    using drive_write_stores [OF sim_drive_on, of "replicate 512 0xAB" 1 7] sim_no_error by (auto simp: ty)
qed


end
