(* ===== verification/Ata_Boot.thy ===== *)
theory Ata_Boot
  imports Ata_Correct
begin

text \<open>
  The start-up code of the IDE driver: which drives it detects on a bus, and what it finds in the partition table of
  a drive.
\<close>

section \<open>Identification\<close>








section \<open>Detection\<close>










text \<open>On a bus without drives the lines float: every register reads as the same value, whatever it is, and detection finds nothing.\<close>

theorem empty_bus_finds_nothing:
  assumes "\<And>d r. r \<in> {4, 5, 7} \<Longrightarrow> fst (port_in8 hw (io_bar (ata_bus_new (ucast bar0) (ucast bar1)) + r) d) = x"
  shows "\<exists>d'. detect_drives hw bar0 bar1 d = Some (Inr ([], d'))"
proof -
  let ?b = "ata_bus_new (ucast bar0) (ucast bar1)"
  have in8: "\<exists>e'. inb hw (io_bar ?b + r) e = (x, e')" if "r \<in> {4, 5, 7}" for r e
    using assms [OF that, of e] by (cases "port_in8 hw (io_bar ?b + r) e") (auto simp: inb_def)
  have st: "\<exists>e'. ata_status hw ?b e = (x, e')" for e
    using in8 [of 7] by (simp add: ata_status_def Let_def)
  have none: "\<exists>d'. identify hw ?b ty d = Some (Inl ErrUnit, d')" for ty d
  proof (cases "x = 0")
    case True
    obtain d4 where "ata_status hw ?b (send_command hw ?b Identify (identify_start hw ?b ty d)) = (x, d4)" using st by blast
    with True show ?thesis by (simp add: identify_def)
  next
    case False
    obtain d4 where d4: "ata_status hw ?b (send_command hw ?b Identify (identify_start hw ?b ty d)) = (x, d4)" using st by blast
    obtain d5 where d5: "ata_status hw ?b d4 = (x, d5)" using st by blast
    obtain d6 where d6: "inb hw (io_bar ?b + 4) d5 = (x, d6)" using in8 [of 4 d5] by auto
    obtain d7 where d7: "inb hw (io_bar ?b + 5) d6 = (x, d7)" using in8 [of 5 d6] by auto
    have "from_lba x x \<noteq> Some Pata" using False by (simp add: from_lba_def)
    then show ?thesis
      using False d4 d5 d6 d7
      by (subst identify_def, subst identify_busy.simps) (auto simp: Let_def)
  qed
  have det: "\<exists>d'. detect_drive hw ?b ty (ds, d) = Some (Inr (ds, d'))" for ty ds d
  proof -
    obtain d' where "identify hw ?b ty d = Some (Inl ErrUnit, d')" using none by blast
    then show ?thesis by (simp add: detect_drive_def ata_drive_new_def)
  qed
  obtain d1 where d1: "detect_drive hw ?b Parent ([], d) = Some (Inr ([], d1))" using det by blast
  show ?thesis using det [of Child "[]" d1] by (simp add: detect_drives_def Let_def d1)
qed

theorem empty_bus_finds_nothing_witness:
  "\<exists>d'. detect_drives \<lparr>port_in8 = (\<lambda>_ d. (0xFF, d)), port_out8 = (\<lambda>_ _ d. d), port_in16 = (\<lambda>_ d. (0xFFFF, d)),
     port_out16 = (\<lambda>_ _ d. d), port_in32 = (\<lambda>_ d. (0, d)), port_out32 = (\<lambda>_ _ d. d)\<rparr> 0x1F0 0x3F6 () = Some (Inr ([], d'))"
  by (rule empty_bus_finds_nothing [where x = "0xFF"]) simp

section \<open>Partition tables\<close>





















end
