(* ===== verification/Pci.thy ===== *)
theory Pci
  imports Ports
begin

text \<open>
  Enumeration of the PCI bus, \<^verbatim>\<open>src/drivers/pci.rs\<close>. The host bridge is behind the two configuration ports; the
  list \<^verbatim>\<open>PCI_DEVICES\<close> is part of the state. With a bridge that decodes addresses as documented, enumeration
  lists every function of every device once, with the identification from its configuration space.
\<close>

section \<open>Configuration space\<close>

definition PCI_CONFIG_PORT :: u16 where "PCI_CONFIG_PORT = 0xCF8"

definition PCI_DATA_PORT :: u16 where "PCI_DATA_PORT = 0xCFC"

definition pci_address :: "u8 \<Rightarrow> u8 \<Rightarrow> u8 \<Rightarrow> u8 \<Rightarrow> u32" where
  "pci_address bus device func offset =
     push_bit 31 1 OR push_bit 16 (ucast bus) OR push_bit 11 (ucast device) OR push_bit 8 (ucast func)
       OR ucast (offset AND 0xFC)"

definition read_pci_config :: "'d ports \<Rightarrow> u8 \<Rightarrow> u8 \<Rightarrow> u8 \<Rightarrow> u8 \<Rightarrow> 'd \<Rightarrow> u32 \<times> 'd" where
  "read_pci_config hw bus device func offset d =
     (let d1 = outl hw PCI_CONFIG_PORT (pci_address bus device func offset) d;
          (x, d2) = inl hw PCI_DATA_PORT d1
      in (drop_bit (unat ((offset AND 2) * 8)) x, d2))"

definition read_pci_vendor_id :: "'d ports \<Rightarrow> u8 \<Rightarrow> u8 \<Rightarrow> u8 \<Rightarrow> 'd \<Rightarrow> u16 \<times> 'd" where
  "read_pci_vendor_id hw bus device func d =
     (let (x, d1) = read_pci_config hw bus device func 0x00 d in (ucast (x AND 0xFFFF), d1))"

definition read_pci_device_id :: "'d ports \<Rightarrow> u8 \<Rightarrow> u8 \<Rightarrow> u8 \<Rightarrow> 'd \<Rightarrow> u16 \<times> 'd" where
  "read_pci_device_id hw bus device func d =
     (let (x, d1) = read_pci_config hw bus device func 0x00 d in (ucast (drop_bit 16 x AND 0xFFFF), d1))"

definition read_pci_class_code :: "'d ports \<Rightarrow> u8 \<Rightarrow> u8 \<Rightarrow> u8 \<Rightarrow> 'd \<Rightarrow> u8 \<times> 'd" where
  "read_pci_class_code hw bus device func d =
     (let (x, d1) = read_pci_config hw bus device func 0x08 d in (ucast (drop_bit 24 x AND 0xFF), d1))"

definition read_pci_subclass_code :: "'d ports \<Rightarrow> u8 \<Rightarrow> u8 \<Rightarrow> u8 \<Rightarrow> 'd \<Rightarrow> u8 \<times> 'd" where
  "read_pci_subclass_code hw bus device func d =
     (let (x, d1) = read_pci_config hw bus device func 0x08 d in (ucast (drop_bit 16 x AND 0xFF), d1))"

definition read_pci_prog_if :: "'d ports \<Rightarrow> u8 \<Rightarrow> u8 \<Rightarrow> u8 \<Rightarrow> 'd \<Rightarrow> u8 \<times> 'd" where
  "read_pci_prog_if hw bus device func d =
     (let (x, d1) = read_pci_config hw bus device func 0x08 d in (ucast (drop_bit 8 x AND 0xFF), d1))"

definition read_pci_revision_id :: "'d ports \<Rightarrow> u8 \<Rightarrow> u8 \<Rightarrow> u8 \<Rightarrow> 'd \<Rightarrow> u8 \<times> 'd" where
  "read_pci_revision_id hw bus device func d =
     (let (x, d1) = read_pci_config hw bus device func 0x08 d in (ucast (x AND 0xFF), d1))"

definition read_pci_header_type :: "'d ports \<Rightarrow> u8 \<Rightarrow> u8 \<Rightarrow> u8 \<Rightarrow> 'd \<Rightarrow> u8 \<times> 'd" where
  "read_pci_header_type hw bus device func d =
     (let (x, d1) = read_pci_config hw bus device func 0x0C d in (ucast (drop_bit 16 x AND 0xFF), d1))"

text \<open>The offset is that of the first base address; the bus numbers of a bridge are at \<^verbatim>\<open>0x18\<close>.\<close>

definition read_pci_to_pci_secondary_bus :: "'d ports \<Rightarrow> u8 \<Rightarrow> u8 \<Rightarrow> u8 \<Rightarrow> 'd \<Rightarrow> u8 \<times> 'd" where
  "read_pci_to_pci_secondary_bus hw bus device func d =
     (let (x, d1) = read_pci_config hw bus device func 0x10 d in (ucast (x AND 0xFF), d1))"

definition get_pci_bar_addresses ::
    "'d ports \<Rightarrow> u8 \<Rightarrow> u8 \<Rightarrow> u8 \<Rightarrow> 'd \<Rightarrow> (u32 \<times> u32 \<times> u32 \<times> u32 \<times> u32 \<times> u32) \<times> 'd" where
  "get_pci_bar_addresses hw bus device func d =
     (let (bar0, d0) = read_pci_config hw bus device func 0x10 d;
          (bar1, d1) = read_pci_config hw bus device func 0x14 d0;
          (bar2, d2) = read_pci_config hw bus device func 0x18 d1;
          (bar3, d3) = read_pci_config hw bus device func 0x1C d2;
          (bar4, d4) = read_pci_config hw bus device func 0x20 d3;
          (bar5, d5) = read_pci_config hw bus device func 0x24 d4
      in ((bar0, bar1, bar2, bar3, bar4, bar5), d5))"

section \<open>Enumeration\<close>

record pci_device =
  pci_bus :: u8
  pci_dev :: u8
  pci_func :: u8
  device_id :: u16
  vendor_id :: u16
  class_code :: u8
  subclass_code :: u8
  prog_if :: u8
  revision_id :: u8

definition pci_device_new :: "'d ports \<Rightarrow> u8 \<Rightarrow> u8 \<Rightarrow> u8 \<Rightarrow> 'd \<Rightarrow> pci_device \<times> 'd" where
  "pci_device_new hw bus device func d =
     (let (vid, d1) = read_pci_vendor_id hw bus device func d;
          (did, d2) = read_pci_device_id hw bus device func d1;
          (cls, d3) = read_pci_class_code hw bus device func d2;
          (sub, d4) = read_pci_subclass_code hw bus device func d3;
          (pif, d5) = read_pci_prog_if hw bus device func d4;
          (rev, d6) = read_pci_revision_id hw bus device func d5
      in (\<lparr>pci_bus = bus, pci_dev = device, pci_func = func, device_id = did, vendor_id = vid, class_code = cls,
           subclass_code = sub, prog_if = pif, revision_id = rev\<rparr>, d6))"

type_synonym 'd pci_state = "pci_device list \<times> 'd"

definition check_function :: "'d ports \<Rightarrow> u8 \<Rightarrow> u8 \<Rightarrow> u8 \<Rightarrow> 'd pci_state \<Rightarrow> 'd pci_state" where
  "check_function hw bus device func s =
     (let (dv, d1) = pci_device_new hw bus device func (snd s);
          (cls, d2) = read_pci_class_code hw bus device func d1;
          (sub, d3) = read_pci_subclass_code hw bus device func d2
      in (fst s @ [dv],
          if cls = 0x06 \<and> sub = 0x04 then snd (read_pci_to_pci_secondary_bus hw bus device func d3) else d3))"

definition check_other :: "'d ports \<Rightarrow> u8 \<Rightarrow> u8 \<Rightarrow> u8 \<Rightarrow> 'd pci_state \<Rightarrow> 'd pci_state" where
  "check_other hw bus device func s =
     (let (vid, d1) = read_pci_vendor_id hw bus device func (snd s)
      in if vid \<noteq> 0xFFFF then check_function hw bus device func (fst s, d1) else (fst s, d1))"

definition check_device :: "'d ports \<Rightarrow> u8 \<Rightarrow> u8 \<Rightarrow> 'd pci_state \<Rightarrow> 'd pci_state" where
  "check_device hw bus device s =
     (let (vid, d1) = read_pci_vendor_id hw bus device 0 (snd s) in
      if vid = 0xFFFF then (fst s, d1)
      else
        let s1 = check_function hw bus device 0 (fst s, d1);
            (header_type, d2) = read_pci_header_type hw bus device 0 (snd s1)
        in if header_type AND 0x80 \<noteq> 0
           then fold (\<lambda>func. check_other hw bus device (of_nat func)) [1..<8] (fst s1, d2)
           else (fst s1, d2))"

definition check_bus :: "'d ports \<Rightarrow> u8 \<Rightarrow> 'd pci_state \<Rightarrow> 'd pci_state" where
  "check_bus hw bus s = fold (\<lambda>device. check_device hw bus (of_nat device)) [0..<32] s"

definition enumerate_pci_bus :: "'d ports \<Rightarrow> 'd pci_state \<Rightarrow> 'd pci_state" where
  "enumerate_pci_bus hw s = fold (\<lambda>bus. check_bus hw (of_nat bus)) [0..<256] s"

section \<open>The host bridge\<close>

text \<open>
  A bridge keeps the last address written to the configuration port and answers reads of the data port with the
  register it selects: bus in bits 16 to 23, device in bits 11 to 15, function in bits 8 to 10, register in bits 2 to 7.
\<close>

type_synonym config_space = "u32 \<Rightarrow> u32 \<Rightarrow> u32 \<Rightarrow> u32 \<Rightarrow> u32"

definition selected_register :: "config_space \<Rightarrow> u32 \<Rightarrow> u32" where
  "selected_register cfg a =
     cfg (take_bit 8 (drop_bit 16 a)) (take_bit 5 (drop_bit 11 a)) (take_bit 3 (drop_bit 8 a)) (take_bit 8 a AND NOT 3)"

definition pci_host :: "'d ports \<Rightarrow> config_space \<Rightarrow> ('d \<Rightarrow> u32) \<Rightarrow> bool" where
  "pci_host hw cfg latch \<longleftrightarrow>
     (\<forall>d a. latch (port_out32 hw 0xCF8 a d) = a)
   \<and> (\<forall>d. bit (latch d) 31 \<longrightarrow> fst (port_in32 hw 0xCFC d) = selected_register cfg (latch d))"

lemma small_bit:
  assumes "unat w < 2 ^ k" "bit w n"
  shows "n < k"
proof -
  have "take_bit k w = w" using assms(1) by (simp add: word_unat_eq_iff unat_take_bit)
  with assms(2) have "bit (take_bit k w) n" by simp
  then show ?thesis by (simp only: bit_take_bit_iff)
qed

lemma pci_address_bit:
  assumes "device < 32" "func < 8"
  shows "bit (pci_address bus device func offset) n \<longleftrightarrow>
     n = 31 \<or> (16 \<le> n \<and> n < 24 \<and> bit bus (n - 16)) \<or> (11 \<le> n \<and> n < 16 \<and> bit device (n - 11))
     \<or> (8 \<le> n \<and> n < 11 \<and> bit func (n - 8)) \<or> (2 \<le> n \<and> n < 8 \<and> bit offset n)"
proof -
  have fc: "(0xFC :: u8) = NOT (mask 2)" by (simp add: mask_eq_exp_minus_1)
  have "bit (push_bit 31 1 :: u32) n \<longleftrightarrow> n = 31"
    unfolding bit_push_bit_iff bit_1_iff by auto
  moreover have "bit (push_bit 16 (ucast bus) :: u32) n \<longleftrightarrow> 16 \<le> n \<and> n < 24 \<and> bit bus (n - 16)"
    using bit_imp_le_length [of bus "n - 16"] unfolding bit_push_bit_iff bit_ucast_iff by auto
  moreover have "bit (push_bit 11 (ucast device) :: u32) n \<longleftrightarrow> 11 \<le> n \<and> n < 16 \<and> bit device (n - 11)"
    using small_bit [of device 5 "n - 11"] assms(1) unfolding bit_push_bit_iff bit_ucast_iff by (auto simp: word_less_nat_alt)
  moreover have "bit (push_bit 8 (ucast func) :: u32) n \<longleftrightarrow> 8 \<le> n \<and> n < 11 \<and> bit func (n - 8)"
    using small_bit [of func 3 "n - 8"] assms(2) unfolding bit_push_bit_iff bit_ucast_iff by (auto simp: word_less_nat_alt)
  moreover have "bit (ucast (offset AND 0xFC) :: u32) n \<longleftrightarrow> 2 \<le> n \<and> n < 8 \<and> bit offset n"
    using bit_imp_le_length [of offset n] unfolding fc bit_ucast_iff bit_and_iff bit_not_iff bit_mask_iff by auto
  ultimately show ?thesis by (simp only: pci_address_def bit_or_iff disj_assoc)
qed

lemma pci_address_fields:
  assumes "device < 32" "func < 8"
  shows "bit (pci_address bus device func offset) 31"
    "take_bit 8 (drop_bit 16 (pci_address bus device func offset)) = ucast bus"
    "take_bit 5 (drop_bit 11 (pci_address bus device func offset)) = ucast device"
    "take_bit 3 (drop_bit 8 (pci_address bus device func offset)) = ucast func"
    "take_bit 8 (pci_address bus device func offset) AND NOT (mask 2) = ucast (offset AND NOT (mask 2))"
proof -
  note ab = pci_address_bit [OF assms, of bus offset] bit_take_bit_iff bit_drop_bit_eq comp_def bit_ucast_iff
  have dev: "bit device n \<Longrightarrow> n < 5" and fn: "bit func n \<Longrightarrow> n < 3" and bus: "bit bus n \<Longrightarrow> n < 8"
    and off: "bit offset n \<Longrightarrow> n < 8" for n
    using small_bit [of device 5] small_bit [of func 3] bit_imp_le_length [of offset n] bit_imp_le_length [of bus n] assms
    by (simp_all add: word_less_nat_alt)
  show "bit (pci_address bus device func offset) 31" by (simp add: ab)
  show "take_bit 8 (drop_bit 16 (pci_address bus device func offset)) = ucast bus"
    using bus by (intro bit_word_eqI) (auto simp: ab)
  show "take_bit 5 (drop_bit 11 (pci_address bus device func offset)) = ucast device"
    using dev by (intro bit_word_eqI) (auto simp: ab)
  show "take_bit 3 (drop_bit 8 (pci_address bus device func offset)) = ucast func"
    using fn by (intro bit_word_eqI) (auto simp: ab)
  show "take_bit 8 (pci_address bus device func offset) AND NOT (mask 2) = ucast (offset AND NOT (mask 2))"
    using off by (intro bit_word_eqI) (auto simp: ab bit_and_iff bit_not_iff bit_mask_iff)
qed

section \<open>What enumeration lists\<close>

definition config_word :: "config_space \<Rightarrow> u8 \<Rightarrow> u8 \<Rightarrow> u8 \<Rightarrow> u32 \<Rightarrow> u32" where
  "config_word cfg bus device func off = cfg (ucast bus) (ucast device) (ucast func) off"

lemma read_pci_config_value:
  assumes "pci_host hw cfg latch" "device < 32" "func < 8" "offset AND 3 = 0"
  shows "fst (read_pci_config hw bus device func offset d) = config_word cfg bus device func (ucast offset)"
proof -
  have three: "(3 :: u8) = mask 2" "(3 :: u32) = mask 2" by (simp_all add: mask_eq_exp_minus_1)
  have "offset AND 2 = (offset AND 3) AND 2" by (simp add: and.assoc)
  then have "offset AND 2 = 0" by (simp only: assms(4) zero_and_eq)
  have "offset AND NOT (mask 2) = offset"
    using assms(4) unfolding three by (metis and_not_mask_eq_minus diff_zero take_bit_eq_mask)
  with \<open>offset AND 2 = 0\<close> assms(1) pci_address_fields [OF assms(2,3), of bus offset] show ?thesis
    by (simp add: read_pci_config_def outl_def inl_def PCI_CONFIG_PORT_def PCI_DATA_PORT_def split_beta pci_host_def
        selected_register_def config_word_def three)
qed

definition pci_device_at :: "config_space \<Rightarrow> u8 \<Rightarrow> u8 \<Rightarrow> u8 \<Rightarrow> pci_device" where
  "pci_device_at cfg bus device func =
     (let ids = config_word cfg bus device func 0x00; cls = config_word cfg bus device func 0x08 in
      \<lparr>pci_bus = bus, pci_dev = device, pci_func = func, device_id = ucast (drop_bit 16 ids), vendor_id = ucast ids,
       class_code = ucast (drop_bit 24 cls), subclass_code = ucast (drop_bit 16 cls), prog_if = ucast (drop_bit 8 cls),
       revision_id = ucast cls\<rparr>)"

text \<open>A function answers with a vendor other than \<open>0xFFFF\<close>; further functions count for multi-function devices.\<close>

definition func_present :: "config_space \<Rightarrow> u8 \<Rightarrow> u8 \<Rightarrow> u8 \<Rightarrow> bool" where
  "func_present cfg bus device func \<longleftrightarrow> vendor_id (pci_device_at cfg bus device func) \<noteq> 0xFFFF"

definition multi_function :: "config_space \<Rightarrow> u8 \<Rightarrow> u8 \<Rightarrow> bool" where
  "multi_function cfg bus device \<longleftrightarrow> bit (config_word cfg bus device 0 0x0C) 23"

definition functions_at :: "config_space \<Rightarrow> u8 \<Rightarrow> u8 \<Rightarrow> u8 list" where
  "functions_at cfg bus device =
     (if \<not> func_present cfg bus device 0 then []
      else 0 # (if multi_function cfg bus device
                then filter (func_present cfg bus device) (map of_nat [1..<8]) else []))"

definition bus_listing :: "config_space \<Rightarrow> u8 \<Rightarrow> pci_device list" where
  "bus_listing cfg bus = concat (map (\<lambda>device.
     map (pci_device_at cfg bus device) (functions_at cfg bus device)) (map of_nat [0..<32]))"

lemma ucast_masked: "ucast (x AND 0xFFFF :: u32) = (ucast x :: u16)" "ucast (x AND 0xFF :: u32) = (ucast x :: u8)"
proof -
  have "(0xFFFF :: u32) = mask 16" "(0xFF :: u32) = mask 8" by (simp_all add: mask_eq_exp_minus_1)
  then show "ucast (x AND 0xFFFF :: u32) = (ucast x :: u16)" "ucast (x AND 0xFF :: u32) = (ucast x :: u8)"
    by (simp_all only: flip: take_bit_eq_mask) (rule bit_word_eqI, simp add: bit_simps)+
qed

lemma pci_device_new_value:
  assumes "pci_host hw cfg latch" "device < 32" "func < 8"
  shows "fst (pci_device_new hw bus device func d) = pci_device_at cfg bus device func"
  using read_pci_config_value [OF assms]
  by (simp add: pci_device_new_def read_pci_vendor_id_def read_pci_device_id_def read_pci_class_code_def
      read_pci_subclass_code_def read_pci_prog_if_def read_pci_revision_id_def split_beta ucast_masked pci_device_at_def Let_def)

lemma vendor_value:
  assumes "pci_host hw cfg latch" "device < 32" "func < 8"
  shows "fst (read_pci_vendor_id hw bus device func d) = 0xFFFF \<longleftrightarrow> \<not> func_present cfg bus device func"
  using read_pci_config_value [OF assms]
  by (simp add: read_pci_vendor_id_def split_beta ucast_masked pci_device_at_def Let_def func_present_def)

lemma header_value:
  assumes "pci_host hw cfg latch" "device < 32"
  shows "fst (read_pci_header_type hw bus device 0 d) AND 0x80 \<noteq> 0 \<longleftrightarrow> multi_function cfg bus device"
proof -
  have "(x AND 0x80 \<noteq> 0) = bit x 7" for x :: u8 using and_exp_eq_0_iff_not_bit [of x 7] by simp
  then show ?thesis
    using read_pci_config_value [OF assms, of 0]
    by (simp add: read_pci_header_type_def split_beta ucast_masked multi_function_def bit_ucast_iff bit_drop_bit_eq)
qed

lemma check_function_lists:
  assumes "pci_host hw cfg latch" "device < 32" "func < 8"
  shows "fst (check_function hw bus device func s) = fst s @ [pci_device_at cfg bus device func]"
  using pci_device_new_value [OF assms] by (simp add: check_function_def split_beta Let_def)

lemma fold_appends:
  assumes "\<And>x s. x \<in> set xs \<Longrightarrow> fst (f x s) = fst s @ g x"
  shows "fst (fold f xs s) = fst s @ concat (map g xs)"
  using assms by (induction xs arbitrary: s) simp_all

lemma check_device_lists:
  assumes "pci_host hw cfg latch" "device < 32"
  shows "fst (check_device hw bus device s)
    = fst s @ map (pci_device_at cfg bus device) (functions_at cfg bus device)"
proof -
  let ?other = "\<lambda>func. if func_present cfg bus device (of_nat func) then [pci_device_at cfg bus device (of_nat func)] else []"
  have "fst (check_other hw bus device (of_nat func) t) = fst t @ ?other func" if "func \<in> set [1..<8]" for func t
  proof -
    have "(of_nat func :: u8) < 8" using that by (simp add: word_less_nat_alt unat_of_nat)
    from check_function_lists [OF assms this] vendor_value [OF assms this] show ?thesis
      by (auto simp: check_other_def split_beta Let_def)
  qed
  then have "fst (fold (\<lambda>func. check_other hw bus device (of_nat func)) [1..<8] t) = fst t @ concat (map ?other [1..<8])" for t
    by (rule fold_appends)
  moreover have "concat (map ?other xs)
      = map (pci_device_at cfg bus device) (filter (func_present cfg bus device) (map of_nat xs))" for xs
    by (induction xs) simp_all
  ultimately show ?thesis
    using vendor_value [OF assms, of 0] header_value [OF assms] check_function_lists [OF assms, of 0]
    by (simp add: check_device_def split_beta Let_def functions_at_def)
qed

lemma check_bus_lists: "pci_host hw cfg latch \<Longrightarrow> fst (check_bus hw bus s) = fst s @ bus_listing cfg bus"
  unfolding check_bus_def bus_listing_def map_map comp_def
  by (intro fold_appends check_device_lists) (simp_all add: word_less_nat_alt unat_of_nat)

text \<open>C27: enumeration of the PCI bus. Behind a host bridge that decodes configuration addresses as documented, enumeration appends to the device list, in
  the order of buses, devices and functions, exactly the functions that answer: function 0 of every device that has a
  vendor, and the other functions of multi-function devices, each with the identification its configuration space holds.\<close>

theorem enumerate_pci_lists:
  assumes "pci_host hw cfg latch"
  shows "fst (enumerate_pci_bus hw (devs, d)) = devs @ concat (map (\<lambda>bus. bus_listing cfg (of_nat bus)) [0..<256])"
  unfolding enumerate_pci_bus_def
  using fold_appends [of "[0..<256]" "\<lambda>bus. check_bus hw (of_nat bus)" "\<lambda>bus. bus_listing cfg (of_nat bus)" "(devs, d)",
      OF check_bus_lists [OF assms]]
  by simp

text \<open>A machine with a host bridge, a graphics card with two functions and nothing else.\<close>

definition demo_space :: config_space where
  "demo_space bus device func off =
     (if bus = 0 \<and> device = 0 \<and> func = 0 then (if off = 0 then 0x29C08086 else if off = 8 then 0x06000000 else 0)
      else if bus = 0 \<and> device = 2 \<and> func < 2
        then (if off = 0 then 0x11111234 else if off = 8 then 0x03000002 else if off = 0x0C then 0x00800000 else 0)
      else 0xFFFFFFFF)"

definition demo_bridge :: "u32 ports" where
  "demo_bridge = \<lparr>port_in8 = (\<lambda>p d. (0xFF, d)), port_out8 = (\<lambda>p x d. d), port_in16 = (\<lambda>p d. (0xFFFF, d)),
     port_out16 = (\<lambda>p x d. d), port_in32 = (\<lambda>p d. (selected_register demo_space d, d)),
     port_out32 = (\<lambda>p x d. if p = 0xCF8 then x else d)\<rparr>"

lemma demo_bridge_host: "pci_host demo_bridge demo_space (\<lambda>d. d)"
  by (simp add: pci_host_def demo_bridge_def)

lemma demo_other_buses: "bus \<noteq> 0 \<Longrightarrow> bus_listing demo_space bus = []"
proof -
  have "ucast bus = (0 :: u32) \<longleftrightarrow> bus = 0" by (simp add: word_unat_eq_iff unat_ucast_up)
  then show "bus \<noteq> 0 \<Longrightarrow> bus_listing demo_space bus = []"
    by (simp add: bus_listing_def functions_at_def func_present_def pci_device_at_def config_word_def demo_space_def Let_def)
qed

lemma demo_bus_0: "map (\<lambda>p. (pci_dev p, pci_func p, vendor_id p)) (bus_listing demo_space 0)
    = [(0, 0, 0x8086), (2, 0, 0x1234), (2, 1, 0x1234)]"
  by code_simp

lemma concat_map_Nil: "(\<And>x. x \<in> set xs \<Longrightarrow> f x = []) \<Longrightarrow> concat (map f xs) = []"
  by (induction xs) simp_all

theorem enumerate_pci_lists_witness:
  "map (\<lambda>p. (pci_dev p, pci_func p, vendor_id p)) (fst (enumerate_pci_bus demo_bridge ([], 0)))
    = [(0, 0, 0x8086), (2, 0, 0x1234), (2, 1, 0x1234)]"
proof -
  have split: "[0..<256] = 0 # [Suc 0..<256]" by (rule upt_conv_Cons) simp
  have "bus_listing demo_space (of_nat bus) = []" if "0 < bus" "bus < 256" for bus
    using that by (intro demo_other_buses) (simp add: word_unat_eq_iff unat_of_nat_u8)
  then have "concat (map (\<lambda>bus. bus_listing demo_space (of_nat bus)) [Suc 0..<256]) = []"
    by (intro concat_map_Nil) (simp only: set_upt atLeastLessThan_iff Suc_le_eq)
  then have "concat (map (\<lambda>bus. bus_listing demo_space (of_nat bus)) [0..<256]) = bus_listing demo_space 0"
    unfolding split list.map concat.simps by (simp only: append_Nil2 semiring_1_class.of_nat_0)
  with enumerate_pci_lists [OF demo_bridge_host, of "[]" 0] demo_bus_0 show ?thesis by (simp only: append_Nil)
qed

end
