(* ===== verification/Paging.thy ===== *)
theory Paging
  imports Pmm Sync
begin

text \<open>
  Page tables, \<^verbatim>\<open>src/arch/x86_64/paging.rs\<close> and \<^verbatim>\<open>src/mem/vmm.rs\<close>. The directories are bytes of
  the memory of the physical memory manager, which also provides the pages for new tables; a
  \<^verbatim>\<open>&mut PageDirectory\<close> is its virtual address. \<^verbatim>\<open>vmm_map\<close> and \<^verbatim>\<open>get_next_level\<close> call each other;
  here \<open>get_next_level\<close> takes \<open>vmm_map\<close> as an argument and \<open>vmm_map\<close> ties the knot, with \<open>None\<close>
  for a recursion that does not return. What the boot loader and the processor report (paging
  mode, higher-half offset, kernel addresses, \<^verbatim>\<open>cpuid\<close>) is the record \<open>platform\<close>.
\<close>

section \<open>Page table entries\<close>

definition PT_FLAG_VALID :: u64 where "PT_FLAG_VALID = push_bit 0 1"
definition PT_FLAG_WRITE :: u64 where "PT_FLAG_WRITE = push_bit 1 1"
definition PT_FLAG_USER :: u64 where "PT_FLAG_USER = push_bit 2 1"
definition PT_FLAG_LARGE :: u64 where "PT_FLAG_LARGE = push_bit 7 1"
definition PT_FLAG_NX :: u64 where "PT_FLAG_NX = push_bit 63 1"
definition PT_PADDR_MASK :: u64 where "PT_PADDR_MASK = 0x0000FFFFFFFFF000"

definition PT_TABLE_FLAGS :: u64 where
  "PT_TABLE_FLAGS = PT_FLAG_VALID OR PT_FLAG_WRITE OR PT_FLAG_USER"

lemmas pt_flag_defs = PT_FLAG_VALID_def PT_FLAG_WRITE_def PT_FLAG_USER_def PT_FLAG_LARGE_def
  PT_FLAG_NX_def PT_PADDR_MASK_def PT_TABLE_FLAGS_def

type_synonym page_table_entry = u64

definition pte_new :: "u64 \<Rightarrow> u64 \<Rightarrow> page_table_entry" where
  "pte_new addr flags = addr OR flags"

definition pte_addr :: "page_table_entry \<Rightarrow> u64" where
  "pte_addr e = e AND PT_PADDR_MASK"

datatype field = Present | ReadWrite | UserSupervisor | WriteThrough | CacheDisable | Accessed
  | Avl0 | PageSizeBit | Avl1 | Addr | Nx

fun get_field :: "page_table_entry \<Rightarrow> field \<Rightarrow> u64" where
  "get_field e Present = drop_bit 0 e AND 1"
| "get_field e ReadWrite = drop_bit 1 e AND 1"
| "get_field e UserSupervisor = drop_bit 2 e AND 1"
| "get_field e WriteThrough = drop_bit 3 e AND 1"
| "get_field e CacheDisable = drop_bit 4 e AND 1"
| "get_field e Accessed = drop_bit 5 e AND 1"
| "get_field e Avl0 = drop_bit 6 e AND 1"
| "get_field e PageSizeBit = drop_bit 7 e AND 1"
| "get_field e Avl1 = drop_bit 8 e AND 0xF"
| "get_field e Addr = drop_bit 12 e AND 0x000FFFFFFFFFFFFF"
| "get_field e Nx = drop_bit 63 e AND 1"

fun field_mask :: "field \<Rightarrow> u64" where
  "field_mask Present = push_bit 0 1"
| "field_mask ReadWrite = push_bit 1 1"
| "field_mask UserSupervisor = push_bit 2 1"
| "field_mask WriteThrough = push_bit 3 1"
| "field_mask CacheDisable = push_bit 4 1"
| "field_mask Accessed = push_bit 5 1"
| "field_mask Avl0 = push_bit 6 1"
| "field_mask PageSizeBit = push_bit 7 1"
| "field_mask Avl1 = push_bit 8 0xF"
| "field_mask Addr = push_bit 12 0x000FFFFFFFFFFFFF"
| "field_mask Nx = push_bit 63 1"

fun field_shift :: "field \<Rightarrow> nat" where
  "field_shift Present = 0"
| "field_shift ReadWrite = 1"
| "field_shift UserSupervisor = 2"
| "field_shift WriteThrough = 3"
| "field_shift CacheDisable = 4"
| "field_shift Accessed = 5"
| "field_shift Avl0 = 6"
| "field_shift PageSizeBit = 7"
| "field_shift Avl1 = 8"
| "field_shift Addr = 12"
| "field_shift Nx = 63"

definition set_field :: "page_table_entry \<Rightarrow> field \<Rightarrow> u64 \<Rightarrow> page_table_entry" where
  "set_field e f v =
     (let m = field_mask f; shift = field_shift f
      in (e AND NOT m) OR (push_bit shift v AND m))"

definition is_table :: "page_table_entry \<Rightarrow> bool" where
  "is_table e \<longleftrightarrow> e AND (PT_FLAG_VALID OR PT_FLAG_LARGE) = PT_FLAG_VALID"

definition is_large :: "page_table_entry \<Rightarrow> bool" where
  "is_large e \<longleftrightarrow> e AND (PT_FLAG_VALID OR PT_FLAG_LARGE) = PT_FLAG_VALID OR PT_FLAG_LARGE"

definition vmm_flags :: "page_table_entry \<Rightarrow> u64" where
  "vmm_flags e = e AND (PT_FLAG_WRITE OR PT_FLAG_NX)"

section \<open>Directories in memory\<close>

datatype page_size = Size4KiB | Size2MiB | Size1GiB

fun page_size_index :: "page_size \<Rightarrow> nat" where
  "page_size_index Size4KiB = 0"
| "page_size_index Size2MiB = 1"
| "page_size_index Size1GiB = 2"

definition PAGE_SIZES :: "u64 list" where
  "PAGE_SIZES = [0x1000, 0x200000, 0x40000000, 0x8000000000, 0x1000000000000]"

datatype paging_mode = FOUR_LEVEL | FIVE_LEVEL | OTHER_LEVEL

record platform =
  hhdm_offset :: usize
  paging_level :: paging_mode
  cpuid_edx :: u32
  physical_base :: u64
  virtual_base :: u64

record vmm_state =
  pmm :: pmm_state
  is_1gib_supported :: "bool once_cell_state cell"
  kernel_page_directory :: u64
  cr3 :: u64

text \<open>\<^verbatim>\<open>page_directory.entries[i]\<close>, read and written, with the bounds check of the array.\<close>

definition dir_get :: "usize \<Rightarrow> usize \<Rightarrow> vmm_state \<Rightarrow> page_table_entry res" where
  "dir_get dir i st =
     (if i < 512 then Inr (of_nat (le_val (mem_read (ram (pmm st)) (dir + 8 * i) 8)))
      else Inl (Panic IndexOutOfBounds))"

definition dir_set :: "usize \<Rightarrow> usize \<Rightarrow> page_table_entry \<Rightarrow> vmm_state \<Rightarrow> vmm_state res" where
  "dir_set dir i e st =
     (if i < 512
      then Inr (st\<lparr>pmm := (pmm st)\<lparr>ram := mem_write (ram (pmm st)) (dir + 8 * i) (to_le 8 (unat e))\<rparr>\<rparr>)
      else Inl (Panic IndexOutOfBounds))"

definition alloc_table :: "platform \<Rightarrow> vmm_state \<Rightarrow> physical_ptr \<times> vmm_state" where
  "alloc_table pf st =
     (let (s, p) = pmm_alloc (hhdm_offset pf) 1 (pmm st) in (p, st\<lparr>pmm := s\<rparr>))"

definition is_1gib_page_supported :: "platform \<Rightarrow> vmm_state \<Rightarrow> (bool \<times> vmm_state) res" where
  "is_1gib_page_supported pf st =
     rbind
       (if once_get (is_1gib_supported st) = Inl ErrUnit then
          (if cpuid_edx pf AND push_bit 26 1 = push_bit 26 1
           then rbind (once_set (is_1gib_supported st) True) (\<lambda>c. Inr (st\<lparr>is_1gib_supported := c\<rparr>))
           else rbind (once_set (is_1gib_supported st) False) (\<lambda>c. Inr (st\<lparr>is_1gib_supported := c\<rparr>)))
        else Inr st)
       (\<lambda>st. rbind (once_get_unchecked (is_1gib_supported st)) (\<lambda>b. Inr (b, st)))"

section \<open>Mapping\<close>

text \<open>
  \<^verbatim>\<open>let mut i = 0; while i < limit { body(i); i += step }\<close> for the constant limits and steps of
  the page sizes: the values \<open>i\<close> takes, and the loop over them.
\<close>

definition loop_offsets :: "u64 \<Rightarrow> u64 \<Rightarrow> u64 list" where
  "loop_offsets limit step =
     map (\<lambda>k. of_nat k * step) [0..<(unat limit + unat step - 1) div unat step]"

fun each :: "('i \<Rightarrow> 's \<Rightarrow> 's res option) \<Rightarrow> 'i list \<Rightarrow> 's \<Rightarrow> 's res option" where
  "each body [] s = Some (Inr s)"
| "each body (i # is) s = obind (body i s) (each body is)"

type_synonym vmm_map_fn = "usize \<Rightarrow> usize \<Rightarrow> usize \<Rightarrow> u64 \<Rightarrow> page_size \<Rightarrow> vmm_state \<Rightarrow> vmm_state res option"

definition get_next_level ::
    "vmm_map_fn \<Rightarrow> platform \<Rightarrow> usize \<Rightarrow> usize \<Rightarrow> page_size \<Rightarrow> nat \<Rightarrow> usize \<Rightarrow> vmm_state
      \<Rightarrow> (physical_ptr \<times> vmm_state) res option" where
  "get_next_level map_page pf dir va desired_size level entry st =
     obind (Some (dir_get dir entry st)) (\<lambda>e.
     if is_table e then Some (Inr (PhysicalPtr (pte_addr e), st))
     else if is_large e then
       obind (Some (rassert (level \<le> 3 \<and> level \<noteq> 0))) (\<lambda>_.
       obind (Some (index_res PAGE_SIZES level)) (\<lambda>old_page_size.
       obind (Some (index_res PAGE_SIZES (page_size_index desired_size))) (\<lambda>new_page_size.
       let old_flags = vmm_flags e;
           old_phys = pte_addr e;
           old_virt = va AND NOT (old_page_size - 1)
       in obind (Some (rassert (old_phys AND (old_page_size - 1) = 0))) (\<lambda>_.
       let (ret, st1) = alloc_table pf st
       in obind (Some (dir_set dir entry (pte_new (physical_addr ret) PT_TABLE_FLAGS) st1)) (\<lambda>st2.
       obind (each (\<lambda>i. map_page dir (old_virt + i) (old_phys + i) old_flags desired_size)
                (loop_offsets old_page_size new_page_size) st2) (\<lambda>st3.
       Some (Inr (ret, st3))))))))
     else
       (let (ret, st1) = alloc_table pf st
        in obind (Some (dir_set dir entry (pte_new (physical_addr ret) PT_TABLE_FLAGS) st1)) (\<lambda>st2.
        Some (Inr (ret, st2)))))"

text \<open>\<^verbatim>\<open>&mut *ptr.to_higher_half().as_raw_ptr()\<close> on the result of \<open>get_next_level\<close>.\<close>

definition next_dir ::
    "vmm_map_fn \<Rightarrow> platform \<Rightarrow> usize \<Rightarrow> usize \<Rightarrow> page_size \<Rightarrow> nat \<Rightarrow> usize \<Rightarrow> vmm_state
      \<Rightarrow> (usize \<times> vmm_state) res option" where
  "next_dir map_page pf dir va desired_size level entry st =
     obind (get_next_level map_page pf dir va desired_size level entry st) (\<lambda>(ptr, st1).
     Some (Inr (virtual_addr (to_higher_half (hhdm_offset pf) ptr), st1)))"

definition pml_entry :: "nat \<Rightarrow> usize \<Rightarrow> usize" where
  "pml_entry shift va = drop_bit shift (va AND push_bit shift 0x1ff)"

lemma obind_mono [partial_function_mono]:
  assumes "mono_option m" and "\<And>x. mono_option (\<lambda>f. k x f)"
  shows "mono_option (\<lambda>f. obind (m f) (\<lambda>x. k x f))"
  unfolding obind_def
proof (rule bind_mono [OF assms(1)])
  fix r
  show "mono_option (\<lambda>f. case r of Inl e \<Rightarrow> Some (Inl e) | Inr x \<Rightarrow> k x f)"
    by (cases r) (auto intro: assms(2) option.const_mono)
qed

lemma each_mono [partial_function_mono]:
  assumes "\<And>i s. mono_option (\<lambda>f. body f i s)"
  shows "mono_option (\<lambda>f. each (body f) is s)"
proof (induction "is" arbitrary: s)
  case Nil
  then show ?case by (simp add: option.const_mono)
next
  case (Cons i "is")
  then show ?case unfolding each.simps by (intro obind_mono assms)
qed

lemma get_next_level_mono [partial_function_mono]:
  assumes "\<And>dir va pa flags sz st. mono_option (\<lambda>f. map_page f dir va pa flags sz st)"
  shows "mono_option (\<lambda>f. get_next_level (map_page f) pf dir va sz level entry st)"
  unfolding get_next_level_def Let_def split_def
  by (intro obind_mono option.const_mono if_mono each_mono assms)

lemma next_dir_mono [partial_function_mono]:
  assumes "\<And>dir va pa flags sz st. mono_option (\<lambda>f. map_page f dir va pa flags sz st)"
  shows "mono_option (\<lambda>f. next_dir (map_page f) pf dir va sz level entry st)"
  unfolding next_dir_def split_def
  by (intro obind_mono option.const_mono get_next_level_mono assms)

partial_function (option) vmm_map :: "platform \<Rightarrow> vmm_map_fn" where
  "vmm_map pf page_directory va pa flags0 page_size st =
     (let flags = flags0 OR 0x01 in
      obind
        (case paging_level pf of
           FIVE_LEVEL \<Rightarrow> next_dir (vmm_map pf) pf page_directory va page_size 4 (pml_entry 48 va) st
         | FOUR_LEVEL \<Rightarrow> Some (Inr (page_directory, st))
         | OTHER_LEVEL \<Rightarrow> Some (Inl (Panic ExplicitPanic))) (\<lambda>(pml4, st4).
      obind (next_dir (vmm_map pf) pf pml4 va page_size 3 (pml_entry 39 va) st4) (\<lambda>(pml3, st3).
      if page_size = Size1GiB then
        obind (Some (is_1gib_page_supported pf st3)) (\<lambda>(supported, st').
        if supported then Some (dir_set pml3 (pml_entry 30 va) (pa OR flags OR PT_FLAG_LARGE) st')
        else each (\<lambda>i. vmm_map pf page_directory (va + i) (pa + i) flags Size2MiB)
               (loop_offsets 0x40000000 0x200000) st')
      else
        obind (next_dir (vmm_map pf) pf pml3 va page_size 2 (pml_entry 30 va) st3) (\<lambda>(pml2, st2).
        if page_size = Size2MiB then
          Some (dir_set pml2 (pml_entry 21 va) (pa OR flags OR PT_FLAG_LARGE) st2)
        else
          obind (next_dir (vmm_map pf) pf pml2 va page_size 1 (pml_entry 21 va) st2) (\<lambda>(pml1, st1).
          let flags' = (if flags AND push_bit 12 1 \<noteq> 0
                        then (flags AND NOT (push_bit 12 1)) OR push_bit 7 1 else flags)
          in Some (dir_set pml1 (pml_entry 12 va) (pa OR flags') st1))))))"

section \<open>The kernel's address space\<close>

definition va_space_switch :: "platform \<Rightarrow> usize \<Rightarrow> vmm_state \<Rightarrow> vmm_state" where
  "va_space_switch pf page_directory st =
     (let kernel_virtual_base = virtual_base pf;
          pd_ptr = (if kernel_virtual_base < page_directory then page_directory - kernel_virtual_base
                    else if hhdm_offset pf < page_directory then page_directory - hhdm_offset pf
                    else page_directory)
      in st\<lparr>cr3 := pd_ptr\<rparr>)"

text \<open>\<^verbatim>\<open>while i < limit { body(i); i += step }\<close>; with a large limit the increment can wrap below it.\<close>

partial_function (option) while_below ::
    "(usize \<Rightarrow> 's \<Rightarrow> 's res option) \<Rightarrow> usize \<Rightarrow> usize \<Rightarrow> usize \<Rightarrow> 's \<Rightarrow> 's res option" where
  "while_below body limit step i s =
     (if i < limit then obind (body i s) (while_below body limit step (i + step)) else Some (Inr s))"

definition VMM_FLAG_WRITE :: u64 where
  "VMM_FLAG_WRITE = push_bit 1 1"

definition map_kernel_entry :: "platform \<Rightarrow> 'ty \<Rightarrow> usize \<Rightarrow> 'ty memmap_entry \<Rightarrow> vmm_state \<Rightarrow> vmm_state res option" where
  "map_kernel_entry pf KERNEL_AND_MODULES page_directory entry st =
     (if entry_type entry \<noteq> KERNEL_AND_MODULES then Some (Inr st)
      else while_below
        (\<lambda>i. vmm_map pf page_directory (virtual_base pf + i) (physical_base pf + i) 0x02 Size4KiB)
        (len entry) 0x1000 0 st)"

definition map_high_entry :: "platform \<Rightarrow> 'ty \<Rightarrow> 'ty \<Rightarrow> usize \<Rightarrow> 'ty memmap_entry \<Rightarrow> vmm_state \<Rightarrow> vmm_state res option" where
  "map_high_entry pf RESERVED BAD_MEMORY page_directory entry st =
     (if entry_type entry = RESERVED \<or> entry_type entry = BAD_MEMORY then Some (Inr st)
      else
        let top = base entry + len entry;
            base1 = (if base entry < 0x100000000 then 0x100000000 else base entry)
        in if base1 \<ge> top then Some (Inr st)
        else
          obind (Some (align_down base1 0x40000000)) (\<lambda>aligned_base.
          obind (Some (align_up top 0x40000000)) (\<lambda>aligned_top.
          let aligned_length = aligned_top - aligned_base
          in while_below
            (\<lambda>i. let page = aligned_base + i
                 in vmm_map pf page_directory (page + hhdm_offset pf) page 0x02 Size1GiB)
            aligned_length 0x40000000 0 st)))"

definition vmm_init ::
    "platform \<Rightarrow> 'ty \<Rightarrow> 'ty \<Rightarrow> 'ty \<Rightarrow> 'ty memmap_entry list \<Rightarrow> vmm_state \<Rightarrow> vmm_state res option" where
  "vmm_init pf KERNEL_AND_MODULES RESERVED BAD_MEMORY memmap st =
     (let (p, st0) = alloc_table pf st;
          page_directory = virtual_addr (to_higher_half (hhdm_offset pf) p);
          st1 = st0\<lparr>kernel_page_directory := page_directory\<rparr>
      in
      obind (while_below
        (\<lambda>i. vmm_map pf page_directory (i + hhdm_offset pf) i VMM_FLAG_WRITE Size1GiB)
        0x100000000 0x40000000 0 st1) (\<lambda>st2.
      obind (each (map_kernel_entry pf KERNEL_AND_MODULES page_directory) memmap st2) (\<lambda>st3.
      obind (each (map_high_entry pf RESERVED BAD_MEMORY page_directory) memmap st3) (\<lambda>st4.
      Some (Inr (va_space_switch pf page_directory st4))))))"

definition get_kernel_pdpt :: "vmm_state \<Rightarrow> usize" where
  "get_kernel_pdpt st = kernel_page_directory st"

end
