(* ===== verification/Page_Walk.thy ===== *)
theory Page_Walk
  imports Paging
begin

text \<open>
  What the processor does with the tables: the page walk of the x86-64 manual, for four and five
  levels, over an abstract view \<open>E p i\<close> of the tables (entry \<open>i\<close> of the table at physical address \<open>p\<close>).
  Tables that form a tree are changed by one entry at a time; the lemmas say which addresses such
  a change can affect.
\<close>

section \<open>The walk\<close>

abbreviation lvl_shift :: "nat \<Rightarrow> nat" where
  "lvl_shift l \<equiv> 9 * l + 3"

abbreviation idx :: "nat \<Rightarrow> usize \<Rightarrow> usize" where
  "idx l va \<equiv> pml_entry (lvl_shift l) va"

definition frame_mask :: "nat \<Rightarrow> u64" where
  "frame_mask l = mask 52 AND NOT (mask (lvl_shift l))"

type_synonym tables = "u64 \<Rightarrow> usize \<Rightarrow> page_table_entry"

text \<open>
  The level of the page, the physical address, and whether it may be written, used in user mode, and
  not executed.
\<close>

type_synonym translation = "nat \<times> u64 \<times> bool \<times> bool \<times> bool"

fun restrict :: "page_table_entry \<Rightarrow> translation \<Rightarrow> translation" where
  "restrict e (l, a, w, u, n) = (l, a, w \<and> bit e 1, u \<and> bit e 2, n \<or> bit e 63)"

definition leaf :: "nat \<Rightarrow> page_table_entry \<Rightarrow> usize \<Rightarrow> translation" where
  "leaf l e va = (l, (e AND frame_mask l) OR take_bit (lvl_shift l) va, bit e 1, bit e 2, bit e 63)"

primrec walk :: "tables \<Rightarrow> nat \<Rightarrow> u64 \<Rightarrow> usize \<Rightarrow> translation option" where
  "walk E 0 p va = None"
| "walk E (Suc l) p va =
     (let e = E p (idx (Suc l) va) in
      if \<not> bit e 0 then None
      else if l = 0 \<or> bit e 7 then (if l \<le> 2 then Some (leaf (Suc l) e va) else None)
      else map_option (restrict e) (walk E l (e AND frame_mask 1) va))"

text \<open>The table \<open>k\<close> levels below \<open>p\<close> on the way of an address.\<close>

primrec table_at :: "tables \<Rightarrow> nat \<Rightarrow> nat \<Rightarrow> u64 \<Rightarrow> usize \<Rightarrow> u64 option" where
  "table_at E 0 l p va = Some p"
| "table_at E (Suc k) l p va =
     (let e = E p (idx l va) in if is_table e then table_at E k (l - 1) (pte_addr e) va else None)"

section \<open>Entries and indices\<close>

lemma bit_push_bit_1: "k < 64 \<Longrightarrow> bit (push_bit k 1 :: u64) n \<longleftrightarrow> n = k"
  unfolding bit_push_bit_iff bit_1_iff by auto

lemma bit_PT_FLAG:
  "bit PT_FLAG_VALID n \<longleftrightarrow> n = 0" "bit PT_FLAG_WRITE n \<longleftrightarrow> n = 1" "bit PT_FLAG_USER n \<longleftrightarrow> n = 2"
  "bit PT_FLAG_LARGE n \<longleftrightarrow> n = 7" "bit PT_FLAG_NX n \<longleftrightarrow> n = 63"
  unfolding pt_flag_defs by (rule bit_push_bit_1; simp)+

lemma u64_eq_iff: "x = y \<longleftrightarrow> (\<forall>n<64. bit x n = bit y n)" for x y :: u64
  by (auto intro: bit_word_eqI)

lemma is_table_bits: "is_table e \<longleftrightarrow> bit e 0 \<and> \<not> bit e 7"
proof -
  have "is_table e \<longleftrightarrow> (\<forall>n<64. (bit e n \<and> (n = 0 \<or> n = 7)) = (n = 0))"
    unfolding is_table_def u64_eq_iff bit_and_iff bit_or_iff bit_PT_FLAG ..
  then show ?thesis by (auto dest: spec [of _ 0] spec [of _ 7])
qed

lemma is_large_bits: "is_large e \<longleftrightarrow> bit e 0 \<and> bit e 7"
proof -
  have "is_large e \<longleftrightarrow> (\<forall>n<64. (bit e n \<and> (n = 0 \<or> n = 7)) = (n = 0 \<or> n = 7))"
    unfolding is_large_def u64_eq_iff bit_and_iff bit_or_iff bit_PT_FLAG ..
  then show ?thesis by (auto dest: spec [of _ 0] spec [of _ 7])
qed

lemma bit_frame_mask: "bit (frame_mask l) n \<longleftrightarrow> lvl_shift l \<le> n \<and> n < 52"
  by (auto simp: frame_mask_def bit_simps)

lemma bit_0x1ff: "bit (0x1ff :: u64) n \<longleftrightarrow> n < 9"
proof -
  have m: "(0x1ff :: u64) = mask 9" by (simp add: mask_eq_exp_minus_1)
  show ?thesis unfolding m bit_mask_iff by auto
qed

lemma bit_pml_entry: "bit (pml_entry sh va) n \<longleftrightarrow> n < 9 \<and> bit va (sh + n)"
  unfolding pml_entry_def bit_drop_bit_eq comp_def bit_and_iff bit_push_bit_iff bit_0x1ff
  by (auto dest: bit_imp_le_length)

lemma pml_entry_less [simp]: "pml_entry sh va < 512"
proof -
  have "take_bit 9 (pml_entry sh va) = pml_entry sh va"
    by (rule bit_word_eqI) (auto simp: bit_simps bit_pml_entry)
  then have "unat (pml_entry sh va) mod 512 = unat (pml_entry sh va)"
    using unat_take_bit [of 9 "pml_entry sh va"] by simp
  then have "unat (pml_entry sh va) < 512"
    using mod_less_divisor [of 512 "unat (pml_entry sh va)"] by linarith
  then show ?thesis by (simp add: word_less_nat_alt)
qed

lemma pml_entry_eq_iff: "pml_entry sh va = pml_entry sh va' \<longleftrightarrow> (\<forall>n<9. bit va (sh + n) = bit va' (sh + n))"
proof -
  have "n < 9 \<Longrightarrow> n < 64" for n :: nat by simp
  then show ?thesis unfolding u64_eq_iff bit_pml_entry by blast
qed

text \<open>Two addresses lie in the same page of level \<open>l\<close> when the walk uses the same entries down to \<open>l\<close>.\<close>

definition same_page :: "nat \<Rightarrow> nat \<Rightarrow> usize \<Rightarrow> usize \<Rightarrow> bool" where
  "same_page lev l va va' \<longleftrightarrow>
     drop_bit (lvl_shift l) (take_bit (9 * lev + 12) va) = drop_bit (lvl_shift l) (take_bit (9 * lev + 12) va')"

lemma same_page_bits:
  "same_page lev l va va' \<longleftrightarrow> (\<forall>n. lvl_shift l \<le> n \<and> n < 9 * lev + 12 \<longrightarrow> bit va n = bit va' n)"
proof
  assume s: "same_page lev l va va'"
  show "\<forall>n. lvl_shift l \<le> n \<and> n < 9 * lev + 12 \<longrightarrow> bit va n = bit va' n"
  proof (intro allI impI)
    fix n assume n: "lvl_shift l \<le> n \<and> n < 9 * lev + 12"
    have "bit (drop_bit (lvl_shift l) (take_bit (9 * lev + 12) va)) (n - lvl_shift l)
      = bit (drop_bit (lvl_shift l) (take_bit (9 * lev + 12) va')) (n - lvl_shift l)"
      using s by (simp only: same_page_def)
    with n show "bit va n = bit va' n"
      by (simp add: bit_drop_bit_eq bit_take_bit_iff)
  qed
next
  assume b: "\<forall>n. lvl_shift l \<le> n \<and> n < 9 * lev + 12 \<longrightarrow> bit va n = bit va' n"
  show "same_page lev l va va'"
    unfolding same_page_def by (rule bit_word_eqI) (use b in \<open>auto simp: bit_simps\<close>)
qed

lemma same_page_idx: "same_page lev l va va' \<longleftrightarrow> (\<forall>j. l \<le> j \<and> j \<le> lev \<longrightarrow> idx j va = idx j va')"
proof
  assume s: "same_page lev l va va'"
  show "\<forall>j. l \<le> j \<and> j \<le> lev \<longrightarrow> idx j va = idx j va'"
    using s unfolding same_page_bits pml_entry_eq_iff by auto
next
  assume i: "\<forall>j. l \<le> j \<and> j \<le> lev \<longrightarrow> idx j va = idx j va'"
  show "same_page lev l va va'"
    unfolding same_page_bits
  proof (intro allI impI)
    fix n assume n: "lvl_shift l \<le> n \<and> n < 9 * lev + 12"
    define j where "j = (n - 3) div 9"
    have "l \<le> j" "j \<le> lev"
      using n by (auto simp: j_def)
    with i have "\<forall>m<9. bit va (lvl_shift j + m) = bit va' (lvl_shift j + m)"
      by (simp add: pml_entry_eq_iff)
    moreover have "n = lvl_shift j + (n - 3) mod 9"
      using n mult_div_mod_eq [of 9 "n - 3"] by (simp add: j_def)
    ultimately show "bit va n = bit va' n" by (metis mod_less_divisor zero_less_numeral)
  qed
qed

section \<open>Trees of tables\<close>

text \<open>
  \<open>lv\<close> gives the level of every known table. Every entry above the lowest level that is a table points at
  a known table one level down, grants all permissions, and no two entries share a table. There are no
  large pages above level 3.
\<close>

definition table_ok :: "page_table_entry \<Rightarrow> bool" where
  "table_ok e \<longleftrightarrow> e AND frame_mask 1 = pte_addr e \<and> bit e 1 \<and> bit e 2 \<and> \<not> bit e 63"

definition links :: "tables \<Rightarrow> (u64 \<Rightarrow> nat option) \<Rightarrow> u64 \<Rightarrow> usize \<Rightarrow> bool" where
  "links E lv p i \<longleftrightarrow> (\<exists>l. lv p = Some l \<and> 1 < l) \<and> i < 512 \<and> is_table (E p i)"

definition pt_tree :: "tables \<Rightarrow> (u64 \<Rightarrow> nat option) \<Rightarrow> nat \<Rightarrow> u64 \<Rightarrow> bool" where
  "pt_tree E lv lev root \<longleftrightarrow> lv root = Some lev
     \<and> (\<forall>p l. lv p = Some l \<longrightarrow> 1 \<le> l \<and> l \<le> lev)
     \<and> (\<forall>p l i. lv p = Some l \<and> 4 \<le> l \<and> i < 512 \<longrightarrow> \<not> is_large (E p i))
     \<and> (\<forall>p i. links E lv p i \<longrightarrow> lv (pte_addr (E p i)) = Some (the (lv p) - 1) \<and> table_ok (E p i))
     \<and> (\<forall>p q i j. links E lv p i \<and> links E lv q j \<and> pte_addr (E p i) = pte_addr (E q j) \<longrightarrow> p = q \<and> i = j)"

lemma pt_tree_root: "pt_tree E lv lev root \<Longrightarrow> lv root = Some lev"
  by (simp add: pt_tree_def)

lemma pt_tree_level: "pt_tree E lv lev root \<Longrightarrow> lv p = Some l \<Longrightarrow> 1 \<le> l \<and> l \<le> lev"
  unfolding pt_tree_def by blast

lemma pt_tree_no_large:
  "pt_tree E lv lev root \<Longrightarrow> lv p = Some l \<Longrightarrow> 4 \<le> l \<Longrightarrow> i < 512 \<Longrightarrow> \<not> is_large (E p i)"
  unfolding pt_tree_def by blast

lemma pt_tree_child:
  assumes "pt_tree E lv lev root" "lv p = Some l" "1 < l" "i < 512" "is_table (E p i)"
  shows "lv (pte_addr (E p i)) = Some (l - 1)" and "table_ok (E p i)"
proof -
  have "links E lv p i" using assms by (simp add: links_def)
  then have "lv (pte_addr (E p i)) = Some (the (lv p) - 1) \<and> table_ok (E p i)"
    using assms(1) unfolding pt_tree_def by blast
  with assms(2) show "lv (pte_addr (E p i)) = Some (l - 1)" "table_ok (E p i)" by simp_all
qed

lemma pt_tree_unique:
  assumes "pt_tree E lv lev root" "links E lv p i" "links E lv q j" "pte_addr (E p i) = pte_addr (E q j)"
  shows "p = q" and "i = j"
  using assms unfolding pt_tree_def by blast+

lemma pt_tree_links:
  "pt_tree E lv lev root \<Longrightarrow> links E lv p i \<Longrightarrow> lv (pte_addr (E p i)) = Some (the (lv p) - 1) \<and> table_ok (E p i)"
  unfolding pt_tree_def by blast

lemma pt_tree_fewer:
  assumes tree: "pt_tree E lv lev root"
    and sub: "\<And>p i. links E' lv p i \<Longrightarrow> links E lv p i \<and> E' p i = E p i"
    and large: "\<And>p l i. lv p = Some l \<Longrightarrow> 4 \<le> l \<Longrightarrow> i < 512 \<Longrightarrow> \<not> is_large (E' p i)"
  shows "pt_tree E' lv lev root"
  unfolding pt_tree_def
proof (intro conjI allI impI)
  show "lv root = Some lev" using tree by (rule pt_tree_root)
next
  fix p m assume "lv p = Some m"
  then show "1 \<le> m" "m \<le> lev" using pt_tree_level [OF tree] by simp_all
next
  fix p m and i :: usize assume "lv p = Some m \<and> 4 \<le> m \<and> i < 512"
  then show "\<not> is_large (E' p i)" using large by blast
next
  fix p i assume "links E' lv p i"
  then show "lv (pte_addr (E' p i)) = Some (the (lv p) - 1)" "table_ok (E' p i)"
    using pt_tree_links [OF tree, of p i] sub [of p i] by simp_all
next
  fix p q i j assume "links E' lv p i \<and> links E' lv q j \<and> pte_addr (E' p i) = pte_addr (E' q j)"
  then show "p = q" "i = j"
    using pt_tree_unique [OF tree, of p i q j] sub [of p i] sub [of q j] by simp_all
qed

lemma pt_tree_cong:
  assumes "\<And>p i. lv p \<noteq> None \<Longrightarrow> i < 512 \<Longrightarrow> E' p i = E p i" "pt_tree E lv lev root"
  shows "pt_tree E' lv lev root"
  using assms(1) pt_tree_no_large [OF assms(2)]
  by (intro pt_tree_fewer [OF assms(2)]) (auto simp: links_def)

lemma table_at_level:
  assumes "pt_tree E lv lev root" "lv a = Some m" "k < m" "table_at E k m a va = Some p"
  shows "lv p = Some (m - k)"
  using assms(2-)
proof (induction k arbitrary: a m)
  case (Suc k)
  then have t: "is_table (E a (idx m va))" "table_at E k (m - 1) (pte_addr (E a (idx m va))) va = Some p"
    by (simp_all add: Let_def split: if_splits)
  have "lv (pte_addr (E a (idx m va))) = Some (m - 1)"
    using pt_tree_child [OF assms(1) Suc.prems(1) _ _ t(1)] Suc.prems(2) by simp
  from Suc.IH [OF this _ t(2)] Suc.prems(2) show ?case by simp
qed simp

lemma table_at_unique:
  assumes "pt_tree E lv lev root" "lv a = Some m" "lv b = Some m" "k < m"
    "table_at E k m a x = Some p" "table_at E k m b y = Some p"
  shows "a = b \<and> (\<forall>j. m - k < j \<and> j \<le> m \<longrightarrow> idx j x = idx j y)"
  using assms(2-)
proof (induction k arbitrary: a b m)
  case (Suc k)
  define a' b' where "a' = pte_addr (E a (idx m x))" and "b' = pte_addr (E b (idx m y))"
  have t: "is_table (E a (idx m x))" "table_at E k (m - 1) a' x = Some p"
    "is_table (E b (idx m y))" "table_at E k (m - 1) b' y = Some p"
    using Suc.prems by (simp_all add: a'_def b'_def Let_def split: if_splits)
  have l: "lv a' = Some (m - 1)" "lv b' = Some (m - 1)"
    unfolding a'_def b'_def
    using pt_tree_child(1) [OF assms(1) Suc.prems(1) _ _ t(1)] pt_tree_child(1) [OF assms(1) Suc.prems(2) _ _ t(3)]
      Suc.prems(3) by simp_all
  have ih: "a' = b' \<and> (\<forall>j. m - 1 - k < j \<and> j \<le> m - 1 \<longrightarrow> idx j x = idx j y)"
    using Suc.prems(3) by (intro Suc.IH [OF l _ t(2) t(4)]) simp
  have "links E lv a (idx m x)" "links E lv b (idx m y)"
    using Suc.prems t by (auto simp: links_def)
  from pt_tree_unique [OF assms(1) this] ih have ab: "a = b" "idx m x = idx m y"
    by (simp_all add: a'_def b'_def)
  have "idx j x = idx j y" if "m - Suc k < j \<and> j \<le> m" for j
    using ih ab(2) that by (cases "j = m") auto
  with ab(1) show ?case by blast
qed auto

lemma table_at_idx:
  assumes "\<And>j. m - k < j \<Longrightarrow> j \<le> m \<Longrightarrow> idx j x = idx j y" "k < m"
  shows "table_at E k m a x = table_at E k m a y"
  using assms
proof (induction k arbitrary: a m)
  case (Suc k)
  have "table_at E k (m - 1) a' x = table_at E k (m - 1) a' y" for a'
    using Suc.prems by (intro Suc.IH) auto
  moreover have "idx m x = idx m y" using Suc.prems by (intro Suc.prems(1)) auto
  ultimately show ?case by (simp add: Let_def)
qed simp

lemma table_at_append:
  "table_at E (j + k) m a va = Option.bind (table_at E j m a va) (\<lambda>b. table_at E k (m - j) b va)"
  by (induction j arbitrary: m a) (auto simp: Let_def)

text \<open>One entry \<open>i\<close> of the table \<open>p\<close> at level \<open>l\<close> changes.\<close>

definition updates :: "tables \<Rightarrow> tables \<Rightarrow> (u64 \<Rightarrow> nat option) \<Rightarrow> u64 \<Rightarrow> usize \<Rightarrow> bool" where
  "updates E E' lv p i \<longleftrightarrow> (\<forall>q j. lv q \<noteq> None \<and> j < 512 \<and> (q, j) \<noteq> (p, i) \<longrightarrow> E' q j = E q j)"

lemma updatesD: "updates E E' lv p i \<Longrightarrow> lv q \<noteq> None \<Longrightarrow> j < 512 \<Longrightarrow> (q, j) \<noteq> (p, i) \<Longrightarrow> E' q j = E q j"
  unfolding updates_def by blast

lemma table_at_upd:
  assumes tree: "pt_tree E lv lev root" and p: "lv p = Some l" and upd: "updates E E' lv p i"
    and "lv a = Some m" "k \<le> m - l" "k < m"
  shows "table_at E' k m a va = table_at E k m a va"
  using assms(4-)
proof (induction k arbitrary: a m)
  case (Suc k)
  let ?e = "E a (idx m va)"
  have "a \<noteq> p" using Suc.prems p by auto
  then have e: "E' a (idx m va) = ?e" using Suc.prems by (intro updatesD [OF upd]) auto
  show ?case
  proof (cases "is_table ?e")
    case True
    then have "lv (pte_addr ?e) = Some (m - 1)"
      using Suc.prems by (intro pt_tree_child(1) [OF tree]) auto
    then have "table_at E' k (m - 1) (pte_addr ?e) va = table_at E k (m - 1) (pte_addr ?e) va"
      using Suc.prems by (intro Suc.IH) auto
    then show ?thesis by (simp add: e Let_def)
  qed (simp add: e Let_def)
qed simp

lemma restrict_ok: "table_ok e \<Longrightarrow> map_option (restrict e) x = x"
  by (cases x) (auto simp: table_ok_def)

lemma walk_table:
  assumes tree: "pt_tree E lv lev root" and "lv a = Some (Suc m)" "1 \<le> m" "is_table (E a (idx (Suc m) va))" "F a (idx (Suc m) va) = E a (idx (Suc m) va)"
  shows "walk F (Suc m) a va = walk F m (pte_addr (E a (idx (Suc m) va))) va"
proof -
  have "table_ok (E a (idx (Suc m) va))"
    using assms by (intro pt_tree_child(2) [OF tree assms(2)]) auto
  with assms show ?thesis
    by (simp add: Let_def is_table_bits restrict_ok) (simp add: table_ok_def)
qed

lemma walk_upd:
  assumes tree: "pt_tree E lv lev root" and p: "lv p = Some l" and upd: "updates E E' lv p i"
    and "lv a = Some m"
  shows "walk E' m a va = (if l \<le> m \<and> table_at E (m - l) m a va = Some p \<and> idx l va = i
    then walk E' l p va else walk E m a va)"
  using assms(4)
proof (induction m arbitrary: a)
  case 0
  then show ?case using pt_tree_level [OF tree] by fastforce
next
  case (Suc m)
  let ?e = "E a (idx (Suc m) va)"
  show ?case
  proof (cases "a = p \<and> idx (Suc m) va = i")
    case True
    then show ?thesis using Suc.prems p by auto
  next
    case False
    then have e: "E' a (idx (Suc m) va) = ?e" using Suc.prems by (intro updatesD [OF upd]) auto
    have here: "\<not> (Suc m = l \<and> a = p \<and> idx l va = i)" using False by auto
    show ?thesis
    proof (cases "is_table ?e \<and> 1 \<le> m")
      case True
      have "lv (pte_addr ?e) = Some m"
        using pt_tree_child(1) [OF tree Suc.prems] True by simp
      note ih = Suc.IH [OF this]
      have w: "walk F (Suc m) a va = walk F m (pte_addr ?e) va" if "F a (idx (Suc m) va) = ?e" for F
        using True that by (intro walk_table [OF tree Suc.prems]) auto
      have "table_at E (Suc m - l) (Suc m) a va = table_at E (m - l) m (pte_addr ?e) va" if "l \<le> m"
        using that True by (simp add: Suc_diff_le)
      then show ?thesis
        using ih w [of E'] w [of E] e here by (cases "l \<le> m") (auto simp: not_le less_Suc_eq_le dest!: le_antisym)
    next
      case False
      have leaf: "walk E' (Suc m) a va = walk E (Suc m) a va"
        using False e by (auto simp: Let_def is_table_bits)
      have "\<not> (l \<le> Suc m \<and> table_at E (Suc m - l) (Suc m) a va = Some p \<and> idx l va = i)"
      proof
        assume *: "l \<le> Suc m \<and> table_at E (Suc m - l) (Suc m) a va = Some p \<and> idx l va = i"
        show False
        proof (cases "Suc m = l")
          case True
          with * here show False by simp
        next
          case neq: False
          with * have k: "Suc m - l = Suc (m - l)" by linarith
          with * have "is_table ?e" by (auto simp: Let_def split: if_splits)
          with False have "m = 0" by simp
          with neq * pt_tree_level [OF tree p] show False by simp
        qed
      qed
      from if_not_P [OF this] show ?thesis unfolding leaf by (rule sym)
    qed
  qed
qed

lemma walk_root:
  assumes tree: "pt_tree E lv lev root" and p: "lv p = Some l" and upd: "updates E E' lv p i"
    and "table_at E (lev - l) lev root va = Some p"
  shows "walk E' lev root va' = (if same_page lev (Suc l) va va' \<and> idx l va' = i
    then walk E' l p va' else walk E lev root va')"
proof -
  have ll: "1 \<le> l" "l \<le> lev" using pt_tree_level [OF tree p] by simp_all
  note r = pt_tree_root [OF tree]
  have "table_at E (lev - l) lev root va' = Some p \<longleftrightarrow> same_page lev (Suc l) va va'"
  proof
    assume "table_at E (lev - l) lev root va' = Some p"
    from table_at_unique [OF tree r r _ assms(4) this] ll
    show "same_page lev (Suc l) va va'" by (simp add: same_page_idx Suc_le_eq)
  next
    assume "same_page lev (Suc l) va va'"
    then show "table_at E (lev - l) lev root va' = Some p"
      using assms(4) ll table_at_idx [of lev "lev - l" va' va] by (simp add: same_page_idx Suc_le_eq)
  qed
  then show ?thesis using walk_upd [OF tree p upd r, of va'] ll by simp
qed

lemma same_page_Suc: "l \<le> lev \<Longrightarrow> same_page lev (Suc l) va va' \<and> idx l va' = idx l va \<longleftrightarrow> same_page lev l va va'"
  unfolding same_page_idx by (metis Suc_le_eq le_neq_implies_less less_imp_le_nat order_refl)

lemma walk_descend:
  assumes tree: "pt_tree E lv lev root" and "lv a = Some m" "k < m" "table_at E k m a va = Some p"
  shows "walk E m a va = walk E (m - k) p va"
  using assms(2-)
proof (induction k arbitrary: a m)
  case (Suc k)
  then obtain n where m: "m = Suc n" "1 \<le> n" "k < n" by (cases m) auto
  let ?e = "E a (idx m va)"
  have t: "is_table ?e" "table_at E k n (pte_addr ?e) va = Some p"
    using Suc.prems(3) by (simp_all add: m(1) Let_def split: if_splits)
  have "lv (pte_addr ?e) = Some n"
    using pt_tree_child(1) [OF tree Suc.prems(1) _ _ t(1)] m by simp
  from Suc.IH [OF this m(3) t(2)] walk_table [OF tree Suc.prems(1) [unfolded m(1)] m(2)] t(1)
  show ?case by (simp add: m(1))
qed simp

lemma walk_set_leaf:
  assumes tree: "pt_tree E lv lev root" and p: "lv p = Some l" and upd: "updates E E' lv p (idx l va)"
    and path: "table_at E (lev - l) lev root va = Some p"
    and e: "E' p (idx l va) = e" "bit e 0" "l = 1 \<or> bit e 7" "l \<le> 3"
  shows "pt_tree E' lv lev root"
    and "walk E' lev root va' = (if same_page lev l va va' then Some (leaf l e va') else walk E lev root va')"
proof -
  obtain n where l: "l = Suc n" "l \<le> lev"
    using pt_tree_level [OF tree p] by (cases l) auto
  have sub: "links E lv q j \<and> E' q j = E q j" if "links E' lv q j" for q j
  proof -
    have "(q, j) \<noteq> (p, idx l va)"
      using that p e by (auto simp: links_def is_table_bits)
    then have "E' q j = E q j" using that by (intro updatesD [OF upd]) (auto simp: links_def)
    with that show ?thesis by (simp add: links_def)
  qed
  have large: "\<not> is_large (E' q j)" if "lv q = Some m" "4 \<le> m" "j < 512" for q m j
  proof -
    have "q \<noteq> p" using that p e(4) by auto
    then have "E' q j = E q j" using that by (intro updatesD [OF upd]) auto
    then show ?thesis using pt_tree_no_large [OF tree, of q m j] that by simp
  qed
  show "pt_tree E' lv lev root"
    by (rule pt_tree_fewer [OF tree sub large])
  have "walk E' l p va' = Some (leaf l e va')" if "idx l va' = idx l va"
    using that e l by (simp add: Let_def)
  with walk_root [OF tree p upd path, of va'] same_page_Suc [OF l(2), of va va']
  show "walk E' lev root va' = (if same_page lev l va va' then Some (leaf l e va') else walk E lev root va')"
    by (cases "same_page lev l va va'") simp_all
qed

lemma walk_add_table:
  assumes tree: "pt_tree E lv lev root" and p: "lv p = Some l" "1 < l" and upd: "updates E E' lv p (idx l va)"
    and path: "table_at E (lev - l) lev root va = Some p" and free: "\<not> bit (E p (idx l va)) 0"
    and q: "lv q = None" "\<And>j. j < 512 \<Longrightarrow> E' q j = 0"
    and e: "is_table (E' p (idx l va))" "table_ok (E' p (idx l va))" "pte_addr (E' p (idx l va)) = q"
  shows "pt_tree E' (lv(q \<mapsto> l - 1)) lev root" and "walk E' lev root va' = walk E lev root va'"
    and "table_at E' (lev - (l - 1)) lev root va = Some q"
proof -
  let ?lv = "lv(q \<mapsto> l - 1)"
  have ll: "l \<le> lev" using pt_tree_level [OF tree p(1)] by simp
  have other: "(r, j) = (p, idx l va) \<or> links E lv r j \<and> E' r j = E r j" if "links E' ?lv r j" for r j
  proof -
    have "r \<noteq> q" using that q(2) [of j] by (auto simp: links_def is_table_bits)
    then show ?thesis
      using that updatesD [OF upd, of r j] by (cases "(r, j) = (p, idx l va)") (auto simp: links_def)
  qed
  have old: "pte_addr (E r j) \<noteq> q" if "links E lv r j" for r j
    using that tree q(1) unfolding pt_tree_def by (metis option.distinct(1))
  show "pt_tree E' ?lv lev root"
    unfolding pt_tree_def
  proof (intro conjI allI impI)
    show "?lv root = Some lev" using pt_tree_root [OF tree] q(1) by auto
  next
    fix r m assume "?lv r = Some m"
    then show "1 \<le> m" "m \<le> lev"
      using pt_tree_level [OF tree, of r m] p(2) ll by (auto split: if_splits)
  next
    fix r m and j :: usize assume a: "?lv r = Some m \<and> 4 \<le> m \<and> j < 512"
    show "\<not> is_large (E' r j)"
    proof (cases "r = q \<or> (r, j) = (p, idx l va)")
      case True
      then show ?thesis using a q(2) [of j] e(1) by (auto simp: is_large_bits is_table_bits)
    next
      case False
      then have "lv r = Some m" "E' r j = E r j" using a by (auto intro!: updatesD [OF upd])
      then show ?thesis using pt_tree_no_large [OF tree, of r m j] a by simp
    qed
  next
    fix r j assume "links E' ?lv r j"
    from other [OF this] have "?lv (pte_addr (E' r j)) = Some (the (?lv r) - 1) \<and> table_ok (E' r j)"
    proof
      assume "(r, j) = (p, idx l va)"
      with e p q(1) show ?thesis by auto
    next
      assume a: "links E lv r j \<and> E' r j = E r j"
      then have "lv (pte_addr (E r j)) = Some (the (lv r) - 1) \<and> table_ok (E r j)"
        using tree unfolding pt_tree_def by blast
      moreover have "r \<noteq> q" using a q(1) by (auto simp: links_def)
      ultimately show ?thesis using a old [of r j] by simp
    qed
    then show "?lv (pte_addr (E' r j)) = Some (the (?lv r) - 1)" "table_ok (E' r j)" by simp_all
  next
    fix r s j k assume "links E' ?lv r j \<and> links E' ?lv s k \<and> pte_addr (E' r j) = pte_addr (E' s k)"
    then show "r = s" "j = k"
      using other [of r j] other [of s k] old [of r j] old [of s k] e(3) pt_tree_unique [OF tree, of r j s k]
      by auto
  qed
  have "walk E' l p va' = None" if "idx l va' = idx l va" for va'
  proof -
    obtain n where n: "l = Suc (Suc n)" using p(2) by (cases l; cases "l - 1") auto
    have "walk E' (Suc n) q va' = None" using q(2) by simp
    with that e show ?thesis
      by (simp add: n Let_def table_ok_def is_table_bits)
  qed
  moreover have "walk E lev root va' = None" if "same_page lev l va va'" for va'
  proof -
    obtain n where n: "l = Suc n" using p(2) by (cases l) auto
    have i: "idx l va' = idx l va" "table_at E (lev - l) lev root va' = Some p"
      using that path table_at_idx [of lev "lev - l" va' va] ll p(2) by (auto simp: same_page_idx)
    have "walk E lev root va' = walk E l p va'"
      using walk_descend [OF tree pt_tree_root [OF tree] _ i(2)] ll p(2) by simp
    with free i(1) show ?thesis by (simp add: n)
  qed
  ultimately show "walk E' lev root va' = walk E lev root va'"
    using walk_root [OF tree p(1) upd path, of va'] same_page_Suc [OF ll, of va va']
    by (cases "same_page lev l va va'") simp_all
  have "table_at E' (lev - l) lev root va = Some p"
    using table_at_upd [OF tree p(1) upd pt_tree_root [OF tree], of "lev - l"] path ll p(2) by simp
  moreover have "lev - (l - 1) = (lev - l) + 1" using ll p(2) by simp
  ultimately show "table_at E' (lev - (l - 1)) lev root va = Some q"
    using e ll by (simp only: table_at_append) (simp add: Let_def)
qed

end
