(* ===== verification/Paging_Correct.thy ===== *)
theory Paging_Correct
  imports Page_Walk
begin

text \<open>
  Correctness of the page tables: \<open>tables_of\<close> reads the tables out of the memory, \<open>vm_inv\<close> says
  that the known tables form a tree of used pages apart from the bitmap, and mapping a page changes
  the translation of the addresses of that page and of no other.
\<close>

section \<open>Entries as bytes\<close>

definition tables_of :: "platform \<Rightarrow> vmm_state \<Rightarrow> tables" where
  "tables_of pf st p i = of_nat (le_val (mem_read (ram (pmm st)) (hhdm_offset pf + p + 8 * i) 8))"

lemma dir_get_tables [simp]:
  "i < 512 \<Longrightarrow> dir_get (hhdm_offset pf + p) i st = Inr (tables_of pf st p i)"
  by (simp add: dir_get_def tables_of_def)

lemma page_byte_inj:
  fixes f g :: usize
  assumes "unat f < 2 ^ 52" "unat g < 2 ^ 52" "j < 4096" "k < 4096"
    "f * PAGE_SIZE + of_nat j = g * PAGE_SIZE + of_nat k"
  shows "f = g" and "j = k"
proof -
  have u: "unat (h * PAGE_SIZE + of_nat n) = unat h * 4096 + n" if "unat h < 2 ^ 52" "n < 4096" for h :: usize and n
  proof -
    have "unat (of_nat n :: usize) = n" using that(2) by (simp add: unat_of_nat)
    with page_addr_val [OF that(1)] that show ?thesis
      by (subst unat_add_no_wrap) simp_all
  qed
  have e: "unat f * 4096 + j = unat g * 4096 + k"
    using u [OF assms(1,3)] u [OF assms(2,4)] assms(5) by simp
  then have "(unat f * 4096 + j) div 4096 = (unat g * 4096 + k) div 4096" by simp
  then have "unat f = unat g" using assms(3,4) by simp
  with e show "f = g" "j = k" by (simp_all add: word_unat_eq_iff)
qed

lemma slot_byte:
  assumes "i < (512 :: usize)" "a < 8"
  shows "8 * i + of_nat a = of_nat (8 * unat i + a)" and "8 * unat i + a < 4096"
  using assms by (simp_all add: word_less_nat_alt)

lemma slot_inj:
  assumes "unat f < 2 ^ 52" "unat g < 2 ^ 52" "i < (512 :: usize)" "j < (512 :: usize)" "a < 8" "b < 8"
    "h + f * PAGE_SIZE + 8 * i + of_nat a = h + g * PAGE_SIZE + 8 * j + of_nat b"
  shows "f = g" and "i = j"
proof -
  have "f * PAGE_SIZE + (8 * i + of_nat a) = g * PAGE_SIZE + (8 * j + of_nat b)"
    using assms(7) by (simp add: add.assoc)
  then have "f * PAGE_SIZE + of_nat (8 * unat i + a) = g * PAGE_SIZE + of_nat (8 * unat j + b)"
    using slot_byte(1) [OF assms(3,5)] slot_byte(1) [OF assms(4,6)] by metis
  note inj = page_byte_inj [OF assms(1,2) slot_byte(2) [OF assms(3,5)] slot_byte(2) [OF assms(4,6)] this]
  show "f = g" by (rule inj)
  have "(8 * unat i + a) div 8 = (8 * unat j + b) div 8" using inj(2) by simp
  then show "i = j" using assms(5,6) by (simp add: word_unat_eq_iff)
qed

lemma mem_read_cong: "(\<And>k. k < n \<Longrightarrow> m' (a + of_nat k) = m (a + of_nat k)) \<Longrightarrow> mem_read m' a n = mem_read m a n"
  by (simp add: mem_read_def)

lemma u64_bytes: "of_nat (le_val (to_le 8 (unat e))) = (e :: u64)"
  by (simp add: le_val_to_le_unat)

lemma tables_of_set:
  assumes "dir_set (hhdm_offset pf + p) i e st = Inr st'"
  shows "tables_of pf st' p i = e"
    and "p = f * PAGE_SIZE \<Longrightarrow> q = g * PAGE_SIZE \<Longrightarrow> unat f < 2 ^ 52 \<Longrightarrow> unat g < 2 ^ 52 \<Longrightarrow> j < 512
      \<Longrightarrow> (q, j) \<noteq> (p, i) \<Longrightarrow> tables_of pf st' q j = tables_of pf st q j"
proof -
  let ?a = "hhdm_offset pf + p + 8 * i"
  have i: "i < 512" and st': "ram (pmm st') = mem_write (ram (pmm st)) ?a (to_le 8 (unat e))"
    using assms by (auto simp: dir_set_def split: if_splits)
  show "tables_of pf st' p i = e"
    using mem_read_write [of "to_le 8 (unat e)" "ram (pmm st)" ?a]
    by (simp add: tables_of_def st' u64_bytes)
  assume f: "p = f * PAGE_SIZE" "q = g * PAGE_SIZE" "unat f < 2 ^ 52" "unat g < 2 ^ 52" "j < 512" "(q, j) \<noteq> (p, i)"
  have "hhdm_offset pf + q + 8 * j + of_nat k \<noteq> ?a + of_nat k'" if "k < 8" "k' < 8" for k k'
    using slot_inj [OF f(4,3,5) i that, of "hhdm_offset pf"] f by auto
  then show "tables_of pf st' q j = tables_of pf st q j"
    unfolding tables_of_def st' by (subst mem_read_cong) (auto intro!: mem_write_outside)
qed

section \<open>The invariant\<close>

text \<open>A page of a table: used, and apart from the bitmap.\<close>

definition table_frame :: "platform \<Rightarrow> vmm_state \<Rightarrow> u64 \<Rightarrow> bool" where
  "table_frame pf st p \<longleftrightarrow> (\<exists>f. f < highest_page_idx (pmm st) \<and> p = f * PAGE_SIZE \<and> bitmap_test (pmm st) f)
     \<and> (\<forall>j k. j < highest_page_idx (pmm st) \<and> k < 4096
          \<longrightarrow> bitmap (pmm st) + j div 8 \<noteq> hhdm_offset pf + p + of_nat k)"

fun levels :: "paging_mode \<Rightarrow> nat" where
  "levels FOUR_LEVEL = 4"
| "levels FIVE_LEVEL = 5"
| "levels OTHER_LEVEL = 0"

definition gib_pages :: "platform \<Rightarrow> bool" where
  "gib_pages pf \<longleftrightarrow> bit (cpuid_edx pf) 26"

definition vm_inv :: "platform \<Rightarrow> (u64 \<Rightarrow> nat option) \<Rightarrow> u64 \<Rightarrow> vmm_state \<Rightarrow> bool" where
  "vm_inv pf lv root st \<longleftrightarrow> pt_tree (tables_of pf st) lv (levels (paging_level pf)) root
     \<and> pmm_inv (hhdm_offset pf) (pmm st) \<and> unat (highest_page_idx (pmm st)) \<le> 2 ^ 36
     \<and> (\<forall>p. lv p \<noteq> None \<longrightarrow> table_frame pf st p)
     \<and> is_1gib_supported st \<in> {Uninitialized, Initialized (gib_pages pf)}"

definition translate :: "platform \<Rightarrow> vmm_state \<Rightarrow> u64 \<Rightarrow> usize \<Rightarrow> translation option" where
  "translate pf st root va = walk (tables_of pf st) (levels (paging_level pf)) root va"

definition free_set :: "pmm_state \<Rightarrow> usize set" where
  "free_set s = {i. i < highest_page_idx s \<and> \<not> bitmap_test s i}"

definition free_count :: "vmm_state \<Rightarrow> nat" where
  "free_count st = card (free_set (pmm st))"

lemma vm_invD:
  assumes "vm_inv pf lv root st"
  shows "pt_tree (tables_of pf st) lv (levels (paging_level pf)) root" "pmm_inv (hhdm_offset pf) (pmm st)"
    "unat (highest_page_idx (pmm st)) \<le> 2 ^ 36" "lv p \<noteq> None \<Longrightarrow> table_frame pf st p"
  using assms by (auto simp: vm_inv_def)

lemma table_frameE:
  assumes "table_frame pf st p" "unat (highest_page_idx (pmm st)) \<le> 2 ^ 36"
  obtains f where "f < highest_page_idx (pmm st)" "p = f * PAGE_SIZE" "bitmap_test (pmm st) f"
    "unat f < 2 ^ 36" "unat f < 2 ^ 52"
proof -
  obtain f where f: "f < highest_page_idx (pmm st)" "p = f * PAGE_SIZE" "bitmap_test (pmm st) f"
    using assms(1) by (auto simp: table_frame_def)
  then have "unat f < 2 ^ 36" using assms(2) by (simp add: word_less_nat_alt)
  with f show ?thesis by (intro that [of f]) simp_all
qed

text \<open>A write into a known table leaves the page manager alone.\<close>

lemma dir_set_frame:
  assumes inv: "vm_inv pf lv root st" and p: "lv p \<noteq> None" and i: "i < 512"
    and r: "dir_set (hhdm_offset pf + p) i e st = Inr st'"
  shows "bitmap (pmm st') = bitmap (pmm st)" "highest_page_idx (pmm st') = highest_page_idx (pmm st)"
    "is_1gib_supported st' = is_1gib_supported st"
    "j < highest_page_idx (pmm st) \<Longrightarrow> bitmap_test (pmm st') j = bitmap_test (pmm st) j"
    "pmm_inv (hhdm_offset pf) (pmm st')" "table_frame pf st q \<Longrightarrow> table_frame pf st' q"
    "free_count st' = free_count st" "updates (tables_of pf st) (tables_of pf st') lv p i"
    "tables_of pf st' p i = e"
proof -
  let ?a = "hhdm_offset pf + p + 8 * i"
  have st': "st' = st\<lparr>pmm := (pmm st)\<lparr>ram := mem_write (ram (pmm st)) ?a (to_le 8 (unat e))\<rparr>\<rparr>"
    using r i by (simp add: dir_set_def)
  show fields: "bitmap (pmm st') = bitmap (pmm st)" "highest_page_idx (pmm st') = highest_page_idx (pmm st)"
    "is_1gib_supported st' = is_1gib_supported st"
    by (simp_all add: st')
  have tf: "table_frame pf st p" using vm_invD(4) [OF inv] p by simp
  show test: "bitmap_test (pmm st') j = bitmap_test (pmm st) j" if "j < highest_page_idx (pmm st)" for j
  proof -
    have "bitmap (pmm st) + j div 8 \<noteq> ?a + of_nat k" if "k < 8" for k
    proof -
      have "bitmap (pmm st) + j div 8 \<noteq> hhdm_offset pf + p + of_nat (8 * unat i + k)"
        using tf \<open>j < highest_page_idx (pmm st)\<close> slot_byte(2) [OF i that] unfolding table_frame_def by blast
      then show ?thesis unfolding slot_byte(1) [OF i that, symmetric] by (simp only: add.assoc not_False_eq_True)
    qed
    then have "mem_write (ram (pmm st)) ?a (to_le 8 (unat e)) (bitmap (pmm st) + j div 8)
        = ram (pmm st) (bitmap (pmm st) + j div 8)"
      by (intro mem_write_outside) simp
    then show ?thesis
      unfolding st' by (simp add: ram_upd_test)
  qed
  show "pmm_inv (hhdm_offset pf) (pmm st')"
  proof (rule pmm_inv_fewer_free [OF vm_invD(2) [OF inv] fields(1,2)])
    show "last_used_page_idx (pmm st') \<le> highest_page_idx (pmm st)"
      using vm_invD(2) [OF inv] by (simp add: st' pmm_inv_def)
  qed (simp add: test)
  show "table_frame pf st q \<Longrightarrow> table_frame pf st' q"
    using test by (auto simp: table_frame_def fields)
  have "free_set (pmm st') = free_set (pmm st)"
    unfolding free_set_def fields using test by auto
  then show "free_count st' = free_count st" by (simp add: free_count_def)
  show "tables_of pf st' p i = e" by (rule tables_of_set(1) [OF r])
  show "updates (tables_of pf st) (tables_of pf st') lv p i"
    unfolding updates_def
  proof (intro allI impI)
    fix q j assume q: "lv q \<noteq> None \<and> j < 512 \<and> (q, j) \<noteq> (p, i)"
    obtain f where f: "p = f * PAGE_SIZE" "unat f < 2 ^ 52"
      using tf vm_invD(3) [OF inv] by (rule table_frameE)
    obtain g where g: "q = g * PAGE_SIZE" "unat g < 2 ^ 52"
      using q vm_invD(4) [OF inv, of q] vm_invD(3) [OF inv] by (blast elim: table_frameE)
    show "tables_of pf st' q j = tables_of pf st q j"
      using tables_of_set(2) [OF r f(1) g(1) f(2) g(2)] q by blast
  qed
qed


text \<open>A new table: a page that no known table uses, all of whose entries are 0.\<close>

lemma free_run_1: "free_run s (unat i) (Suc 0) \<longleftrightarrow> \<not> bitmap_test s i"
  by (simp add: free_run_def)

lemma zero_slot:
  assumes "mem_read m a 4096 = replicate 4096 0" "j < (512 :: usize)"
  shows "mem_read m (a + 8 * j) 8 = replicate 8 0"
proof (rule nth_equalityI)
  fix k assume k: "k < length (mem_read m (a + 8 * j) 8)"
  then have n: "a + 8 * j + of_nat k = a + of_nat (8 * unat j + k)" "8 * unat j + k < 4096"
    using slot_byte [OF assms(2), of k] by (simp_all only: add.assoc) simp_all
  have "mem_read m a 4096 ! (8 * unat j + k) = 0"
    unfolding assms(1) using n(2) by simp
  then show "mem_read m (a + 8 * j) 8 ! k = replicate 8 0 ! k"
    using k n by (simp add: mem_read_def add.assoc)
qed simp

lemma le_val_zero: "le_val (replicate n 0) = 0"
  by (induction n) simp_all

lemma alloc_table_ok:
  assumes pinv: "pmm_inv (hhdm_offset pf) (pmm st)" and bound: "unat (highest_page_idx (pmm st)) \<le> 2 ^ 36"
    and frames: "\<And>p. lv p \<noteq> None \<Longrightarrow> table_frame pf st p" and free: "free_count st \<noteq> 0"
  obtains q st' where "alloc_table pf st = (PhysicalPtr q, st')" "lv q = None" "table_frame pf st' q"
    "\<And>p. table_frame pf st p \<Longrightarrow> table_frame pf st' p"
    "\<And>p j. lv p \<noteq> None \<Longrightarrow> j < 512 \<Longrightarrow> tables_of pf st' p j = tables_of pf st p j"
    "\<And>j. j < 512 \<Longrightarrow> tables_of pf st' q j = 0" "pmm_inv (hhdm_offset pf) (pmm st')"
    "highest_page_idx (pmm st') = highest_page_idx (pmm st)" "is_1gib_supported st' = is_1gib_supported st"
    "free_count st = Suc (free_count st')"
proof -
  let ?s = "pmm st" and ?h = "hhdm_offset pf" and ?m = "highest_page_idx (pmm st)"
  obtain i where i: "i < ?m" "\<not> bitmap_test ?s i"
    using free by (auto simp: free_count_def free_set_def)
  then have c: "\<exists>q. q + unat (1 :: usize) \<le> unat ?m \<and> free_run ?s q (unat (1 :: usize))"
    by (intro exI [of _ "unat i"]) (simp add: free_run_1 word_less_nat_alt Suc_le_eq)
  from pmm_alloc_cases [OF pinv, of 1, unfolded if_P [OF c]] obtain page s' where
    r: "pmm_alloc ?h 1 ?s = (s', PhysicalPtr (page * PAGE_SIZE))" and
    page: "unat page < unat ?m" "\<not> bitmap_test ?s page" and
    test: "\<And>j. j < ?m \<Longrightarrow> bitmap_test s' j = (page \<le> j \<and> j < page + 1 \<or> bitmap_test ?s j)" and
    zero: "mem_read (ram s') (?h + page * PAGE_SIZE) 4096 = replicate 4096 0" and
    s': "bitmap s' = bitmap ?s" "highest_page_idx s' = ?m" "pmm_inv ?h s'"
    by (auto simp: free_run_1 Suc_le_eq)
  define q where "q = page * PAGE_SIZE"
  define st' where "st' = st\<lparr>pmm := s'\<rparr>"
  have pm: "page < ?m" "unat page < 2 ^ 52"
    using page(1) bound by (simp_all add: word_less_nat_alt)
  have sp: "page \<le> j \<and> j < page + 1 \<longleftrightarrow> j = page" for j
    using unat_Suc_less [OF pm(1)] by (auto simp: word_le_nat_alt word_less_nat_alt word_unat_eq_iff)
  note test = test [unfolded sp]
  have other: "f \<noteq> page" if "bitmap_test ?s f" for f using that page(2) by auto
  have apart: "bitmap ?s + j div 8 \<noteq> ?h + q + of_nat k" if "j < ?m" "k < 4096" for j k
    using pinv pm(1) page(2) that unfolding pmm_inv_def q_def by blast
  have tf: "table_frame pf st' p" if "table_frame pf st p" for p
    using that test by (auto simp: table_frame_def st'_def s')
  have "lv q = None"
  proof (rule ccontr)
    assume "lv q \<noteq> None"
    then obtain f where f: "q = f * PAGE_SIZE" "bitmap_test ?s f" "unat f < 2 ^ 52"
      using bound frames [of q] by (blast elim: table_frameE)
    have "f = page"
      using page_byte_inj(1) [OF f(3) pm(2), of 0 0] f(1) by (simp add: q_def)
    with f(2) page(2) show False by simp
  qed
  moreover have "table_frame pf st' q"
    using pm(1) test [OF pm(1)] apart by (auto simp: table_frame_def st'_def s' q_def)
  moreover have "tables_of pf st' p j = tables_of pf st p j" if "lv p \<noteq> None" "j < 512" for p j
  proof -
    obtain f where f: "p = f * PAGE_SIZE" "bitmap_test ?s f" "unat f < 2 ^ 52"
      using bound frames [OF \<open>lv p \<noteq> None\<close>] by (blast elim: table_frameE)
    have tp: "table_frame pf st p" using frames [OF that(1)] .
    have "ram s' (?h + p + 8 * j + of_nat k) = ram ?s (?h + p + 8 * j + of_nat k)" if k: "k < 8" for k
    proof (rule pmm_alloc_frame [OF pinv _ r])
      note n = slot_byte [OF \<open>j < 512\<close> k]
      have x: "?h + p + 8 * j + of_nat k = ?h + p + of_nat (8 * unat j + k)"
        unfolding n(1) [symmetric] by (simp only: add.assoc)
      show "?h + p + 8 * j + of_nat k \<noteq> bitmap ?s + i div 8" if "i < ?m" for i
        unfolding x using tp that n(2) unfolding table_frame_def by metis
      show "?h + p + 8 * j + of_nat k \<noteq> ?h + page * PAGE_SIZE + of_nat k'" if "k' < unat (1 :: usize) * 4096" for k'
        unfolding x f(1) using page_byte_inj(1) [OF f(3) pm(2) n(2), of k'] that other [OF f(2)]
        by (auto simp: add.assoc)
    qed simp
    then show ?thesis
      unfolding tables_of_def st'_def by (subst mem_read_cong) simp_all
  qed
  moreover have "tables_of pf st' q j = 0" if "j < 512" for j
    using zero_slot [OF zero that] by (simp add: tables_of_def st'_def q_def le_val_zero)
  moreover have "free_count st = Suc (free_count st')"
  proof -
    have "free_set s' = free_set ?s - {page}" "page \<in> free_set ?s"
      using test pm(1) page(2) by (auto simp: free_set_def s')
    then show ?thesis
      using card_Suc_Diff1 [of "free_set ?s" page] by (simp add: free_count_def st'_def)
  qed
  moreover have "alloc_table pf st = (PhysicalPtr q, st')"
    using r by (simp add: alloc_table_def q_def st'_def)
  moreover have "pmm_inv ?h (pmm st')" "highest_page_idx (pmm st') = ?m" "is_1gib_supported st' = is_1gib_supported st"
    by (simp_all add: st'_def s')
  ultimately show ?thesis using tf by (intro that [of q st']) blast+
qed


section \<open>Going down the tree\<close>

text \<open>
  The next \<open>k\<close> tables on the way of an address: no large page is among their entries, and how many
  of them are missing.
\<close>

primrec clear_path :: "tables \<Rightarrow> nat \<Rightarrow> nat \<Rightarrow> u64 \<Rightarrow> usize \<Rightarrow> bool" where
  "clear_path E 0 l p va = True"
| "clear_path E (Suc k) l p va =
     (let e = E p (idx l va) in \<not> is_large e \<and> (is_table e \<longrightarrow> clear_path E k (l - 1) (pte_addr e) va))"

primrec missing :: "tables \<Rightarrow> nat \<Rightarrow> nat \<Rightarrow> u64 \<Rightarrow> usize \<Rightarrow> nat" where
  "missing E 0 l p va = 0"
| "missing E (Suc k) l p va =
     (let e = E p (idx l va) in if is_table e then missing E k (l - 1) (pte_addr e) va else Suc k)"

lemma missing_0: "missing E k l p va = 0 \<longleftrightarrow> table_at E k l p va \<noteq> None"
  by (induction k arbitrary: l p) (auto simp: Let_def)

lemma zero_path:
  assumes "\<And>j. j < 512 \<Longrightarrow> E p j = 0"
  shows "clear_path E k l p va" and "missing E k l p va = k"
  using assms by (cases k; simp add: is_table_bits is_large_bits Let_def)+

definition on_path :: "tables \<Rightarrow> nat \<Rightarrow> u64 \<Rightarrow> usize \<Rightarrow> u64 \<Rightarrow> bool" where
  "on_path E lev root va r \<longleftrightarrow> (\<exists>k<lev. table_at E k lev root va = Some r)"

text \<open>
  The state while the tables for an address are being visited: \<open>p\<close> at level \<open>l\<close> has been
  reached on the way down to level \<open>L\<close>, starting from \<open>st0\<close>.
\<close>

definition reached ::
    "platform \<Rightarrow> (u64 \<Rightarrow> nat option) \<Rightarrow> u64 \<Rightarrow> usize \<Rightarrow> nat \<Rightarrow> vmm_state \<Rightarrow> nat \<Rightarrow> u64
      \<Rightarrow> (u64 \<Rightarrow> nat option) \<Rightarrow> vmm_state \<Rightarrow> bool" where
  "reached pf lv0 root va L st0 l p lv st \<longleftrightarrow>
     (let lev = levels (paging_level pf); E0 = tables_of pf st0; E = tables_of pf st in
      vm_inv pf lv root st \<and> lv p = Some l \<and> table_at E (lev - l) lev root va = Some p
      \<and> clear_path E (l - L) l p va \<and> missing E (l - L) l p va \<le> free_count st
      \<and> free_count st + missing E0 (lev - L) lev root va = free_count st0 + missing E (l - L) l p va
      \<and> (\<forall>va'. translate pf st root va' = translate pf st0 root va')
      \<and> (\<forall>r. lv0 r \<noteq> None \<longrightarrow> lv r = lv0 r)
      \<and> (\<forall>r j. lv0 r \<noteq> None \<and> j < 512 \<and> \<not> on_path E0 lev root va r \<longrightarrow> E r j = E0 r j)
      \<and> (pmm st = pmm st0 \<and> on_path E0 lev root va p \<or> lv0 p = None \<and> (\<forall>j. j < 512 \<longrightarrow> E p j = 0)))"

lemma reached_start:
  assumes "vm_inv pf lv root st" "clear_path (tables_of pf st) (levels (paging_level pf) - L) (levels (paging_level pf)) root va"
    "missing (tables_of pf st) (levels (paging_level pf) - L) (levels (paging_level pf)) root va \<le> free_count st"
  shows "reached pf lv root va L st (levels (paging_level pf)) root lv st"
proof -
  note t = vm_invD(1) [OF assms(1)]
  have "0 < levels (paging_level pf)" using pt_tree_level [OF t pt_tree_root [OF t]] by simp
  then have "on_path (tables_of pf st) (levels (paging_level pf)) root va root"
    unfolding on_path_def by (intro exI [of _ 0]) simp
  with assms pt_tree_root [OF t] show ?thesis by (simp add: reached_def Let_def)
qed

lemma bit_PT_PADDR_MASK: "bit PT_PADDR_MASK n \<longleftrightarrow> 12 \<le> n \<and> n < 48"
proof -
  have m: "PT_PADDR_MASK = mask 48 AND NOT (mask 12)"
    by (simp add: PT_PADDR_MASK_def mask_eq_exp_minus_1)
  show ?thesis unfolding m bit_and_iff bit_not_iff bit_mask_iff by auto
qed

text \<open>The entry for a new table.\<close>

lemma frame_bits:
  assumes "unat f < 2 ^ 36" "bit (f * PAGE_SIZE) n"
  shows "12 \<le> n" and "n < 48"
proof -
  have p: "f * PAGE_SIZE = push_bit 12 f"
    by (simp add: PAGE_SIZE_def push_bit_eq_mult mult.commute)
  show n: "12 \<le> n" using assms(2) unfolding p bit_push_bit_iff by auto
  have "take_bit 36 f = f"
    using assms(1) by (simp add: word_unat_eq_iff unat_take_bit)
  moreover have "bit f (n - 12)" using assms(2) unfolding p bit_push_bit_iff by auto
  ultimately have "n - 12 < 36" by (metis bit_take_bit_iff)
  then show "n < 48" by simp
qed

lemma new_table_entry:
  assumes "q = f * PAGE_SIZE" "unat f < 2 ^ 36" "e = pte_new q PT_TABLE_FLAGS"
  shows "is_table e" "table_ok e" "pte_addr e = q"
proof -
  have b: "bit e n \<longleftrightarrow> bit q n \<or> n = 0 \<or> n = 1 \<or> n = 2" for n
    unfolding assms(3) pte_new_def PT_TABLE_FLAGS_def bit_or_iff bit_PT_FLAG by auto
  have q: "bit q n \<Longrightarrow> 12 \<le> n \<and> n < 48" for n
    using frame_bits [OF assms(2), of n] assms(1) by simp
  show "is_table e" unfolding is_table_bits b using q [of 7] by auto
  show a: "pte_addr e = q"
    unfolding pte_addr_def u64_eq_iff bit_and_iff bit_PT_PADDR_MASK b using q by auto
  have "e AND frame_mask 1 = q"
    unfolding u64_eq_iff bit_and_iff bit_frame_mask b using q by (auto dest: q)
  then show "table_ok e" unfolding table_ok_def a b using q [of 63] by auto
qed


lemma higher_half_addr [simp]: "virtual_addr (to_higher_half h (PhysicalPtr q)) = h + q"
  by (simp add: to_higher_half_def add.commute)

lemma next_dir_table:
  assumes "i < 512" "is_table (tables_of pf st p i)"
  shows "next_dir mp pf (hhdm_offset pf + p) va sz level i st
    = Some (Inr (hhdm_offset pf + pte_addr (tables_of pf st p i), st))"
  using assms by (simp add: next_dir_def get_next_level_def)

lemma next_dir_new:
  assumes "i < 512" "\<not> is_table (tables_of pf st p i)" "\<not> is_large (tables_of pf st p i)"
    "alloc_table pf st = (PhysicalPtr q, st1)"
    "dir_set (hhdm_offset pf + p) i (pte_new q PT_TABLE_FLAGS) st1 = Inr st2"
  shows "next_dir mp pf (hhdm_offset pf + p) va sz level i st = Some (Inr (hhdm_offset pf + q, st2))"
  using assms by (simp add: next_dir_def get_next_level_def)

lemma table_at_next:
  assumes "table_at E (lev - l) lev root va = Some p" "is_table (E p (idx l va))" "l \<le> lev" "1 \<le> l"
  shows "table_at E (lev - (l - 1)) lev root va = Some (pte_addr (E p (idx l va)))"
proof -
  have "lev - (l - 1) = (lev - l) + 1" using assms(3,4) by simp
  with assms show ?thesis by (simp only: table_at_append) (simp add: Let_def)
qed

lemma reached_table:
  assumes r: "reached pf lv0 root va L st0 l p lv st" and l: "1 \<le> L" "L < l"
    and t: "is_table (tables_of pf st p (idx l va))"
  shows "reached pf lv0 root va L st0 (l - 1) (pte_addr (tables_of pf st p (idx l va))) lv st"
proof -
  let ?E = "tables_of pf st" and ?lev = "levels (paging_level pf)"
  let ?q = "pte_addr (?E p (idx l va))"
  have inv: "vm_inv pf lv root st" and p: "lv p = Some l" "table_at ?E (?lev - l) ?lev root va = Some p"
    and last: "pmm st = pmm st0 \<and> on_path (tables_of pf st0) ?lev root va p \<or> lv0 p = None \<and> (\<forall>j. j < 512 \<longrightarrow> ?E p j = 0)"
    using r by (auto simp: reached_def Let_def)
  note tree = vm_invD(1) [OF inv]
  have lev: "l \<le> ?lev" using pt_tree_level [OF tree p(1)] by simp
  have k: "l - L = Suc (l - 1 - L)" using l by simp
  have q: "lv ?q = Some (l - 1)" "table_at ?E (?lev - (l - 1)) ?lev root va = Some ?q"
    using pt_tree_child(1) [OF tree p(1) _ _ t] table_at_next [of ?E ?lev l root va p] t p lev l by simp_all
  then have "on_path ?E ?lev root va ?q"
    unfolding on_path_def using l lev by (intro exI [of _ "?lev - (l - 1)"]) simp
  moreover have "pmm st = pmm st0" using last t by (auto simp: is_table_bits)
  then have "tables_of pf st0 = ?E" by (simp add: tables_of_def fun_eq_iff)
  ultimately show ?thesis
    using r q t k \<open>pmm st = pmm st0\<close> by (simp add: reached_def Let_def)
qed

lemma reached_new:
  assumes r: "reached pf lv0 root va L st0 l p lv st" and l: "1 \<le> L" "L < l"
    and t: "\<not> is_table (tables_of pf st p (idx l va))"
  shows "\<exists>q lv' st'. next_dir mp pf (hhdm_offset pf + p) va sz level (idx l va) st
      = Some (Inr (hhdm_offset pf + q, st')) \<and> reached pf lv0 root va L st0 (l - 1) q lv' st'"
proof -
  let ?E = "tables_of pf st" and ?lev = "levels (paging_level pf)"
  have inv: "vm_inv pf lv root st" and p: "lv p = Some l" "table_at ?E (?lev - l) ?lev root va = Some p"
    and clear: "clear_path ?E (l - L) l p va" and miss: "missing ?E (l - L) l p va \<le> free_count st"
    and ext: "\<And>x. lv0 x \<noteq> None \<Longrightarrow> lv x = lv0 x"
    and last: "pmm st = pmm st0 \<and> on_path (tables_of pf st0) ?lev root va p \<or> lv0 p = None \<and> (\<forall>j. j < 512 \<longrightarrow> ?E p j = 0)"
    using r by (auto simp: reached_def Let_def)
  note tree = vm_invD(1) [OF inv]
  have lev: "l \<le> ?lev" using pt_tree_level [OF tree p(1)] by simp
  have k: "l - L = Suc (l - 1 - L)" using l by simp
  have large: "\<not> is_large (?E p (idx l va))" using clear k by (simp add: Let_def)
  have m: "missing ?E (l - L) l p va = Suc (l - 1 - L)" using k t by (simp add: Let_def)
  then have "free_count st \<noteq> 0" using miss by simp
  from alloc_table_ok [OF vm_invD(2,3,4) [OF inv] this] obtain q st1 where
    a: "alloc_table pf st = (PhysicalPtr q, st1)" "lv q = None" "table_frame pf st1 q"
    and frames: "\<And>p. table_frame pf st p \<Longrightarrow> table_frame pf st1 p"
    and same: "\<And>p j. lv p \<noteq> None \<Longrightarrow> j < 512 \<Longrightarrow> tables_of pf st1 p j = ?E p j"
    and zero: "\<And>j. j < 512 \<Longrightarrow> tables_of pf st1 q j = 0"
    and st1: "pmm_inv (hhdm_offset pf) (pmm st1)" "highest_page_idx (pmm st1) = highest_page_idx (pmm st)"
      "is_1gib_supported st1 = is_1gib_supported st" "free_count st = Suc (free_count st1)" by metis
  define lv' where "lv' = lv(q \<mapsto> l - 1)"
  let ?e = "pte_new q PT_TABLE_FLAGS"
  have inv1: "vm_inv pf lv root st1"
    using inv st1 frames pt_tree_cong [OF same tree] by (simp add: vm_inv_def)
  obtain st2 where d: "dir_set (hhdm_offset pf + p) (idx l va) ?e st1 = Inr st2"
    by (simp add: dir_set_def)
  have "lv p \<noteq> None" using p(1) by simp
  note f = dir_set_frame [OF inv1 this pml_entry_less d]
  have pq: "p \<noteq> q" using p(1) a(2) by auto
  obtain fq where fq: "q = fq * PAGE_SIZE" "unat fq < 2 ^ 36" "unat fq < 2 ^ 52"
    using a(3) st1(2) vm_invD(3) [OF inv] by (auto elim: table_frameE)
  obtain fp where fp: "p = fp * PAGE_SIZE" "unat fp < 2 ^ 52"
    using vm_invD(3,4) [OF inv1] p(1) by (blast elim: table_frameE)
  have zero2: "tables_of pf st2 q j = 0" if "j < 512" for j
    using tables_of_set(2) [OF d fp(1) fq(1) fp(2) fq(3) that] zero [OF that] pq by simp
  have upd: "updates ?E (tables_of pf st2) lv p (idx l va)"
    using f(8) same by (simp add: updates_def)
  have "bit (?E p (idx l va)) 0 = False" using t large by (auto simp: is_table_bits is_large_bits)
  then have nb: "\<not> bit (?E p (idx l va)) 0" by simp
  have l1: "1 < l" using l by simp
  note e = new_table_entry [OF fq(1,2) refl]
  note w = walk_add_table [OF tree p(1) l1 upd p(2) nb a(2) zero2 e [folded f(9)]]
  have tree2: "pt_tree (tables_of pf st2) lv' ?lev root" unfolding lv'_def by (rule w(1))
  have inv2: "vm_inv pf lv' root st2"
    using tree2 f inv1 a(3) by (auto simp: vm_inv_def lv'_def)
  moreover have "next_dir mp pf (hhdm_offset pf + p) va sz level (idx l va) st
      = Some (Inr (hhdm_offset pf + q, st2))"
    by (rule next_dir_new [OF pml_entry_less t large a(1) d])
  moreover have "translate pf st2 root va' = translate pf st root va'" for va'
    using w(2) by (simp add: translate_def)
  moreover have "tables_of pf st2 x j = tables_of pf st0 x j"
    if "lv0 x \<noteq> None" "j < 512" "\<not> on_path (tables_of pf st0) ?lev root va x" for x j
  proof -
    have "x \<noteq> p" using last that by auto
    then have "tables_of pf st2 x j = ?E x j"
      using updatesD [OF upd, of x j] ext that by simp
    then show ?thesis using r that by (simp add: reached_def Let_def)
  qed
  moreover have "lv0 q = None" using ext [of q] a(2) by (cases "lv0 q") auto
  ultimately have "reached pf lv0 root va L st0 (l - 1) q lv' st2"
    using r w(3) zero_path [of "tables_of pf st2" q "l - 1 - L" "l - 1" va] zero2 f(7) st1(4) m miss ext
    by (auto simp: reached_def Let_def lv'_def)
  then show ?thesis
    using next_dir_new [OF pml_entry_less t large a(1) d] by blast
qed

lemma reached_next:
  assumes r: "reached pf lv0 root va L st0 l p lv st" and l: "1 \<le> L" "L < l"
  shows "\<exists>q lv' st'. next_dir mp pf (hhdm_offset pf + p) va sz level (idx l va) st
      = Some (Inr (hhdm_offset pf + q, st')) \<and> reached pf lv0 root va L st0 (l - 1) q lv' st'"
proof (cases "is_table (tables_of pf st p (idx l va))")
  case True
  then show ?thesis
    using next_dir_table [OF pml_entry_less True] reached_table [OF r l True] by blast
qed (rule reached_new [OF r l])


section \<open>Mapping a page\<close>

definition mapped ::
    "platform \<Rightarrow> (u64 \<Rightarrow> nat option) \<Rightarrow> u64 \<Rightarrow> usize \<Rightarrow> nat \<Rightarrow> page_table_entry \<Rightarrow> vmm_state
      \<Rightarrow> (u64 \<Rightarrow> nat option) \<Rightarrow> vmm_state \<Rightarrow> bool" where
  "mapped pf lv0 root va L e st0 lv st \<longleftrightarrow>
     (let lev = levels (paging_level pf); E0 = tables_of pf st0; E = tables_of pf st in
      vm_inv pf lv root st
      \<and> (\<forall>va'. translate pf st root va' =
          (if same_page lev L va va' then Some (leaf L e va') else translate pf st0 root va'))
      \<and> free_count st + missing E0 (lev - L) lev root va = free_count st0
      \<and> table_at E (lev - L) lev root va \<noteq> None
      \<and> (\<forall>r. lv0 r \<noteq> None \<longrightarrow> lv r = lv0 r)
      \<and> (\<forall>r j. lv0 r \<noteq> None \<and> j < 512 \<and> \<not> on_path E0 lev root va r \<longrightarrow> E r j = E0 r j))"

lemma reached_leaf:
  assumes r: "reached pf lv0 root va L st0 L p lv st" and e: "bit e 0" "L = 1 \<or> bit e 7" "L \<le> 3"
  shows "\<exists>st'. dir_set (hhdm_offset pf + p) (idx L va) e st = Inr st' \<and> mapped pf lv0 root va L e st0 lv st'"
proof -
  let ?E = "tables_of pf st" and ?lev = "levels (paging_level pf)"
  have inv: "vm_inv pf lv root st" and p: "lv p = Some L" "table_at ?E (?lev - L) ?lev root va = Some p"
    and ext: "\<And>x. lv0 x \<noteq> None \<Longrightarrow> lv x = lv0 x"
    and last: "pmm st = pmm st0 \<and> on_path (tables_of pf st0) ?lev root va p \<or> lv0 p = None"
    using r by (auto simp: reached_def Let_def)
  note tree = vm_invD(1) [OF inv]
  obtain st' where d: "dir_set (hhdm_offset pf + p) (idx L va) e st = Inr st'"
    by (simp add: dir_set_def)
  have "lv p \<noteq> None" using p(1) by simp
  note f = dir_set_frame [OF inv this pml_entry_less d]
  note w = walk_set_leaf [OF tree p(1) f(8) p(2) f(9) e]
  have lev: "1 \<le> L" "L \<le> ?lev" using pt_tree_level [OF tree p(1)] by simp_all
  have "table_at (tables_of pf st') (?lev - L) ?lev root va \<noteq> None"
    using table_at_upd [OF tree p(1) f(8) pt_tree_root [OF tree], of "?lev - L" va] p(2) lev by simp
  moreover have "vm_inv pf lv root st'"
    using inv f w(1) by (auto simp: vm_inv_def)
  moreover have "translate pf st' root va' =
      (if same_page ?lev L va va' then Some (leaf L e va') else translate pf st0 root va')" for va'
    using w(2) [of va'] r by (simp add: translate_def reached_def Let_def)
  moreover have "tables_of pf st' x j = tables_of pf st0 x j"
    if "lv0 x \<noteq> None" "j < 512" "\<not> on_path (tables_of pf st0) ?lev root va x" for x j
  proof -
    have "x \<noteq> p" using last that by auto
    then have "tables_of pf st' x j = ?E x j"
      using updatesD [OF f(8), of x j] ext that by simp
    then show ?thesis using r that by (simp add: reached_def Let_def)
  qed
  ultimately have "mapped pf lv0 root va L e st0 lv st'"
    using r f(7) ext by (simp add: mapped_def reached_def Let_def)
  with d show ?thesis by blast
qed

lemma gib_supported:
  assumes "vm_inv pf lv root st"
  shows "is_1gib_page_supported pf st = Inr (gib_pages pf, st\<lparr>is_1gib_supported := Initialized (gib_pages pf)\<rparr>)"
proof -
  have "cpuid_edx pf AND push_bit 26 1 = push_bit 26 1 \<longleftrightarrow> gib_pages pf"
  proof
    assume "cpuid_edx pf AND push_bit 26 1 = push_bit 26 1"
    then have "bit (cpuid_edx pf AND push_bit 26 1) 26 = bit (push_bit 26 1 :: u32) 26" by simp
    then show "gib_pages pf" by (simp add: gib_pages_def bit_and_iff bit_push_bit_iff del: push_bit_of_1)
  next
    assume "gib_pages pf"
    then show "cpuid_edx pf AND push_bit 26 1 = push_bit 26 1"
      by (intro bit_word_eqI) (auto simp: gib_pages_def bit_and_iff bit_push_bit_iff bit_1_iff simp del: push_bit_of_1)
  qed
  then show ?thesis
    using assms by (auto simp: vm_inv_def is_1gib_page_supported_def once_defs)
qed


lemma reached_cell:
  assumes "reached pf lv0 root va L st0 l p lv st"
  shows "reached pf lv0 root va L st0 l p lv (st\<lparr>is_1gib_supported := Initialized (gib_pages pf)\<rparr>)"
proof -
  let ?st = "st\<lparr>is_1gib_supported := Initialized (gib_pages pf)\<rparr>"
  have "tables_of pf ?st = tables_of pf st" "free_count ?st = free_count st" "table_frame pf ?st = table_frame pf st"
    by (simp_all add: tables_of_def free_count_def table_frame_def fun_eq_iff)
  with assms show ?thesis
    by (simp add: reached_def Let_def vm_inv_def translate_def)
qed

fun leaf_level :: "page_size \<Rightarrow> nat" where
  "leaf_level Size4KiB = 1"
| "leaf_level Size2MiB = 2"
| "leaf_level Size1GiB = 3"

text \<open>The entry \<open>vmm_map\<close> writes for a page.\<close>

fun leaf_entry :: "page_size \<Rightarrow> usize \<Rightarrow> u64 \<Rightarrow> page_table_entry" where
  "leaf_entry Size4KiB pa flags =
     pa OR (let f = flags OR 1 in
       if f AND push_bit 12 1 \<noteq> 0 then (f AND NOT (push_bit 12 1)) OR push_bit 7 1 else f)"
| "leaf_entry sz pa flags = pa OR (flags OR 1) OR PT_FLAG_LARGE"

lemma leaf_entry_bits:
  "bit (leaf_entry sz pa flags) 0" "leaf_level sz = 1 \<or> bit (leaf_entry sz pa flags) 7"
proof -
  show "leaf_level sz = 1 \<or> bit (leaf_entry sz pa flags) 7"
    by (cases sz) (simp_all add: bit_or_iff bit_PT_FLAG)
  have n: "bit (flags OR 1 :: u64) 0" "\<not> bit (push_bit 12 1 :: u64) 0"
    by (simp_all only: bit_or_iff bit_push_bit_iff) simp_all
  have "bit ((flags OR 1 :: u64) AND NOT (push_bit 12 1) OR push_bit 7 1) 0"
    unfolding bit_or_iff [of _ "push_bit 7 1"] bit_and_iff bit_not_iff_eq using n by simp
  with n(1) show "bit (leaf_entry sz pa flags) 0"
    by (cases sz) (simp_all add: Let_def bit_or_iff)
qed

lemma reach_pml4:
  assumes inv: "vm_inv pf lv0 root st0" and L: "1 \<le> L" "L \<le> 3"
    and c: "clear_path (tables_of pf st0) (levels (paging_level pf) - L) (levels (paging_level pf)) root va"
      "missing (tables_of pf st0) (levels (paging_level pf) - L) (levels (paging_level pf)) root va \<le> free_count st0"
  shows "\<exists>p lv st. (case paging_level pf of
           FIVE_LEVEL \<Rightarrow> next_dir mp pf (hhdm_offset pf + root) va sz 4 (pml_entry 48 va) st0
         | FOUR_LEVEL \<Rightarrow> Some (Inr (hhdm_offset pf + root, st0))
         | OTHER_LEVEL \<Rightarrow> Some (Inl (Panic ExplicitPanic))) = Some (Inr (hhdm_offset pf + p, st))
      \<and> reached pf lv0 root va L st0 4 p lv st"
proof (cases "paging_level pf")
  case FOUR_LEVEL
  with reached_start [OF inv c] show ?thesis by auto
next
  case FIVE_LEVEL
  with reached_start [OF inv c] have r: "reached pf lv0 root va L st0 5 root lv0 st0" by simp
  from reached_next [OF r L(1), of mp sz 4] L(2) FIVE_LEVEL show ?thesis by simp
next
  case OTHER_LEVEL
  with pt_tree_level [OF vm_invD(1) [OF inv] pt_tree_root [OF vm_invD(1) [OF inv]]] show ?thesis by simp
qed

lemma vmm_map_leaf:
  assumes inv: "vm_inv pf lv0 root st0" and g: "sz = Size1GiB \<longrightarrow> gib_pages pf"
    and c: "clear_path (tables_of pf st0) (levels (paging_level pf) - leaf_level sz) (levels (paging_level pf)) root va"
      "missing (tables_of pf st0) (levels (paging_level pf) - leaf_level sz) (levels (paging_level pf)) root va \<le> free_count st0"
  shows "\<exists>lv st. vmm_map pf (hhdm_offset pf + root) va pa flags sz st0 = Some (Inr st)
    \<and> mapped pf lv0 root va (leaf_level sz) (leaf_entry sz pa flags) st0 lv st"
proof -
  let ?L = "leaf_level sz" and ?h = "hhdm_offset pf" and ?n = "next_dir (vmm_map pf) pf"
  have L: "1 \<le> ?L" "?L \<le> 3" by (cases sz; simp)+
  obtain p4 lv4 st4 where s4: "(case paging_level pf of
           FIVE_LEVEL \<Rightarrow> ?n (?h + root) va sz 4 (pml_entry 48 va) st0
         | FOUR_LEVEL \<Rightarrow> Some (Inr (?h + root, st0))
         | OTHER_LEVEL \<Rightarrow> Some (Inl (Panic ExplicitPanic))) = Some (Inr (?h + p4, st4))"
    and r4: "reached pf lv0 root va ?L st0 4 p4 lv4 st4"
    using reach_pml4 [OF inv L c] by blast
  obtain p3 lv3 st3 where s3: "?n (?h + p4) va sz 3 (pml_entry 39 va) st4 = Some (Inr (?h + p3, st3))"
    and r3: "reached pf lv0 root va ?L st0 3 p3 lv3 st3"
    using reached_next [OF r4 L(1), of "vmm_map pf" sz 3] L(2) by auto
  note start = vmm_map.simps [of pf "?h + root" va pa flags sz st0, unfolded Let_def s4 obind_simps split_conv s3]
  note bits = leaf_entry_bits [of sz pa flags]
  show ?thesis
  proof (cases sz)
    case Size1GiB
    have r: "reached pf lv0 root va ?L st0 ?L p3 lv3 (st3\<lparr>is_1gib_supported := Initialized True\<rparr>)"
      using reached_cell [OF r3] Size1GiB g by simp
    have inv3: "vm_inv pf lv3 root st3" using r3 by (simp add: reached_def Let_def)
    from reached_leaf [OF r bits L(2)] obtain st where
      "dir_set (?h + p3) (pml_entry 30 va) (leaf_entry sz pa flags) (st3\<lparr>is_1gib_supported := Initialized True\<rparr>) = Inr st"
      "mapped pf lv0 root va ?L (leaf_entry sz pa flags) st0 lv3 st"
      using Size1GiB by auto
    then show ?thesis
      unfolding start using gib_supported [OF inv3] g Size1GiB by (auto simp: or.assoc)
  next
    case Size2MiB
    obtain p2 lv2 st2 where s2: "?n (?h + p3) va sz 2 (pml_entry 30 va) st3 = Some (Inr (?h + p2, st2))"
      and r2: "reached pf lv0 root va ?L st0 2 p2 lv2 st2"
      using reached_next [OF r3 L(1), of "vmm_map pf" sz 2] Size2MiB by auto
    from reached_leaf [of pf lv0 root va ?L st0 p2 lv2 st2, OF _ bits L(2)] r2 Size2MiB obtain st where
      "dir_set (?h + p2) (pml_entry 21 va) (leaf_entry sz pa flags) st2 = Inr st"
      "mapped pf lv0 root va ?L (leaf_entry sz pa flags) st0 lv2 st"
      by auto
    then show ?thesis
      unfolding start s2 using Size2MiB by (auto simp: or.assoc)
  next
    case Size4KiB
    obtain p2 lv2 st2 where s2: "?n (?h + p3) va sz 2 (pml_entry 30 va) st3 = Some (Inr (?h + p2, st2))"
      and r2: "reached pf lv0 root va ?L st0 2 p2 lv2 st2"
      using reached_next [OF r3 L(1), of "vmm_map pf" sz 2] Size4KiB by auto
    obtain p1 lv1 st1 where s1: "?n (?h + p2) va sz 1 (pml_entry 21 va) st2 = Some (Inr (?h + p1, st1))"
      and r1: "reached pf lv0 root va ?L st0 1 p1 lv1 st1"
      using reached_next [OF r2 L(1), of "vmm_map pf" sz 1] Size4KiB by auto
    from reached_leaf [of pf lv0 root va ?L st0 p1 lv1 st1, OF _ bits L(2)] r1 Size4KiB obtain st where
      "dir_set (?h + p1) (pml_entry 12 va) (leaf_entry sz pa flags) st1 = Inr st"
      "mapped pf lv0 root va ?L (leaf_entry sz pa flags) st0 lv1 st"
      by auto
    then show ?thesis
      unfolding start s2 using s1 Size4KiB by (auto simp: Let_def)
  qed
qed


section \<open>Addresses and offsets\<close>

lemma aligned_bits: "take_bit k x = 0 \<Longrightarrow> bit x n \<Longrightarrow> k \<le> n" for x :: u64
  by (metis bit_take_bit_iff bit_0_eq bot_apply bot_bool_def not_le)

lemma short_bits: "take_bit k x = x \<Longrightarrow> bit x n \<Longrightarrow> n < k" for x :: u64
  by (metis bit_take_bit_iff)

lemma add_offset:
  fixes x y :: u64
  assumes "take_bit k x = 0" "take_bit k y = y"
  shows "x + y = x OR y"
proof (rule disjunctive_add_eq_or)
  show "x AND y = 0"
  proof (rule bit_word_eqI)
    fix n
    show "bit (x AND y) n = bit 0 n"
      using aligned_bits [OF assms(1), of n] short_bits [OF assms(2), of n] by (auto simp: bit_and_iff)
  qed
qed

text \<open>The page has no address bits where the flags are, and the flags none in the frame.\<close>

definition page_ok :: "nat \<Rightarrow> u64 \<Rightarrow> u64 \<Rightarrow> bool" where
  "page_ok l pa flags \<longleftrightarrow> take_bit (lvl_shift l) pa = 0 \<and> take_bit 52 pa = pa
     \<and> flags AND NOT (push_bit 12 1) AND frame_mask l = 0"

lemma page_ok_flags:
  assumes "page_ok l pa flags" "lvl_shift l \<le> n" "n < 52" "bit flags n"
  shows "n = 12"
proof (rule ccontr)
  assume "n \<noteq> 12"
  have "bit (flags AND NOT (push_bit 12 1) AND frame_mask l) n"
    unfolding bit_and_iff bit_not_iff bit_frame_mask using bit_push_bit_1 [of 12 n] assms(2-) \<open>n \<noteq> 12\<close> by simp
  with assms(1) show False by (simp add: page_ok_def)
qed

lemma bit_leaf_entry:
  assumes "1 \<le> n" "n \<noteq> 7" "n \<noteq> 12"
  shows "bit (leaf_entry sz pa flags) n \<longleftrightarrow> bit pa n \<or> bit flags n"
proof -
  have b: "\<not> bit (push_bit 12 1 :: u64) n" "\<not> bit (push_bit 7 1 :: u64) n" "\<not> bit (1 :: u64) n" "n < 64 \<or> \<not> bit flags n"
    using assms bit_push_bit_1 [of 12 n] bit_push_bit_1 [of 7 n]
    by (auto simp: bit_1_iff not_less dest: bit_imp_le_length)
  have f: "bit (if P then (flags OR 1) AND NOT (push_bit 12 1) OR push_bit 7 1 else flags OR 1) n = bit flags n" for P
    unfolding if_distrib [of "\<lambda>x. bit x n"] bit_or_iff bit_and_iff bit_not_iff using b by auto
  show ?thesis
  proof (cases sz)
    case Size4KiB
    show ?thesis unfolding Size4KiB leaf_entry.simps Let_def bit_or_iff [of pa] f ..
  qed (use b assms in \<open>simp_all add: bit_or_iff bit_PT_FLAG\<close>)
qed

lemma bit_leaf_entry_12:
  "bit (leaf_entry Size4KiB pa flags) 12 \<longleftrightarrow> bit pa 12"
proof -
  have 1: "bit (flags OR 1 :: u64) 12 \<longleftrightarrow> (flags OR 1) AND push_bit 12 1 \<noteq> 0"
    unfolding push_bit_eq_mult mult_1 by (simp only: and_exp_eq_0_iff_not_bit not_not)
  have 2: "\<not> bit ((flags OR 1) AND NOT (push_bit 12 1) OR push_bit 7 1 :: u64) 12"
    unfolding bit_or_iff [of _ "push_bit 7 1"] bit_and_iff bit_not_iff
    using bit_push_bit_1 [of 12 12] bit_push_bit_1 [of 7 12] by simp
  show ?thesis
    unfolding leaf_entry.simps Let_def bit_or_iff [of pa] using 1 2 by presburger
qed

lemma leaf_mapped:
  assumes ok: "page_ok (leaf_level sz) pa flags"
  shows "leaf (leaf_level sz) (leaf_entry sz pa flags) va
    = (leaf_level sz, pa + take_bit (lvl_shift (leaf_level sz)) va, bit flags 1, bit flags 2, bit flags 63)"
proof -
  let ?l = "leaf_level sz" and ?e = "leaf_entry sz pa flags"
  have pa: "take_bit (lvl_shift ?l) pa = 0" "take_bit 52 pa = pa" using ok by (simp_all add: page_ok_def)
  have l: "12 \<le> lvl_shift ?l" "sz \<noteq> Size4KiB \<Longrightarrow> 21 \<le> lvl_shift ?l" by (cases sz; simp)+
  have low: "\<not> bit pa n" if "n < 12 \<or> 52 \<le> n" for n
    using aligned_bits [OF pa(1), of n] short_bits [OF pa(2), of n] l(1) that by auto
  have "?e AND frame_mask ?l = pa"
  proof (rule bit_word_eqI)
    fix n :: nat
    show "bit (?e AND frame_mask ?l) n = bit pa n"
    proof (cases "lvl_shift ?l \<le> n \<and> n < 52")
      case True
      have "bit ?e n \<longleftrightarrow> bit pa n"
      proof (cases "n = 12")
        case t: True
        then have "sz = Size4KiB" using True l(2) by (cases "sz = Size4KiB") auto
        then show ?thesis using t bit_leaf_entry_12 by simp
      next
        case False
        then have "\<not> bit flags n" using page_ok_flags [OF ok] True by blast
        with bit_leaf_entry [of n] False True l(1) show ?thesis by auto
      qed
      with True show ?thesis by (simp add: bit_and_iff bit_frame_mask)
    next
      case False
      then show ?thesis
        using aligned_bits [OF pa(1), of n] short_bits [OF pa(2), of n] by (auto simp: bit_and_iff bit_frame_mask)
    qed
  qed
  moreover have "bit ?e 1 = bit flags 1" "bit ?e 2 = bit flags 2" "bit ?e 63 = bit flags 63"
    using low by (simp_all add: bit_leaf_entry)
  ultimately show ?thesis
    using add_offset [OF pa(1), of "take_bit (lvl_shift ?l) va"] by (simp add: leaf_def)
qed


section \<open>A gigabyte as large pages of two megabytes\<close>

lemma obind_assoc: "obind (obind m f) g = obind m (\<lambda>x. obind (f x) g)"
proof (cases m)
  case (Some r)
  then show ?thesis by (cases r) simp_all
qed simp

lemma each_append: "each body (xs @ ys) s = obind (each body xs s) (each body ys)"
proof (induction xs arbitrary: s)
  case (Cons x xs)
  then have "each body (xs @ ys) = (\<lambda>s. obind (each body xs s) (each body ys))" by blast
  then show ?case by (simp add: obind_assoc)
qed simp

text \<open>The \<open>n\<close>-th piece of an aligned gigabyte.\<close>

lemma piece_bits:
  fixes va :: u64
  assumes "take_bit 30 va = 0" "n < 512"
  shows "bit (va + of_nat n * 0x200000) k \<longleftrightarrow> bit va k \<or> 21 \<le> k \<and> k < 30 \<and> bit n (k - 21)"
proof -
  have m: "of_nat n * 0x200000 = push_bit 21 (of_nat n :: u64)"
    by (simp add: push_bit_eq_mult mult.commute)
  have t: "take_bit 9 (of_nat n :: u64) = of_nat n"
    using assms(2) by (simp add: word_unat_eq_iff unat_take_bit unat_of_nat64)
  have b: "bit (push_bit 21 (of_nat n :: u64)) k \<longleftrightarrow> 21 \<le> k \<and> k < 30 \<and> bit n (k - 21)" for k
  proof -
    have "bit (of_nat n :: u64) (k - 21) \<longleftrightarrow> k - 21 < 9 \<and> bit n (k - 21)"
      using arg_cong [OF t, of "\<lambda>x. bit x (k - 21)"]
      by (auto simp: bit_take_bit_iff bit_of_nat_iff)
    then show ?thesis unfolding bit_push_bit_iff by auto
  qed
  have "take_bit 30 (push_bit 21 (of_nat n :: u64)) = push_bit 21 (of_nat n)"
    by (rule bit_word_eqI) (auto simp: bit_take_bit_iff b)
  from add_offset [OF assms(1) this] show ?thesis
    unfolding m by (simp only: bit_or_iff b)
qed

lemma idx_2_eq:
  assumes "n < 512"
  shows "idx 2 va' = of_nat n \<longleftrightarrow> (\<forall>k. 21 \<le> k \<and> k < 30 \<longrightarrow> bit va' k = bit n (k - 21))"
proof -
  have "bit (of_nat n :: u64) j \<longleftrightarrow> bit n j \<and> j < 9" if "j < 64" for j
  proof -
    have "take_bit 9 n = n" using assms by (simp add: take_bit_eq_mod)
    then have "bit n j \<longleftrightarrow> j < 9 \<and> bit n j" by (metis bit_take_bit_iff)
    then show ?thesis using that by (auto simp: bit_of_nat_iff)
  qed
  then have "idx 2 va' = of_nat n \<longleftrightarrow> (\<forall>j<64. (j < 9 \<and> bit va' (21 + j)) = (bit n j \<and> j < 9))"
    unfolding u64_eq_iff bit_pml_entry by simp
  also have "\<dots> \<longleftrightarrow> (\<forall>j<9. bit va' (21 + j) = bit n j)"
  proof -
    have "j < 9 \<Longrightarrow> j < 64" for j :: nat by simp
    then show ?thesis by blast
  qed
  also have "\<dots> \<longleftrightarrow> (\<forall>k. 21 \<le> k \<and> k < 30 \<longrightarrow> bit va' k = bit n (k - 21))"
  proof
    assume *: "\<forall>j<9. bit va' (21 + j) = bit n j"
    show "\<forall>k. 21 \<le> k \<and> k < 30 \<longrightarrow> bit va' k = bit n (k - 21)"
    proof (intro allI impI)
      fix k :: nat assume k: "21 \<le> k \<and> k < 30"
      then have "k - 21 < 9" by linarith
      with * have "bit va' (21 + (k - 21)) = bit n (k - 21)" by blast
      with k show "bit va' k = bit n (k - 21)" by simp
    qed
  next
    assume *: "\<forall>k. 21 \<le> k \<and> k < 30 \<longrightarrow> bit va' k = bit n (k - 21)"
    show "\<forall>j<9. bit va' (21 + j) = bit n j" using * by auto
  qed
  finally show ?thesis .
qed

lemma piece_page:
  assumes "take_bit 30 va = 0" "n < 512" "4 \<le> lev"
  shows "same_page lev 2 (va + of_nat n * 0x200000) va' \<longleftrightarrow> same_page lev 3 va va' \<and> idx 2 va' = of_nat n"
    and "same_page lev 3 va (va + of_nat n * 0x200000)"
proof -
  note b = piece_bits [OF assms(1,2)]
  show "same_page lev 3 va (va + of_nat n * 0x200000)"
    unfolding same_page_bits b by auto
  have *: "(\<forall>k. 21 \<le> k \<and> k < 9 * lev + 12 \<longrightarrow> P k) \<longleftrightarrow>
      (\<forall>k. 30 \<le> k \<and> k < 9 * lev + 12 \<longrightarrow> P k) \<and> (\<forall>k. 21 \<le> k \<and> k < 30 \<longrightarrow> P k)" for P :: "nat \<Rightarrow> bool"
    using assms(3) by (auto simp: not_less) (metis not_le)
  have "same_page lev 2 (va + of_nat n * 0x200000) va' \<longleftrightarrow>
      (\<forall>k. 21 \<le> k \<and> k < 9 * lev + 12 \<longrightarrow> (bit va k \<or> 21 \<le> k \<and> k < 30 \<and> bit n (k - 21)) = bit va' k)"
    unfolding same_page_bits b by simp
  also have "\<dots> \<longleftrightarrow> (\<forall>k. 30 \<le> k \<and> k < 9 * lev + 12 \<longrightarrow> bit va k = bit va' k)
      \<and> (\<forall>k. 21 \<le> k \<and> k < 30 \<longrightarrow> bit n (k - 21) = bit va' k)"
    unfolding * using aligned_bits [OF assms(1)] by (auto simp: not_less) (metis not_le)+
  also have "\<dots> \<longleftrightarrow> same_page lev 3 va va' \<and> idx 2 va' = of_nat n"
    unfolding same_page_bits idx_2_eq [OF assms(2)] by auto
  finally show "same_page lev 2 (va + of_nat n * 0x200000) va' \<longleftrightarrow> same_page lev 3 va va' \<and> idx 2 va' = of_nat n" .
qed

lemma piece_offset:
  assumes "idx 2 va' = of_nat n" "n < 512"
  shows "of_nat n * 0x200000 + take_bit 21 va' = take_bit 30 va'"
proof -
  have "bit (of_nat n * 0x200000 + take_bit 21 va') k = bit (take_bit 30 va') k" for k
  proof -
    have z: "of_nat n * 0x200000 = 0 + of_nat n * (0x200000 :: u64)" by simp
    have p: "bit (of_nat n * 0x200000 :: u64) k \<longleftrightarrow> 21 \<le> k \<and> k < 30 \<and> bit n (k - 21)" for k
      using piece_bits [of 0 n k] assms(2) by simp
    have "take_bit 21 (of_nat n * 0x200000 :: u64) = 0"
      by (rule bit_word_eqI) (simp add: bit_take_bit_iff p)
    from add_offset [OF this, of "take_bit 21 va'"] show ?thesis
      using assms(1) [unfolded idx_2_eq [OF assms(2)]] by (auto simp: bit_or_iff p bit_take_bit_iff)
  qed
  then show ?thesis by (intro bit_word_eqI) blast
qed


lemma table_path:
  "table_at E k l p va \<noteq> None \<Longrightarrow> clear_path E k l p va \<and> missing E k l p va = 0"
proof (induction k arbitrary: l p)
  case (Suc k)
  then show ?case by (auto simp: Let_def is_table_bits is_large_bits split: if_splits)
qed simp

definition gib_map :: "platform \<Rightarrow> u64 \<Rightarrow> usize \<Rightarrow> usize \<Rightarrow> u64 \<Rightarrow> nat \<Rightarrow> vmm_state \<Rightarrow> vmm_state res option" where
  "gib_map pf root va pa flags n =
     each (\<lambda>i. vmm_map pf (hhdm_offset pf + root) (va + i) (pa + i) flags Size2MiB)
       (map (\<lambda>k. of_nat k * 0x200000) [0..<n])"

lemma gib_page_ok:
  assumes "page_ok 3 pa flags" "n < 512" "flags' = flags OR 1" "flags AND frame_mask 2 AND NOT (push_bit 12 1) = 0"
  shows "page_ok 2 (pa + of_nat n * 0x200000) flags'"
proof -
  have pa: "take_bit 30 pa = 0" "take_bit 52 pa = pa" using assms(1) by (simp_all add: page_ok_def)
  note b = piece_bits [OF pa(1) assms(2)]
  have low: "\<not> bit pa k" if "k < 30 \<or> 52 \<le> k" for k
    using aligned_bits [OF pa(1), of k] short_bits [OF pa(2), of k] that by auto
  have "take_bit 21 (pa + of_nat n * 0x200000) = 0"
    by (rule bit_word_eqI) (auto simp: bit_take_bit_iff b low)
  moreover have "take_bit 52 (pa + of_nat n * 0x200000) = pa + of_nat n * 0x200000"
    by (rule bit_word_eqI) (auto simp: bit_take_bit_iff b dest: short_bits [OF pa(2)])
  moreover have "flags' AND NOT (push_bit 12 1) AND frame_mask 2 = 0"
  proof (rule bit_word_eqI)
    fix k
    have "\<not> bit (flags AND frame_mask 2 AND NOT (push_bit 12 1)) k" using assms(4) by simp
    then show "bit (flags' AND NOT (push_bit 12 1) AND frame_mask 2) k = bit 0 k"
      unfolding assms(3) bit_and_iff bit_not_iff bit_or_iff bit_frame_mask by (auto simp: bit_1_iff)
  qed
  ultimately show ?thesis by (simp add: page_ok_def)
qed

lemma gib_map_ok:
  assumes inv: "vm_inv pf lv0 root st0" and al: "take_bit 30 va = 0" and n: "n \<le> 512"
    and ok: "page_ok 3 pa flags0" "flags = flags0 OR 1" "flags0 AND frame_mask 2 AND NOT (push_bit 12 1) = 0"
    and lev: "lev = levels (paging_level pf)"
    and c: "clear_path (tables_of pf st0) (lev - 2) lev root va"
      "missing (tables_of pf st0) (lev - 2) lev root va \<le> free_count st0"
  shows "\<exists>lv st. gib_map pf root va pa flags n st0 = Some (Inr st) \<and> vm_inv pf lv root st
    \<and> (\<forall>va'. translate pf st root va' = (if same_page lev 3 va va' \<and> unat (idx 2 va') < n
        then Some (2, pa + take_bit 30 va', bit flags0 1, bit flags0 2, bit flags0 63) else translate pf st0 root va'))
    \<and> (\<forall>r. lv0 r \<noteq> None \<longrightarrow> lv r = lv0 r)
    \<and> (if n = 0 then st = st0 else table_at (tables_of pf st) (lev - 2) lev root va \<noteq> None
         \<and> free_count st + missing (tables_of pf st0) (lev - 2) lev root va = free_count st0)"
  using n
proof (induction n)
  case 0
  with inv show ?case by (auto simp: gib_map_def)
next
  case (Suc n)
  then obtain lv st where ih: "gib_map pf root va pa flags n st0 = Some (Inr st)" "vm_inv pf lv root st"
    "\<And>va'. translate pf st root va' = (if same_page lev 3 va va' \<and> unat (idx 2 va') < n
        then Some (2, pa + take_bit 30 va', bit flags0 1, bit flags0 2, bit flags0 63) else translate pf st0 root va')"
    "\<And>r. lv0 r \<noteq> None \<Longrightarrow> lv r = lv0 r"
    and paths: "if n = 0 then st = st0 else table_at (tables_of pf st) (lev - 2) lev root va \<noteq> None
         \<and> free_count st + missing (tables_of pf st0) (lev - 2) lev root va = free_count st0"
    by auto
  let ?i = "of_nat n * (0x200000 :: u64)"
  have l4: "4 \<le> lev" using lev pt_tree_level [OF vm_invD(1) [OF inv] pt_tree_root [OF vm_invD(1) [OF inv]]]
    by (cases "paging_level pf") auto
  have n5: "n < 512" using Suc.prems by simp
  note page = piece_page [OF al n5 l4]
  have idx: "idx j (va + ?i) = idx j va" if "lev - (lev - 2) < j" "j \<le> lev" for j
    using page(2) that l4 by (simp add: same_page_idx)
  have tab: "table_at E (lev - 2) lev root (va + ?i) = table_at E (lev - 2) lev root va" for E
    using idx l4 by (intro table_at_idx) auto
  have c': "clear_path (tables_of pf st) (lev - 2) lev root (va + ?i)
      \<and> missing (tables_of pf st) (lev - 2) lev root (va + ?i) \<le> free_count st"
  proof (cases "n = 0")
    case True
    with paths c show ?thesis by simp
  next
    case False
    then have "table_at (tables_of pf st) (lev - 2) lev root (va + ?i) \<noteq> None" using paths tab by simp
    from table_path [OF this] show ?thesis by simp
  qed
  obtain lv' st' where v: "vmm_map pf (hhdm_offset pf + root) (va + ?i) (pa + ?i) flags Size2MiB st = Some (Inr st')"
    and m: "mapped pf lv root (va + ?i) 2 (leaf_entry Size2MiB (pa + ?i) flags) st lv' st'"
    using vmm_map_leaf [OF ih(2), of Size2MiB "va + ?i" "pa + ?i" flags] c' lev by auto
  have tr: "translate pf st' root va' = (if same_page lev 2 (va + ?i) va'
      then Some (leaf 2 (leaf_entry Size2MiB (pa + ?i) flags) va') else translate pf st root va')" for va'
    using m unfolding mapped_def Let_def lev by blast
  have "page_ok (leaf_level Size2MiB) (pa + ?i) flags" using gib_page_ok [OF ok(1) n5 ok(2,3)] by simp
  note leaf = leaf_mapped [OF this]
  have fl: "bit flags 1 = bit flags0 1" "bit flags 2 = bit flags0 2" "bit flags 63 = bit flags0 63"
    using ok(2) by (simp_all add: bit_or_iff bit_1_iff)
  have "translate pf st' root va' = (if same_page lev 3 va va' \<and> unat (idx 2 va') < Suc n
        then Some (2, pa + take_bit 30 va', bit flags0 1, bit flags0 2, bit flags0 63) else translate pf st0 root va')" for va'
  proof (cases "same_page lev 3 va va' \<and> idx 2 va' = of_nat n")
    case True
    have "unat (of_nat n :: u64) = n" using n5 by (simp add: unat_of_nat64)
    moreover have "translate pf st' root va' = Some (leaf 2 (leaf_entry Size2MiB (pa + ?i) flags) va')"
      unfolding tr page(1) if_P [OF True] ..
    moreover have "pa + ?i + take_bit 21 va' = pa + take_bit 30 va'"
      using piece_offset [of va' n] True n5 by (simp add: add.assoc)
    ultimately show ?thesis using leaf [of va'] fl True by simp
  next
    case False
    have u: "unat (idx 2 va') = n \<longleftrightarrow> idx 2 va' = of_nat n"
      using n5 by (auto simp: word_unat_eq_iff unat_of_nat64)
    have "translate pf st' root va' = translate pf st root va'"
      unfolding tr page(1) if_not_P [OF False] ..
    then show ?thesis using ih(3) [of va'] False u less_Suc_eq [of "unat (idx 2 va')" n] by auto
  qed
  moreover have "gib_map pf root va pa flags (Suc n) st0 = Some (Inr st')"
    using ih(1) v by (simp add: gib_map_def each_append)
  moreover have "free_count st' + missing (tables_of pf st0) (lev - 2) lev root va = free_count st0"
  proof (cases "n = 0")
    case True
    with m paths lev show ?thesis by (simp add: mapped_def Let_def)
  next
    case False
    with paths tab table_path [of "tables_of pf st" "lev - 2" lev root "va + ?i"] m lev show ?thesis
      by (simp add: mapped_def Let_def)
  qed
  moreover have "vm_inv pf lv' root st'" "table_at (tables_of pf st') (lev - 2) lev root va \<noteq> None"
    "\<And>r. lv0 r \<noteq> None \<Longrightarrow> lv' r = lv0 r"
    using m tab lev ih(4) by (auto simp: mapped_def Let_def)
  ultimately show ?case by auto
qed


section \<open>The mapping theorem\<close>

text \<open>
  The level of the entries that \<open>vmm_map\<close> writes. A page can be mapped when no larger page is in its
  way, enough pages are free for the missing tables, both addresses are aligned, and the
  flags do not reach into the frame address.
\<close>

definition map_level :: "platform \<Rightarrow> page_size \<Rightarrow> nat" where
  "map_level pf sz = (if sz = Size1GiB \<and> \<not> gib_pages pf then 2 else leaf_level sz)"

definition can_map :: "platform \<Rightarrow> (u64 \<Rightarrow> nat option) \<Rightarrow> u64 \<Rightarrow> usize \<Rightarrow> usize \<Rightarrow> u64 \<Rightarrow> page_size \<Rightarrow> vmm_state \<Rightarrow> bool" where
  "can_map pf lv root va pa flags sz st \<longleftrightarrow>
     (let lev = levels (paging_level pf); L = map_level pf sz; E = tables_of pf st in
      vm_inv pf lv root st \<and> (case translate pf st root va of None \<Rightarrow> True | Some (l, _) \<Rightarrow> l \<le> L)
      \<and> missing E (lev - L) lev root va \<le> free_count st
      \<and> take_bit (lvl_shift (leaf_level sz)) va = 0 \<and> page_ok (leaf_level sz) pa flags
      \<and> flags AND frame_mask L AND NOT (push_bit 12 1) = 0)"

lemma walk_clear_path:
  assumes tree: "pt_tree E lv lev root" and L: "1 \<le> L" and "lv a = Some m"
    and "case walk E m a va of None \<Rightarrow> True | Some (l, _) \<Rightarrow> l \<le> L"
  shows "clear_path E (m - L) m a va"
  using assms(3-)
proof (induction m arbitrary: a)
  case (Suc m)
  let ?e = "E a (idx (Suc m) va)"
  show ?case
  proof (cases "L \<le> m")
    case True
    have "\<not> is_large ?e"
    proof
      assume large: "is_large ?e"
      then have "Suc m \<le> 3" using pt_tree_no_large [OF tree Suc.prems(1), of "idx (Suc m) va"] by (cases "4 \<le> Suc m") auto
      with large have "walk E (Suc m) a va = Some (leaf (Suc m) ?e va)" by (simp add: is_large_bits Let_def)
      with Suc.prems(2) True show False by (simp add: leaf_def)
    qed
    moreover have "clear_path E (m - L) m (pte_addr ?e) va" if t: "is_table ?e"
    proof (rule Suc.IH)
      show "lv (pte_addr ?e) = Some m" using pt_tree_child(1) [OF tree Suc.prems(1) _ _ t] True L by simp
      show "case walk E m (pte_addr ?e) va of None \<Rightarrow> True | Some (l, _) \<Rightarrow> l \<le> L"
        using walk_table [OF tree Suc.prems(1) _ t, of E] Suc.prems(2) True L by simp
    qed
    ultimately show ?thesis using True by (simp add: Suc_diff_le Let_def)
  qed (simp add: not_le Suc_le_eq)
qed simp

lemma can_map_clear:
  assumes "can_map pf lv root va pa flags sz st" "lev = levels (paging_level pf)"
  shows "clear_path (tables_of pf st) (lev - map_level pf sz) lev root va"
proof -
  have "1 \<le> map_level pf sz" by (cases sz) (simp_all add: map_level_def)
  with assms show ?thesis
    by (auto simp: can_map_def Let_def translate_def dest: vm_invD(1)
      intro!: walk_clear_path [OF vm_invD(1)] pt_tree_root)
qed

lemma loop_offsets_gib: "loop_offsets 0x40000000 0x200000 = map (\<lambda>k. of_nat k * 0x200000) [0..<512]"
  by (simp add: loop_offsets_def)

lemma reached_clear:
  assumes r: "reached pf lv0 root va 2 st0 3 p lv st" and lev: "lev = levels (paging_level pf)"
  shows "clear_path (tables_of pf st) (lev - 2) lev root va"
    and "missing (tables_of pf st) (lev - 2) lev root va = missing (tables_of pf st) 1 3 p va"
proof -
  let ?E = "tables_of pf st"
  have inv: "vm_inv pf lv root st" and p: "lv p = Some 3" "table_at ?E (lev - 3) lev root va = Some p"
    and c: "clear_path ?E 1 3 p va"
    using r lev by (auto simp: reached_def Let_def)
  have l: "3 \<le> lev" using pt_tree_level [OF vm_invD(1) [OF inv] p(1)] lev by simp
  have "clear_path ?E (k + 1) m a va \<and> missing ?E (k + 1) m a va = missing ?E 1 (m - k) b va"
    if "table_at ?E k m a va = Some b" "clear_path ?E 1 (m - k) b va" for k m a b
    using that
  proof (induction k arbitrary: m a)
    case 0
    then show ?case by simp
  next
    case (Suc k)
    from Suc.prems(1) have t: "is_table (?E a (idx m va))"
      "table_at ?E k (m - 1) (pte_addr (?E a (idx m va))) va = Some b"
      by (auto simp: Let_def split: if_splits)
    have "m - 1 - k = m - Suc k" by simp
    with Suc.IH [OF t(2)] Suc.prems(2) have "clear_path ?E (k + 1) (m - 1) (pte_addr (?E a (idx m va))) va
      \<and> missing ?E (k + 1) (m - 1) (pte_addr (?E a (idx m va))) va = missing ?E 1 (m - Suc k) b va" by simp
    with t(1) show ?case by (simp add: Let_def is_table_bits is_large_bits)
  qed
  from this [OF p(2)] c l
  show "clear_path ?E (lev - 2) lev root va" "missing ?E (lev - 2) lev root va = missing ?E 1 3 p va"
    by (simp_all add: numeral_eq_Suc Suc_diff_Suc)
qed


lemma vmm_map_split:
  assumes inv: "vm_inv pf lv0 root st0" and g: "\<not> gib_pages pf"
    and c: "clear_path (tables_of pf st0) (levels (paging_level pf) - 2) (levels (paging_level pf)) root va"
      "missing (tables_of pf st0) (levels (paging_level pf) - 2) (levels (paging_level pf)) root va \<le> free_count st0"
  shows "\<exists>p lv st. vmm_map pf (hhdm_offset pf + root) va pa flags Size1GiB st0
      = gib_map pf root va pa (flags OR 1) 512 st \<and> reached pf lv0 root va 2 st0 3 p lv st"
proof -
  have two: "1 \<le> (2 :: nat)" "2 \<le> (3 :: nat)" by simp_all
  let ?h = "hhdm_offset pf" and ?n = "next_dir (vmm_map pf) pf"
  obtain p4 lv4 st4 where s4: "(case paging_level pf of
           FIVE_LEVEL \<Rightarrow> ?n (?h + root) va Size1GiB 4 (pml_entry 48 va) st0
         | FOUR_LEVEL \<Rightarrow> Some (Inr (?h + root, st0))
         | OTHER_LEVEL \<Rightarrow> Some (Inl (Panic ExplicitPanic))) = Some (Inr (?h + p4, st4))"
    and r4: "reached pf lv0 root va 2 st0 4 p4 lv4 st4"
    using reach_pml4 [OF inv two c, of "vmm_map pf" Size1GiB] by blast
  obtain p3 lv3 st3 where s3: "?n (?h + p4) va Size1GiB 3 (pml_entry 39 va) st4 = Some (Inr (?h + p3, st3))"
    and r3: "reached pf lv0 root va 2 st0 3 p3 lv3 st3"
    using reached_next [OF r4, of "vmm_map pf" Size1GiB 3] by auto
  have "vm_inv pf lv3 root st3" using r3 by (simp add: reached_def Let_def)
  note sup = gib_supported [OF this]
  have "vmm_map pf (?h + root) va pa flags Size1GiB st0
      = gib_map pf root va pa (flags OR 1) 512 (st3\<lparr>is_1gib_supported := Initialized (gib_pages pf)\<rparr>)"
    unfolding vmm_map.simps [of pf "?h + root" va pa flags Size1GiB st0] Let_def s4 obind_simps split_conv s3
    by (simp add: sup g gib_map_def loop_offsets_gib del: upt_Suc upt_rec_numeral)
  with reached_cell [OF r3] show ?thesis by blast
qed

text \<open>What a successful call of \<open>vmm_map\<close> promises.\<close>

definition map_post ::
    "platform \<Rightarrow> u64 \<Rightarrow> usize \<Rightarrow> usize \<Rightarrow> u64 \<Rightarrow> page_size \<Rightarrow> vmm_state \<Rightarrow> (u64 \<Rightarrow> nat option) \<Rightarrow> vmm_state \<Rightarrow> bool" where
  "map_post pf root va pa flags sz st lv' st' \<longleftrightarrow>
     (let lev = levels (paging_level pf) in
      vm_inv pf lv' root st'
      \<and> (\<forall>va'. translate pf st' root va' =
          (if same_page lev (leaf_level sz) va va'
           then Some (map_level pf sz, pa + take_bit (lvl_shift (leaf_level sz)) va', bit flags 1, bit flags 2, bit flags 63)
           else translate pf st root va'))
      \<and> free_count st' + missing (tables_of pf st) (lev - map_level pf sz) lev root va = free_count st)"

lemma vmm_map_post:
  assumes "can_map pf lv root va pa flags sz st"
  shows "\<exists>lv' st'. vmm_map pf (hhdm_offset pf + root) va pa flags sz st = Some (Inr st')
    \<and> map_post pf root va pa flags sz st lv' st'"
proof (cases "sz = Size1GiB \<and> \<not> gib_pages pf")
  case False
  then have L: "map_level pf sz = leaf_level sz" by (auto simp: map_level_def)
  have inv: "vm_inv pf lv root st" and ok: "page_ok (leaf_level sz) pa flags"
    and c: "clear_path (tables_of pf st) (levels (paging_level pf) - leaf_level sz) (levels (paging_level pf)) root va"
      "missing (tables_of pf st) (levels (paging_level pf) - leaf_level sz) (levels (paging_level pf)) root va \<le> free_count st"
    using assms L can_map_clear [OF assms refl] by (simp_all add: can_map_def Let_def)
  have "sz = Size1GiB \<longrightarrow> gib_pages pf" using False by blast
  from vmm_map_leaf [OF inv this c, of pa flags] obtain lv' st' where
    v: "vmm_map pf (hhdm_offset pf + root) va pa flags sz st = Some (Inr st')"
    and m: "mapped pf lv root va (leaf_level sz) (leaf_entry sz pa flags) st lv' st'" by blast
  have "map_post pf root va pa flags sz st lv' st'"
    using m unfolding map_post_def mapped_def Let_def L leaf_mapped [OF ok] by blast
  with v show ?thesis by blast
next
  case True
  let ?lev = "levels (paging_level pf)"
  have L: "map_level pf sz = 2" "leaf_level sz = 3" using True by (simp_all add: map_level_def)
  have inv: "vm_inv pf lv root st" and ok: "page_ok 3 pa flags" "flags AND frame_mask 2 AND NOT (push_bit 12 1) = 0"
    and al: "take_bit 30 va = 0"
    and c: "clear_path (tables_of pf st) (?lev - 2) ?lev root va" "missing (tables_of pf st) (?lev - 2) ?lev root va \<le> free_count st"
    using assms L can_map_clear [OF assms refl] by (simp_all add: can_map_def Let_def)
  obtain p lv1 st1 where v: "vmm_map pf (hhdm_offset pf + root) va pa flags Size1GiB st
      = gib_map pf root va pa (flags OR 1) 512 st1" and r: "reached pf lv root va 2 st 3 p lv1 st1"
    using vmm_map_split [OF inv _ c] True by blast
  have r': "vm_inv pf lv1 root st1" "missing (tables_of pf st1) 1 3 p va \<le> free_count st1"
    "free_count st1 + missing (tables_of pf st) (?lev - 2) ?lev root va = free_count st + missing (tables_of pf st1) 1 3 p va"
    "\<And>va'. translate pf st1 root va' = translate pf st root va'"
    using r by (simp_all add: reached_def Let_def)
  note rc = reached_clear [OF r refl]
  from gib_map_ok [OF r'(1) al order_refl ok(1) refl ok(2) refl rc(1)] r'(2) rc(2) obtain lv' st' where
    g: "gib_map pf root va pa (flags OR 1) 512 st1 = Some (Inr st')" "vm_inv pf lv' root st'"
    "\<And>va'. translate pf st' root va' = (if same_page ?lev 3 va va' \<and> unat (idx 2 va') < 512
        then Some (2, pa + take_bit 30 va', bit flags 1, bit flags 2, bit flags 63) else translate pf st1 root va')"
    "free_count st' + missing (tables_of pf st1) (?lev - 2) ?lev root va = free_count st1"
    by auto
  have u: "unat (idx 2 va') < 512" for va'
    using pml_entry_less [of 21 va'] by (simp add: word_less_nat_alt)
  have "map_post pf root va pa flags sz st lv' st'"
    unfolding map_post_def Let_def L using g(2,4) g(3) u r'(3,4) rc(2) by simp
  with v g(1) True show ?thesis by auto
qed

end
