(* ===== verification/Vmm_Correct.thy ===== *)
theory Vmm_Correct
  imports Paging_Correct
begin

text \<open>
  The properties of the virtual memory manager: one call of \<open>vmm_map\<close>, and the address
  space that \<open>vmm_init\<close> builds at boot.
\<close>

section \<open>Aligned addresses\<close>

lemma aligned_offset:
  fixes x y :: u64
  assumes "take_bit k x = 0" "take_bit k y = y"
  shows "take_bit k (x + y) = y" and "drop_bit k (x + y) = drop_bit k x"
proof -
  note e = add_offset [OF assms]
  show "take_bit k (x + y) = y"
  proof (rule bit_word_eqI)
    fix n
    show "bit (take_bit k (x + y)) n = bit y n"
      unfolding e bit_take_bit_iff bit_or_iff
      using aligned_bits [OF assms(1), of n] short_bits [OF assms(2), of n] by auto
  qed
  show "drop_bit k (x + y) = drop_bit k x"
  proof (rule bit_word_eqI)
    fix n
    show "bit (drop_bit k (x + y)) n = bit (drop_bit k x) n"
      unfolding e bit_drop_bit_eq comp_def bit_or_iff using short_bits [OF assms(2), of "k + n"] by auto
  qed
qed

lemma aligned_push: "take_bit k x = 0 \<Longrightarrow> x = push_bit k (drop_bit k x)" for x :: u64
  using bits_ident [of k x] by simp

lemma aligned_add:
  fixes x y :: u64
  assumes "take_bit k x = 0" "take_bit k y = 0"
  shows "take_bit k (x + y) = 0"
proof -
  have "x + y = push_bit k (drop_bit k x + drop_bit k y)"
    using aligned_push [OF assms(1)] aligned_push [OF assms(2)] by (metis push_bit_add)
  then show ?thesis by (simp add: take_bit_push_bit)
qed

lemma aligned_unat: "take_bit k x = 0 \<longleftrightarrow> unat x mod 2 ^ k = 0" for x :: u64
  by (metis unat_take_bit unat_eq_zero)

lemma same_page_drop: "drop_bit (lvl_shift l) x = drop_bit (lvl_shift l) y \<Longrightarrow> same_page lev l x y"
  unfolding same_page_bits
proof (intro allI impI)
  fix n assume d: "drop_bit (lvl_shift l) x = drop_bit (lvl_shift l) y" and n: "lvl_shift l \<le> n \<and> n < 9 * lev + 12"
  have "bit (drop_bit (lvl_shift l) x) (n - lvl_shift l) = bit (drop_bit (lvl_shift l) y) (n - lvl_shift l)"
    by (simp only: d)
  with n show "bit x n = bit y n" by (simp add: bit_drop_bit_eq)
qed

lemma same_page_offset:
  "take_bit (lvl_shift l) x = 0 \<Longrightarrow> take_bit (lvl_shift l) y = y \<Longrightarrow> same_page lev l x (x + y)"
  by (intro same_page_drop) (simp add: aligned_offset(2))

text \<open>In the upper half of the address space the bits that the walk ignores are all set.\<close>

definition upper_half :: "usize \<Rightarrow> bool" where
  "upper_half x \<longleftrightarrow> 2 ^ 64 - 2 ^ 47 \<le> unat x"

lemma upper_half_bits:
  assumes "upper_half x" "47 \<le> n" "n < 64"
  shows "bit x n"
proof -
  have "unat (drop_bit 47 x) = unat x div 2 ^ 47"
  proof -
    have "take_bit 64 (unat x) = unat x"
      using unsigned_less [of x, where 'a = nat] by (simp add: take_bit_nat_eq_self)
    then show ?thesis by (simp only: unsigned_drop_bit_eq len_of_numeral_defs) (simp add: drop_bit_eq_div)
  qed
  moreover have "unat x div 2 ^ 47 = 2 ^ 17 - 1"
    using assms(1) unsigned_less [of x, where 'a = nat] by (simp add: upper_half_def)
  ultimately have "drop_bit 47 x = mask 17"
    by (simp add: word_unat_eq_iff mask_eq_exp_minus_1)
  then have "bit (drop_bit 47 x) (n - 47) = bit (mask 17 :: u64) (n - 47)" by (simp only:)
  then show ?thesis
    unfolding bit_drop_bit_eq bit_mask_iff comp_def using assms(2,3) by (simp add: less_diff_conv2)
qed

lemma upper_half_same_page:
  assumes "upper_half x" "upper_half y" "4 \<le> lev" "same_page lev l x y"
  shows "drop_bit (lvl_shift l) x = drop_bit (lvl_shift l) y"
proof (rule bit_word_eqI)
  fix n
  show "bit (drop_bit (lvl_shift l) x) n = bit (drop_bit (lvl_shift l) y) n"
  proof (cases "lvl_shift l + n < 9 * lev + 12")
    case True
    with assms(4) show ?thesis by (simp add: same_page_bits bit_drop_bit_eq)
  next
    case False
    with assms(3) have "47 \<le> lvl_shift l + n" by simp
    with upper_half_bits [OF assms(1) this] upper_half_bits [OF assms(2) this] show ?thesis
      by (cases "lvl_shift l + n < 64") (auto simp: bit_drop_bit_eq dest: bit_imp_le_length)
  qed
qed

section \<open>Loops\<close>

lemma while_below_inv:
  fixes limit step :: usize
  assumes n: "n = (unat limit + unat step - 1) div unat step" and step: "0 < unat step"
    and bound: "unat limit + unat step \<le> 2 ^ 64"
    and body: "\<And>k s. k < n \<Longrightarrow> P k s \<Longrightarrow> \<exists>s'. body (of_nat k * step) s = Some (Inr s') \<and> P (Suc k) s'"
    and start: "P 0 s"
  shows "\<exists>s'. while_below body limit step 0 s = Some (Inr s') \<and> P n s'"
proof -
  have val: "unat (of_nat k * step :: usize) = k * unat step" if "k \<le> n" for k
  proof -
    have "n * unat step < 2 ^ 64"
      using bound div_times_less_eq_dividend [of "unat limit + unat step - 1" "unat step"] step
      unfolding n by linarith
    then have "k * unat step < 2 ^ 64" using that mult_le_mono1 [of k n "unat step"] by linarith
    then have "unat (of_nat (k * unat step) :: usize) = k * unat step" by (rule unat_of_nat64)
    then show ?thesis by simp
  qed
  have lim: "k < n \<longleftrightarrow> k * unat step < unat limit" for k
  proof -
    have "k < n \<longleftrightarrow> Suc k * unat step \<le> unat limit + unat step - 1"
      unfolding n Suc_le_eq [symmetric] using step by (simp add: less_eq_div_iff_mult_less_eq)
    then show ?thesis using step by auto
  qed
  have "\<exists>s'. while_below body limit step (of_nat k * step) s = Some (Inr s') \<and> P n s'" if "k \<le> n" "P k s" for k s
    using that
  proof (induction "n - k" arbitrary: k s)
    case 0
    then have "k = n" by simp
    then have "\<not> of_nat k * step < limit" using val [of k] lim [of k] by (simp add: word_less_nat_alt)
    with 0 \<open>k = n\<close> show ?case by (simp add: while_below.simps)
  next
    case (Suc m)
    then have k: "k < n" by simp
    then have less: "of_nat k * step < limit" using val [of k] lim [of k] by (simp add: word_less_nat_alt)
    obtain s1 where s1: "body (of_nat k * step) s = Some (Inr s1)" "P (Suc k) s1"
      using body [OF k Suc.prems(2)] by blast
    have "of_nat k * step + step = of_nat (Suc k) * step" by (simp add: algebra_simps)
    moreover have "\<exists>s'. while_below body limit step (of_nat (Suc k) * step) s1 = Some (Inr s') \<and> P n s'"
      using Suc k s1(2) by (intro Suc.hyps(1)) auto
    ultimately show ?case
      by (subst while_below.simps) (simp only: less if_True s1 obind_simps)
  qed
  from this [of 0 s] start show ?thesis by simp
qed

lemma each_accumulate:
  assumes "\<And>x A s. x \<in> set xs \<Longrightarrow> Q A s \<Longrightarrow> A \<subseteq> U \<Longrightarrow> 4 * c x \<le> F s
      \<Longrightarrow> \<exists>s'. body x s = Some (Inr s') \<and> Q (A \<union> f x) s' \<and> F s \<le> F s' + 4 * (c x :: nat)"
    and "\<And>x. x \<in> set xs \<Longrightarrow> f x \<subseteq> U" and "A \<subseteq> U" and "Q A s" and "4 * sum_list (map c xs) \<le> F s"
  shows "\<exists>s'. each body xs s = Some (Inr s') \<and> Q (A \<union> \<Union>(f ` set xs)) s' \<and> F s \<le> F s' + 4 * sum_list (map c xs)"
  using assms
proof (induction xs arbitrary: A s)
  case (Cons x xs)
  have "4 * c x \<le> F s" using Cons.prems(5) by simp
  with Cons.prems(1) [of x A s] Cons.prems(3,4) obtain s1 where
    s1: "body x s = Some (Inr s1)" "Q (A \<union> f x) s1" "F s \<le> F s1 + 4 * c x" by auto
  have "\<exists>s'. each body xs s1 = Some (Inr s') \<and> Q (A \<union> f x \<union> \<Union>(f ` set xs)) s' \<and> F s1 \<le> F s' + 4 * sum_list (map c xs)"
  proof (rule Cons.IH)
    show "A \<union> f x \<subseteq> U" using Cons.prems(2,3) by simp
    show "4 * sum_list (map c xs) \<le> F s1" using Cons.prems(5) s1(3) by simp
  qed (use Cons.prems(1,2) s1(2) in auto)
  then obtain s' where "each body xs s1 = Some (Inr s')" "Q (A \<union> f x \<union> \<Union>(f ` set xs)) s'"
    "F s1 \<le> F s' + 4 * sum_list (map c xs)" by blast
  with s1 show ?case by (intro exI [of _ s']) (simp add: Un_assoc)
qed simp

section \<open>The address space under construction\<close>

text \<open>
  \<open>S\<close> holds the physical gigabytes that are mapped at the higher-half offset, \<open>T\<close> the offsets of
  the kernel pages that are mapped; nothing else is.
\<close>

definition space :: "platform \<Rightarrow> u64 \<Rightarrow> usize set \<Rightarrow> usize set \<Rightarrow> (u64 \<Rightarrow> nat option) \<Rightarrow> vmm_state \<Rightarrow> bool" where
  "space pf root S T lv st \<longleftrightarrow>
     (let lev = levels (paging_level pf) in
      vm_inv pf lv root st
      \<and> (\<forall>a\<in>S. \<forall>va. same_page lev 3 (a + hhdm_offset pf) va \<longrightarrow>
           translate pf st root va = Some (map_level pf Size1GiB, a + take_bit 30 va, True, False, False))
      \<and> (\<forall>i\<in>T. \<forall>va. same_page lev 1 (virtual_base pf + i) va \<longrightarrow>
           translate pf st root va = Some (1, physical_base pf + i + take_bit 12 va, True, False, False))
      \<and> (\<forall>va. translate pf st root va = None \<or> (\<exists>a\<in>S. same_page lev 3 (a + hhdm_offset pf) va)
           \<or> (\<exists>i\<in>T. same_page lev 1 (virtual_base pf + i) va)))"

definition layout :: "platform \<Rightarrow> usize set \<Rightarrow> usize set \<Rightarrow> bool" where
  "layout pf S T \<longleftrightarrow>
     (let lev = levels (paging_level pf) in
      (\<forall>a\<in>S. \<forall>b\<in>S. same_page lev 3 (a + hhdm_offset pf) (b + hhdm_offset pf) \<longrightarrow> a = b)
      \<and> (\<forall>i\<in>T. \<forall>j\<in>T. same_page lev 1 (virtual_base pf + i) (virtual_base pf + j) \<longrightarrow> i = j)
      \<and> (\<forall>a\<in>S. \<forall>i\<in>T. \<not> same_page lev 3 (a + hhdm_offset pf) (virtual_base pf + i))
      \<and> (\<forall>a\<in>S. take_bit 30 (a + hhdm_offset pf) = 0 \<and> take_bit 30 a = 0 \<and> take_bit 52 a = a)
      \<and> (\<forall>i\<in>T. take_bit 12 (virtual_base pf + i) = 0 \<and> take_bit 12 (physical_base pf + i) = 0
           \<and> take_bit 52 (physical_base pf + i) = physical_base pf + i))"

lemma same_page_sym: "same_page lev l x y \<Longrightarrow> same_page lev l y x"
  by (simp add: same_page_def)

lemma same_page_trans: "same_page lev l x y \<Longrightarrow> same_page lev l y z \<Longrightarrow> same_page lev l x z"
  by (simp add: same_page_def)

lemma same_page_refl [simp]: "same_page lev l x x"
  by (simp add: same_page_def)

lemma same_page_coarser: "same_page lev l x y \<Longrightarrow> l \<le> m \<Longrightarrow> same_page lev m x y"
  unfolding same_page_bits by auto

lemma missing_le: "missing E k l p va \<le> k"
proof (induction k arbitrary: l p)
  case (Suc k)
  then show ?case by (simp add: Let_def le_SucI)
qed simp

lemma write_flags:
  "bit (2 :: u64) 1" "\<not> bit (2 :: u64) 2" "\<not> bit (2 :: u64) 63" "2 AND frame_mask l AND NOT (push_bit 12 1) = 0"
  "2 AND NOT (push_bit 12 1) AND frame_mask l = 0" "VMM_FLAG_WRITE = 2"
proof -
  have b: "bit (2 :: u64) n \<longleftrightarrow> n = 1" for n using bit_push_bit_1 [of 1 n] by simp
  have "(2 :: u64) AND frame_mask l = 0"
    unfolding u64_eq_iff bit_and_iff b bit_frame_mask by auto
  then show "2 AND frame_mask l AND NOT (push_bit 12 1) = 0" "2 AND NOT (push_bit 12 1) AND frame_mask l = 0"
    by (simp_all add: and.commute and.left_commute and.assoc)
qed (simp_all add: VMM_FLAG_WRITE_def bit_2_iff)

lemma can_map_write:
  assumes "vm_inv pf lv root st"
    and "case translate pf st root va of None \<Rightarrow> True | Some (l, _) \<Rightarrow> l \<le> map_level pf sz"
    and "missing (tables_of pf st) (levels (paging_level pf) - map_level pf sz) (levels (paging_level pf)) root va
      \<le> free_count st"
    and "take_bit (lvl_shift (leaf_level sz)) va = 0" "take_bit (lvl_shift (leaf_level sz)) pa = 0" "take_bit 52 pa = pa"
  shows "can_map pf lv root va pa 2 sz st"
  unfolding can_map_def Let_def page_ok_def using assms write_flags(4,5) by blast

lemma levels_le: "levels (paging_level pf) - L \<le> 5 - L"
  by (cases "paging_level pf") simp_all

lemma space_hh:
  assumes sp: "space pf root S T lv st" and lay: "layout pf SA TA" and sub: "S \<subseteq> SA" "T \<subseteq> TA" and a: "a \<in> SA"
    and free: "4 \<le> free_count st"
  shows "\<exists>lv' st'. vmm_map pf (hhdm_offset pf + root) (a + hhdm_offset pf) a 2 Size1GiB st = Some (Inr st')
    \<and> space pf root (insert a S) T lv' st' \<and> free_count st \<le> free_count st' + 4"
proof -
  let ?lev = "levels (paging_level pf)" and ?va = "a + hhdm_offset pf" and ?L = "map_level pf Size1GiB"
  have al: "take_bit 30 ?va = 0" "take_bit 30 a = 0" "take_bit 52 a = a"
    and inj: "\<And>b. b \<in> S \<Longrightarrow> same_page ?lev 3 ?va (b + hhdm_offset pf) \<Longrightarrow> b = a"
    and dis: "\<And>i. i \<in> T \<Longrightarrow> \<not> same_page ?lev 3 ?va (virtual_base pf + i)"
    using lay a sub unfolding layout_def Let_def by blast+
  have inv: "vm_inv pf lv root st"
    and ss: "\<And>b va. b \<in> S \<Longrightarrow> same_page ?lev 3 (b + hhdm_offset pf) va
        \<Longrightarrow> translate pf st root va = Some (?L, b + take_bit 30 va, True, False, False)"
    and tt: "\<And>i va. i \<in> T \<Longrightarrow> same_page ?lev 1 (virtual_base pf + i) va
        \<Longrightarrow> translate pf st root va = Some (1, physical_base pf + i + take_bit 12 va, True, False, False)"
    and rest: "\<And>va. translate pf st root va = None \<or> (\<exists>b\<in>S. same_page ?lev 3 (b + hhdm_offset pf) va)
           \<or> (\<exists>i\<in>T. same_page ?lev 1 (virtual_base pf + i) va)"
    using sp unfolding space_def Let_def by blast+
  have L: "1 \<le> ?L" "2 \<le> ?L" by (simp_all add: map_level_def)
  have "case translate pf st root ?va of None \<Rightarrow> True | Some (l, _) \<Rightarrow> l \<le> ?L"
    using rest [of ?va] ss [of _ ?va] tt [of _ ?va] L(1) by auto
  moreover have "missing (tables_of pf st) (?lev - ?L) ?lev root ?va \<le> 4"
    using missing_le [of "tables_of pf st" "?lev - ?L" ?lev root ?va] levels_le [of pf ?L] L(2) by linarith
  moreover from this have "missing (tables_of pf st) (?lev - ?L) ?lev root ?va \<le> free_count st" using free by simp
  ultimately have "can_map pf lv root ?va a 2 Size1GiB st"
    using inv al by (intro can_map_write) simp_all
  from vmm_map_post [OF this] obtain lv' st' where
    v: "vmm_map pf (hhdm_offset pf + root) ?va a 2 Size1GiB st = Some (Inr st')"
    and post: "map_post pf root ?va a 2 Size1GiB st lv' st'" by blast
  have tr: "translate pf st' root va = (if same_page ?lev 3 ?va va
      then Some (?L, a + take_bit 30 va, True, False, False) else translate pf st root va)" for va
    using post write_flags by (simp add: map_post_def Let_def)
  have "translate pf st' root va = Some (?L, b + take_bit 30 va, True, False, False)"
    if "b \<in> insert a S" "same_page ?lev 3 (b + hhdm_offset pf) va" for b va
    using that ss [of b va] inj [of b] same_page_trans [OF _ same_page_sym [OF that(2)], of ?va]
    unfolding tr by auto
  moreover have "translate pf st' root va = Some (1, physical_base pf + i + take_bit 12 va, True, False, False)"
    if "i \<in> T" "same_page ?lev 1 (virtual_base pf + i) va" for i va
    using that tt [of i va] dis [of i]
      same_page_trans [OF _ same_page_sym [OF same_page_coarser [OF that(2), of 3]], of ?va]
    unfolding tr by auto
  moreover have "translate pf st' root va = None \<or> (\<exists>b\<in>insert a S. same_page ?lev 3 (b + hhdm_offset pf) va)
           \<or> (\<exists>i\<in>T. same_page ?lev 1 (virtual_base pf + i) va)" for va
    using rest [of va] unfolding tr by auto
  ultimately have "space pf root (insert a S) T lv' st'"
    using post unfolding space_def map_post_def Let_def by blast
  moreover have "free_count st \<le> free_count st' + 4"
    using post \<open>missing (tables_of pf st) (?lev - ?L) ?lev root ?va \<le> 4\<close> by (simp add: map_post_def Let_def)
  ultimately show ?thesis using v by blast
qed


lemma space_kernel:
  assumes sp: "space pf root S T lv st" and lay: "layout pf SA TA" and sub: "S \<subseteq> SA" "T \<subseteq> TA" and i: "i \<in> TA"
    and free: "4 \<le> free_count st"
  shows "\<exists>lv' st'. vmm_map pf (hhdm_offset pf + root) (virtual_base pf + i) (physical_base pf + i) 2 Size4KiB st
      = Some (Inr st')
    \<and> space pf root S (insert i T) lv' st' \<and> free_count st \<le> free_count st' + 4"
proof -
  let ?lev = "levels (paging_level pf)" and ?va = "virtual_base pf + i" and ?pa = "physical_base pf + i"
  have al: "take_bit 12 ?va = 0" "take_bit 12 ?pa = 0" "take_bit 52 ?pa = ?pa"
    and inj: "\<And>j. j \<in> T \<Longrightarrow> same_page ?lev 1 ?va (virtual_base pf + j) \<Longrightarrow> j = i"
    and dis: "\<And>a. a \<in> S \<Longrightarrow> \<not> same_page ?lev 3 (a + hhdm_offset pf) ?va"
    using lay i sub unfolding layout_def Let_def by blast+
  have inv: "vm_inv pf lv root st"
    and ss: "\<And>b va. b \<in> S \<Longrightarrow> same_page ?lev 3 (b + hhdm_offset pf) va
        \<Longrightarrow> translate pf st root va = Some (map_level pf Size1GiB, b + take_bit 30 va, True, False, False)"
    and tt: "\<And>i va. i \<in> T \<Longrightarrow> same_page ?lev 1 (virtual_base pf + i) va
        \<Longrightarrow> translate pf st root va = Some (1, physical_base pf + i + take_bit 12 va, True, False, False)"
    and rest: "\<And>va. translate pf st root va = None \<or> (\<exists>b\<in>S. same_page ?lev 3 (b + hhdm_offset pf) va)
           \<or> (\<exists>i\<in>T. same_page ?lev 1 (virtual_base pf + i) va)"
    using sp unfolding space_def Let_def by blast+
  have L: "map_level pf Size4KiB = 1" by (simp add: map_level_def)
  have "case translate pf st root ?va of None \<Rightarrow> True | Some (l, _) \<Rightarrow> l \<le> map_level pf Size4KiB"
    using rest [of ?va] dis tt [of _ ?va] L by auto
  moreover have m: "missing (tables_of pf st) (?lev - 1) ?lev root ?va \<le> 4"
    using missing_le [of "tables_of pf st" "?lev - 1" ?lev root ?va] levels_le [of pf 1] by linarith
  moreover from this have "missing (tables_of pf st) (?lev - 1) ?lev root ?va \<le> free_count st" using free by simp
  ultimately have "can_map pf lv root ?va ?pa 2 Size4KiB st"
    using inv al by (intro can_map_write) (simp_all add: L)
  from vmm_map_post [OF this] obtain lv' st' where
    v: "vmm_map pf (hhdm_offset pf + root) ?va ?pa 2 Size4KiB st = Some (Inr st')"
    and post: "map_post pf root ?va ?pa 2 Size4KiB st lv' st'" by blast
  have tr: "translate pf st' root va = (if same_page ?lev 1 ?va va
      then Some (1, ?pa + take_bit 12 va, True, False, False) else translate pf st root va)" for va
    using post write_flags L by (simp add: map_post_def Let_def)
  have "translate pf st' root va = Some (map_level pf Size1GiB, b + take_bit 30 va, True, False, False)"
    if "b \<in> S" "same_page ?lev 3 (b + hhdm_offset pf) va" for b va
    using that ss [of b va] dis [of b] same_page_trans [OF that(2) same_page_sym [OF same_page_coarser [of ?lev 1 ?va va 3]]]
    unfolding tr by auto
  moreover have "translate pf st' root va = Some (1, physical_base pf + j + take_bit 12 va, True, False, False)"
    if "j \<in> insert i T" "same_page ?lev 1 (virtual_base pf + j) va" for j va
    using that tt [of j va] inj [of j] same_page_trans [OF _ same_page_sym [OF that(2)], of ?va]
    unfolding tr by auto
  moreover have "translate pf st' root va = None \<or> (\<exists>b\<in>S. same_page ?lev 3 (b + hhdm_offset pf) va)
           \<or> (\<exists>j\<in>insert i T. same_page ?lev 1 (virtual_base pf + j) va)" for va
    using rest [of va] unfolding tr by auto
  ultimately have "space pf root S (insert i T) lv' st'"
    using post unfolding space_def map_post_def Let_def by blast
  moreover have "free_count st \<le> free_count st' + 4"
    using post m by (simp add: map_post_def Let_def L)
  ultimately show ?thesis using v by blast
qed


section \<open>The boot layout\<close>

text \<open>
  Physical gigabytes below the kernel in the higher-half map, and kernel offsets that stay inside
  the address space.
\<close>

definition hh_ok :: "platform \<Rightarrow> usize \<Rightarrow> bool" where
  "hh_ok pf a \<longleftrightarrow> (\<exists>g. a = of_nat (g * 2 ^ 30) \<and> unat (hhdm_offset pf) + (g + 1) * 2 ^ 30 \<le> unat (virtual_base pf))"

definition k_ok :: "platform \<Rightarrow> usize \<Rightarrow> bool" where
  "k_ok pf i \<longleftrightarrow> (\<exists>k. i = of_nat (k * 4096) \<and> unat (virtual_base pf) + k * 4096 < 2 ^ 64
     \<and> unat (physical_base pf) + k * 4096 < 2 ^ 48)"

definition boot_base :: "platform \<Rightarrow> bool" where
  "boot_base pf \<longleftrightarrow> paging_level pf \<noteq> OTHER_LEVEL \<and> upper_half (hhdm_offset pf)
     \<and> take_bit 30 (hhdm_offset pf) = 0 \<and> take_bit 12 (virtual_base pf) = 0 \<and> take_bit 12 (physical_base pf) = 0
     \<and> unat (hhdm_offset pf) + 2 ^ 32 \<le> unat (virtual_base pf)"

lemma drop_bit_unat: "unat (drop_bit k x) = unat x div 2 ^ k" for x :: u64
proof -
  have "take_bit 64 (unat x) = unat x"
    using unsigned_less [of x, where 'a = nat] by (simp add: take_bit_nat_eq_self)
  then show ?thesis by (simp only: unsigned_drop_bit_eq len_of_numeral_defs) (simp add: drop_bit_eq_div)
qed

lemma hh_okE:
  assumes "hh_ok pf a" "boot_base pf"
  obtains g where "a = of_nat (g * 2 ^ 30)" "unat a = g * 2 ^ 30" "unat a < 2 ^ 47"
    "unat (a + hhdm_offset pf) = unat (hhdm_offset pf) + g * 2 ^ 30"
    "unat (hhdm_offset pf) + (g + 1) * 2 ^ 30 \<le> unat (virtual_base pf)" "upper_half (a + hhdm_offset pf)"
proof -
  from assms(1) obtain g where g: "a = of_nat (g * 2 ^ 30)"
    "unat (hhdm_offset pf) + (g + 1) * 2 ^ 30 \<le> unat (virtual_base pf)" by (auto simp: hh_ok_def)
  have up: "2 ^ 64 - 2 ^ 47 \<le> unat (hhdm_offset pf)" using assms(2) by (simp add: boot_base_def upper_half_def)
  have "unat (virtual_base pf) < 2 ^ 64" using unsigned_less [of "virtual_base pf", where 'a = nat] by simp
  then have b: "g * 2 ^ 30 < 2 ^ 47" "unat (hhdm_offset pf) + g * 2 ^ 30 < 2 ^ 64" using g(2) up by simp_all
  then have u: "unat a = g * 2 ^ 30" unfolding g(1) by (intro unat_of_nat64) simp
  have "unat (a + hhdm_offset pf) = unat (hhdm_offset pf) + g * 2 ^ 30"
    using b(2) u by (subst unat_add_no_wrap) simp_all
  with g u b up show ?thesis by (intro that [of g]) (simp_all add: upper_half_def)
qed

lemma k_okE:
  assumes "k_ok pf i"
  obtains k where "i = of_nat (k * 4096)" "unat i = k * 4096" "unat (virtual_base pf + i) = unat (virtual_base pf) + k * 4096"
    "unat (physical_base pf + i) = unat (physical_base pf) + k * 4096" "unat (physical_base pf) + k * 4096 < 2 ^ 48"
proof -
  from assms obtain k where k: "i = of_nat (k * 4096)" "unat (virtual_base pf) + k * 4096 < 2 ^ 64"
    "unat (physical_base pf) + k * 4096 < 2 ^ 48" by (auto simp: k_ok_def)
  have u: "unat i = k * 4096" unfolding k(1) using k(2) by (intro unat_of_nat64) simp
  with k show ?thesis by (intro that [of k]) (simp_all add: unat_add_no_wrap)
qed

lemma layout_ok:
  assumes b: "boot_base pf"
  shows "layout pf {a. hh_ok pf a} {i. k_ok pf i}"
proof -
  let ?h = "hhdm_offset pf" and ?v = "virtual_base pf" and ?p = "physical_base pf" and ?lev = "levels (paging_level pf)"
  have lev: "4 \<le> ?lev" using b by (cases "paging_level pf") (auto simp: boot_base_def)
  have al: "unat ?h mod 2 ^ 30 = 0" "unat ?v mod 4096 = 0" "unat ?p mod 4096 = 0"
    using b by (simp_all add: boot_base_def aligned_unat)
  have uv: "upper_half (?v + i)" if i: "k_ok pf i" for i
  proof -
    have "unat ?h + 2 ^ 32 \<le> unat ?v" "2 ^ 64 - 2 ^ 47 \<le> unat ?h" using b by (simp_all add: boot_base_def upper_half_def)
    with i show ?thesis by (elim k_okE) (simp add: upper_half_def)
  qed
  have "x = y" if 1: "hh_ok pf x" and 2: "hh_ok pf y" and s: "same_page ?lev 3 (x + ?h) (y + ?h)" for x y
  proof -
    obtain g where g: "unat x = g * 2 ^ 30" "unat (x + ?h) = unat ?h + g * 2 ^ 30" "upper_half (x + ?h)"
      using hh_okE [OF 1 b] by metis
    obtain g' where g': "unat y = g' * 2 ^ 30" "unat (y + ?h) = unat ?h + g' * 2 ^ 30" "upper_half (y + ?h)"
      using hh_okE [OF 2 b] by metis
    have "unat (drop_bit 30 (x + ?h)) = unat (drop_bit 30 (y + ?h))"
      using upper_half_same_page [OF g(3) g'(3) lev s] by simp
    then have "g = g'" using al(1) by (simp add: drop_bit_unat g(2) g'(2))
    with g g' show ?thesis by (simp add: word_unat_eq_iff)
  qed
  moreover have "i = j" if 1: "k_ok pf i" and 2: "k_ok pf j" and s: "same_page ?lev 1 (?v + i) (?v + j)" for i j
  proof -
    obtain k where k: "unat i = k * 4096" "unat (?v + i) = unat ?v + k * 4096" using k_okE [OF 1] by metis
    obtain l where l: "unat j = l * 4096" "unat (?v + j) = unat ?v + l * 4096" using k_okE [OF 2] by metis
    have "unat (drop_bit 12 (?v + i)) = unat (drop_bit 12 (?v + j))"
      using upper_half_same_page [OF uv [OF 1] uv [OF 2] lev s] by simp
    then have "k = l" using al(2) by (simp add: drop_bit_unat k(2) l(2))
    with k l show ?thesis by (simp add: word_unat_eq_iff)
  qed
  moreover have "\<not> same_page ?lev 3 (x + ?h) (?v + i)" if 1: "hh_ok pf x" and 2: "k_ok pf i" for x i
  proof
    assume s: "same_page ?lev 3 (x + ?h) (?v + i)"
    obtain g where g: "unat (x + ?h) = unat ?h + g * 2 ^ 30" "unat ?h + (g + 1) * 2 ^ 30 \<le> unat ?v" "upper_half (x + ?h)"
      using hh_okE [OF 1 b] by metis
    obtain k where k: "unat (?v + i) = unat ?v + k * 4096" using k_okE [OF 2] by metis
    have "unat (drop_bit 30 (x + ?h)) = unat (drop_bit 30 (?v + i))"
      using upper_half_same_page [OF g(3) uv [OF 2] lev s] by simp
    then have "unat ?h div 2 ^ 30 + g = (unat ?v + k * 4096) div 2 ^ 30" by (simp add: drop_bit_unat g k)
    moreover have "(unat ?h + (g + 1) * 2 ^ 30) div 2 ^ 30 \<le> (unat ?v + k * 4096) div 2 ^ 30"
      using g(2) by (intro div_le_mono) simp
    ultimately show False by simp
  qed
  moreover have "take_bit 30 (x + ?h) = 0 \<and> take_bit 30 x = 0 \<and> take_bit 52 x = x" if x: "hh_ok pf x" for x
  proof -
    obtain g where g: "unat x = g * 2 ^ 30" "unat x < 2 ^ 47" using hh_okE [OF x b] by metis
    have "take_bit 30 x = 0" unfolding aligned_unat g(1) by simp
    moreover have "take_bit 52 x = x" using g(2) by (simp add: word_unat_eq_iff unat_take_bit)
    ultimately show ?thesis using b by (simp add: aligned_add boot_base_def)
  qed
  moreover have "take_bit 12 (?v + i) = 0 \<and> take_bit 12 (?p + i) = 0 \<and> take_bit 52 (?p + i) = ?p + i" if i: "k_ok pf i" for i
  proof -
    obtain k where k: "unat i = k * 4096" "unat (?p + i) = unat ?p + k * 4096" "unat ?p + k * 4096 < 2 ^ 48"
      using k_okE [OF i] by metis
    have "take_bit 12 i = 0" unfolding aligned_unat k(1) by simp
    moreover have "take_bit 52 (?p + i) = ?p + i" using k(2,3) by (simp add: word_unat_eq_iff unat_take_bit)
    ultimately show ?thesis using b by (simp add: aligned_add boot_base_def)
  qed
  ultimately show ?thesis unfolding layout_def Let_def by blast
qed


section \<open>The loops of the boot\<close>

definition kernel_pages :: "'ty \<Rightarrow> 'ty memmap_entry \<Rightarrow> nat" where
  "kernel_pages K e = (if entry_type e = K then (unat (len e) + 4095) div 4096 else 0)"

definition kernel_part :: "'ty \<Rightarrow> 'ty memmap_entry \<Rightarrow> usize set" where
  "kernel_part K e = (\<lambda>k. of_nat (k * 4096)) ` {..<kernel_pages K e}"

definition kernel_entry_ok :: "platform \<Rightarrow> 'ty \<Rightarrow> 'ty memmap_entry \<Rightarrow> bool" where
  "kernel_entry_ok pf K e \<longleftrightarrow> (entry_type e = K \<longrightarrow> unat (virtual_base pf) + unat (len e) \<le> 2 ^ 64
     \<and> unat (physical_base pf) + unat (len e) \<le> 2 ^ 48)"

lemma kernel_part_ok:
  assumes "kernel_entry_ok pf K e"
  shows "kernel_part K e \<subseteq> {i. k_ok pf i}"
proof
  fix i assume "i \<in> kernel_part K e"
  then obtain k where k: "i = of_nat (k * 4096)" "k < kernel_pages K e" by (auto simp: kernel_part_def)
  then have e: "entry_type e = K" "k < (unat (len e) + 4095) div 4096"
    by (auto simp: kernel_pages_def split: if_splits)
  then have "k * 4096 < unat (len e)" by linarith
  with assms e(1) k(1) show "i \<in> {i. k_ok pf i}"
    by (auto simp: kernel_entry_ok_def k_ok_def intro!: exI [of _ k])
qed

lemma map_kernel_entry_space:
  assumes b: "boot_base pf" and sub: "S \<subseteq> {a. hh_ok pf a}" "T \<subseteq> {i. k_ok pf i}" and e: "kernel_entry_ok pf K e"
    and sp: "space pf root S T lv st" and free: "4 * kernel_pages K e \<le> free_count st"
  shows "\<exists>lv' st'. map_kernel_entry pf K (hhdm_offset pf + root) e st = Some (Inr st')
    \<and> space pf root S (T \<union> kernel_part K e) lv' st' \<and> free_count st \<le> free_count st' + 4 * kernel_pages K e"
proof (cases "entry_type e = K")
  case False
  with sp show ?thesis by (auto simp: map_kernel_entry_def kernel_part_def kernel_pages_def)
next
  case True
  note part = kernel_part_ok [OF e]
  let ?n = "(unat (len e) + unat (0x1000 :: usize) - 1) div unat (0x1000 :: usize)"
  have n: "?n = kernel_pages K e" using True by (simp add: kernel_pages_def)
  let ?P = "\<lambda>k s. \<exists>lv. space pf root S (T \<union> (\<lambda>k. of_nat (k * 4096)) ` {..<k}) lv s
    \<and> free_count st \<le> free_count s + 4 * k"
  have "\<exists>s'. while_below (\<lambda>i. vmm_map pf (hhdm_offset pf + root) (virtual_base pf + i) (physical_base pf + i) 0x02 Size4KiB)
      (len e) 0x1000 0 st = Some (Inr s') \<and> ?P ?n s'"
  proof (rule while_below_inv [where P = ?P])
    have "unat (virtual_base pf) \<noteq> 0" using b by (auto simp: boot_base_def upper_half_def)
    then have "unat (len e) < 2 ^ 48 + 1" using e True by (simp add: kernel_entry_ok_def)
    then show "unat (len e) + unat (0x1000 :: usize) \<le> 2 ^ 64" by simp
    show "?P 0 st" using sp by auto
    fix k s assume k: "k < ?n" and "?P k s"
    then obtain lv1 where s: "space pf root S (T \<union> (\<lambda>k. of_nat (k * 4096)) ` {..<k}) lv1 s"
      "free_count st \<le> free_count s + 4 * k" by blast
    have sub': "T \<union> (\<lambda>k. of_nat (k * 4096)) ` {..<k} \<subseteq> {i. k_ok pf i}"
    proof -
      have "(\<lambda>k. of_nat (k * 4096) :: usize) ` {..<k} \<subseteq> kernel_part K e"
        unfolding kernel_part_def using k n by (intro image_mono) auto
      with sub(2) part show ?thesis by blast
    qed
    have i: "of_nat (k * 4096) \<in> {i. k_ok pf i}" using part k unfolding n kernel_part_def by blast
    have f: "4 \<le> free_count s" using s(2) k free unfolding n by linarith
    have m: "of_nat k * (0x1000 :: usize) = of_nat (k * 4096)" by simp
    from space_kernel [OF s(1) layout_ok [OF b] sub(1) sub' i f] obtain lv2 s2 where
      "vmm_map pf (hhdm_offset pf + root) (virtual_base pf + of_nat (k * 4096)) (physical_base pf + of_nat (k * 4096)) 2 Size4KiB s
        = Some (Inr s2)" "space pf root S (insert (of_nat (k * 4096)) (T \<union> (\<lambda>k. of_nat (k * 4096)) ` {..<k})) lv2 s2"
      "free_count s \<le> free_count s2 + 4" by blast
    moreover have "insert (of_nat (k * 4096)) (T \<union> (\<lambda>k. of_nat (k * 4096)) ` {..<k})
        = T \<union> (\<lambda>k. of_nat (k * 4096) :: usize) ` {..<Suc k}"
      by (simp add: lessThan_Suc)
    ultimately show "\<exists>s'. vmm_map pf (hhdm_offset pf + root) (virtual_base pf + of_nat k * 0x1000)
        (physical_base pf + of_nat k * 0x1000) 0x02 Size4KiB s = Some (Inr s') \<and> ?P (Suc k) s'"
      unfolding m using s(2) by (intro exI [of _ s2]) auto
  qed simp_all
  then show ?thesis using True unfolding n by (auto simp: map_kernel_entry_def kernel_part_def)
qed


definition high_first :: "'ty memmap_entry \<Rightarrow> nat" where
  "high_first e = max (unat (base e)) (2 ^ 32) div 2 ^ 30"

definition high_last :: "'ty memmap_entry \<Rightarrow> nat" where
  "high_last e = (unat (base e) + unat (len e) + (2 ^ 30 - 1)) div 2 ^ 30"

definition high_pages :: "'ty \<Rightarrow> 'ty \<Rightarrow> 'ty memmap_entry \<Rightarrow> nat" where
  "high_pages R B e =
     (if entry_type e = R \<or> entry_type e = B \<or> unat (base e) + unat (len e) \<le> max (unat (base e)) (2 ^ 32) then 0
      else high_last e - high_first e)"

definition high_part :: "'ty \<Rightarrow> 'ty \<Rightarrow> 'ty memmap_entry \<Rightarrow> usize set" where
  "high_part R B e = (\<lambda>k. of_nat ((high_first e + k) * 2 ^ 30)) ` {..<high_pages R B e}"

definition high_entry_ok :: "platform \<Rightarrow> 'ty \<Rightarrow> 'ty \<Rightarrow> 'ty memmap_entry \<Rightarrow> bool" where
  "high_entry_ok pf R B e \<longleftrightarrow> (entry_type e \<noteq> R \<and> entry_type e \<noteq> B \<longrightarrow>
     unat (hhdm_offset pf) + high_last e * 2 ^ 30 \<le> unat (virtual_base pf))"

lemma high_part_ok:
  assumes "high_entry_ok pf R B e"
  shows "high_part R B e \<subseteq> {a. hh_ok pf a}"
proof
  fix a assume "a \<in> high_part R B e"
  then obtain k where k: "a = of_nat ((high_first e + k) * 2 ^ 30)" "k < high_pages R B e"
    by (auto simp: high_part_def)
  then have e: "entry_type e \<noteq> R" "entry_type e \<noteq> B" "high_first e + k + 1 \<le> high_last e"
    by (auto simp: high_pages_def split: if_splits)
  then have "(high_first e + k + 1) * 2 ^ 30 \<le> high_last e * 2 ^ 30" by (intro mult_le_mono1)
  with e(1,2) assms have "unat (hhdm_offset pf) + (high_first e + k + 1) * 2 ^ 30 \<le> unat (virtual_base pf)"
    by (simp add: high_entry_ok_def)
  with k(1) show "a \<in> {a. hh_ok pf a}" unfolding hh_ok_def by blast
qed

lemma gib_power: "is_power_of_two 0x40000000" "unat (0x40000000 :: usize) = 2 ^ 30"
proof -
  have "\<exists>k<64. (0x40000000 :: usize) = 2 ^ k" by (rule exI [of _ 30]) simp
  then show "is_power_of_two 0x40000000" by (simp add: is_power_of_two_iff)
qed simp

lemma round_up_ge: "0 < m \<Longrightarrow> x \<le> (x + (m - 1)) div m * m" for x m :: nat
  using div_mult_mod_eq [of "x + (m - 1)" m] mod_less_divisor [of m "x + (m - 1)"] by linarith

lemma high_bounds:
  assumes b: "boot_base pf" and e: "high_entry_ok pf R B e" "entry_type e \<noteq> R" "entry_type e \<noteq> B"
  shows "unat (base e + len e) = unat (base e) + unat (len e)" "unat (base e) + unat (len e) \<le> 2 ^ 47"
    "high_last e \<le> 2 ^ 17"
proof -
  have "2 ^ 64 - 2 ^ 47 \<le> unat (hhdm_offset pf)" using b by (simp add: boot_base_def upper_half_def)
  moreover have "unat (virtual_base pf) < 2 ^ 64" using unsigned_less [of "virtual_base pf", where 'a = nat] by simp
  ultimately have l: "high_last e * 2 ^ 30 \<le> 2 ^ 47" using e by (simp add: high_entry_ok_def)
  then show "high_last e \<le> 2 ^ 17" by simp
  have "unat (base e) + unat (len e) \<le> high_last e * 2 ^ 30"
    unfolding high_last_def by (rule round_up_ge) simp
  with l show t: "unat (base e) + unat (len e) \<le> 2 ^ 47" by linarith
  then show "unat (base e + len e) = unat (base e) + unat (len e)" by (intro unat_add_no_wrap) simp
qed

lemma map_high_entry_exec:
  assumes b: "boot_base pf" and e: "high_entry_ok pf R B e" and n: "high_pages R B e \<noteq> 0"
  obtains first total where
    "map_high_entry pf R B dir e st = while_below
       (\<lambda>i. vmm_map pf dir (first + i + hhdm_offset pf) (first + i) 0x02 Size1GiB) total 0x40000000 0 st"
    "unat total = high_pages R B e * 2 ^ 30" "first = of_nat (high_first e * 2 ^ 30)" "high_pages R B e \<le> 2 ^ 17"
proof -
  have ty: "entry_type e \<noteq> R" "entry_type e \<noteq> B" and
    lt: "max (unat (base e)) (2 ^ 32) < unat (base e) + unat (len e)" and
    np: "high_pages R B e = high_last e - high_first e"
    using n by (auto simp: high_pages_def split: if_splits)
  note hb = high_bounds [OF b e ty]
  let ?b1 = "if base e < 0x100000000 then 0x100000000 else base e"
  have b1: "unat ?b1 = max (unat (base e)) (2 ^ 32)" by (auto simp: word_less_nat_alt max_def)
  then have nge: "\<not> base e + len e \<le> ?b1" using lt hb(1) by (simp only: word_le_nat_alt)
  define first where "first = ?b1 AND NOT (0x40000000 - 1)"
  have d: "align_down ?b1 0x40000000 = Inr first"
    unfolding first_def align_down_def using gib_power(1) by simp
  have fu: "unat first = high_first e * 2 ^ 30"
    unfolding first_def unat_align_mask [OF gib_power(1)] b1 gib_power(2) high_first_def
    by (metis minus_mod_eq_div_mult)
  obtain last where u: "align_up (base e + len e) 0x40000000 = Inr last"
    using align_up_exec [OF gib_power(1)] by blast
  have "unat last = (unat (base e + len e) + (unat (0x40000000 :: usize) - 1)) div unat (0x40000000 :: usize) * unat (0x40000000 :: usize)"
    using hb(1,2) gib_power(2) by (intro align_up_unat [OF gib_power(1) _ u]) simp
  then have lu: "unat last = high_last e * 2 ^ 30" unfolding hb(1) gib_power(2) high_last_def .
  have le: "high_first e \<le> high_last e" using n np by simp
  have "first \<le> last" unfolding word_le_nat_alt fu lu using le by simp
  then have "unat (last - first) = high_pages R B e * 2 ^ 30"
    unfolding np by (simp add: unat_sub fu lu diff_mult_distrib)
  moreover have "first = of_nat (high_first e * 2 ^ 30)" using arg_cong [OF fu, of "of_nat :: nat \<Rightarrow> usize"] by simp
  moreover have "map_high_entry pf R B dir e st = while_below
       (\<lambda>i. vmm_map pf dir (first + i + hhdm_offset pf) (first + i) 0x02 Size1GiB) (last - first) 0x40000000 0 st"
    unfolding map_high_entry_def Let_def using ty nge d u by simp
  moreover have "high_pages R B e \<le> 2 ^ 17" using np hb(3) by simp
  ultimately show ?thesis using that by blast
qed


lemma map_high_entry_space:
  assumes b: "boot_base pf" and sub: "S \<subseteq> {a. hh_ok pf a}" "T \<subseteq> {i. k_ok pf i}" and e: "high_entry_ok pf R B e"
    and sp: "space pf root S T lv st" and free: "4 * high_pages R B e \<le> free_count st"
  shows "\<exists>lv' st'. map_high_entry pf R B (hhdm_offset pf + root) e st = Some (Inr st')
    \<and> space pf root (S \<union> high_part R B e) T lv' st' \<and> free_count st \<le> free_count st' + 4 * high_pages R B e"
proof (cases "high_pages R B e = 0")
  case True
  have "map_high_entry pf R B (hhdm_offset pf + root) e st = Some (Inr st)"
  proof (cases "entry_type e = R \<or> entry_type e = B")
    case False
    note hb = high_bounds [OF b e]
    have "unat (base e) + unat (len e) \<le> max (unat (base e)) (2 ^ 32)"
    proof (rule ccontr)
      assume c: "\<not> unat (base e) + unat (len e) \<le> max (unat (base e)) (2 ^ 32)"
      with True False have "high_last e \<le> high_first e" by (auto simp: high_pages_def split: if_splits)
      moreover have "max (unat (base e)) (2 ^ 32) < high_last e * 2 ^ 30"
      proof -
        have "unat (base e) + unat (len e) \<le> high_last e * 2 ^ 30"
          unfolding high_last_def by (rule round_up_ge) simp
        with c show ?thesis by linarith
      qed
      moreover have "high_first e * 2 ^ 30 \<le> max (unat (base e)) (2 ^ 32)" unfolding high_first_def by simp
      ultimately show False using mult_le_mono1 [of "high_last e" "high_first e" "2 ^ 30"] by linarith
    qed
    then have "base e + len e \<le> (if base e < 0x100000000 then 0x100000000 else base e)"
      using hb(1) False by (auto simp: word_le_nat_alt word_less_nat_alt max_def split: if_splits)
    then show ?thesis using False unfolding map_high_entry_def Let_def by simp
  qed (auto simp: map_high_entry_def)
  with sp True show ?thesis by (auto simp: high_part_def)
next
  case False
  note part = high_part_ok [OF e]
  let ?f = "\<lambda>k. of_nat ((high_first e + k) * 2 ^ 30) :: usize"
  obtain first total where m: "map_high_entry pf R B (hhdm_offset pf + root) e st = while_below
       (\<lambda>i. vmm_map pf (hhdm_offset pf + root) (first + i + hhdm_offset pf) (first + i) 0x02 Size1GiB) total 0x40000000 0 st"
    and t: "unat total = high_pages R B e * 2 ^ 30" "high_pages R B e \<le> 2 ^ 17"
    and first: "first = of_nat (high_first e * 2 ^ 30)"
    by (rule map_high_entry_exec [OF b e False])
  let ?n = "(unat total + unat (0x40000000 :: usize) - 1) div unat (0x40000000 :: usize)"
  have n: "?n = high_pages R B e" unfolding t gib_power(2) by simp
  let ?P = "\<lambda>k s. \<exists>lv. space pf root (S \<union> ?f ` {..<k}) T lv s \<and> free_count st \<le> free_count s + 4 * k"
  have "\<exists>s'. while_below (\<lambda>i. vmm_map pf (hhdm_offset pf + root) (first + i + hhdm_offset pf) (first + i) 0x02 Size1GiB)
      total 0x40000000 0 st = Some (Inr s') \<and> ?P ?n s'"
  proof (rule while_below_inv [where P = ?P])
    show "unat total + unat (0x40000000 :: usize) \<le> 2 ^ 64" unfolding t gib_power(2) using t(2) by simp
    show "?P 0 st" using sp by auto
    fix k s assume k: "k < ?n" and "?P k s"
    then obtain lv1 where s: "space pf root (S \<union> ?f ` {..<k}) T lv1 s" "free_count st \<le> free_count s + 4 * k" by blast
    have "?f ` {..<k} \<subseteq> high_part R B e" "?f k \<in> high_part R B e"
      unfolding high_part_def using k n by (auto intro: image_mono)
    then have sub': "S \<union> ?f ` {..<k} \<subseteq> {a. hh_ok pf a}" and i: "?f k \<in> {a. hh_ok pf a}" using sub(1) part by blast+
    have f: "4 \<le> free_count s" using s(2) k free unfolding n by linarith
    have m: "first + of_nat k * 0x40000000 = ?f k" by (simp add: first algebra_simps)
    from space_hh [OF s(1) layout_ok [OF b] sub' sub(2) i f] obtain lv2 s2 where
      "vmm_map pf (hhdm_offset pf + root) (?f k + hhdm_offset pf) (?f k) 2 Size1GiB s = Some (Inr s2)"
      "space pf root (insert (?f k) (S \<union> ?f ` {..<k})) T lv2 s2" "free_count s \<le> free_count s2 + 4" by blast
    moreover have "insert (?f k) (S \<union> ?f ` {..<k}) = S \<union> ?f ` {..<Suc k}" by (simp add: lessThan_Suc)
    ultimately show "\<exists>s'. vmm_map pf (hhdm_offset pf + root) (first + of_nat k * 0x40000000 + hhdm_offset pf)
        (first + of_nat k * 0x40000000) 0x02 Size1GiB s = Some (Inr s') \<and> ?P (Suc k) s'"
      unfolding m using s(2) by (intro exI [of _ s2]) auto
  qed simp_all
  then show ?thesis unfolding n m high_part_def by auto
qed

text \<open>The first four gigabytes.\<close>

definition low_part :: "usize set" where
  "low_part = (\<lambda>k. of_nat (k * 2 ^ 30)) ` {..<4}"

lemma low_part_ok:
  assumes "boot_base pf"
  shows "low_part \<subseteq> {a. hh_ok pf a}"
proof
  fix a assume "a \<in> low_part"
  then obtain k where k: "a = of_nat (k * 2 ^ 30)" "k < 4" by (auto simp: low_part_def)
  have "(k + 1) * 2 ^ 30 \<le> 2 ^ 32" using k(2) by simp
  with assms have "unat (hhdm_offset pf) + (k + 1) * 2 ^ 30 \<le> unat (virtual_base pf)" by (simp add: boot_base_def)
  with k(1) show "a \<in> {a. hh_ok pf a}" unfolding hh_ok_def by blast
qed

lemma map_low_space:
  assumes b: "boot_base pf" and sp: "space pf root {} {} lv st" and free: "16 \<le> free_count st"
  shows "\<exists>lv' st'. while_below (\<lambda>i. vmm_map pf (hhdm_offset pf + root) (i + hhdm_offset pf) i VMM_FLAG_WRITE Size1GiB)
      0x100000000 0x40000000 0 st = Some (Inr st') \<and> space pf root low_part {} lv' st'
    \<and> free_count st \<le> free_count st' + 16"
proof -
  let ?f = "\<lambda>k. of_nat (k * 2 ^ 30) :: usize"
  let ?n = "(unat (0x100000000 :: usize) + unat (0x40000000 :: usize) - 1) div unat (0x40000000 :: usize)"
  let ?P = "\<lambda>k s. \<exists>lv. space pf root (?f ` {..<k}) {} lv s \<and> free_count st \<le> free_count s + 4 * k"
  have n: "?n = 4" by simp
  have "\<exists>s'. while_below (\<lambda>i. vmm_map pf (hhdm_offset pf + root) (i + hhdm_offset pf) i VMM_FLAG_WRITE Size1GiB)
      0x100000000 0x40000000 0 st = Some (Inr s') \<and> ?P ?n s'"
  proof (rule while_below_inv [where P = ?P])
    show "?P 0 st" using sp by auto
    fix k s assume k: "k < ?n" and "?P k s"
    then obtain lv1 where s: "space pf root (?f ` {..<k}) {} lv1 s" "free_count st \<le> free_count s + 4 * k" by blast
    have "?f ` {..<k} \<subseteq> low_part" "?f k \<in> low_part"
      unfolding low_part_def using k n by (auto intro: image_mono)
    then have sub': "?f ` {..<k} \<subseteq> {a. hh_ok pf a}" and i: "?f k \<in> {a. hh_ok pf a}" using low_part_ok [OF b] by blast+
    have f: "4 \<le> free_count s" using s(2) k free unfolding n by linarith
    have m: "of_nat k * 0x40000000 = ?f k" by simp
    from space_hh [OF s(1) layout_ok [OF b] sub' empty_subsetI i f] obtain lv2 s2 where
      "vmm_map pf (hhdm_offset pf + root) (?f k + hhdm_offset pf) (?f k) 2 Size1GiB s = Some (Inr s2)"
      "space pf root (insert (?f k) (?f ` {..<k})) {} lv2 s2" "free_count s \<le> free_count s2 + 4" by blast
    moreover have "insert (?f k) (?f ` {..<k}) = ?f ` {..<Suc k}" by (simp add: lessThan_Suc)
    ultimately show "\<exists>s'. vmm_map pf (hhdm_offset pf + root) (of_nat k * 0x40000000 + hhdm_offset pf)
        (of_nat k * 0x40000000) VMM_FLAG_WRITE Size1GiB s = Some (Inr s') \<and> ?P (Suc k) s'"
      unfolding m write_flags(6) using s(2) by (intro exI [of _ s2]) auto
  qed simp_all
  then show ?thesis unfolding n low_part_def by auto
qed


lemma map_kernel_space:
  assumes b: "boot_base pf" and S: "S \<subseteq> {a. hh_ok pf a}" and e: "\<forall>e\<in>set memmap. kernel_entry_ok pf K e"
    and sp: "space pf root S {} lv st" and free: "4 * sum_list (map (kernel_pages K) memmap) \<le> free_count st"
  shows "\<exists>st'. each (map_kernel_entry pf K (hhdm_offset pf + root)) memmap st = Some (Inr st')
    \<and> (\<exists>lv'. space pf root S ({} \<union> \<Union>(kernel_part K ` set memmap)) lv' st')
    \<and> free_count st \<le> free_count st' + 4 * sum_list (map (kernel_pages K) memmap)"
proof (rule each_accumulate [where U = "{i. k_ok pf i}"])
  show "kernel_part K x \<subseteq> {i. k_ok pf i}" if "x \<in> set memmap" for x
    by (rule kernel_part_ok) (use e that in blast)
  show "\<exists>s'. map_kernel_entry pf K (hhdm_offset pf + root) x s = Some (Inr s')
      \<and> (\<exists>lv'. space pf root S (A \<union> kernel_part K x) lv' s') \<and> free_count s \<le> free_count s' + 4 * kernel_pages K x"
    if "x \<in> set memmap" "\<exists>lv. space pf root S A lv s" "A \<subseteq> {i. k_ok pf i}" "4 * kernel_pages K x \<le> free_count s" for x A s
    using map_kernel_entry_space [OF b S that(3) _ _ that(4)] e that(1,2) by blast
qed (use sp free in auto)

lemma map_high_space:
  assumes b: "boot_base pf" and S: "S \<subseteq> {a. hh_ok pf a}" and T: "T \<subseteq> {i. k_ok pf i}"
    and e: "\<forall>e\<in>set memmap. high_entry_ok pf R B e"
    and sp: "space pf root S T lv st" and free: "4 * sum_list (map (high_pages R B) memmap) \<le> free_count st"
  shows "\<exists>st'. each (map_high_entry pf R B (hhdm_offset pf + root)) memmap st = Some (Inr st')
    \<and> (\<exists>lv'. space pf root (S \<union> \<Union>(high_part R B ` set memmap)) T lv' st')
    \<and> free_count st \<le> free_count st' + 4 * sum_list (map (high_pages R B) memmap)"
proof (rule each_accumulate [where U = "{a. hh_ok pf a}"])
  show "high_part R B x \<subseteq> {a. hh_ok pf a}" if "x \<in> set memmap" for x
    by (rule high_part_ok) (use e that in blast)
  show "\<exists>s'. map_high_entry pf R B (hhdm_offset pf + root) x s = Some (Inr s')
      \<and> (\<exists>lv'. space pf root (A \<union> high_part R B x) T lv' s') \<and> free_count s \<le> free_count s' + 4 * high_pages R B x"
    if "x \<in> set memmap" "\<exists>lv. space pf root A T lv s" "A \<subseteq> {a. hh_ok pf a}" "4 * high_pages R B x \<le> free_count s" for x A s
    using map_high_entry_space [OF b that(3) T _ _ that(4)] e that(1,2) by blast
qed (use sp free S in auto)

section \<open>The first directory\<close>

lemma fresh_space:
  assumes "paging_level pf \<noteq> OTHER_LEVEL" "pmm_inv (hhdm_offset pf) (pmm st)"
    "unat (highest_page_idx (pmm st)) \<le> 2 ^ 36" "is_1gib_supported st \<in> {Uninitialized, Initialized (gib_pages pf)}"
    "free_count st \<noteq> 0"
  shows "\<exists>q f st' lv. alloc_table pf st = (PhysicalPtr q, st') \<and> space pf q {} {} lv st'
    \<and> q = f * PAGE_SIZE \<and> f < highest_page_idx (pmm st) \<and> q \<noteq> 0 \<and> free_count st = Suc (free_count st')"
proof -
  let ?lev = "levels (paging_level pf)"
  have lev: "4 \<le> ?lev" using assms(1) by (cases "paging_level pf") auto
  obtain q st' where a: "alloc_table pf st = (PhysicalPtr q, st')" "table_frame pf st' q"
    and zero: "\<And>j. j < 512 \<Longrightarrow> tables_of pf st' q j = 0"
    and st': "pmm_inv (hhdm_offset pf) (pmm st')" "highest_page_idx (pmm st') = highest_page_idx (pmm st)"
      "is_1gib_supported st' = is_1gib_supported st" "free_count st = Suc (free_count st')"
    by (rule alloc_table_ok [OF assms(2,3) _ assms(5), of Map.empty]) auto
  let ?lv = "[q \<mapsto> ?lev]"
  have nolink: "\<not> links (tables_of pf st') ?lv p i" for p i
    using zero by (auto simp: links_def is_table_bits split: if_splits)
  have tree: "pt_tree (tables_of pf st') ?lv ?lev q"
    using zero lev nolink by (auto simp: pt_tree_def is_large_bits split: if_splits)
  have inv: "vm_inv pf ?lv q st'"
    using tree st' assms(3,4) a(2) by (auto simp: vm_inv_def split: if_splits)
  have none: "translate pf st' q va = None" for va
    using zero lev by (cases ?lev) (auto simp: translate_def Let_def)
  obtain f where f: "f < highest_page_idx (pmm st)" "q = f * PAGE_SIZE"
    using a(2) st'(2) by (auto simp: table_frame_def)
  have "q \<noteq> 0"
  proof -
    have c: "\<exists>n. n + unat (1 :: usize) \<le> unat (highest_page_idx (pmm st)) \<and> free_run (pmm st) n (unat (1 :: usize))"
    proof -
      obtain i where "i < highest_page_idx (pmm st)" "\<not> bitmap_test (pmm st) i"
        using assms(5) by (auto simp: free_count_def free_set_def)
      then show ?thesis by (intro exI [of _ "unat i"]) (simp add: free_run_1 word_less_nat_alt Suc_le_eq)
    qed
    from pmm_alloc_cases [OF assms(2), of 1, unfolded if_P [OF c]] a(1) show ?thesis
      by (auto simp: alloc_table_def)
  qed
  moreover have "space pf q {} {} ?lv st'" unfolding space_def Let_def using inv none by blast
  ultimately show ?thesis using a(1) f st'(4) by blast
qed


section \<open>What the address space maps\<close>

lemma page_split:
  fixes x :: u64 and k :: nat
  defines "y \<equiv> of_nat (unat x div 2 ^ k * 2 ^ k)"
  assumes "k < 64"
  shows "x = y + take_bit k x" and "take_bit k y = 0"
proof -
  have "unat x div 2 ^ k * 2 ^ k \<le> unat x" by simp
  also have "\<dots> < 2 ^ 64" using unsigned_less [of x, where 'a = nat] by simp
  finally have u: "unat y = unat x div 2 ^ k * 2 ^ k"
    unfolding y_def by (rule unat_of_nat64)
  have sum: "unat y + unat (take_bit k x) = unat x"
    by (simp only: u unat_take_bit div_mult_mod_eq)
  then have "unat (y + take_bit k x) = unat x"
    using unsigned_less [of x, where 'a = nat] by (subst unat_add_no_wrap) (simp_all only:)
  then show "x = y + take_bit k x" by (simp add: word_unat_eq_iff)
  show "take_bit k y = 0" unfolding aligned_unat u by simp
qed

lemma space_hh_addr:
  assumes b: "boot_base pf" and sp: "space pf root S T lv st" and a: "of_nat (unat a div 2 ^ 30 * 2 ^ 30) \<in> S"
  shows "translate pf st root (hhdm_offset pf + a) = Some (map_level pf Size1GiB, a, True, False, False)"
proof -
  define y where "y = (of_nat (unat a div 2 ^ 30 * 2 ^ 30) :: usize)"
  have y: "a = y + take_bit 30 a" "take_bit 30 y = 0" using page_split [of 30 a] by (simp_all add: y_def)
  let ?b = "y + hhdm_offset pf"
  have al: "take_bit 30 ?b = 0" using b y(2) by (simp add: aligned_add boot_base_def)
  have e: "hhdm_offset pf + a = ?b + take_bit 30 a" using y(1) by (simp add: add.commute add.left_commute)
  have "same_page (levels (paging_level pf)) 3 ?b (hhdm_offset pf + a)"
    unfolding e using al by (intro same_page_offset) simp_all
  with sp a have "translate pf st root (hhdm_offset pf + a)
      = Some (map_level pf Size1GiB, y + take_bit 30 (hhdm_offset pf + a), True, False, False)"
    unfolding space_def Let_def y_def by blast
  moreover have "take_bit 30 (hhdm_offset pf + a) = take_bit 30 a"
    unfolding e using al by (intro aligned_offset(1)) simp_all
  ultimately show ?thesis using y(1) by simp
qed

lemma space_kernel_addr:
  assumes b: "boot_base pf" and sp: "space pf root S T lv st" and i: "of_nat (unat i div 2 ^ 12 * 2 ^ 12) \<in> T"
  shows "translate pf st root (virtual_base pf + i) = Some (1, physical_base pf + i, True, False, False)"
proof -
  define y where "y = (of_nat (unat i div 2 ^ 12 * 2 ^ 12) :: usize)"
  have y: "i = y + take_bit 12 i" "take_bit 12 y = 0" using page_split [of 12 i] by (simp_all add: y_def)
  let ?b = "virtual_base pf + y"
  have al: "take_bit 12 ?b = 0" using b y(2) by (simp add: aligned_add boot_base_def)
  have e: "virtual_base pf + i = ?b + take_bit 12 i" using y(1) by (simp add: add.assoc)
  have "same_page (levels (paging_level pf)) 1 ?b (virtual_base pf + i)"
    unfolding e using al by (intro same_page_offset) simp_all
  with sp i have "translate pf st root (virtual_base pf + i)
      = Some (1, physical_base pf + y + take_bit 12 (virtual_base pf + i), True, False, False)"
    unfolding space_def Let_def y_def by blast
  moreover have "take_bit 12 (virtual_base pf + i) = take_bit 12 i"
    unfolding e using al by (intro aligned_offset(1)) simp_all
  ultimately show ?thesis using y(1) by (simp add: add.assoc)
qed

lemma low_addr: "a < 0x100000000 \<Longrightarrow> of_nat (unat a div 2 ^ 30 * 2 ^ 30) \<in> low_part" for a :: usize
proof -
  assume "a < 0x100000000"
  then have "unat a div 2 ^ 30 < 4" by (simp add: word_less_nat_alt)
  then show ?thesis unfolding low_part_def by blast
qed

lemma high_addr:
  assumes b: "boot_base pf" and e: "high_entry_ok pf R B e" "entry_type e \<noteq> R" "entry_type e \<noteq> B"
    and a: "base e \<le> a" "a < base e + len e" "\<not> a < 0x100000000"
  shows "of_nat (unat a div 2 ^ 30 * 2 ^ 30) \<in> high_part R B e"
proof -
  note hb = high_bounds [OF b e]
  have ua: "max (unat (base e)) (2 ^ 32) \<le> unat a" "unat a < unat (base e) + unat (len e)"
    using a hb(1) by (simp_all add: word_le_nat_alt word_less_nat_alt)
  define g where "g = unat a div 2 ^ 30"
  have lo: "high_first e \<le> g" unfolding high_first_def g_def using ua(1) by (rule div_le_mono)
  have "g * 2 ^ 30 \<le> unat a" by (simp add: g_def)
  moreover have "unat (base e) + unat (len e) \<le> high_last e * 2 ^ 30"
    unfolding high_last_def by (rule round_up_ge) simp
  ultimately have "g * 2 ^ 30 < high_last e * 2 ^ 30" using ua(2) by linarith
  then have hi: "g < high_last e" by simp
  have "\<not> unat (base e) + unat (len e) \<le> max (unat (base e)) (2 ^ 32)" using ua by linarith
  then have "high_pages R B e = high_last e - high_first e" using e(2,3) unfolding high_pages_def by (simp only: if_False simp_thms)
  then have "g - high_first e \<in> {..<high_pages R B e}" "g = high_first e + (g - high_first e)"
    using lo hi by simp_all
  then show ?thesis unfolding high_part_def g_def [symmetric] by (intro image_eqI [of _ _ "g - high_first e"]) simp_all
qed

lemma kernel_addr:
  assumes "entry_type e = K" "i < len e"
  shows "of_nat (unat i div 2 ^ 12 * 2 ^ 12) \<in> kernel_part K e"
proof -
  have "unat i < unat (len e)" using assms(2) by (simp add: word_less_nat_alt)
  then have "unat i div 4096 < kernel_pages K e" using assms(1) by (simp add: kernel_pages_def)
  then show ?thesis unfolding kernel_part_def by (intro image_eqI [of _ _ "unat i div 4096"]) simp_all
qed

section \<open>The recorded directory\<close>

text \<open>Mapping pages never changes the recorded kernel directory, whatever the tables look like.\<close>

definition keeps_dir :: "vmm_map_fn \<Rightarrow> bool" where
  "keeps_dir f \<longleftrightarrow> (\<forall>dir va pa flags sz st st'. f dir va pa flags sz st = Some (Inr st')
     \<longrightarrow> kernel_page_directory st' = kernel_page_directory st)"

lemma each_keeps:
  assumes "\<And>i s s'. body i s = Some (Inr s') \<Longrightarrow> g s' = g s" "each body is s = Some (Inr s')"
  shows "g s' = g s"
  using assms(2)
proof (induction "is" arbitrary: s)
  case (Cons i "is")
  then obtain s1 where "body i s = Some (Inr s1)" "each body is s1 = Some (Inr s')"
    by (auto simp: obind_eq_ok)
  with Cons.IH assms(1) [of i s s1] show ?case by simp
qed simp

lemma while_below_keeps:
  assumes "\<And>i s s'. body i s = Some (Inr s') \<Longrightarrow> g s' = g s" "while_below body limit step i s = Some (Inr s')"
  shows "g s' = g s"
proof -
  let ?K = "\<lambda>b :: usize \<Rightarrow> 'a \<Rightarrow> 'a res option. \<forall>i s s'. b i s = Some (Inr s') \<longrightarrow> g s' = g s"
  from assms(2) have "?K body \<longrightarrow> (\<forall>t. Inr s' = (Inr t :: 'a res) \<longrightarrow> g t = g s)"
  proof (rule while_below.raw_induct [rotated, where P = "\<lambda>b l st i s r. ?K b \<longrightarrow> (\<forall>s'. r = Inr s' \<longrightarrow> g s' = g s)"])
    fix f :: "(usize \<Rightarrow> 'a \<Rightarrow> 'a res option) \<Rightarrow> usize \<Rightarrow> usize \<Rightarrow> usize \<Rightarrow> 'a \<Rightarrow> 'a res option" and b l st i s y
    assume ih: "\<And>b l st i s y. f b l st i s = Some y \<Longrightarrow> ?K b \<longrightarrow> (\<forall>s'. y = Inr s' \<longrightarrow> g s' = g s)"
      and e: "(if i < l then obind (b i s) (f b l st (i + st)) else Some (Inr s)) = Some y"
    show "?K b \<longrightarrow> (\<forall>s'. y = Inr s' \<longrightarrow> g s' = g s)"
    proof (intro impI allI)
      fix s' assume h: "?K b" "y = Inr s'"
      show "g s' = g s"
      proof (cases "i < l")
        case True
        with e h(2) obtain s1 where "b i s = Some (Inr s1)" "f b l st (i + st) s1 = Some (Inr s')"
          by (auto simp: obind_eq_ok)
        with ih [of b l st "i + st" s1 "Inr s'"] h(1) show ?thesis by fastforce
      qed (use e h in simp)
    qed
  qed
  with assms(1) show ?thesis by blast
qed

lemma dir_ops_keep:
  "dir_set d i e st = Inr st' \<Longrightarrow> kernel_page_directory st' = kernel_page_directory st"
  "alloc_table pf st = (p, st') \<Longrightarrow> kernel_page_directory st' = kernel_page_directory st"
  "is_1gib_page_supported pf st = Inr (b, st') \<Longrightarrow> kernel_page_directory st' = kernel_page_directory st"
  by (auto simp: dir_set_def alloc_table_def is_1gib_page_supported_def split: if_splits prod.splits)

lemma next_dir_keeps:
  assumes f: "keeps_dir f" and r: "next_dir f pf dir va sz level entry st = Some (Inr (p, st'))"
  shows "kernel_page_directory st' = kernel_page_directory st"
proof -
  obtain q where g: "get_next_level f pf dir va sz level entry st = Some (Inr (q, st'))"
    using r by (auto simp: next_dir_def obind_eq_ok)
  obtain p1 st1 where a: "alloc_table pf st = (p1, st1)" by fastforce
  have e: "kernel_page_directory s' = kernel_page_directory s"
    if "each (\<lambda>i. f dir (x + i) (y + i) fl sz) is s = Some (Inr s')" for x y fl "is" s s'
    by (rule each_keeps [OF _ that]) (use f in \<open>auto simp: keeps_dir_def\<close>)
  show ?thesis
    using g unfolding get_next_level_def Let_def a split_conv
    by (auto simp: obind_eq_ok dir_ops_keep(1) dir_ops_keep(2) [OF a] split: if_splits dest!: e)
qed

lemma vmm_map_keeps: "keeps_dir (vmm_map pf)"
proof -
  have "\<forall>st'. r = Inr st' \<longrightarrow> kernel_page_directory st' = kernel_page_directory st"
    if "vmm_map pf dir va pa flags sz st = Some r" for dir va pa flags sz st r
    using that
  proof (rule vmm_map.raw_induct [rotated, where P = "\<lambda>pf dir va pa flags sz st r.
      \<forall>st'. r = Inr st' \<longrightarrow> kernel_page_directory st' = kernel_page_directory st"])
    fix f :: "platform \<Rightarrow> vmm_map_fn" and pf dir va pa flags0 sz st y
    assume ih: "\<And>pf dir va pa flags sz st y. f pf dir va pa flags sz st = Some y
        \<Longrightarrow> \<forall>st'. y = Inr st' \<longrightarrow> kernel_page_directory st' = kernel_page_directory st"
    then have k: "keeps_dir (f pf)" by (fastforce simp: keeps_dir_def)
    have e: "kernel_page_directory s' = kernel_page_directory s"
      if "each (\<lambda>i. f pf dir (x + i) (y + i) fl sz) is s = Some (Inr s')" for x y fl sz "is" s s'
      by (rule each_keeps [OF _ that]) (use k in \<open>auto simp: keeps_dir_def\<close>)
    note n = next_dir_keeps [OF k]
    show "(let flags = flags0 OR 0x01 in
      obind
        (case paging_level pf of
           FOUR_LEVEL \<Rightarrow> Some (Inr (dir, st))
         | FIVE_LEVEL \<Rightarrow> next_dir (f pf) pf dir va sz 4 (pml_entry 48 va) st
         | OTHER_LEVEL \<Rightarrow> Some (Inl (Panic ExplicitPanic))) (\<lambda>(pml4, st4).
      obind (next_dir (f pf) pf pml4 va sz 3 (pml_entry 39 va) st4) (\<lambda>(pml3, st3).
      if sz = Size1GiB then
        obind (Some (is_1gib_page_supported pf st3)) (\<lambda>(supported, st').
        if supported then Some (dir_set pml3 (pml_entry 30 va) (pa OR flags OR PT_FLAG_LARGE) st')
        else each (\<lambda>i. f pf dir (va + i) (pa + i) flags Size2MiB) (loop_offsets 0x40000000 0x200000) st')
      else
        obind (next_dir (f pf) pf pml3 va sz 2 (pml_entry 30 va) st3) (\<lambda>(pml2, st2).
        if sz = Size2MiB then Some (dir_set pml2 (pml_entry 21 va) (pa OR flags OR PT_FLAG_LARGE) st2)
        else
          obind (next_dir (f pf) pf pml2 va sz 1 (pml_entry 21 va) st2) (\<lambda>(pml1, st1).
          let flags' = (if flags AND push_bit 12 1 \<noteq> 0
                        then (flags AND NOT (push_bit 12 1)) OR push_bit 7 1 else flags)
          in Some (dir_set pml1 (pml_entry 12 va) (pa OR flags') st1)))))) = Some y
      \<Longrightarrow> \<forall>st'. y = Inr st' \<longrightarrow> kernel_page_directory st' = kernel_page_directory st"
      unfolding Let_def
      by (auto simp: obind_eq_ok split: if_splits paging_mode.splits
        dest!: n dir_ops_keep(1) dir_ops_keep(3) e)
  qed
  then show ?thesis by (auto simp: keeps_dir_def)
qed

lemma boot_loops_keep:
  "while_below (\<lambda>i. vmm_map pf dir (x i) (y i) fl sz) limit step j st = Some (Inr st')
    \<Longrightarrow> kernel_page_directory st' = kernel_page_directory st"
  "each (map_kernel_entry pf K dir) memmap st = Some (Inr st') \<Longrightarrow> kernel_page_directory st' = kernel_page_directory st"
  "each (map_high_entry pf R B dir) memmap st = Some (Inr st') \<Longrightarrow> kernel_page_directory st' = kernel_page_directory st"
proof -
  have w: "kernel_page_directory st' = kernel_page_directory st"
    if "while_below (\<lambda>i. vmm_map pf dir (x i) (y i) fl sz) limit step j st = Some (Inr st')"
    for x y fl sz limit step j st st'
    by (rule while_below_keeps [OF _ that]) (use vmm_map_keeps [of pf] in \<open>auto simp: keeps_dir_def\<close>)
  show "while_below (\<lambda>i. vmm_map pf dir (x i) (y i) fl sz) limit step j st = Some (Inr st')
    \<Longrightarrow> kernel_page_directory st' = kernel_page_directory st" by (rule w)
  show "each (map_kernel_entry pf K dir) memmap st = Some (Inr st') \<Longrightarrow> kernel_page_directory st' = kernel_page_directory st"
    by (rule each_keeps [where body = "map_kernel_entry pf K dir"]) (auto simp: map_kernel_entry_def split: if_splits dest: w)
  show "each (map_high_entry pf R B dir) memmap st = Some (Inr st') \<Longrightarrow> kernel_page_directory st' = kernel_page_directory st"
    by (rule each_keeps [where body = "map_high_entry pf R B dir"])
      (auto simp: map_high_entry_def Let_def obind_eq_ok split: if_splits dest: w)
qed

lemma space_upd:
  "space pf root S T lv (st\<lparr>kernel_page_directory := d\<rparr>) = space pf root S T lv st"
  "free_count (st\<lparr>kernel_page_directory := d\<rparr>) = free_count st"
  "translate pf (st\<lparr>cr3 := c\<rparr>) root va = translate pf st root va"
proof -
  have "tables_of pf (st\<lparr>kernel_page_directory := d\<rparr>) = tables_of pf st"
    "table_frame pf (st\<lparr>kernel_page_directory := d\<rparr>) = table_frame pf st"
    by (simp_all add: tables_of_def table_frame_def fun_eq_iff)
  then show "space pf root S T lv (st\<lparr>kernel_page_directory := d\<rparr>) = space pf root S T lv st"
    by (simp add: space_def Let_def vm_inv_def translate_def)
  have "tables_of pf (st\<lparr>cr3 := c\<rparr>) = tables_of pf st" by (simp add: tables_of_def fun_eq_iff)
  then show "translate pf (st\<lparr>cr3 := c\<rparr>) root va = translate pf st root va" by (simp add: translate_def)
qed (simp add: free_count_def)

lemma switch_to_directory:
  assumes "q = f * PAGE_SIZE" "f < h" "q \<noteq> 0" "unat h \<le> 2 ^ 36"
    "unat (hhdm_offset pf) + unat h * 4096 \<le> unat (virtual_base pf)"
  shows "va_space_switch pf (hhdm_offset pf + q) st = st\<lparr>cr3 := q\<rparr>"
proof -
  have f: "unat f < unat h" using assms(2) by (simp add: word_less_nat_alt)
  then have q: "unat q = unat f * 4096" using assms(1,4) page_addr_val [of f] by simp
  have "unat (virtual_base pf) < 2 ^ 64" using unsigned_less [of "virtual_base pf", where 'a = nat] by simp
  then have d: "unat (hhdm_offset pf + q) = unat (hhdm_offset pf) + unat q"
    using assms(5) f q by (intro unat_add_no_wrap) simp
  have "\<not> virtual_base pf < hhdm_offset pf + q" unfolding word_less_nat_alt d using assms(5) f q by simp
  moreover have "0 < unat q" using assms(3) by (simp add: unat_gt_0)
  then have "hhdm_offset pf < hhdm_offset pf + q" unfolding word_less_nat_alt d by simp
  ultimately show ?thesis by (simp add: va_space_switch_def Let_def)
qed

section \<open>A small machine\<close>

text \<open>64 pages, of which page 0 is used, the bitmap at \<open>2 ^ 32\<close>, and the usual addresses of the boot loader.\<close>

definition demo_platform :: platform where
  "demo_platform = \<lparr>hhdm_offset = 0xffff800000000000, paging_level = FOUR_LEVEL, cpuid_edx = 0,
     physical_base = 0x200000, virtual_base = 0xffffffff80000000\<rparr>"

definition demo_boot :: vmm_state where
  "demo_boot = \<lparr>pmm = \<lparr>bitmap = 2 ^ 32, highest_page_idx = 64, last_used_page_idx = 0, usable_pages = 63,
     used_pages = 0, ram = (\<lambda>_. 0)(2 ^ 32 := 1)\<rparr>, is_1gib_supported = once_new, kernel_page_directory = 0, cr3 = 0\<rparr>"

lemma demo_boot_test:
  assumes "i < (64 :: usize)"
  shows "bitmap_test (pmm demo_boot) i \<longleftrightarrow> i = 0"
proof -
  have e: "(2 ^ 32 + i div 8 = 2 ^ 32) \<longleftrightarrow> i div 8 = 0" by simp
  have "bitmap_test (pmm demo_boot) i \<longleftrightarrow> i div 8 = 0 \<and> unat (i mod 8) = 0"
    unfolding bitmap_test_bit by (simp add: demo_boot_def e bit_1_iff)
  also have "\<dots> \<longleftrightarrow> i = 0"
    using same_bit [of i 0] by simp
  finally show ?thesis .
qed

lemma demo_boot_inv: "pmm_inv (hhdm_offset demo_platform) (pmm demo_boot)"
proof -
  have "(2 ^ 32 :: u64) + j div 8 \<noteq> 0xffff800000000000 + i * 4096 + of_nat k" if "i < 64" "j < 64" "k < 4096" for i j :: usize and k
  proof -
    have i: "unat i < 64" "unat j < 64" using that by (simp_all add: word_less_nat_alt)
    have "unat (i * 4096) = unat i * 4096" using i by (simp add: unat_word_ariths)
    then have "unat (0xffff800000000000 + i * 4096) = 0xffff800000000000 + unat i * 4096"
      using i by (subst unat_add_no_wrap) simp_all
    then have "unat (0xffff800000000000 + i * 4096 + of_nat k) = 0xffff800000000000 + unat i * 4096 + k"
      using i that by (subst unat_add_no_wrap) (simp_all add: unat_of_nat64)
    moreover have "unat (2 ^ 32 + j div 8) = 2 ^ 32 + unat j div 8"
      using i by (subst unat_add_no_wrap) (simp_all add: unat_div_distrib)
    moreover have "2 ^ 32 + unat j div 8 < 0xffff800000000000 + unat i * 4096 + k" using i by simp
    ultimately show ?thesis by (metis nat_neq_iff)
  qed
  moreover have "bitmap_test (pmm demo_boot) 0" by (simp add: demo_boot_test)
  ultimately show ?thesis
    by (simp add: pmm_inv_def demo_boot_def demo_platform_def PAGE_SIZE_def)
qed

lemma demo_boot_free: "63 \<le> free_count demo_boot"
proof -
  have "(of_nat :: nat \<Rightarrow> usize) ` {1..<64} \<subseteq> free_set (pmm demo_boot)"
  proof
    fix i :: usize assume "i \<in> of_nat ` {1..<64}"
    then obtain n where n: "i = of_nat n" "1 \<le> n" "n < 64" by auto
    then have u: "unat i = n" by (simp add: unat_of_nat64)
    then have "i < 64" "i \<noteq> 0" using n by (auto simp: word_less_nat_alt)
    then show "i \<in> free_set (pmm demo_boot)"
      using demo_boot_test [of i] by (simp add: free_set_def) (simp add: demo_boot_def)
  qed
  moreover have "card ((of_nat :: nat \<Rightarrow> usize) ` {1..<64}) = 63"
    by (subst card_image) (auto intro!: inj_onI dest: of_nat_word_inj [rotated 2])
  ultimately show ?thesis
    unfolding free_count_def using card_mono [of "free_set (pmm demo_boot)"] by (metis finite)
qed

lemma demo_boot_cell: "is_1gib_supported demo_boot = Uninitialized"
  by (simp add: demo_boot_def once_defs)

section \<open>Properties\<close>

text \<open>C4: mapping a page. When no larger page is in the way, enough pages are free for the missing tables and the
  addresses are aligned, \<open>vmm_map\<close> returns; afterwards the processor translates the addresses of
  the page to the physical page with the given permissions, every other address as
  before, the tables still form a tree of used pages, and exactly the missing tables were allocated. This holds for four and
  five levels and all three page sizes, also when a gigabyte page has to be split because the processor does not
  support it.\<close>

theorem vmm_map_maps:
  assumes "can_map pf lv root va pa flags sz st"
  shows "\<exists>lv' st'. vmm_map pf (hhdm_offset pf + root) va pa flags sz st = Some (Inr st') \<and> vm_inv pf lv' root st'
    \<and> (\<forall>va'. translate pf st' root va' =
        (if same_page (levels (paging_level pf)) (leaf_level sz) va va'
         then Some (map_level pf sz, pa + take_bit (lvl_shift (leaf_level sz)) va', bit flags 1, bit flags 2, bit flags 63)
         else translate pf st root va'))
    \<and> free_count st' + missing (tables_of pf st) (levels (paging_level pf) - map_level pf sz) (levels (paging_level pf)) root va
        = free_count st"
  using vmm_map_post [OF assms] unfolding map_post_def Let_def by blast

text \<open>The first directory of the small machine.\<close>

definition demo_root :: u64 where
  "demo_root = physical_addr (fst (alloc_table demo_platform demo_boot))"

definition demo_tables :: vmm_state where
  "demo_tables = snd (alloc_table demo_platform demo_boot)"

lemma demo_tables_space: "\<exists>lv. space demo_platform demo_root {} {} lv demo_tables" and demo_tables_free: "62 \<le> free_count demo_tables"
proof -
  have "paging_level demo_platform \<noteq> OTHER_LEVEL" "unat (highest_page_idx (pmm demo_boot)) \<le> 2 ^ 36" "free_count demo_boot \<noteq> 0"
    using demo_boot_free by (simp_all add: demo_platform_def demo_boot_def)
  with fresh_space [OF _ demo_boot_inv] demo_boot_cell obtain q st' lv where
    "alloc_table demo_platform demo_boot = (PhysicalPtr q, st')" "space demo_platform q {} {} lv st'"
    "free_count demo_boot = Suc (free_count st')" by blast
  then show "\<exists>lv. space demo_platform demo_root {} {} lv demo_tables" "62 \<le> free_count demo_tables"
    using demo_boot_free by (auto simp: demo_root_def demo_tables_def)
qed

theorem vmm_map_maps_witness:
  "\<exists>st'. vmm_map demo_platform (0xffff800000000000 + demo_root) 0x40000000 0x3000 2 Size4KiB demo_tables = Some (Inr st')
    \<and> translate demo_platform st' demo_root 0x40000123 = Some (1, 0x3123, True, False, False)"
proof -
  obtain lv where sp: "space demo_platform demo_root {} {} lv demo_tables" using demo_tables_space by blast
  let ?lev = "levels (paging_level demo_platform)"
  have none: "translate demo_platform demo_tables demo_root va = None" for va
    using sp by (simp add: space_def Let_def)
  have "missing (tables_of demo_platform demo_tables) (?lev - map_level demo_platform Size4KiB) ?lev demo_root 0x40000000 \<le> 5"
    using missing_le levels_le [of demo_platform "map_level demo_platform Size4KiB"] by (meson diff_le_self le_trans)
  then have "can_map demo_platform lv demo_root 0x40000000 0x3000 2 Size4KiB demo_tables"
    using sp none demo_tables_free by (intro can_map_write) (simp_all add: space_def Let_def take_bit_eq_mod)
  from vmm_map_maps [OF this] obtain st' where
    v: "vmm_map demo_platform (hhdm_offset demo_platform + demo_root) 0x40000000 0x3000 2 Size4KiB demo_tables = Some (Inr st')"
    and t: "\<forall>va'. translate demo_platform st' demo_root va' =
        (if same_page ?lev (leaf_level Size4KiB) 0x40000000 va'
         then Some (map_level demo_platform Size4KiB, 0x3000 + take_bit (lvl_shift (leaf_level Size4KiB)) va', bit (2 :: u64) 1, bit (2 :: u64) 2, bit (2 :: u64) 63)
         else translate demo_platform demo_tables demo_root va')" by blast
  have "same_page ?lev 1 0x40000000 0x40000123"
    by (rule same_page_drop) (simp add: drop_bit_eq_div)
  with t have "translate demo_platform st' demo_root 0x40000123 = Some (1, 0x3123, True, False, False)"
    using write_flags(1-3) by (simp add: map_level_def take_bit_eq_mod)
  with v show ?thesis by (auto simp: demo_platform_def)
qed

definition boot_ok :: "platform \<Rightarrow> 'ty \<Rightarrow> 'ty \<Rightarrow> 'ty \<Rightarrow> 'ty memmap_entry list \<Rightarrow> bool" where
  "boot_ok pf K R B memmap \<longleftrightarrow> boot_base pf \<and> (\<forall>e\<in>set memmap. kernel_entry_ok pf K e \<and> high_entry_ok pf R B e)"

text \<open>C3: the address space of the kernel. For a boot layout whose higher-half map ends below the kernel, \<open>vmm_init\<close> returns, the page
  directory it loads is the one it built, and the processor then translates the higher-half address of every byte below
  four gigabytes and of every byte of the memory map that is neither reserved nor bad to that byte, and
  every address of the kernel image to its place in physical memory, all writable and executable in kernel mode only.\<close>

theorem vmm_init_maps:
  assumes ok: "boot_ok pf K R B memmap" and pinv: "pmm_inv (hhdm_offset pf) (pmm st)"
    and hi: "unat (highest_page_idx (pmm st)) \<le> 2 ^ 36"
      "unat (hhdm_offset pf) + unat (highest_page_idx (pmm st)) * 4096 \<le> unat (virtual_base pf)"
    and cell: "is_1gib_supported st = Uninitialized"
    and free: "17 + 4 * sum_list (map (kernel_pages K) memmap) + 4 * sum_list (map (high_pages R B) memmap) \<le> free_count st"
  shows "\<exists>st'. vmm_init pf K R B memmap st = Some (Inr st') \<and> get_kernel_pdpt st' = hhdm_offset pf + cr3 st'
    \<and> (\<forall>a. a < 0x100000000 \<longrightarrow> translate pf st' (cr3 st') (hhdm_offset pf + a)
        = Some (map_level pf Size1GiB, a, True, False, False))
    \<and> (\<forall>e\<in>set memmap. entry_type e \<noteq> R \<and> entry_type e \<noteq> B \<longrightarrow> (\<forall>a. base e \<le> a \<and> a < base e + len e \<longrightarrow>
        translate pf st' (cr3 st') (hhdm_offset pf + a) = Some (map_level pf Size1GiB, a, True, False, False)))
    \<and> (\<forall>e\<in>set memmap. entry_type e = K \<longrightarrow> (\<forall>i. i < len e \<longrightarrow>
        translate pf st' (cr3 st') (virtual_base pf + i) = Some (1, physical_base pf + i, True, False, False)))"
proof -
  let ?h = "hhdm_offset pf"
  have b: "boot_base pf" and es: "\<forall>e\<in>set memmap. kernel_entry_ok pf K e" "\<forall>e\<in>set memmap. high_entry_ok pf R B e"
    using ok by (auto simp: boot_ok_def)
  have "free_count st \<noteq> 0" using free by simp
  moreover have "paging_level pf \<noteq> OTHER_LEVEL" using b by (simp add: boot_base_def)
  ultimately obtain q f st0 lv where a: "alloc_table pf st = (PhysicalPtr q, st0)" "space pf q {} {} lv st0"
    "q = f * PAGE_SIZE" "f < highest_page_idx (pmm st)" "q \<noteq> 0" "free_count st = Suc (free_count st0)"
    using fresh_space [OF _ pinv hi(1)] cell by blast
  define st1 where "st1 = st0\<lparr>kernel_page_directory := ?h + q\<rparr>"
  have sp1: "space pf q {} {} lv st1" and f1: "free_count st = Suc (free_count st1)"
    using a by (simp_all add: st1_def space_upd)
  have "16 \<le> free_count st1" using free f1 by simp
  from map_low_space [OF b sp1 this] obtain lv2 st2 where
    low: "while_below (\<lambda>i. vmm_map pf (?h + q) (i + ?h) i VMM_FLAG_WRITE Size1GiB) 0x100000000 0x40000000 0 st1 = Some (Inr st2)"
    and sp2: "space pf q low_part {} lv2 st2" and f2: "free_count st1 \<le> free_count st2 + 16" by blast
  have "4 * sum_list (map (kernel_pages K) memmap) \<le> free_count st2" using free f1 f2 by simp
  from map_kernel_space [OF b low_part_ok [OF b] es(1) sp2 this] obtain lv3 st3 where
    ker: "each (map_kernel_entry pf K (?h + q)) memmap st2 = Some (Inr st3)"
    and sp3: "space pf q low_part (\<Union>(kernel_part K ` set memmap)) lv3 st3"
    and f3: "free_count st2 \<le> free_count st3 + 4 * sum_list (map (kernel_pages K) memmap)" by auto
  have "4 * sum_list (map (high_pages R B) memmap) \<le> free_count st3" using free f1 f2 f3 by simp
  moreover have "\<Union>(kernel_part K ` set memmap) \<subseteq> {i. k_ok pf i}" by (intro UN_least kernel_part_ok) (use es(1) in blast)
  ultimately obtain lv4 st4 where
    high: "each (map_high_entry pf R B (?h + q)) memmap st3 = Some (Inr st4)"
    and sp4: "space pf q (low_part \<union> \<Union>(high_part R B ` set memmap)) (\<Union>(kernel_part K ` set memmap)) lv4 st4"
    using map_high_space [OF b low_part_ok [OF b] _ es(2) sp3] by blast
  have st': "vmm_init pf K R B memmap st = Some (Inr (st4\<lparr>cr3 := q\<rparr>))"
    unfolding vmm_init_def Let_def a(1) split_conv higher_half_addr st1_def [symmetric]
    by (simp add: low ker high switch_to_directory [OF a(3,4,5) hi])
  have "kernel_page_directory st4 = ?h + q"
    using boot_loops_keep(1) [OF low] boot_loops_keep(2) [OF ker] boot_loops_keep(3) [OF high] by (simp add: st1_def)
  moreover have lo: "translate pf st4 q (?h + a) = Some (map_level pf Size1GiB, a, True, False, False)"
    if "a < 0x100000000" for a
    using low_addr [OF that] by (intro space_hh_addr [OF b sp4]) blast
  moreover have "translate pf st4 q (?h + a) = Some (map_level pf Size1GiB, a, True, False, False)"
    if "e \<in> set memmap" "entry_type e \<noteq> R" "entry_type e \<noteq> B" "base e \<le> a" "a < base e + len e" for e a
  proof (cases "a < 0x100000000")
    case False
    from high_addr [OF b _ that(2-5) False] es(2) that(1) show ?thesis
      by (intro space_hh_addr [OF b sp4]) blast
  qed (rule lo)
  moreover have "translate pf st4 q (virtual_base pf + i) = Some (1, physical_base pf + i, True, False, False)"
    if "e \<in> set memmap" "entry_type e = K" "i < len e" for e i
    using kernel_addr [OF that(2,3)] that(1) by (intro space_kernel_addr [OF b sp4]) blast
  ultimately show ?thesis
    using st' by (intro exI [of _ "st4\<lparr>cr3 := q\<rparr>"]) (simp add: space_upd get_kernel_pdpt_def)
qed


text \<open>A memory map with a kernel image of three pages and a gigabyte of memory behind the first four.\<close>

definition demo_memmap :: "nat memmap_entry list" where
  "demo_memmap = [\<lparr>base = 0x200000, len = 0x3000, entry_type = 6\<rparr>, \<lparr>base = 0x100000000, len = 0x40000000, entry_type = 0\<rparr>]"

theorem vmm_init_maps_witness:
  "\<exists>st'. vmm_init demo_platform 6 1 5 demo_memmap demo_boot = Some (Inr st')
    \<and> translate demo_platform st' (cr3 st') 0xffff8000fee00000 = Some (2, 0xfee00000, True, False, False)
    \<and> translate demo_platform st' (cr3 st') 0xffffffff80002abc = Some (1, 0x202abc, True, False, False)"
proof -
  have base: "boot_base demo_platform"
    by (simp add: boot_base_def demo_platform_def upper_half_def take_bit_eq_mod)
  have ok: "boot_ok demo_platform 6 1 5 demo_memmap"
    using base by (simp add: boot_ok_def demo_memmap_def kernel_entry_ok_def high_entry_ok_def high_last_def)
      (simp add: demo_platform_def)
  have hi: "unat (highest_page_idx (pmm demo_boot)) \<le> 2 ^ 36"
    "unat (hhdm_offset demo_platform) + unat (highest_page_idx (pmm demo_boot)) * 4096 \<le> unat (virtual_base demo_platform)"
    by (simp_all add: demo_boot_def demo_platform_def)
  have free: "17 + 4 * sum_list (map (kernel_pages 6) demo_memmap) + 4 * sum_list (map (high_pages 1 5) demo_memmap)
      \<le> free_count demo_boot"
    using demo_boot_free by (simp add: demo_memmap_def kernel_pages_def high_pages_def high_last_def high_first_def)
  from vmm_init_maps [OF ok demo_boot_inv hi demo_boot_cell free] obtain st' where st': "vmm_init demo_platform 6 1 5 demo_memmap demo_boot = Some (Inr st')"
    and lo: "\<forall>a. a < 0x100000000 \<longrightarrow> translate demo_platform st' (cr3 st') (hhdm_offset demo_platform + a)
        = Some (map_level demo_platform Size1GiB, a, True, False, False)"
    and ker: "\<forall>e\<in>set demo_memmap. entry_type e = 6 \<longrightarrow> (\<forall>i. i < len e \<longrightarrow>
        translate demo_platform st' (cr3 st') (virtual_base demo_platform + i) = Some (1, physical_base demo_platform + i, True, False, False))"
    by blast
  have k: "i < 0x3000 \<Longrightarrow> translate demo_platform st' (cr3 st') (virtual_base demo_platform + i)
      = Some (1, physical_base demo_platform + i, True, False, False)" for i
    using ker by (simp add: demo_memmap_def)
  have l: "a < 0x100000000 \<Longrightarrow> translate demo_platform st' (cr3 st') (hhdm_offset demo_platform + a)
        = Some (map_level demo_platform Size1GiB, a, True, False, False)" for a
    using lo by blast
  have "translate demo_platform st' (cr3 st') 0xffff8000fee00000 = Some (2, 0xfee00000, True, False, False)"
    using l [of "0xfee00000"] by (simp add: demo_platform_def map_level_def gib_pages_def)
  moreover have "translate demo_platform st' (cr3 st') 0xffffffff80002abc = Some (1, 0x202abc, True, False, False)"
    using k [of "0x2abc"] by (simp add: demo_platform_def)
  ultimately show ?thesis using st' by blast
qed

end
