(* ===== verification/Stack_Trace.thy ===== *)
theory Stack_Trace
  imports Mem Uuid Dyn_Vfs
begin

text \<open>
  The stack trace of a panic, \<^verbatim>\<open>src/arch/x86_64/stack_trace.rs\<close>: the walk along the saved frame pointers and the search for the
  function an address belongs to in the table of symbols, which is a file of the initial RAM disk. The log lines are
  texts; the memory and the offset of the higher half are arguments.
\<close>

section \<open>Texts\<close>

text \<open>\<^verbatim>\<open>u64::from_str_radix(_, 16)\<close>.\<close>

definition parse_hex :: "utext \<Rightarrow> u64 option" where
  "parse_hex s =
     (if list_all (\<lambda>c. c < 128) s then map_option of_nat (from_str_radix16 64 (map char_of s)) else None)"

text \<open>\<^verbatim>\<open>str::lines\<close>: a line end is a newline, with or without a carriage return in front of it.\<close>

definition strip_return :: "utext \<Rightarrow> utext" where
  "strip_return l = (if l \<noteq> [] \<and> last l = 13 then butlast l else l)"

definition text_lines :: "utext \<Rightarrow> utext list" where
  "text_lines s =
     (let ps = split_on 10 s in map strip_return (butlast ps) @ (if last ps = [] then [] else [last ps]))"

text \<open>\<^verbatim>\<open>str::splitn(2, ' ')\<close>, as the pair when there are two parts.\<close>

definition split_space :: "utext \<Rightarrow> (utext \<times> utext) option" where
  "split_space s =
     (if 32 \<in> set s then Some (takeWhile (\<lambda>c. c \<noteq> 32) s, tl (dropWhile (\<lambda>c. c \<noteq> 32) s)) else None)"

section \<open>Symbols\<close>

fun symbol_loop ::
    "u64 \<Rightarrow> nat \<Rightarrow> nat \<Rightarrow> (utext \<times> u64) option \<Rightarrow> utext list \<Rightarrow> (utext \<times> u64) res" where
  "symbol_loop function_address n i previous_symbol [] = Inl ErrUnit"
| "symbol_loop function_address n i previous_symbol (line # lines) =
     (case split_space line of
        None \<Rightarrow> symbol_loop function_address n (Suc i) previous_symbol lines
      | Some (addr_text, function_name) \<Rightarrow>
          case parse_hex addr_text of
            None \<Rightarrow> Inl ErrUnit
          | Some address \<Rightarrow>
              if address = function_address then Inr (function_name, 0)
              else if i = n - 1 then Inr (function_name, function_address - address)
              else if i = 0 then
                if function_address < address then Inl ErrUnit
                else symbol_loop function_address n (Suc i) (Some (function_name, address)) lines
              else case previous_symbol of
                  Some prev \<Rightarrow>
                    if function_address > snd prev \<and> function_address < address
                    then Inr (fst prev, address - snd prev)
                    else symbol_loop function_address n (Suc i) (Some (function_name, address)) lines
                | None \<Rightarrow> symbol_loop function_address n (Suc i) (Some (function_name, address)) lines)"

definition find_symbol :: "u8 list \<Rightarrow> u64 \<Rightarrow> (utext \<times> u64) res" where
  "find_symbol symbols_table_bytes function_address =
     (case utf8_decode symbols_table_bytes of
        None \<Rightarrow> Inl ErrUnit
      | Some symbols_table \<Rightarrow>
          let lines = text_lines symbols_table in symbol_loop function_address (length lines) 0 None lines)"

text \<open>The file is opened, read and dropped again; its reference count is the same afterwards.\<close>

definition get_function_name ::
    "('fs, 'ino, 'box) dyn_ops \<Rightarrow> u64 \<Rightarrow> ('fs, 'ino) vfs_state \<Rightarrow> (('fs, 'ino) vfs_state, utext \<times> u64) io" where
  "get_function_name ops function_address s =
     io_bind (dyn_vfs_open ops (ascii ''/symbols.table'') s) (\<lambda>p s1.
     io_bind (read_whole ops p 0 s1) (\<lambda>r s2.
       Some (rbind r (\<lambda>bytes. find_symbol bytes function_address), s2)))"

section \<open>Frames\<close>

record stack_frame =
  sf_back :: usize
  sf_rip :: usize

definition frame_read :: "memory \<Rightarrow> usize \<Rightarrow> stack_frame" where
  "frame_read m a = (let bs = virtual_read 16 m (VirtualPtr a) in
     \<lparr>sf_back = of_nat (le_val (take 8 bs)), sf_rip = of_nat (le_val (drop 8 bs))\<rparr>)"

text \<open>The instruction pointers of the trace, and the frame at which the walk stopped.\<close>

fun walk_frames :: "memory \<Rightarrow> usize \<Rightarrow> nat \<Rightarrow> usize \<Rightarrow> usize list \<times> usize" where
  "walk_frames m hhdm 0 stackframe = ([], stackframe)"
| "walk_frames m hhdm (Suc n) stackframe =
     (if stackframe = 0 then ([], stackframe)
      else
        let f = frame_read m stackframe; (rest, final) = walk_frames m hhdm n (sf_back f) in
        (if sf_rip f < hhdm then rest else sf_rip f # rest, final))"

definition show_hex_text :: "u64 \<Rightarrow> utext" where
  "show_hex_text a = ascii ''0x'' @ ascii (show_hex (unat a))"

text \<open>\<open>lookup\<close> is what \<^verbatim>\<open>get_function_name\<close> finds for an address, if anything.\<close>

definition trace_line :: "(u64 \<Rightarrow> (utext \<times> u64) option) \<Rightarrow> usize \<Rightarrow> utext" where
  "trace_line lookup instruction_ptr =
     show_hex_text instruction_ptr @ [32] @
     (case lookup instruction_ptr of
        Some (function_name, function_offset) \<Rightarrow> ascii ''<'' @ function_name @ ascii ''+'' @ show_hex_text function_offset @ ascii ''>''
      | None \<Rightarrow> [])"

definition rule_line :: "utext \<Rightarrow> utext" where
  "rule_line title = (let k = 98 - length title in replicate (k div 2) 0x2500 @ title @ replicate (k - k div 2) 0x2500)"

definition print_stack_trace :: "memory \<Rightarrow> usize \<Rightarrow> (u64 \<Rightarrow> (utext \<times> u64) option) \<Rightarrow> nat \<Rightarrow> u64 \<Rightarrow> utext list" where
  "print_stack_trace m hhdm lookup max_frames rbp =
     (let (rips, final) = walk_frames m hhdm max_frames rbp in
      [rule_line (ascii '' Stack Trace '')] @ map (trace_line lookup) rips
        @ (if final \<noteq> 0 then [ascii ''... <frames omitted>''] else []))"

section \<open>What the trace shows\<close>

text \<open>A chain of frames in memory, ended by a null pointer: the instruction pointer and the address of each.\<close>

fun frame_chain :: "memory \<Rightarrow> usize \<Rightarrow> usize list \<Rightarrow> bool" where
  "frame_chain m a [] \<longleftrightarrow> a = 0"
| "frame_chain m a (rip # rips) \<longleftrightarrow> a \<noteq> 0
     \<and> (\<exists>back. mem_read m a 16 = to_le 8 (unat back) @ to_le 8 (unat rip) \<and> frame_chain m back rips)"

lemma frame_read_written:
  assumes "mem_read m a 16 = to_le 8 (unat back) @ to_le 8 (unat rip)"
  shows "frame_read m a = \<lparr>sf_back = back, sf_rip = rip\<rparr>"
  using assms by (simp add: frame_read_def virtual_read_def le_val_to_le_unat Let_def)

lemma walk_frames_chain:
  assumes "frame_chain m a rips"
  shows "\<exists>final. walk_frames m hhdm n a = (filter (\<lambda>r. hhdm \<le> r) (take n rips), final) \<and> (final = 0 \<longleftrightarrow> length rips \<le> n)"
  using assms
proof (induction n arbitrary: a rips)
  case 0
  then show ?case by (cases rips) auto
next
  case (Suc n)
  show ?case
  proof (cases rips)
    case Nil
    with Suc show ?thesis by simp
  next
    case (Cons r rs)
    with Suc.prems obtain bk where b: "a \<noteq> 0" "frame_read m a = \<lparr>sf_back = bk, sf_rip = r\<rparr>" "frame_chain m bk rs"
      using frame_read_written by auto
    with Suc.IH [OF b(3)] Cons show ?thesis by (auto simp: not_le)
  qed
qed

text \<open>The stack trace lists the frames. For a chain of frames that ends with a null pointer, the trace shows, between its heading and its end, one line for
  each of the first frames, in order, that returns into the higher half, and says that frames were omitted exactly when
  the chain is longer than the limit.\<close>

theorem stack_trace_lists:
  assumes "frame_chain m rbp rips"
  shows "print_stack_trace m hhdm lookup n rbp =
    [rule_line (ascii '' Stack Trace '')] @ map (trace_line lookup) (filter (\<lambda>r. hhdm \<le> r) (take n rips))
      @ (if n < length rips then [ascii ''... <frames omitted>''] else [])"
  using walk_frames_chain [OF assms, of hhdm n] by (auto simp: print_stack_trace_def not_le)

definition demo_frames :: "u8 list" where
  "demo_frames = to_le 8 0x2010 @ to_le 8 0xFFFF800000001234 @ to_le 8 0x2020 @ to_le 8 0x1111
     @ to_le 8 0 @ to_le 8 0xFFFF800000005678"

definition demo_stack :: memory where
  "demo_stack a = (let i = unat (a - 0x2000) in if i < 48 then demo_frames ! i else 0)"

lemma length_demo_frames: "length demo_frames = 48"
  by (simp add: demo_frames_def)

lemma demo_stack_read:
  assumes "k + 16 \<le> 48"
  shows "mem_read demo_stack (0x2000 + of_nat k) 16 = take 16 (drop k demo_frames)"
proof (rule nth_equalityI)
  fix i
  assume "i < length (mem_read demo_stack (0x2000 + of_nat k) 16)"
  then have i: "i < 16" by simp
  have "unat (of_nat k + of_nat i :: u64) = k + i"
    using assms i unat_of_nat64 [of "k + i"] by simp
  moreover have "0x2000 + of_nat k + of_nat i - 0x2000 = (of_nat k + of_nat i :: u64)" by simp
  ultimately show "mem_read demo_stack (0x2000 + of_nat k) 16 ! i = take 16 (drop k demo_frames) ! i"
    using i assms by (simp add: mem_read_def demo_stack_def Let_def length_demo_frames)
qed (use assms in \<open>simp add: length_demo_frames\<close>)

lemma frame_chain_step:
  "a \<noteq> 0 \<Longrightarrow> mem_read m a 16 = to_le 8 (unat b) @ to_le 8 (unat rip) \<Longrightarrow> frame_chain m b rips \<Longrightarrow> frame_chain m a (rip # rips)"
  by auto

theorem stack_trace_lists_witness:
  "print_stack_trace demo_stack 0xFFFF800000000000 (\<lambda>_. None) 2 0x2000
    = [rule_line (ascii '' Stack Trace ''), trace_line (\<lambda>_. None) 0xFFFF800000001234, ascii ''... <frames omitted>'']"
proof -
  have "mem_read demo_stack 0x2000 16 = to_le 8 0x2010 @ to_le 8 0xFFFF800000001234"
    "mem_read demo_stack 0x2010 16 = to_le 8 0x2020 @ to_le 8 0x1111"
    "mem_read demo_stack 0x2020 16 = to_le 8 0 @ to_le 8 0xFFFF800000005678"
    using demo_stack_read [of 0] demo_stack_read [of 16] demo_stack_read [of 32] by (simp_all add: demo_frames_def)
  note r = this
  have "frame_chain demo_stack 0x2020 [0xFFFF800000005678]"
    by (rule frame_chain_step [where b = 0]) (simp_all add: r)
  then have "frame_chain demo_stack 0x2010 [0x1111, 0xFFFF800000005678]"
    by (rule frame_chain_step [where b = "0x2020", rotated 2]) (simp_all add: r)
  then have "frame_chain demo_stack 0x2000 [0xFFFF800000001234, 0x1111, 0xFFFF800000005678]"
    by (rule frame_chain_step [where b = "0x2010", rotated 2]) (simp_all add: r)
  from stack_trace_lists [OF this, of "0xFFFF800000000000" "\<lambda>_. None" 2] show ?thesis by simp
qed

section \<open>What a symbol lookup finds\<close>

text \<open>The line of a symbol.\<close>

definition symbol_line :: "utext \<Rightarrow> u64 \<times> utext \<Rightarrow> bool" where
  "symbol_line l sy \<longleftrightarrow> (\<exists>h. l = h @ [32] @ snd sy \<and> 32 \<notin> set h \<and> parse_hex h = Some (fst sy))"

lemma split_symbol: "symbol_line l (a, nm) \<Longrightarrow> \<exists>h. split_space l = Some (h, nm) \<and> parse_hex h = Some a"
proof -
  assume "symbol_line l (a, nm)"
  then obtain h where h: "l = h @ [32] @ nm" "32 \<notin> set h" "parse_hex h = Some a" by (auto simp: symbol_line_def)
  then have "takeWhile (\<lambda>c. c \<noteq> 32) l = h" "dropWhile (\<lambda>c. c \<noteq> 32) l = 32 # nm"
    by (auto simp: takeWhile_append dropWhile_append)
  with h show ?thesis by (auto simp: split_space_def)
qed

text \<open>
  The outcome for an address whose greatest symbol at or below it is number \<open>k\<close>: the symbol itself for an exact match;
  otherwise its name with the distance to the next symbol, except that everything from the last but one symbol on is
  given to the last.
\<close>

definition lookup_result :: "(u64 \<times> utext) list \<Rightarrow> nat \<Rightarrow> u64 \<Rightarrow> utext \<times> u64" where
  "lookup_result syms k addr =
     (if fst (syms ! k) = addr then (snd (syms ! k), 0)
      else if Suc (Suc k) < length syms then (snd (syms ! k), fst (syms ! Suc k) - fst (syms ! k))
      else (snd (last syms), addr - fst (last syms)))"

definition at_or_below :: "(u64 \<times> utext) list \<Rightarrow> nat \<Rightarrow> u64 \<Rightarrow> bool" where
  "at_or_below syms k addr \<longleftrightarrow> k < length syms \<and> fst (syms ! k) \<le> addr
     \<and> (\<forall>j. k < j \<and> j < length syms \<longrightarrow> addr < fst (syms ! j))"

lemma symbols_increase:
  assumes "sorted_wrt (<) (map fst syms)" "i < j" "j < length syms"
  shows "fst (syms ! i) < fst (syms ! j)"
  using sorted_wrt_nth_less [OF assms(1,2)] assms(2,3) by simp

lemma below_bound:
  assumes "at_or_below syms k addr" "sorted_wrt (<) (map fst syms)" "i < length syms" "addr < fst (syms ! i)"
  shows "k < i"
proof (rule ccontr)
  assume "\<not> k < i"
  then have "fst (syms ! i) \<le> fst (syms ! k)"
    using symbols_increase [OF assms(2), of i k] assms(1) by (cases "i = k") (auto simp: at_or_below_def)
  with assms(1,4) show False by (auto simp: at_or_below_def)
qed

lemma below_exact:
  assumes "at_or_below syms k addr" "sorted_wrt (<) (map fst syms)" "i < length syms" "fst (syms ! i) = addr"
  shows "k = i"
proof (rule ccontr)
  assume "k \<noteq> i"
  then consider "k < i" | "i < k" by fastforce
  then show False
    using symbols_increase [OF assms(2), of i k] assms by cases (auto simp: at_or_below_def)
qed

lemma symbol_loop_spec:
  assumes "list_all2 symbol_line ls syms" "syms \<noteq> []" "sorted_wrt (<) (map fst (prev # syms))" "fst prev < addr"
    and "at_or_below (prev # syms) k addr" "n = i + length ls" "0 < i"
  shows "symbol_loop addr n i (Some (snd prev, fst prev)) ls = Inr (lookup_result (prev # syms) k addr)"
  using assms
proof (induction syms arbitrary: ls prev i k rule: list.induct)
  case (Cons x syms)
  obtain a nm where x: "x = (a, nm)" by (cases x)
  obtain l ls' where ls: "ls = l # ls'" "symbol_line l (a, nm)" "list_all2 symbol_line ls' syms"
    using Cons.prems(1) by (auto simp: list_all2_Cons2 x)
  obtain h where h: "split_space l = Some (h, nm)" "parse_hex h = Some a" using split_symbol [OF ls(2)] by auto
  have len: "length ls' = length syms" using ls(3) by (rule list_all2_lengthD)
  note below = Cons.prems(5)[unfolded at_or_below_def]
  consider "a = addr" | "a \<noteq> addr" "syms = []" | "addr < a" "syms \<noteq> []" | "a < addr" "syms \<noteq> []" by fastforce
  then show ?case
  proof cases
    case 1
    then have "k = 1" using below_exact [OF Cons.prems(5,3), of 1] by (simp add: x)
    with 1 show ?thesis by (simp add: ls(1) h x lookup_result_def)
  next
    case 2
    with len below show ?thesis
      using Cons.prems(4,6) by (cases k) (auto simp: ls(1) h x lookup_result_def)
  next
    case 3
    then have "k = 0" using below_bound [OF Cons.prems(5,3), of 1] by (simp add: x)
    with 3 Cons.prems(4,6,7) len show ?thesis
      by (auto simp: ls(1) h x lookup_result_def)
  next
    case 4
    with below have "k \<noteq> 0" by (auto simp: x dest: spec [of _ 1])
    then obtain k' where k': "k = Suc k'" by (cases k) auto
    have "at_or_below (x # syms) k' addr"
      using below by (auto simp: k' at_or_below_def dest: spec [of _ "Suc _"])
    with Cons.IH [OF ls(3) 4(2), of x k' "Suc i"] Cons.prems(3,6) 4 len
    have "symbol_loop addr n (Suc i) (Some (nm, a)) ls' = Inr (lookup_result (x # syms) k' addr)"
      by (simp add: x ls(1))
    moreover have "lookup_result (prev # x # syms) k addr = lookup_result (x # syms) k' addr"
      by (simp add: lookup_result_def k')
    ultimately show ?thesis
      using 4 Cons.prems(4,6,7) len by (auto simp: ls(1) h x)
  qed
qed simp

text \<open>The function an address belongs to. In a table of at least two symbols with increasing addresses, an address below the first is not found; an address
  at a symbol gives the symbol and offset 0; any other address gives the symbol below it, with the distance to the next
  symbol instead of its own offset, and the addresses from the last but one symbol on are attributed to the last one.\<close>

theorem symbol_lookup:
  assumes "utf8_decode bytes = Some txt" and "list_all2 symbol_line (text_lines txt) syms"
    and "sorted_wrt (<) (map fst syms)" "2 \<le> length syms"
  shows "(addr < fst (hd syms) \<longrightarrow> find_symbol bytes addr = Inl ErrUnit)
    \<and> (at_or_below syms k addr \<longrightarrow> find_symbol bytes addr = Inr (lookup_result syms k addr))"
proof -
  obtain a nm syms' where syms: "syms = (a, nm) # syms'" "syms' \<noteq> []"
    using assms(4) by (cases syms; cases "tl syms") auto
  obtain l ls where ls: "text_lines txt = l # ls" "symbol_line l (a, nm)" "list_all2 symbol_line ls syms'"
    using assms(2) by (auto simp: syms(1) list_all2_Cons2)
  obtain h where h: "split_space l = Some (h, nm)" "parse_hex h = Some a" using split_symbol [OF ls(2)] by auto
  have len: "0 < length ls" using ls(3) syms(2) by (auto dest: list_all2_lengthD)
  have f: "find_symbol bytes addr = symbol_loop addr (Suc (length ls)) 0 None (l # ls)"
    by (simp add: find_symbol_def assms(1) ls(1) Let_def)
  consider "addr < a" | "addr = a" | "a < addr" by fastforce
  then show ?thesis
  proof cases
    case 1
    have "\<not> at_or_below syms k addr"
      using 1 below_bound [OF _ assms(3), of k addr 0] syms(1) by auto
    then show ?thesis using 1 len by (auto simp: f h)
  next
    case 2
    have "k = 0" if "at_or_below syms k addr"
      using that 2 below_exact [OF _ assms(3), of k addr 0] syms(1) by auto
    moreover have "find_symbol bytes addr = Inr (nm, 0)" unfolding f using 2 by (simp add: h)
    moreover have "lookup_result syms 0 addr = (nm, 0)" using 2 by (simp add: syms(1) lookup_result_def)
    ultimately show ?thesis using 2 by (auto simp: syms(1))
  next
    case 3
    then show ?thesis
      using symbol_loop_spec [OF ls(3) syms(2), of "(a, nm)" addr k "Suc (length ls)" 1] assms(3) len
      by (auto simp: f h syms(1))
  qed
qed

definition demo_symbols :: "u8 list" where
  "demo_symbols = map of_char (''1000 start'' @ [CHR 0x0A] @ ''2000 alloc'' @ [CHR 0x0A] @ ''3000 panic'' @ [CHR 0x0A])"

theorem symbol_lookup_witness:
  "find_symbol demo_symbols 0x1004 = Inr (ascii ''start'', 0x1000)
    \<and> find_symbol demo_symbols 0x2010 = Inr (ascii ''panic'', 0x2010 - 0x3000) \<and> find_symbol demo_symbols 0xFFF = Inl ErrUnit"
proof -
  let ?txt = "map unat demo_symbols"
  let ?syms = "[(0x1000, ascii ''start''), (0x2000, ascii ''alloc''), (0x3000, ascii ''panic'')] :: (u64 \<times> utext) list"
  have 1: "utf8_decode demo_symbols = Some ?txt"
    by (intro utf8_ascii) (simp add: demo_symbols_def)
  have 2: "text_lines ?txt = [ascii ''1000'' @ [32] @ ascii ''start'', ascii ''2000'' @ [32] @ ascii ''alloc'', ascii ''3000'' @ [32] @ ascii ''panic'']"
    by (simp add: text_lines_def demo_symbols_def ascii_def strip_return_def Let_def)
  have 3: "parse_hex (ascii ''1000'') = Some 0x1000" "parse_hex (ascii ''2000'') = Some 0x2000" "parse_hex (ascii ''3000'') = Some 0x3000"
    by (simp_all add: parse_hex_def from_str_radix16_def ascii_def hex_digit_def char_of_eq_iff)
  have 4: "32 \<notin> set (ascii ''1000'')" "32 \<notin> set (ascii ''2000'')" "32 \<notin> set (ascii ''3000'')" by (simp_all add: ascii_def)
  have 5: "list_all2 symbol_line (text_lines ?txt) ?syms"
    unfolding 2 using 3 4 by (auto simp: symbol_line_def)
  have "at_or_below ?syms 0 0x1004" "at_or_below ?syms 1 0x2010"
    by (auto simp: at_or_below_def less_Suc_eq)
  with symbol_lookup [OF 1 5, of "0x1004" 0] symbol_lookup [OF 1 5, of "0x2010" 1] symbol_lookup [OF 1 5, of "0xFFF" 0]
  show ?thesis by (simp add: lookup_result_def)
qed

end
