(* ===== verification/Traps.thy ===== *)
theory Traps
  imports Interrupts Console Stack_Trace
begin

text \<open>
  What the kernel does when it is entered: the exception handler (\<^verbatim>\<open>src/arch/x86_64/interrupts/exceptions.rs\<close>) and the system call
  (\<^verbatim>\<open>src/arch/x86_64/interrupts/mod.rs\<close>), with the program that uses it (\<^verbatim>\<open>src/bin/hello.rs\<close>).
\<close>

section \<open>Exceptions\<close>

record registers =
  r_int :: usize
  r_r15 :: usize
  r_r14 :: usize
  r_r13 :: usize
  r_r12 :: usize
  r_r11 :: usize
  r_r10 :: usize
  r_r9 :: usize
  r_r8 :: usize
  r_rbp :: usize
  r_rdi :: usize
  r_rsi :: usize
  r_rdx :: usize
  r_rcx :: usize
  r_rbx :: usize
  r_rax :: usize
  r_rip :: usize
  r_cs :: usize
  r_rflags :: usize
  r_rsp :: usize
  r_ss :: usize

text \<open>The registers as they lie in memory, from the lowest address on.\<close>

definition registers_read :: "memory \<Rightarrow> usize \<Rightarrow> registers" where
  "registers_read m a =
     (let w = (\<lambda>i. of_nat (le_val (mem_read m (a + 8 * of_nat i) 8)) :: usize) in
      \<lparr>r_int = w 0, r_r15 = w 1, r_r14 = w 2, r_r13 = w 3, r_r12 = w 4, r_r11 = w 5, r_r10 = w 6, r_r9 = w 7, r_r8 = w 8,
       r_rbp = w 9, r_rdi = w 10, r_rsi = w 11, r_rdx = w 12, r_rcx = w 13, r_rbx = w 14, r_rax = w 15, r_rip = w 16,
       r_cs = w 17, r_rflags = w 18, r_rsp = w 19, r_ss = w 20\<rparr>)"

type_synonym message = "log_level \<times> utext"

text \<open>\<^verbatim>\<open>{:#018X}\<close>.\<close>

definition show_hex18 :: "usize \<Rightarrow> utext" where
  "show_hex18 x = (let h = show_hex (unat x) in ascii ''0x'' @ replicate (16 - length h) 48 @ ascii h)"

definition print_registers :: "registers \<Rightarrow> message list" where
  "print_registers r =
     [(Info, rule_line (ascii '' REGISTERS '')),
      (Info, ascii ''INT: '' @ show_hex18 (r_int r) @ ascii '', RIP: '' @ show_hex18 (r_rip r) @ ascii '',  CS: '' @ show_hex18 (r_cs r)
         @ ascii '', FLG: '' @ show_hex18 (r_rflags r)),
      (Info, ascii ''RSP: '' @ show_hex18 (r_rsp r) @ ascii '',  SS: '' @ show_hex18 (r_ss r) @ ascii '', RAX: '' @ show_hex18 (r_rax r)
         @ ascii '', RBX: '' @ show_hex18 (r_rbx r)),
      (Info, ascii ''RCX: '' @ show_hex18 (r_rcx r) @ ascii '', RDX: '' @ show_hex18 (r_rdx r) @ ascii '', RSI: '' @ show_hex18 (r_rsi r)
         @ ascii '', RDI: '' @ show_hex18 (r_rdi r)),
      (Info, ascii ''RBP: '' @ show_hex18 (r_rbp r) @ ascii '',  R8: '' @ show_hex18 (r_r8 r) @ ascii '',  R9: '' @ show_hex18 (r_r9 r)
         @ ascii '', R10: '' @ show_hex18 (r_r10 r)),
      (Info, ascii ''R11: '' @ show_hex18 (r_r11 r) @ ascii '', R12: '' @ show_hex18 (r_r12 r) @ ascii '', R13: '' @ show_hex18 (r_r13 r)
         @ ascii '', R14: '' @ show_hex18 (r_r14 r)),
      (Info, ascii ''R15: '' @ show_hex18 (r_r15 r))]"

definition exception_name :: "usize \<Rightarrow> message list" where
  "exception_name vec =
     (if vec = 0x00 then [(Fatal, ascii ''DIVISION ERROR!'')]
      else if vec = 0x06 then [(Fatal, ascii ''INVALID OPCODE!'')]
      else if vec = 0x08 then [(Fatal, ascii ''DOUBLE FAULT!'')]
      else if vec = 0x0D then [(Fatal, ascii ''GENERAL PROTECTION FAULT!'')]
      else if vec = 0x0E then
        [(Fatal, ascii ''PAGE FAULT!''),
         (Debug, ascii ''HINT: Find the last pointer you touched and make sure it'' @ [39] @ ascii ''s in virtual memory'')]
      else [(Fatal, ascii ''EXCEPTION!'')])"

text \<open>The counter \<^verbatim>\<open>FAULTED\<close>, the messages, and whether the handler halts the machine instead of returning.\<close>

definition exception_handler ::
    "memory \<Rightarrow> usize \<Rightarrow> (u64 \<Rightarrow> (utext \<times> u64) option) \<Rightarrow> u8 \<Rightarrow> usize \<Rightarrow> u8 \<times> message list \<times> bool" where
  "exception_handler m hhdm lookup faulted registers =
     (let r = registers_read m registers in
      if faulted = 0 then
        (faulted + 1, exception_name (r_int r) @ print_registers r
           @ map (Pair Info) (print_stack_trace m hhdm lookup 6 (r_rbp r)), False)
      else if faulted = 1 then
        (faulted + 1, (Fatal, ascii ''Exception Loop detected, stopping here'') # print_registers r, True)
      else (faulted + 1, [], True))"

text \<open>The panic handler prints the text of the panic at any log level, and logs a stack trace from its own frame before it halts.\<close>

definition panic_handler ::
    "memory \<Rightarrow> usize \<Rightarrow> (u64 \<Rightarrow> (utext \<times> u64) option) \<Rightarrow> utext \<Rightarrow> u64 \<Rightarrow> utext \<times> message list" where
  "panic_handler m hhdm lookup info rbp = (info, map (Pair Info) (print_stack_trace m hhdm lookup 6 rbp))"

section \<open>System calls\<close>

definition syscall_handler :: "'d ports \<Rightarrow> memory \<Rightarrow> u64 \<Rightarrow> u64 \<Rightarrow> 'd \<Rightarrow> ('d, unit) io" where
  "syscall_handler hw m rdx rcx d =
     (let slice = mem_read m rdx (unat rcx) in
      case utf8_decode slice of
        None \<Rightarrow> Some (Inl (Panic UnwrapFailed), d)
      | Some message \<Rightarrow> map_option (\<lambda>d'. (Inr (), d')) (print hw slice d))"

text \<open>The four argument registers around the call: they are pushed and popped in the same order.\<close>

record syscall_regs =
  s_rdi :: u64
  s_rsi :: u64
  s_rdx :: u64
  s_rcx :: u64

definition syscall_entry :: "syscall_regs \<Rightarrow> syscall_regs" where
  "syscall_entry r =
     (let stack = [] :: u64 list;
          stack = s_rdi r # stack;
          stack = s_rsi r # stack;
          stack = s_rdx r # stack;
          stack = s_rcx r # stack;
          rdi = hd stack; stack = tl stack;
          rsi = hd stack; stack = tl stack;
          rdx = hd stack; stack = tl stack;
          rcx = hd stack
      in \<lparr>s_rdi = rdi, s_rsi = rsi, s_rdx = rdx, s_rcx = rcx\<rparr>)"

section \<open>The program\<close>

definition hello_message :: "u8 list" where
  "hello_message = bytes_of ''Hello, World!'' @ [0x0A]"

text \<open>The registers at the interrupt, for a message at \<open>address\<close>.\<close>

definition hello_print :: "u64 \<Rightarrow> u8 list \<Rightarrow> syscall_regs" where
  "hello_print address message = \<lparr>s_rdi = 0x01, s_rsi = 0x01, s_rdx = address, s_rcx = of_nat (length message)\<rparr>"

section \<open>What a system call does\<close>

text \<open>C28: the system call prints a message. With valid UTF-8 in memory the call writes those bytes to the data port of the serial
  line, in order and with a carriage return behind every newline, and returns; before the first byte it polls port
  \<open>0x20\<close> until it reads as nonzero, so on a machine where it never does the call does not return. With bytes that are not
  UTF-8 the kernel panics and no device is touched. Nothing is assumed of the devices.\<close>

theorem syscall_prints:
  "syscall_handler hw m rdx rcx d =
     (if utf8_decode (mem_read m rdx (unat rcx)) = None then Some (Inl (Panic UnwrapFailed), d)
      else if line_ready hw d then
        Some (Inr (), fold (port_out8 hw 0x3F8)
          (concat (map (\<lambda>b. if b = 0x0A then [0x0A, 0x0D] else [b]) (mem_read m rdx (unat rcx)))) (after_polls hw d))
      else None)"
  by (auto simp: syscall_handler_def print_def newline_return_def write_string_iff Let_def)

definition hello_memory :: memory where
  "hello_memory a = (let i = unat (a - 0x400000) in if i < length hello_message then hello_message ! i else 0xFF)"

theorem syscall_prints_witness:
  "syscall_handler quiet_line hello_memory (s_rdx (hello_print 0x400000 hello_message)) (s_rcx (hello_print 0x400000 hello_message)) []
     = Some (Inr (), bytes_of ''Hello, World!'' @ [0x0A, 0x0D])"
proof -
  have len: "length hello_message = 14" by (simp add: hello_message_def bytes_of_def)
  have r: "mem_read hello_memory 0x400000 14 = hello_message"
    by (rule nth_equalityI) (auto simp: len mem_read_def hello_memory_def Let_def unat_of_nat)
  have "utf8_decode hello_message = Some (map unat hello_message)"
    by (intro utf8_ascii) (simp add: hello_message_def bytes_of_def)
  moreover have "concat (map (\<lambda>b. if b = 0x0A then [0x0A, 0x0D] else [b]) hello_message) = bytes_of ''Hello, World!'' @ [0x0A, 0x0D]"
    by code_simp
  ultimately show ?thesis
    using syscall_prints [of quiet_line hello_memory "0x400000" 14 "[]"] r
    by (simp add: hello_print_def len quiet_line_sends del: fold_append)
qed

text \<open>The system call exchanges registers. The argument registers come back in reverse order: they are kept only when the first equals the last and the
  second the third.\<close>

theorem syscall_swaps_registers:
  "syscall_entry r = \<lparr>s_rdi = s_rcx r, s_rsi = s_rdx r, s_rdx = s_rsi r, s_rcx = s_rdi r\<rparr>
   \<and> (syscall_entry r = r \<longleftrightarrow> s_rdi r = s_rcx r \<and> s_rsi r = s_rdx r)"
  by (cases r) (auto simp: syscall_entry_def Let_def)

text \<open>Nested exceptions stop the machine: the first is reported with its registers and the stack, the second only
  with its registers, and every further one halts at once, up to the 256th.\<close>

theorem nested_exceptions:
  assumes "faulted \<noteq> 0"
  shows "snd (snd (exception_handler m hhdm lookup faulted a))
    \<and> (1 < faulted \<longrightarrow> fst (snd (exception_handler m hhdm lookup faulted a)) = [])"
  using assms by (auto simp: exception_handler_def Let_def)

end
