(* ===== verification/Trap_Entry.thy ===== *)
theory Trap_Entry
  imports Traps
begin

text \<open>
  The way into the exception handler: the frame that the processor pushes, \<^verbatim>\<open>push_gprs\<close> and \<^verbatim>\<open>pop_gprs\<close>
  (\<^verbatim>\<open>src/arch/x86_64/mod.rs\<close>) and the wrappers made by \<^verbatim>\<open>exception_function!\<close> (\<^verbatim>\<open>src/arch/x86_64/interrupts/exceptions.rs\<close>). The handler reads the stack
  as a \<^verbatim>\<open>Registers\<close> structure. A stack is its pointer and the memory. The wrappers are taken to start with \<^verbatim>\<open>push_gprs\<close>,
  without a prologue of the compiler; they halt after the handler and never return.
\<close>

section \<open>The stack\<close>

type_synonym stack = "usize \<times> memory"

definition push_word :: "u64 \<Rightarrow> stack \<Rightarrow> stack" where
  "push_word v s = (let sp = fst s - 8 in (sp, mem_write (snd s) sp (to_le 8 (unat v))))"

definition pop_word :: "stack \<Rightarrow> u64 \<times> stack" where
  "pop_word s = (of_nat (le_val (mem_read (snd s) (fst s) 8)), (fst s + 8, snd s))"

fun pop_words :: "nat \<Rightarrow> stack \<Rightarrow> u64 list \<times> stack" where
  "pop_words 0 s = ([], s)"
| "pop_words (Suc n) s = (let (v, s1) = pop_word s; (vs, s2) = pop_words n s1 in (v # vs, s2))"

record gprs =
  g_rax :: u64
  g_rbx :: u64
  g_rcx :: u64
  g_rdx :: u64
  g_rsi :: u64
  g_rdi :: u64
  g_rbp :: u64
  g_r8 :: u64
  g_r9 :: u64
  g_r10 :: u64
  g_r11 :: u64
  g_r12 :: u64
  g_r13 :: u64
  g_r14 :: u64
  g_r15 :: u64

definition push_gprs :: "gprs \<Rightarrow> stack \<Rightarrow> stack" where
  "push_gprs g s =
     fold push_word [g_rax g, g_rbx g, g_rcx g, g_rdx g, g_rsi g, g_rdi g, g_rbp g, g_r8 g, g_r9 g, g_r10 g, g_r11 g, g_r12 g,
       g_r13 g, g_r14 g, g_r15 g] s"

definition pop_gprs :: "stack \<Rightarrow> gprs \<times> stack" where
  "pop_gprs s =
     (case pop_words 15 s of (ws, s') \<Rightarrow>
        (\<lparr>g_rax = ws ! 14, g_rbx = ws ! 13, g_rcx = ws ! 12, g_rdx = ws ! 11, g_rsi = ws ! 10, g_rdi = ws ! 9, g_rbp = ws ! 8,
          g_r8 = ws ! 7, g_r9 = ws ! 6, g_r10 = ws ! 5, g_r11 = ws ! 4, g_r12 = ws ! 3, g_r13 = ws ! 2, g_r14 = ws ! 1, g_r15 = ws ! 0\<rparr>, s'))"

section \<open>Entry\<close>

text \<open>What the processor pushes on an exception; for some vectors, the double fault, the protection fault and the page fault among them,
  an error code comes last.\<close>

record interrupt_frame =
  f_rip :: u64
  f_cs :: u64
  f_rflags :: u64
  f_rsp :: u64
  f_ss :: u64

definition cpu_enter :: "interrupt_frame \<Rightarrow> u64 option \<Rightarrow> stack \<Rightarrow> stack" where
  "cpu_enter fr err s =
     fold push_word ([f_ss fr, f_rsp fr, f_rflags fr, f_cs fr, f_rip fr] @ (case err of None \<Rightarrow> [] | Some e \<Rightarrow> [e])) s"

text \<open>A wrapper up to the call: the handler gets the stack pointer.\<close>

definition exception_function :: "u64 \<Rightarrow> gprs \<Rightarrow> stack \<Rightarrow> stack" where
  "exception_function code g s = push_word code (push_gprs g s)"

text \<open>A wrapper behind the call, up to the signal for the interrupt controller; \<open>rdi\<close> is the register as the handler left it.\<close>

definition exception_return :: "u64 \<Rightarrow> stack \<Rightarrow> gprs \<times> stack" where
  "exception_return rdi s = (case pop_word s of (_, s1) \<Rightarrow> pop_gprs (rdi, snd s1))"

section \<open>What lies on the stack\<close>

definition stack_holds :: "stack \<Rightarrow> u64 list \<Rightarrow> bool" where
  "stack_holds s vs \<longleftrightarrow> mem_read (snd s) (fst s) (8 * length vs) = concat (map (\<lambda>v. to_le 8 (unat v)) vs)"

lemma length_words [simp]: "length (concat (map (\<lambda>v. to_le 8 (unat v)) vs)) = 8 * length vs"
  by (induction vs) simp_all

lemma mem_read_split: "mem_read m a (k + n) = mem_read m a k @ mem_read m (a + of_nat k) n"
  by (intro nth_equalityI) (auto simp: mem_read_def nth_append)

lemma push_word_holds:
  assumes "stack_holds s vs" "8 * length vs + 8 \<le> 2 ^ 64"
  shows "stack_holds (push_word v s) (v # vs)"
proof -
  obtain sp m where s: "s = (sp, m)" by (cases s)
  let ?m = "mem_write m (sp - 8) (to_le 8 (unat v))"
  have "mem_read ?m (sp - 8) 8 = to_le 8 (unat v)"
    using mem_read_write [of "to_le 8 (unat v)" m "sp - 8"] by simp
  moreover have "mem_read ?m sp (8 * length vs) = mem_read m sp (8 * length vs)"
  proof (rule nth_equalityI)
    fix i
    assume "i < length (mem_read ?m sp (8 * length vs))"
    then have i: "i < 8 * length vs" by simp
    have "sp + of_nat i \<noteq> sp - 8 + of_nat j" if "j < 8" for j
    proof
      assume "sp + of_nat i = sp - 8 + of_nat j"
      then have "of_nat (i + 8) = (of_nat j :: u64)" by (simp add: algebra_simps)
      with of_nat_word_inj [of "i + 8" j] i that assms(2) show False by simp
    qed
    then have "?m (sp + of_nat i) = m (sp + of_nat i)" by (intro mem_write_outside) simp
    with i show "mem_read ?m sp (8 * length vs) ! i = mem_read m sp (8 * length vs) ! i" by (simp add: mem_read_def)
  qed simp
  moreover have "mem_read ?m (sp - 8) (8 + 8 * length vs) = mem_read ?m (sp - 8) 8 @ mem_read ?m sp (8 * length vs)"
    using mem_read_split [of ?m "sp - 8" 8 "8 * length vs"] by simp
  ultimately show ?thesis
    using assms(1) by (simp add: s stack_holds_def push_word_def Let_def)
qed

lemma push_words_holds:
  "stack_holds s vs \<Longrightarrow> 8 * (length ws + length vs) \<le> 2 ^ 64 \<Longrightarrow> stack_holds (fold push_word ws s) (rev ws @ vs)"
proof (induction ws arbitrary: s vs)
  case (Cons w ws)
  have "stack_holds (push_word w s) (w # vs)" using Cons.prems by (intro push_word_holds) simp_all
  from Cons.IH [OF this] Cons.prems(2) show ?case by simp
qed simp

lemma concat_words_nth:
  "i < length vs \<Longrightarrow> take 8 (drop (8 * i) (concat (map (\<lambda>v. to_le 8 (unat v)) vs))) = to_le 8 (unat (vs ! i))"
proof (induction vs arbitrary: i)
  case (Cons v vs)
  then show ?case by (cases i) simp_all
qed simp

lemma stack_word:
  assumes "stack_holds s vs" "i < length vs"
  shows "of_nat (le_val (mem_read (snd s) (fst s + 8 * of_nat i) 8)) = vs ! i"
proof -
  have "mem_read (snd s) (fst s) (8 * length vs) = mem_read (snd s) (fst s) (8 * i) @ mem_read (snd s) (fst s + of_nat (8 * i)) (8 * length vs - 8 * i)"
    using assms(2) mem_read_split [of "snd s" "fst s" "8 * i" "8 * length vs - 8 * i"] by simp
  moreover have "mem_read (snd s) a (8 * length vs - 8 * i) = mem_read (snd s) a 8 @ mem_read (snd s) (a + 8) (8 * length vs - 8 * i - 8)" for a
    using assms(2) mem_read_split [of "snd s" a 8 "8 * length vs - 8 * i - 8"] by simp
  ultimately have "take 8 (drop (8 * i) (mem_read (snd s) (fst s) (8 * length vs))) = mem_read (snd s) (fst s + of_nat (8 * i)) 8"
    by simp
  then have "mem_read (snd s) (fst s + 8 * of_nat i) 8 = to_le 8 (unat (vs ! i))"
    using assms concat_words_nth [OF assms(2)] by (simp add: stack_holds_def)
  then show ?thesis by (simp add: le_val_to_le_unat)
qed

lemma stack_holds_empty [simp]: "stack_holds s []"
  by (simp add: stack_holds_def mem_read_def)

definition gpr_words :: "gprs \<Rightarrow> u64 list" where
  "gpr_words g =
     [g_r15 g, g_r14 g, g_r13 g, g_r12 g, g_r11 g, g_r10 g, g_r9 g, g_r8 g, g_rbp g, g_rdi g, g_rsi g, g_rdx g, g_rcx g, g_rbx g, g_rax g]"

definition frame_words :: "interrupt_frame \<Rightarrow> u64 option \<Rightarrow> u64 list" where
  "frame_words fr err = (case err of None \<Rightarrow> [] | Some e \<Rightarrow> [e]) @ [f_rip fr, f_cs fr, f_rflags fr, f_rsp fr, f_ss fr]"

lemma length_entry_words [simp]:
  "length (gpr_words g) = 15" "length (frame_words fr err) = (case err of None \<Rightarrow> 5 | Some e \<Rightarrow> 6)"
  by (simp_all add: gpr_words_def frame_words_def split: option.splits)

lemma cpu_enter_holds: "stack_holds (cpu_enter fr err s) (frame_words fr err)"
proof -
  have "cpu_enter fr err s = fold push_word (rev (frame_words fr err)) s"
    by (cases err) (simp_all add: cpu_enter_def frame_words_def)
  with push_words_holds [of s "[]" "rev (frame_words fr err)"] show ?thesis
    by (simp split: option.splits)
qed

lemma push_gprs_holds:
  assumes "stack_holds s vs" "8 * length vs + 120 \<le> 2 ^ 64"
  shows "stack_holds (push_gprs g s) (gpr_words g @ vs)"
proof -
  have "push_gprs g s = fold push_word (rev (gpr_words g)) s"
    by (simp add: push_gprs_def gpr_words_def)
  moreover have "8 * (length (rev (gpr_words g)) + length vs) \<le> 2 ^ 64"
    using assms(2) by simp
  ultimately show ?thesis
    using push_words_holds [OF assms(1), of "rev (gpr_words g)"] by simp
qed

lemma exception_function_holds:
  "stack_holds (exception_function code g (cpu_enter fr err s)) (code # gpr_words g @ frame_words fr err)"
  unfolding exception_function_def
  by (intro push_word_holds push_gprs_holds cpu_enter_holds) (simp_all split: option.splits)

lemma pop_words_holds:
  assumes "stack_holds s vs" "n \<le> length vs"
  shows "pop_words n s = (take n vs, (fst s + 8 * of_nat n, snd s))"
  using assms
proof (induction n arbitrary: s vs)
  case (Suc n)
  then obtain v vs' where vs: "vs = v # vs'" by (cases vs) auto
  have v: "pop_word s = (v, (fst s + 8, snd s))"
    using stack_word [OF Suc.prems(1), of 0] by (simp add: pop_word_def vs)
  have "stack_holds (fst s + 8, snd s) vs'"
    using Suc.prems(1) mem_read_split [of "snd s" "fst s" 8 "8 * length vs'"] by (simp add: stack_holds_def vs)
  from Suc.IH [OF this] Suc.prems(2) show ?case
    by (simp add: v vs algebra_simps)
qed simp

text \<open>\<^verbatim>\<open>pop_gprs\<close> undoes \<^verbatim>\<open>push_gprs\<close>: the registers are the ones saved and the stack pointer is back where it was.\<close>

lemma pop_push_gprs: "fst (pop_gprs (push_gprs g s)) = g" "fst (snd (pop_gprs (push_gprs g s))) = fst s"
proof -
  have "stack_holds (push_gprs g s) (gpr_words g)"
    using push_gprs_holds [of s "[]" g] by simp
  then have "pop_words 15 (push_gprs g s) = (gpr_words g, (fst (push_gprs g s) + 120, snd (push_gprs g s)))"
    using pop_words_holds [of "push_gprs g s" "gpr_words g" 15] by simp
  moreover have "fst (push_gprs g s) + 120 = fst s"
    by (simp add: push_gprs_def push_word_def Let_def)
  ultimately show "fst (pop_gprs (push_gprs g s)) = g" "fst (snd (pop_gprs (push_gprs g s))) = fst s"
    by (simp_all add: pop_gprs_def gpr_words_def)
qed

text \<open>The way back takes its stack pointer from \<open>rdi\<close>. Even when the handler leaves that register as it was, the number of the exception is
  popped a second time, into \<open>r15\<close>, and every other register gets the value of its neighbour. The wrapper halts afterwards.\<close>

lemma exception_return_shifted:
  "fst (exception_return (fst (exception_function code g s)) (exception_function code g s))
   = \<lparr>g_rax = g_rbx g, g_rbx = g_rcx g, g_rcx = g_rdx g, g_rdx = g_rsi g, g_rsi = g_rdi g, g_rdi = g_rbp g, g_rbp = g_r8 g,
      g_r8 = g_r9 g, g_r9 = g_r10 g, g_r10 = g_r11 g, g_r11 = g_r12 g, g_r12 = g_r13 g, g_r13 = g_r14 g, g_r14 = g_r15 g,
      g_r15 = code\<rparr>"
proof -
  let ?e = "exception_function code g s"
  have "stack_holds ?e (code # gpr_words g)"
    unfolding exception_function_def using push_gprs_holds [of s "[]" g] by (intro push_word_holds) simp_all
  from pop_words_holds [OF this, of 15] show ?thesis
    by (simp add: exception_return_def pop_word_def pop_gprs_def gpr_words_def)
qed

text \<open>C25: what the exception handler sees. When the processor pushes no error code, the structure at the address that the wrapper passes holds the number
  of the exception, all general registers and the frame of the interrupted code. For an exception with an error code the frame is
  read one word too low: the instruction pointer is the error code, the code segment is the instruction pointer, and so on
  up to the stack segment, which is the stack pointer.\<close>

theorem exception_registers:
  "registers_read (snd (exception_function code g (cpu_enter fr err s))) (fst (exception_function code g (cpu_enter fr err s)))
   = \<lparr>r_int = code, r_r15 = g_r15 g, r_r14 = g_r14 g, r_r13 = g_r13 g, r_r12 = g_r12 g, r_r11 = g_r11 g, r_r10 = g_r10 g,
      r_r9 = g_r9 g, r_r8 = g_r8 g, r_rbp = g_rbp g, r_rdi = g_rdi g, r_rsi = g_rsi g, r_rdx = g_rdx g, r_rcx = g_rcx g,
      r_rbx = g_rbx g, r_rax = g_rax g,
      r_rip = (case err of None \<Rightarrow> f_rip fr | Some e \<Rightarrow> e), r_cs = (case err of None \<Rightarrow> f_cs fr | Some e \<Rightarrow> f_rip fr),
      r_rflags = (case err of None \<Rightarrow> f_rflags fr | Some e \<Rightarrow> f_cs fr), r_rsp = (case err of None \<Rightarrow> f_rsp fr | Some e \<Rightarrow> f_rflags fr),
      r_ss = (case err of None \<Rightarrow> f_ss fr | Some e \<Rightarrow> f_rsp fr)\<rparr>"
proof -
  let ?e = "exception_function code g (cpu_enter fr err s)"
  define rd where "rd i = (of_nat (le_val (mem_read (snd ?e) (fst ?e + 8 * of_nat i) 8)) :: u64)" for i :: nat
  have rd: "rd i = (code # gpr_words g @ frame_words fr err) ! i" if "i < 21" for i
    unfolding rd_def using that by (intro stack_word [OF exception_function_holds]) (simp split: option.splits)
  have "registers_read (snd ?e) (fst ?e) =
      \<lparr>r_int = rd 0, r_r15 = rd 1, r_r14 = rd 2, r_r13 = rd 3, r_r12 = rd 4, r_r11 = rd 5, r_r10 = rd 6, r_r9 = rd 7, r_r8 = rd 8,
       r_rbp = rd 9, r_rdi = rd 10, r_rsi = rd 11, r_rdx = rd 12, r_rcx = rd 13, r_rbx = rd 14, r_rax = rd 15, r_rip = rd 16,
       r_cs = rd 17, r_rflags = rd 18, r_rsp = rd 19, r_ss = rd 20\<rparr>"
    by (simp only: registers_read_def Let_def rd_def)
  then show ?thesis
    by (cases err) (simp_all add: rd gpr_words_def frame_words_def)
qed

end
