(* ===== verification/Video.thy ===== *)
theory Video
  imports Pmm Sync
begin

text \<open>
  The frame buffer, \<^verbatim>\<open>src/drivers/video.rs\<close>, and the picture drawn at the end of the boot (\<^verbatim>\<open>draw_gradient\<close> of \<^verbatim>\<open>src/main.rs\<close>).
  The frame buffer is part of the byte memory; what the boot loader reports about it is an argument.
\<close>

section \<open>The frame buffer\<close>

record framebuffer =
  fb_width :: usize
  fb_height :: usize
  fb_bpp :: usize
  fb_pitch :: usize
  fb_pointer :: virtual_ptr

definition framebuffer_new :: "usize \<Rightarrow> usize \<Rightarrow> virtual_ptr \<Rightarrow> usize \<Rightarrow> usize \<Rightarrow> framebuffer" where
  "framebuffer_new bpp pitch p width height =
     \<lparr>fb_width = width, fb_height = height, fb_bpp = bpp, fb_pitch = pitch, fb_pointer = p\<rparr>"

definition fb_len :: "framebuffer \<Rightarrow> usize" where
  "fb_len fb = fb_pitch fb * fb_height fb"

definition put_pixel :: "framebuffer \<Rightarrow> memory \<Rightarrow> u32 \<Rightarrow> u32 \<Rightarrow> u32 \<Rightarrow> memory" where
  "put_pixel fb m x y color =
     (let pixel_offset = ucast (y * ucast (fb_pitch fb) + (x * ucast (fb_bpp fb div 8)))
      in virtual_write m (virtual_offset 1 (fb_pointer fb) pixel_offset) (to_le 4 (unat color)))"

definition fill_screen :: "framebuffer \<Rightarrow> memory \<Rightarrow> u32 \<Rightarrow> framebuffer option \<Rightarrow> memory res" where
  "fill_screen fb m color mirror_buffer =
     rbind (div_res (fb_pitch fb) (fb_bpp fb div 8)) (\<lambda>q.
       let buffer_size = q * fb_height fb;
           m1 = (case mirror_buffer of None \<Rightarrow> m | Some mirror \<Rightarrow> memset32 m (fb_pointer mirror) color buffer_size)
       in Inr (memset32 m1 (fb_pointer fb) color buffer_size))"

text \<open>The buffer is a slice of \<open>n\<close> double words at \<open>buffer\<close>.\<close>

definition blit_screen :: "framebuffer \<Rightarrow> memory \<Rightarrow> virtual_ptr \<Rightarrow> usize \<Rightarrow> framebuffer option \<Rightarrow> memory" where
  "blit_screen fb m buffer n mirror_buffer =
     (let m1 = copy_to_nonoverlapping 4 m buffer (fb_pointer fb) n
      in case mirror_buffer of None \<Rightarrow> m1 | Some mirror \<Rightarrow> copy_to_nonoverlapping 4 m1 buffer (fb_pointer mirror) n)"

text \<open>The first frame buffer of the boot loader: depth, pitch, address, width and height.\<close>

record limine_framebuffer =
  lf_bpp :: u16
  lf_pitch :: u64
  lf_addr :: usize
  lf_width :: u64
  lf_height :: u64

definition get_framebuffer ::
    "limine_framebuffer option \<Rightarrow> framebuffer option once_cell_state cell
     \<Rightarrow> (framebuffer option once_cell_state cell \<times> framebuffer option) res" where
  "get_framebuffer lf cell =
     once_get_or_set cell (\<lambda>_. map_option (\<lambda>l.
       framebuffer_new (ucast (lf_bpp l)) (lf_pitch l) (VirtualPtr (lf_addr l)) (lf_width l) (lf_height l)) lf)"

section \<open>The gradient\<close>

definition gradient_length :: "framebuffer \<Rightarrow> usize" where
  "gradient_length fb = (fb_height fb * fb_width fb) * (fb_bpp fb div 8)"

definition gradient_pixel :: "framebuffer \<Rightarrow> usize \<Rightarrow> usize \<Rightarrow> u32 res" where
  "gradient_pixel fb x y =
     rbind (div_res (255 * x) (fb_width fb - 1)) (\<lambda>r.
     rbind (div_res (255 * y) (fb_height fb - 1)) (\<lambda>g.
       let b = 255 - r in Inr (push_bit 16 (ucast r) OR push_bit 8 (ucast g) OR ucast b)))"

definition gradient_step :: "framebuffer \<Rightarrow> virtual_ptr \<Rightarrow> memory \<Rightarrow> usize \<Rightarrow> usize \<Rightarrow> memory res" where
  "gradient_step fb buffer m y x =
     rbind (gradient_pixel fb x y) (\<lambda>pixel.
     rbind (div_res (y * fb_pitch fb) (fb_bpp fb div 8)) (\<lambda>q.
       let i = q + x in
       if i < gradient_length fb then Inr (virtual_write m (virtual_add 4 buffer i) (to_le 4 (unat pixel)))
       else Inl (Panic IndexOutOfBounds)))"

text \<open>The two loops.\<close>

fun gradient_row :: "framebuffer \<Rightarrow> virtual_ptr \<Rightarrow> usize \<Rightarrow> nat list \<Rightarrow> memory \<Rightarrow> memory res" where
  "gradient_row fb buffer y [] m = Inr m"
| "gradient_row fb buffer y (x # xs) m = rbind (gradient_step fb buffer m y (of_nat x)) (gradient_row fb buffer y xs)"

fun gradient_rows :: "framebuffer \<Rightarrow> virtual_ptr \<Rightarrow> nat list \<Rightarrow> memory \<Rightarrow> memory res" where
  "gradient_rows fb buffer [] m = Inr m"
| "gradient_rows fb buffer (y # ys) m =
     rbind (gradient_row fb buffer (of_nat y) [0..<unat (fb_width fb)] m) (gradient_rows fb buffer ys)"

definition draw_gradient ::
    "usize \<Rightarrow> limine_framebuffer option \<Rightarrow> framebuffer option once_cell_state cell \<Rightarrow> pmm_state
     \<Rightarrow> (framebuffer option once_cell_state cell \<times> pmm_state) res" where
  "draw_gradient hhdm lf cell s =
     rbind (get_framebuffer lf cell) (\<lambda>(cell', fbo).
     rbind (unwrap_opt fbo) (\<lambda>fb.
       let pages = gradient_length fb div PAGE_SIZE;
           (s1, p) = pmm_alloc hhdm pages s;
           buffer = to_higher_half hhdm p
       in rbind (rassert (\<not> virtual_is_null buffer)) (\<lambda>_.
          rbind (gradient_rows fb buffer [0..<unat (fb_height fb)] (ram s1)) (\<lambda>m.
            Inr (cell', pmm_dealloc (to_lower_half hhdm buffer) pages
              (s1\<lparr>ram := blit_screen fb m buffer (gradient_length fb) None\<rparr>))))))"

section \<open>What is on the screen\<close>

lemma rep_stosd_outside:
  assumes "\<And>i. i < 4 * n \<Longrightarrow> x \<noteq> a + of_nat i"
  shows "rep_stosd m a c n x = m x"
  using assms
proof (induction n arbitrary: m a)
  case (Suc n)
  have "x \<noteq> a + of_nat i" if "i < 4" for i using Suc.prems [of i] that by simp
  then have "mem_write m a (to_le 4 (unat c)) x = m x" by (intro mem_write_outside) simp
  moreover have "x \<noteq> a + 4 + of_nat i" if "i < 4 * n" for i using Suc.prems [of "4 + i"] that by (simp add: add.assoc)
  ultimately show ?case using Suc.IH [of "a + 4"] by simp
qed simp

lemma rep_stosd_inside:
  assumes "k < n" "4 * n \<le> 2 ^ 64" "i < 4"
  shows "rep_stosd m a c n (a + of_nat (4 * k + i)) = to_le 4 (unat c) ! i"
  using assms
proof (induction n arbitrary: m a k)
  case (Suc n)
  show ?case
  proof (cases k)
    case 0
    have "a + of_nat i \<noteq> a + 4 + of_nat j" if "j < 4 * n" for j
    proof
      assume "a + of_nat i = a + 4 + of_nat j"
      then have "(of_nat i :: u64) = of_nat (4 + j)" by (simp add: add.assoc)
      with of_nat_word_inj [of i "4 + j"] that Suc.prems show False by simp
    qed
    then have "rep_stosd (mem_write m a (to_le 4 (unat c))) (a + 4) c n (a + of_nat i) = mem_write m a (to_le 4 (unat c)) (a + of_nat i)"
      by (rule rep_stosd_outside)
    with mem_write_inside [of i "to_le 4 (unat c)" m a] Suc.prems 0 show ?thesis by simp
  next
    case (Suc j)
    with Suc.IH [of j "mem_write m a (to_le 4 (unat c))" "a + 4"] Suc.prems show ?thesis by (simp add: add.assoc)
  qed
qed simp

text \<open>Filling the screen. When a pixel has at least a byte, filling writes the colour into every double word of the buffer, as many as
  pixels fit into the lines, and leaves all other memory alone; with less than 8 bits per pixel it panics.\<close>

theorem fill_screen_fills:
  assumes "n = unat (fb_pitch fb) div (unat (fb_bpp fb) div 8) * unat (fb_height fb)" "4 * n \<le> 2 ^ 64"
  shows "if fb_bpp fb < 8 then fill_screen fb m color None = Inl (Panic DivByZero)
    else \<exists>m'. fill_screen fb m color None = Inr m'
      \<and> (\<forall>k < n. mem_read m' (virtual_addr (fb_pointer fb) + of_nat (4 * k)) 4 = to_le 4 (unat color))
      \<and> (\<forall>a. (\<forall>i < 4 * n. a \<noteq> virtual_addr (fb_pointer fb) + of_nat i) \<longrightarrow> m' a = m a)"
proof -
  have z: "fb_bpp fb div 8 = 0 \<longleftrightarrow> fb_bpp fb < 8" by (simp add: word_less_nat_alt unat_div unat_eq_0 div_eq_0_iff flip: unat_eq_0)
  have "n < 2 ^ 64" using assms(2) by simp
  then have "unat (fb_pitch fb div (fb_bpp fb div 8) * fb_height fb) = n"
    unfolding assms(1) by (simp add: unat_word_ariths(2) unat_div)
  then have run: "memset32 m (fb_pointer fb) color (fb_pitch fb div (fb_bpp fb div 8) * fb_height fb)
      = rep_stosd m (virtual_addr (fb_pointer fb)) color n"
    by (simp add: memset32_def)
  have "mem_read (rep_stosd m a color n) (a + of_nat (4 * k)) 4 = to_le 4 (unat color)" if "k < n" for a k
  proof (rule nth_equalityI)
    fix i assume "i < length (mem_read (rep_stosd m a color n) (a + of_nat (4 * k)) 4)"
    then show "mem_read (rep_stosd m a color n) (a + of_nat (4 * k)) 4 ! i = to_le 4 (unat color) ! i"
      using rep_stosd_inside [OF that assms(2), of i m a color] by (simp add: mem_read_def add.assoc)
  qed simp
  then show ?thesis
    using z run rep_stosd_outside [of n] by (auto simp: fill_screen_def Let_def)
qed

text \<open>Drawing a pixel changes the four bytes at its place and nothing else.\<close>

theorem put_pixel_writes:
  assumes "off = unat y * unat (fb_pitch fb) + unat x * (unat (fb_bpp fb) div 8)" "off < 2 ^ 32" "unat (fb_pitch fb) < 2 ^ 32" "unat (fb_bpp fb) < 2 ^ 32"
  shows "mem_read (put_pixel fb m x y color) (virtual_addr (fb_pointer fb) + of_nat off) 4 = to_le 4 (unat color)"
    and "(\<And>i. i < 4 \<Longrightarrow> a \<noteq> virtual_addr (fb_pointer fb) + of_nat (off + i)) \<Longrightarrow> put_pixel fb m x y color a = m a"
proof -
  have "unat (ucast (fb_pitch fb) :: u32) = unat (fb_pitch fb)" "unat (ucast (fb_bpp fb div 8) :: u32) = unat (fb_bpp fb) div 8"
    using assms(3,4) by (simp_all add: unsigned_ucast_eq take_bit_nat_eq_self unat_div)
  then have u: "unat (y * ucast (fb_pitch fb) + x * ucast (fb_bpp fb div 8)) = off"
    using assms(1,2) by (simp add: unat_word_ariths)
  have "(ucast (y * ucast (fb_pitch fb) + x * ucast (fb_bpp fb div 8)) :: usize) = of_nat (unat (y * ucast (fb_pitch fb) + x * ucast (fb_bpp fb div 8)))"
    by (rule of_nat_unat [symmetric])
  also have "\<dots> = of_nat off" by (simp only: u)
  finally have "(ucast (y * ucast (fb_pitch fb) + x * ucast (fb_bpp fb div 8)) :: usize) = of_nat off" .
  then have run: "put_pixel fb m x y color = mem_write m (virtual_addr (fb_pointer fb) + of_nat off) (to_le 4 (unat color))"
    by (cases "fb_pointer fb") (simp add: put_pixel_def Let_def virtual_write_def)
  show "mem_read (put_pixel fb m x y color) (virtual_addr (fb_pointer fb) + of_nat off) 4 = to_le 4 (unat color)"
    using mem_read_write [of "to_le 4 (unat color)" m "virtual_addr (fb_pointer fb) + of_nat off"] by (simp add: run)
  show "(\<And>i. i < 4 \<Longrightarrow> a \<noteq> virtual_addr (fb_pointer fb) + of_nat (off + i)) \<Longrightarrow> put_pixel fb m x y color a = m a"
    unfolding run by (intro mem_write_outside) (simp add: add.assoc)
qed

text \<open>The gradient is copied past the frame buffer. With four bytes per pixel and no padding, the buffer of the gradient counts bytes but is made of double words:
  the copy to the screen overwrites memory up to four times the size of the frame buffer with what lies behind the
  buffer, while at most a quarter of the copied bytes were allocated.\<close>

theorem gradient_overruns:
  assumes "fb_bpp fb = 32" "fb_pitch fb = 4 * fb_width fb" "4 * unat (fb_len fb) \<le> 2 ^ 64" "i < 4 * unat (fb_len fb)"
  shows "blit_screen fb m buffer (gradient_length fb) None (virtual_addr (fb_pointer fb) + of_nat i) = m (virtual_addr buffer + of_nat i)
    \<and> 4 * (unat (gradient_length fb div PAGE_SIZE) * 4096) \<le> 4 * unat (fb_len fb)"
proof -
  have "(32 :: usize) div 8 = 4" by code_simp
  then have l: "gradient_length fb = fb_len fb" using assms(1,2) by (simp add: gradient_length_def fb_len_def ac_simps)
  let ?bs = "mem_read m (virtual_addr buffer) (unat (fb_len fb) * 4)"
  have "mem_write m (virtual_addr (fb_pointer fb)) ?bs (virtual_addr (fb_pointer fb) + of_nat i) = ?bs ! i"
    using assms(3,4) by (intro mem_write_inside) (simp_all add: mult.commute)
  moreover have "?bs ! i = m (virtual_addr buffer + of_nat i)" using assms(4) by (simp add: mem_read_def mult.commute)
  moreover have "unat (fb_len fb div PAGE_SIZE) * 4096 \<le> unat (fb_len fb)" by (simp add: unat_div PAGE_SIZE_def)
  ultimately show ?thesis by (simp add: l blit_screen_def copy_to_nonoverlapping_def)
qed

definition demo_fb :: framebuffer where
  "demo_fb = framebuffer_new 32 4096 (VirtualPtr 0xFFFF8000E0000000) 1024 768"

theorem fill_screen_fills_witness:
  "\<exists>m'. fill_screen demo_fb (\<lambda>_. 0) 0xFF00FF None = Inr m' \<and> mem_read m' 0xFFFF8000E0000004 4 = to_le 4 0xFF00FF \<and> m' 0xFFFF8000E0300000 = 0"
proof -
  have n: "786432 = unat (fb_pitch demo_fb) div (unat (fb_bpp demo_fb) div 8) * unat (fb_height demo_fb)"
    by (simp add: demo_fb_def framebuffer_new_def)
  have p: "virtual_addr (fb_pointer demo_fb) = 0xFFFF8000E0000000" "\<not> fb_bpp demo_fb < 8"
    by (simp_all add: demo_fb_def framebuffer_new_def)
  have far: "(0xFFFF8000E0300000 :: usize) \<noteq> 0xFFFF8000E0000000 + of_nat i" if "i < 4 * 786432" for i
  proof
    assume "(0xFFFF8000E0300000 :: usize) = 0xFFFF8000E0000000 + of_nat i"
    then have "(of_nat 3145728 :: usize) = of_nat i" by (simp add: algebra_simps)
    with of_nat_word_inj [of 3145728 i] that show False by simp
  qed
  from fill_screen_fills [OF n, of "\<lambda>_. 0" "0xFF00FF"] p obtain m' where
    m': "fill_screen demo_fb (\<lambda>_. 0) 0xFF00FF None = Inr m'"
      "\<forall>k < 786432. mem_read m' (0xFFFF8000E0000000 + of_nat (4 * k)) 4 = to_le 4 (unat (0xFF00FF :: u32))"
      "\<forall>a. (\<forall>i < 4 * 786432. a \<noteq> 0xFFFF8000E0000000 + of_nat i) \<longrightarrow> m' a = 0"
    by auto
  have "mem_read m' (0xFFFF8000E0000000 + of_nat (4 * 1)) 4 = to_le 4 (unat (0xFF00FF :: u32))"
    by (rule m'(2) [THEN spec, THEN mp]) simp
  moreover have "m' 0xFFFF8000E0300000 = 0" using m'(3) far by blast
  ultimately show ?thesis using m'(1) by simp
qed

theorem gradient_overruns_witness:
  "blit_screen demo_fb (\<lambda>a. if a = 0xFFFF800001300000 then 7 else 0) (VirtualPtr 0xFFFF800001000000) (gradient_length demo_fb) None
     0xFFFF8000E0300000 = 7 \<and> fb_len demo_fb = 0x300000"
proof -
  have b: "fb_bpp demo_fb = 32" "fb_pitch demo_fb = 4 * fb_width demo_fb" "fb_len demo_fb = 0x300000" "fb_pointer demo_fb = VirtualPtr 0xFFFF8000E0000000"
    by (simp_all add: demo_fb_def framebuffer_new_def fb_len_def)
  from gradient_overruns [OF b(1,2), of 3145728 "\<lambda>a. if a = 0xFFFF800001300000 then 7 else 0" "VirtualPtr 0xFFFF800001000000"] b(3,4)
  show ?thesis by simp
qed

end
