(* ===== verification/Boot.thy ===== *)
theory Boot
  imports Allocator Pmm Utf Ports Interrupts
begin

text \<open>
  Small pieces of the boot sequence that join components: the heap on top of the page allocator (\<^verbatim>\<open>init_allocator\<close> of
  \<^verbatim>\<open>src/mem/mod.rs\<close> with \<^verbatim>\<open>LinkedListAllocator::init\<close>), what the kernel asks the boot loader for (\<^verbatim>\<open>src/libs/limine.rs\<close>) and the setup of the
  keyboard controller (\<^verbatim>\<open>init\<close> and \<^verbatim>\<open>set_leds\<close> of \<^verbatim>\<open>src/drivers/keyboard.rs\<close>). The answers of the boot loader are arguments.
\<close>

section \<open>The heap\<close>

definition HEAP_PAGES :: usize where "HEAP_PAGES = 1024"

text \<open>The allocator under its lock, and the state of the page allocator.\<close>

definition init_allocator ::
    "usize \<Rightarrow> linked_list_allocator mutex \<Rightarrow> pmm_state \<Rightarrow> (linked_list_allocator mutex \<times> pmm_state) res option" where
  "init_allocator hhdm allocator s =
     Option.bind (mutex_lock allocator) (\<lambda>allocator_lock.
       let (s1, p) = pmm_alloc hhdm HEAP_PAGES s in
       obind (lla_init (guard_deref allocator_lock) (to_higher_half hhdm p) HEAP_PAGES) (\<lambda>heap.
         Some (Inr (guard_drop (guard_deref_mut allocator_lock (\<lambda>_. heap)), s1))))"

section \<open>The boot loader\<close>

record module_file =
  module_path :: "u8 list"
  module_bytes :: "u8 list"

fun find_module :: "utext \<Rightarrow> module_file list \<Rightarrow> module_file option \<Rightarrow> module_file option" where
  "find_module module_name [] file = file"
| "find_module module_name (m # ms) file =
     (case utf8_decode (module_path m) of
        None \<Rightarrow> find_module module_name ms file
      | Some name_text \<Rightarrow>
          if \<not> contains name_text module_name then find_module module_name ms file
          else find_module module_name ms (Some m))"

definition get_module :: "module_file list option \<Rightarrow> utext \<Rightarrow> module_file option" where
  "get_module response module_name = Option.bind response (\<lambda>modules. find_module module_name modules None)"

definition get_hhdm_offset :: "u64 option \<Rightarrow> usize once_cell_state cell \<Rightarrow> (usize once_cell_state cell \<times> usize) res" where
  "get_hhdm_offset response cell =
     rbind (case once_get cell of
              Inl _ \<Rightarrow> rbind (unwrap_opt response) (once_set cell)
            | Inr _ \<Rightarrow> Inr cell)
       (\<lambda>c. rbind (once_get_unchecked c) (\<lambda>offset. Inr (c, offset)))"

section \<open>The keyboard controller\<close>

partial_function (option) kbd_flush :: "'d ports \<Rightarrow> 'd \<Rightarrow> 'd option" where
  "kbd_flush hw d =
     (let r = inb hw 0x64 d in
      if fst r AND 1 \<noteq> 0 then kbd_flush hw (snd (inb hw 0x60 (snd r))) else Some (snd r))"

definition kbd_init :: "'d ports \<Rightarrow> usize \<Rightarrow> idt_entry list \<Rightarrow> 'd \<Rightarrow> (idt_entry list \<times> 'd) option" where
  "kbd_init hw handler idt d =
     Option.bind (kbd_flush hw d) (\<lambda>d1.
       let d2 = outb hw 0x64 0xAD (outb hw 0x64 0xA7 d1);
           idt1 = idt_set_gate (index_as_u8 IrqKeyboard) handler idt;
           d3 = outb hw 0x64 0xAE (outb hw 0x64 0xA8 d2)
       in Some (idt1, snd (inb hw 0x64 d3)))"

partial_function (option) await_ack :: "'d ports \<Rightarrow> 'd \<Rightarrow> 'd option" where
  "await_ack hw d = (let r = inb hw 0x60 d in if fst r \<noteq> 0xFA then await_ack hw (snd r) else Some (snd r))"

definition set_leds :: "'d ports \<Rightarrow> u8 \<Rightarrow> 'd \<Rightarrow> 'd option" where
  "set_leds hw led_byte d = map_option (outb hw 0x60 led_byte) (await_ack hw (outb hw 0x60 0xED d))"

section \<open>What the pieces give\<close>

lemma lla_new_inv: "unat a + 16 < 2 ^ 64 \<Longrightarrow> lla_inv (lla_new a) []"
  by (simp add: lla_inv_def wf_regions_def lla_new_def mem_node_new_def)

lemma lla_init_new:
  assumes "unat ha + 16 < 2 ^ 64" "off_head ha (p, 0x400000)" "8 dvd unat p" "unat p + 0x400000 < 2 ^ 64" "p \<noteq> 0"
  shows "\<exists>h. lla_init (lla_new ha) (VirtualPtr p) HEAP_PAGES = Some (Inr h) \<and> lla_inv h [(p, 0x400000)]"
proof -
  have "region_ok (p, 0x400000)" using assms by (simp add: region_ok_def unat_gt_0)
  moreover have "head_addr (lla_new ha) = ha" by (simp add: lla_new_def)
  ultimately show ?thesis
    using add_free_region_refines [OF lla_new_inv [OF assms(1)], of p "0x400000"] assms(2)
    by (auto simp: lla_init_def PAGE_SIZE_def HEAP_PAGES_def insert_region_def)
qed

lemma lock_free: "\<not> locked a \<Longrightarrow> mutex_lock a = Some (a\<lparr>locked := True\<rparr>)"
  by (subst mutex_lock.simps) (simp add: mutex_cas_def)

text \<open>C7: the heap gets its pages. When the page allocator has 1024 free pages in a row, starting the heap returns with the lock free and the
  heap made of exactly 4 MiB of pages that were free and are marked used now, and with both invariants. When it has not,
  the null address of the failed request is not noticed: the heap is placed on the first 4 MiB of physical memory
  although no page is marked used.\<close>

theorem heap_from_pages:
  assumes "pmm_inv hhdm s" "\<not> locked a" "data a = lla_new ha" "8 dvd unat hhdm" "hhdm \<noteq> 0"
    "unat hhdm + 0x400000 < 2 ^ 64" "unat hhdm + 4096 * unat (highest_page_idx s) < 2 ^ 64"
    "unat ha + 16 \<le> unat hhdm \<or> unat hhdm + 4096 * unat (highest_page_idx s) \<le> unat ha \<and> unat hhdm + 0x400000 \<le> unat ha" "unat ha + 16 < 2 ^ 64"
  shows "\<exists>a' s' page. init_allocator hhdm a s = Some (Inr (a', s')) \<and> \<not> locked a' \<and> pmm_inv hhdm s'
    \<and> lla_inv (data a') [(hhdm + page * PAGE_SIZE, 0x400000)]
    \<and> (if \<exists>q. q + 1024 \<le> unat (highest_page_idx s) \<and> free_run s q 1024
       then free_run s (unat page) 1024 \<and> used_pages s' = used_pages s + 1024
         \<and> (\<forall>j < highest_page_idx s. bitmap_test s' j = (page \<le> j \<and> j < page + 1024 \<or> bitmap_test s j))
       else page = 0 \<and> used_pages s' = used_pages s \<and> (\<forall>j. bitmap_test s' j = bitmap_test s j))"
proof -
  have pages: "HEAP_PAGES \<noteq> 0" "unat HEAP_PAGES = 1024" by (simp_all add: HEAP_PAGES_def)
  let ?run = "\<exists>q. q + unat HEAP_PAGES \<le> unat (highest_page_idx s) \<and> free_run s q (unat HEAP_PAGES)"
  have place: "\<exists>h. lla_init (lla_new ha) (VirtualPtr p) HEAP_PAGES = Some (Inr h) \<and> lla_inv h [(p, 0x400000)]"
    if "unat p = unat hhdm + 4096 * n" "n + 1024 \<le> unat (highest_page_idx s) \<or> n = 0" for p n
  proof (rule lla_init_new)
    show "off_head ha (p, 0x400000)" using that assms(8) by (auto simp: off_head_def)
    show "8 dvd unat p" using that assms(4) by auto
    show "unat p + 0x400000 < 2 ^ 64" using that assms(6,7) by auto
    show "p \<noteq> 0" using that assms(5) by (metis add_is_0 unat_0 unat_eq_0)
  qed (use assms in simp)
  obtain s' page where alloc: "pmm_alloc hhdm HEAP_PAGES s = (s', PhysicalPtr (page * PAGE_SIZE))" "pmm_inv hhdm s'"
    and n: "unat (hhdm + page * PAGE_SIZE) = unat hhdm + 4096 * unat page" "unat page + 1024 \<le> unat (highest_page_idx s) \<or> unat page = 0"
    and post: "if ?run
       then free_run s (unat page) 1024 \<and> used_pages s' = used_pages s + 1024
         \<and> (\<forall>j < highest_page_idx s. bitmap_test s' j = (page \<le> j \<and> j < page + 1024 \<or> bitmap_test s j))
       else page = 0 \<and> used_pages s' = used_pages s \<and> (\<forall>j. bitmap_test s' j = bitmap_test s j)"
  proof (cases ?run)
    case True
    from pmm_alloc_cases [OF assms(1) pages(1), unfolded if_P [OF True]] obtain page s'
      where p: "pmm_alloc hhdm HEAP_PAGES s = (s', PhysicalPtr (page * PAGE_SIZE))" "unat page + unat HEAP_PAGES \<le> unat (highest_page_idx s)"
        "free_run s (unat page) (unat HEAP_PAGES)" "used_pages s' = used_pages s + HEAP_PAGES" "pmm_inv hhdm s'"
        "\<forall>j. j < highest_page_idx s \<longrightarrow> bitmap_test s' j = (page \<le> j \<and> j < page + HEAP_PAGES \<or> bitmap_test s j)" by blast
    have "unat (page * PAGE_SIZE) = 4096 * unat page" "unat hhdm + 4096 * unat page < 2 ^ 64"
      using p(2) pages(2) assms(7) by (simp_all add: unat_word_ariths PAGE_SIZE_def)
    then have "unat (hhdm + page * PAGE_SIZE) = unat hhdm + 4096 * unat page" by (simp add: unat_word_ariths)
    with p True pages show thesis by (intro that [of s' page]) (simp_all add: HEAP_PAGES_def)
  next
    case False
    from pmm_alloc_cases [OF assms(1) pages(1), unfolded if_not_P [OF False]] obtain s'
      where "pmm_alloc hhdm HEAP_PAGES s = (s', physical_null)" "\<forall>j. bitmap_test s' j = bitmap_test s j"
        "used_pages s' = used_pages s" "pmm_inv hhdm s'" by blast
    with False show thesis by (intro that [of s' 0]) (simp_all add: physical_null_def)
  qed
  from place [OF n] obtain h where h: "lla_init (lla_new ha) (VirtualPtr (hhdm + page * PAGE_SIZE)) HEAP_PAGES = Some (Inr h)"
    "lla_inv h [(hhdm + page * PAGE_SIZE, 0x400000)]" by blast
  have "init_allocator hhdm a s = Some (Inr (a\<lparr>locked := False, data := h\<rparr>, s'))"
    using lock_free [OF assms(2)] assms(3) alloc(1) h(1)
    by (simp add: init_allocator_def guard_deref_def guard_deref_mut_def guard_drop_def to_higher_half_def add.commute)
  with alloc(2) h(2) post pages(2) show ?thesis by (intro exI [of _ "a\<lparr>locked := False, data := h\<rparr>"] exI) auto
qed

text \<open>A machine with 2048 pages of which the first eight are used; its bitmap is at \<open>2 ^ 32\<close>.\<close>

definition demo_pages :: pmm_state where
  "demo_pages = \<lparr>bitmap = 2 ^ 32, highest_page_idx = 2048, last_used_page_idx = 0, usable_pages = 2040, used_pages = 8,
     ram = (\<lambda>_. 0)(2 ^ 32 := 0xFF)\<rparr>"

lemma demo_pages_inv: "pmm_inv 0xFFFF800000000000 demo_pages"
proof -
  have "(2 ^ 32 :: u64) + j div 8 \<noteq> 0xFFFF800000000000 + i * 4096 + of_nat k" if "i < 2048" "j < 2048" "k < 4096" for i j :: usize and k
  proof -
    have i: "unat i < 2048" "unat j < 2048" using that by (simp_all add: word_less_nat_alt)
    have k: "unat (of_nat k :: u64) = k" using that by (simp add: unat_of_nat64)
    have "unat (0xFFFF800000000000 + i * 4096 + of_nat k) = 0xFFFF800000000000 + unat i * 4096 + k"
      using i that k by (simp add: unat_word_ariths)
    moreover have "unat ((2 ^ 32 :: u64) + j div 8) = 4294967296 + unat j div 8" using i by (simp add: unat_word_ariths unat_div)
    moreover have "4294967296 + unat j div 8 < 0xFFFF800000000000" using i by simp
    ultimately have "unat ((2 ^ 32 :: u64) + j div 8) < unat (0xFFFF800000000000 + i * 4096 + of_nat k)" by linarith
    then show ?thesis by (metis less_irrefl)
  qed
  then show ?thesis by (simp add: pmm_inv_def demo_pages_def bitmap_test_def PAGE_SIZE_def)
qed

lemma demo_pages_run: "free_run demo_pages 8 1024"
proof -
  have "\<not> bitmap_test demo_pages (of_nat i)" if "8 \<le> i" "i < 1032" for i
  proof -
    have "unat ((of_nat i :: usize) div 8) = i div 8" using that by (simp add: unat_div unat_of_nat64)
    then have "(of_nat i :: usize) div 8 \<noteq> 0" using that by (metis div_greater_zero_iff unat_0 zero_less_numeral gr_implies_not0)
    then show ?thesis by (simp add: bitmap_test_def demo_pages_def)
  qed
  then show ?thesis by (simp add: free_run_iff)
qed

theorem heap_from_pages_witness:
  "\<exists>a s page. init_allocator 0xFFFF800000000000 (mutex_new (lla_new 0xFFFFFFFF80000000)) demo_pages = Some (Inr (a, s))
    \<and> lla_inv (data a) [(0xFFFF800000000000 + page * PAGE_SIZE, 0x400000)] \<and> used_pages s = 1032"
proof -
  have c: "\<exists>q. q + 1024 \<le> unat (highest_page_idx demo_pages) \<and> free_run demo_pages q 1024"
    using demo_pages_run by (intro exI [of _ 8]) (simp add: demo_pages_def)
  have d: "highest_page_idx demo_pages = 2048" "used_pages demo_pages = 8" by (simp_all add: demo_pages_def)
  show ?thesis
    using heap_from_pages [OF demo_pages_inv, of "mutex_new (lla_new 0xFFFFFFFF80000000)" "0xFFFFFFFF80000000"] c
    unfolding if_P [OF c] by (fastforce simp: mutex_new_def d)
qed

section \<open>Smaller facts\<close>

text \<open>The last module whose path contains the name.\<close>

lemma find_module_last:
  "find_module name ms f = (case filter (\<lambda>m. \<exists>t. utf8_decode (module_path m) = Some t \<and> contains t name) ms of
     [] \<Rightarrow> f | fs \<Rightarrow> Some (last fs))"
  by (induction ms arbitrary: f) (auto split: option.splits list.splits)

text \<open>The offset of the first answer stays: later calls neither ask again nor change it.\<close>

lemma hhdm_offset_stable:
  assumes "get_hhdm_offset response once_new = Inr (c, v)"
  shows "response = Some v \<and> get_hhdm_offset response' c = Inr (c, v)"
  using assms by (auto simp: get_hhdm_offset_def once_defs)

text \<open>A controller that runs out of pending bytes: \<open>polls\<close> bounds how many are left.\<close>

definition ps2_controller :: "'d ports \<Rightarrow> ('d \<Rightarrow> nat) \<Rightarrow> bool" where
  "ps2_controller hw polls \<longleftrightarrow>
     (\<forall>d. fst (port_in8 hw 0x64 d) AND 1 \<noteq> 0 \<longrightarrow> polls (snd (port_in8 hw 0x60 (snd (port_in8 hw 0x64 d)))) < polls d)"

lemma kbd_flush_returns:
  assumes "ps2_controller hw polls"
  shows "\<exists>d'. kbd_flush hw d = Some d'"
proof (induction "polls d" arbitrary: d rule: less_induct)
  case less
  show ?case
  proof (cases "fst (port_in8 hw 0x64 d) AND 1 = 0")
    case True
    then show ?thesis by (subst kbd_flush.simps) (simp add: inb_def Let_def)
  next
    case False
    with assms have "polls (snd (port_in8 hw 0x60 (snd (port_in8 hw 0x64 d)))) < polls d" by (simp add: ps2_controller_def)
    from less [OF this] False show ?thesis by (subst kbd_flush.simps) (simp add: inb_def Let_def)
  qed
qed

text \<open>Starting the keyboard returns and points exactly vector 33 at the handler.\<close>

lemma kbd_init_gate:
  assumes "ps2_controller hw polls" "length idt = 256"
  shows "\<exists>idt' d'. kbd_init hw handler idt d = Some (idt', d') \<and> gate_address (idt' ! 33) = handler
    \<and> (\<forall>n < 256. n \<noteq> 33 \<longrightarrow> idt' ! n = idt ! n)"
proof -
  obtain d1 where "kbd_flush hw d = Some d1" using kbd_flush_returns [OF assms(1)] by blast
  then show ?thesis using assms(2) by (auto simp: kbd_init_def Let_def set_gate_nth gate_address_entry)
qed

end
