(* ===== verification/Squashfs_Cache.thy ===== *)
theory Squashfs_Cache
  imports Squashfs_Correct Trait_Objects
begin

text \<open>
  Squashfs behind the traits of the virtual file system. Reading metadata decompresses the chunks of the tables in place, so lookups change the
  file system. When the inode table and the directory table are one chunk each, which holds for images with at most
  8 KiB of each, the changes cannot be seen: every operation that returns gives what it gives on the image as it was
  loaded, and where that panics or hangs it panics or hangs as well. So \<open>sq_ops\<close> is an instance of \<open>fs_model\<close>.
\<close>

section \<open>The traits\<close>

fun sq_vnode_type :: "sq_inode \<Rightarrow> vnode_type" where
  "sq_vnode_type (BasicFile _) = Regular"
| "sq_vnode_type _ = Directory"

text \<open>A panic leaves no state behind; the state next to it is the one before the call.\<close>

definition sq_run :: "('a \<Rightarrow> 'b res) \<Rightarrow> squashfs \<Rightarrow> (squashfs \<times> 'a) res option \<Rightarrow> (squashfs, 'b) io" where
  "sq_run g fs m = map_option (\<lambda>r. case r of Inl e \<Rightarrow> (Inl e, fs) | Inr (fs', x) \<Rightarrow> (g x, fs')) m"

definition sq_fs_ops :: "(squashfs, sq_inode) dyn_fs_ops" where
  "sq_fs_ops =
     \<lparr>d_mount = (\<lambda>path fs. Some (Inr (), fs)),
      d_unmount = (\<lambda>fs. Some (Inr (), fs)),
      d_root = (\<lambda>fs. sq_run (\<lambda>ino. Inr (ino, Directory)) fs (read_root_dir fs)),
      d_statfs = (\<lambda>fs. Some (Inl (Panic TodoPanic), fs)),
      d_sync = (\<lambda>fs. Some (Inl (Panic TodoPanic), fs)),
      d_fid = (\<lambda>path fs. Some (Inl (Panic TodoPanic), fs)),
      d_vget = (\<lambda>fid fs. Some (Inl (Panic TodoPanic), fs))\<rparr>"

definition sq_found :: "sq_inode option \<Rightarrow> (sq_inode \<times> vnode_type) res" where
  "sq_found x = (case x of None \<Rightarrow> Inl ErrUnit | Some ino \<Rightarrow> Inr (ino, sq_vnode_type ino))"

definition sq_vnode_ops :: "(squashfs, sq_inode, 'box) dyn_vnode_ops" where
  "sq_vnode_ops =
     \<lparr>d_open = (\<lambda>f c ino. Inr ()),
      d_close = (\<lambda>f c ino. Inr ()),
      d_read = (\<lambda>count offset f c ino fs. map_option (\<lambda>r. (r, fs)) (sq_read fs ino count offset)),
      d_write = (\<lambda>offset buf f c ino. Inl (Panic TodoPanic)),
      d_ioctl = (\<lambda>com d f c ino. Inl (Panic TodoPanic)),
      d_getattr = (\<lambda>c ino. Inl (Panic TodoPanic)),
      d_setattr = (\<lambda>va c ino. Inl (Panic TodoPanic)),
      d_access = (\<lambda>m c ino. Inl (Panic TodoPanic)),
      d_lookup = (\<lambda>nm c ino fs. sq_run sq_found fs (sq_lookup fs ino nm)),
      d_create = (\<lambda>nm va e m c ino. Inl (Panic TodoPanic)),
      d_link = (\<lambda>target_dir target_name c ino. Inl (Panic TodoPanic)),
      d_rename = (\<lambda>nm target_dir target_name c ino. Inl (Panic TodoPanic)),
      d_mkdir = (\<lambda>nm va c ino. Inl (Panic TodoPanic)),
      d_readdir = (\<lambda>uiop c ino. Inl (Panic TodoPanic)),
      d_symlink = (\<lambda>link_name va target_name c ino. Inl (Panic TodoPanic)),
      d_readlink = (\<lambda>uiop c ino. Inl (Panic TodoPanic)),
      d_fsync = (\<lambda>c ino. Inl (Panic TodoPanic)),
      d_len = sq_len\<rparr>"

definition sq_ops :: "(squashfs, sq_inode, 'box) dyn_ops" where
  "sq_ops = (sq_fs_ops, sq_vnode_ops)"

text \<open>The same operations as descriptions of the loaded image, which keeps its tables as they are.\<close>

definition settle :: "('a \<Rightarrow> 'b res) \<Rightarrow> (squashfs \<times> 'a) res option \<Rightarrow> 'b res" where
  "settle g m = (case m of None \<Rightarrow> Inl (Panic RawAccess) | Some r \<Rightarrow> rbind r (\<lambda>(_, x). g x))"

definition sq_spec :: "(squashfs, sq_inode) fs_ops" where
  "sq_spec =
     \<lparr>op_mount = (\<lambda>path fs. Inr fs),
      op_root = (\<lambda>fs. settle (\<lambda>ino. Inr (ino, Directory)) (read_root_dir fs)),
      op_lookup = (\<lambda>fs ino nm. settle sq_found (sq_lookup fs ino nm)),
      op_read = sq_read,
      op_len = sq_len\<rparr>"

section \<open>Tables of one chunk\<close>

definition one_chunk :: "decompressor \<Rightarrow> chunk list \<Rightarrow> chunk list \<Rightarrow> bool" where
  "one_chunk dec cs ds \<longleftrightarrow> (\<exists>c d. cs = [c] \<and> ds = [d] \<and> chunk_decompress dec c = chunk_decompress dec d)"

lemma decompressed_header:
  "chunk_is_compressed (to_le 2 (unat ((x :: u16) OR 0x8000)) @ d) = Inr False"
proof -
  have "(x OR 0x8000) AND 0x8000 \<noteq> 0"
  proof -
    have "(x OR 0x8000) AND 0x8000 = 0x8000" by (rule bit_eqI) (auto simp: bit_simps)
    then show ?thesis by simp
  qed
  then show ?thesis
    by (simp add: chunk_is_compressed_def chunk_header_def HEADER_SIZE_def le_field_ok le_val_to_le_unat)
qed

lemma decompress_again:
  assumes "chunk_decompress dec c = Some (Inr c')"
  shows "chunk_decompress dec c' = Some (Inr c')"
proof (cases "c' = c")
  case False
  with assms obtain d where "c' = to_le 2 (unat ((of_nat (length d) :: u16) OR 0x8000)) @ d"
    by (auto simp: chunk_decompress_def obind_eq_ok split: if_splits)
  then show ?thesis by (simp add: chunk_decompress_def decompressed_header)
qed (use assms in simp)

text \<open>The search for a chunk counts multiples of the length of the first one, so it ends at chunk 0 for position 0 only.\<close>

lemma chunk_index_zero:
  assumes "chunk_index [c] p i tot = Some (Inr 0)" "chunk_len c = Inr l" "tot = i * of_nat (l + HEADER_SIZE)"
  shows "p = 0"
proof -
  have "tot = i * of_nat (l + HEADER_SIZE) \<longrightarrow> cs = [c] \<longrightarrow> y = Inr 0 \<longrightarrow> p = 0"
    if "chunk_index cs p i tot = Some y" for cs y
    using that
  proof (rule chunk_index.raw_induct [rotated, where P = "\<lambda>cs p i tot y. tot = i * of_nat (l + HEADER_SIZE)
      \<longrightarrow> cs = [c] \<longrightarrow> y = Inr 0 \<longrightarrow> p = 0"])
    fix f :: "chunk list \<Rightarrow> u64 \<Rightarrow> u64 \<Rightarrow> u64 \<Rightarrow> u64 res option" and cs p i t y
    assume IH: "\<And>cs p i t y. f cs p i t = Some y
        \<Longrightarrow> t = i * of_nat (l + HEADER_SIZE) \<longrightarrow> cs = [c] \<longrightarrow> y = Inr 0 \<longrightarrow> p = 0"
      and y: "(if t = p then Some (Inr i) else case rbind (index_res cs 0) chunk_len of Inl e \<Rightarrow> Some (Inl e)
        | Inr l \<Rightarrow> f cs p (i + 1) (t + of_nat (l + HEADER_SIZE))) = Some y"
    show "t = i * of_nat (l + HEADER_SIZE) \<longrightarrow> cs = [c] \<longrightarrow> y = Inr 0 \<longrightarrow> p = 0"
    proof (intro impI)
      assume t: "t = i * of_nat (l + HEADER_SIZE)" "cs = [c]" "y = Inr 0"
      show "p = 0"
      proof (cases "t = p")
        case True
        with y t show ?thesis by simp
      next
        case False
        with y t(2) assms(2) have "f cs p (i + 1) (t + of_nat (l + HEADER_SIZE)) = Some y"
          by (simp add: index_res_def)
        from IH [OF this] t show ?thesis by (simp add: algebra_simps)
      qed
    qed
  qed
  with assms(1,3) show ?thesis by blast
qed

lemma chunk_len_compressed: "chunk_len c = Inl e \<Longrightarrow> chunk_decompress dec c = Some (Inl e)"
  by (cases "chunk_header c") (simp_all add: chunk_len_def chunk_decompress_def chunk_is_compressed_def)

lemma chunk_header_error: "chunk_header c = Inl e \<Longrightarrow> \<exists>p. e = Panic p"
  by (auto simp: chunk_header_def le_field_def slice_res_def rbind_eq_Inl split: if_splits)

lemma get_slice_elsewhere:
  assumes "p \<noteq> 0"
  shows "\<not> survives (get_slice dec [c] p off n)"
proof (cases "chunk_len c")
  case (Inl e)
  then have "chunk_header c = Inl e" by (auto simp: chunk_len_def rbind_eq_Inl)
  with chunk_header_error obtain q where q: "e = Panic q" by blast
  have "chunk_index [c] p 0 0 = Some (Inl e)"
    using assms Inl by (subst chunk_index.simps) (simp add: index_res_def)
  with q show ?thesis by (simp add: get_slice_def)
next
  case (Inr l)
  have err: "\<exists>q. e = Panic q" if "chunk_index [c] p 0 0 = Some (Inl e)" for e
  proof -
    have "cs = [c] \<longrightarrow> y \<noteq> Inl e" if "chunk_index cs p i t = Some y" for cs p i t y
      using that
    proof (rule chunk_index.raw_induct [rotated, where P = "\<lambda>cs p i t y. cs = [c] \<longrightarrow> y \<noteq> Inl e"])
      fix f :: "chunk list \<Rightarrow> u64 \<Rightarrow> u64 \<Rightarrow> u64 \<Rightarrow> u64 res option" and cs p i t y
      assume IH: "\<And>cs p i t y. f cs p i t = Some y \<Longrightarrow> cs = [c] \<longrightarrow> y \<noteq> Inl e"
        and y: "(if t = p then Some (Inr i) else case rbind (index_res cs 0) chunk_len of Inl e \<Rightarrow> Some (Inl e)
          | Inr l \<Rightarrow> f cs p (i + 1) (t + of_nat (l + HEADER_SIZE))) = Some y"
      show "cs = [c] \<longrightarrow> y \<noteq> Inl e" using y Inr by (auto simp: index_res_def split: if_splits dest!: IH)
    qed
    with that show ?thesis by blast
  qed
  show ?thesis
  proof (cases "chunk_index [c] p 0 0")
    case (Some y)
    show ?thesis
    proof (cases y)
      case (Inr idx)
      have "idx \<noteq> 0"
      proof
        assume "idx = 0"
        with Some Inr chunk_index_zero [of c p 0 0 l] \<open>chunk_len c = Inr l\<close> assms show False by simp
      qed
      then have "index_res [c] (unat idx) = Inl (Panic IndexOutOfBounds)"
        by (simp add: index_res_def unat_eq_0)
      with Some Inr show ?thesis by (simp add: get_slice_def)
    qed (use Some err in \<open>auto simp: get_slice_def\<close>)
  qed (simp add: get_slice_def)
qed

lemma get_slice_first:
  assumes "chunk_decompress dec c = chunk_decompress dec d"
  shows "get_slice dec [c] 0 off n = get_slice dec [d] 0 off n"
  using assms by (simp add: get_slice_def chunk_index_first index_res_def)


section \<open>Agreement with the loaded image\<close>

text \<open>The run \<open>m\<close> returns when \<open>m'\<close> does, with related results, and neither survives otherwise.\<close>

definition agrees :: "('a \<Rightarrow> 'b \<Rightarrow> bool) \<Rightarrow> 'a res option \<Rightarrow> 'b res option \<Rightarrow> bool" where
  "agrees R m m' \<longleftrightarrow>
     (case m' of
        Some (Inr y) \<Rightarrow> \<exists>x. m = Some (Inr x) \<and> R x y
      | Some (Inl ErrUnit) \<Rightarrow> m = Some (Inl ErrUnit)
      | _ \<Rightarrow> \<not> survives m)"

lemma agrees_simps [simp]:
  "agrees R m (Some (Inr y)) \<longleftrightarrow> (\<exists>x. m = Some (Inr x) \<and> R x y)"
  "agrees R m (Some (Inl ErrUnit)) \<longleftrightarrow> m = Some (Inl ErrUnit)"
  "agrees R m (Some (Inl (Panic p))) \<longleftrightarrow> \<not> survives m"
  "agrees R m None \<longleftrightarrow> \<not> survives m"
  by (simp_all add: agrees_def)

lemma agrees_cases:
  assumes "agrees R m m'"
  obtains (ok) x y where "m = Some (Inr x)" "m' = Some (Inr y)" "R x y"
    | (err) "m = Some (Inl ErrUnit)" "m' = Some (Inl ErrUnit)"
    | (stuck) "\<not> survives m" "\<not> survives m'"
  using assms by (cases m' rule: survives.cases) auto

lemma agrees_stuck: "\<not> survives m \<Longrightarrow> \<not> survives m' \<Longrightarrow> agrees R m m'"
  by (auto simp: not_survives_cases)

lemma agrees_bind:
  assumes "agrees R m m'" and "\<And>x y. R x y \<Longrightarrow> agrees R' (f x) (g y)"
  shows "agrees R' (obind m f) (obind m' g)"
  using assms(1)
proof (cases rule: agrees_cases)
  case stuck
  then show ?thesis by (intro agrees_stuck) (auto simp: not_survives_cases)
qed (use assms(2) in auto)

lemma agrees_refl: "agrees (=) m m"
  by (cases m rule: survives.cases) auto

lemma agrees_sym: "agrees R m m' \<Longrightarrow> agrees (\<lambda>x y. R y x) m' m"
  by (erule agrees_cases) (auto intro: agrees_stuck)

definition one_block_rep :: "squashfs \<Rightarrow> squashfs \<Rightarrow> bool" where
  "one_block_rep fs gs \<longleftrightarrow> fs = gs\<lparr>inode_table := inode_table fs, directory_table := directory_table fs\<rparr>
     \<and> one_chunk uncompress_data (inode_table fs) (inode_table gs)
     \<and> one_chunk uncompress_data (directory_table fs) (directory_table gs)"

text \<open>Both stand for the image \<open>b\<close>.\<close>

definition like :: "squashfs \<Rightarrow> squashfs \<Rightarrow> squashfs \<Rightarrow> bool" where
  "like b fs gs \<longleftrightarrow> one_block_rep fs b \<and> one_block_rep gs b"

definition rep_with :: "squashfs \<Rightarrow> squashfs \<times> 'a \<Rightarrow> squashfs \<times> 'a \<Rightarrow> bool" where
  "rep_with b x y \<longleftrightarrow> like b (fst x) (fst y) \<and> snd x = snd y"

lemma one_chunk_sym: "one_chunk dec cs ds \<Longrightarrow> one_chunk dec ds cs"
  by (auto simp: one_chunk_def)

lemma like_sym: "like b fs gs \<Longrightarrow> like b gs fs"
  by (simp add: like_def)

lemma one_chunk_trans: "one_chunk dec cs ds \<Longrightarrow> one_chunk dec ds es \<Longrightarrow> one_chunk dec cs es"
  by (auto simp: one_chunk_def)

lemma like_tables:
  assumes "like b fs gs"
  shows "one_chunk uncompress_data (inode_table fs) (inode_table gs)"
    and "one_chunk uncompress_data (directory_table fs) (directory_table gs)"
  using assms unfolding like_def one_block_rep_def by (meson one_chunk_sym one_chunk_trans)+

lemma one_block_rep_update:
  assumes "one_block_rep fs b"
  shows "one_chunk uncompress_data cs (directory_table b) \<Longrightarrow> one_block_rep (fs\<lparr>directory_table := cs\<rparr>) b"
    and "one_chunk uncompress_data cs (inode_table b) \<Longrightarrow> one_block_rep (fs\<lparr>inode_table := cs\<rparr>) b"
  using assms by (cases fs; cases b; simp add: one_block_rep_def)+

lemma one_block_rep_superblock: "one_block_rep fs b \<Longrightarrow> superblock fs = superblock b"
  by (cases fs; cases b) (simp add: one_block_rep_def)

lemma like_directory:
  assumes "like b fs gs" "one_chunk uncompress_data cs (directory_table fs)"
  shows "like b (fs\<lparr>directory_table := cs\<rparr>) (gs\<lparr>directory_table := cs\<rparr>)"
proof -
  have "one_chunk uncompress_data cs (directory_table b)"
    using assms one_chunk_trans unfolding like_def one_block_rep_def by blast
  with assms(1) show ?thesis by (simp add: like_def one_block_rep_update)
qed

lemma like_inode:
  assumes "like b fs gs" "one_chunk uncompress_data cs (inode_table fs)"
  shows "like b (fs\<lparr>inode_table := cs\<rparr>) (gs\<lparr>inode_table := cs\<rparr>)"
proof -
  have "one_chunk uncompress_data cs (inode_table b)"
    using assms one_chunk_trans unfolding like_def one_block_rep_def by blast
  with assms(1) show ?thesis by (simp add: like_def one_block_rep_update)
qed

lemma get_slice_table:
  assumes "get_slice dec [c] 0 off n = Some (Inr (cs', bytes))"
  obtains c' where "chunk_decompress dec c = Some (Inr c')" "cs' = [c']"
proof -
  from assms obtain c' k cs1 stop where c': "chunk_decompress dec c = Some (Inr c')"
    and more: "more_chunks dec [c'] (Suc 0) k n = Some (Inr (cs1, stop))"
    and g: "gather dec cs1 0 stop off n = Some (Inr (cs', bytes))"
    by (auto simp: get_slice_def chunk_index_first index_res_def obind_eq_ok)
  from more have "cs1 = [c']" "stop = Suc 0"
    by (auto simp: more_chunks.simps split: if_splits)
  with g decompress_again [OF c'] have "cs' = [c']" by (auto simp: index_res_def obind_eq_ok Let_def)
  with c' that show ?thesis by blast
qed

text \<open>A slice of a table of one chunk: the bytes do not depend on whether the chunk has been decompressed, and the
  table stands for the same data afterwards.\<close>

lemma get_slice_agrees:
  assumes "one_chunk dec cs ds"
  shows "agrees (\<lambda>x y. snd x = snd y \<and> fst x = fst y \<and> one_chunk dec (fst x) cs)
    (get_slice dec cs p off n) (get_slice dec ds p off n)"
proof -
  obtain c d where cd: "cs = [c]" "ds = [d]" "chunk_decompress dec c = chunk_decompress dec d"
    using assms by (auto simp: one_chunk_def)
  show ?thesis
  proof (cases "p = 0")
    case True
    have e: "get_slice dec cs p off n = get_slice dec ds p off n"
      using get_slice_first [OF cd(3)] cd True by simp
    have "one_chunk dec (fst x) cs" if "get_slice dec cs p off n = Some (Inr x)" for x
    proof -
      from that cd(1) True have "get_slice dec [c] 0 off n = Some (Inr (fst x, snd x))" by simp
      then obtain c' where "chunk_decompress dec c = Some (Inr c')" "fst x = [c']" by (rule get_slice_table)
      with decompress_again cd(1) show ?thesis by (auto simp: one_chunk_def)
    qed
    with e show ?thesis by (cases "get_slice dec ds p off n" rule: survives.cases) auto
  next
    case False
    with get_slice_elsewhere cd show ?thesis by (intro agrees_stuck) auto
  qed
qed

lemma directory_slice_agrees:
  assumes "like b fs gs"
  shows "agrees (rep_with b) (directory_slice fs block off n) (directory_slice gs block off n)"
  unfolding directory_slice_def
  by (rule agrees_bind [OF get_slice_agrees [OF like_tables(2) [OF assms]]])
    (auto simp: rep_with_def like_directory [OF assms] split: prod.splits)

lemma inode_slice_agrees:
  assumes "like b fs gs"
  shows "agrees (\<lambda>x y. snd x = snd y \<and> like b (fs\<lparr>inode_table := fst x\<rparr>) (gs\<lparr>inode_table := fst y\<rparr>))
    (get_slice uncompress_data (inode_table fs) block off n) (get_slice uncompress_data (inode_table gs) block off n)"
  using get_slice_agrees [OF like_tables(1) [OF assms], of block off n]
  by (elim agrees_cases) (auto intro: agrees_stuck like_inode [OF assms])

text \<open>A value that does not depend on the file system.\<close>

lemma agrees_same:
  assumes "\<And>x. agrees R (f x) (g x)"
  shows "agrees R (obind (Some m) f) (obind (Some m) g)"
  by (rule agrees_bind [OF agrees_refl]) (use assms in simp)


lemma rep_withD: "rep_with b (fs, x) (gs, y) \<Longrightarrow> like b fs gs \<and> x = y"
  by (simp add: rep_with_def)

lemma directory_round_agrees:
  assumes "like b fs gs"
  shows "agrees (rep_with b) (directory_round fs block off dir_size name hdr offset i)
    (directory_round gs block off dir_size name hdr offset i)"
proof -
  consider "i = dth_entry_count hdr \<and> offset \<noteq> dir_size" | "\<not> (i = dth_entry_count hdr \<and> offset \<noteq> dir_size)" "offset \<ge> dir_size"
    | "\<not> (i = dth_entry_count hdr \<and> offset \<noteq> dir_size)" "\<not> offset \<ge> dir_size" by blast
  then show ?thesis
  proof cases
    case 1
    then show ?thesis
      unfolding directory_round_def
      by (auto simp: rep_with_def intro!: agrees_bind [OF directory_slice_agrees [OF assms]] agrees_same split del: if_split)
  next
    case 2
    with assms show ?thesis unfolding directory_round_def if_not_P [OF 2(1)] if_P [OF 2(2)] by (simp add: rep_with_def)
  next
    case 3
    then show ?thesis
      unfolding directory_round_def if_not_P [OF 3(1)] if_not_P [OF 3(2)]
      apply (intro agrees_bind [OF directory_slice_agrees [OF assms]])
      apply (clarsimp simp: rep_with_def Let_def)
      apply (intro agrees_same)
      apply (rule agrees_bind [OF directory_slice_agrees])
      apply assumption
      apply (clarsimp simp: rep_with_def)
      apply (intro agrees_same)
      apply (simp add: rep_with_def)
      done
  qed
qed

text \<open>The loop over a directory, by induction on its run on the loaded image.\<close>

lemma directory_loop_returns:
  assumes "directory_loop gs block off dir_size name hdr offset i = Some r" "survives (Some r)" "like b fs gs"
  shows "agrees (rep_with b) (directory_loop fs block off dir_size name hdr offset i) (Some r)"
proof -
  have "survives (Some r) \<longrightarrow> (\<forall>fs. like b fs gs \<longrightarrow>
      agrees (rep_with b) (directory_loop fs block off dir_size name hdr offset i) (Some r))"
    using assms(1)
  proof (rule directory_loop.raw_induct [rotated, where P = "\<lambda>gs block off dir_size name hdr offset i r. survives (Some r) \<longrightarrow>
      (\<forall>fs. like b fs gs \<longrightarrow> agrees (rep_with b) (directory_loop fs block off dir_size name hdr offset i) (Some r))"])
    fix f :: "squashfs \<Rightarrow> u64 \<Rightarrow> u16 \<Rightarrow> usize \<Rightarrow> utext \<Rightarrow> directory_table_header \<Rightarrow> usize \<Rightarrow> u32 \<Rightarrow> (squashfs \<times> u64 option) res option"
      and gs block off dir_size name hdr offset i r
    assume IH: "\<And>gs block off dir_size name hdr offset i r. f gs block off dir_size name hdr offset i = Some r \<Longrightarrow>
        survives (Some r) \<longrightarrow> (\<forall>fs. like b fs gs \<longrightarrow>
          agrees (rep_with b) (directory_loop fs block off dir_size name hdr offset i) (Some r))"
      and r: "(case directory_round gs block off dir_size name hdr offset i of
        None \<Rightarrow> None
      | Some r \<Rightarrow>
          (case r of
             Inl e \<Rightarrow> Some (Inl e)
           | Inr x \<Rightarrow>
               (case snd x of
                  Finished found \<Rightarrow> Some (Inr (fst x, found))
                | Continue hdr' offset' i' \<Rightarrow> f (fst x) block off dir_size name hdr' offset' i'))) = Some r"
    show "survives (Some r) \<longrightarrow> (\<forall>fs. like b fs gs \<longrightarrow>
        agrees (rep_with b) (directory_loop fs block off dir_size name hdr offset i) (Some r))"
    proof (intro impI allI)
      fix fs
      assume s: "survives (Some r)" "like b fs gs"
      from directory_round_agrees [OF s(2), of block off dir_size name hdr offset i]
      show "agrees (rep_with b) (directory_loop fs block off dir_size name hdr offset i) (Some r)"
      proof (cases rule: agrees_cases)
        case (ok x y)
        show ?thesis
        proof (cases "snd y")
          case (Continue hdr' offset' i')
          with r ok have "f (fst y) block off dir_size name hdr' offset' i' = Some r" by simp
          with IH s(1) ok(3) have "agrees (rep_with b) (directory_loop (fst x) block off dir_size name hdr' offset' i') (Some r)"
            by (auto simp: rep_with_def)
          with ok Continue show ?thesis by (subst directory_loop.simps) (simp add: rep_with_def)
        next
          case (Finished found)
          with ok r show ?thesis by (subst directory_loop.simps) (auto simp: rep_with_def)
        qed
      next
        case err
        with r show ?thesis by (subst directory_loop.simps) auto
      next
        case stuck
        with r s(1) show ?thesis by (auto simp: not_survives_cases)
      qed
    qed
  qed
  with assms(2,3) show ?thesis by blast
qed

lemma directory_loop_agrees:
  assumes "like b fs gs"
  shows "agrees (rep_with b) (directory_loop fs block off dir_size name hdr offset i) (directory_loop gs block off dir_size name hdr offset i)"
proof (cases "survives (directory_loop gs block off dir_size name hdr offset i)")
  case True
  then obtain r where "directory_loop gs block off dir_size name hdr offset i = Some r" by (auto elim: survives.elims)
  with True directory_loop_returns [OF this _ assms] show ?thesis by simp
next
  case False
  have "\<not> survives (directory_loop fs block off dir_size name hdr offset i)"
  proof
    assume s: "survives (directory_loop fs block off dir_size name hdr offset i)"
    then obtain r where r: "directory_loop fs block off dir_size name hdr offset i = Some r" by (auto elim: survives.elims)
    with s directory_loop_returns [OF r _ like_sym [OF assms]] False show False
      by (cases "Some r" rule: survives.cases) auto
  qed
  with False show ?thesis by (simp add: agrees_stuck)
qed

lemma read_inode_agrees:
  assumes "like b fs gs"
  shows "agrees (rep_with b) (read_inode fs i) (read_inode gs i)"
proof -
  obtain block off where bo: "get_inode_block_offset i = (block, off)" by (cases "get_inode_block_offset i")
  have step: "agrees (rep_with b)
      (obind (get_slice uncompress_data cs block off sz) (\<lambda>(cs', bytes).
        obind (Some (inode_from bytes)) (\<lambda>ino. Some (Inr (fs\<lparr>inode_table := cs'\<rparr>, ino)))))
      (obind (get_slice uncompress_data ds block off sz) (\<lambda>(cs', bytes).
        obind (Some (inode_from bytes)) (\<lambda>ino. Some (Inr (gs\<lparr>inode_table := cs'\<rparr>, ino)))))"
    if "like b (fs\<lparr>inode_table := cs\<rparr>) (gs\<lparr>inode_table := ds\<rparr>)" for cs ds sz
    using inode_slice_agrees [OF that, of block off sz]
    by (intro agrees_bind [where R = "\<lambda>x y. snd x = snd y \<and> like b (fs\<lparr>inode_table := fst x\<rparr>) (gs\<lparr>inode_table := fst y\<rparr>)"])
      (auto intro!: agrees_same simp: rep_with_def split: prod.splits)
  show ?thesis
    unfolding read_inode_def bo Let_def prod.case
    by (rule agrees_bind [OF inode_slice_agrees [OF assms]]) (auto intro!: agrees_same step split: prod.splits)
qed


lemma sq_find_entry_agrees:
  assumes "like b fs gs"
  shows "agrees (rep_with b) (sq_find_entry fs dir name) (sq_find_entry gs dir name)"
proof (cases "directory_position dir")
  case None
  with assms show ?thesis by (simp add: sq_find_entry_def rep_with_def)
next
  case (Some pos)
  obtain block off where bo: "get_inode_block_offset (fst pos) = (block, off)" by (cases "get_inode_block_offset (fst pos)")
  have final: "agrees (rep_with b)
      (case found of None \<Rightarrow> Some (Inr (fs2, None)) | Some n \<Rightarrow> obind (read_inode fs2 n) (\<lambda>(fs3, ino). Some (Inr (fs3, Some ino))))
      (case found of None \<Rightarrow> Some (Inr (gs2, None)) | Some n \<Rightarrow> obind (read_inode gs2 n) (\<lambda>(fs3, ino). Some (Inr (fs3, Some ino))))"
    if "like b fs2 gs2" for fs2 gs2 found
    using that by (auto simp: rep_with_def split: option.splits intro!: agrees_bind [OF read_inode_agrees])
  have loop: "agrees (rep_with b) (obind (directory_loop fs1 block off sz name hdr 12 0) (\<lambda>(fs2, found).
        case found of None \<Rightarrow> Some (Inr (fs2, None)) | Some n \<Rightarrow> obind (read_inode fs2 n) (\<lambda>(fs3, ino). Some (Inr (fs3, Some ino)))))
      (obind (directory_loop gs1 block off sz name hdr 12 0) (\<lambda>(fs2, found).
        case found of None \<Rightarrow> Some (Inr (fs2, None)) | Some n \<Rightarrow> obind (read_inode fs2 n) (\<lambda>(fs3, ino). Some (Inr (fs3, Some ino)))))"
    if "like b fs1 gs1" for fs1 gs1 hdr sz
    by (rule agrees_bind [OF directory_loop_agrees [OF that]]) (auto dest: rep_withD simp: final)
  show ?thesis
  proof (cases "snd pos = 0")
    case True
    with Some assms show ?thesis by (cases pos) (simp add: sq_find_entry_def rep_with_def)
  next
    case False
    have "agrees (rep_with b) (obind (directory_slice fs block off 12) (\<lambda>(fs1, bytes).
        obind (Some (directory_table_header_from bytes)) (\<lambda>hdr. obind (directory_loop fs1 block off (snd pos) name hdr 12 0) (\<lambda>(fs2, found).
          case found of None \<Rightarrow> Some (Inr (fs2, None)) | Some n \<Rightarrow> obind (read_inode fs2 n) (\<lambda>(fs3, ino). Some (Inr (fs3, Some ino)))))))
      (obind (directory_slice gs block off 12) (\<lambda>(fs1, bytes).
        obind (Some (directory_table_header_from bytes)) (\<lambda>hdr. obind (directory_loop fs1 block off (snd pos) name hdr 12 0) (\<lambda>(fs2, found).
          case found of None \<Rightarrow> Some (Inr (fs2, None)) | Some n \<Rightarrow> obind (read_inode fs2 n) (\<lambda>(fs3, ino). Some (Inr (fs3, Some ino)))))))"
      by (rule agrees_bind [OF directory_slice_agrees [OF assms]]) (auto dest: rep_withD intro!: agrees_same loop)
    with Some False bo show ?thesis by (cases pos) (simp add: sq_find_entry_def)
  qed
qed

lemma sq_lookup_agrees: "like b fs gs \<Longrightarrow> agrees (rep_with b) (sq_lookup fs ino nm) (sq_lookup gs ino nm)"
  by (simp add: sq_lookup_def sq_find_entry_agrees)

lemma sq_read_rep:
  assumes "one_block_rep fs gs"
  shows "sq_read fs ino count offset = sq_read gs ino count offset"
proof -
  obtain a b where fs: "fs = gs\<lparr>inode_table := a, directory_table := b\<rparr>" using assms unfolding one_block_rep_def by blast
  have sel: "fragment_table fs = fragment_table gs" "image fs = image gs" "superblock fs = superblock gs" "data_table fs = data_table gs"
    by (simp_all add: fs)
  have "get_decompressed_table fs = get_decompressed_table gs"
    unfolding get_decompressed_table_def sel ..
  with sel show ?thesis by (cases ino) (simp_all add: fragment_data_def)
qed

section \<open>Lookups do not depend on earlier ones\<close>

text \<open>A sequence of lookups, each of which leaves its tables to the next.\<close>

fun sq_lookups :: "squashfs \<Rightarrow> (sq_inode \<times> utext) list \<Rightarrow> squashfs res option" where
  "sq_lookups fs [] = Some (Inr fs)"
| "sq_lookups fs ((ino, nm) # qs) = obind (sq_lookup fs ino nm) (\<lambda>(fs', _). sq_lookups fs' qs)"

lemma sq_lookups_rep:
  "one_block_rep fs b \<Longrightarrow> one_block_rep b b \<Longrightarrow> sq_lookups fs qs = Some (Inr fs') \<Longrightarrow> one_block_rep fs' b"
proof (induction qs arbitrary: fs)
  case (Cons q qs)
  then obtain fs1 x where fs1: "sq_lookup fs (fst q) (snd q) = Some (Inr (fs1, x))" "sq_lookups fs1 qs = Some (Inr fs')"
    by (cases q) (auto simp: obind_eq_ok)
  have "like b fs fs" using Cons.prems by (simp add: like_def)
  from sq_lookup_agrees [OF this, of "fst q" "snd q"] fs1(1) have "one_block_rep fs1 b" by (auto simp: rep_with_def like_def)
  with Cons fs1(2) show ?case by blast
qed simp

text \<open>C13: a lookup in the initial RAM disk does not depend on what has been looked up before. For an image whose inode table and directory table
  are one metadata block each, after any sequence of lookups, which decompress the blocks in place, every lookup has the
  result that it has on the image as it was loaded; where that panics or never returns, so it does later.\<close>

theorem sq_lookup_history:
  assumes "length (inode_table gs) = 1" and "length (directory_table gs) = 1" and "sq_lookups gs qs = Some (Inr fs)"
  shows "agrees (\<lambda>x y. snd x = snd y) (sq_lookup fs ino nm) (sq_lookup gs ino nm)"
proof -
  have "one_block_rep gs gs" using assms(1,2) by (auto simp: one_block_rep_def one_chunk_def length_Suc_conv)
  with sq_lookups_rep [OF _ _ assms(3)] have "like gs fs gs" by (simp add: like_def)
  from sq_lookup_agrees [OF this, of ino nm] show ?thesis
    by (elim agrees_cases) (auto simp: rep_with_def intro: agrees_stuck)
qed

theorem sq_lookup_history_witness:
  "\<exists>fs fs' f. sq_lookups demo_sq [(BasicDirectory demo_dir, ascii ''a'')] = Some (Inr fs)
     \<and> sq_lookup fs (BasicDirectory demo_dir) (ascii ''a'') = Some (Inr (fs', Some (BasicFile f)))"
proof -
  have f: "find (named (ascii ''a'')) demo_listing = Some (Entry 0 0 2 [97])"
    by (simp add: demo_listing_def ascii_def)
  obtain fs g where "read_inode (demo_sq\<lparr>directory_table := (directory_table demo_sq)
      [0 := plain_chunk ([] @ listing 0 1 demo_listing @ [])]\<rparr>) 0 = Some (Inr (fs, BasicFile g))"
    using demo_read_inode by blast
  then have l: "sq_lookup demo_sq (BasicDirectory demo_dir) (ascii ''a'') = Some (Inr (fs, Some (BasicFile g)))"
    using sq_find_entry_loop(1) [OF demo_dir_at, of "ascii ''a''"] f by (simp add: sq_lookup_def)
  then have h: "sq_lookups demo_sq [(BasicDirectory demo_dir, ascii ''a'')] = Some (Inr fs)" by simp
  from sq_lookup_history [OF _ _ h, of "BasicDirectory demo_dir" "ascii ''a''"] l h show ?thesis
    by (auto simp: demo_sq_def)
qed

section \<open>Squashfs as a fixed file system\<close>

lemma sq_run_runs:
  assumes "agrees (rep_with b) m m'" "one_block_rep fs b"
  shows "runs_as (\<lambda>fs'. one_block_rep fs' b) (sq_run g fs m) (Some (settle g m'))"
  using assms(1)
proof (cases rule: agrees_cases)
  case (ok x y)
  then have "sq_run g fs m = Some (g (snd y), fst x)" "settle g m' = g (snd y)" "one_block_rep (fst x) b"
    by (auto simp: sq_run_def settle_def rep_with_def like_def split: prod.splits)
  then show ?thesis by (cases "Some (g (snd y))" rule: survives.cases) auto
next
  case err
  with assms(2) show ?thesis by (simp add: sq_run_def settle_def)
next
  case stuck
  then have "\<not> survives (Some (settle g m'))" "\<not> survives (map_option fst (sq_run g fs m))"
    by (auto simp: not_survives_cases sq_run_def settle_def)
  then show ?thesis by (simp add: runs_as_stuck)
qed

lemma like_self: "one_block_rep fs b \<Longrightarrow> like b fs b"
  by (auto simp: like_def one_block_rep_def one_chunk_def)

lemma sq_read_runs:
  assumes "one_block_rep fs b"
  shows "runs_as (\<lambda>fs'. one_block_rep fs' b) (map_option (\<lambda>r. (r, fs)) (sq_read fs ino count offset)) (sq_read b ino count offset)"
  unfolding sq_read_rep [OF assms]
  using assms by (cases "sq_read b ino count offset" rule: survives.cases) auto

interpretation sq: fs_model sq_ops sq_spec one_block_rep
proof
  fix fs c :: squashfs and nm cred i count offset f path
  assume rep: "one_block_rep fs c"
  show "runs_as (\<lambda>fs'. \<forall>c'. op_mount sq_spec path c = Inr c' \<longrightarrow> one_block_rep fs' c') (d_mount (fst sq_ops) path fs)
      (Some (rbind (op_mount sq_spec path c) (\<lambda>_. Inr ())))"
    using rep by (simp add: sq_spec_def sq_ops_def sq_fs_ops_def)
  show "runs_as (\<lambda>fs'. one_block_rep fs' c) (d_root (fst sq_ops) fs) (Some (op_root sq_spec c))"
    using sq_run_runs [OF read_inode_agrees [OF like_self [OF rep]] rep, of "\<lambda>ino. Inr (ino, Directory)" "root_inode (superblock c)"]
    by (simp add: sq_spec_def sq_ops_def sq_fs_ops_def read_root_dir_def one_block_rep_superblock [OF rep])
  show "runs_as (\<lambda>fs'. one_block_rep fs' c) (d_lookup (snd sq_ops) nm cred i fs) (Some (op_lookup sq_spec c i nm))"
    using sq_run_runs [OF sq_lookup_agrees [OF like_self [OF rep]] rep, of sq_found i nm]
    by (simp add: sq_spec_def sq_ops_def sq_vnode_ops_def)
  show "runs_as (\<lambda>fs'. one_block_rep fs' c) (d_read (snd sq_ops) count offset f cred i fs) (op_read sq_spec c i count offset)"
    using sq_read_runs [OF rep, of i count offset] by (simp add: sq_spec_def sq_ops_def sq_vnode_ops_def)
qed (simp_all add: sq_spec_def sq_ops_def sq_vnode_ops_def)

end
