(* ===== verification/Squashfs_Image.thy ===== *)
theory Squashfs_Image
  imports Squashfs_Cache
begin

text \<open>
  What a squashfs image says of its files, byte by byte and without the driver: inodes and listings as the format lays them out, the
  block of the first fragment as the fragment table describes it, and the bytes of the file at a path. The images are those with one
  metadata block of inodes and one of listings, and the files those that are kept in the first fragment, as files smaller than a data block are.
  The driver is shown to find such a file and to read its bytes. Compressed blocks are described by what the decompressor makes of them,
  which is the subject of \<^verbatim>\<open>Inflate\<close>.
\<close>

section \<open>The format\<close>

text \<open>An inode: the number of its type, permissions and owners, modification time and number, and then the fields of its type.\<close>

definition inode_head :: "nat \<Rightarrow> u8 list \<Rightarrow> u32 \<Rightarrow> u32 \<Rightarrow> u8 list" where
  "inode_head ty perm mtime num = to_le 2 ty @ perm @ to_le 4 (unat mtime) @ to_le 4 (unat num)"

text \<open>A file: start of its blocks, number of its fragment, offset in the fragment and size.\<close>

definition file_inode_bytes :: "u8 list \<Rightarrow> u32 \<Rightarrow> u32 \<Rightarrow> u32 \<Rightarrow> u32 \<Rightarrow> u32 \<Rightarrow> u32 \<Rightarrow> u8 list" where
  "file_inode_bytes perm mtime num start frag off sz =
     inode_head 2 perm mtime num @ to_le 4 (unat start) @ to_le 4 (unat frag) @ to_le 4 (unat off) @ to_le 4 (unat sz)"

text \<open>A directory: block of its listing, links, size and offset of the listing, and its parent. The size counts three bytes more than
  the listing has.\<close>

definition dir_inode_bytes :: "u8 list \<Rightarrow> u32 \<Rightarrow> u32 \<Rightarrow> u32 \<Rightarrow> u32 \<Rightarrow> u16 \<Rightarrow> u16 \<Rightarrow> u32 \<Rightarrow> u8 list" where
  "dir_inode_bytes perm mtime num block links sz off parent =
     inode_head 1 perm mtime num @ to_le 4 (unat block) @ to_le 4 (unat links) @ to_le 2 (unat sz) @ to_le 2 (unat off)
       @ to_le 4 (unat parent)"

text \<open>
  The file at a path: \<open>inodes\<close> and \<open>listings\<close> are the contents of the metadata blocks, \<open>frag\<close> those of the fragment block. The inode at an
  offset is a file with these bytes, or a directory whose listing has the first name of the path, and the file is below
  the first entry of that name.
\<close>

inductive holds_file :: "u8 list \<Rightarrow> u8 list \<Rightarrow> u8 list \<Rightarrow> u16 \<Rightarrow> utext list \<Rightarrow> u8 list \<Rightarrow> bool"
  for inodes listings frag :: "u8 list"
where
  file_here: "take 32 (drop (unat io) inodes) = file_inode_bytes perm mtime num start 0 off sz \<Longrightarrow> length perm = 6 \<Longrightarrow>
     unat off + unat sz \<le> length frag \<Longrightarrow>
     holds_file inodes listings frag io [] (take (unat sz) (drop (unat off) frag))"
| file_below: "take 32 (drop (unat io) inodes) = dir_inode_bytes perm mtime num 0 links sz off parent \<Longrightarrow> length perm = 6 \<Longrightarrow>
     drop (unat off) listings = listing 0 lnum es @ rest \<Longrightarrow> unat sz = length (listing 0 lnum es) + 3 \<Longrightarrow>
     es \<noteq> [] \<Longrightarrow> list_all entry_ok es \<Longrightarrow> find (named n) es = Some e \<Longrightarrow>
     holds_file inodes listings frag (en_offset e) ns bytes \<Longrightarrow>
     holds_file inodes listings frag io (n # ns) bytes"

text \<open>A block of \<open>raw\<close> bytes that stands for \<open>bs\<close>, compressed or, with bit 24 of its size, not. It has at least two bytes: the
  driver reads a header of two bytes in every block, also where it has none.\<close>

definition data_block :: "u8 list \<Rightarrow> u32 \<Rightarrow> u8 list \<Rightarrow> bool" where
  "data_block raw sz bs \<longleftrightarrow> 2 \<le> length raw \<and> length raw < 2 ^ 24 \<and>
     (sz = of_nat (length raw) OR 0x1000000 \<and> bs = raw
      \<or> sz = of_nat (length raw) \<and> uncompress_data raw = Some (Inr bs))"

text \<open>
  The first fragment: the fragment table is a list of positions of metadata blocks; the first of them starts with position and size of the block
  of the first fragment. The driver tries to decompress the list of positions, so it must not start like a zlib stream.
\<close>

definition first_fragment :: "squashfs \<Rightarrow> u8 list \<Rightarrow> bool" where
  "first_fragment sq frag \<longleftrightarrow>
     (\<exists>(p :: u64) ps c rest (start :: u64) sz entries raw rest'.
        fragment_table sq = Some (to_le 8 (unat p) @ ps)
      \<and> (uncompressed_fragments (features (superblock sq)) \<or> p AND 0x0F \<noteq> 0x08)
      \<and> drop (unat p) (image sq) = c @ rest \<and> chunk_len c = Inr (length c - 2)
      \<and> chunk_holds uncompress_data c (to_le 8 (unat start) @ to_le 4 (unat sz) @ entries)
      \<and> drop (unat start) (image sq) = raw @ rest' \<and> data_block raw sz frag)"

lemma first_fragmentI:
  assumes "fragment_table sq = Some (to_le 8 (unat (p :: u64)) @ ps)"
    and "uncompressed_fragments (features (superblock sq)) \<or> p AND 0x0F \<noteq> 0x08"
    and "drop (unat p) (image sq) = c @ rest" "chunk_len c = Inr (length c - 2)"
    and "chunk_holds uncompress_data c (to_le 8 (unat (start :: u64)) @ to_le 4 (unat sz) @ entries)"
    and "drop (unat start) (image sq) = raw @ rest'" "data_block raw sz frag"
  shows "first_fragment sq frag"
  unfolding first_fragment_def using assms by blast

definition holds_image :: "squashfs \<Rightarrow> u8 list \<Rightarrow> u8 list \<Rightarrow> u8 list \<Rightarrow> bool" where
  "holds_image sq inodes listings frag \<longleftrightarrow>
     (\<exists>c. inode_table sq = [c] \<and> chunk_holds uncompress_data c inodes)
   \<and> (\<exists>c. directory_table sq = [c] \<and> chunk_holds uncompress_data c listings)
   \<and> compressor (superblock sq) = Gzip \<and> first_fragment sq frag"

section \<open>Inodes\<close>

lemma inode_head_length [simp]: "length perm = 6 \<Longrightarrow> length (inode_head ty perm mtime num) = 16"
  by (simp add: inode_head_def)

lemma inode_fields:
  assumes "length perm = 6"
  shows "le_field (inode_head ty perm mtime num @ xs) 8 12 = Inr mtime"
    and "le_field (inode_head ty perm mtime num @ xs) 12 16 = Inr num"
    and "ty < 65536 \<Longrightarrow> le_field (inode_head ty perm mtime num @ xs) 0 2 = Inr (of_nat ty :: u16)"
  using assms by (simp_all add: inode_head_def le_field_ok le_val_to_le_unat) (simp add: le_val_to_le)

lemma file_inode_parses:
  assumes "length perm = 6"
  shows "inode_from (file_inode_bytes perm mtime num start frag off sz)
    = Inr (BasicFile \<lparr>bf_header = \<lparr>ih_file_type = BasicFileType, ih_mtime = mtime, ih_inode_num = num\<rparr>, bf_block_start = start,
        bf_frag_idx = frag, bf_block_offset = off, bf_file_size = sz\<rparr>)"
proof -
  let ?h = "inode_head 2 perm mtime num"
  have "le_field (?h @ to_le 4 (unat start) @ to_le 4 (unat frag) @ to_le 4 (unat off) @ to_le 4 (unat sz)) 16 20 = Inr start"
    "le_field (?h @ to_le 4 (unat start) @ to_le 4 (unat frag) @ to_le 4 (unat off) @ to_le 4 (unat sz)) 20 24 = Inr frag"
    "le_field (?h @ to_le 4 (unat start) @ to_le 4 (unat frag) @ to_le 4 (unat off) @ to_le 4 (unat sz)) 24 28 = Inr off"
    "le_field (?h @ to_le 4 (unat start) @ to_le 4 (unat frag) @ to_le 4 (unat off) @ to_le 4 (unat sz)) 28 32 = Inr sz"
    using assms by (simp_all add: le_field_ok le_val_to_le_unat)
  then show ?thesis
    using inode_fields [OF assms, where ty = 2]
    by (simp add: inode_from_def basic_file_from_def inode_header_from_def inode_file_type_from_def file_inode_bytes_def)
qed

lemma dir_inode_parses:
  assumes "length perm = 6"
  shows "inode_from (dir_inode_bytes perm mtime num block links sz off parent)
    = Inr (BasicDirectory \<lparr>bd_header = \<lparr>ih_file_type = BasicDirectoryType, ih_mtime = mtime, ih_inode_num = num\<rparr>,
        bd_block_index = block, bd_link_count = links, bd_file_size = sz, bd_block_offset = off, bd_parent_inode = parent\<rparr>)"
proof -
  let ?b = "inode_head 1 perm mtime num @ to_le 4 (unat block) @ to_le 4 (unat links) @ to_le 2 (unat sz) @ to_le 2 (unat off)
       @ to_le 4 (unat parent)"
  have "le_field ?b 16 20 = Inr block" "le_field ?b 20 24 = Inr links" "le_field ?b 24 26 = Inr sz" "le_field ?b 26 28 = Inr off"
    "le_field ?b 28 32 = Inr parent"
    using assms by (simp_all add: le_field_ok le_val_to_le_unat)
  then show ?thesis
    using inode_fields [OF assms, where ty = 1]
    by (simp add: inode_from_def basic_directory_from_def inode_header_from_def inode_file_type_from_def dir_inode_bytes_def)
qed

lemma file_inode_start:
  "length perm = 6 \<Longrightarrow> length (file_inode_bytes perm mtime num start frag off sz) = 32"
  "take 2 (file_inode_bytes perm mtime num start frag off sz) = [2, 0]"
  by (simp_all add: file_inode_bytes_def inode_head_def to_le_2)

lemma dir_inode_start:
  "length perm = 6 \<Longrightarrow> length (dir_inode_bytes perm mtime num block links sz off parent) = 32"
  "take 2 (dir_inode_bytes perm mtime num block links sz off parent) = [1, 0]"
  by (simp_all add: dir_inode_bytes_def inode_head_def to_le_2)

text \<open>Reading the inode at an offset of the only block.\<close>

lemma read_inode_at:
  assumes "inode_table fs = [c]" "chunk_holds uncompress_data c inodes"
    and b: "take 32 (drop (unat io) inodes) = b" "length b = 32" "take 2 b = [t, 0]" "t = 1 \<or> t = 2" "inode_from b = Inr ino"
  shows "read_inode fs (ucast (io :: u16)) = Some (Inr (fs\<lparr>inode_table := [plain_chunk inodes]\<rparr>, ino))"
proof -
  have len: "unat io + 32 \<le> length inodes"
    using b(1,2) by (cases "unat io + 32 \<le> length inodes") auto
  have slice: "get_slice uncompress_data [d] 0 io n = Some (Inr ([plain_chunk inodes], take (unat n) (drop (unat io) inodes)))"
    if "chunk_holds uncompress_data d inodes" "unat n \<le> 32" for d n
    using get_slice_at [of "[d]" 0 0 uncompress_data inodes io n] chunk_index_first [of "[d]"] that len by simp
  have "take 2 (drop (unat io) inodes) = take 2 (take 32 (drop (unat io) inodes))" by simp
  then have two: "take 2 (drop (unat io) inodes) = [t, 0]" by (simp only: b(1,3))
  have plain: "chunk_holds uncompress_data (plain_chunk inodes) inodes"
    using assms(2) by (intro chunk_holds_plain) (simp add: chunk_holds_def)
  have ty: "rbind (exact_bytes 2 [t, 0]) (\<lambda>b. rbind (le_field b 0 2) inode_file_type_from)
      = Inr (if t = 1 then BasicDirectoryType else BasicFileType)"
    using b(4) by (auto simp: exact_bytes_def le_field_ok inode_file_type_from_def)
  have isz: "inode_size (if t = 1 then BasicDirectoryType else BasicFileType) = Inr 32"
    by (simp add: inode_size_def)
  have first: "get_slice uncompress_data [c] 0 io 2 = Some (Inr ([plain_chunk inodes], [t, 0]))"
    using slice [OF assms(2), of 2] two by simp
  have whole: "get_slice uncompress_data [plain_chunk inodes] 0 io 32 = Some (Inr ([plain_chunk inodes], b))"
    using slice [OF plain, of 32] b(1) by simp
  show ?thesis
    unfolding read_inode_def block_offset_first Let_def prod.case assms(1)
    by (simp only: first whole ty isz b(5) obind_simps prod.case)
qed

section \<open>Paths\<close>

text \<open>The inode at a path below a directory of the loaded image.\<close>

fun sq_path :: "squashfs \<Rightarrow> sq_inode \<Rightarrow> utext list \<Rightarrow> sq_inode res" where
  "sq_path fs ino [] = Inr ino"
| "sq_path fs ino (n # ns) = rbind (op_lookup sq_spec fs ino n) (\<lambda>(i, _). sq_path fs i ns)"

lemma dir_lookup:
  assumes "dir_at sq b pre 0 num es rest" "find (named n) es = Some e"
    and "\<And>fs. inode_table fs = inode_table sq \<Longrightarrow> \<exists>fs'. read_inode fs (ucast (en_offset e)) = Some (Inr (fs', ino))"
  shows "op_lookup sq_spec sq (BasicDirectory b) n = Inr (ino, sq_vnode_type ino)"
proof -
  let ?fs = "sq\<lparr>directory_table := (directory_table sq)[0 := plain_chunk (pre @ listing 0 num es @ rest)]\<rparr>"
  obtain fs' where "read_inode ?fs (ucast (en_offset e)) = Some (Inr (fs', ino))"
    using assms(3) [of ?fs] by auto
  then have "sq_lookup sq (BasicDirectory b) n = Some (Inr (fs', Some ino))"
    using sq_find_entry_loop(1) [OF assms(1), of n] assms(2) by (simp add: sq_lookup_def)
  then show ?thesis by (simp add: sq_spec_def settle_def sq_found_def)
qed

section \<open>The fragment\<close>

lemma stored_table:
  assumes "chunk_holds uncompress_data c d" "chunk_len c = Inr (length c - 2)" "compressor (superblock fs) = Gzip"
  shows "get_decompressed_table fs c None = Some (Inr d)"
proof -
  have d15: "length d \<le> 0x7FFF" and dc: "chunk_decompress uncompress_data c = Some (Inr (plain_chunk d))"
    using assms(1) by (simp_all add: chunk_holds_def)
  obtain h where h: "chunk_header c = Inr h" using assms(2) by (auto simp: chunk_len_def rbind_eq_Inr)
  then have le: "le_field c 0 2 = Inr h" "2 \<le> length c"
    by (auto simp: chunk_header_def HEADER_SIZE_def le_field_def slice_res_def rbind_eq_Inr split: if_splits)
  show ?thesis
  proof (cases "h AND 0x8000 = 0")
    case True
    with dc h le obtain y x where y: "uncompress_data (drop 2 c) = Some y" "expect_res y = Inr x"
      "to_le 2 (unat ((of_nat (length x) :: u16) OR 0x8000)) @ x = plain_chunk d"
      by (auto simp: chunk_decompress_def chunk_is_compressed_def HEADER_SIZE_def slice_res_def obind_eq_ok)
    from y(2) have "y = Inr x" by (auto simp: expect_res_def split: sum.splits fault.splits)
    moreover have "x = d" using y(3) by (simp add: plain_chunk_def)
    ultimately have "uncompress_data (drop 2 c) = Some (Inr d)" using y(1) by simp
    with le True assms(3) show ?thesis
      by (simp add: get_decompressed_table_def slice_res_def)
  next
    case False
    then have "c = plain_chunk d"
      using dc h by (simp add: chunk_decompress_def chunk_is_compressed_def)
    then show ?thesis
      using False le plain_chunk_props(3) [OF d15] plain_chunk_props(4) [OF d15, of 0]
      by (simp add: get_decompressed_table_def slice_res_def numeral_2_eq_2)
  qed
qed

lemma block_table:
  assumes "data_block raw sz bs" "compressor (superblock fs) = Gzip"
  shows "get_decompressed_table fs raw (Some (sz AND 0x1000000 = 0)) = Some (Inr bs)"
    and "unat (sz AND 0xFEFFFFFF) = length raw"
proof -
  let ?n = "of_nat (length raw) :: u32"
  have n: "unat ?n = length raw" "length raw < 2 ^ 24"
    using assms(1) by (simp_all add: data_block_def unat_of_nat)
  have bits: "\<not> bit ?n k" if "24 \<le> k" for k
  proof -
    have "take_bit 24 ?n = ?n"
      using n by (simp add: word_unat_eq_iff unat_take_bit)
    then show ?thesis using that by (metis bit_take_bit_iff not_le)
  qed
  have zero: "?n AND 0x1000000 = 0"
    using and_exp_eq_0_iff_not_bit [of ?n 24] bits [of 24] by simp
  have one: "(?n OR 0x1000000) AND 0x1000000 \<noteq> 0"
  proof -
    have "(?n OR 0x1000000) AND 0x1000000 = 0x1000000" by (rule bit_eqI) (auto simp: bit_simps)
    then show ?thesis by simp
  qed
  have m: "(0xFEFFFFFF :: u32) = NOT 0x1000000" by simp
  have b24: "bit (0x1000000 :: u32) k \<longleftrightarrow> k = 24" for k
  proof -
    have "(0x1000000 :: u32) = 2 ^ 24" by simp
    then show ?thesis by (simp only: bit_exp_iff possible_bit_word) auto
  qed
  have "bit (?n AND NOT 0x1000000) k = bit ?n k" "bit ((?n OR 0x1000000) AND NOT 0x1000000) k = bit ?n k" for k
    using bits [of 24] bit_imp_le_length [of ?n k]
    by (auto simp only: bit_and_iff bit_or_iff bit_not_iff b24 possible_bit_word)
  then have mask: "?n AND 0xFEFFFFFF = ?n" "(?n OR 0x1000000) AND 0xFEFFFFFF = ?n"
    unfolding m by (intro bit_eqI; simp only:)+
  obtain h where "le_field raw 0 2 = Inr (h :: u16)" using assms(1) by (simp add: le_field_ok data_block_def)
  then show "get_decompressed_table fs raw (Some (sz AND 0x1000000 = 0)) = Some (Inr bs)"
    using assms zero one by (auto simp: data_block_def get_decompressed_table_def)
  show "unat (sz AND 0xFEFFFFFF) = length raw"
    using assms(1) mask n(1) by (auto simp: data_block_def)
qed

text \<open>The driver finds the fragment block.\<close>

lemma raw_slice_prefix:
  assumes "drop a mem = bs @ rest" "bs \<noteq> []"
  shows "n \<le> length bs \<Longrightarrow> raw_slice mem a n = Inr (take n bs)"
proof -
  have "length mem - a = length bs + length rest" using arg_cong [OF assms(1), of length] by simp
  moreover have "0 < length bs" using assms(2) by simp
  ultimately have "a + length bs \<le> length mem" by linarith
  then show "n \<le> length bs \<Longrightarrow> raw_slice mem a n = Inr (take n bs)"
    by (simp add: raw_slice_def assms(1))
qed

lemma fragment_found:
  assumes "first_fragment sq frag" "compressor (superblock sq) = Gzip" "bf_frag_idx f = 0"
  shows "fragment_data sq f = Some (Inr frag)"
proof -
  from assms(1) obtain p ps c rest start sz entries raw rest' where
    ft: "fragment_table sq = Some (to_le 8 (unat (p :: u64)) @ ps)"
    and un: "uncompressed_fragments (features (superblock sq)) \<or> p AND 0x0F \<noteq> 0x08"
    and c: "drop (unat p) (image sq) = c @ rest" "chunk_len c = Inr (length c - 2)"
      "chunk_holds uncompress_data c (to_le 8 (unat (start :: u64)) @ to_le 4 (unat sz) @ entries)"
    and raw: "drop (unat start) (image sq) = raw @ rest'" "data_block raw sz frag"
    unfolding first_fragment_def by blast
  let ?ft = "to_le 8 (unat p) @ ps"
  have t2: "\<exists>h. le_field ?ft 0 2 = Inr (h :: u16)" by (simp add: le_field_ok)
  have "(of_nat (unat p) :: u8) AND 0x0F \<noteq> 0x08" if ne: "p AND 0x0F \<noteq> 0x08"
  proof
    have m: "(0x0F :: u8) = mask 4" "(0x0F :: u64) = mask 4" by (simp_all add: mask_eq_exp_minus_1)
    have "unat ((of_nat (unat p) :: u8) AND 0x0F) = unat p mod 256 mod 2 ^ 4" "unat (p AND 0x0F) = unat p mod 2 ^ 4"
      unfolding m by (simp_all only: take_bit_eq_mask [symmetric] unat_take_bit unat_of_nat_u8)
    moreover have "unat p mod 256 mod 2 ^ 4 = unat p mod 2 ^ 4" by (rule mod_mod_cancel) simp
    moreover assume "(of_nat (unat p) :: u8) AND 0x0F = 0x08"
    ultimately have "unat (p AND 0x0F) = unat (0x08 :: u64)" by simp
    then have "p AND 0x0F = 0x08" by (simp only: word_unat_eq_iff)
    with ne show False by contradiction
  qed
  moreover have "index_res ?ft 0 = Inr (of_nat (unat p))"
    using to_le.simps(2) [of 7 "unat p"] by (simp add: index_res_def)
  moreover have "2 < length ?ft" by simp
  ultimately have un': "uncompressed_fragments (features (superblock sq)) \<or> uncompress_data ?ft = Some (Inl ErrUnit)"
    using un by (auto simp: uncompress_data_def rassert_def simp del: length_append)
  have tab: "get_decompressed_table sq ?ft (Some (\<not> uncompressed_fragments (features (superblock sq)))) = Some (Inr ?ft)"
    using t2 un' assms(2) by (auto simp: get_decompressed_table_def)
  have ptr: "le_field ?ft 0 8 = Inr p" by (simp add: le_field_ok le_val_to_le_unat)
  obtain h where h: "chunk_header c = Inr h" "unat (h AND 0x7FFF) = length c - 2"
    using c(2) by (auto simp: chunk_len_def)
  then have le: "le_field c 0 2 = Inr h" "2 \<le> length c"
    by (auto simp: chunk_header_def HEADER_SIZE_def le_field_def slice_res_def split: if_splits)
  then have cne: "c \<noteq> []" by auto
  have hd: "rbind (raw_slice (image sq) (unat p) 2) (\<lambda>b. le_field b 0 2) = Inr h"
    using raw_slice_prefix [OF c(1) cne, of 2] le by (auto simp: le_field_ok)
  have "unat ((h AND 0x7FFF) + 2) = length c"
  proof -
    have "unat (h AND 0x7FFF) < 2 ^ 15"
    proof -
      have "(0x7FFF :: u16) = mask 15" by (simp add: mask_eq_exp_minus_1)
      then have "h AND 0x7FFF = take_bit 15 h" by (simp only: take_bit_eq_mask)
      then show ?thesis by (simp add: unat_take_bit)
    qed
    then have "unat ((h AND 0x7FFF) + 2) = unat (h AND 0x7FFF) + 2" by (subst unat_add_no_wrap) simp_all
    then show ?thesis using h(2) le(2) by simp
  qed
  then have cs: "raw_slice (image sq) (unat p) (unat ((h AND 0x7FFF) + 2)) = Inr c"
    using raw_slice_prefix [OF c(1) cne, of "length c"] by simp
  note block = stored_table [OF c(3,2) assms(2)]
  have fields: "le_field (to_le 8 (unat start) @ to_le 4 (unat sz) @ entries) 0 8 = Inr start"
    "le_field (to_le 8 (unat start) @ to_le 4 (unat sz) @ entries) 8 12 = Inr sz"
    by (simp_all add: le_field_ok le_val_to_le_unat)
  have r2: "raw \<noteq> []" using raw(2) by (auto simp: data_block_def)
  note data = block_table [OF raw(2) assms(2)]
  have draw: "raw_slice (image sq) (unat start) (unat (sz AND 0xFEFFFFFF)) = Inr raw"
    unfolding data(2) using raw_slice_prefix [OF raw(1) r2, of "length raw"] by simp
  have idx: "unat (bf_frag_idx f) = 0" "unat (bf_frag_idx f + 8) = 8" by (simp_all add: assms(3))
  show ?thesis
    unfolding fragment_data_def ft idx
    by (simp only: unwrap_opt_simps obind_simps tab ptr hd cs block fields draw data(1))
qed

section \<open>Files\<close>

lemma file_read:
  assumes "first_fragment sq frag" "compressor (superblock sq) = Gzip" "bf_frag_idx f = 0"
    "unat (bf_block_offset f) + unat (bf_file_size f) \<le> length frag"
  shows "sq_read sq (BasicFile f) (ucast (bf_file_size f)) 0
    = Some (Inr (take (unat (bf_file_size f)) (drop (unat (bf_block_offset f)) frag)))"
proof -
  have u: "unat (ucast (bf_block_offset f) :: usize) = unat (bf_block_offset f)" "unat (ucast (bf_file_size f) :: usize) = unat (bf_file_size f)"
    by (simp_all add: unat_ucast_up)
  have b: "unat (bf_block_offset f) < 2 ^ 32" "unat (bf_file_size f) < 2 ^ 32"
    using unsigned_less [of "bf_block_offset f", where 'a = nat] unsigned_less [of "bf_file_size f", where 'a = nat] by simp_all
  have "unat (ucast (bf_block_offset f) + 0 + ucast (bf_file_size f) :: usize) = unat (bf_block_offset f) + unat (bf_file_size f)"
    using u b by (subst unat_add_no_wrap) simp_all
  then show ?thesis
    using fragment_found [OF assms(1-3)] assms(3,4) u by (simp add: Let_def slice_res_def)
qed

text \<open>What the image says is what the driver finds: the inode at the offset, the inode at the path below it, and the bytes of the file.\<close>

lemma holds_file_found:
  assumes "holds_file inodes listings frag io names bytes" "holds_image sq inodes listings frag"
  shows "\<exists>root f. (\<forall>fs. inode_table fs = inode_table sq \<longrightarrow> (\<exists>fs'. read_inode fs (ucast io) = Some (Inr (fs', root))))
    \<and> sq_path sq root names = Inr (BasicFile f) \<and> unat (bf_file_size f) = length bytes
    \<and> sq_read sq (BasicFile f) (ucast (bf_file_size f)) 0 = Some (Inr bytes)"
  using assms(1)
proof (induction rule: holds_file.induct)
  case (file_here io perm mtime num start off sz)
  obtain c where c: "inode_table sq = [c]" "chunk_holds uncompress_data c inodes"
    using assms(2) by (auto simp: holds_image_def)
  let ?f = "\<lparr>bf_header = \<lparr>ih_file_type = BasicFileType, ih_mtime = mtime, ih_inode_num = num\<rparr>, bf_block_start = start,
        bf_frag_idx = 0, bf_block_offset = off, bf_file_size = sz\<rparr>"
  have "\<exists>fs'. read_inode fs (ucast io) = Some (Inr (fs', BasicFile ?f))" if "inode_table fs = inode_table sq" for fs
    using read_inode_at [OF _ c(2) file_here(1) file_inode_start(1) [OF file_here(2)] file_inode_start(2) _ file_inode_parses [OF file_here(2)]]
      that c(1) by auto
  moreover have "sq_read sq (BasicFile ?f) (ucast (bf_file_size ?f)) 0 = Some (Inr (take (unat sz) (drop (unat off) frag)))"
    using file_read [of sq frag ?f] assms(2) file_here(3) by (simp add: holds_image_def)
  ultimately show ?case
    using file_here(3) by (intro exI [of _ "BasicFile ?f"] exI [of _ ?f]) simp
next
  case (file_below io perm mtime num links sz off parent lnum es rest n e ns bytes)
  obtain c where c: "inode_table sq = [c]" "chunk_holds uncompress_data c inodes"
    using assms(2) by (auto simp: holds_image_def)
  let ?b = "\<lparr>bd_header = \<lparr>ih_file_type = BasicDirectoryType, ih_mtime = mtime, ih_inode_num = num\<rparr>,
        bd_block_index = 0, bd_link_count = links, bd_file_size = sz, bd_block_offset = off, bd_parent_inode = parent\<rparr>"
  have dir: "\<exists>fs'. read_inode fs (ucast io) = Some (Inr (fs', BasicDirectory ?b))" if "inode_table fs = inode_table sq" for fs
    using read_inode_at [OF _ c(2) file_below(1) dir_inode_start(1) [OF file_below(2)] dir_inode_start(2) _ dir_inode_parses [OF file_below(2)]]
      that c(1) by auto
  have "listings = take (unat off) listings @ listing 0 lnum es @ rest"
    using append_take_drop_id [of "unat off" listings] file_below(3) by simp
  moreover have "unat off \<le> length listings"
  proof (rule ccontr)
    assume "\<not> unat off \<le> length listings"
    with file_below(3) have "length (listing 0 lnum es) = 0" by simp
    moreover have "length (listing 0 lnum es) = 12 + length (concat (map entry_bytes es))" by (simp add: listing_def)
    ultimately show False by linarith
  qed
  ultimately have at: "dir_at sq ?b (take (unat off) listings) 0 lnum es rest"
    using assms(2) file_below(4-6) by (auto simp: dir_at_def holds_image_def)
  from file_below.IH obtain root f where root: "\<And>fs. inode_table fs = inode_table sq \<Longrightarrow> \<exists>fs'. read_inode fs (ucast (en_offset e)) = Some (Inr (fs', root))"
    "sq_path sq root ns = Inr (BasicFile f)" "unat (bf_file_size f) = length bytes"
    "sq_read sq (BasicFile f) (ucast (bf_file_size f)) 0 = Some (Inr bytes)" by blast
  have "op_lookup sq_spec sq (BasicDirectory ?b) n = Inr (root, sq_vnode_type root)"
    by (rule dir_lookup [OF at file_below(7) root(1)])
  with dir root(2-4) show ?case
    by (intro exI [of _ "BasicDirectory ?b"] exI [of _ f]) simp
qed

text \<open>The file at a path below the root of the image.\<close>

definition image_file :: "squashfs \<Rightarrow> utext list \<Rightarrow> u8 list \<Rightarrow> bool" where
  "image_file sq names bytes \<longleftrightarrow>
     (\<exists>inodes listings frag io. holds_image sq inodes listings frag \<and> root_inode (superblock sq) = ucast io
        \<and> holds_file inodes listings frag io names bytes)"

lemma image_file_found:
  assumes "image_file sq names bytes" "bytes \<noteq> []"
  obtains sq' root f where "read_root_dir sq = Some (Inr (sq', root))" "sq_path sq root names = Inr (BasicFile f)"
    "bf_file_size f \<noteq> 0" "sq_read sq (BasicFile f) (ucast (bf_file_size f)) 0 = Some (Inr bytes)" "one_block_rep sq sq"
proof -
  obtain inodes listings frag io where i: "holds_image sq inodes listings frag" "root_inode (superblock sq) = ucast io"
    "holds_file inodes listings frag io names bytes" using assms(1) by (auto simp: image_file_def)
  from holds_file_found [OF i(3,1)] obtain root f where
    root: "\<forall>fs. inode_table fs = inode_table sq \<longrightarrow> (\<exists>fs'. read_inode fs (ucast io) = Some (Inr (fs', root)))"
      "sq_path sq root names = Inr (BasicFile f)" "unat (bf_file_size f) = length bytes"
      "sq_read sq (BasicFile f) (ucast (bf_file_size f)) 0 = Some (Inr bytes)" by blast
  obtain sq' where "read_root_dir sq = Some (Inr (sq', root))"
    using root(1) i(2) by (auto simp: read_root_dir_def)
  moreover have "bf_file_size f \<noteq> 0" using root(3) assms(2) by auto
  moreover have "one_block_rep sq sq" using i(1) by (auto simp: one_block_rep_def one_chunk_def holds_image_def)
  ultimately show ?thesis using that root by blast
qed

section \<open>A small image\<close>

text \<open>An image with a root directory and a file \<open>a\<close> in it that holds five bytes, in a fragment block that is not compressed.\<close>

definition hello_bytes :: "u8 list" where
  "hello_bytes = [104, 101, 108, 108, 111]"

definition boot_inodes :: "u8 list" where
  "boot_inodes = file_inode_bytes (replicate 6 0) 0 0 0 0 0 5 @ dir_inode_bytes (replicate 6 0) 0 1 0 2 33 0 0"

definition boot_sq :: squashfs where
  "boot_sq = demo_sq\<lparr>superblock := demo_sb\<lparr>root_inode := 32\<rparr>, inode_table := [plain_chunk boot_inodes],
     image := hello_bytes @ plain_chunk (to_le 8 0 @ to_le 4 0x1000005), fragment_table := Some (to_le 8 5)\<rparr>"

definition boot_file :: basic_file_inode where
  "boot_file = \<lparr>bf_header = \<lparr>ih_file_type = BasicFileType, ih_mtime = 0, ih_inode_num = 0\<rparr>, bf_block_start = 0, bf_frag_idx = 0,
     bf_block_offset = 0, bf_file_size = 5\<rparr>"

lemma boot_inodes_at:
  "length boot_inodes = 64" "take 32 boot_inodes = file_inode_bytes (replicate 6 0) 0 0 0 0 0 5"
  "take 32 (drop 32 boot_inodes) = dir_inode_bytes (replicate 6 0) 0 1 0 2 33 0 0"
  using file_inode_start(1) [of "replicate 6 0"] dir_inode_start(1) [of "replicate 6 0"] by (simp_all add: boot_inodes_def)

lemma boot_listing:
  "length (listing 0 1 demo_listing) = 30" "list_all entry_ok demo_listing" "demo_listing \<noteq> []"
  "find (named (ascii ''a'')) demo_listing = Some (Entry 0 0 2 [97])"
  by (simp_all add: listing_def demo_listing_def entry_ok_def inode_file_type_from_def ascii_def)

lemma boot_holds: "holds_file boot_inodes (listing 0 1 demo_listing) hello_bytes 32 [ascii ''a''] hello_bytes"
proof (rule file_below)
  show "take 32 (drop (unat (32 :: u16)) boot_inodes) = dir_inode_bytes (replicate 6 0) 0 1 0 2 33 0 0"
    using boot_inodes_at(3) by simp
  show "drop (unat (0 :: u16)) (listing 0 1 demo_listing) = listing 0 1 demo_listing @ []" by simp
  show "unat (33 :: u16) = length (listing 0 1 demo_listing) + 3" using boot_listing(1) by simp
  have "holds_file boot_inodes (listing 0 1 demo_listing) hello_bytes 0 [] (take (unat (5 :: u32)) (drop (unat (0 :: u32)) hello_bytes))"
    by (rule file_here [of _ _ "replicate 6 0" 0 0 0]) (simp_all add: boot_inodes_at(2) hello_bytes_def)
  then show "holds_file boot_inodes (listing 0 1 demo_listing) hello_bytes (en_offset (Entry 0 0 2 [97])) [] hello_bytes"
    by (simp add: hello_bytes_def)
qed (use boot_listing in simp_all)

lemma boot_image: "holds_image boot_sq boot_inodes (listing 0 1 demo_listing) hello_bytes"
proof -
  let ?e = "to_le 8 (unat (0 :: u64)) @ to_le 4 (unat (0x1000005 :: u32)) @ []"
  have e: "length ?e = 12" by simp
  have ft: "fragment_table boot_sq = Some (to_le 8 (unat (5 :: u64)) @ [])" by (simp add: boot_sq_def)
  have c: "drop (unat (5 :: u64)) (image boot_sq) = plain_chunk ?e @ []" by (simp add: boot_sq_def hello_bytes_def)
  have h: "chunk_len (plain_chunk ?e) = Inr (length (plain_chunk ?e) - 2)" "chunk_holds uncompress_data (plain_chunk ?e) ?e"
    using plain_chunk_props(1,3) [of ?e] chunk_holds_plain [of ?e] e by simp_all
  have r: "drop (unat (0 :: u64)) (image boot_sq) = hello_bytes @ plain_chunk ?e" by (simp add: boot_sq_def)
  have b: "data_block hello_bytes 0x1000005 hello_bytes" by (simp add: data_block_def hello_bytes_def)
  have "first_fragment boot_sq hello_bytes"
    by (rule first_fragmentI [OF ft _ c h r b]) simp
  then show ?thesis
    using chunk_holds_plain [of boot_inodes] chunk_holds_plain [of "listing 0 1 demo_listing"] boot_inodes_at(1) boot_listing(1)
    by (simp add: holds_image_def boot_sq_def demo_sq_def demo_sb_def)
qed

lemma boot_image_file: "image_file boot_sq [ascii ''a''] hello_bytes"
  unfolding image_file_def using boot_image boot_holds by (intro exI [of _ boot_inodes] exI [of _ "listing 0 1 demo_listing"]
      exI [of _ hello_bytes] exI [of _ 32]) (simp add: boot_sq_def)

lemma boot_read_inode:
  assumes "inode_table fs = [plain_chunk boot_inodes]"
  shows "read_inode fs 32 = Some (Inr (fs, BasicDirectory demo_dir))" "read_inode fs 0 = Some (Inr (fs, BasicFile boot_file))"
proof -
  have upd: "fs\<lparr>inode_table := [plain_chunk boot_inodes]\<rparr> = fs" using assms by (cases fs) simp
  have p: "length (replicate 6 (0 :: u8)) = 6" by simp
  have holds: "chunk_holds uncompress_data (plain_chunk boot_inodes) boot_inodes"
    using chunk_holds_plain [of boot_inodes] boot_inodes_at(1) by simp
  note d = dir_inode_parses [OF p, of 0 1 0 2 33 0 0] and f = file_inode_parses [OF p, of 0 0 0 0 0 5]
  show "read_inode fs 32 = Some (Inr (fs, BasicDirectory demo_dir))"
    using read_inode_at [OF assms holds _ dir_inode_start(1) [OF p] dir_inode_start(2) _ d, of 32] boot_inodes_at(3) upd
    by (simp add: demo_dir_def)
  show "read_inode fs 0 = Some (Inr (fs, BasicFile boot_file))"
    using read_inode_at [OF assms holds _ file_inode_start(1) [OF p] file_inode_start(2) _ f, of 0] boot_inodes_at(2) upd
    by (simp add: boot_file_def)
qed

lemma boot_root: "read_root_dir boot_sq = Some (Inr (boot_sq, BasicDirectory demo_dir))"
proof -
  have "inode_table boot_sq = [plain_chunk boot_inodes]" "root_inode (superblock boot_sq) = 32" by (simp_all add: boot_sq_def)
  with boot_read_inode(1) show ?thesis by (simp add: read_root_dir_def)
qed

lemma boot_rep: "one_block_rep boot_sq boot_sq"
  by (cases boot_sq) (simp add: one_block_rep_def one_chunk_def boot_sq_def demo_sq_def)

lemma boot_lookup: "op_lookup sq_spec boot_sq (BasicDirectory demo_dir) (ascii ''a'') = Inr (BasicFile boot_file, Regular)"
proof -
  have dir: "dir_at boot_sq demo_dir [] 0 1 demo_listing []"
    using demo_dir_at by (simp add: dir_at_def boot_sq_def)
  have "\<exists>fs'. read_inode fs (ucast (en_offset (Entry 0 0 2 [97]))) = Some (Inr (fs', BasicFile boot_file))"
    if "inode_table fs = inode_table boot_sq" for fs
    using boot_read_inode(2) [of fs] that by (simp add: boot_sq_def)
  from dir_lookup [OF dir boot_listing(4) this] show ?thesis by simp
qed

end
