(* ===== verification/Vfs_Typed.thy ===== *)
theory Vfs_Typed
  imports Dyn_Vfs_Correct Sync
begin

text \<open>
  What holds of the state of the virtual file system in every run, whatever file systems are mounted and whatever they answer: a tree
  whose nodes have distinct children with proper names, a root of the tree as soon as something is mounted, a first mount on \<open>/\<close>,
  and mounts that have an address of their own, a mount point, a file system and a data pointer.
  The calls of the kernel are the steps of a relation, and the invariant follows from the locale \<open>inv_system\<close>.
\<close>

section \<open>The invariant\<close>

definition mount_typed :: "'fs vfs \<Rightarrow> bool" where
  "mount_typed v \<longleftrightarrow> mount_point v \<noteq> None \<and> vfs_fs v \<noteq> None \<and> vfs_data v"

definition vfs_typed :: "('fs, 'ino) vfs_state \<Rightarrow> bool" where
  "vfs_typed s \<longleftrightarrow>
     (\<forall>t. node_tree s = Some t \<longrightarrow> tree_typed t)
     \<and> (mounts s \<noteq> [] \<longrightarrow> node_tree s \<noteq> None \<and> mount_point (List.hd (mounts s)) = Some (ascii ''/''))
     \<and> list_all mount_typed (mounts s) \<and> distinct (map vfs_addr (mounts s))
     \<and> (\<forall>v \<in> set (tl (mounts s)). mount_point v \<noteq> Some (ascii ''/''))"

text \<open>The calls that change the state. A new box has an address that no mounted file system has.\<close>

datatype vfs_call = CallOpen | CallLookup | CallMount | CallUnmount | CallOpenFile | CallCloseFile | CallReadFile

inductive vfs_step :: "('fs, 'ino, 'box) dyn_ops \<Rightarrow> vfs_call \<Rightarrow> ('fs, 'ino) vfs_state \<Rightarrow> ('fs, 'ino) vfs_state \<Rightarrow> bool"
  for ops :: "('fs, 'ino, 'box) dyn_ops" where
  step_open: "dyn_vfs_open ops path s = Some (r, s') \<Longrightarrow> vfs_step ops CallOpen s s'"
| step_lookup: "dyn_tree_lookup ops p nm s = Some (r, s') \<Longrightarrow> vfs_step ops CallLookup s s'"
| step_mount: "q \<notin> vfs_addr ` set (mounts s) \<Longrightarrow> dyn_add_vfs ops q mp fs s = Some (r, s') \<Longrightarrow> vfs_step ops CallMount s s'"
| step_unmount: "del_vfs s mp = (s', r) \<Longrightarrow> vfs_step ops CallUnmount s s'"
| step_open_file: "tree_open ops p f c s = Some (r, s') \<Longrightarrow> vfs_step ops CallOpenFile s s'"
| step_close_file: "tree_close ops p f c s = Some (r, s') \<Longrightarrow> vfs_step ops CallCloseFile s s'"
| step_read_file: "tree_read ops p count offset f s = Some (r, s') \<Longrightarrow> vfs_step ops CallReadFile s s'"

inductive_cases vfs_stepE: "vfs_step ops l s s'"

section \<open>Mounts\<close>

text \<open>A call may change the file systems behind the mounts, nothing else of them.\<close>

definition same_mount :: "'fs vfs \<Rightarrow> 'fs vfs \<Rightarrow> bool" where
  "same_mount v w \<longleftrightarrow> vfs_addr v = vfs_addr w \<and> mount_point v = mount_point w \<and> (mount_typed v \<longrightarrow> mount_typed w)
     \<and> (vfs_fs v \<noteq> None \<longrightarrow> vfs_fs w \<noteq> None)"

lemma same_mount_refl [simp]: "same_mount v v"
  by (simp add: same_mount_def)

lemma same_mounts_refl [simp]: "list_all2 same_mount ms ms"
  by (simp add: list_all2_refl)

lemma same_mounts_trans: "list_all2 same_mount ms ns \<Longrightarrow> list_all2 same_mount ns os \<Longrightarrow> list_all2 same_mount ms os"
  by (rule list_all2_trans) (auto simp: same_mount_def)

lemma on_fs_same: "on_fs f v = Some (r, v') \<Longrightarrow> same_mount v v'"
  by (auto simp: on_fs_def io_map_eq_Some same_mount_def mount_typed_def split: option.splits)

lemma dyn_root_same: "dyn_root ops v = Some (r, v') \<Longrightarrow> same_mount v v'"
proof (cases "on_fs (d_root (fst ops)) v")
  case (Some x)
  assume "dyn_root ops v = Some (r, v')"
  with Some have "v' = snd x" by (cases x; cases "fst x") (auto simp: dyn_root_def split: prod.splits)
  with Some show ?thesis by (cases x) (auto dest: on_fs_same)
qed (simp add: dyn_root_def)

lemma put_vfs_same:
  "deref_vfs ms p = Inr v \<Longrightarrow> same_mount v v' \<Longrightarrow> list_all2 same_mount ms (put_vfs p v' ms)"
  by (induction ms) (auto simp: deref_vfs_def split: if_splits option.splits)

lemma on_vfs_same:
  assumes "on_vfs p f ms = Some (r, ms')" "\<And>v r v'. f v = Some (r, v') \<Longrightarrow> same_mount v v'"
  shows "list_all2 same_mount ms ms'"
  using assms(1) by (auto simp: on_vfs_def io_map_eq_Some split: sum.splits intro!: put_vfs_same dest: assms(2))

lemma on_data_same: "on_data p f ms = Some (r, ms') \<Longrightarrow> list_all2 same_mount ms ms'"
  unfolding on_data_def by (erule on_vfs_same) (auto split: if_splits dest: on_fs_same)

lemma dyn_lookup_same:
  assumes "dyn_lookup ops vn nm c ms = Some (r, ms')"
  shows "list_all2 same_mount ms ms'"
proof (cases "on_data (parent_vfs vn) (d_lookup (snd ops) nm c (inode vn)) ms")
  case (Some x)
  with assms have "ms' = snd x" by (cases x; cases "fst x") (auto simp: dyn_lookup_def split: prod.splits)
  with Some show ?thesis by (cases x) (auto dest: on_data_same)
qed (use assms in \<open>simp add: dyn_lookup_def\<close>)

lemma dyn_lookup_child_same:
  assumes "dyn_lookup_child ops vn nm ms = Some (r, ms')"
  shows "list_all2 same_mount ms ms'"
proof (cases "vfs_mounted_here vn")
  case None
  with assms show ?thesis by (auto simp: dyn_lookup_child_def dest: dyn_lookup_same)
next
  case (Some p)
  show ?thesis
  proof (cases "on_vfs p (dyn_root ops) ms")
    case on: (Some x)
    then have 1: "list_all2 same_mount ms (snd x)" by (cases x) (auto intro: on_vfs_same dest: dyn_root_same)
    have "ms' = snd x \<or> list_all2 same_mount (snd x) ms'"
      using assms Some on by (cases x; cases "fst x") (auto simp: dyn_lookup_child_def dest: dyn_lookup_same)
    with 1 show ?thesis by (auto intro: same_mounts_trans)
  qed (use assms Some in \<open>simp add: dyn_lookup_child_def\<close>)
qed

lemma dyn_read_same: "dyn_read ops vn count offset f c ms = Some (r, ms') \<Longrightarrow> list_all2 same_mount ms ms'"
  by (cases "d_len (snd ops) (inode vn)") (auto simp: dyn_read_def split: if_splits dest: on_data_same)

lemma same_mounts_typed:
  assumes "list_all2 same_mount ms ns"
  shows "map vfs_addr ns = map vfs_addr ms" "map mount_point ns = map mount_point ms"
    "list_all mount_typed ms \<Longrightarrow> list_all mount_typed ns"
  using assms by (induction rule: list_all2_induct) (auto simp: same_mount_def)

lemma vfs_typed_mounts:
  assumes "vfs_typed s" "list_all2 same_mount (mounts s) ms"
  shows "vfs_typed (s\<lparr>mounts := ms\<rparr>)"
proof -
  note m = same_mounts_typed [OF assms(2)]
  have "ms = [] \<longleftrightarrow> mounts s = []" using assms(2) by auto
  moreover have "mounts s \<noteq> [] \<Longrightarrow> mount_point (List.hd ms) = mount_point (List.hd (mounts s))"
    using assms(2) by (cases ms; cases "mounts s") (auto simp: same_mount_def)
  moreover have "mount_point ` set (tl ms) = mount_point ` set (tl (mounts s))"
    using m(2) by (metis list.set_map map_tl)
  ultimately show ?thesis
    using assms(1) m unfolding vfs_typed_def by (simp, metis imageI image_iff)
qed


section \<open>Trees\<close>

lemma tree_typed_iff:
  "tree_typed t \<longleftrightarrow> distinct (map fst (tn_children t)) \<and> fst ` set (tn_children t) \<inter> {ascii ''.'', ascii ''..''} = {}
     \<and> (\<forall>(k, c) \<in> set (tn_children t). tree_typed c)"
proof
  assume t: "tree_typed t"
  then have "fst ` set (tn_children t) \<inter> {ascii ''.'', ascii ''..''} = {}"
    unfolding tree_typed_def by (metis node_at.simps(1))
  moreover note tree_typed_children(1) [OF t]
  moreover from this have "\<forall>(k, c) \<in> set (tn_children t). tree_typed c"
    using tree_typed_children(2) [OF t] by (auto simp: map_of_eq_Some_iff)
  ultimately show "distinct (map fst (tn_children t)) \<and> fst ` set (tn_children t) \<inter> {ascii ''.'', ascii ''..''} = {}
     \<and> (\<forall>(k, c) \<in> set (tn_children t). tree_typed c)" by blast
next
  assume t: "distinct (map fst (tn_children t)) \<and> fst ` set (tn_children t) \<inter> {ascii ''.'', ascii ''..''} = {}
     \<and> (\<forall>(k, c) \<in> set (tn_children t). tree_typed c)"
  show "tree_typed t"
    unfolding tree_typed_def
  proof (intro allI impI)
    fix p d
    assume d: "node_at t p = Some d"
    show "distinct (map fst (tn_children d)) \<and> fst ` set (tn_children d) \<inter> {ascii ''.'', ascii ''..''} = {}"
    proof (cases p)
      case (Cons n ns)
      with d obtain c where c: "map_of (tn_children t) n = Some c" "node_at c ns = Some d" by (auto split: option.splits)
      then have "tree_typed c" using t by (auto dest: map_of_SomeD)
      with c(2) show ?thesis unfolding tree_typed_def by blast
    qed (use d t in simp)
  qed
qed

lemma tree_typed_at: "tree_typed t \<Longrightarrow> node_at t p = Some d \<Longrightarrow> tree_typed d"
  by (induction p arbitrary: t) (auto split: option.splits dest: tree_typed_children(2))

lemma tree_typed_update:
  assumes "tree_typed t" "\<And>d. node_at t p = Some d \<Longrightarrow> tree_typed (f d)"
  shows "tree_typed (update_at p f t)"
  using assms
proof (induction p arbitrary: t)
  case (Cons n p)
  note t = iffD1 [OF tree_typed_iff Cons.prems(1)]
  let ?cs = "map (\<lambda>(k, c). (k, if k = n then update_at p f c else c)) (tn_children t)"
  have keys: "map fst ?cs = map fst (tn_children t)" by (auto simp: comp_def split_def)
  then have names: "fst ` set ?cs = fst ` set (tn_children t)" by (metis list.set_map)
  have "tree_typed c'" if "(k, c') \<in> set ?cs" for k c'
  proof -
    from that obtain c where c: "(k, c) \<in> set (tn_children t)" "c' = (if k = n then update_at p f c else c)" by auto
    with t have "tree_typed c" "map_of (tn_children t) k = Some c" by (auto simp: map_of_eq_Some_iff)
    with c(2) Cons.IH [of c] Cons.prems(2) show ?thesis by (cases "k = n") simp_all
  qed
  then have "\<forall>(k, c) \<in> set ?cs. tree_typed c" by blast
  moreover have "distinct (map fst ?cs)" unfolding keys using t by blast
  moreover have "fst ` set ?cs \<inter> {ascii ''.'', ascii ''..''} = {}" unfolding names using t by blast
  ultimately have "tree_typed (TreeNode (tn_vnode t) ?cs)"
    by - (rule iffD2 [OF tree_typed_iff], unfold tree_node.sel, intro conjI)
  then show ?case unfolding update_at.simps .
qed simp

lemma tree_typed_vnode: "tree_typed d \<Longrightarrow> tree_typed (TreeNode v (tn_children d))"
  by (rule iffD2 [OF tree_typed_iff], drule iffD1 [OF tree_typed_iff], unfold tree_node.sel)

text \<open>Changing the vnode of a node.\<close>

lemma tree_typed_set: "tree_typed t \<Longrightarrow> tree_typed (update_at p (\<lambda>d. TreeNode (f d) (tn_children d)) t)"
  by (blast intro: tree_typed_update tree_typed_vnode tree_typed_at)

lemma tree_typed_insert:
  assumes "tree_typed t" "node_at t p = Some node" "map_of (tn_children node) nm = None" "nm \<noteq> ascii ''.''" "nm \<noteq> ascii ''..''"
  shows "tree_typed (insert_node p nm vn t)"
  unfolding insert_node_def
proof (rule tree_typed_update [OF assms(1)])
  fix d
  assume "node_at t p = Some d"
  then have d: "d = node" "tree_typed d" using assms(1,2) tree_typed_at by auto
  then show "tree_typed (TreeNode (tn_vnode d) ((nm, TreeNode vn []) # tn_children d))"
    using assms(3-5) iffD1 [OF tree_typed_iff d(2)] d(1) by - (rule iffD2 [OF tree_typed_iff], auto simp: map_of_eq_None_iff)
qed

section \<open>Steps\<close>

lemma vfs_typed_tree:
  "vfs_typed s \<Longrightarrow> (\<And>t. node_tree s = Some t \<Longrightarrow> tree_typed (f t)) \<Longrightarrow> vfs_typed (s\<lparr>node_tree := map_option f (node_tree s)\<rparr>)"
  by (auto simp: vfs_typed_def)

lemma tree_lookup_typed:
  assumes "vfs_typed s" "dyn_tree_lookup ops p nm s = Some (r, s')"
  shows "vfs_typed s' \<and> list_all2 same_mount (mounts s) (mounts s')"
proof (cases "s' = s")
  case False
  with assms(2) obtain t node where n: "nm \<noteq> ascii ''..''" "nm \<noteq> ascii ''.''" "node_tree s = Some t" "node_at t p = Some node"
    "map_of (tn_children node) nm = None"
    by (auto simp: dyn_tree_lookup_def bind_eq_Some_conv split: if_splits option.splits)
  have dyn: "dyn_tree_lookup ops p nm s = io_bind (io_map (\<lambda>ms. s\<lparr>mounts := ms\<rparr>) (dyn_lookup_child ops (tn_vnode node) nm (mounts s)))
      (\<lambda>vn s1. Some (Inr (p @ [nm]), s1\<lparr>node_tree := map_option (insert_node p nm vn) (node_tree s1)\<rparr>))"
    using n by (simp add: dyn_tree_lookup_def)
  with assms(2) obtain x ms where x: "dyn_lookup_child ops (tn_vnode node) nm (mounts s) = Some (x, ms)"
    by (cases "dyn_lookup_child ops (tn_vnode node) nm (mounts s)") auto
  have s': "s' = s\<lparr>mounts := ms\<rparr> \<or> (\<exists>vn. s' = s\<lparr>mounts := ms, node_tree := Some (insert_node p nm vn t)\<rparr>)"
    using assms(2) dyn x n(3) by (cases x) auto
  note m = dyn_lookup_child_same [OF x]
  have "tree_typed t" using assms(1) n(3) by (simp add: vfs_typed_def)
  with n have ins: "tree_typed (insert_node p nm vn t)" for vn by (blast intro: tree_typed_insert)
  show ?thesis
    using s' vfs_typed_mounts [OF assms(1) m] m vfs_typed_tree [OF vfs_typed_mounts [OF assms(1) m], of "insert_node p nm vn" for vn] ins n(3)
    by auto
qed (use assms(1) in simp)

lemma open_parts_typed:
  assumes "vfs_typed s" "dyn_open_parts ops p parts s = Some (r, s')"
  shows "vfs_typed s' \<and> list_all2 same_mount (mounts s) (mounts s')"
  using assms
proof (induction parts arbitrary: p s)
  case (Cons n ns)
  show ?case
  proof (cases "n = []")
    case False
    with Cons.prems(2) obtain x s1 where s1: "dyn_tree_lookup ops p n s = Some (x, s1)"
      by (cases "dyn_tree_lookup ops p n s") auto
    note t = tree_lookup_typed [OF Cons.prems(1) s1]
    show ?thesis
    proof (cases x)
      case (Inr p1)
      with Cons.prems(2) False s1 have "dyn_open_parts ops p1 ns s1 = Some (r, s')" by simp
      from Cons.IH [OF conjunct1 [OF t] this] t show ?thesis by (blast intro: same_mounts_trans)
    qed (use Cons.prems(2) False s1 t in auto)
  qed (use Cons in simp)
qed simp

lemma vfs_open_typed:
  assumes "vfs_typed s" "dyn_vfs_open ops path s = Some (r, s')"
  shows "vfs_typed s'" and "list_all2 same_mount (mounts s) (mounts s')"
proof -
  have "vfs_typed s' \<and> list_all2 same_mount (mounts s) (mounts s')"
    using assms by (auto simp: dyn_vfs_open_def split: if_splits dest: open_parts_typed)
  then show "vfs_typed s'" "list_all2 same_mount (mounts s) (mounts s')" by auto
qed

lemma dyn_mount_typed:
  assumes "dyn_mount ops mp v = Some (Inr u, v')" "mount_point v \<noteq> None" "vfs_fs v \<noteq> None"
  shows "mount_typed v'" "vfs_addr v' = vfs_addr v" "mount_point v' = mount_point v"
  using assms by (auto simp: dyn_mount_def io_bind_eq_ok on_fs_def io_map_eq_Some mount_typed_def split: option.splits)

lemma add_finish_typed:
  assumes "vfs_typed s" "dyn_add_finish ops v mp s = Some (r, s')" "mount_point v = Some mp" "vfs_fs v \<noteq> None"
    and "vfs_addr v \<notin> vfs_addr ` set (mounts s)" "node_tree s \<noteq> None" "(mp = ascii ''/'') = (mounts s = [])"
  shows "vfs_typed s'"
proof (cases "s' = s")
  case False
  with assms(2) obtain u v' where v': "dyn_mount ops mp v = Some (Inr u, v')" "s' = s\<lparr>mounts := mounts s @ [v']\<rparr>"
    by (auto simp: dyn_add_finish_def split: option.splits sum.splits)
  from dyn_mount_typed [OF v'(1)] assms(3,4) have t: "mount_typed v'" "vfs_addr v' = vfs_addr v" "mount_point v' = Some mp" by simp_all
  with assms(1,5-7) v'(2) show ?thesis
    by (cases "mounts s") (auto simp: vfs_typed_def)
qed (use assms(1) in simp)

lemma add_vfs_typed:
  assumes "vfs_typed s" "q \<notin> vfs_addr ` set (mounts s)" "dyn_add_vfs ops q mp fs s = Some (r, s')"
  shows "vfs_typed s'"
proof -
  have new: "mount_point (vfs_new q fs mp) = Some mp" "vfs_fs (vfs_new q fs mp) \<noteq> None" "vfs_addr (vfs_new q fs mp) = q"
    by (simp_all add: vfs_new_def)
  consider "s' = s" | v x where "mp = ascii ''/''" "mounts s = []" "dyn_root ops (vfs_new q fs mp) = Some (Inr x, v)"
      "dyn_add_finish ops v mp (s\<lparr>node_tree := Some (TreeNode x [])\<rparr>) = Some (r, s')"
    | "mp \<noteq> ascii ''/''" "mounts s \<noteq> []" "io_bind (dyn_vfs_open ops mp s) (\<lambda>_ s1. io_bind (dyn_vfs_open ops mp s1) (\<lambda>path s2.
             dyn_add_finish ops (vfs_new q fs mp) mp (s2\<lparr>node_tree := map_option (mount_node path q) (node_tree s2)\<rparr>))) = Some (r, s')"
    using assms(3) by (auto simp: dyn_add_vfs_def Let_def split: if_splits option.splits sum.splits)
  then show ?thesis
  proof cases
    case 1
    with assms(1) show ?thesis by simp
  next
    case (2 v x)
    note sm = dyn_root_same [OF 2(3)]
    then have "mount_point v = Some mp" "vfs_fs v \<noteq> None"
      using new by (simp_all add: same_mount_def)
    moreover have "vfs_typed (s\<lparr>node_tree := Some (TreeNode x [])\<rparr>)" using assms(1) 2(2) by (simp add: vfs_typed_def)
    ultimately show ?thesis using 2 by (intro add_finish_typed [OF _ 2(4)]) simp_all
  next
    case 3
    from 3(3) obtain y s1 where s1: "dyn_vfs_open ops mp s = Some (y, s1)" by (cases "dyn_vfs_open ops mp s") auto
    note t1 = vfs_open_typed [OF assms(1) s1]
    show ?thesis
    proof (cases y)
      case (Inr p1)
      with 3(3) s1 obtain z s2 where s2: "dyn_vfs_open ops mp s1 = Some (z, s2)" by (cases "dyn_vfs_open ops mp s1") auto
      note t2 = vfs_open_typed [OF t1(1) s2]
      show ?thesis
      proof (cases z)
        case (Inr p2)
        let ?s = "s2\<lparr>node_tree := map_option (mount_node p2 q) (node_tree s2)\<rparr>"
        have fin: "dyn_add_finish ops (vfs_new q fs mp) mp ?s = Some (r, s')"
          using 3(3) s1 s2 \<open>y = Inr p1\<close> Inr by simp
        have mt: "tree_typed (mount_node p2 q t)" if "node_tree s2 = Some t" for t
          using t2(1) that by (simp add: vfs_typed_def mount_node_def tree_typed_set)
        have m: "list_all2 same_mount (mounts s) (mounts s2)" using t1(2) t2(2) by (rule same_mounts_trans)
        then have "mounts s2 \<noteq> []" "vfs_addr ` set (mounts s2) = vfs_addr ` set (mounts s)"
          using 3(2) same_mounts_typed(1) [OF m] by (auto, metis image_eqI list.set_map)+
        moreover have "node_tree s2 \<noteq> None" using t2(1) calculation(1) by (simp add: vfs_typed_def)
        ultimately show ?thesis
          using 3(1) assms(2) new vfs_typed_tree [OF t2(1) mt] by (intro add_finish_typed [OF _ fin]) simp_all
      qed (use 3(3) s1 s2 Inr t2(1) in auto)
    qed (use 3(3) s1 t1(1) in auto)
  qed
qed

lemma remove_vfs_keeps: "set (remove_vfs mp ms) \<subseteq> set ms" "distinct (map vfs_addr ms) \<Longrightarrow> distinct (map vfs_addr (remove_vfs mp ms))"
  by (induction ms) auto

lemma del_vfs_typed:
  assumes "vfs_typed s" "del_vfs s mp = (s', r)"
  shows "vfs_typed s'"
proof -
  consider "s' = s" | "s' = s\<lparr>mounts := []\<rparr>" | "mp \<noteq> ascii ''/''" "mounts s \<noteq> []" "s' = s\<lparr>mounts := remove_vfs mp (mounts s)\<rparr>"
    using assms(2) by (auto simp: del_vfs_def split: if_splits sum.splits)
  then show ?thesis
  proof cases
    case 3
    then obtain v vs where v: "mounts s = v # vs" by (cases "mounts s") auto
    with assms(1) 3(1) have "mount_point v = Some (ascii ''/'')" by (simp add: vfs_typed_def)
    with 3(1) v have "remove_vfs mp (mounts s) = v # remove_vfs mp vs" by simp
    with 3 v assms(1) remove_vfs_keeps(1) [of mp vs] remove_vfs_keeps(2) [of vs mp] show ?thesis
      by (auto simp: vfs_typed_def list_all_iff)
  qed (use assms(1) in \<open>simp_all add: vfs_typed_def\<close>)
qed

lemma put_vnode_typed: "vfs_typed s \<Longrightarrow> vfs_typed (put_vnode p vn s)"
  unfolding put_vnode_def by (rule vfs_typed_tree) (auto simp: vfs_typed_def tree_typed_set)

lemma tree_open_typed: "vfs_typed s \<Longrightarrow> tree_open ops p f c s = Some (r, s') \<Longrightarrow> vfs_typed s'"
  by (cases "state_vnode s p"; cases "dyn_open ops (projr (state_vnode s p)) f c")
    (auto simp: tree_open_def node_open_def put_vnode_typed split: if_splits)

lemma tree_close_typed: "vfs_typed s \<Longrightarrow> tree_close ops p f c s = Some (r, s') \<Longrightarrow> vfs_typed s'"
  by (cases "state_vnode s p") (auto simp: tree_close_def node_close_def Let_def put_vnode_typed)

lemma tree_read_typed: "vfs_typed s \<Longrightarrow> tree_read ops p count offset f s = Some (r, s') \<Longrightarrow> vfs_typed s'"
  by (cases "state_vnode s p") (auto simp: tree_read_def io_map_eq_Some intro: vfs_typed_mounts dest: dyn_read_same)

lemma vfs_step_typed:
  assumes "vfs_typed s" "vfs_step ops l s s'"
  shows "vfs_typed s'"
  using assms(2)
proof (cases rule: vfs_step.cases)
  case (step_open path r)
  then show ?thesis by (blast intro: vfs_open_typed(1) [OF assms(1)])
next
  case (step_lookup p nm r)
  then show ?thesis by (blast dest: tree_lookup_typed [OF assms(1)])
next
  case (step_mount q mp fs r)
  then show ?thesis by (blast intro: add_vfs_typed [OF assms(1)])
next
  case (step_unmount mp r)
  then show ?thesis by (blast intro: del_vfs_typed [OF assms(1)])
next
  case (step_open_file p f c r)
  then show ?thesis by (blast intro: tree_open_typed [OF assms(1)])
next
  case (step_close_file p f c r)
  then show ?thesis by (blast intro: tree_close_typed [OF assms(1)])
next
  case (step_read_file p count offset f r)
  then show ?thesis by (blast intro: tree_read_typed [OF assms(1)])
qed

interpretation vfs_runs: inv_system "\<lambda>s. s = vfs_state_init" "vfs_step ops" vfs_typed
  by unfold_locales (simp add: vfs_state_init_def vfs_typed_def, rule vfs_step_typed)

text \<open>C14: the state of the virtual file system is well-typed in every run. From the empty list of mounts, after any sequence of opening paths,
  looking up names, mounting, unmounting, opening, closing and reading files, for file systems that answer in any way, the children of every node
  have distinct names and none is called \<open>.\<close> or \<open>..\<close>; when something is mounted there is a root node and the first mount, and no
  other, is on \<open>/\<close>; and every mount has its own address, a mount point, a file system and its data pointer.\<close>

theorem vfs_run_typed:
  assumes "(\<lambda>s t. \<exists>l. vfs_step ops l s t)\<^sup>*\<^sup>* vfs_state_init s"
  shows "(\<forall>t p d. node_tree s = Some t \<longrightarrow> node_at t p = Some d \<longrightarrow>
        distinct (map fst (tn_children d)) \<and> fst ` set (tn_children d) \<inter> {ascii ''.'', ascii ''..''} = {})
    \<and> (mounts s \<noteq> [] \<longrightarrow> node_tree s \<noteq> None \<and> mount_point (List.hd (mounts s)) = Some (ascii ''/''))
    \<and> (\<forall>v \<in> set (tl (mounts s)). mount_point v \<noteq> Some (ascii ''/''))
    \<and> (\<forall>v \<in> set (mounts s). mount_point v \<noteq> None \<and> vfs_fs v \<noteq> None \<and> vfs_data v)
    \<and> distinct (map vfs_addr (mounts s))"
proof -
  have t: "vfs_typed s" using assms by (rule vfs_runs.inv_reachable [OF refl])
  have "list_all mount_typed (mounts s)" using t by (simp add: vfs_typed_def)
  then have "\<forall>v \<in> set (mounts s). mount_point v \<noteq> None \<and> vfs_fs v \<noteq> None \<and> vfs_data v"
    by (simp add: list_all_iff mount_typed_def)
  moreover have "\<forall>t p d. node_tree s = Some t \<longrightarrow> node_at t p = Some d \<longrightarrow>
      distinct (map fst (tn_children d)) \<and> fst ` set (tn_children d) \<inter> {ascii ''.'', ascii ''..''} = {}"
    using t unfolding vfs_typed_def tree_typed_def by blast
  ultimately show ?thesis using t unfolding vfs_typed_def by blast
qed

section \<open>Reading after unmounting\<close>

text \<open>C23: a file that is still in the tree is read through a dangling pointer after its file system has been unmounted. Unmounting drops the file
  system and keeps the nodes, so a read within the length of such a file follows the pointer to the dropped file
  system. \<^verbatim>\<open>kmain\<close> does this: it unmounts \<open>/mnt\<close> and then reads \<open>/mnt/boot/limine/limine.conf\<close> again.\<close>

theorem read_after_unmount:
  assumes "vfs_typed s" and "del_vfs s mp = (s', Inr ())" and "mp \<noteq> ascii ''/''"
    and "find (\<lambda>v. mount_point v = Some mp) (mounts s) = Some v"
    and "state_vnode s p = Inr vn" and "parent_vfs vn = vfs_addr v"
    and "d_len (snd ops) (inode vn) = Inr n" and "unat offset < unat n" and "unat offset + unat count \<le> unat n"
  shows "state_vnode s' p = Inr vn \<and> tree_read ops p count offset f s' = Some (Inl (Panic RawAccess), s')"
proof -
  from assms(2,3) have s': "s' = s\<lparr>mounts := remove_vfs mp (mounts s)\<rparr>"
    by (auto simp: del_vfs_def split: if_splits sum.splits)
  have "distinct (map vfs_addr (mounts s))" using assms(1) by (simp add: vfs_typed_def)
  then have "find (\<lambda>u. vfs_addr u = vfs_addr v) (remove_vfs mp (mounts s)) = None"
    using remove_vfs_addr [OF assms(4)] by (metis (mono_tags, lifting) find_None_iff image_eqI)
  then have "deref_vfs (mounts s') (parent_vfs vn) = Inl (Panic RawAccess)"
    using assms(6) by (simp add: s' deref_vfs_def)
  then have d: "on_data (parent_vfs vn) g (mounts s') = Some (Inl (Panic RawAccess), mounts s')" for g :: "'a \<Rightarrow> ('a, u8 list) io"
    by (simp add: on_data_def on_vfs_def)
  have "unat (count + offset) = unat count + unat offset"
    using assms(9) unsigned_less [of n, where 'a = nat] by (intro unat_add_no_wrap) simp
  then have "\<not> (offset \<ge> n \<or> count > n \<or> count + offset > n)"
    using assms(8,9) by (simp add: word_le_nat_alt word_less_nat_alt)
  moreover have "state_vnode s' p = Inr vn" using assms(5) by (simp add: s' state_vnode_def)
  ultimately show ?thesis using d assms(7) by (simp add: tree_read_def dyn_read_def)
qed

section \<open>A run\<close>

text \<open>The small tree of files of \<open>toy_ops\<close> as a trait object.\<close>

definition toy_methods :: "(unit, nat, nat) dyn_ops" where
  "toy_methods =
     (\<lparr>d_mount = (\<lambda>path fs. Some (Inr (), fs)), d_unmount = (\<lambda>fs. Some (Inr (), fs)),
       d_root = (\<lambda>fs. Some (op_root toy_ops fs, fs)), d_statfs = (\<lambda>fs. Some (Inl (Panic TodoPanic), fs)),
       d_sync = (\<lambda>fs. Some (Inl (Panic TodoPanic), fs)), d_fid = (\<lambda>path fs. Some (Inl (Panic TodoPanic), fs)),
       d_vget = (\<lambda>fid fs. Some (Inl (Panic TodoPanic), fs))\<rparr>,
      \<lparr>d_open = (\<lambda>f c i. Inr ()), d_close = (\<lambda>f c i. Inr ()),
       d_read = (\<lambda>count offset f c i fs. map_option (\<lambda>r. (r, fs)) (op_read toy_ops fs i count offset)),
       d_write = (\<lambda>offset buf f c i. Inl (Panic TodoPanic)), d_ioctl = (\<lambda>com d f c i. Inl (Panic TodoPanic)),
       d_getattr = (\<lambda>c i. Inl (Panic TodoPanic)), d_setattr = (\<lambda>va c i. Inl (Panic TodoPanic)),
       d_access = (\<lambda>m c i. Inl (Panic TodoPanic)), d_lookup = (\<lambda>nm c i fs. Some (op_lookup toy_ops fs i nm, fs)),
       d_create = (\<lambda>nm va e m c i. Inl (Panic TodoPanic)), d_link = (\<lambda>dir nm c i. Inl (Panic TodoPanic)),
       d_rename = (\<lambda>nm dir tgt c i. Inl (Panic TodoPanic)), d_mkdir = (\<lambda>nm va c i. Inl (Panic TodoPanic)),
       d_readdir = (\<lambda>uiop c i. Inl (Panic TodoPanic)), d_symlink = (\<lambda>nm va tgt c i. Inl (Panic TodoPanic)),
       d_readlink = (\<lambda>uiop c i. Inl (Panic TodoPanic)), d_fsync = (\<lambda>c i. Inl (Panic TodoPanic)), d_len = op_len toy_ops\<rparr>)"

theorem vfs_run_typed_witness:
  "\<exists>s t. dyn_vfs_open toy_methods (ascii ''/a/b'') toy_state = Some (Inr [ascii ''a'', ascii ''b''], s)
     \<and> node_tree s = Some t \<and> distinct (map fst (tn_children t)) \<and> mount_point (List.hd (mounts s)) = Some (ascii ''/'')"
proof -
  have mount: "dyn_add_vfs toy_methods 1 (ascii ''/'') () vfs_state_init = Some (Inr (), toy_state)"
    by (simp add: dyn_add_vfs_def vfs_state_init_def dyn_root_def on_fs_def vfs_new_def toy_methods_def toy_ops_def
        dyn_add_finish_def dyn_mount_def toy_state_def vnode_new_def)
  have "\<exists>s. dyn_vfs_open toy_methods (ascii ''/a/b'') toy_state = Some (Inr [ascii ''a'', ascii ''b''], s) \<and> node_tree s \<noteq> None
      \<and> mounts s \<noteq> []"
    by (simp add: dyn_vfs_open_def toy_state_def ascii_def slash_def dyn_tree_lookup_def insert_node_def dyn_lookup_child_def
        dyn_lookup_def on_data_def on_vfs_def deref_vfs_def on_fs_def vfs_new_def toy_methods_def toy_ops_def vnode_new_def)
  then obtain s t where s: "dyn_vfs_open toy_methods (ascii ''/a/b'') toy_state = Some (Inr [ascii ''a'', ascii ''b''], s)"
    "node_tree s = Some t" "mounts s \<noteq> []" by blast
  have "vfs_step toy_methods CallMount vfs_state_init toy_state" by (rule step_mount [OF _ mount]) (simp add: vfs_state_init_def)
  moreover have "vfs_step toy_methods CallOpen toy_state s" by (rule step_open [OF s(1)])
  ultimately have "(\<lambda>s t. \<exists>l. vfs_step toy_methods l s t)\<^sup>*\<^sup>* vfs_state_init s"
    by (blast intro: rtranclp.rtrancl_into_rtrancl rtranclp.rtrancl_refl)
  from vfs_run_typed [OF this] s have "distinct (map fst (tn_children t))" "mount_point (List.hd (mounts s)) = Some (ascii ''/'')"
    using node_at.simps(1) by blast+
  with s show ?thesis by blast
qed

definition toy_mounted :: "(unit, nat) vfs_state" where
  "toy_mounted = \<lparr>node_tree = Some (TreeNode (vnode_new 0 Directory 1) [(ascii ''a'',
       TreeNode ((vnode_new 1 Directory 1)\<lparr>vfs_mounted_here := Some 2\<rparr>) [(ascii ''b'', TreeNode (vnode_new 2 Regular 2) [])])]),
     mounts = mounts toy_state @ [(vfs_new 2 () (ascii ''/a''))\<lparr>vfs_data := True\<rparr>]\<rparr>"

theorem read_after_unmount_witness:
  "\<exists>s'. del_vfs toy_mounted (ascii ''/a'') = (s', Inr ())
     \<and> tree_read toy_methods [ascii ''a'', ascii ''b''] 8 0 0 s' = Some (Inl (Panic RawAccess), s')"
proof -
  let ?v = "(vfs_new 2 () (ascii ''/a''))\<lparr>vfs_data := True\<rparr>"
  have "tree_typed (the (node_tree toy_mounted))"
    by (rule iffD2 [OF tree_typed_iff])
      (simp add: toy_mounted_def ascii_def, rule iffD2 [OF tree_typed_iff], simp add: ascii_def)
  then have typed: "vfs_typed toy_mounted"
    by (simp add: vfs_typed_def toy_mounted_def toy_state_def mount_typed_def vfs_new_def ascii_def)
  have "path_parts (ascii ''/a'') = [ascii ''a'']" "path_parts (ascii ''/'') = []"
    by (simp_all add: path_parts_def split_terminator_def slash_def ascii_def)
  then obtain s' where del: "del_vfs toy_mounted (ascii ''/a'') = (s', Inr ())"
    by (simp add: del_vfs_def mount_point_busy_def toy_mounted_def toy_state_def vfs_new_def ascii_def)
  have f: "find (\<lambda>v. mount_point v = Some (ascii ''/a'')) (mounts toy_mounted) = Some ?v"
    by (simp add: toy_mounted_def toy_state_def vfs_new_def ascii_def)
  have v: "state_vnode toy_mounted [ascii ''a'', ascii ''b''] = Inr (vnode_new 2 Regular 2)"
    by (simp add: state_vnode_def toy_mounted_def ascii_def)
  have len: "d_len (snd toy_methods) (inode (vnode_new 2 Regular 2)) = Inr 8"
    by (simp add: toy_methods_def toy_ops_def vnode_new_def)
  have "tree_read toy_methods [ascii ''a'', ascii ''b''] 8 0 0 s' = Some (Inl (Panic RawAccess), s')"
    using read_after_unmount [OF typed del _ f v _ len, of 0 8 0] by (simp add: ascii_def vnode_new_def vfs_new_def)
  with del show ?thesis by blast
qed

end
