(* ===== verification/Kernel_Main.thy ===== *)
theory Kernel_Main
  imports Kernel_Fs Ata Pci Console Video Boot Apic Paging
begin

text \<open>
  The start of the kernel, \<^verbatim>\<open>src/main.rs\<close>: \<^verbatim>\<open>_start\<close> and \<^verbatim>\<open>kmain\<close> with every part they call, the responses of the boot loader
  (\<^verbatim>\<open>src/libs/limine.rs\<close>) and the texts they print. The state is a record of all static variables the start touches and
  of the devices; a step may panic or not return. The trace messages that the parts log on their way are left out, as in the models of the parts.
\<close>

section \<open>The boot loader\<close>

record 'ty limine_responses =
  kernel_file_cmdline :: "u8 list option"
  kernel_addresses :: "(u64 \<times> u64) option"
  smp_resp :: "smp_response option"
  rsdp_address :: "usize option"
  framebuffers :: "limine_framebuffer list option"
  modules_resp :: "module_file list option"
  memmap_resp :: "'ty memmap_entry list option"
  hhdm_resp :: "u64 option"
  paging_resp :: "paging_mode option"

definition get_rdsp_ptr :: "'ty limine_responses \<Rightarrow> usize option" where
  "get_rdsp_ptr r = rsdp_address r"

definition get_smp :: "'ty limine_responses \<Rightarrow> smp_response option" where
  "get_smp r = smp_resp r"

definition limine_get_framebuffer :: "'ty limine_responses \<Rightarrow> limine_framebuffer option" where
  "limine_get_framebuffer r = Option.bind (framebuffers r) (\<lambda>fbs. case fbs of [] \<Rightarrow> None | fb # _ \<Rightarrow> Some fb)"

definition get_memmap :: "'ty limine_responses \<Rightarrow> 'ty memmap_entry list res" where
  "get_memmap r = unwrap_opt (memmap_resp r)"

definition get_kernel_address :: "'ty limine_responses \<Rightarrow> (u64 \<times> u64) res" where
  "get_kernel_address r = unwrap_opt (kernel_addresses r)"

definition get_kernel_file :: "'ty limine_responses \<Rightarrow> u8 list option" where
  "get_kernel_file r = kernel_file_cmdline r"

definition get_paging_level :: "'ty limine_responses \<Rightarrow> paging_mode res" where
  "get_paging_level r = unwrap_opt (paging_resp r)"

section \<open>State\<close>

text \<open>What the start runs on: the devices, the addresses of the handlers, the memory types of the boot loader, the drives as block devices
  and the addresses that the heap gives to the boxes of the mounts.\<close>

record ('d, 'ty) machine =
  m_hw :: "'d ports"
  m_apic :: "'d apic_hw"
  m_cpuid :: "u32 \<Rightarrow> u32 \<Rightarrow> cpuid_result"
  m_limine :: "'ty limine_responses"
  m_types :: "'ty \<times> 'ty \<times> 'ty \<times> 'ty"
  m_disk :: "ata_drive \<Rightarrow> block_read"
  m_upper :: "utext \<Rightarrow> utext"
  m_gdt_address :: u64
  m_null_handler :: usize
  m_syscall :: usize
  m_handlers :: exception_handlers
  m_test :: usize
  m_build_id :: "u8 list"
  m_root_box :: vfs_ptr
  m_fat_box :: vfs_ptr

record ('d, 'ty) kernel =
  k_dev :: 'd
  k_poisoned :: bool
  k_gdt :: "gdt \<times> gdt_ptr"
  k_idt :: "idt_entry list"
  k_interrupts :: bool
  k_hhdm :: "usize once_cell_state cell"
  k_memmap :: "'ty memmap_entry list"
  k_vmm :: vmm_state
  k_allocator :: "linked_list_allocator mutex"
  k_acpi :: "acpi once_cell_state cell"
  k_apic :: "apic once_cell_state cell"
  k_cpus :: "smp_response option"
  k_features :: "kernel_features once_cell_state cell"
  k_pci :: "pci_device list"
  k_drives :: "ata_drive list"
  k_vfs :: "(kernel_fs, kernel_ino) vfs_state"
  k_fb :: "framebuffer option once_cell_state cell"

type_synonym ('d, 'ty, 'a) run = "(('d, 'ty) kernel, 'a) io"

section \<open>Messages\<close>

text \<open>\<^verbatim>\<open>{:X?}\<close> of the result of a read.\<close>

fun comma_hex :: "u8 list \<Rightarrow> string" where
  "comma_hex [] = []"
| "comma_hex [b] = show_hex (unat b)"
| "comma_hex (b # bs) = show_hex (unat b) @ '', '' @ comma_hex bs"

fun show_read :: "u8 list res \<Rightarrow> string" where
  "show_read (Inr bs) = ''Ok(['' @ comma_hex bs @ ''])''"
| "show_read (Inl _) = ''Err(())''"

definition k_print :: "('d, 'ty) machine \<Rightarrow> u8 list \<Rightarrow> ('d, 'ty) kernel \<Rightarrow> ('d, 'ty, unit) run" where
  "k_print m s k = map_option (\<lambda>d. (Inr (), k\<lparr>k_dev := d\<rparr>)) (println (m_hw m) s (k_dev k))"

definition banner_1 :: "u8 list" where
  "banner_1 = [0xE2, 0x95, 0x94, 0xE2, 0x95, 0x90, 0xE2, 0x95, 0x97, 0xE2, 0x94, 0x80, 0xE2, 0x94, 0x80, 0xE2, 0x94, 0x80, 0xE2, 0x94,
     0x80, 0xE2, 0x94, 0x80, 0xE2, 0x94, 0x80, 0xE2, 0x94, 0x80, 0xE2, 0x94, 0x80, 0xE2, 0x94, 0x80, 0xE2, 0x94, 0x80, 0xE2,
     0x94, 0x80, 0xE2, 0x94, 0x80, 0xE2, 0x94, 0x80, 0xE2, 0x94, 0x80, 0xE2, 0x94, 0x80, 0xE2, 0x94, 0x80, 0xE2, 0x94, 0x80,
     0xE2, 0x94, 0x80, 0xE2, 0x94, 0x80, 0xE2, 0x95, 0x94, 0xE2, 0x95, 0x97, 0xE2, 0x94, 0x80, 0xE2, 0x94, 0x80, 0xE2, 0x94,
     0x80, 0xE2, 0x94, 0x80, 0xE2, 0x95, 0x94, 0xE2, 0x95, 0x90, 0xE2, 0x95, 0x97, 0xE2, 0x95, 0x94, 0xE2, 0x95, 0x90, 0xE2,
     0x95, 0x90, 0xE2, 0x95, 0x97]"

definition banner_2 :: "u8 list" where
  "banner_2 = [0xE2, 0x95, 0x91, 0xE2, 0x95, 0x94, 0xE2, 0x95, 0x9D, 0xE2, 0x95, 0x94, 0xE2, 0x95, 0x90, 0xE2, 0x95, 0x97, 0x20, 0xE2,
     0x95, 0x94, 0xE2, 0x95, 0x90, 0xE2, 0x95, 0x97, 0xE2, 0x95, 0x94, 0xE2, 0x95, 0x90, 0xE2, 0x95, 0x97, 0xE2, 0x95, 0x94,
     0xE2, 0x95, 0xA6, 0xE2, 0x95, 0x97, 0xE2, 0x95, 0x94, 0xE2, 0x95, 0x90, 0xE2, 0x95, 0x97, 0xE2, 0x95, 0x94, 0xE2, 0x95,
     0x90, 0xE2, 0x95, 0x97, 0xE2, 0x95, 0xA0, 0xE2, 0x95, 0xA3, 0xE2, 0x95, 0x94, 0xE2, 0x95, 0x90, 0xE2, 0x95, 0xA6, 0xE2,
     0x95, 0x97, 0xE2, 0x95, 0x91, 0xE2, 0x95, 0x91, 0xE2, 0x95, 0x91, 0xE2, 0x95, 0x91, 0xE2, 0x95, 0x90, 0xE2, 0x95, 0x90,
     0xE2, 0x95, 0xA3]"

definition banner_3 :: "u8 list" where
  "banner_3 = [0xE2, 0x95, 0x91, 0xE2, 0x95, 0x9A, 0xE2, 0x95, 0x97, 0xE2, 0x95, 0x91, 0xE2, 0x95, 0xAC, 0xE2, 0x95, 0x9A, 0xE2, 0x95,
     0x97, 0xE2, 0x95, 0x91, 0xE2, 0x95, 0xAC, 0xE2, 0x95, 0x91, 0xE2, 0x95, 0x91, 0xE2, 0x95, 0xAC, 0xE2, 0x95, 0x91, 0xE2,
     0x95, 0x91, 0xE2, 0x95, 0x91, 0xE2, 0x95, 0x91, 0xE2, 0x95, 0x91, 0xE2, 0x95, 0x90, 0xE2, 0x95, 0xA3, 0xE2, 0x95, 0x91,
     0xE2, 0x95, 0x90, 0xE2, 0x95, 0xA3, 0xE2, 0x95, 0x91, 0xE2, 0x95, 0x91, 0xE2, 0x95, 0x91, 0xE2, 0x95, 0x91, 0xE2, 0x95,
     0x91, 0xE2, 0x95, 0x91, 0xE2, 0x95, 0x91, 0xE2, 0x95, 0x91, 0xE2, 0x95, 0x91, 0xE2, 0x95, 0xA0, 0xE2, 0x95, 0x90, 0xE2,
     0x95, 0x90, 0xE2, 0x95, 0x91]"

definition banner_4 :: "u8 list" where
  "banner_4 = [0xE2, 0x95, 0x9A, 0xE2, 0x95, 0x90, 0xE2, 0x95, 0x9D, 0xE2, 0x95, 0x9A, 0xE2, 0x95, 0x90, 0xE2, 0x95, 0x90, 0xE2, 0x95,
     0x9D, 0xE2, 0x95, 0x91, 0xE2, 0x95, 0x94, 0xE2, 0x95, 0x9D, 0xE2, 0x95, 0x91, 0xE2, 0x95, 0x94, 0xE2, 0x95, 0x9D, 0xE2,
     0x95, 0x9A, 0xE2, 0x95, 0x90, 0xE2, 0x95, 0x9D, 0xE2, 0x95, 0x9A, 0xE2, 0x95, 0x90, 0xE2, 0x95, 0x9D, 0xE2, 0x95, 0x9A,
     0xE2, 0x95, 0x90, 0xE2, 0x95, 0x9D, 0xE2, 0x95, 0x9A, 0xE2, 0x95, 0x9D, 0xE2, 0x95, 0x9A, 0xE2, 0x95, 0xA9, 0xE2, 0x95,
     0x90, 0xE2, 0x95, 0x9D, 0xE2, 0x95, 0x9A, 0xE2, 0x95, 0x90, 0xE2, 0x95, 0x9D, 0xE2, 0x95, 0x9A, 0xE2, 0x95, 0x90, 0xE2,
     0x95, 0x90, 0xE2, 0x95, 0x9D]"

definition banner_5 :: "u8 list \<Rightarrow> u8 list" where
  "banner_5 build_id = [0xE2, 0x94, 0x80, 0xE2, 0x94, 0x80, 0xE2, 0x94, 0x80, 0xE2, 0x94, 0x80, 0xE2, 0x94, 0x80, 0xE2, 0x94, 0x80, 0xE2, 0x94,
     0x80, 0xE2, 0x95, 0x9A, 0xE2, 0x95, 0x9D, 0xE2, 0x94, 0x80, 0xE2, 0x95, 0x9A, 0xE2, 0x95, 0x9D, 0x20, 0xC2, 0xA9, 0x6A,
     0x75, 0x6C, 0x73, 0x30, 0x37, 0x33, 0x30, 0x20] @ build_id"

text \<open>UTF-8 of the characters below 256 that \<^verbatim>\<open>String::push\<close> appends.\<close>

definition latin_bytes :: "utext \<Rightarrow> u8 list" where
  "latin_bytes cs = concat (map (\<lambda>c. if c < 128 then [of_nat c] else [of_nat (192 + c div 64), of_nat (128 + c mod 64)]) cs)"

definition print_boot_info :: "('d, 'ty) machine \<Rightarrow> ('d, 'ty) kernel \<Rightarrow> ('d, 'ty, unit) run" where
  "print_boot_info m k =
     io_bind (k_print m banner_1 k) (\<lambda>_ k.
     io_bind (k_print m banner_2 k) (\<lambda>_ k.
     io_bind (k_print m banner_3 k) (\<lambda>_ k.
     io_bind (k_print m banner_4 k) (\<lambda>_ k.
     io_bind (k_print m (banner_5 (m_build_id m)) k) (\<lambda>_ k.
     io_bind (k_print m (bytes_of (byte_label_fmt (label_bytes (total_memory (pmm (k_vmm k)))) @ '' of memory available'')) k) (\<lambda>_ k.
     io_bind (k_print m (bytes_of ''The kernel was built in release mode'') k) (\<lambda>_ k.
       case get_processor_brand (\<lambda>leaf. m_cpuid m leaf 0) of
         None \<Rightarrow> Some (Inr (), k)
       | Some brand \<Rightarrow> k_print m (bytes_of ''Detected CPU: '' @ latin_bytes brand) k)))))))"

section \<open>kmain\<close>

text \<open>The options have been set before \<^verbatim>\<open>kmain\<close> runs.\<close>

definition k_ops :: "('d, 'ty) machine \<Rightarrow> ('d, 'ty) kernel \<Rightarrow> (kernel_fs, kernel_ino, kernel_ino) dyn_ops" where
  "k_ops m k = kernel_ops (m_upper m) (case once_get (k_features k) of Inr f \<Rightarrow> kf_fat_in_mem f | Inl _ \<Rightarrow> kf_fat_in_mem default_features)"

definition on_files :: "((kernel_fs, kernel_ino) vfs_state \<Rightarrow> ((kernel_fs, kernel_ino) vfs_state, 'a) io) \<Rightarrow> ('d, 'ty) kernel \<Rightarrow> ('d, 'ty, 'a) run" where
  "on_files f k = io_map (\<lambda>v. k\<lparr>k_vfs := v\<rparr>) (f (k_vfs k))"

text \<open>\<^verbatim>\<open>let _ = ..\<close>: the result is dropped, a panic is not.\<close>

definition io_ignore :: "('s, 'a) io \<Rightarrow> ('s, unit) io" where
  "io_ignore m = map_option (\<lambda>(r, s). (case r of Inl (Panic p) \<Rightarrow> Inl (Panic p) | _ \<Rightarrow> Inr (), s)) m"

definition mount_initramfs :: "('d, 'ty) machine \<Rightarrow> ('d, 'ty) kernel \<Rightarrow> ('d, 'ty, unit) run" where
  "mount_initramfs m k =
     (case initramfs_init (map_option module_bytes (get_module (modules_resp (m_limine m)) (ascii ''initramfs.img''))) of
        Inl e \<Rightarrow> Some (Inl e, k)
      | Inr sq \<Rightarrow> io_ignore (on_files (dyn_add_vfs (k_ops m k) (m_root_box m) (ascii ''/'') (Inl sq)) k))"

definition k_enumerate :: "('d, 'ty) machine \<Rightarrow> ('d, 'ty) kernel \<Rightarrow> ('d, 'ty, unit) run" where
  "k_enumerate m k = (case enumerate_pci_bus (m_hw m) (k_pci k, k_dev k) of (ps, d) \<Rightarrow> Some (Inr (), k\<lparr>k_pci := ps, k_dev := d\<rparr>))"

text \<open>A file is read and printed behind a label; \<open>p\<close> is its node. In the code the temporary file is dropped at the end of the statement,
  behind the print; printing changes the device and dropping the node tree, so the order cannot be seen.\<close>

definition print_node :: "('d, 'ty) machine \<Rightarrow> string \<Rightarrow> node_path \<Rightarrow> usize \<Rightarrow> ('d, 'ty) kernel \<Rightarrow> ('d, 'ty, unit) run" where
  "print_node m label p offset k =
     io_bind (on_files (read_whole (k_ops m k) p offset) k) (\<lambda>r k. k_print m (bytes_of (label @ show_read r)) k)"

definition k_open :: "('d, 'ty) machine \<Rightarrow> string \<Rightarrow> ('d, 'ty) kernel \<Rightarrow> ('d, 'ty, node_path) run" where
  "k_open m name k = io_expect (on_files (dyn_vfs_open (k_ops m k) (ascii name)) k)"

definition print_path :: "('d, 'ty) machine \<Rightarrow> string \<Rightarrow> string \<Rightarrow> ('d, 'ty) kernel \<Rightarrow> ('d, 'ty, unit) run" where
  "print_path m label name k = io_bind (k_open m name k) (\<lambda>p k. print_node m label p 0 k)"

definition k_lookup :: "('d, 'ty) machine \<Rightarrow> node_path \<Rightarrow> string \<Rightarrow> ('d, 'ty) kernel \<Rightarrow> ('d, 'ty, node_path) run" where
  "k_lookup m p nm k = io_expect (on_files (dyn_tree_lookup (k_ops m k) p (ascii nm)) k)"

definition k_ide_init :: "('d, 'ty) machine \<Rightarrow> ('d, 'ty) kernel \<Rightarrow> ('d, 'ty, unit) run" where
  "k_ide_init m k =
     map_option (\<lambda>(r, d). case r of
         Inl e \<Rightarrow> (Inl e, k\<lparr>k_dev := d\<rparr>)
       | Inr (drvs, v) \<Rightarrow> (Inr (), k\<lparr>k_dev := d, k_drives := drvs, k_vfs := v\<rparr>))
       (ide_init (m_hw m) (k_ops m k) Inr (m_disk m) (m_fat_box m) (k_dev k) (k_vfs k))"

text \<open>The file \<^verbatim>\<open>limine.conf\<close> below the node of its directory, twice in the same words.\<close>

definition print_limine :: "('d, 'ty) machine \<Rightarrow> ('d, 'ty) kernel \<Rightarrow> ('d, 'ty, unit) run" where
  "print_limine m k =
     io_bind (k_open m ''/mnt/boot/limine'' k) (\<lambda>dir k.
     io_bind (k_lookup m dir ''limine.conf'' k) (\<lambda>p k. print_node m ''LIMINE BOOT: '' p 0 k))"

definition print_limine_lookup :: "('d, 'ty) machine \<Rightarrow> ('d, 'ty) kernel \<Rightarrow> ('d, 'ty, unit) run" where
  "print_limine_lookup m k =
     io_bind (k_open m ''/'' k) (\<lambda>root k.
     io_bind (k_lookup m root ''mnt'' k) (\<lambda>mnt k.
     io_bind (k_lookup m mnt ''boot'' k) (\<lambda>boot k.
     io_bind (k_lookup m boot ''limine'' k) (\<lambda>dir k.
     io_bind (k_lookup m dir ''limine.conf'' k) (\<lambda>p k. print_node m ''LIMINE BOOT THROUGH LOOKUP: '' p 10 k)))))"

definition k_unmount :: "utext \<Rightarrow> ('d, 'ty) kernel \<Rightarrow> ('d, 'ty, unit) run" where
  "k_unmount mp k = io_ignore (case del_vfs (k_vfs k) mp of (v, r) \<Rightarrow> Some (r, k\<lparr>k_vfs := v\<rparr>))"

definition k_gradient :: "('d, 'ty) machine \<Rightarrow> ('d, 'ty) kernel \<Rightarrow> ('d, 'ty, unit) run" where
  "k_gradient m k =
     (case rbind (get_hhdm_offset (hhdm_resp (m_limine m)) (k_hhdm k)) (\<lambda>(hc, hhdm).
             rbind (draw_gradient hhdm (limine_get_framebuffer (m_limine m)) (k_fb k) (pmm (k_vmm k))) (\<lambda>(fc, s).
               Inr (k\<lparr>k_hhdm := hc, k_fb := fc, k_vmm := k_vmm k\<lparr>pmm := s\<rparr>\<rparr>))) of
        Inl e \<Rightarrow> Some (Inl e, k)
      | Inr k' \<Rightarrow> Some (Inr (), k'))"

text \<open>\<^verbatim>\<open>kmain\<close> up to \<^verbatim>\<open>hcf\<close>, in which the processor halts for ever.\<close>

definition kmain :: "('d, 'ty) machine \<Rightarrow> ('d, 'ty) kernel \<Rightarrow> ('d, 'ty, unit) run" where
  "kmain m k =
     io_bind (print_boot_info m k) (\<lambda>_ k.
     io_bind (mount_initramfs m k) (\<lambda>_ k.
     io_bind (k_enumerate m k) (\<lambda>_ k.
     io_bind (print_path m ''YEAH.TXT: '' ''/firstdir/seconddirbutlonger/yeah.txt'' k) (\<lambda>_ k.
     io_bind (k_ide_init m k) (\<lambda>_ k.
     io_bind (print_limine m k) (\<lambda>_ k.
     io_bind (print_limine_lookup m k) (\<lambda>_ k.
     io_bind (k_unmount (ascii ''/mnt'') k) (\<lambda>_ k.
     io_bind (print_limine m k) (\<lambda>_ k.
       k_gradient m k)))))))))"

section \<open>The entry point\<close>

definition start_memory :: "('d, 'ty) machine \<Rightarrow> ('d, 'ty) kernel \<Rightarrow> ('d, 'ty, unit) run" where
  "start_memory m k =
     (case m_types m of (USABLE, KERNEL_AND_MODULES, RESERVED, BAD_MEMORY) \<Rightarrow>
      case rbind (get_memmap (m_limine m)) (\<lambda>mm.
           rbind (get_hhdm_offset (hhdm_resp (m_limine m)) (k_hhdm k)) (\<lambda>(hc, hhdm). Inr (mm, hc, hhdm))) of
        Inl e \<Rightarrow> Some (Inl e, k)
      | Inr (mm, hc, hhdm) \<Rightarrow>
          let (mm', s) = pmm_init USABLE hhdm mm (pmm (k_vmm k)) in
          (case init_allocator hhdm (k_allocator k) s of
             None \<Rightarrow> None
           | Some (Inl e) \<Rightarrow> Some (Inl e, k)
           | Some (Inr (al, s1)) \<Rightarrow>
               (case rbind (get_paging_level (m_limine m)) (\<lambda>pl.
                     rbind (get_kernel_address (m_limine m)) (\<lambda>(pb, vb). Inr (pl, pb, vb))) of
                  Inl e \<Rightarrow> Some (Inl e, k)
                | Inr (pl, pb, vb) \<Rightarrow>
                    let pf = \<lparr>hhdm_offset = hhdm, paging_level = pl, cpuid_edx = edx (m_cpuid m 0x80000001 0),
                              physical_base = pb, virtual_base = vb\<rparr>
                    in (case vmm_init pf KERNEL_AND_MODULES RESERVED BAD_MEMORY mm' (k_vmm k\<lparr>pmm := s1\<rparr>) of
                          None \<Rightarrow> None
                        | Some (Inl e) \<Rightarrow> Some (Inl e, k)
                        | Some (Inr v) \<Rightarrow> Some (Inr (), k\<lparr>k_hhdm := hc, k_memmap := mm', k_allocator := al, k_vmm := v\<rparr>)))))"

definition start_acpi :: "('d, 'ty) machine \<Rightarrow> ('d, 'ty) kernel \<Rightarrow> ('d, 'ty, unit) run" where
  "start_acpi m k =
     (case get_hhdm_offset (hhdm_resp (m_limine m)) (k_hhdm k) of
        Inl e \<Rightarrow> Some (Inl e, k)
      | Inr (hc, hhdm) \<Rightarrow>
          map_option (\<lambda>(r, d). case r of
              Inl e \<Rightarrow> (Inl e, k\<lparr>k_dev := d\<rparr>)
            | Inr (ac, ap, cpus) \<Rightarrow> (Inr (), k\<lparr>k_dev := d, k_acpi := ac, k_apic := ap, k_cpus := Some cpus\<rparr>))
            (init_acpi (m_hw m) (m_apic m) (m_cpuid m) (ram (pmm (k_vmm k))) hhdm (get_rdsp_ptr (m_limine m)) (get_smp (m_limine m))
               (m_test m) (k_acpi k) (k_apic k) (k_dev k)))"

definition start_tables :: "('d, 'ty) machine \<Rightarrow> ('d, 'ty) kernel \<Rightarrow> ('d, 'ty) kernel" where
  "start_tables m k =
     (case init_serial (m_hw m) (k_poisoned k, k_dev k) of (_, poisoned, d) \<Rightarrow>
        k\<lparr>k_dev := d, k_poisoned := poisoned, k_gdt := gdt_init (m_gdt_address m),
          k_idt := exceptions_init (m_handlers m) (idt_init (m_null_handler m) (m_syscall m) (k_idt k)), k_interrupts := True\<rparr>)"

definition start :: "('d, 'ty) machine \<Rightarrow> ('d, 'ty) kernel \<Rightarrow> ('d, 'ty, unit) run" where
  "start m k =
     io_bind (start_memory m (start_tables m k)) (\<lambda>_ k.
     io_bind (start_acpi m k) (\<lambda>_ k.
     io_bind (case parse_kernel_cmdline (get_kernel_file (m_limine m)) (k_features k) of
                Inl e \<Rightarrow> Some (Inl e, k)
              | Inr f \<Rightarrow> Some (Inr (), k\<lparr>k_features := f\<rparr>)) (\<lambda>_ k.
       kmain m k)))"

section \<open>Unhandled interrupts\<close>

definition null_interrupt_handler :: "('d, 'ty) machine \<Rightarrow> ('d, 'ty) kernel \<Rightarrow> ('d, 'ty, unit) run" where
  "null_interrupt_handler m k =
     (case log (m_hw m) (k_features k) Debug (bytes_of ''Unhandled interrupt!'') (k_dev k) of
        None \<Rightarrow> None
      | Some d \<Rightarrow>
          (case signal_end_of_interrupt (m_apic m) (k_apic k) d of
             Inl e \<Rightarrow> Some (Inl e, k\<lparr>k_dev := d\<rparr>)
           | Inr d' \<Rightarrow> Some (Inr (), k\<lparr>k_dev := d'\<rparr>)))"

text \<open>Interrupts are enabled before the interrupt controllers are found: until then an unhandled interrupt panics the kernel, and afterwards it is
  acknowledged at the local controller.\<close>

lemma null_interrupt_acknowledges:
  assumes "level_code Debug < kernel_log_level (k_features k)"
  shows "null_interrupt_handler m k =
    (case cell_get (k_apic k) of
       Initialized a \<Rightarrow> Some (Inr (), k\<lparr>k_dev := end_of_interrupt (m_apic m) a (k_dev k)\<rparr>)
     | _ \<Rightarrow> Some (Inl (Panic ExplicitPanic), k))"
proof -
  have "log (m_hw m) (k_features k) Debug (bytes_of ''Unhandled interrupt!'') = Some"
    by (rule log_silent_below [OF order_refl assms])
  then show ?thesis
    by (simp add: null_interrupt_handler_def signal_end_of_interrupt_def once_get_unchecked_def split: once_cell_state.splits)
qed

section \<open>What the kernel prints\<close>






end
