(* ===== verification/Spec2Isabelle.thy ===== *)
theory Spec2Isabelle
  imports Prelude Mem Sync Allocator Pmm Gzip Huffman Inflate Utf Uuid Storage Fat Fat_Correct Vfs Vfs_Correct Fat_Vfs
    Chunk_Reader Squashfs Squashfs_Correct Keyboard Ports Ata Ata_Correct Ata_Boot Pci Paging Page_Walk Paging_Correct Vmm_Correct
    Console Stack_Trace Interrupts Traps Trap_Entry Acpi Apic Video Boot Dyn_Vfs Dyn_Vfs_Correct Trait_Objects Squashfs_Cache
    Squashfs_Image Fat_Object Vfs_Typed Kernel_Fs Kernel_Main
begin

text \<open>
  A verification library for toto-os (CappuccinOS), a small x86-64 kernel in Rust.

  \<^bold>\<open>The program and its parts.\<close> The boot loader (limine) starts \<^verbatim>\<open>_start\<close> in \<^verbatim>\<open>src/main.rs\<close>. The kernel sets up the serial port, the
  segment and interrupt tables, the page allocator, the heap, its own page tables, ACPI and the interrupt controllers,
  reads its command line, mounts the initial RAM disk (a squashfs image, compressed with zlib) at the root of the
  virtual file system, enumerates the PCI bus, finds IDE drives and their partitions, mounts FAT partitions and reads
  files through the virtual file system. Programs reach the kernel through one system call.

  \<^bold>\<open>Theories and sources\<close> (paths below \<^verbatim>\<open>src/\<close>). A theory whose name ends in \<^verbatim>\<open>_Correct\<close> holds the proofs about the model before it.
  \<^item> \<^verbatim>\<open>Prelude\<close>: machine integers, outcomes of Rust code, checked slices, little-endian encodings; \<^verbatim>\<open>Utf\<close>: UTF-8, UTF-16 and text.
  \<^item> \<^verbatim>\<open>Mem\<close>: \<^verbatim>\<open>mem/mod.rs\<close>, pointers, byte memory, alignment. \<^verbatim>\<open>Sync\<close>: \<^verbatim>\<open>libs/cell\<close> and \<^verbatim>\<open>libs/sync\<close>, cells and the spin lock, with threads as an
    interleaving step relation and mutual exclusion by rule induction.
  \<^item> \<^verbatim>\<open>Allocator\<close>: \<^verbatim>\<open>mem/allocator.rs\<close>, the free list threaded through memory; refinement to a list of regions, a locale for the contract of
    a heap and its interpretation on the model. \<^verbatim>\<open>Pmm\<close>: \<^verbatim>\<open>mem/pmm.rs\<close>, the page bitmap. \<^verbatim>\<open>Boot\<close>: the heap on top of the pages,
    \<^verbatim>\<open>libs/limine.rs\<close>, the keyboard controller.
  \<^item> \<^verbatim>\<open>Paging\<close>, \<^verbatim>\<open>Page_Walk\<close>, \<^verbatim>\<open>Paging_Correct\<close>, \<^verbatim>\<open>Vmm_Correct\<close>: \<^verbatim>\<open>arch/x86_64/paging.rs\<close> and \<^verbatim>\<open>mem/vmm.rs\<close>; the walk of the processor as the abstract view, the
    effect of a mapping on it, and the address space after boot.
  \<^item> \<^verbatim>\<open>Gzip\<close>, \<^verbatim>\<open>Huffman\<close>, \<^verbatim>\<open>Inflate\<close>: \<^verbatim>\<open>libs/gzip.rs\<close>; the canonical code and the meaning of tokens as specification. \<^verbatim>\<open>Uuid\<close>: \<^verbatim>\<open>libs/uuid.rs\<close>.
  \<^item> \<^verbatim>\<open>Storage\<close>: \<^verbatim>\<open>drivers/storage/mod.rs\<close>, MBR, GPT and partitions. \<^verbatim>\<open>Ports\<close>: \<^verbatim>\<open>arch/x86_64/io.rs\<close>. \<^verbatim>\<open>Ata\<close>, \<^verbatim>\<open>Ata_Correct\<close>, \<^verbatim>\<open>Ata_Boot\<close>:
    \<^verbatim>\<open>drivers/storage/ide.rs\<close>, with the ATA protocol as the contract of a drive. \<^verbatim>\<open>Pci\<close>: \<^verbatim>\<open>drivers/pci.rs\<close>.
  \<^item> \<^verbatim>\<open>Fat\<close>, \<^verbatim>\<open>Fat_Correct\<close>: \<^verbatim>\<open>drivers/fs/fat.rs\<close>. \<^verbatim>\<open>Vfs\<close>, \<^verbatim>\<open>Vfs_Correct\<close>: \<^verbatim>\<open>drivers/fs/vfs.rs\<close>, with an uncached walk as specification of the cached tree.
    \<^verbatim>\<open>Fat_Vfs\<close>: FAT as a file system of the virtual one. \<^verbatim>\<open>Chunk_Reader\<close>, \<^verbatim>\<open>Squashfs\<close>, \<^verbatim>\<open>Squashfs_Correct\<close>: \<^verbatim>\<open>drivers/fs/initramfs\<close>.
  \<^item> \<^verbatim>\<open>Dyn_Vfs\<close>: the virtual file system over the whole traits \<^verbatim>\<open>FsOps\<close> and \<^verbatim>\<open>VNodeOperations\<close>, whose methods may change the file system
    they are called on, with every forwarding method and open files. \<^verbatim>\<open>Dyn_Vfs_Correct\<close>: the locale \<open>fs_model\<close> says when a changing file system
    behaves like a description that never changes, and proves once that the operations of \<open>Dyn_Vfs\<close> then behave like those of
    \<open>Vfs\<close>. \<^verbatim>\<open>Trait_Objects\<close>: two kinds of file system in one list of mounts, a sublocale of \<open>fs_model\<close>. \<^verbatim>\<open>Squashfs_Cache\<close> and \<^verbatim>\<open>Fat_Object\<close>:
    the two traits for squashfs and for FAT as interpretations. \<^verbatim>\<open>Squashfs_Image\<close>: the file at a path as the bytes of an image describe it,
    without the driver. \<^verbatim>\<open>Vfs_Typed\<close>: the invariant of every run. \<^verbatim>\<open>Kernel_Fs\<close>: both file systems
    together. \<^verbatim>\<open>Kernel_Main\<close>: \<^verbatim>\<open>_start\<close>, \<^verbatim>\<open>kmain\<close> and the texts of \<^verbatim>\<open>main.rs\<close>, the getters of \<^verbatim>\<open>libs/limine.rs\<close>, over one record of all statics.
  \<^item> \<^verbatim>\<open>Keyboard\<close>: \<^verbatim>\<open>drivers/keyboard.rs\<close>, the whole handler, with the layout of a US keyboard as specification. \<^verbatim>\<open>Console\<close>: \<^verbatim>\<open>drivers/serial.rs\<close> and messages, options and processor name of \<^verbatim>\<open>main.rs\<close>.
    \<^verbatim>\<open>Stack_Trace\<close>: \<^verbatim>\<open>arch/x86_64/stack_trace.rs\<close>. \<^verbatim>\<open>Interrupts\<close>: \<^verbatim>\<open>arch/x86_64/gdt.rs\<close> and the tables of \<^verbatim>\<open>interrupts/mod.rs\<close>; \<^verbatim>\<open>Traps\<close>: the handlers of
    \<^verbatim>\<open>interrupts/exceptions.rs\<close>, the system call and \<^verbatim>\<open>bin/hello.rs\<close>; \<^verbatim>\<open>Trap_Entry\<close>: the stack that the processor, \<^verbatim>\<open>push_gprs\<close> and the wrappers of the
    handlers build. \<^verbatim>\<open>Acpi\<close>: \<^verbatim>\<open>drivers/acpi.rs\<close>; \<^verbatim>\<open>Apic\<close>: \<^verbatim>\<open>interrupts/apic.rs\<close> and the start of
    ACPI. \<^verbatim>\<open>Video\<close>: \<^verbatim>\<open>drivers/video.rs\<close> and the boot picture of \<^verbatim>\<open>main.rs\<close>.
  \<^item> This theory: a property that spans the FAT driver and the virtual file system.

  \<^bold>\<open>How code becomes definitions.\<close> A struct is a record, an enum a datatype, an integer a word of its width. The kernel is built in
  release mode, so arithmetic wraps. A fallible function returns \<open>'a res\<close>: a value, \<^verbatim>\<open>Err(())\<close> or a panic with its reason;
  \<open>RawAccess\<close> marks an access outside the memory a raw pointer was made for, which is undefined behaviour in Rust. Memory
  is a function from addresses to bytes. State that a function changes is passed and returned; a static is an
  argument. The code outside the repository - the devices, the processor (\<^verbatim>\<open>cpuid\<close>, model-specific registers), the answers of
  the boot loader, Unicode upper-casing - is an argument of the definitions that use it, and the theorems state its
  documented behaviour as a hypothesis with a witness: the ATA protocol, the configuration space of PCI, the register
  window of the I/O interrupt controller. The contract of a drive says no more than the ATA standard: what its error bits
  and address registers show while it is busy is open, and where the driver relies on it the theorems have a second
  outcome (\<open>error_while_busy\<close>, \<open>registers_shown\<close>). Nothing is assumed of the serial line: the driver polls port \<open>0x20\<close> in place of
  the line status, so the theorems say what is written once that port reads as nonzero (\<open>line_ready\<close>, \<open>after_polls\<close>), and that
  the driver does not return when it never does.

  \<^bold>\<open>Loops.\<close> A loop over a list or a counter is structural recursion. A loop that the code does not bound - polling a device,
  following pointers, scanning records of any length - is \<^theory_text>\<open>partial_function (option)\<close> with \<open>None\<close> for a loop that does not return, so
  there is no fuel to choose; that it returns is part of the theorems, and where it does not return under some input
  that is a theorem too. Only \<^verbatim>\<open>for\<close> loops over a range of words are recursion over the list of its numbers.

  \<^bold>\<open>What is shown.\<close> Memory: both allocators keep their invariants, hand out what was free and nothing else, and succeed when they
  can; the heap is built from pages of the page allocator; mapping changes the translation of exactly one page, and the
  boot address space maps memory and kernel. Compression: decoding inverts the canonical Huffman code and the LZ77
  tokens, always returns, and checks the checksum. Storage: a drive that follows the protocol is a block device;
  detection, the partition table and the PCI list are complete. File systems: chains, tables in memory and on disk,
  lookup, slices of metadata blocks, path resolution through caches and mounts, reference counts; for squashfs images with one
  metadata block of inodes and one of listings, that the tables which lookups decompress in place cannot be seen, so that the
  running kernel resolves paths over its images as they were loaded, and that a file in the first fragment of such an
  image is read from mounting to its last byte, as the bytes of the image have it, and printed. Machine: every vector
  leads to its handler, the keyboard line raises the keyboard vector, its handler writes what was typed, tables are found,
  messages and system calls are written to the data port of the serial line, the spin lock excludes and is released. Some theorems show where the code does not do what it means to; they are
  stated as what the code does, next to the operation they are about.

  \<^bold>\<open>Not modelled.\<close> Halting; the instructions that load the tables (\<^verbatim>\<open>lgdt\<close>, \<^verbatim>\<open>lidt\<close>; \<^verbatim>\<open>sti\<close> is a flag of the boot state); the stubs for other
  architectures, whose functions are empty or unimplemented; \<^verbatim>\<open>devfs.rs\<close>, which has no code; the text formatting of Rust beyond the
  messages that appear in the theories, and Debug derives; the trace messages that the parts log on their way; caches of
  the processor, and concurrency outside the spin lock. Compiler output is not looked at: a function that is only
  inline assembly, as \<^verbatim>\<open>push_gprs\<close>, is taken as inlined, without a prologue. Two views of memory are used side by side: bytes, and
  the list nodes of the heap. The virtual file system addresses the nodes of its tree by path and boxes by an
  address that the definitions get as an argument.

  \<^bold>\<open>What could be added.\<close> The interpretation of squashfs as a file system that never changes is for images whose inode table and directory table
  are one metadata block each (8 KiB), as are the theorems about listings; larger images need the search for a block, which the
  code gets wrong for blocks of different sizes. Files with data blocks of their own or in later fragments, whose entries the code
  looks up at a wrong offset, have no theorem about their contents. The correctness of all of \<^verbatim>\<open>kmain\<close> in one statement would compose the theorems about its parts.
\<close>

section \<open>Files across the layers\<close>

text \<open>C17: reading a whole FAT file through the virtual file system. When the clusters of a file form a chain that ends and can be read, reading
  all of the file from its start returns as many bytes of the clusters, in chain order, as the directory entry
  records; an empty file is reported as an error.\<close>

theorem fat_file_through_vfs:
  assumes "inode vn = Archive e" and "vnode_fs ms vn = Inr fs"
    and "cluster_chain fat_in_mem dev fs cs" and "List.hd cs = entry_cluster e" and "cluster_size fs \<noteq> 0"
    and "\<And>c. c \<in> set cs \<Longrightarrow> read_cluster dev fs (ucast c) = Inr (dat c) \<and> length (dat c) = unat (cluster_size fs)"
  shows "file_read_all (fat_ops upper dev fat_in_mem) ms vn 0
    = (if file_size e = 0 then Some (Inl ErrUnit)
       else Some (Inr (take (unat (file_size e)) (concat (map dat cs)))))"
  using assms by (rule fat_read_all)

definition demo_vnode :: "fat_file vnode" where
  "demo_vnode = vnode_new (Archive two_cluster_file) Regular 7"

definition demo_mounts :: "fat_fs vfs list" where
  "demo_mounts = [(vfs_new 7 demo_fat (ascii ''/mnt''))\<lparr>vfs_data := True\<rparr>]"

theorem fat_file_through_vfs_witness:
  "file_read_all (fat_ops (\<lambda>x. x) two_cluster_dev False) demo_mounts demo_vnode 0
    = Some (Inr (demo_cluster 2121 @ demo_cluster 2125))"
proof -
  have "inode demo_vnode = Archive two_cluster_file" "vnode_fs demo_mounts demo_vnode = Inr demo_fat"
    by (simp_all add: demo_vnode_def demo_mounts_def vnode_new_def vfs_new_def vnode_fs_def deref_vfs_def)
  from fat_file_through_vfs [OF this two_cluster_chain, of "\<lambda>x. x"] show ?thesis
    by (simp add: two_cluster_file_def demo_cluster_length)
qed

end
